(* ===== verification/Dots_Prelude.thy ===== *)
theory Dots_Prelude
  imports Main "HOL-Library.Word"
begin

text \<open>
  Shared by every component: the exceptions the C++ code raises, the result type that carries
  them, the sequencing of fallible steps, and the list and lookup lemmas that the components
  use. The collections \<open>result_simps\<close>, \<open>ps_simps\<close>, \<open>invariant_intros\<close> and
  \<open>frame_simps\<close> gather the rules of the same purpose from all theories.
\<close>

named_theorems result_simps "evaluation of the result type"
named_theorems ps_simps "membership in a property set"
named_theorems invariant_intros "preservation of component invariants"
named_theorems frame_simps "state components an operation leaves alone"

section \<open>Exceptions and results\<close>

text \<open>
  The exceptions of the code by the standard class that is thrown, each with the fixed part of
  its message. \<open>UndefinedBehaviour\<close> marks the places where the C++ program has none (a read
  past the end of a buffer, the destruction of storage that holds no object): a theorem that a
  result is not \<open>UndefinedBehaviour\<close> is a memory-safety statement.
\<close>

datatype exn =
    RuntimeError string
  | LogicError string
  | SerializerException string
  | UndefinedBehaviour string

type_synonym 'a result = "exn + 'a"

abbreviation Throw :: "exn \<Rightarrow> 'a result" where
  "Throw e \<equiv> Inl e"

abbreviation Return :: "'a \<Rightarrow> 'a result" where
  "Return x \<equiv> Inr x"

definition bindE :: "'a result \<Rightarrow> ('a \<Rightarrow> 'b result) \<Rightarrow> 'b result" where
  "bindE m f = (case m of Inl e \<Rightarrow> Inl e | Inr x \<Rightarrow> f x)"

lemma bindE_simps [simp, result_simps]:
  "bindE (Inl e) f = Inl e"
  "bindE (Inr x) f = f x"
  by (simp_all add: bindE_def)

lemma bindE_eq_Inr [simp, result_simps]:
  "bindE m f = Inr y \<longleftrightarrow> (\<exists>x. m = Inr x \<and> f x = Inr y)"
  by (cases m) simp_all

lemma bindE_eq_Inl [result_simps]:
  "bindE m f = Inl e \<longleftrightarrow> m = Inl e \<or> (\<exists>x. m = Inr x \<and> f x = Inl e)"
  by (cases m) simp_all

lemma bindE_assoc: "bindE (bindE m f) g = bindE m (\<lambda>x. bindE (f x) g)"
  by (cases m) simp_all

lemma bindE_cong [fundef_cong]:
  "m = m' \<Longrightarrow> (\<And>x. m' = Inr x \<Longrightarrow> f x = f' x) \<Longrightarrow> bindE m f = bindE m' f'"
  by (cases m') simp_all

text \<open>An assertion of the code: the exception unless the condition holds.\<close>

definition assertE :: "bool \<Rightarrow> exn \<Rightarrow> unit result" where
  "assertE b e = (if b then Inr () else Inl e)"

lemma assertE_simps [simp, result_simps]:
  "assertE True e = Inr ()"
  "assertE False e = Inl e"
  "assertE b e = Inr u \<longleftrightarrow> b"
  "assertE b e = Inl e' \<longleftrightarrow> \<not> b \<and> e' = e"
  by (auto simp: assertE_def)

definition is_ub :: "'a result \<Rightarrow> bool" where
  "is_ub r = (case r of Inl (UndefinedBehaviour _) \<Rightarrow> True | _ \<Rightarrow> False)"

lemma is_ub_simps [simp, result_simps]:
  "is_ub (Inl (UndefinedBehaviour s)) = True"
  "is_ub (Inl (RuntimeError s)) = False"
  "is_ub (Inl (LogicError s)) = False"
  "is_ub (Inl (SerializerException s)) = False"
  "is_ub (Inr x) = False"
  by (simp_all add: is_ub_def)

lemma is_ub_bindE [simp]:
  "is_ub (bindE m f) \<longleftrightarrow> is_ub m \<or> (\<exists>x. m = Inr x \<and> is_ub (f x))"
  by (cases m) (auto simp: is_ub_def split: exn.splits)

section \<open>Search in lists\<close>

text \<open>\<open>std::find_if\<close>: the first element that satisfies the predicate, if any.\<close>

lemma find_Some_set: "find P xs = Some x \<Longrightarrow> x \<in> set xs \<and> P x"
  by (induction xs) (auto split: if_splits)

lemma find_unique_key:
  assumes "distinct (map f xs)" and "x \<in> set xs"
  shows "find (\<lambda>y. f y = f x) xs = Some x"
  using assms by (induction xs) (auto simp: image_iff)

lemma find_None_set: "find P xs = None \<longleftrightarrow> (\<forall>x \<in> set xs. \<not> P x)"
  by (auto simp: find_None_iff)

lemma sorted_wrt_filter [intro]: "sorted_wrt R xs \<Longrightarrow> sorted_wrt R (filter P xs)"
  by (induction xs) auto

lemma list_update_nth_eq [simp]: "xs ! i = v \<Longrightarrow> xs[i := v] = xs"
  using list_update_id by blast

end
