(* ===== verification/Property_Set.thy ===== *)
theory Property_Set
  imports Dots_Prelude
begin

unbundle bit_operations_syntax

text \<open>
  The set of property tags, \<open>lib/include/dots/type/PropertySet.h\<close>: a 32-bit word with one bit
  per tag. Every operator of the class is a definition over \<open>32 word\<close>; the abstraction
  \<open>ps_members\<close> reads the word as a set of indices, and each operator is shown to be the set
  operation. The two de Bruijn bit scans (\<open>firstValid\<close>, \<open>lastValid\<close>) are shown to find the
  least and the greatest member. The type is an instance of \<open>boolean_algebra\<close>, so that the
  library's lattice rules apply to it.
\<close>

section \<open>The class and its operators\<close>

datatype property_set = PropertySet (toValue: "32 word")

definition MaxProperties :: nat where
  "MaxProperties = 32"

definition FirstProperty :: nat where
  "FirstProperty = 0"

definition LastProperty :: nat where
  "LastProperty = MaxProperties - 1"

definition ps_None :: property_set where
  "ps_None = PropertySet 0"

definition ps_All :: property_set where
  "ps_All = PropertySet (NOT 0)"

definition ps_empty :: "property_set \<Rightarrow> bool" where
  "ps_empty s \<longleftrightarrow> toValue s = 0"

definition ps_eq :: "property_set \<Rightarrow> property_set \<Rightarrow> bool" where
  "ps_eq s t \<longleftrightarrow> toValue s = toValue t"

text \<open>\<open>operator <=\<close>, and \<open>operator <\<close> as the source derives it from it.\<close>

definition ps_le :: "property_set \<Rightarrow> property_set \<Rightarrow> bool" where
  "ps_le s t \<longleftrightarrow> toValue s AND toValue t = toValue s"

definition ps_lt :: "property_set \<Rightarrow> property_set \<Rightarrow> bool" where
  "ps_lt s t \<longleftrightarrow> toValue s \<noteq> toValue t \<and> ps_le s t"

text \<open>\<open>+=\<close> is union, \<open>-=\<close> difference, \<open>^=\<close> (and \<open>intersect\<close>) intersection.\<close>

definition ps_add :: "property_set \<Rightarrow> property_set \<Rightarrow> property_set" where
  "ps_add s t = PropertySet (toValue s OR toValue t)"

definition ps_sub :: "property_set \<Rightarrow> property_set \<Rightarrow> property_set" where
  "ps_sub s t = PropertySet (toValue s AND NOT (toValue t))"

definition ps_intersect :: "property_set \<Rightarrow> property_set \<Rightarrow> property_set" where
  "ps_intersect s t = PropertySet (toValue s AND toValue t)"

definition ps_complement :: "property_set \<Rightarrow> property_set" where
  "ps_complement s = PropertySet (NOT (toValue s))"

definition symmetricDifference :: "property_set \<Rightarrow> property_set \<Rightarrow> property_set" where
  "symmetricDifference s t = PropertySet (toValue s XOR toValue t)"

text \<open>
  \<open>FromIndex\<close> shifts a one. An index of 32 or more is undefined in C++; the shift of the model
  then gives the empty set, and the theorems that use it ask for an index below 32.
\<close>

definition FromIndex :: "nat \<Rightarrow> property_set" where
  "FromIndex i = PropertySet (push_bit i 1)"

text \<open>\<open>std::bitset\<close>: the number of set bits, and the bits printed from the highest to the lowest.\<close>

definition ps_count :: "property_set \<Rightarrow> nat" where
  "ps_count s = length (filter (bit (toValue s)) [0..<MaxProperties])"

definition ps_toString :: "char \<Rightarrow> char \<Rightarrow> property_set \<Rightarrow> string" where
  "ps_toString zero one s =
     map (\<lambda>i. if bit (toValue s) i then one else zero) (rev [0..<MaxProperties])"

section \<open>The de Bruijn bit scans\<close>

definition DeBruijnFirst :: "nat list" where
  "DeBruijnFirst =
     [0, 1, 28, 2, 29, 14, 24, 3, 30, 22, 20, 15, 25, 17, 4, 8,
      31, 27, 13, 23, 21, 19, 16, 7, 26, 12, 18, 6, 11, 5, 10, 9]"

definition DeBruijnLast :: "nat list" where
  "DeBruijnLast =
     [0, 9, 1, 10, 13, 21, 2, 29, 11, 14, 16, 18, 22, 25, 3, 30,
      8, 12, 20, 28, 15, 17, 24, 7, 19, 27, 23, 6, 26, 5, 4, 31]"

text \<open>
  A shift by 32 or more bits is undefined, so both scans are partial in their start position;
  \<open>None\<close> marks that.
\<close>

definition firstValid :: "property_set \<Rightarrow> nat \<Rightarrow> nat option" where
  "firstValid s start =
     (if start \<ge> MaxProperties then None
      else
        let value = push_bit start (drop_bit start (toValue s))
        in Some (DeBruijnFirst !
             unat (drop_bit 27 ((value AND (NOT value + 1)) * (0x077CB531 :: 32 word)))))"

definition smear :: "32 word \<Rightarrow> 32 word" where
  "smear v0 =
     (let v1 = v0 OR drop_bit 1 v0;
          v2 = v1 OR drop_bit 2 v1;
          v4 = v2 OR drop_bit 4 v2;
          v8 = v4 OR drop_bit 8 v4
      in v8 OR drop_bit 16 v8)"

definition lastValid :: "property_set \<Rightarrow> nat \<Rightarrow> nat option" where
  "lastValid s start =
     (if start \<ge> MaxProperties then None
      else
        let distance = LastProperty - start;
            value = drop_bit distance (push_bit distance (toValue s))
        in Some (DeBruijnLast ! unat (drop_bit 27 (smear value * (0x07C4ACDD :: 32 word)))))"

section \<open>The abstraction to sets of indices\<close>

definition ps_members :: "property_set \<Rightarrow> nat set" where
  "ps_members s = {i. bit (toValue s) i}"

lemma toValue_inject: "toValue s = toValue t \<longleftrightarrow> s = t"
  by (cases s; cases t) simp

lemma mem_less_32: "i \<in> ps_members s \<Longrightarrow> i < 32"
  using bit_imp_le_length [of "toValue s" i] by (simp add: ps_members_def)

lemma ps_members_subset: "ps_members s \<subseteq> {..<32}"
  by (auto dest: mem_less_32)

lemma finite_ps_members [simp]: "finite (ps_members s)"
  by (rule finite_subset [OF ps_members_subset]) simp

lemma ps_members_inject: "ps_members s = ps_members t \<longleftrightarrow> s = t"
proof
  assume "ps_members s = ps_members t"
  then have "bit (toValue s) = bit (toValue t)"
    by (auto simp: ps_members_def fun_eq_iff)
  then have "toValue s = toValue t"
    by (simp add: bit_eq_iff)
  then show "s = t" by (simp add: toValue_inject)
qed simp

lemma ps_eqI: "ps_members s = ps_members t \<Longrightarrow> s = t"
  by (simp add: ps_members_inject)

lemma ps_members_ops [simp, ps_simps]:
  "ps_members ps_None = {}"
  "ps_members ps_All = {..<32}"
  "ps_members (ps_add s t) = ps_members s \<union> ps_members t"
  "ps_members (ps_sub s t) = ps_members s - ps_members t"
  "ps_members (ps_intersect s t) = ps_members s \<inter> ps_members t"
  "ps_members (ps_complement s) = {..<32} - ps_members s"
  "ps_members (symmetricDifference s t) =
     (ps_members s - ps_members t) \<union> (ps_members t - ps_members s)"
  by (auto simp: ps_members_def ps_None_def ps_All_def ps_add_def ps_sub_def ps_intersect_def
      ps_complement_def symmetricDifference_def bit_simps dest: bit_imp_le_length)

lemma ps_members_FromIndex [simp, ps_simps]:
  "i < 32 \<Longrightarrow> ps_members (FromIndex i) = {i}"
  by (auto simp: ps_members_def FromIndex_def bit_simps)

lemma ps_le_iff [simp, ps_simps]: "ps_le s t \<longleftrightarrow> ps_members s \<subseteq> ps_members t"
proof -
  have "ps_le s t \<longleftrightarrow> ps_intersect s t = s"
    by (simp add: ps_le_def ps_intersect_def toValue_inject [symmetric])
  also have "\<dots> \<longleftrightarrow> ps_members s \<inter> ps_members t = ps_members s"
    by (simp add: ps_members_inject [symmetric])
  finally show ?thesis by blast
qed

lemma ps_lt_iff [simp, ps_simps]: "ps_lt s t \<longleftrightarrow> ps_members s \<subset> ps_members t"
  by (auto simp: ps_lt_def toValue_inject ps_members_inject [symmetric])

lemma ps_eq_iff [simp, ps_simps]: "ps_eq s t \<longleftrightarrow> s = t"
  by (simp add: ps_eq_def toValue_inject)

lemma ps_empty_iff [simp, ps_simps]: "ps_empty s \<longleftrightarrow> ps_members s = {}"
proof -
  have "ps_empty s \<longleftrightarrow> s = ps_None"
    by (cases s) (simp add: ps_empty_def ps_None_def)
  also have "\<dots> \<longleftrightarrow> ps_members s = ps_members ps_None"
    by (simp only: ps_members_inject)
  finally show ?thesis by simp
qed

lemma ps_count_card: "ps_count s = card (ps_members s)"
proof -
  have "ps_members s = set (filter (bit (toValue s)) [0..<32])"
    using bit_imp_le_length [of "toValue s"] by (auto simp: ps_members_def)
  then show ?thesis
    by (simp only: ps_count_def MaxProperties_def distinct_card distinct_filter distinct_upt)
qed

section \<open>A boolean algebra\<close>

instantiation property_set :: boolean_algebra
begin

definition bot_property_set :: property_set where "bot_property_set = ps_None"

definition top_property_set :: property_set where "top_property_set = ps_All"

definition less_eq_property_set :: "property_set \<Rightarrow> property_set \<Rightarrow> bool" where
  "less_eq_property_set = ps_le"

definition less_property_set :: "property_set \<Rightarrow> property_set \<Rightarrow> bool" where
  "less_property_set = ps_lt"

definition sup_property_set :: "property_set \<Rightarrow> property_set \<Rightarrow> property_set" where
  "sup_property_set = ps_add"

definition inf_property_set :: "property_set \<Rightarrow> property_set \<Rightarrow> property_set" where
  "inf_property_set = ps_intersect"

definition minus_property_set :: "property_set \<Rightarrow> property_set \<Rightarrow> property_set" where
  "minus_property_set = ps_sub"

definition uminus_property_set :: "property_set \<Rightarrow> property_set" where
  "uminus_property_set = ps_complement"

lemmas property_set_class_defs =
  bot_property_set_def top_property_set_def less_eq_property_set_def less_property_set_def
  sup_property_set_def inf_property_set_def minus_property_set_def uminus_property_set_def

instance
  by standard
    (auto simp: property_set_class_defs ps_members_inject [symmetric] dest: mem_less_32)

end

section \<open>The first member\<close>

lemma lowest_bit_isolated:
  fixes v :: "'a::len word"
  assumes k: "bit v k" and low: "\<And>j. j < k \<Longrightarrow> \<not> bit v j"
  shows "v AND (NOT v + 1) = push_bit k 1"
proof -
  have klen: "k < LENGTH('a)" using k by (rule bit_imp_le_length)
  define u where "u = v AND NOT (push_bit k 1)"
  have disj: "u AND push_bit k 1 = 0"
    by (rule bit_eqI) (auto simp: u_def bit_simps)
  have v_eq: "v = u + push_bit k 1"
  proof -
    have "v = u OR push_bit k 1"
      using k by (intro bit_eqI) (auto simp: u_def bit_simps)
    then show ?thesis using disj by (simp add: disjunctive_add_eq_or)
  qed
  have m_disj: "u AND mask k = 0"
    using low by (intro bit_eqI) (auto simp: u_def bit_simps)
  have "v - 1 = u + mask k"
    using v_eq by (simp add: mask_eq_exp_minus_1)
  also have "\<dots> = u OR mask k"
    using m_disj by (simp add: disjunctive_add_eq_or)
  finally have dec: "v - 1 = u OR mask k" .
  have "NOT v + 1 = NOT (v - 1)"
    by (metis minus_eq_not_minus_1 minus_eq_not_plus_1)
  then have "NOT v + 1 = NOT (u OR mask k)"
    by (simp only: dec)
  then show ?thesis
    using k low klen by (intro bit_eqI) (auto simp: u_def bit_simps)
qed

lemma DeBruijnFirst_inverse:
  assumes "k < 32"
  shows "DeBruijnFirst ! unat (drop_bit 27 (push_bit k 1 * (0x077CB531 :: 32 word))) = k"
proof -
  have "\<forall>k \<in> set [0..<32].
      DeBruijnFirst ! unat (drop_bit 27 (push_bit k 1 * (0x077CB531 :: 32 word))) = k"
    by code_simp
  with assms show ?thesis by simp
qed

lemma DeBruijnLast_inverse:
  assumes "k < 32"
  shows "DeBruijnLast ! unat (drop_bit 27 (mask (Suc k) * (0x07C4ACDD :: 32 word))) = k"
proof -
  have "\<forall>k \<in> set [0..<32].
      DeBruijnLast ! unat (drop_bit 27 (mask (Suc k) * (0x07C4ACDD :: 32 word))) = k"
    by code_simp
  with assms show ?thesis by simp
qed

text \<open>The DeBruijn multiplication of firstValid finds the least member of a property set from a
  start index on, where there is one.\<close>

theorem firstValid_is_least:
  assumes start: "start < 32" and m: "i \<in> ps_members s" "start \<le> i"
  shows "firstValid s start = Some (Min {j \<in> ps_members s. start \<le> j})"
proof -
  let ?M = "{j \<in> ps_members s. start \<le> j}"
  let ?masked = "push_bit start (drop_bit start (toValue s))"
  have fin: "finite ?M" and ne: "?M \<noteq> {}" using m by auto
  define k where "k = Min ?M"
  have kM: "k \<in> ?M" using Min_in [OF fin ne] by (simp add: k_def)
  have value_bit: "bit ?masked j \<longleftrightarrow> j \<in> ?M" for j
    using start mem_less_32 [of j s]
    by (auto simp: bit_simps ps_members_def dest: bit_imp_le_length)
  have "\<not> bit ?masked j" if "j < k" for j
    using that Min_le [OF fin, of j] by (auto simp: value_bit k_def simp flip: not_le)
  then have "?masked AND (NOT ?masked + 1) = push_bit k 1"
    using kM by (intro lowest_bit_isolated) (simp_all add: value_bit)
  moreover have "k < 32"
    using kM mem_less_32 by blast
  ultimately have "firstValid s start = Some k"
    using start DeBruijnFirst_inverse [of k] by (simp add: firstValid_def MaxProperties_def Let_def)
  then show ?thesis by (simp only: k_def)
qed

lemma firstValid_is_least_witness:
  "firstValid (ps_add (FromIndex 3) (FromIndex 7)) 4
     = Some (Min {j \<in> ps_members (ps_add (FromIndex 3) (FromIndex 7)). 4 \<le> j})"
  by (rule firstValid_is_least [of 4 7]) simp_all

section \<open>The last member\<close>

lemma bit_smear_step:
  fixes v w :: "'a::len word"
  assumes w: "\<And>n. bit w n \<longleftrightarrow> (\<exists>m. n \<le> m \<and> m < n + d \<and> bit v m)"
  shows "bit (w OR drop_bit d w) n \<longleftrightarrow> (\<exists>m. n \<le> m \<and> m < n + (d + d) \<and> bit v m)"
proof -
  have "bit (w OR drop_bit d w) n \<longleftrightarrow>
      (\<exists>m. n \<le> m \<and> m < n + d \<and> bit v m) \<or> (\<exists>m. n + d \<le> m \<and> m < n + d + d \<and> bit v m)"
    by (simp add: bit_simps w add.commute [of d n])
  also have "\<dots> \<longleftrightarrow> (\<exists>m. (n \<le> m \<and> m < n + d \<or> n + d \<le> m \<and> m < n + d + d) \<and> bit v m)"
    by blast
  also have "\<dots> \<longleftrightarrow> (\<exists>m. n \<le> m \<and> m < n + (d + d) \<and> bit v m)"
    by (rule ex_cong1) auto
  finally show ?thesis .
qed

lemma bit_smear: "bit (smear v) n \<longleftrightarrow> (\<exists>m. n \<le> m \<and> bit v m)"
proof -
  define v1 where "v1 = v OR drop_bit 1 v"
  define v2 where "v2 = v1 OR drop_bit 2 v1"
  define v4 where "v4 = v2 OR drop_bit 4 v2"
  define v8 where "v8 = v4 OR drop_bit 8 v4"
  have 0: "\<And>n. bit v n \<longleftrightarrow> (\<exists>m. n \<le> m \<and> m < n + 1 \<and> bit v m)"
    by (auto simp: less_Suc_eq_le dest: order_antisym)
  have 1: "\<And>n. bit v1 n \<longleftrightarrow> (\<exists>m. n \<le> m \<and> m < n + 2 \<and> bit v m)"
    using bit_smear_step [OF 0] by (simp add: v1_def)
  have 2: "\<And>n. bit v2 n \<longleftrightarrow> (\<exists>m. n \<le> m \<and> m < n + 4 \<and> bit v m)"
    using bit_smear_step [OF 1] by (simp add: v2_def)
  have 4: "\<And>n. bit v4 n \<longleftrightarrow> (\<exists>m. n \<le> m \<and> m < n + 8 \<and> bit v m)"
    using bit_smear_step [OF 2] by (simp add: v4_def)
  have 8: "\<And>n. bit v8 n \<longleftrightarrow> (\<exists>m. n \<le> m \<and> m < n + 16 \<and> bit v m)"
    using bit_smear_step [OF 4] by (simp add: v8_def)
  have "smear v = v8 OR drop_bit 16 v8"
    by (simp add: smear_def Let_def v1_def v2_def v4_def v8_def)
  then have "bit (smear v) n \<longleftrightarrow> (\<exists>m. n \<le> m \<and> m < n + 32 \<and> bit v m)"
    using bit_smear_step [OF 8, of n] by simp
  also have "\<dots> \<longleftrightarrow> (\<exists>m. n \<le> m \<and> bit v m)"
    by (rule ex_cong1) (auto dest: bit_imp_le_length)
  finally show ?thesis .
qed

text \<open>The DeBruijn multiplication of lastValid finds the greatest member of a property set up to a
  start index, where there is one.\<close>

theorem lastValid_is_greatest:
  assumes start: "start < 32" and m: "i \<in> ps_members s" "i \<le> start"
  shows "lastValid s start = Some (Max {j \<in> ps_members s. j \<le> start})"
proof -
  let ?M = "{j \<in> ps_members s. j \<le> start}"
  let ?d = "31 - start"
  let ?masked = "drop_bit ?d (push_bit ?d (toValue s))"
  have fin: "finite ?M" and ne: "?M \<noteq> {}" using m by auto
  define k where "k = Max ?M"
  have kM: "k \<in> ?M" using Max_in [OF fin ne] by (simp add: k_def)
  have value_bit: "bit ?masked j \<longleftrightarrow> j \<in> ?M" for j
    using start mem_less_32 [of j s]
    by (auto simp: bit_simps ps_members_def dest: bit_imp_le_length)
  have k32: "k < 32" using kM mem_less_32 by blast
  have "(\<exists>m. n \<le> m \<and> bit ?masked m) \<longleftrightarrow> n \<le> k" for n
    using kM Max_ge [OF fin] by (auto simp: value_bit k_def intro: order_trans)
  then have "smear ?masked = mask (Suc k)"
    using k32 by (intro bit_eqI) (auto simp: bit_smear bit_simps less_Suc_eq_le)
  then have "lastValid s start = Some k"
    using start DeBruijnLast_inverse [OF k32]
    by (simp add: lastValid_def MaxProperties_def LastProperty_def Let_def)
  then show ?thesis by (simp only: k_def)
qed

lemma lastValid_is_greatest_witness:
  "lastValid (ps_add (FromIndex 3) (FromIndex 7)) 5
     = Some (Max {j \<in> ps_members (ps_add (FromIndex 3) (FromIndex 7)). j \<le> 5})"
  by (rule lastValid_is_greatest [of 5 3]) simp_all

end
