(* ===== verification/Type_Model.thy ===== *)
theory Type_Model
  imports Property_Set
begin

unbundle bit_operations_syntax

text \<open>
  The type system: descriptors (\<open>Descriptor.h\<close>, \<open>EnumDescriptor.h\<close>, \<open>PropertyDescriptor.h\<close>,
  \<open>StructDescriptor.h\<close>), the values they describe, and the memory of a struct instance.
  A \<open>PropertyArea\<close> is the valid set and the storage of the properties; the storage at the
  offset of the \<open>i\<close>-th property is the \<open>i\<close>-th slot, which is \<open>None\<close> while no object lives
  there. Both are kept, as in the code, so that an operation that destroys or reads storage
  without an object is visible (\<open>UndefinedBehaviour\<close>), and \<open>wf_area\<close> states that the two agree.
\<close>

section \<open>Descriptors\<close>

text \<open>The fundamental members of \<open>enum struct Type\<close>.\<close>

datatype fund_type =
    T_boolean
  | T_int8 | T_uint8 | T_int16 | T_uint16 | T_int32 | T_uint32 | T_int64 | T_uint64
  | T_float32 | T_float64
  | T_property_set
  | T_timepoint | T_steady_timepoint | T_duration
  | T_uuid | T_string

datatype enumerator =
  EnumeratorDescriptor (en_tag: "32 word") (en_name: string) (en_value: "32 word")

datatype descr =
    Fundamental fund_type
  | EnumDescriptor string "enumerator list"
  | VectorDescriptor descr
  | StructD sdesc
and sdesc =
    StructDescriptor (sd_name: string) (sd_flags: "8 word") (propertyDescriptors: "pdesc list")
and pdesc =
    PropertyDescriptor (valueDescriptor: descr) (pd_name: string) (pd_tag: "32 word") (isKey: bool)

text \<open>\<open>Type\<close> without the fundamental cases spelled out, as \<open>type()\<close> is used in the code.\<close>

definition is_struct_descr :: "descr \<Rightarrow> bool" where
  "is_struct_descr d = (case d of StructD _ \<Rightarrow> True | _ \<Rightarrow> False)"

fun isFundamentalType :: "descr \<Rightarrow> bool" where
  "isFundamentalType (Fundamental _) = True"
| "isFundamentalType (EnumDescriptor _ _) = False"
| "isFundamentalType (VectorDescriptor d) = isFundamentalType d"
| "isFundamentalType (StructD _) = False"

text \<open>\<open>m_set\<close> of a property descriptor: the singleton of its tag.\<close>

definition pd_index :: "pdesc \<Rightarrow> nat" where
  "pd_index p = unat (pd_tag p)"

definition pd_set :: "pdesc \<Rightarrow> property_set" where
  "pd_set p = FromIndex (pd_index p)"

text \<open>The flag constants and predicates of \<open>StructDescriptor.h\<close>.\<close>

definition Flag_Cached :: "8 word" where "Flag_Cached = 1"
definition Flag_Internal :: "8 word" where "Flag_Internal = 2"
definition Flag_Persistent :: "8 word" where "Flag_Persistent = 4"
definition Flag_Cleanup :: "8 word" where "Flag_Cleanup = 8"
definition Flag_Local :: "8 word" where "Flag_Local = 16"
definition Flag_SubstructOnly :: "8 word" where "Flag_SubstructOnly = 32"

definition cached :: "sdesc \<Rightarrow> bool" where
  "cached sd \<longleftrightarrow> sd_flags sd AND Flag_Cached \<noteq> 0"

definition internal :: "sdesc \<Rightarrow> bool" where
  "internal sd \<longleftrightarrow> sd_flags sd AND Flag_Internal \<noteq> 0"

definition persistent :: "sdesc \<Rightarrow> bool" where
  "persistent sd \<longleftrightarrow> sd_flags sd AND Flag_Persistent \<noteq> 0"

definition cleanup :: "sdesc \<Rightarrow> bool" where
  "cleanup sd \<longleftrightarrow> sd_flags sd AND Flag_Cleanup \<noteq> 0"

definition local_only :: "sdesc \<Rightarrow> bool" where
  "local_only sd \<longleftrightarrow> sd_flags sd AND Flag_Local \<noteq> 0"

definition substructOnly :: "sdesc \<Rightarrow> bool" where
  "substructOnly sd \<longleftrightarrow> sd_flags sd AND Flag_SubstructOnly \<noteq> 0"

text \<open>The loop of the \<open>StructDescriptor\<close> constructor over its property descriptors.\<close>

fun usesDynamicMemory :: "descr \<Rightarrow> bool"
and dynamicMemoryProperties :: "pdesc list \<Rightarrow> property_set" where
  "usesDynamicMemory (Fundamental t) = (t = T_string)"
| "usesDynamicMemory (EnumDescriptor _ _) = False"
| "usesDynamicMemory (VectorDescriptor _) = True"
| "usesDynamicMemory (StructD (StructDescriptor _ _ ps)) =
     (\<not> ps_empty (dynamicMemoryProperties ps))"
| "dynamicMemoryProperties [] = ps_None"
| "dynamicMemoryProperties (PropertyDescriptor d n t k # ps) =
     (if usesDynamicMemory d
      then ps_add (pd_set (PropertyDescriptor d n t k)) (dynamicMemoryProperties ps)
      else dynamicMemoryProperties ps)"

definition properties :: "sdesc \<Rightarrow> property_set" where
  "properties sd = fold (\<lambda>p acc. ps_add acc (pd_set p)) (propertyDescriptors sd) ps_None"

definition keyProperties :: "sdesc \<Rightarrow> property_set" where
  "keyProperties sd =
     fold (\<lambda>p acc. if isKey p then ps_add acc (pd_set p) else acc) (propertyDescriptors sd) ps_None"

definition numSubStructs :: "sdesc \<Rightarrow> nat" where
  "numSubStructs sd =
     fold (\<lambda>p n. if is_struct_descr (valueDescriptor p) then Suc n else n) (propertyDescriptors sd) 0"

text \<open>\<open>propertyDescriptors(properties)\<close>: the descriptors whose tag is in the set.\<close>

definition partialDescriptors :: "sdesc \<Rightarrow> property_set \<Rightarrow> pdesc list" where
  "partialDescriptors sd s = filter (\<lambda>p. ps_le (pd_set p) s) (propertyDescriptors sd)"

section \<open>Enumerators\<close>

text \<open>The three lookups of \<open>EnumDescriptor.cpp\<close>; the first match wins, no match throws.\<close>

definition enumeratorFromTag :: "enumerator list \<Rightarrow> 32 word \<Rightarrow> enumerator result" where
  "enumeratorFromTag es t =
     (case find (\<lambda>e. en_tag e = t) es of
        None \<Rightarrow> Inl (LogicError ''enum does not have enumerator with given tag'')
      | Some e \<Rightarrow> Inr e)"

definition enumeratorFromName :: "enumerator list \<Rightarrow> string \<Rightarrow> enumerator result" where
  "enumeratorFromName es n =
     (case find (\<lambda>e. en_name e = n) es of
        None \<Rightarrow> Inl (LogicError ''enum does not have enumerator with given name'')
      | Some e \<Rightarrow> Inr e)"

definition enumeratorFromValue :: "enumerator list \<Rightarrow> 32 word \<Rightarrow> enumerator result" where
  "enumeratorFromValue es v =
     (case find (\<lambda>e. en_value e = v) es of
        None \<Rightarrow> Inl (LogicError ''enum does not have enumerator with given value'')
      | Some e \<Rightarrow> Inr e)"

section \<open>Values and the memory of an instance\<close>

text \<open>
  Floating-point values are kept as their IEEE 754 bit patterns; time points and durations are
  a \<open>double\<close> count of seconds (\<open>Chrono.h\<close>), and an enum value is its \<open>int32\<close>.
\<close>

datatype val =
    VBool bool
  | VInt8 "8 word" | VUInt8 "8 word"
  | VInt16 "16 word" | VUInt16 "16 word"
  | VInt32 "32 word" | VUInt32 "32 word"
  | VInt64 "64 word" | VUInt64 "64 word"
  | VFloat32 "32 word" | VFloat64 "64 word"
  | VPropertySet property_set
  | VTimepoint "64 word" | VSteadyTimepoint "64 word" | VDuration "64 word"
  | VUuid "8 word list"
  | VString string
  | VEnum "32 word"
  | VVector "val list"
  | VStruct area
and area = Area (validProperties: property_set) (slots: "val option list")

text \<open>A struct instance (\<open>Struct\<close>): its descriptor and its property area.\<close>

record inst =
  descriptor :: sdesc
  propertyArea :: area

end
