(* ===== verification/Value_Order.thy ===== *)
theory Value_Order
  imports Type_Model
begin

unbundle bit_operations_syntax

text \<open>
  Equality and order of values as the descriptors define them (\<open>equal\<close>, \<open>less\<close>):
  \<open>std::equal_to\<close> and \<open>std::less\<close> of the fundamental types (IEEE 754 for the floating-point
  ones, strict inclusion for property sets), \<open>int32\<close> for enums, lexicographic for vectors and
  property by property for structs, where an invalid property is below every valid one
  (\<open>Property.h\<close>).
\<close>

section \<open>IEEE 754 comparison on bit patterns\<close>

definition f32_isnan :: "32 word \<Rightarrow> bool" where
  "f32_isnan w \<longleftrightarrow> drop_bit 23 w AND mask 8 = mask 8 \<and> w AND mask 23 \<noteq> 0"

definition f64_isnan :: "64 word \<Rightarrow> bool" where
  "f64_isnan w \<longleftrightarrow> drop_bit 52 w AND mask 11 = mask 11 \<and> w AND mask 52 \<noteq> 0"

text \<open>Sign and magnitude as an integer that is ordered like the floating-point number.\<close>

definition f32_key :: "32 word \<Rightarrow> int" where
  "f32_key w = (if bit w 31 then - uint (w AND mask 31) else uint (w AND mask 31))"

definition f64_key :: "64 word \<Rightarrow> int" where
  "f64_key w = (if bit w 63 then - uint (w AND mask 63) else uint (w AND mask 63))"

definition f32_less :: "32 word \<Rightarrow> 32 word \<Rightarrow> bool" where
  "f32_less a b \<longleftrightarrow> \<not> f32_isnan a \<and> \<not> f32_isnan b \<and> f32_key a < f32_key b"

definition f32_equal :: "32 word \<Rightarrow> 32 word \<Rightarrow> bool" where
  "f32_equal a b \<longleftrightarrow> \<not> f32_isnan a \<and> \<not> f32_isnan b \<and> f32_key a = f32_key b"

definition f64_less :: "64 word \<Rightarrow> 64 word \<Rightarrow> bool" where
  "f64_less a b \<longleftrightarrow> \<not> f64_isnan a \<and> \<not> f64_isnan b \<and> f64_key a < f64_key b"

definition f64_equal :: "64 word \<Rightarrow> 64 word \<Rightarrow> bool" where
  "f64_equal a b \<longleftrightarrow> \<not> f64_isnan a \<and> \<not> f64_isnan b \<and> f64_key a = f64_key b"

section \<open>Fundamental types\<close>

text \<open>\<open>std::lexicographical_compare\<close>, with the element order as a parameter.\<close>

fun lex_less :: "('a \<Rightarrow> 'a \<Rightarrow> bool) \<Rightarrow> 'a list \<Rightarrow> 'a list \<Rightarrow> bool" where
  "lex_less lt [] ys = (ys \<noteq> [])"
| "lex_less lt (x # xs) [] = False"
| "lex_less lt (x # xs) (y # ys) =
     (if lt x y then True else if lt y x then False else lex_less lt xs ys)"

definition char_less :: "char \<Rightarrow> char \<Rightarrow> bool" where
  "char_less a b \<longleftrightarrow> (of_char a :: nat) < of_char b"

text \<open>A pair of values of different types does not occur; both functions answer \<open>False\<close> for it.\<close>

definition fund_less :: "val \<Rightarrow> val \<Rightarrow> bool" where
  "fund_less v w =
     (case v of
        VBool a \<Rightarrow> (case w of VBool b \<Rightarrow> (\<not> a \<and> b) | _ \<Rightarrow> False)
      | VInt8 a \<Rightarrow> (case w of VInt8 b \<Rightarrow> (sint a < sint b) | _ \<Rightarrow> False)
      | VUInt8 a \<Rightarrow> (case w of VUInt8 b \<Rightarrow> (a < b) | _ \<Rightarrow> False)
      | VInt16 a \<Rightarrow> (case w of VInt16 b \<Rightarrow> (sint a < sint b) | _ \<Rightarrow> False)
      | VUInt16 a \<Rightarrow> (case w of VUInt16 b \<Rightarrow> (a < b) | _ \<Rightarrow> False)
      | VInt32 a \<Rightarrow> (case w of VInt32 b \<Rightarrow> (sint a < sint b) | _ \<Rightarrow> False)
      | VUInt32 a \<Rightarrow> (case w of VUInt32 b \<Rightarrow> (a < b) | _ \<Rightarrow> False)
      | VInt64 a \<Rightarrow> (case w of VInt64 b \<Rightarrow> (sint a < sint b) | _ \<Rightarrow> False)
      | VUInt64 a \<Rightarrow> (case w of VUInt64 b \<Rightarrow> (a < b) | _ \<Rightarrow> False)
      | VFloat32 a \<Rightarrow> (case w of VFloat32 b \<Rightarrow> f32_less a b | _ \<Rightarrow> False)
      | VFloat64 a \<Rightarrow> (case w of VFloat64 b \<Rightarrow> f64_less a b | _ \<Rightarrow> False)
      | VPropertySet a \<Rightarrow> (case w of VPropertySet b \<Rightarrow> ps_lt a b | _ \<Rightarrow> False)
      | VTimepoint a \<Rightarrow> (case w of VTimepoint b \<Rightarrow> f64_less a b | _ \<Rightarrow> False)
      | VSteadyTimepoint a \<Rightarrow> (case w of VSteadyTimepoint b \<Rightarrow> f64_less a b | _ \<Rightarrow> False)
      | VDuration a \<Rightarrow> (case w of VDuration b \<Rightarrow> f64_less a b | _ \<Rightarrow> False)
      | VUuid a \<Rightarrow> (case w of VUuid b \<Rightarrow> lex_less (<) a b | _ \<Rightarrow> False)
      | VString a \<Rightarrow> (case w of VString b \<Rightarrow> lex_less char_less a b | _ \<Rightarrow> False)
      | VEnum a \<Rightarrow> (case w of VEnum b \<Rightarrow> (sint a < sint b) | _ \<Rightarrow> False)
      | _ \<Rightarrow> False)"

lemma fund_less_simps [simp]:
  "fund_less (VBool a1) (VBool b1) \<longleftrightarrow> (\<not> a1 \<and> b1)"
  "fund_less (VInt8 a2) (VInt8 b2) \<longleftrightarrow> (sint a2 < sint b2)"
  "fund_less (VUInt8 a3) (VUInt8 b3) \<longleftrightarrow> (a3 < b3)"
  "fund_less (VInt16 a4) (VInt16 b4) \<longleftrightarrow> (sint a4 < sint b4)"
  "fund_less (VUInt16 a5) (VUInt16 b5) \<longleftrightarrow> (a5 < b5)"
  "fund_less (VInt32 a6) (VInt32 b6) \<longleftrightarrow> (sint a6 < sint b6)"
  "fund_less (VUInt32 a7) (VUInt32 b7) \<longleftrightarrow> (a7 < b7)"
  "fund_less (VInt64 a8) (VInt64 b8) \<longleftrightarrow> (sint a8 < sint b8)"
  "fund_less (VUInt64 a9) (VUInt64 b9) \<longleftrightarrow> (a9 < b9)"
  "fund_less (VFloat32 a10) (VFloat32 b10) \<longleftrightarrow> f32_less a10 b10"
  "fund_less (VFloat64 a11) (VFloat64 b11) \<longleftrightarrow> f64_less a11 b11"
  "fund_less (VPropertySet a12) (VPropertySet b12) \<longleftrightarrow> ps_lt a12 b12"
  "fund_less (VTimepoint a13) (VTimepoint b13) \<longleftrightarrow> f64_less a13 b13"
  "fund_less (VSteadyTimepoint a14) (VSteadyTimepoint b14) \<longleftrightarrow> f64_less a14 b14"
  "fund_less (VDuration a15) (VDuration b15) \<longleftrightarrow> f64_less a15 b15"
  "fund_less (VUuid a16) (VUuid b16) \<longleftrightarrow> lex_less (<) a16 b16"
  "fund_less (VString a17) (VString b17) \<longleftrightarrow> lex_less char_less a17 b17"
  "fund_less (VEnum a18) (VEnum b18) \<longleftrightarrow> (sint a18 < sint b18)"
  by (simp_all add: fund_less_def)

definition fund_equal :: "val \<Rightarrow> val \<Rightarrow> bool" where
  "fund_equal v w =
     (case v of
        VBool a \<Rightarrow> (case w of VBool b \<Rightarrow> (a = b) | _ \<Rightarrow> False)
      | VInt8 a \<Rightarrow> (case w of VInt8 b \<Rightarrow> (a = b) | _ \<Rightarrow> False)
      | VUInt8 a \<Rightarrow> (case w of VUInt8 b \<Rightarrow> (a = b) | _ \<Rightarrow> False)
      | VInt16 a \<Rightarrow> (case w of VInt16 b \<Rightarrow> (a = b) | _ \<Rightarrow> False)
      | VUInt16 a \<Rightarrow> (case w of VUInt16 b \<Rightarrow> (a = b) | _ \<Rightarrow> False)
      | VInt32 a \<Rightarrow> (case w of VInt32 b \<Rightarrow> (a = b) | _ \<Rightarrow> False)
      | VUInt32 a \<Rightarrow> (case w of VUInt32 b \<Rightarrow> (a = b) | _ \<Rightarrow> False)
      | VInt64 a \<Rightarrow> (case w of VInt64 b \<Rightarrow> (a = b) | _ \<Rightarrow> False)
      | VUInt64 a \<Rightarrow> (case w of VUInt64 b \<Rightarrow> (a = b) | _ \<Rightarrow> False)
      | VFloat32 a \<Rightarrow> (case w of VFloat32 b \<Rightarrow> f32_equal a b | _ \<Rightarrow> False)
      | VFloat64 a \<Rightarrow> (case w of VFloat64 b \<Rightarrow> f64_equal a b | _ \<Rightarrow> False)
      | VPropertySet a \<Rightarrow> (case w of VPropertySet b \<Rightarrow> ps_eq a b | _ \<Rightarrow> False)
      | VTimepoint a \<Rightarrow> (case w of VTimepoint b \<Rightarrow> f64_equal a b | _ \<Rightarrow> False)
      | VSteadyTimepoint a \<Rightarrow> (case w of VSteadyTimepoint b \<Rightarrow> f64_equal a b | _ \<Rightarrow> False)
      | VDuration a \<Rightarrow> (case w of VDuration b \<Rightarrow> f64_equal a b | _ \<Rightarrow> False)
      | VUuid a \<Rightarrow> (case w of VUuid b \<Rightarrow> (a = b) | _ \<Rightarrow> False)
      | VString a \<Rightarrow> (case w of VString b \<Rightarrow> (a = b) | _ \<Rightarrow> False)
      | VEnum a \<Rightarrow> (case w of VEnum b \<Rightarrow> (a = b) | _ \<Rightarrow> False)
      | _ \<Rightarrow> False)"

lemma fund_equal_simps [simp]:
  "fund_equal (VBool a1) (VBool b1) \<longleftrightarrow> (a1 = b1)"
  "fund_equal (VInt8 a2) (VInt8 b2) \<longleftrightarrow> (a2 = b2)"
  "fund_equal (VUInt8 a3) (VUInt8 b3) \<longleftrightarrow> (a3 = b3)"
  "fund_equal (VInt16 a4) (VInt16 b4) \<longleftrightarrow> (a4 = b4)"
  "fund_equal (VUInt16 a5) (VUInt16 b5) \<longleftrightarrow> (a5 = b5)"
  "fund_equal (VInt32 a6) (VInt32 b6) \<longleftrightarrow> (a6 = b6)"
  "fund_equal (VUInt32 a7) (VUInt32 b7) \<longleftrightarrow> (a7 = b7)"
  "fund_equal (VInt64 a8) (VInt64 b8) \<longleftrightarrow> (a8 = b8)"
  "fund_equal (VUInt64 a9) (VUInt64 b9) \<longleftrightarrow> (a9 = b9)"
  "fund_equal (VFloat32 a10) (VFloat32 b10) \<longleftrightarrow> f32_equal a10 b10"
  "fund_equal (VFloat64 a11) (VFloat64 b11) \<longleftrightarrow> f64_equal a11 b11"
  "fund_equal (VPropertySet a12) (VPropertySet b12) \<longleftrightarrow> ps_eq a12 b12"
  "fund_equal (VTimepoint a13) (VTimepoint b13) \<longleftrightarrow> f64_equal a13 b13"
  "fund_equal (VSteadyTimepoint a14) (VSteadyTimepoint b14) \<longleftrightarrow> f64_equal a14 b14"
  "fund_equal (VDuration a15) (VDuration b15) \<longleftrightarrow> f64_equal a15 b15"
  "fund_equal (VUuid a16) (VUuid b16) \<longleftrightarrow> (a16 = b16)"
  "fund_equal (VString a17) (VString b17) \<longleftrightarrow> (a17 = b17)"
  "fund_equal (VEnum a18) (VEnum b18) \<longleftrightarrow> (a18 = b18)"
  by (simp_all add: fund_equal_def)

section \<open>Validity of a property\<close>

text \<open>\<open>derivedIsValid\<close>: the property's tag is in the valid set of its area.\<close>

definition isValid :: "pdesc \<Rightarrow> area \<Rightarrow> bool" where
  "isValid p a \<longleftrightarrow> ps_le (pd_set p) (validProperties a)"

section \<open>The descriptors' \<open>equal\<close> and \<open>less\<close>\<close>

text \<open>
  \<open>props_equal inc i ps a b\<close> and \<open>props_less inc i ps a b\<close> are the loops of
  \<open>StructDescriptor::equal\<close> and \<open>::less\<close> over the property pairs from the \<open>i\<close>-th on that
  belong to \<open>inc\<close>: \<open>ps\<close> are the descriptors from there, and the storage of the property is
  slot \<open>i\<close>. A valid property whose slot is empty is read as the empty vector value; it does not
  occur in a well-formed area.
\<close>

definition slot :: "nat \<Rightarrow> area \<Rightarrow> val option" where
  "slot i a = (if i < length (slots a) then slots a ! i else None)"

definition storage :: "nat \<Rightarrow> area \<Rightarrow> val" where
  "storage i a = (case slot i a of Some v \<Rightarrow> v | None \<Rightarrow> VVector [])"

text \<open>The casts \<open>value.to<Vector<>>()\<close> and \<open>value.to<Struct>()\<close>.\<close>

definition vec_of :: "val \<Rightarrow> val list" where
  "vec_of v = (case v of VVector xs \<Rightarrow> xs | _ \<Rightarrow> [])"

definition area_of :: "val \<Rightarrow> area" where
  "area_of v = (case v of VStruct a \<Rightarrow> a | _ \<Rightarrow> Area ps_None [])"

lemma cast_simps [simp]: "vec_of (VVector xs) = xs" "area_of (VStruct a) = a"
  by (simp_all add: vec_of_def area_of_def)

function val_equal :: "descr \<Rightarrow> val \<Rightarrow> val \<Rightarrow> bool"
and vals_equal :: "descr \<Rightarrow> val list \<Rightarrow> val list \<Rightarrow> bool"
and props_equal :: "property_set \<Rightarrow> nat \<Rightarrow> pdesc list \<Rightarrow> area \<Rightarrow> area \<Rightarrow> bool" where
  "val_equal (Fundamental t) v w = fund_equal v w"
| "val_equal (EnumDescriptor n es) v w = fund_equal v w"
| "val_equal (VectorDescriptor d) v w = vals_equal d (vec_of v) (vec_of w)"
| "val_equal (StructD (StructDescriptor n fl ps)) v w =
     props_equal ps_All 0 ps (area_of v) (area_of w)"
| "vals_equal d [] ys = (ys = [])"
| "vals_equal d (x # xs) ys =
     (case ys of [] \<Rightarrow> False | y # ys' \<Rightarrow> val_equal d x y \<and> vals_equal d xs ys')"
| "props_equal inc i [] a b = True"
| "props_equal inc i (PropertyDescriptor d n t k # ps) a b =
     (let p = PropertyDescriptor d n t k in
      (if ps_le (pd_set p) inc
       then (if isValid p b
             then isValid p a \<and> val_equal d (storage i a) (storage i b)
             else \<not> isValid p a)
       else True)
      \<and> props_equal inc (Suc i) ps a b)"
  by pat_completeness auto
termination
  by (relation "measures [
      (\<lambda>s. case s of Inl (d, v, w) \<Rightarrow> size d
         | Inr (Inl (d, xs, ys)) \<Rightarrow> size d
         | Inr (Inr (inc, i, ps, a, b)) \<Rightarrow> size_list size ps),
      (\<lambda>s. case s of Inl _ \<Rightarrow> 0 | Inr (Inl (d, xs, ys)) \<Rightarrow> Suc (length xs) | Inr (Inr _) \<Rightarrow> 0)]")
    auto

text \<open>
  \<open>Property.h\<close>, \<open>operator <\<close> on two properties: nothing is below an invalid one, an
  invalid one is below every valid one, and two valid ones compare by value.
\<close>

function val_less :: "descr \<Rightarrow> val \<Rightarrow> val \<Rightarrow> bool"
and vals_less :: "descr \<Rightarrow> val list \<Rightarrow> val list \<Rightarrow> bool"
and prop_less :: "nat \<Rightarrow> pdesc \<Rightarrow> area \<Rightarrow> area \<Rightarrow> bool"
and props_less :: "property_set \<Rightarrow> nat \<Rightarrow> pdesc list \<Rightarrow> area \<Rightarrow> area \<Rightarrow> bool" where
  "val_less (Fundamental t) v w = fund_less v w"
| "val_less (EnumDescriptor n es) v w = fund_less v w"
| "val_less (VectorDescriptor d) v w = vals_less d (vec_of v) (vec_of w)"
| "val_less (StructD (StructDescriptor n fl ps)) v w =
     props_less ps_All 0 ps (area_of v) (area_of w)"
| "vals_less d [] ys = (ys \<noteq> [])"
| "vals_less d (x # xs) ys =
     (case ys of [] \<Rightarrow> False
      | y # ys' \<Rightarrow> if val_less d x y then True
                    else if val_less d y x then False
                    else vals_less d xs ys')"
| "prop_less i (PropertyDescriptor d n t k) a b =
     (let p = PropertyDescriptor d n t k in
      if isValid p b
      then (if isValid p a then val_less d (storage i a) (storage i b) else True)
      else False)"
| "props_less inc i [] a b = False"
| "props_less inc i (p # ps) a b =
     (if ps_le (pd_set p) inc
      then (if prop_less i p a b then True
            else if prop_less i p b a then False
            else props_less inc (Suc i) ps a b)
      else props_less inc (Suc i) ps a b)"
  by pat_completeness auto
termination
  by (relation "measures [
      (\<lambda>s. case s of Inl (Inl (d, v, w)) \<Rightarrow> size d
         | Inl (Inr (d, xs, ys)) \<Rightarrow> size d
         | Inr (Inl (i, p, a, b)) \<Rightarrow> size p
         | Inr (Inr (inc, i, ps, a, b)) \<Rightarrow> size_list size ps),
      (\<lambda>s. case s of Inl (Inl _) \<Rightarrow> 0 | Inl (Inr (d, xs, ys)) \<Rightarrow> Suc (length xs)
         | Inr (Inl _) \<Rightarrow> 0 | Inr (Inr _) \<Rightarrow> 1)]")
    auto

declare val_equal.simps [simp del] vals_equal.simps [simp del] props_equal.simps [simp del]

section \<open>Well-typed values and well-formed areas\<close>

fun fund_ok :: "fund_type \<Rightarrow> val \<Rightarrow> bool" where
  "fund_ok T_boolean v = (case v of VBool _ \<Rightarrow> True | _ \<Rightarrow> False)"
| "fund_ok T_int8 v = (case v of VInt8 _ \<Rightarrow> True | _ \<Rightarrow> False)"
| "fund_ok T_uint8 v = (case v of VUInt8 _ \<Rightarrow> True | _ \<Rightarrow> False)"
| "fund_ok T_int16 v = (case v of VInt16 _ \<Rightarrow> True | _ \<Rightarrow> False)"
| "fund_ok T_uint16 v = (case v of VUInt16 _ \<Rightarrow> True | _ \<Rightarrow> False)"
| "fund_ok T_int32 v = (case v of VInt32 _ \<Rightarrow> True | _ \<Rightarrow> False)"
| "fund_ok T_uint32 v = (case v of VUInt32 _ \<Rightarrow> True | _ \<Rightarrow> False)"
| "fund_ok T_int64 v = (case v of VInt64 _ \<Rightarrow> True | _ \<Rightarrow> False)"
| "fund_ok T_uint64 v = (case v of VUInt64 _ \<Rightarrow> True | _ \<Rightarrow> False)"
| "fund_ok T_float32 v = (case v of VFloat32 _ \<Rightarrow> True | _ \<Rightarrow> False)"
| "fund_ok T_float64 v = (case v of VFloat64 _ \<Rightarrow> True | _ \<Rightarrow> False)"
| "fund_ok T_property_set v = (case v of VPropertySet _ \<Rightarrow> True | _ \<Rightarrow> False)"
| "fund_ok T_timepoint v = (case v of VTimepoint _ \<Rightarrow> True | _ \<Rightarrow> False)"
| "fund_ok T_steady_timepoint v = (case v of VSteadyTimepoint _ \<Rightarrow> True | _ \<Rightarrow> False)"
| "fund_ok T_duration v = (case v of VDuration _ \<Rightarrow> True | _ \<Rightarrow> False)"
| "fund_ok T_uuid v = (case v of VUuid bs \<Rightarrow> length bs = 16 | _ \<Rightarrow> False)"
| "fund_ok T_string v = (case v of VString _ \<Rightarrow> True | _ \<Rightarrow> False)"

text \<open>
  An area is well formed for its descriptors when there is one slot per property, the slot holds
  an object exactly when the valid set has the tag, the valid set has no other tags, and the
  objects have the property's type.
\<close>

definition wf_area :: "pdesc list \<Rightarrow> area \<Rightarrow> bool" where
  "wf_area ps a \<longleftrightarrow>
     length (slots a) = length ps
     \<and> (\<forall>i < length ps. (slots a ! i \<noteq> None) = isValid (ps ! i) a)
     \<and> ps_members (validProperties a) \<subseteq> pd_index ` set ps"

fun val_ok :: "descr \<Rightarrow> val \<Rightarrow> bool"
and slots_ok :: "pdesc list \<Rightarrow> val option list \<Rightarrow> bool" where
  "val_ok (Fundamental t) v = fund_ok t v"
| "val_ok (EnumDescriptor n es) v = (case v of VEnum _ \<Rightarrow> True | _ \<Rightarrow> False)"
| "val_ok (VectorDescriptor d) v = (case v of VVector xs \<Rightarrow> list_all (val_ok d) xs | _ \<Rightarrow> False)"
| "val_ok (StructD (StructDescriptor n fl ps)) v =
     (case v of VStruct a \<Rightarrow> wf_area ps a \<and> slots_ok ps (slots a) | _ \<Rightarrow> False)"
| "slots_ok [] xs = (xs = [])"
| "slots_ok (PropertyDescriptor d n t k # ps) xs =
     (case xs of [] \<Rightarrow> False
      | x # xs' \<Rightarrow> (case x of None \<Rightarrow> True | Some v \<Rightarrow> val_ok d v) \<and> slots_ok ps xs')"

text \<open>The tags of a struct are below 32 and distinct (the DOTS model asks for 1 to 31).\<close>

definition wf_tags :: "pdesc list \<Rightarrow> bool" where
  "wf_tags ps \<longleftrightarrow> distinct (map pd_index ps) \<and> (\<forall>p \<in> set ps. pd_index p < 32)"

fun wf_descr :: "descr \<Rightarrow> bool"
and wf_props :: "pdesc list \<Rightarrow> bool" where
  "wf_descr (Fundamental t) = True"
| "wf_descr (EnumDescriptor n es) = (distinct (map en_tag es) \<and> distinct (map en_value es))"
| "wf_descr (VectorDescriptor d) = wf_descr d"
| "wf_descr (StructD (StructDescriptor n fl ps)) = (wf_tags ps \<and> wf_props ps)"
| "wf_props [] = True"
| "wf_props (PropertyDescriptor d n t k # ps) = (wf_descr d \<and> wf_props ps)"

end
