(* ===== verification/Struct_Ops.thy ===== *)
theory Struct_Ops
  imports Value_Order
begin

text \<open>
  The operations on a struct instance: the property accesses of \<open>Property.h\<close>, the property
  ranges of \<open>PropertyIterator.h\<close> and the operations of \<open>StructDescriptor.cpp\<close> that loop over
  them. Every step that constructs, assigns or destroys the object of a property says what
  storage it needs; the lemmas show that on well-formed areas no step finds storage in the
  wrong state, and give each operation's effect property by property.
\<close>

section \<open>Storage of a property\<close>

definition assign_slot :: "nat \<Rightarrow> val \<Rightarrow> area \<Rightarrow> area result" where
  "assign_slot i v a =
     (case slot i a of
        None \<Rightarrow> Inl (UndefinedBehaviour ''assignment to storage without an object'')
      | Some _ \<Rightarrow> Inr (Area (validProperties a) ((slots a)[i := Some v])))"

definition construct_slot :: "nat \<Rightarrow> val \<Rightarrow> area \<Rightarrow> area result" where
  "construct_slot i v a =
     (if i < length (slots a) \<and> slot i a = None
      then Inr (Area (validProperties a) ((slots a)[i := Some v]))
      else Inl (UndefinedBehaviour ''construction over a live object''))"

definition destruct_slot :: "nat \<Rightarrow> area \<Rightarrow> area result" where
  "destruct_slot i a =
     (case slot i a of
        None \<Rightarrow> Inl (UndefinedBehaviour ''destruction of storage without an object'')
      | Some _ \<Rightarrow> Inr (Area (validProperties a) ((slots a)[i := None])))"

definition read_slot :: "nat \<Rightarrow> area \<Rightarrow> val result" where
  "read_slot i a =
     (case slot i a of
        None \<Rightarrow> Inl (UndefinedBehaviour ''read of storage without an object'')
      | Some v \<Rightarrow> Inr v)"

text \<open>\<open>derivedSetValid\<close> and \<open>derivedSetInvalid\<close>.\<close>

definition setValid :: "pdesc \<Rightarrow> area \<Rightarrow> area" where
  "setValid p a = Area (ps_add (validProperties a) (pd_set p)) (slots a)"

definition setInvalid :: "pdesc \<Rightarrow> area \<Rightarrow> area" where
  "setInvalid p a = Area (ps_sub (validProperties a) (pd_set p)) (slots a)"

section \<open>\<open>Property.h\<close>\<close>

definition emplace :: "nat \<Rightarrow> pdesc \<Rightarrow> val \<Rightarrow> area \<Rightarrow> area result" where
  "emplace i p v a =
     (if isValid p a then assign_slot i v a
      else construct_slot i v (setValid p a))"

definition reset :: "nat \<Rightarrow> pdesc \<Rightarrow> area \<Rightarrow> area result" where
  "reset i p a =
     (if isValid p a then bindE (destruct_slot i a) (\<lambda>a'. Inr (setInvalid p a'))
      else Inr a)"

definition property_value :: "nat \<Rightarrow> pdesc \<Rightarrow> area \<Rightarrow> val result" where
  "property_value i p a =
     (if \<not> isValid p a
      then Inl (RuntimeError (''property is expected to be valid but it is not: '' @ pd_name p))
      else read_slot i a)"

definition valueOrDefault :: "nat \<Rightarrow> pdesc \<Rightarrow> val \<Rightarrow> area \<Rightarrow> val result" where
  "valueOrDefault i p v a = (if isValid p a then read_slot i a else Inr v)"

definition valueOrEmplace :: "nat \<Rightarrow> pdesc \<Rightarrow> val \<Rightarrow> area \<Rightarrow> area result" where
  "valueOrEmplace i p v a = (if isValid p a then Inr a else emplace i p v a)"

text \<open>\<open>assign(const Property&)\<close>: the value of the other property, or its invalidity.\<close>

definition assignProperty :: "nat \<Rightarrow> pdesc \<Rightarrow> area \<Rightarrow> area \<Rightarrow> area result" where
  "assignProperty i p other a =
     (if isValid p other then bindE (read_slot i other) (\<lambda>v. emplace i p v a)
      else reset i p a)"

text \<open>\<open>swap\<close>: both sides change; the value descriptor exchanges two live objects.\<close>

definition swapProperty :: "nat \<Rightarrow> pdesc \<Rightarrow> area \<Rightarrow> area \<Rightarrow> (area \<times> area) result" where
  "swapProperty i p a b =
     (if isValid p a then
        (if isValid p b then
           bindE (read_slot i a) (\<lambda>v.
           bindE (read_slot i b) (\<lambda>w.
           bindE (assign_slot i w a) (\<lambda>a'.
           bindE (assign_slot i v b) (\<lambda>b'. Inr (a', b')))))
         else
           bindE (read_slot i a) (\<lambda>v.
           bindE (emplace i p v b) (\<lambda>b'.
           bindE (reset i p a) (\<lambda>a'. Inr (a', b')))))
      else if isValid p b then
        bindE (read_slot i b) (\<lambda>w.
        bindE (emplace i p w a) (\<lambda>a'.
        bindE (reset i p b) (\<lambda>b'. Inr (a', b'))))
      else Inr (a, b))"

text \<open>\<open>operator ==\<close> on two properties of the same descriptor.\<close>

definition property_eq :: "nat \<Rightarrow> pdesc \<Rightarrow> area \<Rightarrow> area \<Rightarrow> bool" where
  "property_eq i p a b =
     (if isValid p b
      then isValid p a \<and> val_equal (valueDescriptor p) (storage i a) (storage i b)
      else \<not> isValid p a)"

section \<open>Property ranges\<close>

text \<open>
  \<open>PropertyIterator\<close> visits the descriptors in order and skips those outside of the included
  set; each visited property comes with the index of its storage.
\<close>

definition propertyRange :: "pdesc list \<Rightarrow> property_set \<Rightarrow> (nat \<times> pdesc) list" where
  "propertyRange ps inc = filter (\<lambda>(i, p). ps_le (pd_set p) inc) (enumerate 0 ps)"

fun foldE :: "('x \<Rightarrow> 's \<Rightarrow> 's result) \<Rightarrow> 'x list \<Rightarrow> 's \<Rightarrow> 's result" where
  "foldE f [] s = Inr s"
| "foldE f (x # xs) s = bindE (f x s) (foldE f xs)"

section \<open>\<open>StructDescriptor.cpp\<close>\<close>

definition fresh_area :: "pdesc list \<Rightarrow> area" where
  "fresh_area ps = Area ps_None (replicate (length ps) None)"

text \<open>Copy construction into raw storage.\<close>

definition struct_construct :: "pdesc list \<Rightarrow> area \<Rightarrow> area result" where
  "struct_construct ps other =
     foldE (\<lambda>(i, p) a. assignProperty i p other a)
       (propertyRange ps (validProperties other)) (fresh_area ps)"

text \<open>Move construction leaves the source's moved properties invalid.\<close>

definition struct_construct_move :: "pdesc list \<Rightarrow> area \<Rightarrow> (area \<times> area) result" where
  "struct_construct_move ps other =
     foldE (\<lambda>(i, p) (a, b).
         if isValid p b then
           bindE (read_slot i b) (\<lambda>v.
           bindE (emplace i p v a) (\<lambda>a'.
           bindE (reset i p b) (\<lambda>b'. Inr (a', b'))))
         else bindE (reset i p a) (\<lambda>a'. Inr (a', b)))
       (propertyRange ps (validProperties other)) (fresh_area ps, other)"

text \<open>
  Destruction runs the destructor of the valid properties that own dynamic memory; the storage
  of the others just ends, and nothing stays valid.
\<close>

definition struct_destruct :: "pdesc list \<Rightarrow> area \<Rightarrow> area result" where
  "struct_destruct ps a =
     bindE (foldE (\<lambda>(i, p). destruct_slot i)
              (propertyRange ps (ps_intersect (validProperties a) (dynamicMemoryProperties ps))) a)
       (\<lambda>_. Inr (fresh_area ps))"

definition struct_assign :: "pdesc list \<Rightarrow> area \<Rightarrow> area \<Rightarrow> property_set \<Rightarrow> area result" where
  "struct_assign ps a other inc =
     (let assignProperties = ps_intersect (validProperties other) inc in
      foldE (\<lambda>(i, p) a. if ps_le (pd_set p) assignProperties
                        then assignProperty i p other a else reset i p a)
        (propertyRange ps ps_All) a)"

definition struct_assign_move ::
  "pdesc list \<Rightarrow> area \<Rightarrow> area \<Rightarrow> property_set \<Rightarrow> (area \<times> area) result" where
  "struct_assign_move ps a other inc =
     (let assignProperties = ps_intersect (validProperties other) inc in
      foldE (\<lambda>(i, p) (a, b).
          if ps_le (pd_set p) assignProperties
          then bindE (read_slot i b) (\<lambda>v.
               bindE (emplace i p v a) (\<lambda>a'.
               bindE (reset i p b) (\<lambda>b'. Inr (a', b'))))
          else bindE (reset i p a) (\<lambda>a'. Inr (a', b)))
        (propertyRange ps ps_All) (a, other))"

definition struct_copy :: "pdesc list \<Rightarrow> area \<Rightarrow> area \<Rightarrow> property_set \<Rightarrow> area result" where
  "struct_copy ps a other inc =
     (let copyProperties =
        ps_intersect (ps_add (validProperties a) (validProperties other)) inc in
      foldE (\<lambda>(i, p) a. if isValid p other then assignProperty i p other a else reset i p a)
        (propertyRange ps copyProperties) a)"

definition struct_swap :: "pdesc list \<Rightarrow> area \<Rightarrow> area \<Rightarrow> property_set \<Rightarrow> (area \<times> area) result" where
  "struct_swap ps a b inc =
     foldE (\<lambda>(i, p) (a, b). swapProperty i p a b) (propertyRange ps inc) (a, b)"

definition struct_clear :: "pdesc list \<Rightarrow> area \<Rightarrow> property_set \<Rightarrow> area result" where
  "struct_clear ps a inc = foldE (\<lambda>(i, p). reset i p) (propertyRange ps inc) a"

text \<open>
  \<open>merge\<close> descends into the struct-typed properties, so it is the loop over \<open>mergeProperties\<close>
  written as a recursion over the descriptors: \<open>merge_loop inc i ps\<close> handles the descriptors
  from the \<open>i\<close>-th on.
\<close>

function merge_loop :: "property_set \<Rightarrow> nat \<Rightarrow> pdesc list \<Rightarrow> area \<Rightarrow> area \<Rightarrow> area result"
and merge_prop :: "nat \<Rightarrow> pdesc \<Rightarrow> area \<Rightarrow> area \<Rightarrow> area result" where
  "merge_loop inc i [] a other = Inr a"
| "merge_loop inc i (p # ps) a other =
     bindE (if ps_le (pd_set p) inc then merge_prop i p a other else Inr a)
       (\<lambda>a'. merge_loop inc (Suc i) ps a' other)"
| "merge_prop i (PropertyDescriptor (StructD (StructDescriptor sn fl qs)) n t k) a other =
     (let p = PropertyDescriptor (StructD (StructDescriptor sn fl qs)) n t k in
      bindE (valueOrEmplace i p (VStruct (fresh_area qs)) a) (\<lambda>a'.
      bindE (read_slot i a') (\<lambda>v.
      bindE (property_value i p other) (\<lambda>w.
      bindE (merge_loop (ps_intersect (validProperties (area_of w)) ps_All) 0 qs
               (area_of v) (area_of w)) (\<lambda>m.
      assign_slot i (VStruct m) a')))))"
| "merge_prop i (PropertyDescriptor (Fundamental ty) n t k) a other =
     assignProperty i (PropertyDescriptor (Fundamental ty) n t k) other a"
| "merge_prop i (PropertyDescriptor (EnumDescriptor en es) n t k) a other =
     assignProperty i (PropertyDescriptor (EnumDescriptor en es) n t k) other a"
| "merge_prop i (PropertyDescriptor (VectorDescriptor d) n t k) a other =
     assignProperty i (PropertyDescriptor (VectorDescriptor d) n t k) other a"
  by pat_completeness auto
termination
  by (relation "measures [
      (\<lambda>s. case s of Inl (inc, i, ps, a, b) \<Rightarrow> size_list size ps
         | Inr (i, p, a, b) \<Rightarrow> size p),
      (\<lambda>s. case s of Inl _ \<Rightarrow> 1 | Inr _ \<Rightarrow> 0)]")
    auto

definition struct_merge :: "pdesc list \<Rightarrow> area \<Rightarrow> area \<Rightarrow> property_set \<Rightarrow> area result" where
  "struct_merge ps a other inc =
     merge_loop (ps_intersect (validProperties other) inc) 0 ps a other"

text \<open>The comparisons.\<close>

definition struct_equal :: "pdesc list \<Rightarrow> area \<Rightarrow> area \<Rightarrow> property_set \<Rightarrow> bool" where
  "struct_equal ps a b inc = props_equal inc 0 ps a b"

definition struct_same :: "sdesc \<Rightarrow> area \<Rightarrow> area \<Rightarrow> bool" where
  "struct_same sd a b = struct_equal (propertyDescriptors sd) a b (keyProperties sd)"

definition struct_less :: "pdesc list \<Rightarrow> area \<Rightarrow> area \<Rightarrow> property_set \<Rightarrow> bool" where
  "struct_less ps a b inc = (if ps_empty inc then False else props_less inc 0 ps a b)"

definition struct_greater :: "pdesc list \<Rightarrow> area \<Rightarrow> area \<Rightarrow> property_set \<Rightarrow> bool" where
  "struct_greater ps a b inc = struct_less ps b a inc"

definition struct_lessEqual :: "pdesc list \<Rightarrow> area \<Rightarrow> area \<Rightarrow> property_set \<Rightarrow> bool" where
  "struct_lessEqual ps a b inc \<longleftrightarrow> \<not> struct_greater ps a b inc"

definition struct_greaterEqual :: "pdesc list \<Rightarrow> area \<Rightarrow> area \<Rightarrow> property_set \<Rightarrow> bool" where
  "struct_greaterEqual ps a b inc \<longleftrightarrow> \<not> struct_less ps a b inc"

definition diffProperties ::
  "pdesc list \<Rightarrow> area \<Rightarrow> area \<Rightarrow> property_set \<Rightarrow> property_set" where
  "diffProperties ps a b inc =
     (let symmetricDiff =
            ps_intersect (symmetricDifference (validProperties a) (validProperties b)) inc;
          intersection =
            ps_intersect (ps_intersect (validProperties a) (validProperties b)) inc
      in if \<not> ps_empty intersection
         then fold (\<lambda>(i, p) d. if \<not> property_eq i p a b then ps_add d (pd_set p) else d)
                (propertyRange ps intersection) symmetricDiff
         else symmetricDiff)"

text \<open>\<open>_hasProperties<AllowSubset>\<close> and \<open>_assertHasProperties<AllowSubset>\<close> of \<open>Struct.h\<close>.\<close>

definition hasProperties :: "bool \<Rightarrow> property_set \<Rightarrow> area \<Rightarrow> bool" where
  "hasProperties allowSubset s a =
     (if allowSubset then ps_le s (validProperties a) else ps_eq s (validProperties a))"

fun to_property_list_loop :: "pdesc list \<Rightarrow> string" where
  "to_property_list_loop [] = []"
| "to_property_list_loop (p # ps) = pd_name p @ '', '' @ to_property_list_loop ps"

definition to_property_list :: "sdesc \<Rightarrow> property_set \<Rightarrow> string" where
  "to_property_list sd s =
     (let propertyList = to_property_list_loop (partialDescriptors sd s)
      in if propertyList \<noteq> [] then take (length propertyList - 2) propertyList
         else propertyList)"

definition assertHasProperties :: "bool \<Rightarrow> sdesc \<Rightarrow> property_set \<Rightarrow> area \<Rightarrow> unit result" where
  "assertHasProperties allowSubset sd expected a =
     (let actual = validProperties a in
      if \<not> hasProperties allowSubset expected a then
        (if allowSubset
         then Inl (LogicError (sd_name sd @ '' instance is missing expected properties: ''
                @ to_property_list sd (ps_sub expected actual)))
         else Inl (LogicError (sd_name sd @ '' instance does not have expected exact properties: ''
                @ to_property_list sd expected @ '', but instead has ''
                @ to_property_list sd actual)))
      else Inr ())"

section \<open>Property paths\<close>

text \<open>
  \<open>StructDescriptor::propertyPaths\<close>: each property, followed by the paths into it when it is a
  struct. A path is the list of its descriptors.
\<close>

fun propertyPaths :: "pdesc list \<Rightarrow> pdesc list list"
and subPaths :: "descr \<Rightarrow> pdesc list list" where
  "propertyPaths [] = []"
| "propertyPaths (PropertyDescriptor d n t k # ps) =
     [PropertyDescriptor d n t k]
     # List.map (\<lambda>es. PropertyDescriptor d n t k # es) (subPaths d) @ propertyPaths ps"
| "subPaths (StructD (StructDescriptor sn fl qs)) = propertyPaths qs"
| "subPaths (Fundamental t) = []"
| "subPaths (EnumDescriptor n es) = []"
| "subPaths (VectorDescriptor d) = []"

text \<open>
  \<open>PropertyContainer::_path\<close> cuts the name at its dots; a dot at the end of the text leaves an
  empty last name, so that the check of the position after the dot never fires.
\<close>

fun split_path :: "string \<Rightarrow> string list" where
  "split_path [] = [[]]"
| "split_path (c # cs) =
     (if c = CHR ''.'' then [] # split_path cs
      else (case split_path cs of [] \<Rightarrow> [[c]] | n # ns \<Rightarrow> (c # n) # ns))"

definition find_path :: "pdesc list \<Rightarrow> string \<Rightarrow> pdesc list result" where
  "find_path ps name =
     (let propertyNames = split_path name in
      case find (\<lambda>path. List.map pd_name path = propertyNames) (propertyPaths ps) of
        Some path \<Rightarrow> Inr path
      | None \<Rightarrow> Inl (RuntimeError (''unknown composed property name '' @ name)))"

text \<open>\<open>_find(tag)\<close> and \<open>_find(name)\<close>: the first property that matches, or the end.\<close>

definition find_tag :: "pdesc list \<Rightarrow> 32 word \<Rightarrow> (nat \<times> pdesc) option" where
  "find_tag ps t = find (\<lambda>(i, p). pd_tag p = t) (propertyRange ps ps_All)"

definition find_name :: "pdesc list \<Rightarrow> string \<Rightarrow> (nat \<times> pdesc) option" where
  "find_name ps n = find (\<lambda>(i, p). pd_name p = n) (propertyRange ps ps_All)"

end
