(* ===== verification/Example_Type.thy ===== *)
theory Example_Type
  imports Struct_Ops
begin

text \<open>
  A small struct type with a scalar key, a string and a nested struct, and instances of it: the
  concrete inputs at which the general theorems are applied.
\<close>

definition example_props :: "pdesc list" where
  "example_props =
     [PropertyDescriptor (Fundamental T_int32) ''id'' 1 True,
      PropertyDescriptor (Fundamental T_string) ''text'' 2 False,
      PropertyDescriptor (StructD (StructDescriptor ''Inner'' 0
         [PropertyDescriptor (Fundamental T_uint8) ''x'' 1 False,
          PropertyDescriptor (Fundamental T_uint8) ''y'' 2 False])) ''inner'' 4 False]"

definition example_inner :: "8 word option \<Rightarrow> 8 word option \<Rightarrow> area" where
  "example_inner x y =
     Area (ps_add (if x = None then ps_None else FromIndex 1) (if y = None then ps_None else FromIndex 2))
       [map_option VUInt8 x, map_option VUInt8 y]"

definition example_area :: "32 word option \<Rightarrow> string option \<Rightarrow> area option \<Rightarrow> area" where
  "example_area i t n =
     Area (ps_add (ps_add (if i = None then ps_None else FromIndex 1)
                          (if t = None then ps_None else FromIndex 2))
                  (if n = None then ps_None else FromIndex 4))
       [map_option VInt32 i, map_option VString t, map_option VStruct n]"

lemma example_wf_tags: "wf_tags example_props"
  by (simp add: wf_tags_def example_props_def pd_index_def)

lemma example_wf_props: "wf_props example_props"
  by (simp add: wf_tags_def example_props_def pd_index_def)

lemma example_wf_area [simp]: "wf_area example_props (example_area i t n)"
  by (auto simp: wf_area_def example_props_def example_area_def pd_index_def isValid_def pd_set_def
      less_Suc_eq)

lemma example_wf_inner [simp]:
  "wf_area [PropertyDescriptor (Fundamental T_uint8) ''x'' 1 False,
            PropertyDescriptor (Fundamental T_uint8) ''y'' 2 False] (example_inner x y)"
  by (auto simp: wf_area_def example_inner_def pd_index_def isValid_def pd_set_def less_Suc_eq)

lemma example_slots_ok:
  "slots_ok example_props (slots (example_area i t (map_option (\<lambda>(x, y). example_inner x y) n)))"
  by (cases i; cases t; cases n; auto simp: example_props_def example_area_def)
    (auto simp: example_inner_def split: option.splits)

end
