(* ===== verification/Struct_Facts.thy ===== *)
theory Struct_Facts
  imports Example_Type
begin

text \<open>
  What the operations of \<open>Struct_Ops\<close> do to a well-formed instance. Such an instance is
  determined by its slots (\<open>mk_area\<close>), every access to a property is an update of one slot, and
  a loop over a property range is an update of all slots in the range (\<open>foldE_propertyRange\<close>);
  each operation's effect then follows by comparing slots.
\<close>

section \<open>Well-formed areas as lists of slots\<close>

definition valid_of :: "pdesc list \<Rightarrow> val option list \<Rightarrow> property_set" where
  "valid_of ps xs =
     fold (\<lambda>(p, x) s. if x \<noteq> None then ps_add s (pd_set p) else s) (zip ps xs) ps_None"

definition mk_area :: "pdesc list \<Rightarrow> val option list \<Rightarrow> area" where
  "mk_area ps xs = Area (valid_of ps xs) xs"

lemma slots_mk_area [simp]: "slots (mk_area ps xs) = xs"
  by (simp add: mk_area_def)

lemma pd_index_less [simp, intro]:
  "wf_tags ps \<Longrightarrow> i < length ps \<Longrightarrow> pd_index (ps ! i) < 32"
  by (simp add: wf_tags_def)

lemma pd_index_eq_iff [simp]:
  "wf_tags ps \<Longrightarrow> i < length ps \<Longrightarrow> j < length ps \<Longrightarrow>
   pd_index (ps ! i) = pd_index (ps ! j) \<longleftrightarrow> i = j"
  by (simp add: wf_tags_def distinct_conv_nth) metis

lemma ps_members_pd_set [simp, ps_simps]:
  "pd_index p < 32 \<Longrightarrow> ps_members (pd_set p) = {pd_index p}"
  by (simp add: pd_set_def)

lemma isValid_iff [simp]:
  "pd_index p < 32 \<Longrightarrow> isValid p a \<longleftrightarrow> pd_index p \<in> ps_members (validProperties a)"
  by (simp add: isValid_def)

lemma ps_members_valid_loop:
  assumes "\<forall>p \<in> set ps. pd_index p < 32" "length xs = length ps"
  shows "ps_members (fold (\<lambda>(p, x) s. if x \<noteq> None then ps_add s (pd_set p) else s) (zip ps xs) s) =
         ps_members s \<union> {pd_index (ps ! i) | i. i < length ps \<and> xs ! i \<noteq> None}"
  using assms(2, 1)
proof (induction xs ps arbitrary: s rule: list_induct2)
  case (Cons x xs p ps)
  have split: "{pd_index ((p # ps) ! i) | i. i < length (p # ps) \<and> (x # xs) ! i \<noteq> None} =
    (if x \<noteq> None then {pd_index p} else {})
    \<union> {pd_index (ps ! i) | i. i < length ps \<and> xs ! i \<noteq> None}" (is "?L = ?R")
  proof (intro equalityI subsetI)
    fix t assume "t \<in> ?L"
    then obtain i where "t = pd_index ((p # ps) ! i)" "i < length (p # ps)" "(x # xs) ! i \<noteq> None"
      by blast
    then show "t \<in> ?R" by (cases i) auto
  next
    fix t assume "t \<in> ?R"
    then consider "x \<noteq> None" "t = pd_index p"
      | i where "t = pd_index (ps ! i)" "i < length ps" "xs ! i \<noteq> None"
      by (auto split: if_splits)
    then show "t \<in> ?L"
    proof cases
      case 1
      then show ?thesis by (intro CollectI exI [of _ 0]) simp
    next
      case 2
      then show ?thesis by (intro CollectI exI [of _ "Suc i"]) simp
    qed
  qed
  from Cons show ?case by (simp only: split) auto
qed simp

lemma ps_members_valid_of:
  assumes "wf_tags ps" "length xs = length ps"
  shows "ps_members (valid_of ps xs) = {pd_index (ps ! i) | i. i < length ps \<and> xs ! i \<noteq> None}"
  using assms ps_members_valid_loop [of ps xs ps_None] by (simp add: valid_of_def wf_tags_def)

lemma isValid_mk_area [simp]:
  assumes "wf_tags ps" "length xs = length ps" "i < length ps"
  shows "isValid (ps ! i) (mk_area ps xs) \<longleftrightarrow> xs ! i \<noteq> None"
  using assms by (auto simp: mk_area_def ps_members_valid_of)

lemma mem_valid_of [simp]:
  assumes "wf_tags ps" "length xs = length ps" "i < length ps"
  shows "pd_index (ps ! i) \<in> ps_members (valid_of ps xs) \<longleftrightarrow> xs ! i \<noteq> None"
  using assms by (auto simp: ps_members_valid_of)

lemma validProperties_mk_area [simp]: "validProperties (mk_area ps xs) = valid_of ps xs"
  by (simp add: mk_area_def)

lemma wf_mk_area [simp, invariant_intros]:
  assumes "wf_tags ps" "length xs = length ps"
  shows "wf_area ps (mk_area ps xs)"
  using assms by (auto simp: wf_area_def ps_members_valid_of)

lemma wf_area_mk:
  assumes "wf_tags ps" "wf_area ps a"
  shows "a = mk_area ps (slots a)"
proof (cases a)
  case (Area s xs)
  have "ps_members s = ps_members (valid_of ps xs)"
    using assms by (fastforce simp: Area wf_area_def ps_members_valid_of in_set_conv_nth)
  then show ?thesis by (simp add: Area mk_area_def ps_members_inject)
qed

lemma wf_area_iff:
  assumes "wf_tags ps"
  shows "wf_area ps a \<longleftrightarrow> (\<exists>xs. length xs = length ps \<and> a = mk_area ps xs)"
  using assms wf_area_mk [OF assms] by (metis wf_area_def wf_mk_area)

lemma wf_areaE:
  assumes "wf_area ps a" "wf_tags ps"
  obtains xs where "length xs = length ps" "a = mk_area ps xs"
  using assms by (auto simp: wf_area_iff)

lemma fresh_area_mk:
  assumes "wf_tags ps"
  shows "fresh_area ps = mk_area ps (replicate (length ps) None)"
proof -
  have "valid_of ps (replicate (length ps) None) = ps_None"
    using assms by (intro ps_eqI) (auto simp: ps_members_valid_of)
  then show ?thesis by (simp add: fresh_area_def mk_area_def)
qed

lemma wf_fresh_area [simp, invariant_intros]: "wf_tags ps \<Longrightarrow> wf_area ps (fresh_area ps)"
  by (simp add: fresh_area_mk)

section \<open>Property accesses as slot updates\<close>

lemma slot_mk_area [simp]: "i < length xs \<Longrightarrow> slot i (mk_area ps xs) = xs ! i"
  by (simp add: slot_def)

lemma valid_of_update_Some:
  assumes "wf_tags ps" "length xs = length ps" "i < length ps"
  shows "valid_of ps (xs[i := Some v]) = ps_add (valid_of ps xs) (pd_set (ps ! i))"
  using assms by (intro ps_eqI) (auto simp: ps_members_valid_of nth_list_update split: if_splits)

lemma valid_of_update_None:
  assumes "wf_tags ps" "length xs = length ps" "i < length ps"
  shows "valid_of ps (xs[i := None]) = ps_sub (valid_of ps xs) (pd_set (ps ! i))"
  using assms by (intro ps_eqI) (auto simp: ps_members_valid_of nth_list_update)

lemma add_member_eq:
  assumes "pd_index p < 32" "pd_index p \<in> ps_members s"
  shows "ps_add s (pd_set p) = s"
  using assms by (intro ps_eqI) auto

lemma emplace_mk_area [simp]:
  assumes "wf_tags ps" "length xs = length ps" "i < length ps"
  shows "emplace i (ps ! i) v (mk_area ps xs) = Inr (mk_area ps (xs[i := Some v]))"
  using assms
  by (auto simp: emplace_def assign_slot_def construct_slot_def setValid_def slot_def mk_area_def
      valid_of_update_Some add_member_eq simp del: isValid_mk_area split: option.splits)

lemma reset_mk_area [simp]:
  assumes "wf_tags ps" "length xs = length ps" "i < length ps"
  shows "reset i (ps ! i) (mk_area ps xs) = Inr (mk_area ps (xs[i := None]))"
proof (cases "xs ! i")
  case None
  then have "xs[i := None] = xs" by (metis list_update_id)
  then show ?thesis using assms None by (simp add: reset_def)
next
  case (Some v)
  then show ?thesis using assms
    by (simp add: reset_def destruct_slot_def setInvalid_def valid_of_update_None)
      (simp add: mk_area_def valid_of_update_None)
qed

lemma read_slot_mk_area [simp]:
  "i < length xs \<Longrightarrow> xs ! i = Some v \<Longrightarrow> read_slot i (mk_area ps xs) = Inr v"
  by (simp add: read_slot_def)

lemma assign_slot_mk_area [simp]:
  assumes "wf_tags ps" "length xs = length ps" "i < length ps" "xs ! i = Some w"
  shows "assign_slot i v (mk_area ps xs) = Inr (mk_area ps (xs[i := Some v]))"
  using assms by (simp add: assign_slot_def mk_area_def slot_def valid_of_update_Some add_member_eq)

lemma assignProperty_mk_area [simp]:
  assumes "wf_tags ps" "length xs = length ps" "length ys = length ps" "i < length ps"
  shows "assignProperty i (ps ! i) (mk_area ps ys) (mk_area ps xs) =
         Inr (mk_area ps (xs[i := ys ! i]))"
  using assms by (cases "ys ! i") (auto simp: assignProperty_def simp del: isValid_iff)

lemma valueOrEmplace_mk_area [simp]:
  assumes "wf_tags ps" "length xs = length ps" "i < length ps"
  shows "valueOrEmplace i (ps ! i) v (mk_area ps xs) =
         Inr (mk_area ps (xs[i := Some (case xs ! i of None \<Rightarrow> v | Some w \<Rightarrow> w)]))"
proof (cases "xs ! i")
  case (Some w)
  then have "xs[i := Some w] = xs" by (metis list_update_id)
  then show ?thesis using assms Some by (simp add: valueOrEmplace_def)
qed (use assms in \<open>simp add: valueOrEmplace_def\<close>)

lemma property_value_mk_area [simp]:
  assumes "wf_tags ps" "length xs = length ps" "i < length ps"
  shows "property_value i (ps ! i) (mk_area ps xs) =
         (case xs ! i of None \<Rightarrow>
            Inl (RuntimeError (''property is expected to be valid but it is not: '' @ pd_name (ps ! i)))
          | Some v \<Rightarrow> Inr v)"
  using assms by (simp add: property_value_def split: option.splits)

lemma swapProperty_mk_area [simp]:
  assumes "wf_tags ps" "length xs = length ps" "length ys = length ps" "i < length ps"
  shows "swapProperty i (ps ! i) (mk_area ps xs) (mk_area ps ys) =
         Inr (mk_area ps (xs[i := ys ! i]), mk_area ps (ys[i := xs ! i]))"
proof (cases "xs ! i"; cases "ys ! i")
  assume "xs ! i = None" "ys ! i = None"
  moreover from this have "xs[i := None] = xs" "ys[i := None] = ys" by (metis list_update_id)+
  ultimately show ?thesis using assms by (simp add: swapProperty_def)
qed (use assms in \<open>simp_all add: swapProperty_def\<close>)

section \<open>Loops over a property range\<close>

lemma set_propertyRange:
  "set (propertyRange ps inc) = {(i, ps ! i) | i. i < length ps \<and> ps_le (pd_set (ps ! i)) inc}"
  by (auto simp: propertyRange_def in_set_enumerate_eq simp del: ps_le_iff)

lemma distinct_propertyRange: "distinct (List.map fst (propertyRange ps inc))"
  unfolding propertyRange_def by (rule distinct_map_filter) simp

text \<open>
  \<open>mk\<close> builds the state of a loop from one entry per property. A body that changes the entry
  of the visited property \<open>i\<close> by \<open>h i\<close> changes the entries of all visited properties.
\<close>

lemma foldE_slots:
  assumes step: "\<And>i p ws. (i, p) \<in> set L \<Longrightarrow> length ws = n \<Longrightarrow> ws ! i = zs ! i \<Longrightarrow>
                   f (i, p) (mk ws) = Inr (mk (ws[i := h i (ws ! i)]))"
    and "distinct (List.map fst L)" "length zs = n" "fst ` set L \<subseteq> {..<n}"
  shows "\<exists>zs'. foldE f L (mk zs) = Inr (mk zs') \<and> length zs' = n \<and>
           (\<forall>i < n. zs' ! i = (if i \<in> fst ` set L then h i (zs ! i) else zs ! i))"
  using assms
proof (induction L arbitrary: zs)
  case Nil
  then show ?case by (intro exI [of _ zs]) simp
next
  case (Cons ip L)
  obtain i p where ip: "ip = (i, p)" by (cases ip)
  have i: "i < n" using Cons.prems(4) by (simp add: ip)
  have i_notin: "i \<notin> fst ` set L" using Cons.prems(2) by (simp add: ip)
  let ?zs = "zs[i := h i (zs ! i)]"
  have "\<exists>zs'. foldE f L (mk ?zs) = Inr (mk zs') \<and> length zs' = n \<and>
      (\<forall>j < n. zs' ! j = (if j \<in> fst ` set L then h j (?zs ! j) else ?zs ! j))"
  proof (intro Cons.IH)
    fix j q ws assume jq: "(j, q) \<in> set L" "length ws = n" "ws ! j = ?zs ! j"
    then have "j \<noteq> i" using i_notin by force
    then show "f (j, q) (mk ws) = Inr (mk (ws[j := h j (ws ! j)]))"
      using jq by (intro Cons.prems(1)) simp_all
  qed (use Cons.prems in simp_all)
  then obtain zs' where zs': "foldE f L (mk ?zs) = Inr (mk zs')" "length zs' = n"
    "\<And>j. j < n \<Longrightarrow> zs' ! j = (if j \<in> fst ` set L then h j (?zs ! j) else ?zs ! j)" by blast
  from i_notin have "zs' ! j = (if j \<in> fst ` set (ip # L) then h j (zs ! j) else zs ! j)" if "j < n" for j
    using zs'(3) [OF that] i Cons.prems(3) by (auto simp: ip nth_list_update)
  moreover have "f ip (mk zs) = Inr (mk ?zs)"
    unfolding ip using Cons.prems(3) by (intro Cons.prems(1)) (simp_all add: ip)
  ultimately show ?case using zs'(1,2) by (intro exI [of _ zs']) simp
qed

definition upd_range :: "pdesc list \<Rightarrow> property_set \<Rightarrow> (nat \<Rightarrow> 'z \<Rightarrow> 'z) \<Rightarrow> 'z list \<Rightarrow> 'z list" where
  "upd_range ps inc h zs =
     List.map (\<lambda>i. if pd_index (ps ! i) \<in> ps_members inc then h i (zs ! i) else zs ! i) [0..<length ps]"

lemma length_upd_range [simp]: "length (upd_range ps inc h zs) = length ps"
  by (simp add: upd_range_def)

lemma nth_upd_range [simp]:
  "i < length ps \<Longrightarrow>
   upd_range ps inc h zs ! i = (if pd_index (ps ! i) \<in> ps_members inc then h i (zs ! i) else zs ! i)"
  by (simp add: upd_range_def)

lemma foldE_propertyRange:
  assumes "wf_tags ps" "length zs = length ps"
    and "\<And>i ws. i < length ps \<Longrightarrow> length ws = length ps \<Longrightarrow> ws ! i = zs ! i \<Longrightarrow>
           pd_index (ps ! i) \<in> ps_members inc \<Longrightarrow>
           f (i, ps ! i) (mk ws) = Inr (mk (ws[i := h i (ws ! i)]))"
  shows "foldE f (propertyRange ps inc) (mk zs) = Inr (mk (upd_range ps inc h zs))"
proof -
  have fst: "i \<in> fst ` set (propertyRange ps inc) \<longleftrightarrow> pd_index (ps ! i) \<in> ps_members inc"
    if "i < length ps" for i
    using that assms(1) by (force simp: set_propertyRange image_iff)
  have "\<exists>zs'. foldE f (propertyRange ps inc) (mk zs) = Inr (mk zs') \<and> length zs' = length ps \<and>
    (\<forall>i < length ps. zs' ! i =
       (if i \<in> fst ` set (propertyRange ps inc) then h i (zs ! i) else zs ! i))"
    using assms by (intro foldE_slots distinct_propertyRange) (auto simp: set_propertyRange)
  then obtain zs' where zs': "foldE f (propertyRange ps inc) (mk zs) = Inr (mk zs')"
    "length zs' = length ps"
    "\<And>i. i < length ps \<Longrightarrow> zs' ! i =
       (if i \<in> fst ` set (propertyRange ps inc) then h i (zs ! i) else zs ! i)" by blast
  have "zs' = upd_range ps inc h zs"
    using zs'(2,3) fst by (intro nth_equalityI) simp_all
  then show ?thesis using zs'(1) by simp
qed

section \<open>An instance as a map from tags to values\<close>

definition area_map :: "pdesc list \<Rightarrow> area \<Rightarrow> nat \<Rightarrow> val option" where
  "area_map ps a t =
     (case find (\<lambda>(i, p). pd_index p = t) (enumerate 0 ps) of
        None \<Rightarrow> None | Some (i, p) \<Rightarrow> if isValid p a then slot i a else None)"

lemma find_index:
  assumes "wf_tags ps" "i < length ps"
  shows "find (\<lambda>(j, p). pd_index p = pd_index (ps ! i)) (enumerate 0 ps) = Some (i, ps ! i)"
proof -
  have "distinct (List.map (\<lambda>(j, p). pd_index p) (enumerate 0 ps))"
    using assms(1) by (simp add: wf_tags_def case_prod_beta' flip: map_map [of pd_index snd, unfolded comp_def])
  moreover have "(i, ps ! i) \<in> set (enumerate 0 ps)"
    using assms(2) by (simp add: in_set_enumerate_eq)
  ultimately show ?thesis
    using find_unique_key [of "\<lambda>(j, p). pd_index p" "enumerate 0 ps" "(i, ps ! i)"]
    by (simp add: case_prod_beta')
qed

lemma area_map_nth [simp]:
  assumes "wf_tags ps" "length xs = length ps" "i < length ps"
  shows "area_map ps (mk_area ps xs) (pd_index (ps ! i)) = xs ! i"
  using assms by (cases "xs ! i") (simp_all add: area_map_def find_index)

lemma area_map_None [simp]: "t \<notin> pd_index ` set ps \<Longrightarrow> area_map ps a t = None"
  by (auto simp: area_map_def find_None_set in_set_enumerate_eq split: option.splits
      dest!: find_Some_set)

lemma area_map_eqI:
  assumes "\<And>i. i < length ps \<Longrightarrow> area_map ps a (pd_index (ps ! i)) = m (pd_index (ps ! i))"
    and "\<And>t. t \<notin> pd_index ` set ps \<Longrightarrow> m t = None"
  shows "area_map ps a = m"
proof
  fix t show "area_map ps a t = m t"
    using assms by (cases "t \<in> pd_index ` set ps") (auto simp: in_set_conv_nth)
qed

lemma area_map_inject:
  assumes "wf_tags ps" "wf_area ps a" "wf_area ps b" "area_map ps a = area_map ps b"
  shows "a = b"
proof -
  obtain xs where xs: "length xs = length ps" "a = mk_area ps xs" using assms by (auto elim: wf_areaE)
  obtain ys where ys: "length ys = length ps" "b = mk_area ps ys" using assms by (auto elim: wf_areaE)
  have "xs = ys"
  proof (intro nth_equalityI)
    fix i assume "i < length xs"
    then show "xs ! i = ys ! i"
      using xs ys assms(1) fun_cong [OF assms(4), of "pd_index (ps ! i)"] by simp
  qed (simp add: xs ys)
  then show ?thesis by (simp add: xs ys)
qed

lemma area_map_upd_range:
  assumes "wf_tags ps" "length zs = length ps"
  shows "area_map ps (mk_area ps (upd_range ps inc h zs)) =
         (\<lambda>t. case find (\<lambda>(j, p). pd_index p = t) (enumerate 0 ps) of
            None \<Rightarrow> None
          | Some (i, p) \<Rightarrow> if t \<in> ps_members inc then h i (zs ! i) else zs ! i)"
  using assms by (intro area_map_eqI) (auto simp: find_index find_None_set in_set_enumerate_eq
      split: option.splits dest!: find_Some_set)

lemma dom_area_map: 
  assumes "wf_tags ps" "wf_area ps a"
  shows "dom (area_map ps a) = ps_members (validProperties a)"
proof -
  obtain xs where xs: "length xs = length ps" "a = mk_area ps xs" using assms by (auto elim: wf_areaE)
  show ?thesis
  proof (intro equalityI subsetI)
    fix t assume t: "t \<in> dom (area_map ps a)"
    then obtain i where "i < length ps" "t = pd_index (ps ! i)"
      using area_map_None [of t ps a] by (fastforce simp: in_set_conv_nth)
    then show "t \<in> ps_members (validProperties a)" using t xs assms(1) by auto
  next
    fix t assume t: "t \<in> ps_members (validProperties a)"
    then obtain i where "i < length ps" "t = pd_index (ps ! i)" "xs ! i \<noteq> None"
      using assms(1) xs by (auto simp: ps_members_valid_of)
    then show "t \<in> dom (area_map ps a)" using xs assms(1) by auto
  qed
qed

section \<open>The operations refine operations on maps\<close>

lemmas op_defs = struct_assign_def struct_copy_def struct_clear_def struct_construct_def
  struct_swap_def struct_assign_move_def struct_construct_move_def

lemma struct_clear_mk:
  assumes "wf_tags ps" "length xs = length ps"
  shows "struct_clear ps (mk_area ps xs) inc = Inr (mk_area ps (upd_range ps inc (\<lambda>_ _. None) xs))"
  unfolding struct_clear_def using assms by (intro foldE_propertyRange) simp_all

lemma struct_copy_mk:
  assumes "wf_tags ps" "length xs = length ps" "length ys = length ps"
  shows "struct_copy ps (mk_area ps xs) (mk_area ps ys) inc =
         Inr (mk_area ps (upd_range ps inc (\<lambda>i _. ys ! i) xs))"
proof -
  let ?cp = "ps_intersect (ps_add (valid_of ps xs) (valid_of ps ys)) inc"
  have "struct_copy ps (mk_area ps xs) (mk_area ps ys) inc =
        Inr (mk_area ps (upd_range ps ?cp (\<lambda>i _. ys ! i) xs))"
    unfolding struct_copy_def Let_def validProperties_mk_area
    using assms by (intro foldE_propertyRange) (simp_all del: isValid_iff)
  also have "upd_range ps ?cp (\<lambda>i _. ys ! i) xs = upd_range ps inc (\<lambda>i _. ys ! i) xs"
    using assms by (intro nth_equalityI) auto
  finally show ?thesis .
qed

lemma struct_assign_mk:
  assumes "wf_tags ps" "length xs = length ps" "length ys = length ps"
  shows "struct_assign ps (mk_area ps xs) (mk_area ps ys) inc =
         Inr (mk_area ps (List.map (\<lambda>i. if pd_index (ps ! i) \<in> ps_members inc then ys ! i else None)
                            [0..<length ps]))"
proof -
  let ?h = "\<lambda>i _. if pd_index (ps ! i) \<in> ps_members inc then ys ! i else None"
  have "struct_assign ps (mk_area ps xs) (mk_area ps ys) inc =
        Inr (mk_area ps (upd_range ps ps_All ?h xs))"
    unfolding struct_assign_def Let_def validProperties_mk_area
    using assms by (intro foldE_propertyRange) (auto simp del: isValid_iff)
  also have "upd_range ps ps_All ?h xs =
      List.map (\<lambda>i. if pd_index (ps ! i) \<in> ps_members inc then ys ! i else None) [0..<length ps]"
    using assms by (intro nth_equalityI) auto
  finally show ?thesis .
qed

lemma struct_construct_mk:
  assumes "wf_tags ps" "length ys = length ps"
  shows "struct_construct ps (mk_area ps ys) = Inr (mk_area ps ys)"
proof -
  let ?xs = "replicate (length ps) (None :: val option)"
  have "struct_construct ps (mk_area ps ys) =
        Inr (mk_area ps (upd_range ps (valid_of ps ys) (\<lambda>i _. ys ! i) ?xs))"
    unfolding struct_construct_def validProperties_mk_area fresh_area_mk [OF assms(1)]
    using assms by (intro foldE_propertyRange) simp_all
  also have "upd_range ps (valid_of ps ys) (\<lambda>i _. ys ! i) ?xs = ys"
    using assms by (intro nth_equalityI) auto
  finally show ?thesis .
qed

definition mk_pair :: "pdesc list \<Rightarrow> (val option \<times> val option) list \<Rightarrow> area \<times> area" where
  "mk_pair ps zs = (mk_area ps (List.map fst zs), mk_area ps (List.map snd zs))"

lemma mk_pair_zip: "length xs = length ys \<Longrightarrow> (mk_area ps xs, mk_area ps ys) = mk_pair ps (zip xs ys)"
  by (simp add: mk_pair_def)

lemma struct_swap_mk:
  assumes "wf_tags ps" "length xs = length ps" "length ys = length ps"
  shows "struct_swap ps (mk_area ps xs) (mk_area ps ys) inc =
         Inr (mk_area ps (upd_range ps inc (\<lambda>i _. ys ! i) xs),
              mk_area ps (upd_range ps inc (\<lambda>i _. xs ! i) ys))"
proof -
  have len: "length xs = length ys" using assms by simp
  have "struct_swap ps (mk_area ps xs) (mk_area ps ys) inc =
        Inr (mk_pair ps (upd_range ps inc (\<lambda>_ (x, y). (y, x)) (zip xs ys)))"
    unfolding struct_swap_def mk_pair_zip [OF len]
    using assms by (intro foldE_propertyRange) (simp_all add: mk_pair_def map_update case_prod_beta')
  then show ?thesis
    using assms by (auto simp: mk_pair_def intro!: arg_cong [where f = "mk_area ps"] nth_equalityI)
qed

lemma struct_assign_move_mk:
  assumes "wf_tags ps" "length xs = length ps" "length ys = length ps"
  shows "struct_assign_move ps (mk_area ps xs) (mk_area ps ys) inc =
         Inr (mk_area ps (List.map (\<lambda>i. if pd_index (ps ! i) \<in> ps_members inc then ys ! i else None)
                            [0..<length ps]),
              mk_area ps (upd_range ps inc (\<lambda>_ _. None) ys))"
proof -
  have len: "length xs = length ys" using assms by simp
  let ?h = "\<lambda>i (x, y). if pd_index (ps ! i) \<in> ps_members inc then (y, None) else (None, y)"
  have "struct_assign_move ps (mk_area ps xs) (mk_area ps ys) inc =
        Inr (mk_pair ps (upd_range ps ps_All ?h (zip xs ys)))"
    unfolding struct_assign_move_def mk_pair_zip [OF len] Let_def validProperties_mk_area
    using assms
    by (intro foldE_propertyRange)
      (auto simp: mk_pair_def map_update case_prod_beta' simp del: isValid_iff)
  then show ?thesis
    using assms by (auto simp: mk_pair_def intro!: arg_cong [where f = "mk_area ps"] nth_equalityI)
qed

lemma struct_construct_move_mk:
  assumes "wf_tags ps" "length ys = length ps"
  shows "struct_construct_move ps (mk_area ps ys) = Inr (mk_area ps ys, fresh_area ps)"
proof -
  let ?xs = "replicate (length ps) (None :: val option)"
  have len: "length ?xs = length ys" using assms by simp
  have "struct_construct_move ps (mk_area ps ys) =
        Inr (mk_pair ps (upd_range ps (valid_of ps ys) (\<lambda>i (x, y). (y, None)) (zip ?xs ys)))"
    unfolding struct_construct_move_def validProperties_mk_area fresh_area_mk [OF assms(1)]
      mk_pair_zip [OF len]
    using assms
    by (intro foldE_propertyRange)
      (auto simp: mk_pair_def map_update case_prod_beta' simp del: isValid_iff)
  then show ?thesis
    using assms
    by (auto simp: mk_pair_def fresh_area_mk intro!: arg_cong [where f = "mk_area ps"] nth_equalityI)
qed

lemma area_map_slots:
  assumes "wf_tags ps" "length xs = length ps" "t \<notin> pd_index ` set ps \<Longrightarrow> m t = None"
    and "\<And>i. i < length ps \<Longrightarrow> t = pd_index (ps ! i) \<Longrightarrow> xs ! i = m t"
  shows "area_map ps (mk_area ps xs) t = m t"
  using assms by (cases "t \<in> pd_index ` set ps") (auto simp: in_set_conv_nth)

text \<open>Assigning leaves exactly the included valid properties of the other instance.\<close>

theorem struct_assign_refines:
  assumes "wf_tags ps" "wf_area ps a" "wf_area ps other"
  shows "\<exists>a'. struct_assign ps a other inc = Inr a' \<and> wf_area ps a'
           \<and> area_map ps a' = area_map ps other |` ps_members inc"
proof -
  obtain xs where xs: "length xs = length ps" "a = mk_area ps xs" using assms by (auto elim: wf_areaE)
  obtain ys where ys: "length ys = length ps" "other = mk_area ps ys" using assms by (auto elim: wf_areaE)
  show ?thesis
    using assms(1) xs ys
    by (auto simp: struct_assign_mk restrict_map_def intro!: area_map_slots)
qed

lemma struct_assign_refines_witness:
  "\<exists>a'. struct_assign example_props (example_area (Some 1) None None) (example_area (Some 2) (Some ''x'') None) (FromIndex 1) = Inr a' \<and> wf_area example_props a'
     \<and> area_map example_props a' = area_map example_props (example_area (Some 2) (Some ''x'') None) |` ps_members (FromIndex 1)"
  by (rule struct_assign_refines [OF example_wf_tags example_wf_area example_wf_area])

text \<open>Copy construction yields an equal instance in raw storage, and move construction also leaves
  the source without valid properties.\<close>

theorem struct_construct_copies:
  assumes "wf_tags ps" "wf_area ps other"
  shows "struct_construct ps other = Inr other
    \<and> struct_construct_move ps other = Inr (other, fresh_area ps)"
  using assms by (auto simp: struct_construct_mk struct_construct_move_mk elim!: wf_areaE)

lemma struct_construct_copies_witness:
  "struct_construct example_props (example_area (Some 2) (Some ''x'') None) = Inr (example_area (Some 2) (Some ''x'') None)
     \<and> struct_construct_move example_props (example_area (Some 2) (Some ''x'') None) = Inr (example_area (Some 2) (Some ''x'') None, fresh_area example_props)"
  by (rule struct_construct_copies [OF example_wf_tags example_wf_area])

text \<open>Copying takes over the included properties of the other instance, invalid ones as well, and
  leaves all others alone.\<close>

theorem struct_copy_refines:
  assumes "wf_tags ps" "wf_area ps a" "wf_area ps other"
  shows "\<exists>a'. struct_copy ps a other inc = Inr a' \<and> wf_area ps a'
           \<and> area_map ps a' = (\<lambda>t. if t \<in> ps_members inc then area_map ps other t else area_map ps a t)"
proof -
  obtain xs where xs: "length xs = length ps" "a = mk_area ps xs" using assms by (auto elim: wf_areaE)
  obtain ys where ys: "length ys = length ps" "other = mk_area ps ys" using assms by (auto elim: wf_areaE)
  show ?thesis
    using assms(1) xs ys by (auto simp: struct_copy_mk intro!: area_map_slots)
qed

lemma struct_copy_refines_witness:
  "\<exists>a'. struct_copy example_props (example_area (Some 1) None None) (example_area (Some 2) (Some ''x'') None) (FromIndex 2) = Inr a' \<and> wf_area example_props a'
     \<and> area_map example_props a' =
         (\<lambda>t. if t \<in> ps_members (FromIndex 2) then area_map example_props (example_area (Some 2) (Some ''x'') None) t
              else area_map example_props (example_area (Some 1) None None) t)"
  by (rule struct_copy_refines [OF example_wf_tags example_wf_area example_wf_area])

text \<open>Swapping exchanges the included properties of two instances and no others.\<close>

theorem struct_swap_refines:
  assumes "wf_tags ps" "wf_area ps a" "wf_area ps b"
  shows "\<exists>a' b'. struct_swap ps a b inc = Inr (a', b') \<and> wf_area ps a' \<and> wf_area ps b'
           \<and> area_map ps a' = (\<lambda>t. if t \<in> ps_members inc then area_map ps b t else area_map ps a t)
           \<and> area_map ps b' = (\<lambda>t. if t \<in> ps_members inc then area_map ps a t else area_map ps b t)"
proof -
  obtain xs where xs: "length xs = length ps" "a = mk_area ps xs" using assms by (auto elim: wf_areaE)
  obtain ys where ys: "length ys = length ps" "b = mk_area ps ys" using assms by (auto elim: wf_areaE)
  show ?thesis
    using assms(1) xs ys by (auto simp: struct_swap_mk intro!: area_map_slots)
qed

lemma struct_swap_refines_witness:
  "\<exists>a' b'. struct_swap example_props (example_area (Some 1) None None) (example_area (Some 2) (Some ''x'') None) ps_All = Inr (a', b')"
  using struct_swap_refines [OF example_wf_tags example_wf_area example_wf_area] by blast

text \<open>Move assignment gives the target the included valid properties of the source and leaves the
  source with the others.\<close>

theorem struct_assign_move_refines:
  assumes "wf_tags ps" "wf_area ps a" "wf_area ps other"
  shows "\<exists>a' other'. struct_assign_move ps a other inc = Inr (a', other')
           \<and> wf_area ps a' \<and> wf_area ps other'
           \<and> area_map ps a' = area_map ps other |` ps_members inc
           \<and> area_map ps other' = area_map ps other |` (- ps_members inc)"
proof -
  obtain xs where xs: "length xs = length ps" "a = mk_area ps xs" using assms by (auto elim: wf_areaE)
  obtain ys where ys: "length ys = length ps" "other = mk_area ps ys" using assms by (auto elim: wf_areaE)
  show ?thesis
    using assms(1) xs ys
    by (auto simp: struct_assign_move_mk restrict_map_def intro!: area_map_slots)
qed

lemma struct_assign_move_refines_witness:
  "\<exists>a' b'. struct_assign_move example_props (example_area (Some 1) None None) (example_area (Some 2) (Some ''x'') None) ps_All = Inr (a', b')"
  using struct_assign_move_refines [OF example_wf_tags example_wf_area example_wf_area] by blast

text \<open>Clearing makes exactly the included properties invalid.\<close>

theorem struct_clear_refines:
  assumes "wf_tags ps" "wf_area ps a"
  shows "\<exists>a'. struct_clear ps a inc = Inr a' \<and> wf_area ps a'
           \<and> area_map ps a' = area_map ps a |` (- ps_members inc)"
proof -
  obtain xs where xs: "length xs = length ps" "a = mk_area ps xs" using assms by (auto elim: wf_areaE)
  then show ?thesis
    using assms(1) by (auto simp: struct_clear_mk restrict_map_def intro!: area_map_slots)
qed

lemma struct_clear_refines_witness:
  "\<exists>a'. struct_clear example_props (example_area (Some 2) (Some ''x'') None) ps_All = Inr a'
     \<and> area_map example_props a' = area_map example_props (example_area (Some 2) (Some ''x'') None) |` (- ps_members ps_All)"
  using struct_clear_refines [OF example_wf_tags example_wf_area] by blast

section \<open>Equality and difference\<close>

lemma props_equal_iff:
  "props_equal inc k ps a b \<longleftrightarrow>
     (\<forall>i < length ps. ps_le (pd_set (ps ! i)) inc \<longrightarrow> property_eq (k + i) (ps ! i) a b)"
proof (induction ps arbitrary: k)
  case Nil
  then show ?case by (simp add: props_equal.simps)
next
  case (Cons p ps)
  obtain d n t key where [simp]: "p = PropertyDescriptor d n t key" by (cases p)
  show ?case
    using Cons.IH [of "Suc k"]
    by (auto simp: props_equal.simps Let_def property_eq_def All_less_Suc2 simp del: ps_le_iff isValid_iff)
qed

lemma struct_equal_iff:
  "struct_equal ps a b inc \<longleftrightarrow>
     (\<forall>i < length ps. ps_le (pd_set (ps ! i)) inc \<longrightarrow> property_eq i (ps ! i) a b)"
  by (simp add: struct_equal_def props_equal_iff del: ps_le_iff)

lemma ps_members_diff_loop:
  "(\<forall>(i, p) \<in> set L. pd_index p < 32) \<Longrightarrow>
   ps_members (fold (\<lambda>(i, p) d. if \<not> property_eq i p a b then ps_add d (pd_set p) else d) L s) =
   ps_members s \<union> {pd_index p | i p. (i, p) \<in> set L \<and> \<not> property_eq i p a b}"
  by (induction L arbitrary: s) (auto split: if_splits, blast)

lemma mem_visited_iff:
  assumes "wf_tags ps" "i < length ps"
  shows "pd_index (ps ! i) \<in> {pd_index p | j p. (j, p) \<in> set (propertyRange ps inc) \<and> Q j p}
         \<longleftrightarrow> pd_index (ps ! i) \<in> ps_members inc \<and> Q i (ps ! i)" (is "?l \<longleftrightarrow> ?r")
proof
  assume ?l
  then obtain j where j: "j < length ps" "ps_le (pd_set (ps ! j)) inc" "Q j (ps ! j)"
    "pd_index (ps ! i) = pd_index (ps ! j)"
    by (auto simp: set_propertyRange simp del: ps_le_iff)
  then have "i = j" using assms by simp
  then show ?r using j assms by simp
next
  assume ?r
  then have "(i, ps ! i) \<in> set (propertyRange ps inc)"
    using assms by (simp add: set_propertyRange)
  then show ?l using \<open>?r\<close> by blast
qed

lemma property_eq_invalid:
  "isValid p a \<noteq> isValid p b \<Longrightarrow> \<not> property_eq i p a b"
  "\<not> isValid p a \<Longrightarrow> \<not> isValid p b \<Longrightarrow> property_eq i p a b"
  by (auto simp: property_eq_def simp del: isValid_iff)

lemma ps_None_iff: "s = ps_None \<longleftrightarrow> ps_members s = {}"
  using ps_members_inject [of s ps_None] by simp

lemma diffProperties_loop:
  fixes ps a b inc
  defines "sd \<equiv> ps_intersect (symmetricDifference (validProperties a) (validProperties b)) inc"
    and "isc \<equiv> ps_intersect (ps_intersect (validProperties a) (validProperties b)) inc"
  assumes "wf_tags ps"
  shows "ps_members (diffProperties ps a b inc) =
    ps_members sd \<union> {pd_index p | i p. (i, p) \<in> set (propertyRange ps isc) \<and> \<not> property_eq i p a b}"
proof (cases "ps_empty isc")
  case True
  then have "propertyRange ps isc = []"
    using assms(3) by (auto simp: propertyRange_def filter_empty_conv in_set_enumerate_eq)
  then show ?thesis using True
    by (simp add: diffProperties_def Let_def flip: sd_def isc_def del: ps_empty_iff)
next
  case False
  have "\<forall>(i, p) \<in> set (propertyRange ps isc). pd_index p < 32"
    using assms(3) by (auto simp: set_propertyRange)
  then show ?thesis using False
    by (simp add: diffProperties_def Let_def ps_members_diff_loop flip: sd_def isc_def del: ps_empty_iff)
qed

text \<open>The difference of two instances is the set of included properties that compare unequal, and
  it is empty exactly when the instances are equal on the included properties.\<close>

theorem diffProperties_members:
  assumes "wf_tags ps" "wf_area ps a" "wf_area ps b"
  shows "ps_members (diffProperties ps a b inc) =
         {pd_index (ps ! i) | i. i < length ps \<and> pd_index (ps ! i) \<in> ps_members inc
            \<and> \<not> property_eq i (ps ! i) a b}
    \<and> (diffProperties ps a b inc = ps_None \<longleftrightarrow> struct_equal ps a b inc)"
proof -
  have sub: "ps_members (validProperties a) \<subseteq> pd_index ` set ps"
    "ps_members (validProperties b) \<subseteq> pd_index ` set ps"
    using assms(2,3) by (simp_all add: wf_area_def)
  have dom: "t \<in> pd_index ` set ps" if "t \<in> ps_members (diffProperties ps a b inc)" for t
    using that sub unfolding diffProperties_loop [OF assms(1)] by (auto simp: set_propertyRange)
  have iff: "pd_index (ps ! i) \<in> ps_members (diffProperties ps a b inc) \<longleftrightarrow>
      pd_index (ps ! i) \<in> ps_members inc \<and> \<not> property_eq i (ps ! i) a b"
    if i: "i < length ps" for i
    unfolding diffProperties_loop [OF assms(1)] Un_iff mem_visited_iff [OF assms(1) i]
    using property_eq_invalid [of "ps ! i" a b i] assms(1) i by auto
  have "ps_members (diffProperties ps a b inc) =
         {pd_index (ps ! i) | i. i < length ps \<and> pd_index (ps ! i) \<in> ps_members inc
            \<and> \<not> property_eq i (ps ! i) a b}" (is "?L = ?R")
  proof (intro equalityI subsetI)
    fix t assume t: "t \<in> ?L"
    then obtain i where "i < length ps" "t = pd_index (ps ! i)"
      using dom [OF t] by (auto simp: in_set_conv_nth)
    then show "t \<in> ?R" using iff [of i] t by blast
  qed (use iff in blast)
  moreover have "diffProperties ps a b inc = ps_None \<longleftrightarrow> struct_equal ps a b inc"
    unfolding ps_None_iff calculation struct_equal_iff using assms(1) by auto
  ultimately show ?thesis by blast
qed

lemma diffProperties_members_witness:
  "diffProperties example_props (example_area (Some 1) None None) (example_area (Some 2) (Some ''x'') None) ps_All = ps_None
     \<longleftrightarrow> struct_equal example_props (example_area (Some 1) None None) (example_area (Some 2) (Some ''x'') None) ps_All"
  using diffProperties_members [OF example_wf_tags example_wf_area example_wf_area] by blast

section \<open>Merge\<close>

fun merged_val :: "descr \<Rightarrow> val option \<Rightarrow> val \<Rightarrow> val"
and merged_slots :: "property_set \<Rightarrow> pdesc list \<Rightarrow> val option list \<Rightarrow> val option list \<Rightarrow> val option list" where
  "merged_val (StructD (StructDescriptor n fl qs)) x w =
     VStruct (mk_area qs (merged_slots ps_All qs
       (case x of None \<Rightarrow> replicate (length qs) None | Some v \<Rightarrow> slots (area_of v))
       (slots (area_of w))))"
| "merged_val (Fundamental t) x w = w"
| "merged_val (EnumDescriptor n es) x w = w"
| "merged_val (VectorDescriptor d) x w = w"
| "merged_slots inc [] xs ys = []"
| "merged_slots inc (PropertyDescriptor d n t k # ps) xs ys =
     (case hd ys of
        Some w \<Rightarrow> if ps_le (pd_set (PropertyDescriptor d n t k)) inc
                  then Some (merged_val d (hd xs) w) else hd xs
      | None \<Rightarrow> hd xs)
     # merged_slots inc ps (tl xs) (tl ys)"

lemma length_merged_slots [simp]: "length (merged_slots inc ps xs ys) = length ps"
  by (induction ps arbitrary: xs ys rule: list.induct) (simp, metis length_Cons merged_slots.simps(2) pdesc.exhaust)

lemma slots_ok_length: "slots_ok ps xs \<Longrightarrow> length xs = length ps"
proof (induction ps arbitrary: xs)
  case (Cons p ps)
  then show ?case by (cases p; cases xs) simp_all
qed simp

lemma slots_ok_replicate [simp]: "slots_ok ps (replicate (length ps) None)"
proof (induction ps)
  case (Cons p ps)
  then show ?case by (cases p) simp
qed simp

lemma merged_slots_cong:
  "length ys = length ps \<Longrightarrow>
   \<forall>i < length ps. ys ! i \<noteq> None \<longrightarrow> ps_le (pd_set (ps ! i)) inc = ps_le (pd_set (ps ! i)) inc' \<Longrightarrow>
   merged_slots inc ps xs ys = merged_slots inc' ps xs ys"
proof (induction ps arbitrary: xs ys)
  case (Cons p ps)
  obtain d n t k where [simp]: "p = PropertyDescriptor d n t k" by (cases p)
  obtain y ys' where [simp]: "ys = y # ys'" using Cons.prems(1) by (cases ys) auto
  have "merged_slots inc ps (tl xs) ys' = merged_slots inc' ps (tl xs) ys'"
    using Cons.prems by (intro Cons.IH) (force simp del: ps_le_iff)+
  moreover have "y \<noteq> None \<Longrightarrow> ps_le (pd_set p) inc = ps_le (pd_set p) inc'"
    using Cons.prems(2) by (auto simp del: ps_le_iff)
  ultimately show ?case by (auto simp del: ps_le_iff split: option.split)
qed simp

lemma val_ok_struct:
  "val_ok (StructD (StructDescriptor n fl qs)) v \<Longrightarrow> wf_tags qs \<Longrightarrow>
   \<exists>zs. v = VStruct (mk_area qs zs) \<and> length zs = length qs \<and> slots_ok qs zs"
  by (auto split: val.splits elim!: wf_areaE)

lemma merge_correct:
  "wf_tags ps \<Longrightarrow> k \<le> length ps \<Longrightarrow> length xs = length ps \<Longrightarrow> length ys = length ps \<Longrightarrow>
     drop k ps = qs \<Longrightarrow> a = mk_area ps xs \<Longrightarrow> other = mk_area ps ys \<Longrightarrow>
     wf_props qs \<Longrightarrow> slots_ok qs (drop k xs) \<Longrightarrow> slots_ok qs (drop k ys) \<Longrightarrow>
     (\<forall>i < length ps. k \<le> i \<longrightarrow> ps_le (pd_set (ps ! i)) inc \<longrightarrow> ys ! i \<noteq> None) \<Longrightarrow>
     merge_loop inc k qs a other =
       Inr (mk_area ps (take k xs @ merged_slots inc qs (drop k xs) (drop k ys)))"
  "wf_tags ps \<Longrightarrow> k < length ps \<Longrightarrow> length xs = length ps \<Longrightarrow> length ys = length ps \<Longrightarrow>
     p = ps ! k \<Longrightarrow> a = mk_area ps xs \<Longrightarrow> other = mk_area ps ys \<Longrightarrow>
     wf_descr (valueDescriptor p) \<Longrightarrow> (\<forall>v. xs ! k = Some v \<longrightarrow> val_ok (valueDescriptor p) v) \<Longrightarrow>
     ys ! k = Some w \<Longrightarrow> val_ok (valueDescriptor p) w \<Longrightarrow>
     merge_prop k p a other =
       Inr (mk_area ps (xs[k := Some (merged_val (valueDescriptor p) (xs ! k) w)]))"
proof (induction inc k qs a other and k p a other arbitrary: ps xs ys and ps xs ys w
    rule: merge_loop_merge_prop.induct)
  case (1 inc i a other)
  then show ?case by simp
next
  case (2 inc i p qs a other)
  obtain d n t key where p: "p = PropertyDescriptor d n t key" by (cases p)
  note prems = "2.prems"
  have i: "i < length ps" using prems(5) by (metis drop_all leI list.distinct(1))
  then have ps: "ps ! i = p" "drop (Suc i) ps = qs"
    using prems(5) by (simp_all add: Cons_nth_drop_Suc [symmetric])
  have xs: "drop i xs = xs ! i # drop (Suc i) xs" and ys: "drop i ys = ys ! i # drop (Suc i) ys"
    using i prems by (simp_all add: Cons_nth_drop_Suc)
  have ok: "wf_descr (valueDescriptor p)" "wf_props qs" "slots_ok qs (drop (Suc i) xs)"
    "slots_ok qs (drop (Suc i) ys)" "\<And>v. xs ! i = Some v \<Longrightarrow> val_ok d v" "\<And>v. ys ! i = Some v \<Longrightarrow> val_ok d v"
    using prems(8-10) by (simp_all add: p xs ys)
  define x' where "x' = hd (merged_slots inc (p # qs) (drop i xs) (drop i ys))"
  have head: "(if ps_le (pd_set p) inc then merge_prop i p a other else Inr a) = Inr (mk_area ps (xs[i := x']))"
  proof (cases "ps_le (pd_set p) inc")
    case True
    then obtain w where w: "ys ! i = Some w" using prems(11) i ps(1) by (auto simp del: ps_le_iff)
    have "merge_prop i p a other =
       Inr (mk_area ps (xs[i := Some (merged_val (valueDescriptor p) (xs ! i) w)]))"
      using "2.IH"(1) [OF True, of ps xs ys w] prems(1,3,4,6,7) i ps(1) ok w by (simp add: p)
    then show ?thesis using True w by (simp add: x'_def p xs ys del: ps_le_iff)
  next
    case False
    then have "x' = xs ! i" by (simp add: x'_def p xs ys del: ps_le_iff split: option.split)
    then show ?thesis using False prems(6) by (simp del: ps_le_iff)
  qed
  have "merge_loop inc (Suc i) qs (mk_area ps (xs[i := x'])) other =
      Inr (mk_area ps (take (Suc i) (xs[i := x']) @ merged_slots inc qs (drop (Suc i) xs) (drop (Suc i) ys)))"
    using "2.IH"(2) [OF head, of ps "xs[i := x']" ys] prems i ps ok by (simp del: ps_le_iff)
  moreover have "take (Suc i) (xs[i := x']) @ merged_slots inc qs (drop (Suc i) xs) (drop (Suc i) ys) =
      take i xs @ merged_slots inc (p # qs) (drop i xs) (drop i ys)"
    using i prems(3) by (simp add: take_Suc_conv_app_nth x'_def p xs ys del: ps_le_iff)
  ultimately show ?case using head by simp
next
  case (3 i sn fl qs n t k a other)
  let ?p = "PropertyDescriptor (StructD (StructDescriptor sn fl qs)) n t k"
  note p = "3.prems"(5) and prems = "3.prems"
  have qs: "wf_tags qs" "wf_props qs" using prems(8) by simp_all
  define v where "v = (case xs ! i of None \<Rightarrow> VStruct (fresh_area qs) | Some v \<Rightarrow> v)"
  define zs where "zs = (case xs ! i of None \<Rightarrow> replicate (length qs) None | Some v \<Rightarrow> slots (area_of v))"
  have v: "v = VStruct (mk_area qs zs)" "length zs = length qs" "slots_ok qs zs"
  proof (atomize(full), cases "xs ! i")
    case (Some u)
    then have "val_ok (StructD (StructDescriptor sn fl qs)) u" using prems(9) by (simp only: pdesc.sel)
    then show "v = VStruct (mk_area qs zs) \<and> length zs = length qs \<and> slots_ok qs zs"
      using val_ok_struct qs(1) Some by (fastforce simp: v_def zs_def simp del: val_ok.simps)
  qed (simp add: v_def zs_def fresh_area_mk qs(1))
  have "val_ok (StructD (StructDescriptor sn fl qs)) w" using prems(11) by (simp only: pdesc.sel)
  then obtain us where w: "w = VStruct (mk_area qs us)" "length us = length qs" "slots_ok qs us"
    using val_ok_struct qs(1) by blast
  let ?xs = "xs[i := Some v]"
  have voe: "valueOrEmplace i ?p (VStruct (fresh_area qs)) a = Inr (mk_area ps ?xs)"
    using valueOrEmplace_mk_area [OF prems(1,3,2)] by (simp add: p prems(6) v_def)
  have other: "property_value i ?p other = Inr w"
    using property_value_mk_area [OF prems(1,4,2)] by (simp add: p prems(7,10))
  let ?inc = "ps_intersect (valid_of qs us) ps_All"
  have "merge_loop ?inc 0 qs (area_of v) (area_of w) =
      Inr (mk_area qs (take 0 zs @ merged_slots ?inc qs (drop 0 zs) (drop 0 us)))"
    using "3.IH" [OF refl voe, of v w qs zs us] other qs v w prems(2,3)
    by simp
  moreover have "merged_slots ?inc qs zs us = merged_slots ps_All qs zs us"
    using qs(1) w(2) by (intro merged_slots_cong) auto
  ultimately have "merge_loop ?inc 0 qs (mk_area qs zs) (mk_area qs us) =
      Inr (mk_area qs (merged_slots ps_All qs zs us))" by (simp add: v(1) w(1))
  moreover have "assign_slot i u (mk_area ps ?xs) = Inr (mk_area ps (xs[i := Some u]))" for u
    using assign_slot_mk_area [OF prems(1), of ?xs i v] prems(2,3) by simp
  ultimately show ?case
    using voe other prems(2,3) by (simp add: v(1) w(1) zs_def)
next
  case (4 i ty n t k a other)
  show ?case using assignProperty_mk_area [OF 4(1) 4(3) 4(4) 4(2)] 4(6-)
    by (simp flip: 4(5))
next
  case (5 i en es n t k a other)
  show ?case using assignProperty_mk_area [OF 5(1) 5(3) 5(4) 5(2)] 5(6-)
    by (simp flip: 5(5))
next
  case (6 i d n t k a other)
  show ?case using assignProperty_mk_area [OF 6(1) 6(3) 6(4) 6(2)] 6(6-)
    by (simp flip: 6(5))
qed

lemma merged_idem:
  "merged_val d (Some (merged_val d x w)) w = merged_val d x w"
  "merged_slots inc ps (merged_slots inc ps xs ys) ys = merged_slots inc ps xs ys"
  by (induction d x w and inc ps xs ys rule: merged_val_merged_slots.induct)
    (simp_all del: ps_le_iff split: option.splits)

lemma nth_merged_slots:
  "i < length ps \<Longrightarrow> length xs = length ps \<Longrightarrow> length ys = length ps \<Longrightarrow>
   merged_slots inc ps xs ys ! i =
     (case ys ! i of
        Some w \<Rightarrow> if ps_le (pd_set (ps ! i)) inc
                  then Some (merged_val (valueDescriptor (ps ! i)) (xs ! i) w) else xs ! i
      | None \<Rightarrow> xs ! i)"
proof (induction ps arbitrary: i xs ys)
  case (Cons p ps)
  then show ?case by (cases p; cases xs; cases ys; cases i) (auto simp del: ps_le_iff split: option.splits)
qed simp

lemma merged_ok:
  "wf_descr d \<Longrightarrow> (\<forall>v. x = Some v \<longrightarrow> val_ok d v) \<Longrightarrow> val_ok d w \<Longrightarrow> val_ok d (merged_val d x w)"
  "wf_props ps \<Longrightarrow> slots_ok ps xs \<Longrightarrow> slots_ok ps ys \<Longrightarrow> slots_ok ps (merged_slots inc ps xs ys)"
proof (induction d x w and inc ps xs ys rule: merged_val_merged_slots.induct)
  case (1 n fl qs x w)
  have qs: "wf_tags qs" "wf_props qs" using "1.prems"(1) by simp_all
  obtain us where w: "w = VStruct (mk_area qs us)" "slots_ok qs us"
    using val_ok_struct [OF "1.prems"(3) qs(1)] by blast
  have "slots_ok qs (case x of None \<Rightarrow> replicate (length qs) None | Some v \<Rightarrow> slots (area_of v))"
    using "1.prems"(2) val_ok_struct qs(1) by (fastforce simp del: val_ok.simps split: option.split)
  then show ?case using "1.IH" qs w by simp
next
  case (6 inc d n t k ps xs ys)
  from "6.prems" obtain x xs' y ys' where [simp]: "xs = x # xs'" "ys = y # ys'"
    by (cases xs; cases ys) auto
  show ?case using "6.prems" "6.IH"
    by (auto simp del: ps_le_iff split: option.splits)
qed simp_all

lemma struct_merge_mk:
  assumes "wf_tags ps" "wf_props ps" "length xs = length ps" "length ys = length ps"
    "slots_ok ps xs" "slots_ok ps ys"
  shows "struct_merge ps (mk_area ps xs) (mk_area ps ys) inc =
         Inr (mk_area ps (merged_slots inc ps xs ys))"
proof -
  let ?inc = "ps_intersect (valid_of ps ys) inc"
  have "struct_merge ps (mk_area ps xs) (mk_area ps ys) inc =
      Inr (mk_area ps (take 0 xs @ merged_slots ?inc ps (drop 0 xs) (drop 0 ys)))"
    unfolding struct_merge_def validProperties_mk_area
    using assms by (intro merge_correct(1)) auto
  moreover have "merged_slots ?inc ps xs ys = merged_slots inc ps xs ys"
    using assms by (intro merged_slots_cong) auto
  ultimately show ?thesis by simp
qed

text \<open>C14: Merging never accesses storage without an object and keeps the instance well formed: an
  included property valid in the other instance overwrites a scalar and is merged into a
  struct, all other properties stay, and merging the same instance again changes nothing.\<close>

theorem struct_merge_refines:
  assumes "wf_tags ps" "wf_props ps" "wf_area ps a" "slots_ok ps (slots a)"
    and "wf_area ps other" "slots_ok ps (slots other)"
  shows "\<exists>a'. struct_merge ps a other inc = Inr a' \<and> wf_area ps a'
      \<and> dom (area_map ps a') = dom (area_map ps a) \<union> (dom (area_map ps other) \<inter> ps_members inc)
      \<and> (\<forall>i < length ps. let t = pd_index (ps ! i) in
           area_map ps a' t =
             (case area_map ps other t of
                Some w \<Rightarrow> if t \<in> ps_members inc
                          then Some (merged_val (valueDescriptor (ps ! i)) (area_map ps a t) w)
                          else area_map ps a t
              | None \<Rightarrow> area_map ps a t))
      \<and> struct_merge ps a' other inc = Inr a'"
proof -
  obtain xs where xs: "length xs = length ps" "a = mk_area ps xs" using assms by (auto elim: wf_areaE)
  obtain ys where ys: "length ys = length ps" "other = mk_area ps ys" using assms by (auto elim: wf_areaE)
  let ?ms = "merged_slots inc ps xs ys"
  have ok: "slots_ok ps xs" "slots_ok ps ys" "slots_ok ps ?ms"
    using assms xs ys by (simp_all add: merged_ok)
  have m: "struct_merge ps a other inc = Inr (mk_area ps ?ms)"
    "struct_merge ps (mk_area ps ?ms) other inc = Inr (mk_area ps ?ms)"
    using assms(1,2) xs ys ok by (simp_all add: struct_merge_mk merged_idem)
  have "t \<in> dom (area_map ps (mk_area ps ?ms)) \<longleftrightarrow>
      t \<in> dom (area_map ps a) \<union> (dom (area_map ps other) \<inter> ps_members inc)" for t
    using assms(1) xs ys
    by (cases "t \<in> pd_index ` set ps")
      (auto simp: in_set_conv_nth nth_merged_slots split: option.splits if_splits)
  then have "dom (area_map ps (mk_area ps ?ms)) =
      dom (area_map ps a) \<union> (dom (area_map ps other) \<inter> ps_members inc)" by blast
  then show ?thesis
    using m assms(1) xs ys by (auto simp: nth_merged_slots Let_def split: option.splits)
qed

lemma struct_merge_refines_witness:
  "\<exists>a'. struct_merge example_props
       (example_area (Some 1) None (map_option (\<lambda>(x, y). example_inner x y) (Some (Some 1, None))))
       (example_area None (Some ''x'') (map_option (\<lambda>(x, y). example_inner x y) (Some (None, Some 2)))) ps_All = Inr a' \<and> wf_area example_props a' "
  using struct_merge_refines [OF example_wf_tags example_wf_props example_wf_area example_slots_ok
      example_wf_area example_slots_ok] by blast

section \<open>Destruction\<close>

text \<open>Destruction of a well-formed instance destroys only storage that holds an object and leaves
  nothing valid.\<close>

theorem struct_destruct_clean:
  assumes "wf_tags ps" "wf_area ps a"
  shows "struct_destruct ps a = Inr (fresh_area ps)"
proof -
  obtain xs where xs: "length xs = length ps" "a = mk_area ps xs" using assms by (auto elim: wf_areaE)
  let ?inc = "ps_intersect (valid_of ps xs) (dynamicMemoryProperties ps)"
  have "foldE (\<lambda>(i, p). destruct_slot i) (propertyRange ps ?inc) (Area (valid_of ps xs) xs) =
      Inr (Area (valid_of ps xs) (upd_range ps ?inc (\<lambda>_ _. None) xs))"
    using assms(1) xs(1)
    by (intro foldE_propertyRange) (auto simp: destruct_slot_def slot_def)
  then show ?thesis by (simp add: struct_destruct_def xs(2)) (simp add: mk_area_def)
qed

lemma struct_destruct_clean_witness:
  "struct_destruct example_props (example_area (Some 2) (Some ''x'') None) = Inr (fresh_area example_props)"
  by (rule struct_destruct_clean [OF example_wf_tags example_wf_area])

section \<open>Property paths\<close>

lemma split_path_nonempty: "split_path cs \<noteq> []"
  by (induction cs) (auto split: list.split)

lemma split_path_append_dot:
  "CHR ''.'' \<notin> set n \<Longrightarrow> split_path (n @ CHR ''.'' # cs) = n # split_path cs"
  by (induction n) auto

lemma split_path_no_dot: "CHR ''.'' \<notin> set n \<Longrightarrow> split_path n = [n]"
  by (induction n) auto

fun join_path :: "string list \<Rightarrow> string" where
  "join_path [] = []"
| "join_path [n] = n"
| "join_path (n # m # ns) = n @ CHR ''.'' # join_path (m # ns)"

lemma split_join_path:
  "ns \<noteq> [] \<Longrightarrow> \<forall>n \<in> set ns. CHR ''.'' \<notin> set n \<Longrightarrow> split_path (join_path ns) = ns"
  by (induction ns rule: join_path.induct) (simp_all add: split_path_no_dot split_path_append_dot)

text \<open>Property names: distinct within a struct and without dots.\<close>

fun wf_names :: "pdesc list \<Rightarrow> bool"
and wf_descr_names :: "descr \<Rightarrow> bool" where
  "wf_names [] = True"
| "wf_names (PropertyDescriptor d n t k # ps) =
     (CHR ''.'' \<notin> set n \<and> n \<notin> pd_name ` set ps \<and> wf_descr_names d \<and> wf_names ps)"
| "wf_descr_names (StructD (StructDescriptor sn fl qs)) = wf_names qs"
| "wf_descr_names (Fundamental t) = True"
| "wf_descr_names (EnumDescriptor n es) = True"
| "wf_descr_names (VectorDescriptor d) = True"

lemma propertyPaths_nonempty: "path \<in> set (propertyPaths ps) \<Longrightarrow> path \<noteq> []"
proof (induction ps)
  case (Cons p ps)
  then show ?case by (cases p) auto
qed simp

lemma hd_propertyPaths:
  "path \<in> set (propertyPaths ps) \<Longrightarrow> pd_name (hd path) \<in> pd_name ` set ps"
proof (induction ps)
  case (Cons p ps)
  then show ?case by (cases p) auto
qed simp

abbreviation path_names :: "pdesc list list \<Rightarrow> string list list" where
  "path_names \<equiv> List.map (List.map pd_name)"

lemma path_names_Cons:
  "path_names (propertyPaths (PropertyDescriptor d n t k # ps)) =
     [n] # List.map ((#) n) (path_names (subPaths d)) @ path_names (propertyPaths ps)"
  by (simp add: comp_def)

lemma path_names_hd:
  assumes "ns \<in> set (path_names (propertyPaths ps))"
  shows "ns \<noteq> [] \<and> hd ns \<in> pd_name ` set ps"
proof -
  obtain path where path: "path \<in> set (propertyPaths ps)" "ns = List.map pd_name path"
    using assms by auto
  then show ?thesis
    using hd_propertyPaths [OF path(1)] propertyPaths_nonempty [OF path(1)] by (simp add: hd_map)
qed

lemma subPaths_nonempty: "[] \<notin> set (subPaths d)"
  by (cases d rule: subPaths.cases) (use propertyPaths_nonempty in auto)

lemma distinct_path_names:
  "wf_names ps \<Longrightarrow> distinct (path_names (propertyPaths ps))"
  "wf_descr_names d \<Longrightarrow> distinct (path_names (subPaths d))"
proof (induction ps and d rule: propertyPaths_subPaths.induct)
  case (2 d n t k ps)
  have IH: "distinct (path_names (subPaths d))" "distinct (path_names (propertyPaths ps))"
    using 2 by simp_all
  have n: "n \<notin> pd_name ` set ps" using "2.prems" by simp
  have hd: "n # ns \<notin> set (path_names (propertyPaths ps))" for ns
    using path_names_hd [of "n # ns" ps] n by (auto simp del: set_map)
  have "[] \<notin> set (path_names (subPaths d))" using subPaths_nonempty by auto
  then have "[n] \<notin> (#) n ` set (path_names (subPaths d))" by blast
  moreover have "(#) n ` A \<inter> set (path_names (propertyPaths ps)) = {}" for A
    using hd by blast
  ultimately show ?case
    unfolding path_names_Cons using IH hd [of "[]"]
    by (simp add: distinct_map [where f = "(#) n"] del: map_map)
qed simp_all

lemma dot_free_path_names:
  "wf_names ps \<Longrightarrow> path \<in> set (propertyPaths ps) \<Longrightarrow> p \<in> set path \<Longrightarrow> CHR ''.'' \<notin> set (pd_name p)"
  "wf_descr_names d \<Longrightarrow> path \<in> set (subPaths d) \<Longrightarrow> p \<in> set path \<Longrightarrow> CHR ''.'' \<notin> set (pd_name p)"
  by (induction ps and d arbitrary: path and path rule: propertyPaths_subPaths.induct) auto

text \<open>Looking up the dotted name of a property path yields that path, when names are distinct
  within a struct and free of dots.\<close>

theorem find_path_finds:
  assumes "wf_names ps" "path \<in> set (propertyPaths ps)"
  shows "find_path ps (join_path (List.map pd_name path)) = Inr path"
proof -
  have "split_path (join_path (List.map pd_name path)) = List.map pd_name path"
    using dot_free_path_names(1) [OF assms] propertyPaths_nonempty [OF assms(2)]
    by (intro split_join_path) auto
  moreover have "find (\<lambda>q. List.map pd_name q = List.map pd_name path) (propertyPaths ps) = Some path"
    using find_unique_key [OF distinct_path_names(1) [OF assms(1)] assms(2)] .
  ultimately show ?thesis by (simp add: find_path_def)
qed

lemma find_path_finds_witness:
  "find_path example_props ''inner.y'' =
     Inr [example_props ! 2, PropertyDescriptor (Fundamental T_uint8) ''y'' 2 False]"
  using find_path_finds [of example_props "[example_props ! 2, PropertyDescriptor (Fundamental T_uint8) ''y'' 2 False]"]
  by (simp add: example_props_def)

end
