(* ===== verification/Cbor_Codec.thy ===== *)
theory Cbor_Codec
  imports Dots_Prelude
begin

unbundle bit_operations_syntax

text \<open>
  The CBOR byte codec: \<open>CborFormat.h\<close>, \<open>CborWriter.h\<close> and \<open>CborReader.h\<close>. A writer
  operation is the list of bytes it appends to the output; a reader operation takes the rest of
  the input and returns its value with what is left of it. A read behind the end of the input is
  \<open>UndefinedBehaviour\<close>, since \<open>readByte\<close> does not check, and \<open>assertInputAvailable\<close> is
  written out where the code calls it.
\<close>

type_synonym bytes = "8 word list"

section \<open>\<open>CborFormat.h\<close>\<close>

definition MT_UnsignedInt :: "8 word" where "MT_UnsignedInt = 0x00"
definition MT_SignedInt :: "8 word" where "MT_SignedInt = 0x20"
definition MT_ByteString :: "8 word" where "MT_ByteString = 0x40"
definition MT_TextString :: "8 word" where "MT_TextString = 0x60"
definition MT_Array :: "8 word" where "MT_Array = 0x80"
definition MT_Map :: "8 word" where "MT_Map = 0xA0"
definition MT_SimpleOrFloat :: "8 word" where "MT_SimpleOrFloat = 0xE0"
definition MT_IndefiniteArray :: "8 word" where "MT_IndefiniteArray = MT_Array OR 31"
definition MT_IndefiniteMap :: "8 word" where "MT_IndefiniteMap = MT_Map OR 31"
definition MT_IndefiniteArrayBreak :: "8 word" where "MT_IndefiniteArrayBreak = MT_SimpleOrFloat OR 31"
definition MT_IndefiniteMapBreak :: "8 word" where "MT_IndefiniteMapBreak = MT_SimpleOrFloat OR 31"
definition MT_Mask :: "8 word" where "MT_Mask = 0xE0"

definition AI_MaxInplaceValue :: "8 word" where "AI_MaxInplaceValue = 23"
definition AI_FollowingBytes1 :: "8 word" where "AI_FollowingBytes1 = 24"
definition AI_FollowingBytes2 :: "8 word" where "AI_FollowingBytes2 = 25"
definition AI_FollowingBytes4 :: "8 word" where "AI_FollowingBytes4 = 26"
definition AI_FollowingBytes8 :: "8 word" where "AI_FollowingBytes8 = 27"
definition AI_Mask :: "8 word" where "AI_Mask = 0x1F"

definition SV_False :: "8 word" where "SV_False = 20"
definition SV_True :: "8 word" where "SV_True = 21"

lemmas cbor_constants = MT_UnsignedInt_def MT_SignedInt_def MT_ByteString_def MT_TextString_def
  MT_Array_def MT_Map_def MT_SimpleOrFloat_def MT_IndefiniteArray_def MT_IndefiniteMap_def
  MT_IndefiniteArrayBreak_def MT_IndefiniteMapBreak_def MT_Mask_def AI_MaxInplaceValue_def
  AI_FollowingBytes1_def AI_FollowingBytes2_def AI_FollowingBytes4_def AI_FollowingBytes8_def
  AI_Mask_def SV_False_def SV_True_def

section \<open>\<open>CborWriter.h\<close>\<close>

text \<open>The bytes of an integer, most significant first.\<close>

fun be_write :: "nat \<Rightarrow> 64 word \<Rightarrow> bytes" where
  "be_write 0 v = []"
| "be_write (Suc i) v = ucast (drop_bit (8 * i) v) # be_write i v"

definition writeHead :: "8 word \<Rightarrow> 64 word \<Rightarrow> bytes" where
  "writeHead majorType v =
     (if v \<le> ucast AI_MaxInplaceValue then [majorType OR ucast v]
      else
        let numBytesExponent = (if v > 0xFFFFFFFF then 1 else 0) + (if v > 0xFFFF then 1 else 0)
              + (if v > 0xFF then 1 else 0);
            numBytes = 2 ^ numBytesExponent
        in (majorType OR (AI_FollowingBytes1 + of_nat numBytesExponent)) # be_write numBytes v)"

definition write_uint :: "64 word \<Rightarrow> bytes" where
  "write_uint v = writeHead MT_UnsignedInt v"

text \<open>The signed \<open>write\<close>; the value is given sign-extended to 64 bits.\<close>

definition write_sint :: "64 word \<Rightarrow> bytes" where
  "write_sint v = (if 0 \<le> sint v then writeHead MT_UnsignedInt v else writeHead MT_SignedInt (- 1 - v))"

definition write_bytes :: "bytes \<Rightarrow> bytes" where
  "write_bytes bs = writeHead MT_ByteString (of_nat (length bs)) @ bs"

definition write_string :: "string \<Rightarrow> bytes" where
  "write_string s = writeHead MT_TextString (of_nat (length s)) @ List.map of_char s"

definition write_bool :: "bool \<Rightarrow> bytes" where
  "write_bool b = [MT_SimpleOrFloat OR (if b then SV_True else SV_False)]"

definition write_float32 :: "32 word \<Rightarrow> bytes" where
  "write_float32 w = (MT_SimpleOrFloat OR AI_FollowingBytes4) # be_write 4 (ucast w)"

definition write_float64 :: "64 word \<Rightarrow> bytes" where
  "write_float64 w = (MT_SimpleOrFloat OR AI_FollowingBytes8) # be_write 8 w"

text \<open>\<open>FloatFormat::UseFloat16Zeroes\<close>: both zeroes as a two-byte zero.\<close>

definition write_float32_zeroes :: "32 word \<Rightarrow> bytes" where
  "write_float32_zeroes w =
     (if w = 0 \<or> w = push_bit 31 1 then (MT_SimpleOrFloat OR AI_FollowingBytes2) # be_write 2 0
      else write_float32 w)"

definition write_float64_zeroes :: "64 word \<Rightarrow> bytes" where
  "write_float64_zeroes w =
     (if w = 0 \<or> w = push_bit 63 1 then (MT_SimpleOrFloat OR AI_FollowingBytes2) # be_write 2 0
      else write_float64 w)"

definition writeArraySize :: "64 word \<Rightarrow> bytes" where "writeArraySize n = writeHead MT_Array n"
definition writeArrayBegin :: bytes where "writeArrayBegin = [MT_IndefiniteArray]"
definition writeArrayEnd :: bytes where "writeArrayEnd = [MT_IndefiniteArrayBreak]"
definition writeMapSize :: "64 word \<Rightarrow> bytes" where "writeMapSize n = writeHead MT_Map n"
definition writeMapBegin :: bytes where "writeMapBegin = [MT_IndefiniteMap]"
definition writeMapEnd :: bytes where "writeMapEnd = [MT_IndefiniteMapBreak]"

section \<open>\<open>CborReader.h\<close>\<close>

text \<open>
  \<open>throwException\<close> gives the exception a span that ends one byte behind the end of the input
  (\<open>inputDataEnd() + 1\<close>), and the constructor of \<open>SerializerException\<close> reads all of it for its hexdump
  before anything is thrown: a rejected input makes the program read behind the input.
\<close>

definition throwException :: "string \<Rightarrow> 'a result" where
  "throwException msg = Inl (UndefinedBehaviour (''hexdump reads behind the end of the input: '' @ msg))"

lemma throwException_not_Inr [simp]: "throwException msg \<noteq> Inr x"
  by (simp add: throwException_def)

definition assertInputAvailable :: "nat \<Rightarrow> bytes \<Rightarrow> unit result" where
  "assertInputAvailable n inp = assertE (n \<le> length inp) (RuntimeError ''out of data'')"

definition readByte :: "bytes \<Rightarrow> (8 word \<times> bytes) result" where
  "readByte inp =
     (case inp of [] \<Rightarrow> Inl (UndefinedBehaviour ''read past the end of the input'') | b # r \<Rightarrow> Inr (b, r))"

definition readBytes :: "nat \<Rightarrow> bytes \<Rightarrow> (bytes \<times> bytes) result" where
  "readBytes n inp =
     (if n \<le> length inp then Inr (take n inp, drop n inp)
      else Inl (UndefinedBehaviour ''read past the end of the input''))"

fun be_read :: "nat \<Rightarrow> 64 word \<Rightarrow> bytes \<Rightarrow> (64 word \<times> bytes) result" where
  "be_read 0 acc inp = Inr (acc, inp)"
| "be_read (Suc i) acc inp =
     bindE (readByte inp) (\<lambda>(b, r). be_read i (acc OR push_bit (8 * i) (ucast b)) r)"

text \<open>\<open>readInitialByte(expectedMajorType, valueSize)\<close>: the number of bytes that follow and the
  additional information.\<close>

definition readInitialByte :: "8 word \<Rightarrow> nat \<Rightarrow> bytes \<Rightarrow> ((nat \<times> 8 word) \<times> bytes) result" where
  "readInitialByte expectedMajorType valueSize inp =
     bindE (assertInputAvailable 1 inp) (\<lambda>_.
     bindE (readByte inp) (\<lambda>(initialByte, r).
       let majorType = initialByte AND MT_Mask;
           additionalInformation = initialByte AND AI_Mask
       in if majorType \<noteq> expectedMajorType
          then throwException ''encountered unexpected major type''
          else if additionalInformation \<le> AI_MaxInplaceValue then Inr ((0, additionalInformation), r)
          else if additionalInformation > AI_FollowingBytes8
          then throwException ''encountered unsupported additional information''
          else
            let numBytes = 2 ^ unat (additionalInformation - AI_FollowingBytes1)
            in if numBytes > valueSize
               then throwException ''encountered value exceeds value size''
               else bindE (assertInputAvailable numBytes r) (\<lambda>_.
                    Inr ((numBytes, additionalInformation), r))))"

text \<open>\<open>readHead(expectedHead)\<close> and \<open>readHead<T>(expectedMajorType)\<close> for a type of \<open>n\<close> bytes.\<close>

definition readHeadExact :: "8 word \<Rightarrow> bytes \<Rightarrow> (8 word \<times> bytes) result" where
  "readHeadExact expectedHead inp =
     bindE (assertInputAvailable 1 inp) (\<lambda>_.
     bindE (readByte inp) (\<lambda>(head, r).
       if head \<noteq> expectedHead then throwException ''encountered unexpected head''
       else Inr (head, r)))"

definition readHead :: "nat \<Rightarrow> 8 word \<Rightarrow> bytes \<Rightarrow> (64 word \<times> bytes) result" where
  "readHead n expectedMajorType inp =
     bindE (readInitialByte expectedMajorType n inp) (\<lambda>((numBytes, additionalInformation), r).
       if additionalInformation \<le> AI_MaxInplaceValue then Inr (ucast additionalInformation, r)
       else be_read numBytes 0 r)"

definition readArraySize :: "bytes \<Rightarrow> (64 word \<times> bytes) result" where
  "readArraySize = readHead 8 MT_Array"

definition readArrayBegin :: "bytes \<Rightarrow> (8 word \<times> bytes) result" where
  "readArrayBegin = readHeadExact MT_IndefiniteArray"

definition readArrayEnd :: "bytes \<Rightarrow> (8 word \<times> bytes) result" where
  "readArrayEnd = readHeadExact MT_IndefiniteArrayBreak"

definition readMapSize :: "bytes \<Rightarrow> (64 word \<times> bytes) result" where
  "readMapSize = readHead 8 MT_Map"

definition readMapBegin :: "bytes \<Rightarrow> (8 word \<times> bytes) result" where
  "readMapBegin = readHeadExact MT_IndefiniteMapBreak"

definition readMapEnd :: "bytes \<Rightarrow> (8 word \<times> bytes) result" where
  "readMapEnd = readHeadExact MT_IndefiniteMapBreak"

text \<open>Integers of \<open>n\<close> bytes; \<open>read_sint\<close> looks at the first byte before it is checked.\<close>

definition read_uint :: "nat \<Rightarrow> bytes \<Rightarrow> (64 word \<times> bytes) result" where
  "read_uint n inp = readHead n MT_UnsignedInt inp"

definition read_sint :: "nat \<Rightarrow> bytes \<Rightarrow> (64 word \<times> bytes) result" where
  "read_sint n inp =
     (case inp of
        [] \<Rightarrow> Inl (UndefinedBehaviour ''read past the end of the input'')
      | b # _ \<Rightarrow>
          if b AND MT_Mask = MT_SignedInt
          then bindE (readHead n MT_SignedInt inp) (\<lambda>(u, r). Inr (- 1 - u, r))
          else readHead n MT_UnsignedInt inp)"

definition read_bytes :: "nat \<Rightarrow> bytes \<Rightarrow> (bytes \<times> bytes) result" where
  "read_bytes n inp =
     bindE (readHead 8 MT_ByteString inp) (\<lambda>(size, r).
       if unat size \<noteq> n then throwException ''byte string size does not match size''
       else bindE (assertInputAvailable n r) (\<lambda>_. readBytes (unat size) r))"

definition read_string :: "bytes \<Rightarrow> (string \<times> bytes) result" where
  "read_string inp =
     bindE (readHead 8 MT_TextString inp) (\<lambda>(size, r).
     bindE (assertInputAvailable (unat size) r) (\<lambda>_.
     bindE (readBytes (unat size) r) (\<lambda>(bs, r'). Inr (List.map (\<lambda>b. char_of (unat b)) bs, r'))))"

definition read_bool :: "bytes \<Rightarrow> (bool \<times> bytes) result" where
  "read_bool inp =
     bindE (readHead 1 MT_SimpleOrFloat inp) (\<lambda>(simpleValue, r).
       if simpleValue = ucast SV_False then Inr (False, r)
       else if simpleValue = ucast SV_True then Inr (True, r)
       else throwException ''encountered unexpected simple value when deserializing bool'')"

text \<open>
  Floating-point values as bit patterns. \<open>half_to_f32\<close> and \<open>half_to_f64\<close> are the arithmetic on
  \<open>std::ldexp\<close> of the two-byte case, which is exact; a NaN comes out quiet.
\<close>

fun msb :: "nat \<Rightarrow> nat" where
  "msb n = (if n \<le> 1 then 0 else Suc (msb (n div 2)))"

declare msb.simps [simp del]

definition half_to_f64 :: "16 word \<Rightarrow> 64 word" where
  "half_to_f64 h =
     (let sign = (if bit h 15 then push_bit 63 1 else 0);
          e = unat (drop_bit 10 h AND 0x1F); m = unat (h AND 0x3FF); k = msb m
      in sign OR
         (if e = 0 then
            (if m = 0 then 0
             else push_bit 52 (of_nat (999 + k)) OR push_bit (52 - k) (of_nat (m - 2 ^ k)))
          else if e \<noteq> 31 then push_bit 52 (of_nat (e + 1008)) OR push_bit 42 (of_nat m)
          else push_bit 52 2047 OR (if m = 0 then 0 else push_bit 51 1)))"

definition half_to_f32 :: "16 word \<Rightarrow> 32 word" where
  "half_to_f32 h =
     (let sign = (if bit h 15 then push_bit 31 1 else 0);
          e = unat (drop_bit 10 h AND 0x1F); m = unat (h AND 0x3FF); k = msb m
      in sign OR
         (if e = 0 then
            (if m = 0 then 0
             else push_bit 23 (of_nat (103 + k)) OR push_bit (23 - k) (of_nat (m - 2 ^ k)))
          else if e \<noteq> 31 then push_bit 23 (of_nat (e + 112)) OR push_bit 13 (of_nat m)
          else push_bit 23 255 OR (if m = 0 then 0 else push_bit 22 1)))"

definition f32_to_f64 :: "32 word \<Rightarrow> 64 word" where
  "f32_to_f64 w =
     (let sign = (if bit w 31 then push_bit 63 1 else 0);
          e = unat (drop_bit 23 w AND 0xFF); m = unat (w AND mask 23); k = msb m
      in sign OR
         (if e = 0 then
            (if m = 0 then 0
             else push_bit 52 (of_nat (874 + k)) OR push_bit (52 - k) (of_nat (m - 2 ^ k)))
          else if e \<noteq> 255 then push_bit 52 (of_nat (e + 896)) OR push_bit 29 (of_nat m)
          else push_bit 52 2047 OR (if m = 0 then 0 else push_bit 51 1 OR push_bit 29 (of_nat m))))"

text \<open>The last branch is meant for four bytes and also takes the values of zero and one byte.\<close>

definition read_half :: "bytes \<Rightarrow> (16 word \<times> bytes) result" where
  "read_half inp = bindE (be_read 2 0 inp) (\<lambda>(v, r). Inr (ucast v, r))"

definition read_float32 :: "bytes \<Rightarrow> (32 word \<times> bytes) result" where
  "read_float32 inp =
     bindE (readInitialByte MT_SimpleOrFloat 4 inp) (\<lambda>((numBytes, additionalInformation), r).
       if numBytes = 4 then bindE (be_read 4 0 r) (\<lambda>(v, r'). Inr (ucast v, r'))
       else if numBytes = 2 then
         bindE (readBytes 2 r) (\<lambda>(bs, r').
           if bs = [0, 0] then Inr (0, r')
           else bindE (read_half r) (\<lambda>(h, r'). Inr (half_to_f32 h, r')))
       else bindE (be_read 4 0 r) (\<lambda>(v, r'). Inr (ucast v, r')))"

definition read_float64 :: "bytes \<Rightarrow> (64 word \<times> bytes) result" where
  "read_float64 inp =
     bindE (readInitialByte MT_SimpleOrFloat 8 inp) (\<lambda>((numBytes, additionalInformation), r).
       if numBytes = 8 then be_read 8 0 r
       else if numBytes = 2 then
         bindE (readBytes 2 r) (\<lambda>(bs, r').
           if bs = [0, 0] then Inr (0, r')
           else bindE (read_half r) (\<lambda>(h, r'). Inr (half_to_f64 h, r')))
       else bindE (be_read 4 0 r) (\<lambda>(v, r'). Inr (f32_to_f64 (ucast v), r')))"

section \<open>\<open>CborReader::skip\<close>\<close>

definition consume :: "nat \<Rightarrow> bytes \<Rightarrow> bytes result" where
  "consume n inp = bindE (assertInputAvailable n inp) (\<lambda>_. Inr (drop n inp))"

definition skip_get_num_bytes :: "8 word \<Rightarrow> nat result" where
  "skip_get_num_bytes additionalInformation =
     (if additionalInformation \<le> AI_MaxInplaceValue then Inr 0
      else if additionalInformation > AI_FollowingBytes8
      then throwException ''encountered unsupported additional information value''
      else Inr (2 ^ unat (additionalInformation - AI_FollowingBytes1)))"

text \<open>\<open>read_size\<close> consumes the bytes of the size a second time after it has read them.\<close>

definition skip_read_size :: "8 word \<Rightarrow> bytes \<Rightarrow> (nat \<times> bytes) result" where
  "skip_read_size additionalInformation inp =
     bindE (skip_get_num_bytes additionalInformation) (\<lambda>numBytes.
     bindE (if additionalInformation \<le> AI_MaxInplaceValue then Inr (ucast additionalInformation, inp)
            else be_read numBytes 0 inp) (\<lambda>(size, r).
     bindE (consume numBytes r) (\<lambda>r'. Inr (unat size, r'))))"

fun skip_times :: "(bytes \<Rightarrow> bytes result) \<Rightarrow> nat \<Rightarrow> bytes \<Rightarrow> bytes result" where
  "skip_times f 0 inp = Inr inp"
| "skip_times f (Suc n) inp = bindE (f inp) (skip_times f n)"

text \<open>
  The recursion of \<open>skip\<close> with a bound on its depth; every level consumes an initial byte, so
  the length of the input bounds the depth.
\<close>

fun skip_depth :: "nat \<Rightarrow> bytes \<Rightarrow> bytes result" where
  "skip_depth 0 inp = Inl (UndefinedBehaviour ''recursion depth'')"
| "skip_depth (Suc d) inp =
     bindE (assertInputAvailable 1 inp) (\<lambda>_.
     bindE (readByte inp) (\<lambda>(initialByte, r).
       let majorType = initialByte AND MT_Mask;
           additionalInformation = initialByte AND AI_Mask
       in if majorType \<in> {MT_UnsignedInt, MT_SignedInt, MT_SimpleOrFloat}
          then bindE (skip_get_num_bytes additionalInformation) (\<lambda>n. consume n r)
          else if majorType \<in> {MT_ByteString, MT_TextString}
          then bindE (skip_read_size additionalInformation r) (\<lambda>(size, r'). consume size r')
          else if majorType = MT_Array
          then bindE (skip_read_size additionalInformation r) (\<lambda>(size, r').
                 skip_times (skip_depth d) size r')
          else if majorType = MT_Map
          then bindE (skip_read_size additionalInformation r) (\<lambda>(size, r').
                 skip_times (skip_depth d) (2 * size) r')
          else Inr r))"

definition skip :: "bytes \<Rightarrow> bytes result" where
  "skip inp = skip_depth (Suc (length inp)) inp"

section \<open>Round trips\<close>

lemma ucast_shift_byte:
  "push_bit (8 * i) (ucast (ucast (drop_bit (8 * i) v) :: 8 word)) OR take_bit (8 * i) v
     = take_bit (8 * Suc i) (v :: 64 word)"
  by (rule bit_eqI) (auto simp: bit_simps)

lemma length_be_write [simp]: "length (be_write n v) = n"
  by (induction n) simp_all

lemma be_read_write [simp]:
  "be_read n acc (be_write n v @ rest) = Inr (acc OR take_bit (8 * n) v, rest)"
proof (induction n arbitrary: acc)
  case (Suc n)
  have "be_read (Suc n) acc (be_write (Suc n) v @ rest) =
      Inr (acc OR (push_bit (8 * n) (ucast (ucast (drop_bit (8 * n) v) :: 8 word)) OR take_bit (8 * n) v), rest)"
    using Suc by (simp add: readByte_def or.assoc)
  then show ?case unfolding ucast_shift_byte .
qed simp


lemma be_read_safe: "n \<le> length inp \<Longrightarrow> \<exists>v. be_read n acc inp = Inr (v, drop n inp)"
proof (induction n arbitrary: acc inp)
  case (Suc n)
  then show ?case by (cases inp) (auto simp: readByte_def)
qed simp

text \<open>The major types and the five low bits they leave for the additional information.\<close>

definition major_types :: "8 word set" where
  "major_types = {MT_UnsignedInt, MT_SignedInt, MT_ByteString, MT_TextString, MT_Array, MT_Map, MT_SimpleOrFloat}"

lemma head_byte_table:
  "\<forall>mt \<in> set [MT_UnsignedInt, MT_SignedInt, MT_ByteString, MT_TextString, MT_Array, MT_Map, MT_SimpleOrFloat].
     \<forall>n \<in> set [0..<32]. (mt OR of_nat n) AND MT_Mask = mt \<and> (mt OR of_nat n) AND AI_Mask = of_nat n"
  by code_simp

lemma head_byte [simp]:
  assumes "mt \<in> major_types" "n < 32"
  shows "(mt OR of_nat n) AND MT_Mask = mt" "(mt OR of_nat n) AND AI_Mask = of_nat n"
  using head_byte_table assms by (auto simp: major_types_def)

lemma inplace_le: "n \<le> 23 \<Longrightarrow> (of_nat n :: 8 word) \<le> AI_MaxInplaceValue"
  by (simp add: AI_MaxInplaceValue_def word_le_nat_alt unat_of_nat)

lemma readInitialByte_inplace:
  assumes "mt \<in> major_types" "n \<le> 23"
  shows "readInitialByte mt k ((mt OR of_nat n) # rest) = Inr ((0, of_nat n), rest)"
proof -
  have "(of_nat n :: 8 word) \<le> AI_MaxInplaceValue"
    using assms(2) by (simp add: AI_MaxInplaceValue_def word_le_nat_alt unat_of_nat)
  then show ?thesis using assms
    by (simp add: readInitialByte_def assertInputAvailable_def readByte_def)
qed

lemma readInitialByte_following:
  assumes "mt \<in> major_types" "e \<le> 3" "2 ^ e \<le> k" "2 ^ e \<le> length rest"
  shows "readInitialByte mt k ((mt OR (24 + of_nat e)) # rest) = Inr ((2 ^ e, 24 + of_nat e), rest)"
proof -
  have n: "(24 + of_nat e :: 8 word) = of_nat (24 + e)" by simp
  have e: "e \<in> {0, 1, 2, 3}" using assms(2) by auto
  then have "\<not> (of_nat (24 + e) :: 8 word) \<le> AI_MaxInplaceValue"
    "\<not> (of_nat (24 + e) :: 8 word) > AI_FollowingBytes8"
    "unat ((of_nat (24 + e) :: 8 word) - AI_FollowingBytes1) = e"
    by (auto simp: AI_MaxInplaceValue_def AI_FollowingBytes8_def AI_FollowingBytes1_def)
  then show ?thesis using assms head_byte [of mt "24 + e"] unfolding n
    by (simp add: readInitialByte_def assertInputAvailable_def readByte_def Let_def del: of_nat_add)
qed

lemma writeHead_cases:
  obtains (inplace) "unat v \<le> 23" "writeHead mt v = [mt OR of_nat (unat v)]"
      "ucast (of_nat (unat v) :: 8 word) = v"
    | (following) e where "e \<le> 3" "24 \<le> unat v" "unat v < 2 ^ (8 * 2 ^ e)"
      "writeHead mt v = (mt OR (24 + of_nat e)) # be_write (2 ^ e) v"
      "0 < e \<Longrightarrow> 2 ^ (8 * 2 ^ (e - 1)) \<le> unat v" "take_bit (8 * 2 ^ e) v = v"
proof (cases "v \<le> 23")
  case True
  then have v: "unat v \<le> 23" by (simp add: word_le_nat_alt)
  have "ucast v = (of_nat (unat v) :: 8 word)" by (simp add: of_nat_unat)
  then have "writeHead mt v = [mt OR of_nat (unat v)]"
    using True by (simp add: writeHead_def AI_MaxInplaceValue_def)
  moreover have "ucast (of_nat (unat v) :: 8 word) = v"
    using v by (simp add: word_unat_eq_iff unsigned_ucast_eq unsigned_take_bit_eq take_bit_nat_eq_self)
  ultimately show ?thesis using inplace v by blast
next
  case False
  define e :: nat where "e = (if v > 0xFFFFFFFF then 1 else 0) + (if v > 0xFFFF then 1 else 0)
              + (if v > 0xFF then 1 else 0)"
  have wr: "writeHead mt v = (mt OR (24 + of_nat e)) # be_write (2 ^ e) v"
    using False by (simp add: writeHead_def AI_MaxInplaceValue_def AI_FollowingBytes1_def e_def Let_def)
  have e: "e \<le> 3" by (simp add: e_def)
  have e_nat: "e = (if unat v > 0xFFFFFFFF then 1 else 0) + (if unat v > 0xFFFF then 1 else 0)
              + (if unat v > 0xFF then 1 else 0)"
    by (simp add: e_def word_less_nat_alt)
  have "unat v < 2 ^ 64" using unsigned_less [of v] by simp
  then have fits: "unat v < 2 ^ (8 * 2 ^ e)"
    by (simp add: e_nat not_less split: if_splits)
  have least: "0 < e \<Longrightarrow> 2 ^ (8 * 2 ^ (e - 1)) \<le> unat v"
    by (auto simp: e_nat split: if_splits)
  have "24 \<le> unat v" using False by (simp add: word_le_nat_alt)
  moreover have "take_bit (8 * 2 ^ e) v = v"
    using fits by (simp add: word_unat_eq_iff unsigned_take_bit_eq take_bit_nat_eq_self)
  ultimately show ?thesis using following [OF e _ fits wr] least by blast
qed

lemma following_ai: "e \<le> 3 \<Longrightarrow> \<not> (24 + of_nat e :: 8 word) \<le> AI_MaxInplaceValue"
  "e \<le> 3 \<Longrightarrow> \<not> (24 + of_nat e :: 8 word) > AI_FollowingBytes8"
  "e \<le> 3 \<Longrightarrow> unat ((24 + of_nat e :: 8 word) - AI_FollowingBytes1) = e"
proof -
  have "e \<in> {0, 1, 2, 3}" if "e \<le> 3" using that by auto
  then show "e \<le> 3 \<Longrightarrow> \<not> (24 + of_nat e :: 8 word) \<le> AI_MaxInplaceValue"
    "e \<le> 3 \<Longrightarrow> \<not> (24 + of_nat e :: 8 word) > AI_FollowingBytes8"
    "e \<le> 3 \<Longrightarrow> unat ((24 + of_nat e :: 8 word) - AI_FollowingBytes1) = e"
    by (auto simp: AI_MaxInplaceValue_def AI_FollowingBytes8_def AI_FollowingBytes1_def)
qed

text \<open>Every value that fits into the \<open>n\<close> bytes of the reader comes back from its head.\<close>

lemma readHead_writeHead [simp]:
  assumes "mt \<in> major_types" "n \<in> {1, 2, 4, 8}" "unat v < 2 ^ (8 * n)"
  shows "readHead n mt (writeHead mt v @ rest) = Inr (v, rest)"
proof (cases rule: writeHead_cases [of v mt])
  case inplace
  then show ?thesis
    using readInitialByte_inplace [OF assms(1) inplace(1)] inplace_le [OF inplace(1)]
    by (simp add: readHead_def)
next
  case (following e)
  have "e \<in> {0, 1, 2, 3}" using following(1) by auto
  then have "2 ^ e \<le> n" using assms(2,3) following(5) by auto
  then show ?thesis
    using readInitialByte_following [OF assms(1) following(1), of n "be_write (2 ^ e) v @ rest"]
      following following_ai(1)
    by (simp add: readHead_def)
qed

lemmas [simp] = major_types_def

lemma size_head [simp]: "mt \<in> major_types \<Longrightarrow> readHead 8 mt (writeHead mt v @ rest) = Inr (v, rest)"
  using unsigned_less [of v] by (intro readHead_writeHead) simp_all

declare major_types_def [simp del]

lemma major_in [simp]:
  "MT_UnsignedInt \<in> major_types" "MT_SignedInt \<in> major_types" "MT_ByteString \<in> major_types"
  "MT_TextString \<in> major_types" "MT_Array \<in> major_types" "MT_Map \<in> major_types"
  "MT_SimpleOrFloat \<in> major_types"
  by (simp_all add: major_types_def)

lemma read_uint_write [simp]:
  assumes "n \<in> {1, 2, 4, 8}" "unat v < 2 ^ (8 * n)"
  shows "read_uint n (write_uint v @ rest) = Inr (v, rest)"
  using assms unfolding read_uint_def write_uint_def by (intro readHead_writeHead) simp_all

lemma writeHead_Cons:
  obtains n rest' where "n < 32" "writeHead mt v = (mt OR of_nat n) # rest'"
proof (cases rule: writeHead_cases [of v mt])
  case inplace
  then show ?thesis using that [of "unat v" "[]"] by simp
next
  case (following e)
  have e: "24 + of_nat e = (of_nat (24 + e) :: 8 word)" by simp
  show ?thesis using following(1,4) that [of "24 + e" "be_write (2 ^ e) v"] unfolding e by linarith
qed

lemma writeHead_major:
  assumes "mt \<in> major_types"
  obtains b rest' where "b AND MT_Mask = mt" "writeHead mt v = b # rest'"
proof -
  obtain n rest' where "n < 32" "writeHead mt v = (mt OR of_nat n) # rest'" by (rule writeHead_Cons)
  with assms show ?thesis by (intro that [of "mt OR of_nat n" rest']) simp_all
qed

lemma sint_of_int_64: "- (2 ^ 63) \<le> i \<Longrightarrow> i < 2 ^ 63 \<Longrightarrow> sint (word_of_int i :: 64 word) = i"
  by (simp add: signed_of_int signed_take_bit_int_eq_self)

lemma nat_of_signed: "0 \<le> sint v \<Longrightarrow> int (unat v) = sint (v :: 64 word)"
proof -
  assume v: "0 \<le> sint v"
  have "sint v < 2 ^ 63" using sint_lt [of v] by simp
  then have "take_bit 64 (sint v) = sint v" using v by (simp add: take_bit_int_eq_self)
  moreover have "take_bit 64 (sint v) = uint v" using uint_sint [of v] by simp
  ultimately show ?thesis by simp
qed

lemma sint_complement: "sint (- 1 - v) = - 1 - sint (v :: 64 word)"
proof -
  have b: "- (2 ^ 63) \<le> sint v" "sint v < 2 ^ 63" using sint_ge [of v] sint_lt [of v] by simp_all
  have "- 1 - v = word_of_int (- 1 - sint v)" by simp
  then show ?thesis using sint_of_int_64 [of "- 1 - sint v"] b by simp
qed

lemma read_sint_write [simp]:
  assumes "n \<in> {1, 2, 4, 8}" "- (2 ^ (8 * n - 1)) \<le> sint v" "sint v < 2 ^ (8 * n - 1)"
  shows "read_sint n (write_sint v @ rest) = Inr (v, rest)"
proof -
  have n: "(2 :: nat) ^ (8 * n - 1) \<le> 2 ^ (8 * n)" by (intro power_increasing) auto
  show ?thesis
  proof (cases "0 \<le> sint v")
    case True
    then have "int (unat v) < 2 ^ (8 * n - 1)" using nat_of_signed assms(3) by simp
    then have "int (unat v) < int (2 ^ (8 * n - 1))" by simp
    then have "unat v < 2 ^ (8 * n - 1)" unfolding of_nat_less_iff .
    then have fits: "unat v < 2 ^ (8 * n)" using n by linarith
    obtain b rest' where b: "b AND MT_Mask = MT_UnsignedInt" "writeHead MT_UnsignedInt v = b # rest'"
      by (rule writeHead_major [OF major_in(1)])
    have "MT_UnsignedInt \<noteq> MT_SignedInt" by (simp add: MT_UnsignedInt_def MT_SignedInt_def)
    then show ?thesis using True b readHead_writeHead [of MT_UnsignedInt n v rest] assms(1) fits
      by (simp add: read_sint_def write_sint_def)
  next
    case False
    have "int (unat (- 1 - v)) < 2 ^ (8 * n - 1)"
      using nat_of_signed [of "- 1 - v"] sint_complement [of v] False assms(2) by simp
    then have "int (unat (- 1 - v)) < int (2 ^ (8 * n - 1))" by simp
    then have "unat (- 1 - v) < 2 ^ (8 * n - 1)" unfolding of_nat_less_iff .
    then have fits: "unat (- 1 - v) < 2 ^ (8 * n)" using n by linarith
    obtain b rest' where b: "b AND MT_Mask = MT_SignedInt" "writeHead MT_SignedInt (- 1 - v) = b # rest'"
      by (rule writeHead_major [OF major_in(2)])
    then show ?thesis using False b readHead_writeHead [of MT_SignedInt n "- 1 - v" rest] assms(1) fits
      by (simp add: read_sint_def write_sint_def)
  qed
qed

lemma read_bool_write [simp]: "read_bool (write_bool b @ rest) = Inr (b, rest)"
proof -
  have "readInitialByte MT_SimpleOrFloat 1 ((MT_SimpleOrFloat OR of_nat (if b then 21 else 20)) # rest) =
      Inr ((0, of_nat (if b then 21 else 20)), rest)"
    by (intro readInitialByte_inplace) simp_all
  then show ?thesis
    by (cases b) (simp_all add: read_bool_def write_bool_def readHead_def SV_True_def SV_False_def
        AI_MaxInplaceValue_def)
qed

lemma read_bytes_write [simp]:
  assumes "length bs < 2 ^ 64"
  shows "read_bytes (length bs) (write_bytes bs @ rest) = Inr (bs, rest)"
  using assms by (simp add: read_bytes_def write_bytes_def readBytes_def assertInputAvailable_def unat_of_nat
      take_bit_nat_eq_self)

lemma char_of_of_char_byte [simp]: "(char_of (unat (of_char c :: 8 word)) :: char) = c"
proof -
  have "(of_char c :: nat) < 2 ^ 8" using nat_of_char_less_256 [of c] by simp
  then have "unat (of_nat (of_char c) :: 8 word) = of_char c"
    using unat_of_nat [of "of_char c", where 'a = 8] by simp
  then show ?thesis unfolding of_nat_of_char by simp
qed

lemma read_string_write [simp]:
  assumes "length s < 2 ^ 64"
  shows "read_string (write_string s @ rest) = Inr (s, rest)"
  using assms by (simp add: read_string_def write_string_def readBytes_def assertInputAvailable_def
      unat_of_nat comp_def)

lemma readInitialByte_float:
  assumes "e \<in> {2, 3}" "2 ^ e \<le> length rest" "2 ^ e \<le> k"
  shows "readInitialByte MT_SimpleOrFloat k ((MT_SimpleOrFloat OR (24 + of_nat e)) # rest) =
         Inr ((2 ^ e, 24 + of_nat e), rest)"
  using assms by (intro readInitialByte_following) auto

lemma float_word [simp]: "ucast (take_bit 32 (ucast w :: 64 word)) = (w :: 32 word)" "take_bit 64 (v :: 64 word) = v"
proof -
  have "unat w < 2 ^ 32" using unsigned_less [of w] by simp
  then have "take_bit 32 (unat w) = unat w" "take_bit 64 (unat w) = unat w"
    by (simp_all add: take_bit_nat_eq_self)
  then have "take_bit 32 (ucast w :: 64 word) = ucast w"
    by (simp add: word_unat_eq_iff unsigned_take_bit_eq unsigned_ucast_eq)
  moreover have "(ucast (ucast w :: 64 word) :: 32 word) = w"
    using \<open>take_bit 32 (unat w) = unat w\<close> \<open>take_bit 64 (unat w) = unat w\<close>
    by (simp add: word_unat_eq_iff unsigned_ucast_eq unsigned_take_bit_eq)
  ultimately show "ucast (take_bit 32 (ucast w :: 64 word)) = w" by argo
  show "take_bit 64 v = v" by (simp add: take_bit_word_eq_self)
qed

lemma read_float32_write [simp]: "read_float32 (write_float32 w @ rest) = Inr (w, rest)"
  using readInitialByte_float [of 2 "be_write 4 (ucast w) @ rest" 4]
  by (simp add: read_float32_def write_float32_def AI_FollowingBytes4_def)

lemma read_float64_write [simp]: "read_float64 (write_float64 w @ rest) = Inr (w, rest)"
  using readInitialByte_float [of 3 "be_write 8 w @ rest" 8]
  by (simp add: read_float64_def write_float64_def AI_FollowingBytes8_def)

end
