(* ===== verification/Cbor_Serializer.thy ===== *)
theory Cbor_Serializer
  imports Struct_Facts Cbor_Codec
begin

unbundle bit_operations_syntax

text \<open>
  \<open>CborSerializer.h\<close> on the visitor \<open>TypeVisitor.h\<close>. Serialisation writes a struct as a map from
  property tags to values, a vector as an array and an enum as the tag of its enumerator.
  Deserialisation writes into an existing instance: a property that is not valid yet is
  constructed first, a struct is read into the struct that is there, and an entry with an
  unknown or excluded tag is skipped. The visitor's nesting level decides only whether the
  included properties apply, which they do for the outermost struct alone. A \<open>std::array\<close> of 16
  bytes stands for a UUID and the \<open>double\<close> of a time value for its count.
\<close>

section \<open>Serialisation\<close>

text \<open>\<open>visitFundamentalTypeDerived\<close> on a constant value.\<close>

definition write_fund :: "val \<Rightarrow> bytes" where
  "write_fund v =
     (case v of
        VBool b \<Rightarrow> write_bool b
      | VInt8 w \<Rightarrow> write_sint (scast w) | VUInt8 w \<Rightarrow> write_uint (ucast w)
      | VInt16 w \<Rightarrow> write_sint (scast w) | VUInt16 w \<Rightarrow> write_uint (ucast w)
      | VInt32 w \<Rightarrow> write_sint (scast w) | VUInt32 w \<Rightarrow> write_uint (ucast w)
      | VInt64 w \<Rightarrow> write_sint w | VUInt64 w \<Rightarrow> write_uint w
      | VFloat32 w \<Rightarrow> write_float32 w | VFloat64 w \<Rightarrow> write_float64 w
      | VPropertySet s \<Rightarrow> write_uint (ucast (toValue s))
      | VTimepoint w \<Rightarrow> write_float64 w
      | VSteadyTimepoint w \<Rightarrow> write_float64 w
      | VDuration w \<Rightarrow> write_float64 w
      | VUuid bs \<Rightarrow> write_bytes bs
      | VString s \<Rightarrow> write_string s
      | _ \<Rightarrow> [])"

definition enum_of :: "val \<Rightarrow> 32 word" where
  "enum_of v = (case v of VEnum w \<Rightarrow> w | _ \<Rightarrow> 0)"

definition vals_of :: "val \<Rightarrow> val list" where
  "vals_of v = (case v of VVector vs \<Rightarrow> vs | _ \<Rightarrow> [])"

fun concatE :: "'a list result list \<Rightarrow> 'a list result" where
  "concatE [] = Inr []"
| "concatE (m # ms) = bindE m (\<lambda>x. bindE (concatE ms) (\<lambda>y. Inr (x @ y)))"

text \<open>
  \<open>visitVectorInternal\<close>, \<open>visitStructInternal\<close> and \<open>visitPropertyInternal\<close> with the callbacks
  of the serializer. The bytes a failed call has appended before its exception are not modelled.
\<close>

fun write_val :: "descr \<Rightarrow> val \<Rightarrow> bytes result"
and write_props :: "property_set \<Rightarrow> nat \<Rightarrow> pdesc list \<Rightarrow> area \<Rightarrow> bytes result" where
  "write_val (Fundamental t) v = Inr (write_fund v)"
| "write_val (EnumDescriptor n es) v =
     bindE (enumeratorFromValue es (enum_of v)) (\<lambda>e. Inr (write_uint (ucast (en_tag e))))"
| "write_val (VectorDescriptor d) v =
     bindE (concatE (List.map (write_val d) (vals_of v))) (\<lambda>bs.
       Inr (writeArraySize (of_nat (length (vals_of v))) @ bs))"
| "write_val (StructD (StructDescriptor n fl ps)) v =
     (let included = ps_intersect (validProperties (area_of v)) (validProperties (area_of v)) in
      bindE (write_props included 0 ps (area_of v)) (\<lambda>bs.
        Inr (writeMapSize (of_nat (ps_count included)) @ bs)))"
| "write_props inc i [] a = Inr []"
| "write_props inc i (PropertyDescriptor d n t k # ps) a =
     bindE (if ps_le (pd_set (PropertyDescriptor d n t k)) inc
            then bindE (if isValid (PropertyDescriptor d n t k) a
                        then bindE (read_slot i a) (write_val d) else Inr [])
                   (\<lambda>bs. Inr (write_uint (ucast t) @ bs))
            else Inr [])
       (\<lambda>bs. bindE (write_props inc (Suc i) ps a) (\<lambda>bs'. Inr (bs @ bs')))"

text \<open>\<open>serialize(instance, includedProperties)\<close>.\<close>

definition serialize :: "pdesc list \<Rightarrow> area \<Rightarrow> property_set \<Rightarrow> bytes result" where
  "serialize ps a inc =
     (let included = ps_intersect inc (validProperties a) in
      bindE (write_props included 0 ps a) (\<lambda>bs.
        Inr (writeMapSize (of_nat (ps_count included)) @ bs)))"

section \<open>Deserialisation\<close>

text \<open>The value of \<open>T{}\<close>, which \<open>valueOrEmplace\<close> and \<open>fill\<close> put into fresh storage.\<close>

definition default_fund :: "fund_type \<Rightarrow> val" where
  "default_fund t =
     (case t of
        T_boolean \<Rightarrow> VBool False
      | T_int8 \<Rightarrow> VInt8 0 | T_uint8 \<Rightarrow> VUInt8 0 | T_int16 \<Rightarrow> VInt16 0 | T_uint16 \<Rightarrow> VUInt16 0
      | T_int32 \<Rightarrow> VInt32 0 | T_uint32 \<Rightarrow> VUInt32 0 | T_int64 \<Rightarrow> VInt64 0 | T_uint64 \<Rightarrow> VUInt64 0
      | T_float32 \<Rightarrow> VFloat32 0 | T_float64 \<Rightarrow> VFloat64 0
      | T_property_set \<Rightarrow> VPropertySet ps_None
      | T_timepoint \<Rightarrow> VTimepoint 0 | T_steady_timepoint \<Rightarrow> VSteadyTimepoint 0
      | T_duration \<Rightarrow> VDuration 0
      | T_uuid \<Rightarrow> VUuid (replicate 16 0) | T_string \<Rightarrow> VString [])"

fun default_val :: "descr \<Rightarrow> val" where
  "default_val (Fundamental t) = default_fund t"
| "default_val (EnumDescriptor n es) = VEnum 0"
| "default_val (VectorDescriptor d) = VVector []"
| "default_val (StructD (StructDescriptor n fl ps)) = VStruct (fresh_area ps)"

definition mapR :: "('a \<Rightarrow> 'b) \<Rightarrow> ('a \<times> bytes) result \<Rightarrow> ('b \<times> bytes) result" where
  "mapR f m = bindE m (\<lambda>(x, r). Inr (f x, r))"

text \<open>\<open>visitFundamentalTypeDerived\<close> on a mutable value.\<close>

definition read_fund :: "fund_type \<Rightarrow> bytes \<Rightarrow> (val \<times> bytes) result" where
  "read_fund t inp =
     (case t of
        T_boolean \<Rightarrow> mapR VBool (read_bool inp)
      | T_int8 \<Rightarrow> mapR (\<lambda>w. VInt8 (ucast w)) (read_sint 1 inp)
      | T_uint8 \<Rightarrow> mapR (\<lambda>w. VUInt8 (ucast w)) (read_uint 1 inp)
      | T_int16 \<Rightarrow> mapR (\<lambda>w. VInt16 (ucast w)) (read_sint 2 inp)
      | T_uint16 \<Rightarrow> mapR (\<lambda>w. VUInt16 (ucast w)) (read_uint 2 inp)
      | T_int32 \<Rightarrow> mapR (\<lambda>w. VInt32 (ucast w)) (read_sint 4 inp)
      | T_uint32 \<Rightarrow> mapR (\<lambda>w. VUInt32 (ucast w)) (read_uint 4 inp)
      | T_int64 \<Rightarrow> mapR VInt64 (read_sint 8 inp)
      | T_uint64 \<Rightarrow> mapR VUInt64 (read_uint 8 inp)
      | T_float32 \<Rightarrow> mapR VFloat32 (read_float32 inp)
      | T_float64 \<Rightarrow> mapR VFloat64 (read_float64 inp)
      | T_property_set \<Rightarrow> mapR (\<lambda>w. VPropertySet (PropertySet (ucast w))) (read_uint 4 inp)
      | T_timepoint \<Rightarrow> mapR VTimepoint (read_float64 inp)
      | T_steady_timepoint \<Rightarrow> mapR VSteadyTimepoint (read_float64 inp)
      | T_duration \<Rightarrow> mapR VDuration (read_float64 inp)
      | T_uuid \<Rightarrow> mapR VUuid (read_bytes 16 inp)
      | T_string \<Rightarrow> mapR VString (read_string inp))"

text \<open>A counted loop that threads a state, and one that collects the values it reads.\<close>

fun iterE :: "('s \<Rightarrow> 's result) \<Rightarrow> nat \<Rightarrow> 's \<Rightarrow> 's result" where
  "iterE f 0 s = Inr s"
| "iterE f (Suc n) s = bindE (f s) (iterE f n)"

fun read_times :: "(bytes \<Rightarrow> ('a \<times> bytes) result) \<Rightarrow> nat \<Rightarrow> bytes \<Rightarrow> ('a list \<times> bytes) result" where
  "read_times f 0 inp = Inr ([], inp)"
| "read_times f (Suc n) inp =
     bindE (f inp) (\<lambda>(x, r). bindE (read_times f n r) (\<lambda>(xs, r'). Inr (x # xs, r')))"

lemma iterE_cong [fundef_cong]:
  assumes "\<And>s. f s = g s" "n = n'" "s = s'" shows "iterE f n s = iterE g n' s'"
proof -
  have "f = g" using assms(1) by blast
  then show ?thesis using assms(2,3) by simp
qed

lemma read_times_cong [fundef_cong]:
  assumes "\<And>s. f s = g s" "n = n'" "s = s'" shows "read_times f n s = read_times g n' s'"
proof -
  have "f = g" using assms(1) by blast
  then show ?thesis using assms(2,3) by simp
qed

definition find_property :: "32 word \<Rightarrow> pdesc list \<Rightarrow> (nat \<times> pdesc) option" where
  "find_property t ps = find (\<lambda>(i, p). pd_tag p = t) (enumerate 0 ps)"

lemma find_property_Some:
  "find_property t ps = Some (i, p) \<Longrightarrow> i < length ps \<and> ps ! i = p \<and> pd_tag p = t"
  unfolding find_property_def by (drule find_Some_set) (auto simp: in_set_enumerate_eq)

lemma size_less_size_list: "p \<in> set ps \<Longrightarrow> size p < size_list size (ps :: pdesc list)"
  by (induction ps) auto

lemma find_property_size:
  "find_property t ps = Some (i, p) \<Longrightarrow> size p < size_list size ps"
  using find_property_Some size_less_size_list nth_mem by blast

function read_val :: "descr \<Rightarrow> val \<Rightarrow> bytes \<Rightarrow> (val \<times> bytes) result"
and read_entry :: "pdesc list \<Rightarrow> property_set \<Rightarrow> area \<times> bytes \<Rightarrow> (area \<times> bytes) result" where
  "read_val (Fundamental t) old inp = read_fund t inp"
| "read_val (EnumDescriptor n es) old inp =
     bindE (read_uint 4 inp) (\<lambda>(t, r).
     bindE (enumeratorFromTag es (ucast t)) (\<lambda>e. Inr (VEnum (en_value e), r)))"
| "read_val (VectorDescriptor d) old inp =
     bindE (readArraySize inp) (\<lambda>(n, r).
       mapR VVector (read_times (read_val d (default_val d)) (unat n) r))"
| "read_val (StructD (StructDescriptor sn fl ps)) old inp =
     bindE (readMapSize inp) (\<lambda>(n, r).
       mapR VStruct (iterE (read_entry ps ps_All) (unat n) (area_of old, r)))"
| "read_entry ps inc (a, inp) =
     bindE (read_uint 4 inp) (\<lambda>(t, r).
       case find_property (ucast t) ps of
         Some (i, p) \<Rightarrow>
           if ps_le (pd_set p) inc
           then bindE (valueOrEmplace i p (default_val (valueDescriptor p)) a) (\<lambda>a'.
                bindE (read_slot i a') (\<lambda>old.
                bindE (read_val (valueDescriptor p) old r) (\<lambda>(v, r').
                bindE (assign_slot i v a') (\<lambda>a''. Inr (a'', r')))))
           else bindE (skip r) (\<lambda>r'. Inr (a, r'))
       | None \<Rightarrow> bindE (skip r) (\<lambda>r'. Inr (a, r')))"
  by pat_completeness auto
termination
proof (relation "measure (\<lambda>s. case s of Inl (d, _) \<Rightarrow> size d | Inr (ps, _) \<Rightarrow> Suc (size_list size ps))",
    goal_cases)
  case (4 ps inc a inp x t r y i p x')
  then have "size p < size_list size ps" using find_property_size [of "ucast t" ps i p] by simp
  then show ?case by (cases p) simp
qed auto

text \<open>
  \<open>deserialize(instance, includedProperties)\<close>, where the included properties apply to the
  outermost struct only.
\<close>

definition deserialize :: "pdesc list \<Rightarrow> property_set \<Rightarrow> area \<Rightarrow> bytes \<Rightarrow> (area \<times> bytes) result" where
  "deserialize ps inc a inp =
     (if inp = [] then Inl (LogicError ''attempt to deserialize from invalid or empty input buffer'')
      else bindE (readMapSize inp) (\<lambda>(n, r). iterE (read_entry ps inc) (unat n) (a, r)))"

end
