(* ===== verification/Cbor_Roundtrip.thy ===== *)
theory Cbor_Roundtrip
  imports Cbor_Serializer
begin

unbundle bit_operations_syntax

text \<open>
  Serialisation followed by deserialisation: reading what was written from an instance into
  another one has the effect of merging the first into the second, and leaves the bytes that
  follow untouched.
\<close>

section \<open>What can be encoded\<close>

text \<open>
  Sizes that fit into \<open>size_t\<close>, and enum values that are declared; every other value of its
  type can be encoded.
\<close>

fun encodable :: "descr \<Rightarrow> val \<Rightarrow> bool"
and encodable_slots :: "pdesc list \<Rightarrow> val option list \<Rightarrow> bool" where
  "encodable (Fundamental t) v = (case v of VString s \<Rightarrow> length s < 2 ^ 64 | _ \<Rightarrow> True)"
| "encodable (EnumDescriptor n es) v = (enum_of v \<in> en_value ` set es)"
| "encodable (VectorDescriptor d) v = (length (vals_of v) < 2 ^ 64 \<and> list_all (encodable d) (vals_of v))"
| "encodable (StructD (StructDescriptor n fl ps)) v = encodable_slots ps (slots (area_of v))"
| "encodable_slots [] xs = True"
| "encodable_slots (PropertyDescriptor d n t k # ps) xs =
     ((case hd xs of None \<Rightarrow> True | Some v \<Rightarrow> encodable d v) \<and> encodable_slots ps (tl xs))"

section \<open>Fundamental values\<close>

lemma mapR_simps [simp]:
  "mapR f (Inr (x, r)) = Inr (f x, r)" "mapR f (Inl e) = Inl e"
  by (simp_all add: mapR_def)

lemma scast_round_trip [simp]:
  "ucast (scast w :: 64 word) = (w :: 8 word)"
  "ucast (scast w' :: 64 word) = (w' :: 16 word)"
  "ucast (scast w'' :: 64 word) = (w'' :: 32 word)"
  by (rule bit_word_eqI; simp add: bit_simps; fail)+

lemma read_sint_scast [simp]:
  "read_sint 1 (write_sint (scast (w :: 8 word)) @ rest) = Inr (scast w, rest)"
  "read_sint 2 (write_sint (scast (w' :: 16 word)) @ rest) = Inr (scast w', rest)"
  "read_sint 4 (write_sint (scast (w'' :: 32 word)) @ rest) = Inr (scast w'', rest)"
  "read_sint 8 (write_sint v @ rest) = Inr (v, rest)"
  using sint_ge [of w] sint_lt [of w] sint_ge [of w'] sint_lt [of w'] sint_ge [of w''] sint_lt [of w'']
    sint_ge [of v] sint_lt [of v]
  by (simp_all add: sint_up_scast is_up)

lemma unat_ucast_le: "unat (ucast w :: 64 word) \<le> unat (w :: 'a::len word)"
  by (simp add: unsigned_ucast_eq take_bit_nat_less_eq_self)

lemma read_uint_ucast [simp]:
  "read_uint 1 (write_uint (ucast (w :: 8 word)) @ rest) = Inr (ucast w, rest)"
  "read_uint 2 (write_uint (ucast (w' :: 16 word)) @ rest) = Inr (ucast w', rest)"
  "read_uint 4 (write_uint (ucast (w'' :: 32 word)) @ rest) = Inr (ucast w'', rest)"
  "read_uint 8 (write_uint v @ rest) = Inr (v, rest)"
proof -
  have "unat (ucast w :: 64 word) < 2 ^ (8 * 1)" "unat (ucast w' :: 64 word) < 2 ^ (8 * 2)"
    "unat (ucast w'' :: 64 word) < 2 ^ (8 * 4)" "unat v < 2 ^ (8 * 8)"
    using unat_ucast_le [of w] unsigned_less [of w, where 'a = nat]
      unat_ucast_le [of w'] unsigned_less [of w', where 'a = nat]
      unat_ucast_le [of w''] unsigned_less [of w'', where 'a = nat] unsigned_less [of v, where 'a = nat]
    by simp_all
  then show "read_uint 1 (write_uint (ucast w) @ rest) = Inr (ucast w, rest)"
    "read_uint 2 (write_uint (ucast w') @ rest) = Inr (ucast w', rest)"
    "read_uint 4 (write_uint (ucast w'') @ rest) = Inr (ucast w'', rest)"
    "read_uint 8 (write_uint v @ rest) = Inr (v, rest)"
    using read_uint_write by blast+
qed

lemma ucast_round_trip [simp]:
  "ucast (ucast w :: 64 word) = (w :: 8 word)"
  "ucast (ucast w' :: 64 word) = (w' :: 16 word)"
  "ucast (ucast w'' :: 64 word) = (w'' :: 32 word)"
  by (simp_all add: ucast_up_ucast_id is_up)

lemma read_bytes_16: "length bs = 16 \<Longrightarrow> read_bytes 16 (write_bytes bs @ rest) = Inr (bs, rest)"
  using read_bytes_write [of bs rest] by simp

lemma read_fund_write:
  assumes "fund_ok t v" "encodable (Fundamental t) v"
  shows "read_fund t (write_fund v @ rest) = Inr (v, rest)"
  using assms by (cases t; cases v; simp add: read_fund_def write_fund_def read_bytes_16
      read_sint_scast(1) [simplified] read_uint_ucast(1) [simplified])


section \<open>Structs, vectors and enums\<close>

lemma find_property_nth:
  assumes "wf_tags ps" "i < length ps"
  shows "find_property (pd_tag (ps ! i)) ps = Some (i, ps ! i)"
proof -
  have tag: "pd_tag p = pd_tag q \<longleftrightarrow> pd_index p = pd_index q" for p q
    by (simp add: pd_index_def word_unat_eq_iff)
  have "(i, ps ! i) \<in> set (enumerate 0 ps)" using assms by (simp add: in_set_enumerate_eq)
  moreover have "map (\<lambda>(i, p). pd_index p) (enumerate 0 ps) = map pd_index ps"
    by (simp add: map_snd_enumerate split_def flip: map_map [of pd_index snd, unfolded comp_def])
  then have "distinct (map (\<lambda>(i, p). pd_index p) (enumerate 0 ps))"
    using assms(1) by (simp add: wf_tags_def)
  ultimately have "find (\<lambda>y. (\<lambda>(i, p). pd_index p) y = (\<lambda>(i, p). pd_index p) (i, ps ! i)) (enumerate 0 ps) =
      Some (i, ps ! i)"
    by (rule find_unique_key [rotated])
  then show ?thesis by (simp add: find_property_def tag split_def)
qed

lemma default_val_ok: "wf_descr d \<Longrightarrow> val_ok d (default_val d)"
proof (cases d rule: default_val.cases)
  case (1 t)
  then show ?thesis by (cases t) (simp_all add: default_fund_def)
qed (simp_all add: fresh_area_mk)

lemma merged_default:
  "wf_descr d \<Longrightarrow> merged_val d (Some (default_val d)) w = merged_val d None w"
  by (cases d rule: default_val.cases) (simp_all add: fresh_area_def)

lemma merged_None:
  "wf_descr d \<Longrightarrow> val_ok d w \<Longrightarrow> merged_val d None w = w"
  "wf_props ps \<Longrightarrow> slots_ok ps ys \<Longrightarrow> \<forall>p \<in> set ps. pd_index p < 32 \<Longrightarrow>
   merged_slots ps_All ps (replicate (length ps) None) ys = ys"
proof (induction d and ps arbitrary: w and ys rule: wf_descr_wf_props.induct)
  case (4 n fl ps)
  then obtain us where w: "w = VStruct (mk_area ps us)" "slots_ok ps us"
    using val_ok_struct [OF 4(3)] by auto
  have "\<forall>p \<in> set ps. pd_index p < 32" using 4(2) by (simp add: wf_tags_def)
  then show ?case using 4(1) 4(2) w by simp
next
  case (6 d n t k ps)
  then obtain y ys' where "ys = y # ys'" by (cases ys) auto
  then show ?case using 6 by (auto split: option.splits)
qed simp_all

text \<open>An entry of a well-formed struct whose tag and value are next in the input.\<close>

lemma read_entry_known:
  assumes "wf_tags ps" "length xs = length ps" "i < length ps" "ps_le (pd_set (ps ! i)) inc"
    and "read_val (valueDescriptor (ps ! i))
      (case xs ! i of None \<Rightarrow> default_val (valueDescriptor (ps ! i)) | Some u \<Rightarrow> u) inp = Inr (v, rest)"
  shows "read_entry ps inc (mk_area ps xs, write_uint (ucast (pd_tag (ps ! i))) @ inp) =
         Inr (mk_area ps (xs[i := Some v]), rest)"
  using assms by (simp add: find_property_nth del: ps_le_iff)


lemma read_vals_write:
  assumes "\<And>v rest. v \<in> set vs \<Longrightarrow> \<exists>bs. w v = Inr bs \<and> (\<forall>rest. f (bs @ rest) = Inr (v, rest))"
  shows "\<exists>bs. concatE (map w vs) = Inr bs \<and> (\<forall>rest. read_times f (length vs) (bs @ rest) = Inr (vs, rest))"
  using assms
proof (induction vs)
  case (Cons v vs)
  then obtain bs bs' where "w v = Inr bs" "\<forall>rest. f (bs @ rest) = Inr (v, rest)"
    "concatE (map w vs) = Inr bs'" "\<forall>rest. read_times f (length vs) (bs' @ rest) = Inr (vs, rest)"
    by (metis list.set_intros)
  then show ?case by (intro exI [of _ "bs @ bs'"]) simp
qed simp

lemma count_written:
  assumes "wf_tags ps" "ps_members inc \<subseteq> pd_index ` set ps"
  shows "ps_count inc = length (filter (\<lambda>p. ps_le (pd_set p) inc) ps)"
proof -
  have "ps_members inc = pd_index ` set (filter (\<lambda>p. ps_le (pd_set p) inc) ps)"
    using assms by (auto simp: wf_tags_def)
  moreover have "distinct (map pd_index (filter (\<lambda>p. ps_le (pd_set p) inc) ps))"
    using assms(1) by (simp add: wf_tags_def distinct_map inj_on_def del: ps_le_iff)
  ultimately show ?thesis
    by (metis distinct_card length_map list.set_map ps_count_card)
qed

lemma ps_count_fits: "unat (of_nat (ps_count s) :: 64 word) = ps_count s"
proof -
  have "ps_count s \<le> 32"
    using length_filter_le [of "bit (toValue s)" "[0..<MaxProperties]"] by (simp add: ps_count_def MaxProperties_def)
  then show ?thesis by (simp add: unat_of_nat take_bit_nat_eq_self)
qed

text \<open>
  The loop of \<open>read_struct\<close> over the entries of the properties from the \<open>i\<close>-th on, given what
  it does for those from the next on: the \<open>i\<close>-th was written, or it was not.
\<close>

definition reads_entries ::
  "pdesc list \<Rightarrow> nat \<Rightarrow> property_set \<Rightarrow> pdesc list \<Rightarrow> val option list \<Rightarrow> bytes \<Rightarrow> bool" where
  "reads_entries qs i inc ps ys bs \<longleftrightarrow>
     (\<forall>xs rest. length xs = length qs \<longrightarrow> slots_ok ps (drop i xs) \<longrightarrow>
        iterE (read_entry qs ps_All) (length (filter (\<lambda>p. ps_le (pd_set p) inc) ps)) (mk_area qs xs, bs @ rest)
        = Inr (mk_area qs (take i xs @ merged_slots inc ps (drop i xs) (drop i ys)), rest))"

lemma reads_entries_included:
  assumes "wf_tags qs" "i < length qs" "qs ! i = PropertyDescriptor d n t k" "wf_descr d"
    and "ps_le (pd_set (PropertyDescriptor d n t k)) inc" "length ys = length qs" "ys ! i = Some v"
    and bs: "\<And>old rest. val_ok d old \<Longrightarrow> read_val d old (bs @ rest) = Inr (merged_val d (Some old) v, rest)"
    and tl: "reads_entries qs (Suc i) inc ps ys bs'"
  shows "reads_entries qs i inc (PropertyDescriptor d n t k # ps) ys (write_uint (ucast t) @ bs @ bs')"
  unfolding reads_entries_def
proof (intro allI impI)
  fix xs rest
  let ?p = "PropertyDescriptor d n t k"
  assume xs: "length xs = length qs" "slots_ok (?p # ps) (drop i xs)"
  have dxs: "drop i xs = xs ! i # drop (Suc i) xs" and dys: "drop i ys = ys ! i # drop (Suc i) ys"
    using assms(2,6) xs(1) by (simp_all add: Cons_nth_drop_Suc)
  define old where "old = (case xs ! i of None \<Rightarrow> default_val d | Some u \<Rightarrow> u)"
  have old: "val_ok d old"
    using xs(2) assms(4) by (auto simp: dxs old_def default_val_ok split: option.splits)
  have m: "merged_val d (Some old) v = merged_val d (xs ! i) v"
    using assms(4) by (simp add: old_def merged_default split: option.split)
  let ?xs = "xs[i := Some (merged_val d (xs ! i) v)]"
  have "read_entry qs ps_All (mk_area qs xs, write_uint (ucast (pd_tag (qs ! i))) @ bs @ bs' @ rest) =
      Inr (mk_area qs ?xs, bs' @ rest)"
  proof (rule read_entry_known [OF assms(1) xs(1) assms(2)])
    show "ps_le (pd_set (qs ! i)) ps_All" using pd_index_less [OF assms(1,2)] by simp
    show "read_val (valueDescriptor (qs ! i))
        (case xs ! i of None \<Rightarrow> default_val (valueDescriptor (qs ! i)) | Some u \<Rightarrow> u)
        (bs @ bs' @ rest) = Inr (merged_val d (xs ! i) v, bs' @ rest)"
      unfolding assms(3) pdesc.sel old_def [symmetric] using bs [OF old] by (simp add: m)
  qed
  moreover have "iterE (read_entry qs ps_All) (length (filter (\<lambda>p. ps_le (pd_set p) inc) ps))
      (mk_area qs ?xs, bs' @ rest)
     = Inr (mk_area qs (take (Suc i) ?xs @ merged_slots inc ps (drop (Suc i) ?xs) (drop (Suc i) ys)), rest)"
    using tl xs by (simp add: reads_entries_def dxs)
  moreover have "take (Suc i) ?xs @ merged_slots inc ps (drop (Suc i) ?xs) (drop (Suc i) ys) =
      take i xs @ merged_slots inc (?p # ps) (drop i xs) (drop i ys)"
    using assms(2,5,7) xs(1) by (simp add: take_Suc_conv_app_nth dxs dys del: ps_le_iff)
  ultimately show "iterE (read_entry qs ps_All) (length (filter (\<lambda>p. ps_le (pd_set p) inc) (?p # ps)))
        (mk_area qs xs, (write_uint (ucast t) @ bs @ bs') @ rest)
       = Inr (mk_area qs (take i xs @ merged_slots inc (?p # ps) (drop i xs) (drop i ys)), rest)"
    using assms(5) by (simp add: assms(3) del: ps_le_iff read_entry.simps)
qed

lemma reads_entries_excluded:
  assumes "i < length qs" "\<not> ps_le (pd_set p) inc" "length ys = length qs"
    and "reads_entries qs (Suc i) inc ps ys bs"
  shows "reads_entries qs i inc (p # ps) ys bs"
  unfolding reads_entries_def
proof (intro allI impI)
  fix xs rest
  assume xs: "length xs = length qs" "slots_ok (p # ps) (drop i xs)"
  obtain d n t k where p: "p = PropertyDescriptor d n t k" by (cases p)
  have dxs: "drop i xs = xs ! i # drop (Suc i) xs" and dys: "drop i ys = ys ! i # drop (Suc i) ys"
    using assms(1,3) xs(1) by (simp_all add: Cons_nth_drop_Suc)
  have "merged_slots inc (p # ps) (drop i xs) (drop i ys) =
      xs ! i # merged_slots inc ps (drop (Suc i) xs) (drop (Suc i) ys)"
    using assms(2) by (simp add: dxs dys p del: ps_le_iff split: option.split)
  then show "iterE (read_entry qs ps_All) (length (filter (\<lambda>p. ps_le (pd_set p) inc) (p # ps)))
        (mk_area qs xs, bs @ rest)
       = Inr (mk_area qs (take i xs @ merged_slots inc (p # ps) (drop i xs) (drop i ys)), rest)"
    using assms xs by (simp add: reads_entries_def dxs p take_Suc_conv_app_nth del: ps_le_iff)
qed

text \<open>A whole struct: the size and all of its entries.\<close>

lemma reads_struct:
  assumes "wf_tags ps" "length ys = length ps" "ps_members inc \<subseteq> ps_members (valid_of ps ys)"
    and "reads_entries ps 0 inc ps ys bs" "length xs = length ps" "slots_ok ps xs"
  shows "bindE (readMapSize (writeMapSize (of_nat (ps_count inc)) @ bs @ rest))
           (\<lambda>(n, r). iterE (read_entry ps ps_All) (unat n) (mk_area ps xs, r)) =
         Inr (mk_area ps (merged_slots inc ps xs ys), rest)"
proof -
  have cnt: "ps_count inc = length (filter (\<lambda>p. ps_le (pd_set p) inc) ps)"
    using assms(1-3) by (intro count_written) (auto simp: ps_members_valid_of)
  have "readMapSize (writeMapSize (of_nat (ps_count inc)) @ bs @ rest) =
      Inr (of_nat (ps_count inc), bs @ rest)"
    by (simp add: writeMapSize_def readMapSize_def)
  then show ?thesis
    using assms(4-6) by (simp add: reads_entries_def ps_count_fits del: ps_le_iff flip: cnt)
qed

lemma write_then_read:
  "wf_descr d \<Longrightarrow> val_ok d v \<Longrightarrow> encodable d v \<Longrightarrow>
     \<exists>bs. write_val d v = Inr bs
        \<and> (\<forall>old rest. val_ok d old \<longrightarrow> read_val d old (bs @ rest) = Inr (merged_val d (Some old) v, rest))"
  "wf_tags qs \<Longrightarrow> drop k qs = ps \<Longrightarrow> wf_props ps \<Longrightarrow> a = mk_area qs ys \<Longrightarrow> length ys = length qs \<Longrightarrow>
     slots_ok ps (drop k ys) \<Longrightarrow> encodable_slots ps (drop k ys) \<Longrightarrow>
     (\<forall>i < length qs. k \<le> i \<longrightarrow> ps_le (pd_set (qs ! i)) inc \<longrightarrow> ys ! i \<noteq> None) \<Longrightarrow>
     \<exists>bs. write_props inc k ps a = Inr bs \<and> reads_entries qs k inc ps ys bs"
proof (induction d v and inc k ps a arbitrary: and qs ys rule: write_val_write_props.induct)
  case (1 t v)
  then show ?case by (simp add: read_fund_write)
next
  case (2 n es v)
  then obtain w where v: "v = VEnum w" by (auto split: val.splits)
  obtain e where e: "e \<in> set es" "w = en_value e" using 2 v by (auto simp: enum_of_def)
  have "find (\<lambda>e'. en_value e' = en_value e) es = Some e" "find (\<lambda>e'. en_tag e' = en_tag e) es = Some e"
    using 2(1) e(1) by (simp_all add: find_unique_key)
  then show ?case using v e by (simp add: enumeratorFromValue_def enumeratorFromTag_def enum_of_def)
next
  case (3 d v)
  then obtain vs where v: "v = VVector vs" by (auto split: val.splits)
  have wf: "wf_descr d" using "3.prems"(1) by simp
  have el: "\<exists>bs. write_val d u = Inr bs \<and> (\<forall>rest. read_val d (default_val d) (bs @ rest) = Inr (u, rest))"
    if "u \<in> set vs" for u
  proof -
    have "val_ok d u" "encodable d u"
      using that "3.prems" by (simp_all add: v vals_of_def list_all_iff)
    then show ?thesis
      using "3.IH" that wf by (fastforce simp: v vals_of_def default_val_ok merged_default merged_None)
  qed
  have "unat (of_nat (length vs) :: 64 word) = length vs"
    using "3.prems"(3) by (simp add: v vals_of_def unat_of_nat take_bit_nat_eq_self)
  moreover obtain bs where "concatE (map (write_val d) vs) = Inr bs"
    "\<forall>rest. read_times (read_val d (default_val d)) (length vs) (bs @ rest) = Inr (vs, rest)"
    using read_vals_write [OF el] by blast
  ultimately show ?case
    by (simp add: v vals_of_def writeArraySize_def readArraySize_def)
next
  case (4 n fl ps v)
  then have ps: "wf_tags ps" "wf_props ps" by simp_all
  obtain us where v: "v = VStruct (mk_area ps us)" "length us = length ps" "slots_ok ps us"
    using val_ok_struct [OF "4.prems"(2) ps(1)] by blast
  let ?inc = "ps_intersect (valid_of ps us) (valid_of ps us)"
  obtain bs where bs: "write_props ?inc 0 ps (mk_area ps us) = Inr bs" "reads_entries ps 0 ?inc ps us bs"
    using "4.IH" [OF refl, of ps us] ps v "4.prems"(3) by auto
  have inc: "merged_slots ?inc ps xs us = merged_slots ps_All ps xs us" for xs
    using ps(1) v(2) by (intro merged_slots_cong) auto
  have "read_val (StructD (StructDescriptor n fl ps)) old (writeMapSize (of_nat (ps_count ?inc)) @ bs @ rest) =
      Inr (merged_val (StructD (StructDescriptor n fl ps)) (Some old) v, rest)"
    if old: "val_ok (StructD (StructDescriptor n fl ps)) old" for old rest
  proof -
    obtain xs where xs: "old = VStruct (mk_area ps xs)" "length xs = length ps" "slots_ok ps xs"
      using val_ok_struct [OF old ps(1)] by blast
    show ?thesis
      using reads_struct [OF ps(1) v(2) _ bs(2) xs(2,3), of rest]
      by (auto simp: xs(1) v(1) inc mapR_def split_def bindE_eq_Inr)
  qed
  then show ?case using bs(1) by (simp add: v(1))
next
  case (5 inc i a)
  then show ?case by (simp add: reads_entries_def)
next
  case (6 inc i d n t k ps a)
  let ?p = "PropertyDescriptor d n t k"
  note prems = "6.prems"
  have i: "i < length qs" using prems(2) by (metis drop_all leI list.distinct(1))
  then have qs: "qs ! i = ?p" "drop (Suc i) qs = ps"
    using prems(2) by (simp_all add: Cons_nth_drop_Suc [symmetric])
  have ys: "drop i ys = ys ! i # drop (Suc i) ys" using i prems(5) by (simp add: Cons_nth_drop_Suc)
  have ok: "wf_descr d" "\<And>v. ys ! i = Some v \<Longrightarrow> val_ok d v \<and> encodable d v"
    using prems(3,6,7) by (auto simp: ys)
  have valid: "isValid ?p a \<longleftrightarrow> ys ! i \<noteq> None"
    using isValid_mk_area [OF prems(1,5) i] by (simp add: prems(4) qs(1) del: isValid_iff)
  note tl = "6.IH"(2) [OF _ prems(1) qs(2)]
  have rest_props: "wf_props ps" "slots_ok ps (drop (Suc i) ys)" "encodable_slots ps (drop (Suc i) ys)"
    "\<forall>j < length qs. Suc i \<le> j \<longrightarrow> ps_le (pd_set (qs ! j)) inc \<longrightarrow> ys ! j \<noteq> None"
    using prems(3,6,7,8) by (simp_all add: ys del: ps_le_iff)
  show ?case
  proof (cases "ps_le (pd_set ?p) inc")
    case True
    then obtain v where v: "ys ! i = Some v" using prems(8) i qs(1) by (metis not_None_eq order.refl)
    have rd: "read_slot i a = Inr v" "isValid ?p a"
      using v i prems(4,5) valid by (simp_all del: isValid_iff)
    obtain bs where bs: "write_val d v = Inr bs"
      "\<And>old rest. val_ok d old \<Longrightarrow> read_val d old (bs @ rest) = Inr (merged_val d (Some old) v, rest)"
      using "6.IH"(1) [OF True rd(2,1)] ok v by blast
    have hd: "(if ps_le (pd_set ?p) inc
            then bindE (if isValid ?p a then bindE (read_slot i a) (write_val d) else Inr [])
                   (\<lambda>bs. Inr (write_uint (ucast t) @ bs))
            else Inr []) = Inr (write_uint (ucast t) @ bs)"
      using True rd bs(1) by (simp del: ps_le_iff isValid_iff)
    obtain bs' where bs': "write_props inc (Suc i) ps a = Inr bs'" "reads_entries qs (Suc i) inc ps ys bs'"
      using tl [OF hd rest_props(1) prems(4,5) rest_props(2,3,4)] by blast
    show ?thesis
      using hd bs'(1) reads_entries_included [OF prems(1) i qs(1) ok(1) True prems(5) v bs(2) bs'(2)]
      by (intro exI [of _ "write_uint (ucast t) @ bs @ bs'"]) (simp del: ps_le_iff isValid_iff)
  next
    case False
    then have hd: "(if ps_le (pd_set ?p) inc
            then bindE (if isValid ?p a then bindE (read_slot i a) (write_val d) else Inr [])
                   (\<lambda>bs. Inr (write_uint (ucast t) @ bs))
            else Inr []) = Inr []"
      by (simp del: ps_le_iff isValid_iff)
    obtain bs' where bs': "write_props inc (Suc i) ps a = Inr bs'" "reads_entries qs (Suc i) inc ps ys bs'"
      using tl [OF hd rest_props(1) prems(4,5) rest_props(2,3,4)] by blast
    then show ?thesis
      using hd reads_entries_excluded [OF i False prems(5) bs'(2)] by (simp del: ps_le_iff isValid_iff)
  qed
qed

section \<open>Properties\<close>

lemma serialize_reads:
  assumes "wf_tags ps" "wf_props ps" "length ys = length ps" "slots_ok ps ys" "encodable_slots ps ys"
    and "length xs = length ps" "slots_ok ps xs"
  obtains bs where "serialize ps (mk_area ps ys) inc = Inr bs"
    "\<And>rest. deserialize ps ps_All (mk_area ps xs) (bs @ rest) =
       Inr (mk_area ps (merged_slots inc ps xs ys), rest)"
proof -
  let ?inc = "ps_intersect inc (valid_of ps ys)"
  obtain bs where bs: "write_props ?inc 0 ps (mk_area ps ys) = Inr bs" "reads_entries ps 0 ?inc ps ys bs"
    using write_then_read(2) [of ps 0 ps "mk_area ps ys" ys ?inc] assms by auto
  have m: "merged_slots ?inc ps xs ys = merged_slots inc ps xs ys"
    using assms by (intro merged_slots_cong) auto
  obtain b rest' where "writeMapSize (of_nat (ps_count ?inc)) = b # rest'"
    unfolding writeMapSize_def by (rule writeHead_Cons)
  then show ?thesis
    using that [of "writeMapSize (of_nat (ps_count ?inc)) @ bs"] bs(1)
      reads_struct [OF assms(1,3) _ bs(2) assms(6,7)]
    by (simp add: serialize_def deserialize_def m)
qed

text \<open>C2: Deserialising the CBOR of an instance, restricted to any properties, into another well-
  formed instance has exactly the effect of merging these properties into it.\<close>

theorem deserialize_serialize_merges:
  assumes "wf_tags ps" "wf_props ps"
    and "wf_area ps a" "slots_ok ps (slots a)" "encodable_slots ps (slots a)"
    and "wf_area ps b" "slots_ok ps (slots b)"
  shows "\<exists>bs b'. serialize ps a inc = Inr bs \<and> struct_merge ps b a inc = Inr b'
     \<and> (\<forall>rest. deserialize ps ps_All b (bs @ rest) = Inr (b', rest))"
proof -
  obtain ys where ys: "length ys = length ps" "a = mk_area ps ys" using assms by (auto elim: wf_areaE)
  obtain xs where xs: "length xs = length ps" "b = mk_area ps xs" using assms by (auto elim: wf_areaE)
  have "struct_merge ps b a inc = Inr (mk_area ps (merged_slots inc ps xs ys))"
    using assms xs ys by (simp add: struct_merge_mk)
  then show ?thesis
    using serialize_reads [of ps ys xs inc] assms xs ys by (metis slots_mk_area)
qed

lemma deserialize_serialize_merges_witness:
  "\<exists>bs b'. serialize example_props
       (example_area (Some 7) (Some ''x'') (map_option (\<lambda>(x, y). example_inner x y) (Some (Some 1, None)))) ps_All = Inr bs
     \<and> (\<forall>rest. deserialize example_props ps_All
          (example_area (Some 5) None (map_option (\<lambda>(x, y). example_inner x y) (Some (None, Some 2)))) (bs @ rest) = Inr (b', rest))"
proof -
  have "encodable_slots example_props (slots (example_area (Some 7) (Some ''x'')
      (map_option (\<lambda>(x, y). example_inner x y) (Some (Some 1, None)))))"
    by (simp add: example_props_def example_area_def example_inner_def)
  from deserialize_serialize_merges [OF example_wf_tags example_wf_props example_wf_area example_slots_ok this
      example_wf_area example_slots_ok, of ps_All "Some 5" None "Some (None, Some 2)"]
  show ?thesis by blast
qed

text \<open>C1: Every well-formed instance whose sizes fit into 64 bits and whose enum values are declared
  can be serialised to CBOR, and deserialising the bytes into a fresh instance yields the
  instance again and leaves what follows in the input.\<close>

theorem serialize_roundtrip:
  assumes "wf_tags ps" "wf_props ps" "wf_area ps a" "slots_ok ps (slots a)" "encodable_slots ps (slots a)"
  shows "\<exists>bs. serialize ps a ps_All = Inr bs
     \<and> (\<forall>rest. deserialize ps ps_All (fresh_area ps) (bs @ rest) = Inr (a, rest))"
proof -
  obtain ys where ys: "length ys = length ps" "a = mk_area ps ys" using assms by (auto elim: wf_areaE)
  have "merged_slots ps_All ps (replicate (length ps) None) ys = ys"
    using assms ys by (intro merged_None(2)) (auto simp: wf_tags_def)
  then show ?thesis
    using serialize_reads [of ps ys "replicate (length ps) None" ps_All] assms ys
    by (metis fresh_area_mk length_replicate slots_mk_area slots_ok_replicate)
qed

lemma serialize_roundtrip_witness:
  "\<exists>bs. serialize example_props (example_area (Some 7) (Some ''x'') None) ps_All = Inr bs
     \<and> deserialize example_props ps_All (fresh_area example_props) (bs @ [0]) =
         Inr (example_area (Some 7) (Some ''x'') None, [0])"
proof -
  have "slots_ok example_props (slots (example_area (Some 7) (Some ''x'') None))"
    using example_slots_ok [of "Some 7" "Some ''x''" None] by simp
  moreover have "encodable_slots example_props (slots (example_area (Some 7) (Some ''x'') None))"
    by (simp add: example_props_def example_area_def)
  ultimately show ?thesis
    using serialize_roundtrip [OF example_wf_tags example_wf_props example_wf_area] by blast
qed

end
