(* ===== verification/Cbor_Skip.thy ===== *)
theory Cbor_Skip
  imports Cbor_Roundtrip
begin

unbundle bit_operations_syntax

text \<open>
  \<open>CborReader::skip\<close>: how it ends, what it skips of written values, and how far the reads of the
  codec look.
\<close>

lemma consume_simps [simp]:
  "consume 0 inp = Inr inp"
  "consume (length bs) (bs @ rest) = Inr rest"
  "n \<le> length inp \<Longrightarrow> consume n inp = Inr (drop n inp)"
  by (simp_all add: consume_def assertInputAvailable_def)

lemma consume_length: "consume n inp = Inr r \<Longrightarrow> length r \<le> length inp"
  by (auto simp: consume_def assertInputAvailable_def)

lemma be_read_length: "be_read n acc inp = Inr (v, r) \<Longrightarrow> length r \<le> length inp"
proof (induction n arbitrary: acc inp)
  case (Suc n)
  then show ?case by (cases inp) (fastforce simp: readByte_def)+
qed simp

lemma skip_read_size_length: "skip_read_size ai inp = Inr (n, r) \<Longrightarrow> length r \<le> length inp"
  by (auto simp: skip_read_size_def split: if_splits dest!: consume_length be_read_length)

lemma skip_times_length:
  assumes "\<And>inp r. f inp = Inr r \<Longrightarrow> length r \<le> length inp"
  shows "skip_times f n inp = Inr r \<Longrightarrow> length r \<le> length inp"
proof (induction n arbitrary: inp)
  case (Suc n)
  then show ?case using assms by (fastforce intro: order_trans)
qed simp

lemma skip_times_cong_length:
  assumes "\<And>inp r. length inp \<le> k \<Longrightarrow> f inp = Inr r \<Longrightarrow> length r \<le> length inp"
    and "\<And>inp. length inp \<le> k \<Longrightarrow> f inp = g inp"
  shows "length inp \<le> k \<Longrightarrow> skip_times f n inp = skip_times g n inp"
proof (induction n arbitrary: inp)
  case (Suc n)
  have "length x \<le> k" if "f inp = Inr x" for x
    using assms(1) [OF Suc.prems that] Suc.prems by simp
  then show ?case using Suc assms(2) [of inp] by (auto simp del: bindE_eq_Inr intro!: bindE_cong)
qed simp

lemma skip_depth_length: "skip_depth d inp = Inr r \<Longrightarrow> length r < length inp"
proof (induction d arbitrary: inp r)
  case (Suc d)
  obtain b inp' where inp: "inp = b # inp'"
    using Suc.prems by (cases inp) (auto simp: assertInputAvailable_def)
  have t: "skip_times (skip_depth d) n i = Inr r' \<Longrightarrow> length r' \<le> length i" for n i r'
    using skip_times_length [of "skip_depth d"] Suc.IH by (metis less_imp_le)
  show ?case using Suc.prems
    by (auto simp: inp assertInputAvailable_def readByte_def Let_def less_Suc_eq_le split: if_splits
        dest!: consume_length skip_read_size_length t)
qed simp

lemma skip_depth_enough: "length inp < d \<Longrightarrow> length inp < d' \<Longrightarrow> skip_depth d inp = skip_depth d' inp"
proof (induction d arbitrary: inp d')
  case (Suc d)
  obtain e where d': "d' = Suc e" using Suc.prems(2) by (cases d') auto
  show ?case
  proof (cases inp)
    case (Cons b r)
    have "skip_times (skip_depth d) n i = skip_times (skip_depth e) n i" if "length i \<le> length r" for n i
      using Suc.prems Cons d' that
      by (intro skip_times_cong_length [of "length r"]) (auto dest: skip_depth_length intro!: Suc.IH less_imp_le)
    then show ?thesis
      by (simp add: Cons d' assertInputAvailable_def readByte_def Let_def split_def cong: bindE_cong)
         (auto intro!: bindE_cong dest!: skip_read_size_length simp del: bindE_eq_Inr)
  qed (simp add: d' assertInputAvailable_def)
qed simp


declare skip_depth.simps(2) [simp del]

text \<open>A head as \<open>skip\<close> takes it apart: the size is right, but its bytes are consumed twice.\<close>

lemma skip_head:
  assumes "mt \<in> major_types"
  obtains b bs where "writeHead mt v = b # bs" "b AND MT_Mask = mt"
    "skip_get_num_bytes (b AND AI_Mask) = Inr (length bs)"
    "\<And>rest. skip_read_size (b AND AI_Mask) (bs @ rest) =
       bindE (consume (length bs) rest) (\<lambda>r. Inr (unat v, r))"
    "bs = [] \<longleftrightarrow> unat v \<le> 23" "length bs \<le> unat v"
proof (cases rule: writeHead_cases [of v mt])
  case inplace
  have "(mt OR of_nat (unat v)) AND MT_Mask = mt" "(mt OR of_nat (unat v)) AND AI_Mask = of_nat (unat v)"
    using head_byte [OF assms, of "unat v"] inplace(1) by simp_all
  then show ?thesis
    using inplace that [of "mt OR of_nat (unat v)" "[]"] inplace_le [OF inplace(1)]
    by (simp add: skip_get_num_bytes_def skip_read_size_def)
next
  case (following e)
  have e: "24 + of_nat e = (of_nat (24 + e) :: 8 word)" by simp
  have "(2 :: nat) ^ e \<le> 2 ^ 3" using following(1) by (intro power_increasing) simp_all
  then have len: "2 ^ e \<le> unat v" using following(2) by simp
  have ne: "be_write (2 ^ e) v \<noteq> []" using length_be_write [of "2 ^ e" v] by (metis list.size(3) power_not_zero zero_neq_numeral)
  have "(mt OR (24 + of_nat e)) AND MT_Mask = mt" "(mt OR (24 + of_nat e)) AND AI_Mask = 24 + of_nat e"
    using head_byte [OF assms, of "24 + e"] following(1) unfolding e by simp_all
  then show ?thesis
    using following len ne following_ai [OF following(1)] that [of "mt OR (24 + of_nat e)" "be_write (2 ^ e) v"]
    by (simp add: skip_get_num_bytes_def skip_read_size_def)
qed

lemma skip_unfold:
  "skip (b # r) =
     (let majorType = b AND MT_Mask; additionalInformation = b AND AI_Mask
      in if majorType \<in> {MT_UnsignedInt, MT_SignedInt, MT_SimpleOrFloat}
         then bindE (skip_get_num_bytes additionalInformation) (\<lambda>n. consume n r)
         else if majorType \<in> {MT_ByteString, MT_TextString}
         then bindE (skip_read_size additionalInformation r) (\<lambda>(size, r'). consume size r')
         else if majorType = MT_Array
         then bindE (skip_read_size additionalInformation r) (\<lambda>(size, r'). skip_times skip size r')
         else if majorType = MT_Map
         then bindE (skip_read_size additionalInformation r) (\<lambda>(size, r'). skip_times skip (2 * size) r')
         else Inr r)"
proof -
  have "skip_times (skip_depth (Suc (length r))) n i = skip_times skip n i" if "length i \<le> length r" for n i
    using that unfolding skip_def
    by (intro skip_times_cong_length [of "length r"])
      (auto dest: skip_depth_length intro!: skip_depth_enough less_imp_le)
  then show ?thesis
    unfolding skip_def list.size(4) add_Suc_right add_0_right skip_depth.simps(2) [of _ "b # r"]
    by (simp add: assertInputAvailable_def readByte_def Let_def split_def)
       (auto intro!: bindE_cong dest!: skip_read_size_length simp del: bindE_eq_Inr)
qed

lemma major_distinct:
  "distinct [MT_UnsignedInt, MT_SignedInt, MT_ByteString, MT_TextString, MT_Array, MT_Map, MT_SimpleOrFloat]"
  by (simp add: cbor_constants)

text \<open>
  A string is skipped correctly up to 23 characters; behind a longer one, as many bytes are lost
  as its size has.
\<close>

lemma skip_string_write:
  assumes "length s < 2 ^ 64"
  shows "skip (write_string s @ rest) = consume (length (write_string s) - length s - 1) rest"
proof -
  have size: "unat (of_nat (length s) :: 64 word) = length s"
    using assms by (simp add: unat_of_nat take_bit_nat_eq_self)
  obtain b bs where h: "writeHead MT_TextString (of_nat (length s)) = b # bs" "b AND MT_Mask = MT_TextString"
    "\<And>rest. skip_read_size (b AND AI_Mask) (bs @ rest) =
       bindE (consume (length bs) rest) (\<lambda>r. Inr (length s, r))"
    "bs = [] \<longleftrightarrow> length s \<le> 23" "length bs \<le> length s"
    using skip_head [of MT_TextString "of_nat (length s)"] unfolding size by (metis major_in(4))
  have "skip (b # bs @ map of_char s @ rest) =
      bindE (consume (length bs) (map of_char s @ rest)) (consume (length s))"
    using h(2,3) by (simp add: skip_unfold Let_def cbor_constants bindE_assoc)
  moreover have "length s \<le> length s + length rest - length bs \<longleftrightarrow> length bs \<le> length rest"
    using h(5) by arith
  ultimately show ?thesis using h(5)
    by (simp add: write_string_def h(1)) (simp add: consume_def assertInputAvailable_def)
qed

text \<open>Values whose every size fits into the initial byte, which are those skipped correctly.\<close>

fun small_sizes :: "descr \<Rightarrow> val \<Rightarrow> bool"
and small_slots :: "pdesc list \<Rightarrow> val option list \<Rightarrow> bool" where
  "small_sizes (Fundamental t) v = (case v of VString s \<Rightarrow> length s \<le> 23 | _ \<Rightarrow> True)"
| "small_sizes (EnumDescriptor n es) v = True"
| "small_sizes (VectorDescriptor d) v = (length (vals_of v) \<le> 23 \<and> list_all (small_sizes d) (vals_of v))"
| "small_sizes (StructD (StructDescriptor n fl ps)) v =
     (ps_count (validProperties (area_of v)) \<le> 23 \<and> small_slots ps (slots (area_of v)))"
| "small_slots [] xs = True"
| "small_slots (PropertyDescriptor d n t k # ps) xs =
     ((case hd xs of None \<Rightarrow> True | Some v \<Rightarrow> small_sizes d v) \<and> small_slots ps (tl xs))"

lemma skip_scalar:
  "b AND MT_Mask \<in> {MT_UnsignedInt, MT_SignedInt, MT_SimpleOrFloat} \<Longrightarrow>
   skip (b # r) = bindE (skip_get_num_bytes (b AND AI_Mask)) (\<lambda>n. consume n r)"
  unfolding skip_unfold Let_def by (simp only: if_True)

lemma skip_int: "mt \<in> {MT_UnsignedInt, MT_SignedInt} \<Longrightarrow> skip (writeHead mt v @ rest) = Inr rest"
proof -
  assume mt: "mt \<in> {MT_UnsignedInt, MT_SignedInt}"
  then have "mt \<in> major_types" by auto
  then obtain b bs where "writeHead mt v = b # bs" "b AND MT_Mask = mt"
    "skip_get_num_bytes (b AND AI_Mask) = Inr (length bs)"
    by (rule skip_head)
  then show ?thesis using mt skip_scalar [of b "bs @ rest"] by auto
qed

lemma skip_sized:
  assumes "mt \<in> {MT_ByteString, MT_TextString, MT_Array, MT_Map}" "unat v \<le> 23"
  shows "skip (writeHead mt v @ rest) =
    (if mt = MT_Array then skip_times skip (unat v) rest
     else if mt = MT_Map then skip_times skip (2 * unat v) rest
     else consume (unat v) rest)"
proof -
  have "mt \<in> major_types" using assms(1) by auto
  then obtain b bs where h: "writeHead mt v = b # bs" "b AND MT_Mask = mt"
    "\<And>rest. skip_read_size (b AND AI_Mask) (bs @ rest) = bindE (consume (length bs) rest) (\<lambda>r. Inr (unat v, r))"
    "bs = [] \<longleftrightarrow> unat v \<le> 23"
    using skip_head [of mt v] by metis
  then have bs: "bs = []" using assms(2) by blast
  have "skip_read_size (b AND AI_Mask) rest = Inr (unat v, rest)" using h(3) [of rest] by (simp add: bs)
  then show ?thesis using assms(1) h(1,2)
    by (elim insertE) (simp_all add: bs skip_unfold Let_def cbor_constants)
qed

lemma skip_simple:
  assumes "n \<in> {20, 21, 26, 27}" "length bs = (if n = 26 then 4 else if n = 27 then 8 else 0)"
  shows "skip ((MT_SimpleOrFloat OR of_nat n) # bs @ rest) = Inr rest"
proof -
  have "(MT_SimpleOrFloat OR of_nat n) AND MT_Mask = MT_SimpleOrFloat"
    "(MT_SimpleOrFloat OR of_nat n) AND AI_Mask = of_nat n"
    using assms(1) by (auto intro!: head_byte)
  moreover have "skip_get_num_bytes (of_nat n) = Inr (length bs)"
    using assms by (auto simp: skip_get_num_bytes_def cbor_constants)
  ultimately show ?thesis by (simp add: skip_scalar)
qed

lemma skip_fund:
  assumes "fund_ok t v" "small_sizes (Fundamental t) v"
  shows "skip (write_fund v @ rest) = Inr rest"
proof -
  have ints: "skip (write_uint w @ rest) = Inr rest" "skip (write_sint w @ rest) = Inr rest" for w
    by (simp_all add: write_uint_def write_sint_def skip_int)
  have floats: "skip (write_float32 w @ rest) = Inr rest" "skip (write_float64 u @ rest) = Inr rest" for w u
    using skip_simple [of 26 "be_write 4 (ucast w)"] skip_simple [of 27 "be_write 8 u"]
    by (simp_all add: write_float32_def write_float64_def AI_FollowingBytes4_def AI_FollowingBytes8_def)
  have bool: "skip (write_bool b @ rest) = Inr rest" for b
    using skip_simple [of 21 "[]"] skip_simple [of 20 "[]"]
    by (cases b) (simp_all add: write_bool_def SV_True_def SV_False_def)
  have bytes: "skip (write_bytes bs @ rest) = Inr rest" if "length bs \<le> 23" for bs
    using that skip_sized [of MT_ByteString "of_nat (length bs)" "bs @ rest"]
    by (simp add: write_bytes_def unat_of_nat take_bit_nat_eq_self MT_ByteString_def MT_Array_def MT_Map_def)
  have str: "skip (write_string s @ rest) = Inr rest" if "length s \<le> 23" for s
    using that skip_sized [of MT_TextString "of_nat (length s)" "map of_char s @ rest"]
    by (simp add: write_string_def unat_of_nat take_bit_nat_eq_self MT_TextString_def MT_Array_def MT_Map_def)
  show ?thesis
    using assms by (cases t; cases v; simp add: write_fund_def ints floats bool bytes str)
qed

lemma skip_times_concat:
  assumes "\<And>v bs rest. v \<in> set vs \<Longrightarrow> w v = Inr bs \<Longrightarrow> skip (bs @ rest) = Inr rest"
  shows "concatE (map w vs) = Inr bs \<Longrightarrow> skip_times skip (length vs) (bs @ rest) = Inr rest"
  using assms
proof (induction vs arbitrary: bs)
  case (Cons v vs)
  then show ?case by fastforce
qed simp


lemma skip_written:
  "val_ok d v \<Longrightarrow> wf_descr d \<Longrightarrow> small_sizes d v \<Longrightarrow> write_val d v = Inr bs \<Longrightarrow> skip (bs @ rest) = Inr rest"
  "wf_tags qs \<Longrightarrow> drop k qs = ps \<Longrightarrow> wf_props ps \<Longrightarrow> a = mk_area qs ys \<Longrightarrow> length ys = length qs \<Longrightarrow>
     slots_ok ps (drop k ys) \<Longrightarrow> small_slots ps (drop k ys) \<Longrightarrow>
     (\<forall>i < length qs. k \<le> i \<longrightarrow> ps_le (pd_set (qs ! i)) inc \<longrightarrow> ys ! i \<noteq> None) \<Longrightarrow>
     write_props inc k ps a = Inr bs \<Longrightarrow>
     skip_times skip (2 * length (filter (\<lambda>p. ps_le (pd_set p) inc) ps)) (bs @ rest) = Inr rest"
proof (induction d v and inc k ps a arbitrary: bs rest and qs ys bs rest rule: write_val_write_props.induct)
  case (1 t v)
  then show ?case using skip_fund [of t v rest] by (simp only: val_ok.simps write_val.simps sum.inject)
next
  case (2 n es v)
  then show ?case by (auto simp: write_uint_def skip_int)
next
  case (3 d v)
  then obtain vs where v: "v = VVector vs" by (auto split: val.splits)
  have n: "unat (of_nat (length vs) :: 64 word) = length vs"
    using "3.prems"(3) by (simp add: v vals_of_def unat_of_nat take_bit_nat_eq_self)
  obtain cs where cs: "concatE (map (write_val d) vs) = Inr cs" "bs = writeArraySize (of_nat (length vs)) @ cs"
    using "3.prems"(4) by (auto simp: v vals_of_def)
  have "skip_times skip (length vs) (cs @ rest) = Inr rest"
    using "3.IH" "3.prems" cs(1) by (intro skip_times_concat) (auto simp: v vals_of_def list_all_iff)
  then show ?case
    using skip_sized [of MT_Array "of_nat (length vs)" "cs @ rest"] "3.prems"(3) n
    by (simp add: cs(2) writeArraySize_def v vals_of_def)
next
  case (4 n fl ps v)
  then have ps: "wf_tags ps" "wf_props ps" by simp_all
  obtain us where v: "v = VStruct (mk_area ps us)" "length us = length ps" "slots_ok ps us"
    using val_ok_struct [OF "4.prems"(1) ps(1)] by blast
  let ?inc = "ps_intersect (valid_of ps us) (valid_of ps us)"
  obtain cs where cs: "write_props ?inc 0 ps (mk_area ps us) = Inr cs"
    "bs = writeMapSize (of_nat (ps_count ?inc)) @ cs"
    using "4.prems"(4) by (auto simp: v(1) Let_def)
  have "ps_intersect s s = s" for s by (rule ps_eqI) simp
  then have small: "ps_count ?inc \<le> 23" using "4.prems"(3) by (simp add: v(1))
  have cnt: "ps_count ?inc = length (filter (\<lambda>p. ps_le (pd_set p) ?inc) ps)"
    using ps(1) v(2) by (intro count_written) (auto simp: ps_members_valid_of)
  have "skip_times skip (2 * length (filter (\<lambda>p. ps_le (pd_set p) ?inc) ps)) (cs @ rest) = Inr rest"
    using "4.IH" [OF refl, of ps us cs rest] ps v cs(1) "4.prems"(3) by auto
  then show ?case
    using skip_sized [of MT_Map "of_nat (ps_count ?inc)" "cs @ rest"] small ps_count_fits [of ?inc]
    by (simp add: cs(2) writeMapSize_def MT_Map_def MT_Array_def del: ps_le_iff flip: cnt)
next
  case (5 inc i a)
  then show ?case by simp
next
  case (6 inc i d n t k ps a)
  let ?p = "PropertyDescriptor d n t k"
  note prems = "6.prems"
  have i: "i < length qs" using prems(2) by (metis drop_all leI list.distinct(1))
  then have qs: "qs ! i = ?p" "drop (Suc i) qs = ps"
    using prems(2) by (simp_all add: Cons_nth_drop_Suc [symmetric])
  have ys: "drop i ys = ys ! i # drop (Suc i) ys" using i prems(5) by (simp add: Cons_nth_drop_Suc)
  have rest_props: "wf_props ps" "slots_ok ps (drop (Suc i) ys)" "small_slots ps (drop (Suc i) ys)"
    "\<forall>j < length qs. Suc i \<le> j \<longrightarrow> ps_le (pd_set (qs ! j)) inc \<longrightarrow> ys ! j \<noteq> None"
    using prems(3,6,7,8) by (simp_all add: ys del: ps_le_iff)
  let ?head = "if ps_le (pd_set ?p) inc
            then bindE (if isValid ?p a then bindE (read_slot i a) (write_val d) else Inr [])
                   (\<lambda>bs. Inr (write_uint (ucast t) @ bs))
            else Inr []"
  obtain b1 b2 where b: "?head = Inr b1" "write_props inc (Suc i) ps a = Inr b2" "bs = b1 @ b2"
    using prems(9) by (auto simp del: ps_le_iff isValid_iff split del: if_split)
  have tl: "skip_times skip (2 * length (filter (\<lambda>p. ps_le (pd_set p) inc) ps)) (b2 @ rest) = Inr rest"
    using "6.IH"(2) [OF b(1) prems(1) qs(2) rest_props(1) prems(4,5) rest_props(2,3,4) b(2)] .
  show ?case
  proof (cases "ps_le (pd_set ?p) inc")
    case True
    then obtain v where v: "ys ! i = Some v" using prems(8) i qs(1) by (metis not_None_eq order.refl)
    have rd: "read_slot i a = Inr v" "isValid ?p a"
      using v i prems(4,5) isValid_mk_area [OF prems(1,5) i] by (simp_all add: qs(1) del: isValid_iff)
    obtain cs where cs: "write_val d v = Inr cs" "b1 = write_uint (ucast t) @ cs"
      using b(1) True rd by (auto simp del: ps_le_iff isValid_iff)
    have "wf_descr d" "val_ok d v" "small_sizes d v"
      using prems(3,6,7) v by (simp_all add: ys)
    then have "skip (cs @ r) = Inr r" for r using "6.IH"(1) [OF True rd(2,1)] cs(1) by blast
    then show ?thesis using tl True by (simp add: b(3) cs(2) write_uint_def skip_int del: ps_le_iff)
  next
    case False
    then show ?thesis using tl b by (simp del: ps_le_iff)
  qed
qed

section \<open>Termination and safety\<close>

definition depth_exn :: exn where
  "depth_exn = UndefinedBehaviour ''recursion depth''"

lemma no_depth_simps [simp]:
  "assertInputAvailable n inp \<noteq> Inl depth_exn" "readByte inp \<noteq> Inl depth_exn"
  "consume n inp \<noteq> Inl depth_exn" "skip_get_num_bytes ai \<noteq> Inl depth_exn"
  "be_read n acc inp \<noteq> Inl depth_exn" "skip_read_size ai inp \<noteq> Inl depth_exn"
proof -
  show c: "assertInputAvailable n inp \<noteq> Inl depth_exn" for n and inp :: bytes
    by (simp add: assertInputAvailable_def depth_exn_def)
  show b: "readByte inp \<noteq> Inl depth_exn" for inp :: bytes
    by (simp add: readByte_def depth_exn_def split: list.split)
  show d: "consume n inp \<noteq> Inl depth_exn" for n and inp :: bytes
    using c by (simp add: consume_def bindE_eq_Inl)
  show e: "skip_get_num_bytes ai \<noteq> Inl depth_exn"
    by (simp add: skip_get_num_bytes_def throwException_def depth_exn_def)
  show f: "be_read n acc inp \<noteq> Inl depth_exn" for n acc and inp :: bytes
    using b by (induction n arbitrary: acc inp) (auto simp: bindE_eq_Inl)
  show "skip_read_size ai inp \<noteq> Inl depth_exn" using d e f by (simp add: skip_read_size_def bindE_eq_Inl)
qed

lemma skip_times_no_depth:
  assumes "\<And>inp r. length inp \<le> k \<Longrightarrow> f inp = Inr r \<Longrightarrow> length r \<le> length inp"
    and "\<And>inp. length inp \<le> k \<Longrightarrow> f inp \<noteq> Inl depth_exn"
  shows "length inp \<le> k \<Longrightarrow> skip_times f n inp \<noteq> Inl depth_exn"
proof (induction n arbitrary: inp)
  case (Suc n)
  have "length x \<le> k" if "f inp = Inr x" for x
    using assms(1) [OF Suc.prems that] Suc.prems by simp
  then show ?case using Suc assms(2) [of inp] by (auto simp: bindE_eq_Inl)
qed simp

lemma skip_depth_reached: "length inp < d \<Longrightarrow> skip_depth d inp \<noteq> Inl depth_exn"
proof (induction d arbitrary: inp)
  case (Suc d)
  have t: "skip_times (skip_depth d) n i \<noteq> Inl depth_exn" if "length i < length inp" for n i
    using that Suc.prems
    by (intro skip_times_no_depth [of "length i"]) (auto dest: skip_depth_length intro!: Suc.IH less_imp_le)
  show ?case
  proof (cases inp)
    case (Cons b r)
    have t': "skip_times (skip_depth d) n i \<noteq> Inl depth_exn" if "skip_read_size ai r = Inr (m, i)" for n ai m i
      using t [of i] skip_read_size_length [OF that] by (simp add: Cons)
    have x: "skip_times (skip_depth d) n i = Inl depth_exn \<Longrightarrow> skip_read_size ai r \<noteq> Inr (m, i)" for n ai m i
      using t' by blast
    show ?thesis
      by (auto simp: Cons skip_depth.simps(2) assertInputAvailable_def readByte_def Let_def bindE_eq_Inl dest: x
          split: if_splits) 
  qed (simp add: skip_depth.simps(2) assertInputAvailable_def depth_exn_def)
qed simp

text \<open>What \<open>skip\<close> leaves is the end of what it was given.\<close>

lemma consume_suffix: "consume n inp = Inr r \<Longrightarrow> \<exists>bs. inp = bs @ r"
  by (auto simp: consume_def assertInputAvailable_def intro: exI [of _ "take n inp"])

lemma be_read_suffix: "be_read n acc inp = Inr (v, r) \<Longrightarrow> \<exists>bs. inp = bs @ r"
proof (induction n arbitrary: acc inp)
  case (Suc n)
  then obtain b i where i: "inp = b # i" "be_read n (acc OR push_bit (8 * n) (ucast b)) i = Inr (v, r)"
    by (cases inp) (auto simp: readByte_def)
  from Suc.IH [OF i(2)] obtain bs where "i = bs @ r" by blast
  then show ?case by (intro exI [of _ "b # bs"]) (simp add: i(1))
qed simp

lemma skip_read_size_suffix: "skip_read_size ai inp = Inr (n, r) \<Longrightarrow> \<exists>bs. inp = bs @ r"
  by (auto simp: skip_read_size_def split: if_splits dest!: consume_suffix be_read_suffix)

lemma skip_times_suffix:
  assumes "\<And>inp r. f inp = Inr r \<Longrightarrow> \<exists>bs. inp = bs @ r"
  shows "skip_times f n inp = Inr r \<Longrightarrow> \<exists>bs. inp = bs @ r"
proof (induction n arbitrary: inp)
  case (Suc n)
  then obtain r' where "f inp = Inr r'" "skip_times f n r' = Inr r" by auto
  with assms Suc.IH obtain bs cs where "inp = bs @ r'" "r' = cs @ r" by blast
  then show ?case by (intro exI [of _ "bs @ cs"]) simp
qed simp

lemma skip_depth_suffix: "skip_depth d inp = Inr r \<Longrightarrow> \<exists>bs. inp = bs @ r"
proof (induction d arbitrary: inp r)
  case (Suc d)
  obtain b inp' where inp: "inp = b # inp'"
    using Suc.prems by (cases inp) (auto simp: skip_depth.simps(2) assertInputAvailable_def)
  have t: "skip_times (skip_depth d) n i = Inr r' \<Longrightarrow> \<exists>bs. i = bs @ r'" for n i r'
    using skip_times_suffix [of "skip_depth d"] Suc.IH by metis
  have "\<exists>bs. inp' = bs @ r" using Suc.prems
    by (auto simp: inp skip_depth.simps(2) assertInputAvailable_def readByte_def Let_def split: if_splits
        dest!: consume_suffix skip_read_size_suffix t)
  then show ?case by (metis inp append_Cons)
qed simp

text \<open>
  The ways in which \<open>skip\<close> ends: having consumed something, for want of data, with a head it does
  not support, or by reading the bytes of a size from behind the end of the input, which \<open>read_size\<close>
  does not check. After the last of these the code goes on with whatever it finds there.
\<close>

definition skip_outcome :: "bytes \<Rightarrow> bytes result \<Rightarrow> bool" where
  "skip_outcome inp res \<longleftrightarrow>
     (\<exists>bs r. res = Inr r \<and> bs \<noteq> [] \<and> inp = bs @ r)
     \<or> res = Inl (RuntimeError ''out of data'')
     \<or> res = throwException ''encountered unsupported additional information value''
     \<or> res = Inl (UndefinedBehaviour ''read past the end of the input'')"

definition skip_errors :: "exn set" where
  "skip_errors = {RuntimeError ''out of data'', UndefinedBehaviour ''read past the end of the input'',
     UndefinedBehaviour (''hexdump reads behind the end of the input: ''
       @ ''encountered unsupported additional information value''), depth_exn}"

lemma step_errors:
  "consume n inp = Inl e \<Longrightarrow> e \<in> skip_errors" "skip_get_num_bytes ai = Inl e \<Longrightarrow> e \<in> skip_errors"
  "be_read n acc inp = Inl e \<Longrightarrow> e \<in> skip_errors" "skip_read_size ai inp = Inl e \<Longrightarrow> e \<in> skip_errors"
proof -
  show c: "consume n inp = Inl e \<Longrightarrow> e \<in> skip_errors" for n inp
    by (auto simp: consume_def assertInputAvailable_def assertE_def skip_errors_def split: if_splits)
  show g: "skip_get_num_bytes ai = Inl e \<Longrightarrow> e \<in> skip_errors"
    by (auto simp: skip_get_num_bytes_def throwException_def skip_errors_def split: if_splits)
  show b: "be_read n acc inp = Inl e \<Longrightarrow> e \<in> skip_errors" for n acc inp
  proof (induction n arbitrary: acc inp)
    case (Suc n)
    then show ?case by (cases inp) (auto simp: readByte_def skip_errors_def)
  qed simp
  show "skip_read_size ai inp = Inl e \<Longrightarrow> e \<in> skip_errors"
    using c g b by (auto simp: skip_read_size_def bindE_eq_Inl split: if_splits)
qed

lemma skip_times_errors:
  assumes "\<And>inp e. f inp = Inl e \<Longrightarrow> e \<in> skip_errors"
  shows "skip_times f n inp = Inl e \<Longrightarrow> e \<in> skip_errors"
  using assms by (induction n arbitrary: inp) (auto simp: bindE_eq_Inl)

lemma skip_depth_errors: "skip_depth d inp = Inl e \<Longrightarrow> e \<in> skip_errors"
proof (induction d arbitrary: inp e)
  case (Suc d)
  have t: "skip_times (skip_depth d) n i = Inl e' \<Longrightarrow> e' \<in> skip_errors" for n i e'
    using skip_times_errors [of "skip_depth d"] Suc.IH by blast
  show ?case
  proof (cases inp)
    case Nil
    then show ?thesis using Suc.prems
      by (simp add: skip_depth.simps(2) assertInputAvailable_def assertE_def skip_errors_def)
  next
    case (Cons b r)
    then show ?thesis using Suc.prems step_errors t
      by (auto simp: skip_depth.simps(2) assertInputAvailable_def readByte_def Let_def bindE_eq_Inl split: if_splits)
  qed
qed (simp add: skip_errors_def depth_exn_def)

text \<open>C15: Skipping needs no deeper recursion than the input is long, on any input, and ends in one of
  four ways: it has consumed at least one byte and leaves the rest, it reports missing data,
  it rejects a head it does not support, or it has read the bytes of a size from behind the
  end of the input, which the code does not check. Of what the code does after such a read,
  and in the hexdump of a rejection, nothing is claimed: both are undefined.\<close>

theorem skip_outcomes:
  "skip_outcome inp (skip inp) \<and> (\<forall>d > length inp. skip_depth d inp = skip inp)"
proof
  show "skip_outcome inp (skip inp)"
  proof (cases "skip inp")
    case (Inl e)
    then have "e \<in> skip_errors" "e \<noteq> depth_exn"
      using skip_depth_errors skip_depth_reached [of inp "Suc (length inp)"] by (auto simp: skip_def)
    then show ?thesis by (auto simp: Inl skip_outcome_def skip_errors_def throwException_def)
  next
    case (Inr r)
    then obtain bs where "inp = bs @ r" using skip_depth_suffix unfolding skip_def by blast
    moreover have "length r < length inp" using Inr skip_depth_length by (auto simp: skip_def)
    ultimately have "bs \<noteq> [] \<and> inp = bs @ r" by auto
    then show ?thesis unfolding Inr skip_outcome_def by blast
  qed
  show "\<forall>d > length inp. skip_depth d inp = skip inp"
    by (auto simp: skip_def intro: skip_depth_enough)
qed

lemma skip_outcomes_witness:
  "skip_outcome [MT_TextString, 7] (skip [MT_TextString, 7]) \<and> skip_depth 9 [MT_TextString, 7] = skip [MT_TextString, 7]"
  using skip_outcomes [of "[MT_TextString, 7]"] by simp

text \<open>
  The reads that check what they need. Whatever the input is, they consume something, report
  missing data, or reject what is there, in which case only the hexdump of the message looks behind
  the end of the input.
\<close>

definition bounded_read :: "bytes \<Rightarrow> ('a \<times> bytes) result \<Rightarrow> bool" where
  "bounded_read inp res \<longleftrightarrow>
     (\<exists>x bs r. res = Inr (x, r) \<and> bs \<noteq> [] \<and> inp = bs @ r)
     \<or> res = Inl (RuntimeError ''out of data'')
     \<or> (\<exists>msg. res = throwException msg \<and> inp \<noteq> [])"

lemma bounded_cases:
  assumes "bounded_read inp res"
  obtains (read) x bs r where "res = Inr (x, r)" "bs \<noteq> []" "inp = bs @ r"
    | (missing) "res = Inl (RuntimeError ''out of data'')"
    | (rejected) msg where "res = throwException msg" "inp \<noteq> []"
  using assms by (auto simp: bounded_read_def)

text \<open>A bounded read goes on with steps that stay within what it has left.\<close>

lemma bounded_bindE:
  assumes "bounded_read inp m"
    and "\<And>x bs r. m = Inr (x, r) \<Longrightarrow> bs \<noteq> [] \<Longrightarrow> inp = bs @ r \<Longrightarrow> bounded_read inp (f (x, r))"
  shows "bounded_read inp (bindE m f)"
  using assms(1)
proof (cases rule: bounded_cases)
  case (read x bs r)
  then show ?thesis using assms(2) by simp
qed (simp_all add: bounded_read_def throwException_def)

lemma readInitialByte_bounded: "bounded_read inp (readInitialByte mt k inp)"
  by (cases inp) (auto simp: bounded_read_def readInitialByte_def assertInputAvailable_def readByte_def Let_def assertE_def)

lemma readInitialByte_room: "readInitialByte mt k inp = Inr ((n, ai), r) \<Longrightarrow> n \<le> length r"
  by (cases inp) (auto simp: readInitialByte_def assertInputAvailable_def readByte_def Let_def assertE_def
      throwException_def split: if_splits)

lemma bounded_Inr:
  assumes "inp = bs @ r" "bs \<noteq> []"
  shows "bounded_read inp (Inr (x, r))" "bounded_read inp (Inr (y, drop n r))"
proof -
  have b: "bounded_read inp (Inr (x, r))" if "inp = bs @ r" "bs \<noteq> []" for bs r x
    using that by (auto simp: bounded_read_def)
  show "bounded_read inp (Inr (x, r))" using assms by (rule b)
  show "bounded_read inp (Inr (y, drop n r))" using b [of "bs @ take n r" "drop n r"] assms by simp
qed

lemma readHead_bounded: "bounded_read inp (readHead n mt inp)"
proof -
  have step: "bounded_read inp (if ai \<le> AI_MaxInplaceValue then Inr (ucast ai, r) else be_read k 0 r)"
    if read: "readInitialByte mt n inp = Inr ((k, ai), r)" "bs \<noteq> []" "inp = bs @ r" for k ai bs r
  proof -
    obtain v where "be_read k 0 r = Inr (v, drop k r)" using be_read_safe readInitialByte_room read(1) by blast
    then show ?thesis
      using bounded_Inr(1) [OF read(3,2), of "ucast ai :: 64 word"] bounded_Inr(2) [OF read(3,2), of v k] by simp
  qed
  show ?thesis unfolding readHead_def
  proof (rule bounded_bindE [OF readInitialByte_bounded])
    show "bounded_read inp ((\<lambda>((numBytes, additionalInformation), r).
        if additionalInformation \<le> AI_MaxInplaceValue then Inr (ucast additionalInformation, r) else be_read numBytes 0 r) (x, r))"
      if "readInitialByte mt n inp = Inr (x, r)" "bs \<noteq> []" "inp = bs @ r" for x bs r
      using that step [of "fst x" "snd x" r bs] by (cases "snd x \<le> AI_MaxInplaceValue") (simp_all add: split_def)
  qed
qed

lemma readHeadExact_bounded: "bounded_read inp (readHeadExact h inp)"
  by (cases inp) (auto simp: bounded_read_def readHeadExact_def assertInputAvailable_def readByte_def assertE_def)

lemma read_bool_bounded: "bounded_read inp (read_bool inp)"
  unfolding read_bool_def
  by (rule bounded_bindE [OF readHead_bounded]) (auto simp: bounded_read_def)

lemma read_bytes_bounded: "bounded_read inp (read_bytes n inp)"
  unfolding read_bytes_def
proof (rule bounded_bindE [OF readHead_bounded])
  fix size bs r assume read: "bs \<noteq> []" "inp = bs @ r"
  have "bounded_read inp (Inr (take n r, drop n r))" using read(2,1) by (rule bounded_Inr)
  then show "bounded_read inp (case (size, r) of (size, r) \<Rightarrow>
      if unat size \<noteq> n then throwException ''byte string size does not match size''
      else bindE (assertInputAvailable n r) (\<lambda>_. readBytes (unat size) r))"
    using read by (auto simp: bounded_read_def assertInputAvailable_def assertE_def readBytes_def)
qed

lemma read_string_bounded: "bounded_read inp (read_string inp)"
  unfolding read_string_def
proof (rule bounded_bindE [OF readHead_bounded])
  fix size bs r assume read: "bs \<noteq> []" "inp = bs @ r"
  have "bounded_read inp (Inr (x, drop (unat size) r))" for x :: string using read(2,1) by (rule bounded_Inr)
  then show "bounded_read inp (case (size, r) of (size, r) \<Rightarrow> bindE (assertInputAvailable (unat size) r) (\<lambda>_.
      bindE (readBytes (unat size) r) (\<lambda>(bs, r'). Inr (List.map (\<lambda>b. char_of (unat b)) bs, r'))))"
    by (auto simp: assertInputAvailable_def assertE_def readBytes_def) (simp add: bounded_read_def)
qed

lemmas bounded_facts = readHead_bounded readHeadExact_bounded read_bool_bounded read_bytes_bounded read_string_bounded

text \<open>C18: Whatever the input is, reading an unsigned integer, a bool, a byte string, a string or an
  array or map head either consumes at least one byte and leaves the rest of the input, or
  reports missing data, or rejects what is there. Only a rejection looks behind the end of the
  input, by one byte, when it makes the hexdump for its message.\<close>

theorem checked_reads_bounded:
  "bounded_read inp (read_uint n inp) \<and> bounded_read inp (read_bool inp)
   \<and> bounded_read inp (read_bytes k inp) \<and> bounded_read inp (read_string inp)
   \<and> bounded_read inp (readArraySize inp) \<and> bounded_read inp (readMapSize inp)
   \<and> bounded_read inp (readArrayBegin inp) \<and> bounded_read inp (readArrayEnd inp)
   \<and> bounded_read inp (readMapBegin inp) \<and> bounded_read inp (readMapEnd inp)"
  by (simp add: bounded_facts read_uint_def readArraySize_def readMapSize_def
      readArrayBegin_def readArrayEnd_def readMapBegin_def readMapEnd_def)

text \<open>Reading a signed integer from an empty input, a floating-point value from the encoding of a
  bool, and skipping a string whose size is missing read behind the end of the input.\<close>

theorem unchecked_reads:
  "is_ub (read_sint n []) \<and> is_ub (read_float32 [MT_SimpleOrFloat OR SV_True])
   \<and> is_ub (read_float64 [MT_SimpleOrFloat OR SV_True])
   \<and> is_ub (skip [MT_TextString OR AI_FollowingBytes1])"
proof -
  have b: "be_read 4 0 [] = Inl (UndefinedBehaviour ''read past the end of the input'')"
    "be_read 1 0 [] = Inl (UndefinedBehaviour ''read past the end of the input'')"
    by (simp_all add: numeral_eq_Suc readByte_def)
  have i: "readInitialByte MT_SimpleOrFloat k [MT_SimpleOrFloat OR SV_True] = Inr ((0, 21), [])" for k
    using readInitialByte_inplace [of MT_SimpleOrFloat 21 k "[]"] by (simp add: SV_True_def)
  have h: "(MT_TextString OR 24) AND MT_Mask = MT_TextString" "(MT_TextString OR 24) AND AI_Mask = 24"
    using head_byte [of MT_TextString 24] by simp_all
  have "skip [MT_TextString OR AI_FollowingBytes1] = Inl (UndefinedBehaviour ''read past the end of the input'')"
    using b(2) by (simp add: skip_unfold AI_FollowingBytes1_def h Let_def)
      (simp add: cbor_constants skip_read_size_def skip_get_num_bytes_def)
  then show ?thesis by (simp add: read_sint_def read_float32_def read_float64_def i b)
qed

text \<open>What the writer puts for the begin of an indefinite map is rejected by the reader, unlike
  the other three indefinite heads.\<close>

theorem map_begin_not_read:
  "readMapBegin (writeMapBegin @ rest) = throwException ''encountered unexpected head''
   \<and> readArrayBegin (writeArrayBegin @ rest) = Inr (MT_IndefiniteArray, rest)
   \<and> readArrayEnd (writeArrayEnd @ rest) = Inr (MT_IndefiniteArrayBreak, rest)
   \<and> readMapEnd (writeMapEnd @ rest) = Inr (MT_IndefiniteMapBreak, rest)"
proof -
  have "MT_IndefiniteMap \<noteq> MT_IndefiniteMapBreak" by (simp add: cbor_constants)
  then show ?thesis
    by (simp add: readMapBegin_def writeMapBegin_def readArrayBegin_def writeArrayBegin_def readArrayEnd_def
        writeArrayEnd_def readMapEnd_def writeMapEnd_def readHeadExact_def assertInputAvailable_def readByte_def)
qed

text \<open>Skipping a serialised value whose strings, vectors and structs have at most 23 elements
  consumes exactly the bytes of the value.\<close>

theorem skip_small_values:
  assumes "wf_descr d" "val_ok d v" "small_sizes d v" "write_val d v = Inr bs"
  shows "skip (bs @ rest) = Inr rest"
  using assms skip_written(1) by blast

lemma skip_small_values_witness:
  "\<exists>bs. write_val (Fundamental T_string) (VString ''text'') = Inr bs \<and> skip (bs @ [1, 2]) = Inr [1, 2]"
  using skip_small_values [of "Fundamental T_string" "VString ''text''" "write_fund (VString ''text'')" "[1, 2]"]
  by simp

text \<open>Skipping a string of 24 characters or more consumes one, two, four or eight bytes of what
  follows it.\<close>

theorem skip_long_strings:
  assumes "24 \<le> length s" "length s < 2 ^ 64"
  shows "\<exists>n. n \<in> {1, 2, 4, 8} \<and> (\<forall>rest. skip (write_string s @ rest) = consume n rest)"
proof -
  have "unat (of_nat (length s) :: 64 word) = length s"
    using assms(2) by (simp add: unat_of_nat take_bit_nat_eq_self)
  then obtain e where "e \<le> 3" "length (writeHead MT_TextString (of_nat (length s))) = Suc (2 ^ e)"
    using assms(1) by (cases rule: writeHead_cases [of "of_nat (length s)" MT_TextString]) auto
  then have "length (write_string s) - length s - 1 = 2 ^ e" "e \<in> {0, 1, 2, 3}"
    by (auto simp: write_string_def)
  then show ?thesis
    using skip_string_write [OF assms(2)] by (intro exI [of _ "2 ^ e"]) auto
qed

lemma skip_long_strings_witness:
  "\<exists>n. n \<in> {1, 2, 4, 8} \<and> (\<forall>rest. skip (write_string (replicate 24 CHR ''a'') @ rest) = consume n rest)"
  by (rule skip_long_strings) simp_all

end
