(* ===== verification/Cbor_Typing.thy ===== *)
theory Cbor_Typing
  imports Cbor_Skip
begin

text \<open>
  What an arbitrary input can do to an instance: a deserialisation that succeeds has read something
  and keeps the instance well typed.
\<close>

section \<open>How much is read\<close>

lemma readHead_length: "readHead n mt inp = Inr (v, r) \<Longrightarrow> length r < length inp"
  by (auto simp: readHead_def readInitialByte_def readByte_def assertInputAvailable_def Let_def
      split: list.splits if_splits dest: be_read_length)

lemma readBytes_length: "readBytes n inp = Inr (bs, r) \<Longrightarrow> length bs = n \<and> length r \<le> length inp"
  by (auto simp: readBytes_def split: if_splits)

lemma mapR_Inr: "mapR f x = Inr (v, r) \<longleftrightarrow> (\<exists>w. x = Inr (w, r) \<and> v = f w)"
  by (cases x) auto


lemma readInitialByte_length: "readInitialByte mt n inp = Inr (x, r) \<Longrightarrow> length r < length inp"
  by (auto simp: readInitialByte_def readByte_def assertInputAvailable_def Let_def split: list.splits if_splits)

lemma read_half_length: "read_half inp = Inr (v, r) \<Longrightarrow> length r \<le> length inp"
  by (auto simp: read_half_def dest: be_read_length)

lemma read_float_length:
  "read_float32 inp = Inr (v, r) \<Longrightarrow> length r < length inp"
  "read_float64 inp = Inr (w, r) \<Longrightarrow> length r < length inp"
  by (auto simp: read_float32_def read_float64_def split: if_splits
      dest!: readInitialByte_length be_read_length readBytes_length read_half_length)

lemma read_scalar_length:
  "read_uint n inp = Inr (u, r) \<Longrightarrow> length r < length inp"
  "read_sint n inp = Inr (u, r) \<Longrightarrow> length r < length inp"
  "read_bool inp = Inr (b, r) \<Longrightarrow> length r < length inp"
  "read_string inp = Inr (s, r) \<Longrightarrow> length r < length inp"
  "read_bytes n inp = Inr (bs, r) \<Longrightarrow> length r < length inp \<and> length bs = n"
  by (auto simp: read_uint_def read_sint_def read_bool_def read_string_def read_bytes_def
      split: list.splits if_splits dest!: readHead_length readBytes_length)

lemma read_fund_typed: "read_fund t inp = Inr (v, r) \<Longrightarrow> fund_ok t v \<and> length r < length inp"
  by (cases t) (auto simp: read_fund_def mapR_Inr dest: read_scalar_length read_float_length)

lemma iterE_invariant:
  assumes "\<And>s s'. P s \<Longrightarrow> f s = Inr s' \<Longrightarrow> P s'"
  shows "P s \<Longrightarrow> iterE f n s = Inr s' \<Longrightarrow> P s'"
  using assms by (induction n arbitrary: s) auto

lemma read_times_all:
  assumes "\<And>inp x r. f inp = Inr (x, r) \<Longrightarrow> P x \<and> length r < length inp"
  shows "read_times f n inp = Inr (xs, r) \<Longrightarrow> list_all P xs \<and> length r \<le> length inp"
proof (induction n arbitrary: inp xs)
  case (Suc n)
  then obtain x r1 ys where 1: "f inp = Inr (x, r1)" "read_times f n r1 = Inr (ys, r)" "xs = x # ys" by auto
  then show ?case using assms [OF 1(1)] Suc.IH [OF 1(2)] by simp
qed simp

lemma read_times_shorter:
  assumes "\<And>inp x r. f inp = Inr (x, r) \<Longrightarrow> length r < length inp"
  shows "read_times f n inp = Inr (xs, r) \<Longrightarrow> length r \<le> length inp"
  using read_times_all [of f "\<lambda>_. True"] assms by blast

lemma skip_shorter: "skip inp = Inr r \<Longrightarrow> length r < length inp"
  unfolding skip_def by (rule skip_depth_length)

lemma entry_shorter:
  assumes val: "\<And>t r i p a1 old v r'. read_uint 4 inp = Inr (t, r) \<Longrightarrow> find_property (ucast t) ps = Some (i, p) \<Longrightarrow>
      ps_le (pd_set p) inc \<Longrightarrow> valueOrEmplace i p (default_val (valueDescriptor p)) a = Inr a1 \<Longrightarrow> read_slot i a1 = Inr old \<Longrightarrow>
      read_val (valueDescriptor p) old r = Inr (v, r') \<Longrightarrow> length r' < length r"
    and run: "read_entry ps inc (a, inp) = Inr (a', rest)"
  shows "length rest < length inp"
proof -
  obtain t r where t: "read_uint 4 inp = Inr (t, r)" using run by auto
  have "length rest < length r"
    using run t val by (auto simp del: ps_le_iff split: option.splits if_splits dest: skip_shorter)
  then show ?thesis using read_scalar_length(1) [OF t] by simp
qed

lemma read_shorter:
  "read_val d old inp = Inr (v, r) \<Longrightarrow> length r < length inp"
  "read_entry ps inc s = Inr s' \<Longrightarrow> length (snd s') < length (snd s)"
proof (induction d old inp and ps inc s arbitrary: v r and s' rule: read_val_read_entry.induct)
  case (1 t old inp)
  then show ?case using read_fund_typed by simp
next
  case (2 m es old inp)
  then show ?case by (auto dest!: read_scalar_length(1))
next
  case (3 d old inp)
  then obtain k r1 xs where 1: "readArraySize inp = Inr (k, r1)" "read_times (read_val d (default_val d)) (unat k) r1 = Inr (xs, r)"
    by (auto simp: mapR_Inr)
  have "length r \<le> length r1" by (rule read_times_shorter [OF _ 1(2)]) (use 3(1) [OF 1(1) refl] in blast)
  then show ?case using 1 readHead_length [of 8 MT_Array inp k r1] by (simp add: readArraySize_def)
next
  case (4 m fl ps old inp)
  obtain k r1 a where 1: "readMapSize inp = Inr (k, r1)" "iterE (read_entry ps ps_All) (unat k) (area_of old, r1) = Inr (a, r)"
    using 4(2) by (auto simp: mapR_Inr)
  have "length (snd (a, r)) \<le> length r1"
    by (rule iterE_invariant [where P = "\<lambda>s. length (snd s) \<le> length r1", OF _ _ 1(2)]) (use 4(1) [OF 1(1) refl] in fastforce)+
  then show ?case using 1 readHead_length [of 8 MT_Map inp k r1] by (simp add: readMapSize_def)
next
  case (5 ps inc a inp)
  obtain a' rest where s': "s' = (a', rest)" by (cases s')
  have "length rest < length inp"
    by (rule entry_shorter [OF _ 5(2) [unfolded s']]) (rule 5(1) [OF _ refl _ refl], assumption+)
  then show ?case by (simp add: s')
qed

lemma deserialize_shorter: "deserialize ps inc a inp = Inr (a', r) \<Longrightarrow> length r < length inp"
proof -
  assume "deserialize ps inc a inp = Inr (a', r)"
  then obtain k r1 where r: "readMapSize inp = Inr (k, r1)" "iterE (read_entry ps inc) (unat k) (a, r1) = Inr (a', r)"
    by (auto simp: deserialize_def split: if_splits)
  have "length (snd (a', r)) \<le> length r1"
    by (rule iterE_invariant [where P = "\<lambda>s. length (snd s) \<le> length r1", OF _ _ r(2)]) (use read_shorter(2) in fastforce)+
  then show ?thesis using readHead_length [of 8 MT_Map inp k r1] r(1) by (simp add: readMapSize_def)
qed

section \<open>What is read\<close>

definition typed :: "pdesc list \<Rightarrow> area \<times> bytes \<Rightarrow> bool" where
  "typed ps s \<longleftrightarrow> wf_area ps (fst s) \<and> slots_ok ps (slots (fst s))"

lemma slots_ok_nth: "slots_ok ps xs \<longleftrightarrow> length xs = length ps
    \<and> (\<forall>i < length ps. \<forall>v. xs ! i = Some v \<longrightarrow> val_ok (valueDescriptor (ps ! i)) v)"
proof (induction ps arbitrary: xs)
  case (Cons p ps)
  then show ?case by (cases p; cases xs) (auto simp: All_less_Suc2 split: option.split)
qed simp

lemma wf_props_nth: "wf_props ps \<Longrightarrow> i < length ps \<Longrightarrow> wf_descr (valueDescriptor (ps ! i))"
proof (induction ps arbitrary: i)
  case (Cons p ps)
  then show ?case by (cases p; cases i) auto
qed simp

lemma entry_typed:
  assumes "wf_tags ps" "wf_props ps" "typed ps (a, inp)"
    and val: "\<And>t r i a1 old v r'. read_uint 4 inp = Inr (t, r) \<Longrightarrow> find_property (ucast t) ps = Some (i, ps ! i) \<Longrightarrow> i < length ps \<Longrightarrow>
      ps_le (pd_set (ps ! i)) inc \<Longrightarrow> valueOrEmplace i (ps ! i) (default_val (valueDescriptor (ps ! i))) a = Inr a1 \<Longrightarrow>
      read_slot i a1 = Inr old \<Longrightarrow> val_ok (valueDescriptor (ps ! i)) old \<Longrightarrow> read_val (valueDescriptor (ps ! i)) old r = Inr (v, r') \<Longrightarrow>
      val_ok (valueDescriptor (ps ! i)) v"
    and run: "read_entry ps inc (a, inp) = Inr (a', rest)"
  shows "typed ps (a', rest)"
proof -
  obtain xs where a: "length xs = length ps" "a = mk_area ps xs" "slots_ok ps xs"
    using assms(1,3) by (auto simp: typed_def elim: wf_areaE)
  obtain t r where t: "read_uint 4 inp = Inr (t, r)" using run by auto
  have skipped: ?thesis if "bindE (skip r) (\<lambda>r'. Inr (a, r')) = Inr (a', rest)"
  proof -
    have "skip r = Inr rest" "a' = a" using that by auto
    then show ?thesis using assms(3) by (simp add: typed_def)
  qed
  show ?thesis
  proof (cases "find_property (ucast t) ps")
    case None
    then show ?thesis using skipped run t by simp
  next
    case (Some ip)
    obtain i p where ip: "ip = (i, p)" by (cases ip)
    have i: "i < length ps" "p = ps ! i" using find_property_Some [OF Some [unfolded ip]] by auto
    show ?thesis
    proof (cases "ps_le (pd_set p) inc")
      case False
      then show ?thesis using skipped run t Some ip by (simp del: ps_le_iff)
    next
      case True
      let ?old = "case xs ! i of None \<Rightarrow> default_val (valueDescriptor (ps ! i)) | Some w \<Rightarrow> w"
      obtain v where v: "read_val (valueDescriptor (ps ! i)) ?old r = Inr (v, rest)" "a' = mk_area ps (xs[i := Some v])"
        using run t Some ip True i a(1,2) assms(1) by (auto simp del: ps_le_iff)
      have "val_ok (valueDescriptor (ps ! i)) ?old"
        using a(3) i(1) default_val_ok wf_props_nth [OF assms(2) i(1)] by (auto simp: slots_ok_nth split: option.split)
      from val [OF t _ i(1) _ _ _ this v(1)] have "val_ok (valueDescriptor (ps ! i)) v"
        using Some ip True i a(1,2) assms(1) by (simp del: ps_le_iff)
      moreover from this have "val_ok (valueDescriptor (ps ! j)) w" if "j < length ps" "xs[i := Some v] ! j = Some w" for j w
        using that a(1,3) by (cases "j = i") (auto simp: slots_ok_nth)
      then have "slots_ok ps (xs[i := Some v])" using a(1) by (simp add: slots_ok_nth)
      ultimately show ?thesis using a(1) v(2) assms(1,3)
        by (simp add: typed_def)
    qed
  qed
qed

lemma read_typed:
  "wf_descr d \<Longrightarrow> val_ok d old \<Longrightarrow> read_val d old inp = Inr (v, r) \<Longrightarrow> val_ok d v"
  "wf_tags ps \<Longrightarrow> wf_props ps \<Longrightarrow> typed ps s \<Longrightarrow> read_entry ps inc s = Inr s' \<Longrightarrow> typed ps s'"
proof (induction d old inp and ps inc s arbitrary: v r and s' rule: read_val_read_entry.induct)
  case (1 t old inp)
  then show ?case using read_fund_typed by simp
next
  case (2 m es old inp)
  then show ?case by (auto dest!: read_scalar_length(1))
next
  case (3 d old inp)
  then obtain k r1 xs where 1: "readArraySize inp = Inr (k, r1)" "read_times (read_val d (default_val d)) (unat k) r1 = Inr (xs, r)"
    "v = VVector xs" by (auto simp: mapR_Inr)
  have "list_all (val_ok d) xs \<and> length r \<le> length r1"
    by (rule read_times_all [OF _ 1(2)]) (use 3(1) [OF 1(1) refl] 3(2) default_val_ok read_shorter(1) in auto)
  then show ?case using 1 by simp
next
  case (4 m fl ps old inp)
  obtain k r1 a where 1: "readMapSize inp = Inr (k, r1)" "iterE (read_entry ps ps_All) (unat k) (area_of old, r1) = Inr (a, r)"
    "v = VStruct a" using 4(4) by (auto simp: mapR_Inr)
  have start: "typed ps (area_of old, r1)" using 4(3) by (auto simp: typed_def split: val.splits)
  have "typed ps (a, r)"
    by (rule iterE_invariant [where P = "typed ps", OF _ start 1(2)]) (use 4(1) [OF 1(1) refl] 4(2) in auto)
  then show ?case using 1 by (simp add: typed_def)
next
  case (5 ps inc a inp)
  obtain a' rest where s': "s' = (a', rest)" by (cases s')
  have "typed ps (a', rest)"
    by (rule entry_typed [OF 5(2-4) _ 5(5) [unfolded s']]) (rule 5(1) [OF _ refl _ refl], assumption+, use wf_props_nth [OF 5(3)] in blast, assumption+)
  then show ?case by (simp add: s')
qed

text \<open>C12: Whatever the input is, a deserialisation that succeeds leaves the instance well typed: its
  storage holds an object exactly for the properties that are valid, and each object has the
  type of its property; and it has read at least one byte.\<close>

theorem deserialize_well_typed:
  assumes "wf_tags ps" "wf_props ps" "wf_area ps a" "slots_ok ps (slots a)" "deserialize ps inc a inp = Inr (a', rest)"
  shows "wf_area ps a' \<and> slots_ok ps (slots a') \<and> length rest < length inp"
proof -
  obtain k r where r: "readMapSize inp = Inr (k, r)" "iterE (read_entry ps inc) (unat k) (a, r) = Inr (a', rest)"
    using assms(5) by (auto simp: deserialize_def split: if_splits)
  have start: "typed ps (a, r)" using assms(3,4) by (simp add: typed_def)
  have "typed ps (a', rest)"
    by (rule iterE_invariant [where P = "typed ps", OF _ start r(2)]) (use read_typed(2) assms(1,2) in blast)
  then show ?thesis using deserialize_shorter [OF assms(5)] by (simp add: typed_def)
qed


lemma example_bytes:
  "deserialize example_props ps_All (example_area None None None) [0xA1, 0x01, 0x05] = Inr (example_area (Some 5) None None, [])"
  by code_simp

lemma deserialize_well_typed_witness:
  "wf_area example_props (example_area (Some 5) None None) \<and> length ([] :: bytes) < 3"
  using deserialize_well_typed [OF example_wf_tags example_wf_props example_wf_area _ example_bytes]
    example_slots_ok [of None None None] by simp

end
