(* ===== verification/Key_Order.thy ===== *)
theory Key_Order
  imports Struct_Facts
begin

text \<open>
  The contract of a comparison that orders the keys of a \<open>std::map\<close>, and the proof that the
  descriptors' \<open>less\<close> meets it, with \<open>equal\<close> as its equivalence. The contract holds for the values
  without a \<open>NaN\<close> and without a property set in them: \<open>less\<close> on property sets is inclusion,
  which is no weak order.
\<close>

section \<open>Strict weak orders\<close>

locale weak_order =
  fixes C :: "'a set" and lt :: "'a \<Rightarrow> 'a \<Rightarrow> bool" and eq :: "'a \<Rightarrow> 'a \<Rightarrow> bool"
  assumes asym: "a \<in> C \<Longrightarrow> b \<in> C \<Longrightarrow> lt a b \<Longrightarrow> \<not> lt b a"
    and cotrans: "a \<in> C \<Longrightarrow> b \<in> C \<Longrightarrow> c \<in> C \<Longrightarrow> lt a c \<Longrightarrow> lt a b \<or> lt b c"
    and eq_iff: "a \<in> C \<Longrightarrow> b \<in> C \<Longrightarrow> eq a b \<longleftrightarrow> \<not> lt a b \<and> \<not> lt b a"
begin

lemma irrefl: "a \<in> C \<Longrightarrow> \<not> lt a a"
  using asym by blast

lemma trans: "a \<in> C \<Longrightarrow> b \<in> C \<Longrightarrow> c \<in> C \<Longrightarrow> lt a b \<Longrightarrow> lt b c \<Longrightarrow> lt a c"
  using asym cotrans by blast

lemma eq_refl: "a \<in> C \<Longrightarrow> eq a a"
  using irrefl by (simp add: eq_iff)

lemma eq_sym: "a \<in> C \<Longrightarrow> b \<in> C \<Longrightarrow> eq a b \<Longrightarrow> eq b a"
  by (simp add: eq_iff)

lemma eq_trans: "a \<in> C \<Longrightarrow> b \<in> C \<Longrightarrow> c \<in> C \<Longrightarrow> eq a b \<Longrightarrow> eq b c \<Longrightarrow> eq a c"
  using cotrans by (auto simp: eq_iff)

lemma eq_lt_trans: "a \<in> C \<Longrightarrow> b \<in> C \<Longrightarrow> c \<in> C \<Longrightarrow> eq a b \<Longrightarrow> lt b c \<Longrightarrow> lt a c"
  using cotrans by (auto simp: eq_iff)

lemma lt_eq_trans: "a \<in> C \<Longrightarrow> b \<in> C \<Longrightarrow> c \<in> C \<Longrightarrow> lt a b \<Longrightarrow> eq b c \<Longrightarrow> lt a c"
  using cotrans by (auto simp: eq_iff)

lemma trichotomy: "a \<in> C \<Longrightarrow> b \<in> C \<Longrightarrow> lt a b \<or> eq a b \<or> lt b a"
  by (auto simp: eq_iff)

end

text \<open>
  The same contract as a condition on one triple of values, which is what the inductions over the
  descriptors prove.
\<close>

definition ordered3 :: "('a \<Rightarrow> 'a \<Rightarrow> bool) \<Rightarrow> ('a \<Rightarrow> 'a \<Rightarrow> bool) \<Rightarrow> 'a \<Rightarrow> 'a \<Rightarrow> 'a \<Rightarrow> bool" where
  "ordered3 lt eq a b c \<longleftrightarrow>
     (lt a b \<longrightarrow> \<not> lt b a) \<and> (lt a c \<longrightarrow> lt a b \<or> lt b c) \<and> (eq a b \<longleftrightarrow> \<not> lt a b \<and> \<not> lt b a)"

definition ordered_on :: "('a \<Rightarrow> bool) \<Rightarrow> ('a \<Rightarrow> 'a \<Rightarrow> bool) \<Rightarrow> ('a \<Rightarrow> 'a \<Rightarrow> bool) \<Rightarrow> bool" where
  "ordered_on P lt eq \<longleftrightarrow> (\<forall>a b c. P a \<longrightarrow> P b \<longrightarrow> P c \<longrightarrow> ordered3 lt eq a b c)"

lemma ordered_onI:
  assumes "\<And>a b. P a \<Longrightarrow> P b \<Longrightarrow> lt a b \<Longrightarrow> \<not> lt b a"
    and "\<And>a b c. P a \<Longrightarrow> P b \<Longrightarrow> P c \<Longrightarrow> lt a c \<Longrightarrow> lt a b \<or> lt b c"
    and "\<And>a b. P a \<Longrightarrow> P b \<Longrightarrow> eq a b \<longleftrightarrow> \<not> lt a b \<and> \<not> lt b a"
  shows "ordered_on P lt eq"
  unfolding ordered_on_def ordered3_def using assms by blast

lemma ordered_onD:
  assumes "ordered_on P lt eq" "P a" "P b"
  shows "lt a b \<Longrightarrow> \<not> lt b a" "P c \<Longrightarrow> lt a c \<Longrightarrow> lt a b \<or> lt b c" "eq a b \<longleftrightarrow> \<not> lt a b \<and> \<not> lt b a"
  using assms unfolding ordered_on_def ordered3_def by blast+

lemma ordered_onE: "ordered_on P lt eq \<Longrightarrow> P a \<Longrightarrow> P b \<Longrightarrow> P c \<Longrightarrow> ordered3 lt eq a b c"
  by (simp add: ordered_on_def)

lemma ordered3_image:
  "ordered3 (\<lambda>u v. lt (f u) (f v)) (\<lambda>u v. eq (f u) (f v)) a b c \<longleftrightarrow> ordered3 lt eq (f a) (f b) (f c)"
  by (simp add: ordered3_def)

lemma weak_order_iff: "weak_order C lt eq \<longleftrightarrow> ordered_on (\<lambda>a. a \<in> C) lt eq"
  unfolding weak_order_def ordered_on_def ordered3_def by (intro iffI conjI) metis+

section \<open>Fundamental values\<close>

text \<open>An order by a key in a linear order, and its lexicographic extension to lists.\<close>

lemma ordered_on_key:
  fixes key :: "'a \<Rightarrow> 'k::linorder"
  assumes "\<And>a b. P a \<Longrightarrow> P b \<Longrightarrow> lt a b \<longleftrightarrow> key a < key b"
    and "\<And>a b. P a \<Longrightarrow> P b \<Longrightarrow> eq a b \<longleftrightarrow> key a = key b"
  shows "ordered_on P lt eq"
  using assms by (intro ordered_onI) auto

definition lex_pair :: "('a \<Rightarrow> 'a \<Rightarrow> bool) \<Rightarrow> ('a \<Rightarrow> 'a \<Rightarrow> bool) \<Rightarrow> 'a \<Rightarrow> 'a \<Rightarrow> bool" where
  "lex_pair lt r x y = (if lt x y then True else if lt y x then False else r x y)"

lemma lex_step:
  assumes "ordered3 lt eq a b c" "ordered3 lt eq b a c" "ordered3 lt eq a c b" "ordered3 lt eq c a b"
    "ordered3 lt eq b c a" "ordered3 lt eq c b a" and "ordered3 r e a b c"
  shows "ordered3 (lex_pair lt r) (\<lambda>x y. eq x y \<and> e x y) a b c"
proof -
  have asym: "lt a b \<Longrightarrow> \<not> lt b a" "lt a c \<Longrightarrow> \<not> lt c a" "lt b c \<Longrightarrow> \<not> lt c b"
    using assms(1,3,5) unfolding ordered3_def by blast+
  have cot: "lt a c \<Longrightarrow> lt a b \<or> lt b c" "lt c a \<Longrightarrow> lt c b \<or> lt b a" "lt a b \<Longrightarrow> lt a c \<or> lt c b"
    "lt b a \<Longrightarrow> lt b c \<or> lt c a" "lt b c \<Longrightarrow> lt b a \<or> lt a c" "lt c b \<Longrightarrow> lt c a \<or> lt a b"
    using assms(1-6) unfolding ordered3_def by blast+
  have r: "r a b \<Longrightarrow> \<not> r b a" "r a c \<Longrightarrow> r a b \<or> r b c" "e a b \<longleftrightarrow> \<not> r a b \<and> \<not> r b a"
    using assms(7) unfolding ordered3_def by blast+
  have eq: "eq a b \<longleftrightarrow> \<not> lt a b \<and> \<not> lt b a"
    using assms(1) unfolding ordered3_def by blast
  have "lex_pair lt r a b \<Longrightarrow> \<not> lex_pair lt r b a"
    using asym r(1) by (auto simp: lex_pair_def split: if_splits)
  moreover have "lex_pair lt r a c \<Longrightarrow> lex_pair lt r a b \<or> lex_pair lt r b c"
    unfolding lex_pair_def using asym cot r(2) by (cases "lt a c"; cases "lt a b"; cases "lt b c") (auto split: if_splits)
  moreover have "eq a b \<and> e a b \<longleftrightarrow> \<not> lex_pair lt r a b \<and> \<not> lex_pair lt r b a"
    unfolding lex_pair_def eq r(3) using asym(1) by auto
  ultimately show ?thesis unfolding ordered3_def by blast
qed

lemma lex_less_ordered:
  assumes "ordered_on P lt eq"
  shows "ordered_on (list_all P) (lex_less lt) (list_all2 eq)"
proof -
  have "ordered3 (lex_less lt) (list_all2 eq) xs ys zs"
    if "list_all P xs" "list_all P ys" "list_all P zs" for xs ys zs
    using that
  proof (induction xs arbitrary: ys zs)
    case Nil
    then show ?case by (cases ys; cases zs) (auto simp: ordered3_def)
  next
    case (Cons x xs)
    have nonempty: "ordered3 (lex_less lt) (list_all2 eq) (x # xs) (y # ys') (z # zs')"
      if "list_all P (y # ys')" "list_all P (z # zs')" for y ys' z zs'
    proof -
      have "ordered3 (lex_pair (\<lambda>u v. lt (fst u) (fst v)) (\<lambda>u v. lex_less lt (snd u) (snd v)))
          (\<lambda>u v. eq (fst u) (fst v) \<and> list_all2 eq (snd u) (snd v)) (x, xs) (y, ys') (z, zs')"
        using assms Cons.prems(1) that Cons.IH [of ys' zs']
        by (intro lex_step) (simp_all add: ordered3_image [of _ fst] ordered3_image [of _ snd] ordered_onE)
      then show ?thesis
        unfolding ordered3_def lex_pair_def fst_conv snd_conv lex_less.simps(3) list.rel_inject(2) .
    qed
    show ?case
    proof (cases ys)
      case Nil
      then show ?thesis by (cases zs) (simp_all add: ordered3_def)
    next
      case ys: (Cons y ys')
      show ?thesis
      proof (cases zs)
        case Nil
        have "ordered3 (lex_less lt) (list_all2 eq) (x # xs) (y # ys') (y # ys')"
          using Cons.prems ys by (intro nonempty) simp_all
        then show ?thesis unfolding ordered3_def ys Nil by simp
      next
        case zs: (Cons z zs')
        show ?thesis unfolding ys zs using Cons.prems by (intro nonempty) (simp_all add: ys zs)
      qed
    qed
  qed
  then show ?thesis by (simp add: ordered_on_def)
qed

text \<open>The values that \<open>less\<close> orders: no \<open>NaN\<close> and no property set.\<close>

definition fund_ordered :: "val \<Rightarrow> bool" where
  "fund_ordered v =
     (case v of
        VFloat32 w \<Rightarrow> \<not> f32_isnan w
      | VFloat64 w \<Rightarrow> \<not> f64_isnan w
      | VTimepoint w \<Rightarrow> \<not> f64_isnan w
      | VSteadyTimepoint w \<Rightarrow> \<not> f64_isnan w
      | VDuration w \<Rightarrow> \<not> f64_isnan w
      | VPropertySet _ \<Rightarrow> False
      | _ \<Rightarrow> True)"

text \<open>A key in a linear order for each of these values.\<close>

definition fund_key :: "val \<Rightarrow> int list" where
  "fund_key v =
     (case v of
        VBool b \<Rightarrow> [if b then 1 else 0]
      | VInt8 w \<Rightarrow> [sint w] | VUInt8 w \<Rightarrow> [uint w]
      | VInt16 w \<Rightarrow> [sint w] | VUInt16 w \<Rightarrow> [uint w]
      | VInt32 w \<Rightarrow> [sint w] | VUInt32 w \<Rightarrow> [uint w]
      | VInt64 w \<Rightarrow> [sint w] | VUInt64 w \<Rightarrow> [uint w]
      | VFloat32 w \<Rightarrow> [f32_key w] | VFloat64 w \<Rightarrow> [f64_key w]
      | VTimepoint w \<Rightarrow> [f64_key w] | VSteadyTimepoint w \<Rightarrow> [f64_key w] | VDuration w \<Rightarrow> [f64_key w]
      | VUuid bs \<Rightarrow> List.map uint bs
      | VString cs \<Rightarrow> List.map of_char cs
      | VEnum w \<Rightarrow> [sint w]
      | _ \<Rightarrow> [])"

lemma fund_ordered_simps [simp]:
  "fund_ordered (VBool a1) \<longleftrightarrow> True"
  "fund_ordered (VInt8 a2) \<longleftrightarrow> True"
  "fund_ordered (VUInt8 a3) \<longleftrightarrow> True"
  "fund_ordered (VInt16 a4) \<longleftrightarrow> True"
  "fund_ordered (VUInt16 a5) \<longleftrightarrow> True"
  "fund_ordered (VInt32 a6) \<longleftrightarrow> True"
  "fund_ordered (VUInt32 a7) \<longleftrightarrow> True"
  "fund_ordered (VInt64 a8) \<longleftrightarrow> True"
  "fund_ordered (VUInt64 a9) \<longleftrightarrow> True"
  "fund_ordered (VFloat32 a10) \<longleftrightarrow> \<not> f32_isnan a10"
  "fund_ordered (VFloat64 a11) \<longleftrightarrow> \<not> f64_isnan a11"
  "fund_ordered (VPropertySet a12) \<longleftrightarrow> False"
  "fund_ordered (VTimepoint a13) \<longleftrightarrow> \<not> f64_isnan a13"
  "fund_ordered (VSteadyTimepoint a14) \<longleftrightarrow> \<not> f64_isnan a14"
  "fund_ordered (VDuration a15) \<longleftrightarrow> \<not> f64_isnan a15"
  "fund_ordered (VUuid a16) \<longleftrightarrow> True"
  "fund_ordered (VString a17) \<longleftrightarrow> True"
  "fund_ordered (VEnum a18) \<longleftrightarrow> True"
  by (simp_all add: fund_ordered_def)

lemma fund_key_simps [simp]:
  "fund_key (VBool a1) = [if a1 then 1 else 0]"
  "fund_key (VInt8 a2) = [sint a2]"
  "fund_key (VUInt8 a3) = [uint a3]"
  "fund_key (VInt16 a4) = [sint a4]"
  "fund_key (VUInt16 a5) = [uint a5]"
  "fund_key (VInt32 a6) = [sint a6]"
  "fund_key (VUInt32 a7) = [uint a7]"
  "fund_key (VInt64 a8) = [sint a8]"
  "fund_key (VUInt64 a9) = [uint a9]"
  "fund_key (VFloat32 a10) = [f32_key a10]"
  "fund_key (VFloat64 a11) = [f64_key a11]"
  "fund_key (VPropertySet a12) = []"
  "fund_key (VTimepoint a13) = [f64_key a13]"
  "fund_key (VSteadyTimepoint a14) = [f64_key a14]"
  "fund_key (VDuration a15) = [f64_key a15]"
  "fund_key (VUuid a16) = List.map uint a16"
  "fund_key (VString a17) = List.map of_char a17"
  "fund_key (VEnum a18) = [sint a18]"
  by (simp_all add: fund_key_def)

lemma lex_less_key:
  assumes "\<And>a b. lt a b \<longleftrightarrow> (key a :: int) < key b"
  shows "lex_less lt xs ys \<longleftrightarrow> lex_less (<) (List.map key xs) (List.map key ys)"
  using assms by (induction lt xs ys rule: lex_less.induct) auto

lemma sint_less_iff: "[sint a] = [sint b] \<longleftrightarrow> a = b"
  using signed_word_eqI by auto




lemma lex_less_bytes: "lex_less (<) xs ys \<longleftrightarrow> lex_less (<) (List.map uint xs) (List.map uint (ys :: 8 word list))"
  by (rule lex_less_key) (simp add: word_less_def)

lemma lex_less_chars: "lex_less char_less xs ys \<longleftrightarrow> lex_less (<) (List.map of_char xs :: int list) (List.map of_char ys)"
proof (rule lex_less_key)
  fix a b show "char_less a b \<longleftrightarrow> (of_char a :: int) < of_char b"
    unfolding char_less_def of_nat_of_char [where 'a = int, symmetric] by simp
qed

lemma map_uint_eq: "List.map uint xs = List.map uint ys \<longleftrightarrow> xs = ys"
  by (rule inj_map_eq_map) (simp add: inj_def flip: word_uint_eq_iff)

lemma map_of_char_eq: "(List.map of_char xs :: int list) = List.map of_char ys \<longleftrightarrow> xs = ys"
  by (rule inj_map_eq_map) (simp add: inj_def)

lemma fund_key_less:
  assumes "fund_ok t v" "fund_ok t w" "fund_ordered v" "fund_ordered w"
  shows "fund_less v w \<longleftrightarrow> lex_less (<) (fund_key v) (fund_key w)"
  using assms
  by (cases t; cases v; simp_all)
    (cases w; simp add: word_less_def f32_less_def f64_less_def lex_less_bytes lex_less_chars; fail)+

lemma fund_key_equal:
  assumes "fund_ok t v" "fund_ok t w" "fund_ordered v" "fund_ordered w"
  shows "fund_equal v w \<longleftrightarrow> fund_key v = fund_key w"
  using assms
  by (cases t; cases v; simp_all)
    (cases w; simp add: sint_less_iff [simplified] word_uint_eq_iff f32_equal_def f64_equal_def map_uint_eq map_of_char_eq; fail)+

lemma ints_ordered: "ordered_on (\<lambda>_. True) (lex_less ((<) :: int \<Rightarrow> _)) (=)"
proof -
  have "ordered_on (\<lambda>_. True) ((<) :: int \<Rightarrow> _) (=)"
    by (rule ordered_on_key [where key = "\<lambda>i. i"]) auto
  from lex_less_ordered [OF this] show ?thesis
    by (simp add: list.rel_eq list.pred_True)
qed

lemma ordered3_key:
  assumes "ordered_on (\<lambda>_. True) lt (=)"
    and "\<And>x y. x \<in> {a, b, c} \<Longrightarrow> y \<in> {a, b, c} \<Longrightarrow> lt' x y \<longleftrightarrow> lt (key x) (key y)"
    and "\<And>x y. x \<in> {a, b, c} \<Longrightarrow> y \<in> {a, b, c} \<Longrightarrow> eq' x y \<longleftrightarrow> key x = key y"
  shows "ordered3 lt' eq' a b c"
  using assms(1) unfolding ordered_on_def ordered3_def by (simp add: assms(2,3))

lemma fund_ordered3:
  assumes "\<And>x. x \<in> {u, v, w} \<Longrightarrow> fund_ok t x \<and> fund_ordered x"
  shows "ordered3 fund_less fund_equal u v w"
  using assms by (intro ordered3_key [OF ints_ordered, where key = fund_key] fund_key_less [of t] fund_key_equal [of t])
    blast+

section \<open>Values of any type\<close>

fun ordered_val :: "descr \<Rightarrow> val \<Rightarrow> bool"
and ordered_slots :: "pdesc list \<Rightarrow> val option list \<Rightarrow> bool" where
  "ordered_val (Fundamental t) v = (fund_ok t v \<and> fund_ordered v)"
| "ordered_val (EnumDescriptor n es) v = (case v of VEnum _ \<Rightarrow> True | _ \<Rightarrow> False)"
| "ordered_val (VectorDescriptor d) v =
     (case v of VVector xs \<Rightarrow> list_all (ordered_val d) xs | _ \<Rightarrow> False)"
| "ordered_val (StructD (StructDescriptor n fl ps)) v =
     (case v of VStruct a \<Rightarrow> wf_tags ps \<and> wf_area ps a \<and> ordered_slots ps (slots a) | _ \<Rightarrow> False)"
| "ordered_slots [] xs = (xs = [])"
| "ordered_slots (PropertyDescriptor d n t k # ps) xs =
     (case xs of [] \<Rightarrow> False
      | x # xs' \<Rightarrow> (case x of None \<Rightarrow> True | Some v \<Rightarrow> ordered_val d v) \<and> ordered_slots ps xs')"

text \<open>
  The suffix \<open>ps\<close> of the properties, whose storage starts at slot \<open>i\<close>, holds ordered values
  where it is valid.
\<close>

fun ordered_from :: "nat \<Rightarrow> pdesc list \<Rightarrow> area \<Rightarrow> bool" where
  "ordered_from i [] a = True"
| "ordered_from i (p # ps) a =
     ((isValid p a \<longrightarrow> ordered_val (valueDescriptor p) (storage i a)) \<and> ordered_from (Suc i) ps a)"

lemma vals_less_lex: "vals_less d xs ys = lex_less (val_less d) xs ys"
  by (induction "val_less d" xs ys rule: lex_less.induct) auto

lemma vals_equal_all2: "vals_equal d xs ys = list_all2 (val_equal d) xs ys"
  by (induction xs arbitrary: ys) (auto simp: vals_equal.simps split: list.split)


lemma ordered_slots_from:
  assumes "wf_area ps a" "wf_tags ps"
  shows "k \<le> length ps \<Longrightarrow> drop k ps = qs \<Longrightarrow> ordered_slots qs (drop k (slots a)) \<Longrightarrow> ordered_from k qs a"
proof (induction qs arbitrary: k)
  case (Cons p qs)
  obtain xs where xs: "length xs = length ps" "a = mk_area ps xs"
    using assms by (auto elim: wf_areaE)
  have k: "k < length ps" using Cons.prems(2) by (metis drop_all leI list.distinct(1))
  then have ps: "ps ! k = p" "drop (Suc k) ps = qs"
    using Cons.prems(2) by (simp_all add: Cons_nth_drop_Suc [symmetric])
  have "drop k xs = xs ! k # drop (Suc k) xs" using k xs(1) by (simp add: Cons_nth_drop_Suc)
  then have ok: "ordered_slots qs (drop (Suc k) xs)" "\<And>v. xs ! k = Some v \<Longrightarrow> ordered_val (valueDescriptor p) v"
    using Cons.prems(3) xs(2) by (cases p; simp)+
  have "ordered_from (Suc k) qs a"
    using k ps ok xs(2) by (intro Cons.IH) simp_all
  moreover have "isValid p a \<Longrightarrow> ordered_val (valueDescriptor p) (storage k a)"
    using isValid_mk_area [OF assms(2) xs(1) k] k ok(2) xs
    by (auto simp: ps(1) storage_def simp del: isValid_mk_area isValid_iff)
  ultimately show ?case by simp
qed simp

lemma prop_less_iff:
  "prop_less i p a b \<longleftrightarrow>
     isValid p b \<and> (isValid p a \<longrightarrow> val_less (valueDescriptor p) (storage i a) (storage i b))"
  by (cases p) (simp add: Let_def del: isValid_iff)

lemma property_eq_iff:
  "property_eq i p a b \<longleftrightarrow>
     (if isValid p b then isValid p a \<and> val_equal (valueDescriptor p) (storage i a) (storage i b)
      else \<not> isValid p a)"
  by (simp add: property_eq_def)

lemma prop_ordered3:
  assumes "\<And>u v w. ordered_val d u \<Longrightarrow> ordered_val d v \<Longrightarrow> ordered_val d w \<Longrightarrow>
             ordered3 (val_less d) (val_equal d) u v w"
    and "d = valueDescriptor p"
    and "\<And>x. x \<in> {a, b, c} \<Longrightarrow> isValid p x \<Longrightarrow> ordered_val d (storage i x)"
  shows "ordered3 (prop_less i p) (property_eq i p) a b c"
proof -
  have t: "isValid p x \<Longrightarrow> isValid p y \<Longrightarrow> isValid p z \<Longrightarrow> x \<in> {a, b, c} \<Longrightarrow> y \<in> {a, b, c} \<Longrightarrow>
      z \<in> {a, b, c} \<Longrightarrow> ordered3 (val_less d) (val_equal d) (storage i x) (storage i y) (storage i z)" for x y z
    using assms(1,3) by blast
  from t [of a b c] t [of a b b] show ?thesis
    by (cases "isValid p a"; cases "isValid p b"; cases "isValid p c")
      (simp_all add: ordered3_def prop_less_iff property_eq_iff assms(2) del: isValid_iff)
qed

lemma props_less_Cons:
  "props_less inc i (p # ps) =
     (if ps_le (pd_set p) inc then lex_pair (prop_less i p) (props_less inc (Suc i) ps)
      else props_less inc (Suc i) ps)"
  by (intro ext) (simp add: lex_pair_def del: ps_le_iff)

lemma props_equal_Cons:
  "props_equal inc i (p # ps) =
     (if ps_le (pd_set p) inc then (\<lambda>a b. property_eq i p a b \<and> props_equal inc (Suc i) ps a b)
      else props_equal inc (Suc i) ps)"
  by (cases p) (auto intro!: ext simp: props_equal.simps Let_def property_eq_def simp del: ps_le_iff isValid_iff)

lemma ordered_valE:
  "ordered_val (EnumDescriptor n es) v \<Longrightarrow> \<exists>e. v = VEnum e"
  "ordered_val (VectorDescriptor d) v \<Longrightarrow> \<exists>xs. v = VVector xs \<and> list_all (ordered_val d) xs"
  "ordered_val (StructD (StructDescriptor n fl ps)) v \<Longrightarrow>
     \<exists>a. v = VStruct a \<and> wf_tags ps \<and> wf_area ps a \<and> ordered_slots ps (slots a)"
  by (cases v; simp)+

lemma enum_ordered3: "ordered3 fund_less fund_equal (VEnum a) (VEnum b) (VEnum c)"
  by (auto simp: ordered3_def intro: signed_word_eqI)

lemma val_ordered3:
  "ordered_val d u \<Longrightarrow> ordered_val d v \<Longrightarrow> ordered_val d w \<Longrightarrow>
     ordered3 (val_less d) (val_equal d) u v w"
  "ordered_from i ps a \<Longrightarrow> ordered_from i ps b \<Longrightarrow> ordered_from i ps c \<Longrightarrow>
     ordered3 (props_less inc i ps) (props_equal inc i ps) a b c"
proof (induction d and ps arbitrary: u v w and i a b c inc rule: wf_descr_wf_props.induct)
  case (1 t)
  have "ordered3 fund_less fund_equal u v w"
    using 1 by (intro fund_ordered3 [of _ _ _ t]) auto
  then show ?case by (simp add: ordered3_def val_equal.simps)
next
  case (2 n es)
  then show ?case
    using enum_ordered3 by (auto dest!: ordered_valE(1) simp: ordered3_def val_equal.simps simp del: ordered_val.simps)
next
  case (3 d)
  have "ordered_on (ordered_val d) (val_less d) (val_equal d)"
    unfolding ordered_on_def using "3.IH" by blast
  note lists = ordered_onE [OF lex_less_ordered [OF this]]
  obtain us vs ws where "u = VVector us" "v = VVector vs" "w = VVector ws"
    "list_all (ordered_val d) us" "list_all (ordered_val d) vs" "list_all (ordered_val d) ws"
    using "3.prems" ordered_valE(2) by metis
  then show ?case
    using lists [of us vs ws]
    by (simp add: ordered3_def val_equal.simps vals_less_lex vals_equal_all2)
next
  case (4 n fl ps)
  have "ordered_from 0 ps (area_of x)" if "ordered_val (StructD (StructDescriptor n fl ps)) x" for x
    using ordered_valE(3) [OF that] ordered_slots_from [of ps "area_of x" 0 ps] by auto
  then have "ordered3 (props_less ps_All 0 ps) (props_equal ps_All 0 ps) (area_of u) (area_of v) (area_of w)"
    using "4.prems" by (intro "4.IH") blast+
  then show ?case by (simp add: ordered3_def val_equal.simps)
next
  case 5
  then show ?case by (simp add: ordered3_def props_equal.simps)
next
  case (6 d n t k ps)
  let ?p = "PropertyDescriptor d n t k"
  have rest: "ordered3 (props_less inc (Suc i) ps) (props_equal inc (Suc i) ps) a b c"
    using "6.prems" by (intro "6.IH") simp_all
  have "ordered3 (prop_less i ?p) (property_eq i ?p) x y z"
    if "{x, y, z} \<subseteq> {a, b, c}" for x y z
    using that "6.prems" by (intro prop_ordered3 [OF "6.IH"(1)]) auto
  then have "ordered3 (lex_pair (prop_less i ?p) (props_less inc (Suc i) ps))
      (\<lambda>a b. property_eq i ?p a b \<and> props_equal inc (Suc i) ps a b) a b c"
    using rest by (intro lex_step) simp_all
  then show ?case
    using rest
    by (cases "ps_le (pd_set ?p) inc") (simp_all add: props_less_Cons props_equal_Cons del: ps_le_iff)
qed

text \<open>The keys: instances whose properties hold ordered values, compared by some properties.\<close>

definition ordered_area :: "pdesc list \<Rightarrow> area \<Rightarrow> bool" where
  "ordered_area ps a \<longleftrightarrow> wf_tags ps \<and> wf_area ps a \<and> ordered_slots ps (slots a)"

lemma ordered_area_from: "ordered_area ps a \<Longrightarrow> ordered_from 0 ps a"
  using ordered_slots_from [of ps a 0 ps] by (simp add: ordered_area_def)

lemma props_less_empty:
  "ps_members inc = {} \<Longrightarrow> \<forall>p \<in> set ps. pd_index p < 32 \<Longrightarrow> \<not> props_less inc i ps a b"
  by (induction ps arbitrary: i) auto

lemma struct_less_props:
  assumes "wf_tags ps"
  shows "struct_less ps a b inc = props_less inc 0 ps a b"
  using props_less_empty [of inc ps 0 a b] assms by (simp add: struct_less_def wf_tags_def)

lemma struct_ordered:
  "ordered_on (ordered_area ps) (\<lambda>a b. struct_less ps a b inc) (\<lambda>a b. struct_equal ps a b inc)"
proof (cases "wf_tags ps")
  case True
  show ?thesis
    unfolding ordered_on_def struct_less_props [OF True] struct_equal_def
    using val_ordered3(2) ordered_area_from by blast
qed (simp add: ordered_on_def ordered_area_def)

interpretation key_order: weak_order "Collect (ordered_area ps)"
  "\<lambda>a b. struct_less ps a b inc" "\<lambda>a b. struct_equal ps a b inc" for ps inc
  using struct_ordered [of ps inc] by (simp add: weak_order_iff)

interpretation value_order: weak_order "Collect (ordered_val d)" "val_less d" "val_equal d" for d
  using val_ordered3(1) by (simp add: weak_order_iff ordered_on_def)

text \<open>C13: The comparisons of two instances over any property set are a strict weak order whose
  equivalence is equality, on instances without NaN and property-set values.\<close>

theorem struct_less_weak_order:
  assumes "ordered_area ps a" "ordered_area ps b" "ordered_area ps c"
  shows "\<not> struct_less ps a a inc
    \<and> (struct_less ps a b inc \<longrightarrow> struct_less ps b c inc \<longrightarrow> struct_less ps a c inc)
    \<and> (struct_equal ps a b inc \<longleftrightarrow> struct_lessEqual ps a b inc \<and> struct_greaterEqual ps a b inc)
    \<and> (struct_less ps a b inc \<or> struct_equal ps a b inc \<or> struct_greater ps a b inc)
    \<and> (struct_equal ps a b inc \<longrightarrow> struct_equal ps b c inc \<longrightarrow> struct_equal ps a c inc)"
  using assms key_order.irrefl [of a ps inc] key_order.trans [of a ps b c inc]
    key_order.eq_iff [of a ps b inc] key_order.eq_trans [of a ps b c inc]
  by (auto simp: struct_lessEqual_def struct_greaterEqual_def struct_greater_def)

lemma example_ordered: "ordered_area example_props (example_area i t None)"
proof -
  have "ordered_slots example_props (slots (example_area i t None))"
    by (simp add: example_props_def example_area_def split: option.splits)
  then show ?thesis by (simp add: ordered_area_def example_wf_tags)
qed

lemma struct_less_weak_order_witness:
  "\<not> struct_less example_props (example_area (Some 1) None None) (example_area (Some 1) None None) (FromIndex 1)"
  using struct_less_weak_order
    [OF example_ordered [of "Some 1" None] example_ordered [of "Some 2" None] example_ordered [of "Some 3" None]]
  by blast

section \<open>Property sets as keys\<close>

text \<open>
  With a property-set key the order is no weak order: \<open>{1}\<close> and \<open>{2}\<close> compare as equal keys, and
  so do \<open>{2}\<close> and \<open>{1, 3}\<close>, while \<open>{1}\<close> is below \<open>{1, 3}\<close>.
\<close>

definition set_key_props :: "pdesc list" where
  "set_key_props = [PropertyDescriptor (Fundamental T_property_set) ''key'' 1 True]"

definition set_key_area :: "property_set \<Rightarrow> area" where
  "set_key_area s = Area (FromIndex 1) [Some (VPropertySet s)]"

lemma set_key_less:
  "struct_less set_key_props (set_key_area s) (set_key_area t) (FromIndex 1) \<longleftrightarrow> ps_lt s t"
  by (simp add: set_key_area_def set_key_props_def struct_less_def isValid_def pd_set_def
      pd_index_def storage_def slot_def del: ps_lt_iff)

text \<open>With a property-set key the order of a container is no weak order: incomparability of keys
  is not transitive.\<close>

theorem property_set_key_no_weak_order:
  "let a = set_key_area (FromIndex 1); b = set_key_area (FromIndex 2);
       c = set_key_area (ps_add (FromIndex 1) (FromIndex 3));
       lt = (\<lambda>x y. struct_less set_key_props x y (FromIndex 1));
       incomparable = (\<lambda>x y. \<not> lt x y \<and> \<not> lt y x)
   in incomparable a b \<and> incomparable b c \<and> lt a c"
  unfolding Let_def set_key_less ps_lt_iff by (simp add: psubset_eq)

end
