(* ===== verification/Std_Map.thy ===== *)
theory Std_Map
  imports Key_Order
begin

text \<open>
  \<open>std::map\<close> as the code uses it: the elements in the order of the comparison \<open>lt\<close>, which is
  a parameter of every operation as it is a template argument of the class. \<open>map_find\<close> is
  \<open>find\<close> (the lower bound, if the key is not below it), \<open>map_insert\<close> is \<open>insert\<close> and
  \<open>emplace_hint\<close>, which leave the map alone when it has an equivalent key, and \<open>map_extract\<close>
  is \<open>extract\<close> and \<open>erase\<close>. Under the contract of \<open>weak_order\<close> a map is a set of elements
  of which no two have equivalent keys.
\<close>

definition map_find :: "('k \<Rightarrow> 'k \<Rightarrow> bool) \<Rightarrow> 'k \<Rightarrow> ('k \<times> 'v) list \<Rightarrow> ('k \<times> 'v) option" where
  "map_find lt k m =
     (case dropWhile (\<lambda>e. lt (fst e) k) m of
        [] \<Rightarrow> None
      | e # _ \<Rightarrow> if lt k (fst e) then None else Some e)"

definition map_insert :: "('k \<Rightarrow> 'k \<Rightarrow> bool) \<Rightarrow> 'k \<times> 'v \<Rightarrow> ('k \<times> 'v) list \<Rightarrow> ('k \<times> 'v) list" where
  "map_insert lt e m =
     (if map_find lt (fst e) m = None
      then takeWhile (\<lambda>d. lt (fst d) (fst e)) m @ e # dropWhile (\<lambda>d. lt (fst d) (fst e)) m
      else m)"

definition map_extract :: "('k \<Rightarrow> 'k \<Rightarrow> bool) \<Rightarrow> 'k \<Rightarrow> ('k \<times> 'v) list \<Rightarrow> ('k \<times> 'v) list" where
  "map_extract lt k m =
     (case map_find lt k m of
        None \<Rightarrow> m
      | Some _ \<Rightarrow> takeWhile (\<lambda>e. lt (fst e) k) m @ tl (dropWhile (\<lambda>e. lt (fst e) k) m))"

text \<open>The invariant: in order, with keys from the carrier of the order.\<close>

definition map_ok :: "'k set \<Rightarrow> ('k \<Rightarrow> 'k \<Rightarrow> bool) \<Rightarrow> ('k \<times> 'v) list \<Rightarrow> bool" where
  "map_ok C lt m \<longleftrightarrow> sorted_wrt (\<lambda>d e. lt (fst d) (fst e)) m \<and> fst ` set m \<subseteq> C"

context weak_order
begin

lemma map_ok_Nil [simp]: "map_ok C lt []"
  by (simp add: map_ok_def)

lemma map_ok_Cons:
  "map_ok C lt (e # m) \<longleftrightarrow> fst e \<in> C \<and> (\<forall>d \<in> set m. lt (fst e) (fst d)) \<and> map_ok C lt m"
  by (auto simp: map_ok_def)

lemma map_ok_C: "map_ok C lt m \<Longrightarrow> e \<in> set m \<Longrightarrow> fst e \<in> C"
  by (auto simp: map_ok_def)

lemma map_ok_unique:
  "map_ok C lt m \<Longrightarrow> d \<in> set m \<Longrightarrow> e \<in> set m \<Longrightarrow> eq (fst d) (fst e) \<Longrightarrow> d = e"
proof (induction m)
  case (Cons x m)
  have x: "\<not> eq (fst x) (fst y) \<and> \<not> eq (fst y) (fst x)" if "y \<in> set m" for y
    using that Cons.prems(1) map_ok_C [of m y] by (simp add: map_ok_Cons eq_iff)
  consider "d = x" "e = x" | "d = x" "e \<in> set m" | "d \<in> set m" "e = x" | "d \<in> set m" "e \<in> set m"
    using Cons.prems by auto
  then show ?case
    using Cons.prems Cons.IH x by cases (simp_all add: map_ok_Cons)
qed simp

lemma map_ok_distinct: "map_ok C lt m \<Longrightarrow> distinct m"
proof (induction m)
  case (Cons x m)
  then show ?case using irrefl by (auto simp: map_ok_Cons)
qed simp

text \<open>The partition of an ordered map by a key.\<close>

lemma map_parts:
  assumes "map_ok C lt m" "k \<in> C"
  shows "\<forall>e \<in> set (takeWhile (\<lambda>e. lt (fst e) k) m). lt (fst e) k"
    and "case dropWhile (\<lambda>e. lt (fst e) k) m of
           [] \<Rightarrow> True
         | e # r \<Rightarrow> \<not> lt (fst e) k \<and> (\<forall>d \<in> set r. lt k (fst d))"
proof -
  show "\<forall>e \<in> set (takeWhile (\<lambda>e. lt (fst e) k) m). lt (fst e) k" by (auto dest: set_takeWhileD)
  show "case dropWhile (\<lambda>e. lt (fst e) k) m of
           [] \<Rightarrow> True
         | e # r \<Rightarrow> \<not> lt (fst e) k \<and> (\<forall>d \<in> set r. lt k (fst d))"
    using assms(1)
  proof (induction m)
    case (Cons x m)
    have "lt k (fst d)" if "\<not> lt (fst x) k" "d \<in> set m" for d
      using that Cons.prems assms(2) cotrans [of "fst x" k "fst d"] map_ok_C [of m d]
      by (auto simp: map_ok_Cons)
    then show ?case using Cons by (auto simp: map_ok_Cons)
  qed simp
qed

lemma map_find_Some:
  assumes "map_ok C lt m" "k \<in> C"
  shows "map_find lt k m = Some e \<longleftrightarrow> e \<in> set m \<and> eq (fst e) k"
proof -
  define tw where "tw = takeWhile (\<lambda>e. lt (fst e) k) m"
  define dw where "dw = dropWhile (\<lambda>e. lt (fst e) k) m"
  have m: "m = tw @ dw" by (simp add: tw_def dw_def)
  have tw: "\<And>d. d \<in> set tw \<Longrightarrow> lt (fst d) k" using map_parts(1) [OF assms] by (simp add: tw_def)
  have C: "\<And>d. d \<in> set m \<Longrightarrow> fst d \<in> C" using map_ok_C [OF assms(1)] .
  have not_eq: "\<not> eq (fst d) k" if "d \<in> set m" "lt (fst d) k \<or> lt k (fst d)" for d
    using that C assms(2) by (auto simp: eq_iff)
  have find: "map_find lt k m = (case dw of [] \<Rightarrow> None | e # _ \<Rightarrow> if lt k (fst e) then None else Some e)"
    by (simp add: map_find_def dw_def)
  show ?thesis
  proof (cases dw)
    case Nil
    then have "\<not> eq (fst e) k" if "e \<in> set m" using that tw [of e] not_eq [of e] m by simp
    then show ?thesis using Nil by (auto simp: find)
  next
    case (Cons x r)
    have x: "\<not> lt (fst x) k" "\<And>d. d \<in> set r \<Longrightarrow> lt k (fst d)"
      using map_parts(2) [OF assms] Cons by (simp_all flip: dw_def)
    have "x \<in> set m" by (simp add: m Cons)
    then have "eq (fst x) k \<longleftrightarrow> \<not> lt k (fst x)" using C assms(2) x(1) by (simp add: eq_iff)
    moreover have "\<not> eq (fst d) k" if "d \<in> set tw \<or> d \<in> set r" for d
      using that tw [of d] x(2) [of d] not_eq [of d] m Cons by auto
    moreover have "map_find lt k m = Some e \<longleftrightarrow> e = x \<and> \<not> lt k (fst x)"
      unfolding find using Cons by auto
    moreover have "e \<in> set m \<longleftrightarrow> e \<in> set tw \<or> e = x \<or> e \<in> set r" by (auto simp: m Cons)
    ultimately show ?thesis by blast
  qed
qed

lemma map_find_None:
  assumes "map_ok C lt m" "k \<in> C"
  shows "map_find lt k m = None \<longleftrightarrow> (\<forall>e \<in> set m. \<not> eq (fst e) k)"
  using map_find_Some [OF assms] by (metis not_None_eq)

lemma map_insert_ok:
  assumes "map_ok C lt m" "fst e \<in> C" "map_find lt (fst e) m = None"
  shows "map_ok C lt (map_insert lt e m)" "set (map_insert lt e m) = insert e (set m)"
    "length (map_insert lt e m) = Suc (length m)"
proof -
  define tw where "tw = takeWhile (\<lambda>d. lt (fst d) (fst e)) m"
  define dw where "dw = dropWhile (\<lambda>d. lt (fst d) (fst e)) m"
  have m: "m = tw @ dw" by (simp add: tw_def dw_def)
  have ins: "map_insert lt e m = tw @ e # dw"
    using assms(3) by (simp add: map_insert_def tw_def dw_def)
  have tw: "\<And>d. d \<in> set tw \<Longrightarrow> lt (fst d) (fst e)"
    using map_parts(1) [OF assms(1,2)] by (simp add: tw_def)
  have dw: "lt (fst e) (fst d)" if "d \<in> set dw" for d
  proof -
    from that obtain x r where xr: "dw = x # r" by (cases dw) auto
    then have r: "\<not> lt (fst x) (fst e)" "\<And>d. d \<in> set r \<Longrightarrow> lt (fst e) (fst d)"
      using map_parts(2) [OF assms(1,2)] by (simp_all flip: dw_def)
    have "lt (fst e) (fst x)"
      using assms(3) xr by (simp add: map_find_def flip: dw_def split: if_splits)
    then show ?thesis using r that xr by (cases "d = x") simp_all
  qed
  show "set (map_insert lt e m) = insert e (set m)" unfolding ins by (auto simp: m)
  show "length (map_insert lt e m) = Suc (length m)" unfolding ins by (simp add: m)
  have "lt (fst d) (fst d')" if "d \<in> set tw" "d' \<in> set dw" for d d'
    using that assms(1) by (auto simp: map_ok_def m sorted_wrt_append)
  then show "map_ok C lt (map_insert lt e m)"
    using assms(1,2) tw dw unfolding map_ok_def ins by (auto simp: m sorted_wrt_append)
qed

lemma map_extract_ok:
  assumes "map_ok C lt m" "k \<in> C"
  shows "map_ok C lt (map_extract lt k m)"
    "set (map_extract lt k m) = {e \<in> set m. \<not> eq (fst e) k}"
proof -
  define tw where "tw = takeWhile (\<lambda>d. lt (fst d) k) m"
  define dw where "dw = dropWhile (\<lambda>d. lt (fst d) k) m"
  have m: "m = tw @ dw" by (simp add: tw_def dw_def)
  have "map_ok C lt (map_extract lt k m) \<and> set (map_extract lt k m) = {e \<in> set m. \<not> eq (fst e) k}"
  proof (cases "map_find lt k m")
    case None
    then show ?thesis using assms map_find_None [OF assms] by (auto simp: map_extract_def)
  next
    case (Some e)
    then obtain r where xr: "dw = e # r"
      by (auto simp: map_find_def split: list.splits if_splits simp flip: dw_def)
    have ext: "map_extract lt k m = tw @ r"
      using Some xr by (simp add: map_extract_def flip: tw_def dw_def)
    have e: "e \<in> set m" "eq (fst e) k" using Some map_find_Some [OF assms] by auto
    have "d \<in> set (tw @ r) \<longleftrightarrow> d \<in> set m \<and> \<not> eq (fst d) k" for d
    proof -
      have "d = e" if "d \<in> set m" "eq (fst d) k"
        using that e map_ok_unique [OF assms(1), of d e] assms(2) map_ok_C [OF assms(1)]
          eq_sym [of "fst e" k] eq_trans [of "fst d" k "fst e"] by blast
      moreover have "e \<notin> set tw" "e \<notin> set r"
        using map_ok_distinct [OF assms(1)] by (auto simp: m xr)
      ultimately show ?thesis using e by (auto simp: m xr)
    qed
    moreover have "map_ok C lt (tw @ r)" using assms(1) by (auto simp: map_ok_def m xr sorted_wrt_append)
    ultimately show ?thesis unfolding ext by blast
  qed
  then show "map_ok C lt (map_extract lt k m)"
    "set (map_extract lt k m) = {e \<in> set m. \<not> eq (fst e) k}" by blast+
qed

end

end
