(* ===== verification/Dots_Container.thy ===== *)
theory Dots_Container
  imports Std_Map
begin

text \<open>
  \<open>Container.cpp\<close>: the clones of one struct type, kept in a \<open>std::map\<close> that orders them by
  their key properties, each with its \<open>DotsCloneInformation\<close>. Where an operation throws, the
  container it leaves behind is part of the result, because \<open>insert\<close> and \<open>remove\<close> take the
  clone out of the map before they read the header.
\<close>

section \<open>Headers and clone information\<close>

text \<open>
  The generated structs \<open>DotsHeader\<close> and \<open>DotsCloneInformation\<close>; a property that is not set
  is \<open>None\<close>. Time points are the bits of a \<open>double\<close>.
\<close>

datatype dots_mt = Mt_create | Mt_update | Mt_remove

record dots_header =
  hd_typeName :: "string option"
  hd_sentTime :: "64 word option"
  hd_serverSentTime :: "64 word option"
  hd_attributes :: "property_set option"
  hd_sender :: "32 word option"
  hd_fromCache :: "32 word option"
  hd_removeObj :: "bool option"
  hd_isFromMyself :: "bool option"

record clone_info =
  lastOperation :: "dots_mt option"
  lastUpdateFrom :: "32 word option"
  created :: "64 word option"
  createdFrom :: "32 word option"
  modified :: "64 word option"
  localUpdateTime :: "64 word option"

text \<open>Dereferencing a property of one of these structs.\<close>

definition deref :: "string \<Rightarrow> 'a option \<Rightarrow> 'a result" where
  "deref name x =
     (case x of
        None \<Rightarrow> Inl (RuntimeError (''property is expected to be valid but it is not: '' @ name))
      | Some v \<Rightarrow> Inr v)"

lemma deref_simps [simp]:
  "deref n (Some v) = Inr v" "is_ub (deref n x) = False" "deref n x = Inr v \<longleftrightarrow> x = Some v"
  by (auto simp: deref_def split: option.splits)

section \<open>The key order\<close>

text \<open>
  The constructors of \<open>key_compare\<close> and \<open>Container\<close> collect the descriptors of the key and of
  the other properties, here with the index of their storage. The comparison reads the storage
  of the keys without asking whether they are valid.
\<close>

definition keyPropertyDescriptors :: "pdesc list \<Rightarrow> (nat \<times> pdesc) list" where
  "keyPropertyDescriptors ps = filter (\<lambda>(i, p). isKey p) (enumerate 0 ps)"

definition noKeyPropertyDescriptors :: "pdesc list \<Rightarrow> (nat \<times> pdesc) list" where
  "noKeyPropertyDescriptors ps = filter (\<lambda>(i, p). \<not> isKey p) (enumerate 0 ps)"

fun key_compare_loop :: "(nat \<times> pdesc) list \<Rightarrow> area \<Rightarrow> area \<Rightarrow> bool" where
  "key_compare_loop [] lhs rhs = False"
| "key_compare_loop ((i, p) # L) lhs rhs =
     (if val_less (valueDescriptor p) (storage i lhs) (storage i rhs) then True
      else if val_less (valueDescriptor p) (storage i rhs) (storage i lhs) then False
      else key_compare_loop L lhs rhs)"

definition key_compare :: "pdesc list \<Rightarrow> area \<Rightarrow> area \<Rightarrow> bool" where
  "key_compare ps = key_compare_loop (keyPropertyDescriptors ps)"

section \<open>Containers\<close>

type_synonym clone = "area \<times> clone_info"

record container =
  cont_descriptor :: sdesc
  m_instances :: "clone list"

definition container_new :: "sdesc \<Rightarrow> container" where
  "container_new sd = \<lparr>cont_descriptor = sd, m_instances = []\<rparr>"

abbreviation cont_props :: "container \<Rightarrow> pdesc list" where
  "cont_props c \<equiv> propertyDescriptors (cont_descriptor c)"

definition container_empty :: "container \<Rightarrow> bool" where
  "container_empty c \<longleftrightarrow> m_instances c = []"

definition container_size :: "container \<Rightarrow> nat" where
  "container_size c = length (m_instances c)"

definition findClone :: "area \<Rightarrow> container \<Rightarrow> clone option" where
  "findClone a c = map_find (key_compare (cont_props c)) a (m_instances c)"

definition getClone :: "area \<Rightarrow> container \<Rightarrow> clone result" where
  "getClone a c =
     (case findClone a c of
        None \<Rightarrow> Inl (LogicError ''instance is not part of container'')
      | Some clone \<Rightarrow> Inr clone)"

definition container_find :: "area \<Rightarrow> container \<Rightarrow> area option" where
  "container_find a c = (case findClone a c of None \<Rightarrow> None | Some clone \<Rightarrow> Some (fst clone))"

definition container_get :: "area \<Rightarrow> container \<Rightarrow> area result" where
  "container_get a c = bindE (getClone a c) (\<lambda>clone. Inr (fst clone))"

definition container_clear :: "container \<Rightarrow> container" where
  "container_clear c = c\<lparr>m_instances := []\<rparr>"

definition updateWithoutKeys :: "pdesc list \<Rightarrow> area \<Rightarrow> area \<Rightarrow> property_set \<Rightarrow> area result" where
  "updateWithoutKeys ps lhs rhs includedSet =
     (let updateSet =
            ps_intersect (ps_add (validProperties lhs) (validProperties rhs)) includedSet;
          rhsValidSet = validProperties rhs
      in foldE (\<lambda>(i, p) l.
           if ps_le (pd_set p) updateSet then
             (if ps_le (pd_set p) rhsValidSet then
                bindE (read_slot i rhs) (\<lambda>v.
                if ps_le (pd_set p) (validProperties l) then assign_slot i v l
                else bindE (construct_slot i v l) (\<lambda>l'. Inr (setValid p l')))
              else bindE (destruct_slot i l) (\<lambda>l'. Inr (setInvalid p l')))
           else Inr l) (noKeyPropertyDescriptors ps) lhs)"

text \<open>\<open>now\<close> is the value of \<open>timepoint_t::Now()\<close>.\<close>

definition container_insert ::
  "64 word \<Rightarrow> dots_header \<Rightarrow> area \<Rightarrow> container \<Rightarrow> container \<times> clone result" where
  "container_insert now h a c =
     (let lt = key_compare (cont_props c); m = m_instances c in
      case map_find lt a m of
        None \<Rightarrow>
          (case struct_construct (cont_props c) a of
             Inl e \<Rightarrow> (c, Inl e)
           | Inr a' \<Rightarrow>
               let clone = (a', \<lparr>lastOperation = Some Mt_create, lastUpdateFrom = hd_sender h,
                     created = hd_sentTime h, createdFrom = hd_sender h,
                     modified = hd_sentTime h, localUpdateTime = Some now\<rparr>)
               in (c\<lparr>m_instances := map_insert lt clone m\<rparr>, Inr clone))
      | Some (existing, info) \<Rightarrow>
          let rest = map_extract lt a m in
          (case bindE (deref ''attributes'' (hd_attributes h)) (updateWithoutKeys (cont_props c) existing a) of
             Inl e \<Rightarrow> (c\<lparr>m_instances := rest\<rparr>, Inl e)
           | Inr existing' \<Rightarrow>
               let clone = (existing', info\<lparr>lastOperation := Some Mt_update,
                     lastUpdateFrom := hd_sender h, modified := hd_sentTime h,
                     localUpdateTime := Some now\<rparr>)
               in (c\<lparr>m_instances := map_insert lt clone rest\<rparr>, Inr clone)))"

text \<open>\<open>remove\<close> hands out the extracted node, which is empty when there was no clone.\<close>

definition container_remove ::
  "64 word \<Rightarrow> dots_header \<Rightarrow> area \<Rightarrow> container \<Rightarrow> container \<times> clone option result" where
  "container_remove now h a c =
     (let lt = key_compare (cont_props c); m = m_instances c in
      case map_find lt a m of
        None \<Rightarrow> (c, Inr None)
      | Some (removed, info) \<Rightarrow>
          (c\<lparr>m_instances := map_extract lt a m\<rparr>,
           bindE (deref ''attributes'' (hd_attributes h)) (\<lambda>attributes.
           bindE (updateWithoutKeys (cont_props c) removed a attributes) (\<lambda>removed'.
           Inr (Some (removed', info\<lparr>lastOperation := Some Mt_remove, lastUpdateFrom := hd_sender h,
                 modified := hd_sentTime h, localUpdateTime := Some now\<rparr>))))))"

section \<open>The contract of the key order\<close>

text \<open>An instance that can be a key: well formed, with valid and ordered key properties.\<close>

definition key_ok :: "pdesc list \<Rightarrow> area \<Rightarrow> bool" where
  "key_ok ps a \<longleftrightarrow> wf_tags ps \<and> wf_area ps a
     \<and> (\<forall>i < length ps. isKey (ps ! i) \<longrightarrow>
          (\<exists>v. slots a ! i = Some v \<and> ordered_val (valueDescriptor (ps ! i)) v))"

definition key_equal :: "pdesc list \<Rightarrow> area \<Rightarrow> area \<Rightarrow> bool" where
  "key_equal ps a b \<longleftrightarrow>
     (\<forall>(i, p) \<in> set (keyPropertyDescriptors ps). val_equal (valueDescriptor p) (storage i a) (storage i b))"

lemma set_keyPropertyDescriptors:
  "set (keyPropertyDescriptors ps) = {(i, ps ! i) | i. i < length ps \<and> isKey (ps ! i)}"
  by (auto simp: keyPropertyDescriptors_def in_set_enumerate_eq)

lemma set_noKeyPropertyDescriptors:
  "set (noKeyPropertyDescriptors ps) = {(i, ps ! i) | i. i < length ps \<and> \<not> isKey (ps ! i)}"
  by (auto simp: noKeyPropertyDescriptors_def in_set_enumerate_eq)

lemma key_loop_ordered3:
  assumes "\<forall>(i, p) \<in> set L. \<forall>x \<in> {a, b, c}. ordered_val (valueDescriptor p) (storage i x)"
  shows "ordered3 (key_compare_loop L)
    (\<lambda>x y. \<forall>(i, p) \<in> set L. val_equal (valueDescriptor p) (storage i x) (storage i y)) a b c"
  using assms
proof (induction L)
  case Nil
  then show ?case by (simp add: ordered3_def)
next
  case (Cons ip L)
  obtain i p where ip: "ip = (i, p)" by (cases ip)
  let ?lt = "\<lambda>x y. val_less (valueDescriptor p) (storage i x) (storage i y)"
  let ?eq = "\<lambda>x y. val_equal (valueDescriptor p) (storage i x) (storage i y)"
  let ?e = "\<lambda>x y. \<forall>(i, p) \<in> set L. val_equal (valueDescriptor p) (storage i x) (storage i y)"
  have o: "ordered3 ?lt ?eq x y z" if "{x, y, z} \<subseteq> {a, b, c}" for x y z
    unfolding ordered3_image using that Cons.prems by (intro val_ordered3(1)) (auto simp: ip)
  have "ordered3 (key_compare_loop L) ?e a b c"
    using Cons.prems by (intro Cons.IH) simp
  then have "ordered3 (lex_pair ?lt (key_compare_loop L)) (\<lambda>x y. ?eq x y \<and> ?e x y) a b c"
    using o by (intro lex_step) simp_all
  moreover have "key_compare_loop (ip # L) = lex_pair ?lt (key_compare_loop L)"
    by (intro ext) (simp add: ip lex_pair_def)
  ultimately show ?case by (simp add: ip)
qed

lemma key_ok_storage:
  "key_ok ps a \<Longrightarrow> (i, p) \<in> set (keyPropertyDescriptors ps) \<Longrightarrow> ordered_val (valueDescriptor p) (storage i a)"
  by (auto simp: key_ok_def set_keyPropertyDescriptors storage_def slot_def wf_area_def
      simp del: isValid_iff)

interpretation container_keys: weak_order "Collect (key_ok ps)" "key_compare ps" "key_equal ps" for ps
proof -
  have "ordered_on (key_ok ps) (key_compare ps) (key_equal ps)"
    unfolding ordered_on_def key_compare_def key_equal_def
    using key_ok_storage by (intro allI impI key_loop_ordered3) blast
  then show "weak_order (Collect (key_ok ps)) (key_compare ps) (key_equal ps)"
    by (simp add: weak_order_iff)
qed

lemma key_compare_same_keys:
  assumes "\<And>i p. (i, p) \<in> set (keyPropertyDescriptors ps) \<Longrightarrow> storage i a = storage i a'"
  shows "key_compare ps a b = key_compare ps a' b" "key_compare ps b a = key_compare ps b a'"
proof -
  have "key_compare_loop L a b = key_compare_loop L a' b \<and> key_compare_loop L b a = key_compare_loop L b a'"
    if "set L \<subseteq> set (keyPropertyDescriptors ps)" for L
    using that
  proof (induction L)
    case (Cons ip L)
    then show ?case using assms by (cases ip) auto
  qed simp
  then show "key_compare ps a b = key_compare ps a' b" "key_compare ps b a = key_compare ps b a'"
    by (simp_all add: key_compare_def)
qed

section \<open>The update of a clone\<close>

lemma updateWithoutKeys_mk:
  assumes "wf_tags ps" "length xs = length ps" "length ys = length ps"
  shows "updateWithoutKeys ps (mk_area ps xs) (mk_area ps ys) inc =
    Inr (mk_area ps (List.map (\<lambda>i. if \<not> isKey (ps ! i) \<and> pd_index (ps ! i) \<in> ps_members inc
                                   then ys ! i else xs ! i) [0..<length ps]))"
proof -
  let ?h = "\<lambda>i x. if pd_index (ps ! i) \<in> ps_members inc then ys ! i else x"
  let ?up = "ps_intersect (ps_add (valid_of ps xs) (valid_of ps ys)) inc"
  let ?f = "\<lambda>(i, p) l.
           if ps_le (pd_set p) ?up then
             (if ps_le (pd_set p) (valid_of ps ys) then
                bindE (read_slot i (mk_area ps ys)) (\<lambda>v.
                if ps_le (pd_set p) (validProperties l) then assign_slot i v l
                else bindE (construct_slot i v l) (\<lambda>l'. Inr (setValid p l')))
              else bindE (destruct_slot i l) (\<lambda>l'. Inr (setInvalid p l')))
           else Inr l"
  have step: "?f (i, p) (mk_area ps ws) = Inr (mk_area ps (ws[i := ?h i (ws ! i)]))"
    if ip: "(i, p) \<in> set (noKeyPropertyDescriptors ps)" "length ws = length ps" "ws ! i = xs ! i" for i p ws
  proof -
    have i: "i < length ps" "p = ps ! i" using ip(1) by (auto simp: set_noKeyPropertyDescriptors)
    show ?thesis
      using assms ip(2,3) i
      by (auto simp: read_slot_def assign_slot_def construct_slot_def destruct_slot_def setValid_def setInvalid_def
          valid_of_update_Some valid_of_update_None add_member_eq slot_def mk_area_def
          split: option.splits)
  qed
  have "\<exists>zs. foldE ?f (noKeyPropertyDescriptors ps) (mk_area ps xs) = Inr (mk_area ps zs)
      \<and> length zs = length ps
      \<and> (\<forall>i < length ps. zs ! i = (if i \<in> fst ` set (noKeyPropertyDescriptors ps) then ?h i (xs ! i) else xs ! i))"
  proof (intro foldE_slots)
    show "distinct (List.map fst (noKeyPropertyDescriptors ps))"
      by (simp add: noKeyPropertyDescriptors_def distinct_map_filter)
    show "fst ` set (noKeyPropertyDescriptors ps) \<subseteq> {..<length ps}"
      by (auto simp: set_noKeyPropertyDescriptors)
  qed (use assms(2) step in simp_all)
  then obtain zs where zs: "foldE ?f (noKeyPropertyDescriptors ps) (mk_area ps xs) = Inr (mk_area ps zs)"
    "length zs = length ps"
    "\<And>i. i < length ps \<Longrightarrow> zs ! i = (if i \<in> fst ` set (noKeyPropertyDescriptors ps) then ?h i (xs ! i) else xs ! i)"
    by blast
  have "i \<in> fst ` set (noKeyPropertyDescriptors ps) \<longleftrightarrow> \<not> isKey (ps ! i)" if "i < length ps" for i
    using that by (force simp: set_noKeyPropertyDescriptors)
  then have "zs = List.map (\<lambda>i. if \<not> isKey (ps ! i) \<and> pd_index (ps ! i) \<in> ps_members inc
                                   then ys ! i else xs ! i) [0..<length ps]"
    using zs(2,3) by (intro nth_equalityI) auto
  then show ?thesis
    using zs(1) by (simp add: updateWithoutKeys_def Let_def)
qed

lemma ps_members_key_loop:
  "\<forall>p \<in> set ps. pd_index p < 32 \<Longrightarrow>
   ps_members (fold (\<lambda>p acc. if isKey p then ps_add acc (pd_set p) else acc) ps s) =
   ps_members s \<union> {pd_index p | p. p \<in> set ps \<and> isKey p}"
  by (induction ps arbitrary: s) (auto split: if_splits)

lemma mem_keyProperties:
  assumes "wf_tags (propertyDescriptors sd)" "i < length (propertyDescriptors sd)"
  shows "pd_index (propertyDescriptors sd ! i) \<in> ps_members (keyProperties sd) \<longleftrightarrow>
         isKey (propertyDescriptors sd ! i)"
proof -
  have "ps_members (keyProperties sd) =
      {pd_index p | p. p \<in> set (propertyDescriptors sd) \<and> isKey p}"
    using ps_members_key_loop [of "propertyDescriptors sd" ps_None] assms(1)
    by (simp add: keyProperties_def wf_tags_def)
  then show ?thesis
    using assms pd_index_eq_iff [OF assms(1)] by (auto simp: in_set_conv_nth)
qed

lemma updateWithoutKeys_ok:
  assumes "key_ok ps a" "wf_area ps b" and ps: "ps = propertyDescriptors sd"
  shows "\<exists>a'. updateWithoutKeys ps a b inc = Inr a' \<and> key_ok ps a'
     \<and> (\<forall>i p. (i, p) \<in> set (keyPropertyDescriptors ps) \<longrightarrow> storage i a' = storage i a)
     \<and> area_map ps a' =
         (\<lambda>t. if t \<in> ps_members inc - ps_members (keyProperties sd) then area_map ps b t else area_map ps a t)"
proof -
  have wf: "wf_tags ps" "wf_area ps a" using assms(1) by (simp_all add: key_ok_def)
  obtain xs where xs: "length xs = length ps" "a = mk_area ps xs" using wf by (auto elim: wf_areaE)
  obtain ys where ys: "length ys = length ps" "b = mk_area ps ys" using wf assms(2) by (auto elim: wf_areaE)
  let ?zs = "List.map (\<lambda>i. if \<not> isKey (ps ! i) \<and> pd_index (ps ! i) \<in> ps_members inc
                           then ys ! i else xs ! i) [0..<length ps]"
  have "updateWithoutKeys ps a b inc = Inr (mk_area ps ?zs)"
    using updateWithoutKeys_mk [OF wf(1) xs(1) ys(1)] by (simp add: xs(2) ys(2))
  moreover have "key_ok ps (mk_area ps ?zs)"
    using assms(1) xs by (simp add: key_ok_def)
  moreover have "storage i (mk_area ps ?zs) = storage i a"
    if "(i, p) \<in> set (keyPropertyDescriptors ps)" for i p
    using that xs by (auto simp: set_keyPropertyDescriptors storage_def)
  moreover have "area_map ps (mk_area ps ?zs) =
      (\<lambda>t. if t \<in> ps_members inc - ps_members (keyProperties sd) then area_map ps b t else area_map ps a t)"
    using wf(1) xs ys mem_keyProperties [of sd]
    by (intro ext area_map_slots) (auto simp flip: ps)
  ultimately show ?thesis by blast
qed

section \<open>The container as a set of clones\<close>

definition container_ok :: "container \<Rightarrow> bool" where
  "container_ok c \<longleftrightarrow>
     map_ok (Collect (key_ok (cont_props c))) (key_compare (cont_props c)) (m_instances c)"

definition clones :: "container \<Rightarrow> clone set" where
  "clones c = set (m_instances c)"

text \<open>A clone of the instance: one with equal keys.\<close>

abbreviation clone_of :: "container \<Rightarrow> area \<Rightarrow> clone \<Rightarrow> bool" where
  "clone_of c a clone \<equiv> clone \<in> clones c \<and> key_equal (cont_props c) (fst clone) a"

lemma findClone_Some:
  assumes "container_ok c" "key_ok (cont_props c) a"
  shows "findClone a c = Some clone \<longleftrightarrow> clone_of c a clone"
  using container_keys.map_find_Some [of "cont_props c" "m_instances c" a clone] assms
  by (simp add: findClone_def container_ok_def clones_def)

lemma findClone_None:
  assumes "container_ok c" "key_ok (cont_props c) a"
  shows "findClone a c = None \<longleftrightarrow> (\<forall>clone \<in> clones c. \<not> key_equal (cont_props c) (fst clone) a)"
  using container_keys.map_find_None [of "cont_props c" "m_instances c" a] assms
  by (simp add: findClone_def container_ok_def clones_def)

lemma container_ok_new: "container_ok (container_new sd)"
  by (simp add: container_ok_def container_new_def container_keys.map_ok_Nil)

lemma clone_key_ok: "container_ok c \<Longrightarrow> clone \<in> clones c \<Longrightarrow> key_ok (cont_props c) (fst clone)"
  using container_keys.map_ok_C by (fastforce simp: container_ok_def clones_def)

lemma insert_unknown:
  assumes "container_ok c" "key_ok (cont_props c) a" "findClone a c = None"
  shows "\<exists>c' info. container_insert now h a c = (c', Inr (a, info))
     \<and> container_ok c' \<and> cont_descriptor c' = cont_descriptor c
     \<and> clones c' = insert (a, info) (clones c) \<and> container_size c' = Suc (container_size c)
     \<and> findClone a c' = Some (a, info)
     \<and> lastOperation info = Some Mt_create \<and> createdFrom info = hd_sender h
     \<and> created info = hd_sentTime h \<and> lastUpdateFrom info = hd_sender h
     \<and> modified info = hd_sentTime h \<and> localUpdateTime info = Some now"
proof -
  let ?info = "\<lparr>lastOperation = Some Mt_create, lastUpdateFrom = hd_sender h,
     created = hd_sentTime h, createdFrom = hd_sender h,
     modified = hd_sentTime h, localUpdateTime = Some now\<rparr>"
  let ?c = "c\<lparr>m_instances := map_insert (key_compare (cont_props c)) (a, ?info) (m_instances c)\<rparr>"
  have wf: "wf_tags (cont_props c)" "wf_area (cont_props c) a" using assms(2) by (simp_all add: key_ok_def)
  have ins: "container_insert now h a c = (?c, Inr (a, ?info))"
    using assms(3) wf struct_construct_mk
    by (auto simp: container_insert_def findClone_def Let_def elim!: wf_areaE)
  have ok: "container_ok ?c" "clones ?c = insert (a, ?info) (clones c)"
    "container_size ?c = Suc (container_size c)"
    using container_keys.map_insert_ok [of "cont_props c" "m_instances c" "(a, ?info)"] assms
    by (simp_all add: container_ok_def clones_def container_size_def findClone_def)
  have "findClone a ?c = Some (a, ?info)"
    using ok(2) findClone_Some [OF ok(1), of a "(a, ?info)"] assms(2) container_keys.eq_refl [of a "cont_props c"]
    by simp
  then show ?thesis using ins ok by (intro exI [of _ ?c] exI [of _ ?info]) simp
qed


text \<open>What is left in the map after a clone has been extracted.\<close>

definition extracted :: "area \<Rightarrow> container \<Rightarrow> container" where
  "extracted a c = c\<lparr>m_instances := map_extract (key_compare (cont_props c)) a (m_instances c)\<rparr>"

lemma extracted_ok:
  assumes "container_ok c" "key_ok (cont_props c) a" "findClone a c = Some clone"
  shows "container_ok (extracted a c)" "cont_descriptor (extracted a c) = cont_descriptor c"
    "clones (extracted a c) = clones c - {clone}" "findClone a (extracted a c) = None"
    "clone \<in> clones c" "key_equal (cont_props c) (fst clone) a" "key_ok (cont_props c) (fst clone)"
proof -
  let ?ps = "cont_props c"
  have ok: "map_ok (Collect (key_ok ?ps)) (key_compare ?ps) (m_instances c)"
    using assms(1) by (simp add: container_ok_def)
  have rest: "clones (extracted a c) = {e \<in> clones c. \<not> key_equal ?ps (fst e) a}"
    "container_ok (extracted a c)"
    using container_keys.map_extract_ok [OF ok, of a] assms(2)
    by (simp_all add: extracted_def clones_def container_ok_def)
  have cl: "clone_of c a e \<longleftrightarrow> e = clone" for e
    using findClone_Some [OF assms(1,2), of e] assms(3) by auto
  show "container_ok (extracted a c)" by fact
  show desc: "cont_descriptor (extracted a c) = cont_descriptor c" by (simp add: extracted_def)
  show "clones (extracted a c) = clones c - {clone}" using cl unfolding rest(1) by blast
  show "findClone a (extracted a c) = None"
    using findClone_None [OF rest(2), of a] assms(2) desc by (auto simp: rest(1))
  show "clone \<in> clones c" "key_equal ?ps (fst clone) a" using cl by blast+
  then show "key_ok ?ps (fst clone)" using clone_key_ok [OF assms(1)] by simp
qed

text \<open>The clone with its new values, put back into the map.\<close>

lemma reinserted_ok:
  assumes "container_ok c" "key_ok (cont_props c) a" "findClone a c = Some (existing, info)"
    and "key_ok (cont_props c) updated"
    and "\<And>i p. (i, p) \<in> set (keyPropertyDescriptors (cont_props c)) \<Longrightarrow> storage i updated = storage i existing"
    and "c' = c\<lparr>m_instances := map_insert (key_compare (cont_props c)) (updated, info')
                  (m_instances (extracted a c))\<rparr>"
  shows "container_ok c'" "clones c' = clones c - {(existing, info)} \<union> {(updated, info')}"
    "findClone a c' = Some (updated, info')"
proof -
  let ?ps = "cont_props c" and ?e = "extracted a c"
  note e = extracted_ok [OF assms(1-3)]
  have keys: "key_equal ?ps updated b = key_equal ?ps existing b"
    "key_compare ?ps updated b = key_compare ?ps existing b"
    "key_compare ?ps b updated = key_compare ?ps b existing" for b
    using assms(5) key_compare_same_keys [of ?ps updated existing b] by (auto simp: key_equal_def)
  have ex: "key_ok ?ps existing" "key_equal ?ps existing a" using e(6,7) by simp_all
  have upd_ex: "key_equal ?ps b updated \<longleftrightarrow> key_equal ?ps b existing" if "key_ok ?ps b" for b
    using that ex(1) assms(4) keys container_keys.eq_iff [of b ?ps updated]
      container_keys.eq_iff [of b ?ps existing] by simp
  have iff: "key_equal ?ps b updated \<longrightarrow> key_equal ?ps b a" if "key_ok ?ps b" for b
    using container_keys.eq_trans [of b ?ps existing a] that ex assms(2) unfolding upd_ex [OF that] by simp
  have "\<not> key_equal ?ps (fst d) updated" if d: "d \<in> clones ?e" for d
  proof -
    have "key_ok ?ps (fst d)" using clone_key_ok [OF e(1) d] e(2) by simp
    moreover have "\<not> key_equal ?ps (fst d) a"
      using findClone_None [OF e(1), of a] e(2,4) assms(2) d by simp
    ultimately show ?thesis using iff by blast
  qed
  then have none: "map_find (key_compare ?ps) updated (m_instances ?e) = None"
    using findClone_None [OF e(1), of updated] assms(4) e(2) by (simp add: findClone_def)
  show ok: "container_ok c'" "clones c' = clones c - {(existing, info)} \<union> {(updated, info')}"
    using container_keys.map_insert_ok [of ?ps "m_instances ?e" "(updated, info')"] assms(4) none e(1-3)
    by (simp_all add: assms(6) container_ok_def clones_def)
  show "findClone a c' = Some (updated, info')"
    using findClone_Some [OF ok(1), of a "(updated, info')"] ok(2) e(6) assms(2)
    by (simp add: keys assms(6))
qed

lemma insert_known:
  assumes "container_ok c" "key_ok (cont_props c) a" "findClone a c = Some (existing, info)"
    and "hd_attributes h = Some attributes"
  shows "\<exists>c' updated info'. container_insert now h a c = (c', Inr (updated, info'))
     \<and> container_ok c' \<and> cont_descriptor c' = cont_descriptor c
     \<and> clones c' = clones c - {(existing, info)} \<union> {(updated, info')}
     \<and> findClone a c' = Some (updated, info')
     \<and> area_map (cont_props c) updated =
         (\<lambda>t. if t \<in> ps_members attributes - ps_members (keyProperties (cont_descriptor c))
              then area_map (cont_props c) a t else area_map (cont_props c) existing t)
     \<and> info' = info\<lparr>lastOperation := Some Mt_update, lastUpdateFrom := hd_sender h,
         modified := hd_sentTime h, localUpdateTime := Some now\<rparr>"
proof -
  let ?ps = "cont_props c"
  have "key_ok ?ps existing" using extracted_ok(7) [OF assms(1-3)] by simp
  moreover have "wf_area ?ps a" using assms(2) by (simp add: key_ok_def)
  ultimately obtain updated where up: "updateWithoutKeys ?ps existing a attributes = Inr updated"
    "key_ok ?ps updated"
    "\<And>i p. (i, p) \<in> set (keyPropertyDescriptors ?ps) \<Longrightarrow> storage i updated = storage i existing"
    "area_map ?ps updated = (\<lambda>t. if t \<in> ps_members attributes - ps_members (keyProperties (cont_descriptor c))
              then area_map ?ps a t else area_map ?ps existing t)"
    using updateWithoutKeys_ok [OF _ _ refl] by blast
  let ?info = "info\<lparr>lastOperation := Some Mt_update, lastUpdateFrom := hd_sender h,
         modified := hd_sentTime h, localUpdateTime := Some now\<rparr>"
  let ?c = "c\<lparr>m_instances := map_insert (key_compare ?ps) (updated, ?info) (m_instances (extracted a c))\<rparr>"
  have "container_insert now h a c = (?c, Inr (updated, ?info))"
    using assms(3,4) up(1) by (simp add: container_insert_def findClone_def Let_def extracted_def)
  then show ?thesis
    using reinserted_ok [OF assms(1-3) up(2,3) refl, where info' = ?info] up(4)
    by (intro exI [of _ ?c] exI [of _ updated] exI [of _ ?info]) simp
qed

text \<open>C9: Inserting an instance with valid keys into a well-formed container keeps the container well
  formed and returns the clone under that key: an unknown instance is copied as a new clone
  marked as created, a known one takes over exactly the non-key properties named in the header
  attributes and keeps its creation data, and no other clone changes.\<close>

theorem container_insert_effect:
  assumes "container_ok c" "key_ok (cont_props c) a" "hd_attributes h = Some attributes"
  shows "\<exists>c' updated info'. container_insert now h a c = (c', Inr (updated, info'))
     \<and> container_ok c' \<and> cont_descriptor c' = cont_descriptor c
     \<and> findClone a c' = Some (updated, info')
     \<and> lastUpdateFrom info' = hd_sender h \<and> modified info' = hd_sentTime h
     \<and> localUpdateTime info' = Some now
     \<and> (case findClone a c of
          None \<Rightarrow> updated = a \<and> clones c' = insert (a, info') (clones c)
            \<and> lastOperation info' = Some Mt_create
            \<and> createdFrom info' = hd_sender h \<and> created info' = hd_sentTime h
        | Some (existing, info) \<Rightarrow>
            clones c' = clones c - {(existing, info)} \<union> {(updated, info')}
            \<and> area_map (cont_props c) updated =
                (\<lambda>t. if t \<in> ps_members attributes - ps_members (keyProperties (cont_descriptor c))
                     then area_map (cont_props c) a t else area_map (cont_props c) existing t)
            \<and> lastOperation info' = Some Mt_update
            \<and> createdFrom info' = createdFrom info \<and> created info' = created info)"
proof (cases "findClone a c")
  case None
  then show ?thesis using insert_unknown [OF assms(1,2) None, of now h] by auto
next
  case (Some clone)
  obtain existing info where clone: "clone = (existing, info)" by (cases clone)
  show ?thesis
    using insert_known [OF assms(1,2) Some [unfolded clone] assms(3), of now] unfolding Some clone by auto
qed

text \<open>An update of a known instance whose header has no attributes throws after the clone was
  taken out of the map, so the container loses the clone.\<close>

theorem container_insert_without_attributes:
  assumes "container_ok c" "key_ok (cont_props c) a" "findClone a c = Some clone"
    and "hd_attributes h = None"
  shows "\<exists>c' e. container_insert now h a c = (c', Inl (RuntimeError e))
     \<and> container_ok c' \<and> clones c' = clones c - {clone} \<and> findClone a c' = None"
proof -
  have "\<exists>e. container_insert now h a c = (extracted a c, Inl (RuntimeError e))"
    using assms(3,4)
    by (cases clone) (simp add: container_insert_def findClone_def Let_def deref_def extracted_def)
  then show ?thesis using extracted_ok [OF assms(1-3)] by blast
qed

lemma remove_known:
  assumes "container_ok c" "key_ok (cont_props c) a" "findClone a c = Some (existing, info)"
    and "hd_attributes h = Some attributes"
  shows "\<exists>removed. container_remove now h a c =
            (extracted a c, Inr (Some (removed, info\<lparr>lastOperation := Some Mt_remove,
                lastUpdateFrom := hd_sender h, modified := hd_sentTime h, localUpdateTime := Some now\<rparr>)))
          \<and> area_map (cont_props c) removed =
              (\<lambda>t. if t \<in> ps_members attributes - ps_members (keyProperties (cont_descriptor c))
                   then area_map (cont_props c) a t else area_map (cont_props c) existing t)"
proof -
  have "key_ok (cont_props c) existing" using extracted_ok(7) [OF assms(1-3)] by simp
  moreover have "wf_area (cont_props c) a" using assms(2) by (simp add: key_ok_def)
  ultimately obtain removed where "updateWithoutKeys (cont_props c) existing a attributes = Inr removed"
    "area_map (cont_props c) removed =
       (\<lambda>t. if t \<in> ps_members attributes - ps_members (keyProperties (cont_descriptor c))
            then area_map (cont_props c) a t else area_map (cont_props c) existing t)"
    using updateWithoutKeys_ok [OF _ _ refl] by blast
  then show ?thesis
    using assms(3,4) by (simp add: container_remove_def findClone_def Let_def extracted_def)
qed

text \<open>C10: Removing an instance with valid keys, by a header that names its attributes, takes exactly
  the clone with equal keys out of a well-formed container, hands it out updated with the
  named non-key properties and marked as removed, and leaves a container without that clone
  alone. Without attributes in the header the code throws after it has lost the clone.\<close>

theorem container_remove_effect:
  assumes "container_ok c" "key_ok (cont_props c) a" "hd_attributes h = Some attributes"
  shows "case findClone a c of
      None \<Rightarrow> container_remove now h a c = (c, Inr None)
    | Some (existing, info) \<Rightarrow>
        \<exists>c' removed. container_remove now h a c =
            (c', Inr (Some (removed, info\<lparr>lastOperation := Some Mt_remove, lastUpdateFrom := hd_sender h,
                modified := hd_sentTime h, localUpdateTime := Some now\<rparr>)))
          \<and> container_ok c' \<and> clones c' = clones c - {(existing, info)} \<and> findClone a c' = None
          \<and> area_map (cont_props c) removed =
              (\<lambda>t. if t \<in> ps_members attributes - ps_members (keyProperties (cont_descriptor c))
                   then area_map (cont_props c) a t else area_map (cont_props c) existing t)"
proof (cases "findClone a c")
  case None
  then show ?thesis by (simp add: container_remove_def findClone_def Let_def)
next
  case (Some clone)
  obtain existing info where clone: "clone = (existing, info)" by (cases clone)
  show ?thesis
    using remove_known [OF assms(1,2) Some [unfolded clone] assms(3), of now] extracted_ok [OF assms(1,2) Some]
    unfolding Some clone by (simp only: option.case prod.case) blast
qed

section \<open>A sequence of transmissions\<close>

definition container_apply :: "64 word \<times> dots_header \<times> area \<Rightarrow> container \<Rightarrow> container" where
  "container_apply t c =
     (case t of (now, h, a) \<Rightarrow>
        if hd_removeObj h = Some True then fst (container_remove now h a c)
        else fst (container_insert now h a c))"

lemma container_apply_step:
  assumes "container_ok c" "key_ok (cont_props c) a" "hd_attributes h = Some attributes"
    and "key_ok (cont_props c) k" "c' = container_apply (now, h, a) c"
  shows "container_ok c' \<and> cont_descriptor c' = cont_descriptor c \<and>
     (findClone k c' \<noteq> None \<longleftrightarrow>
       (if key_equal (cont_props c) a k then hd_removeObj h \<noteq> Some True else findClone k c \<noteq> None))"
proof -
  let ?ps = "cont_props c"
  have present: "findClone k d \<noteq> None \<longleftrightarrow> (\<exists>e \<in> clones d. key_equal ?ps (fst e) k)"
    if "container_ok d" "cont_descriptor d = cont_descriptor c" for d
    using findClone_None [OF that(1), of k] assms(4) that(2) by auto
  have via_a: "key_equal ?ps b k \<longleftrightarrow> key_equal ?ps a k" if "key_ok ?ps b" "key_equal ?ps b a" for b
    using that assms(2,4) container_keys.eq_trans [of b ?ps a k] container_keys.eq_trans [of a ?ps b k]
      container_keys.eq_sym [of b ?ps a] by auto
  show ?thesis
  proof (cases "findClone a c")
    case None
    then have not_a: "\<not> key_equal ?ps (fst e) k" if "e \<in> clones c" "key_equal ?ps a k" for e
      using that findClone_None [OF assms(1,2)] clone_key_ok [OF assms(1) that(1)] assms(2,4)
        container_keys.eq_trans [of "fst e" ?ps k a] container_keys.eq_sym [of a ?ps k] by auto
    show ?thesis
    proof (cases "hd_removeObj h = Some True")
      case True
      then have "c' = c" using None
        by (simp add: assms(5) container_apply_def container_remove_def findClone_def Let_def)
      then show ?thesis using True not_a present [OF assms(1) refl] assms(1) by auto
    next
      case False
      obtain info where "container_ok c'" "cont_descriptor c' = cont_descriptor c"
        "clones c' = insert (a, info) (clones c)"
        using insert_unknown [OF assms(1,2) None, of now h] False by (auto simp: assms(5) container_apply_def)
      then show ?thesis using False present [of c'] present [OF assms(1) refl] by auto
    qed
  next
    case (Some clone)
    note e = extracted_ok [OF assms(1,2) Some]
    have clone_k: "key_equal ?ps (fst clone) k \<longleftrightarrow> key_equal ?ps a k"
      using via_a e(6,7) by blast
    have other: "\<not> key_equal ?ps (fst d) k" if "d \<in> clones c - {clone}" "key_equal ?ps a k" for d
    proof -
      have d: "d \<in> clones (extracted a c)" using that(1) e(3) by simp
      have "key_ok ?ps (fst d)" using clone_key_ok [OF e(1) d] e(2) by simp
      moreover have "\<not> key_equal ?ps (fst d) a"
        using findClone_None [OF e(1), of a] e(2,4) assms(2) d by simp
      ultimately show ?thesis
        using that(2) assms(2,4) container_keys.eq_trans [of "fst d" ?ps k a]
          container_keys.eq_sym [of a ?ps k] by auto
    qed
    show ?thesis
    proof (cases "hd_removeObj h = Some True")
      case True
      have "c' = extracted a c"
        using remove_known [OF assms(1,2) _ assms(3), of "fst clone" "snd clone" now] Some True
        by (auto simp: assms(5) container_apply_def)
      then show ?thesis
        using True e present [OF e(1,2)] present [OF assms(1) refl] other clone_k by auto
    next
      case False
      obtain updated info' where c': "container_ok c'" "cont_descriptor c' = cont_descriptor c"
        "clones c' = clones c - {clone} \<union> {(updated, info')}" "findClone a c' = Some (updated, info')"
        using insert_known [OF assms(1,2) _ assms(3), of "fst clone" "snd clone" now] Some False
        by (auto simp: assms(5) container_apply_def)
      have "key_equal ?ps updated a" "key_ok ?ps updated"
        using extracted_ok(6,7) [OF c'(1) _ c'(4)] assms(2) c'(2) by simp_all
      then have "key_equal ?ps updated k \<longleftrightarrow> key_equal ?ps a k" using via_a by blast
      then show ?thesis
        using False c' present [of c'] present [OF assms(1) refl] other clone_k e(5) by auto
    qed
  qed
qed

lemma last_split_snoc:
  assumes "\<And>x. Q x \<Longrightarrow> E x"
  shows "(\<exists>before x after. ts @ [t] = before @ x # after \<and> Q x \<and> (\<forall>y \<in> set after. \<not> E y)) \<longleftrightarrow>
         Q t \<or> (\<not> E t \<and> (\<exists>before x after. ts = before @ x # after \<and> Q x \<and> (\<forall>y \<in> set after. \<not> E y)))"
    (is "?l \<longleftrightarrow> ?r")
proof
  assume ?l
  then obtain before x after where x: "ts @ [t] = before @ x # after" "Q x" "\<forall>y \<in> set after. \<not> E y"
    by blast
  show ?r
  proof (cases after rule: rev_cases)
    case (snoc after' y)
    then have "y = t" "ts = before @ x # after'" using x(1) by auto
    then show ?thesis using x(2,3) snoc by auto
  qed (use x in simp)
next
  assume ?r
  then show ?l
  proof
    assume "Q t"
    then show ?l by (intro exI [of _ ts] exI [of _ t] exI [of _ "[]"]) simp
  next
    assume "\<not> E t \<and> (\<exists>before x after. ts = before @ x # after \<and> Q x \<and> (\<forall>y \<in> set after. \<not> E y))"
    then obtain before x after where "\<not> E t" "ts = before @ x # after" "Q x" "\<forall>y \<in> set after. \<not> E y" by blast
    then show ?l by (intro exI [of _ before] exI [of _ x] exI [of _ "after @ [t]"]) simp
  qed
qed

text \<open>C11: After any sequence of transmissions with valid keys, each by a header that names its
  attributes, a container is well formed, and holds a clone of a key exactly when the last
  transmission for that key was not a removal. A header without attributes makes the code lose
  the clone.\<close>

theorem container_holds_last_update:
  assumes "\<forall>(now, h, a) \<in> set ts. key_ok (propertyDescriptors sd) a \<and> hd_attributes h \<noteq> None"
    and "key_ok (propertyDescriptors sd) k"
  shows "container_ok (fold container_apply ts (container_new sd))
    \<and> (findClone k (fold container_apply ts (container_new sd)) \<noteq> None \<longleftrightarrow>
        (\<exists>before x after. ts = before @ x # after
           \<and> (key_equal (propertyDescriptors sd) (snd (snd x)) k \<and> hd_removeObj (fst (snd x)) \<noteq> Some True)
           \<and> (\<forall>y \<in> set after. \<not> key_equal (propertyDescriptors sd) (snd (snd y)) k)))"
proof -
  let ?run = "\<lambda>ts. fold container_apply ts (container_new sd)"
  let ?E = "\<lambda>x. key_equal (propertyDescriptors sd) (snd (snd x)) k"
  let ?Q = "\<lambda>x. ?E x \<and> hd_removeObj (fst (snd x)) \<noteq> Some True"
  have "container_ok (?run ts) \<and> cont_descriptor (?run ts) = sd \<and>
    (findClone k (?run ts) \<noteq> None \<longleftrightarrow>
      (\<exists>before x after. ts = before @ x # after \<and> ?Q x \<and> (\<forall>y \<in> set after. \<not> ?E y)))"
    using assms(1)
  proof (induction ts rule: rev_induct)
    case Nil
    then show ?case using container_ok_new [of sd]
      by (simp add: container_new_def findClone_def map_find_def)
  next
    case (snoc t ts)
    obtain now h a where t: "t = (now, h, a)" by (cases t)
    have IH: "container_ok (?run ts)" "cont_descriptor (?run ts) = sd"
      "findClone k (?run ts) \<noteq> None \<longleftrightarrow>
        (\<exists>before x after. ts = before @ x # after \<and> ?Q x \<and> (\<forall>y \<in> set after. \<not> ?E y))"
      using snoc by auto
    obtain attributes where h: "hd_attributes h = Some attributes" using snoc.prems by (auto simp: t)
    have "key_ok (cont_props (?run ts)) a" "key_ok (cont_props (?run ts)) k"
      using snoc.prems assms(2) IH(2) by (auto simp: t)
    note step = container_apply_step [OF IH(1) this(1) h this(2) refl, of now]
    have "findClone k (?run (ts @ [t])) \<noteq> None \<longleftrightarrow>
      ?Q t \<or> (\<not> ?E t \<and> (\<exists>before x after. ts = before @ x # after \<and> ?Q x \<and> (\<forall>y \<in> set after. \<not> ?E y)))"
      using step IH(2,3) by (simp add: t)
    also have "\<dots> \<longleftrightarrow> (\<exists>before x after. ts @ [t] = before @ x # after \<and> ?Q x \<and> (\<forall>y \<in> set after. \<not> ?E y))"
      by (rule last_split_snoc [symmetric]) simp
    finally show ?case using step IH(2) by (simp add: t)
  qed
  then show ?thesis by blast
qed

section \<open>The container laws at concrete instances\<close>

definition example_sd :: sdesc where
  "example_sd = StructDescriptor ''Example'' Flag_Cached example_props"

definition example_header :: "property_set \<Rightarrow> dots_header" where
  "example_header attributes =
     \<lparr>hd_typeName = Some ''Example'', hd_sentTime = Some 7, hd_serverSentTime = None,
      hd_attributes = Some attributes, hd_sender = Some 3, hd_fromCache = None,
      hd_removeObj = None, hd_isFromMyself = None\<rparr>"

definition example_info :: clone_info where
  "example_info = \<lparr>lastOperation = Some Mt_create, lastUpdateFrom = Some 3, created = Some 7,
     createdFrom = Some 3, modified = Some 7, localUpdateTime = Some 8\<rparr>"

definition example_container :: container where
  "example_container = \<lparr>cont_descriptor = example_sd,
     m_instances = [(example_area (Some 1) (Some ''a'') None, example_info)]\<rparr>"

lemma example_key_ok: "key_ok example_props (example_area (Some i) t n)"
  by (auto simp: key_ok_def example_wf_tags)
    (auto simp: example_props_def example_area_def less_Suc_eq)

lemma example_sd_props [simp]: "propertyDescriptors example_sd = example_props"
  by (simp add: example_sd_def)

lemma example_cont_props [simp]: "cont_props example_container = example_props"
  by (simp add: example_container_def)

lemma example_container_ok: "container_ok example_container"
  using example_key_ok
  by (simp add: container_ok_def map_ok_def) (simp add: example_container_def example_key_ok)

lemma example_header_attributes [simp]: "hd_attributes (example_header s) = Some s"
  by (simp add: example_header_def)

lemma container_insert_effect_witness:
  "\<exists>c' clone. container_insert 9 (example_header ps_All) (example_area (Some 1) (Some ''b'') None) example_container
     = (c', Inr clone) \<and> container_ok c'"
  using container_insert_effect [OF example_container_ok, of "example_area (Some 1) (Some ''b'') None"
      "example_header ps_All" ps_All 9] example_key_ok by auto

lemma container_remove_effect_witness:
  "\<exists>c' removed info. container_remove 9 (example_header ps_All) (example_area (Some 1) (Some ''b'') None) example_container
      = (c', Inr (Some (removed, info))) \<and> lastOperation info = Some Mt_remove \<and> container_ok c' \<and> clones c' = {}"
proof -
  let ?a = "example_area (Some 1) (Some ''b'') None"
  have f: "findClone ?a example_container = Some (example_area (Some 1) (Some ''a'') None, example_info)"
    by (simp add: example_container_def findClone_def map_find_def key_compare_def
        keyPropertyDescriptors_def example_props_def storage_def slot_def example_area_def)
  have k: "key_ok (cont_props example_container) ?a" "hd_attributes (example_header ps_All) = Some ps_All"
    using example_key_ok by simp_all
  have "clones example_container = {(example_area (Some 1) (Some ''a'') None, example_info)}"
    by (simp add: clones_def example_container_def)
  then show ?thesis
    using container_remove_effect [OF example_container_ok k, of 9] unfolding f option.case prod.case
    by (elim exE conjE) (intro exI conjI, assumption, simp_all)
qed

lemma container_insert_without_attributes_witness:
  "\<exists>c' e. container_insert 9 (example_header ps_All\<lparr>hd_attributes := None\<rparr>)
     (example_area (Some 1) (Some ''b'') None) example_container = (c', Inl (RuntimeError e))"
proof -
  have "findClone (example_area (Some 1) (Some ''b'') None) example_container =
      Some (example_area (Some 1) (Some ''a'') None, example_info)"
    by (simp add: example_container_def findClone_def map_find_def key_compare_def
        keyPropertyDescriptors_def example_props_def storage_def slot_def example_area_def)
  from container_insert_without_attributes [OF example_container_ok _ this,
      of "example_header ps_All\<lparr>hd_attributes := None\<rparr>" 9]
  show ?thesis using example_key_ok by auto
qed

lemma container_holds_last_update_witness:
  "findClone (example_area (Some 1) None None) (fold container_apply
     [(1, example_header ps_All, example_area (Some 1) (Some ''a'') None),
      (2, example_header ps_All\<lparr>hd_removeObj := Some True\<rparr>, example_area (Some 1) None None)] (container_new example_sd)) = None"
proof -
  let ?k = "example_area (Some 1) None None"
  let ?ts = "[(1, example_header ps_All, example_area (Some 1) (Some ''a'') None),
      (2, example_header ps_All\<lparr>hd_removeObj := Some True\<rparr>, ?k)]"
  have k: "key_ok (propertyDescriptors example_sd) ?k" using example_key_ok by simp
  have "key_equal example_props ?k ?k"
    using container_keys.eq_iff [of ?k example_props ?k] container_keys.irrefl [of ?k example_props] example_key_ok by simp
  then have "\<not> (\<exists>before x after. ?ts = before @ x # after
      \<and> (key_equal (propertyDescriptors example_sd) (snd (snd x)) ?k \<and> hd_removeObj (fst (snd x)) \<noteq> Some True)
      \<and> (\<forall>y \<in> set after. \<not> key_equal (propertyDescriptors example_sd) (snd (snd y)) ?k))"
    by (auto simp: Cons_eq_append_conv)
  moreover have "\<forall>(now, h, a) \<in> set ?ts. key_ok (propertyDescriptors example_sd) a \<and> hd_attributes h \<noteq> None"
    using example_key_ok by simp
  ultimately show ?thesis using container_holds_last_update [of ?ts example_sd ?k] k by blast
qed

end
