(* ===== verification/Stream_Channel.thy ===== *)
theory Stream_Channel
  imports Cbor_Typing Dots_Container
begin

unbundle bit_operations_syntax

text \<open>
  \<open>io/channels/AsyncStreamChannel.h\<close> with the format \<open>v2\<close>: transmissions as frames in a stream of
  bytes, whose size is written ahead of them. Reading and writing are asynchronous; the events are
  the arrival of some bytes and the completion of a write.
\<close>

section \<open>The header as an instance\<close>

definition DotsHeader_props :: "pdesc list" where
  "DotsHeader_props =
     [PropertyDescriptor (Fundamental T_string) ''typeName'' 1 False,
      PropertyDescriptor (Fundamental T_timepoint) ''sentTime'' 2 False,
      PropertyDescriptor (Fundamental T_timepoint) ''serverSentTime'' 7 False,
      PropertyDescriptor (Fundamental T_property_set) ''attributes'' 3 False,
      PropertyDescriptor (Fundamental T_uint32) ''sender'' 5 False,
      PropertyDescriptor (Fundamental T_uint32) ''fromCache'' 8 False,
      PropertyDescriptor (Fundamental T_boolean) ''removeObj'' 4 False,
      PropertyDescriptor (Fundamental T_boolean) ''isFromMyself'' 6 False]"

definition header_slots :: "dots_header \<Rightarrow> val option list" where
  "header_slots h =
     [map_option VString (hd_typeName h), map_option VTimepoint (hd_sentTime h), map_option VTimepoint (hd_serverSentTime h),
      map_option VPropertySet (hd_attributes h), map_option VUInt32 (hd_sender h), map_option VUInt32 (hd_fromCache h),
      map_option VBool (hd_removeObj h), map_option VBool (hd_isFromMyself h)]"

definition header_area :: "dots_header \<Rightarrow> area" where
  "header_area h = mk_area DotsHeader_props (header_slots h)"

fun string_of :: "val option \<Rightarrow> string option" where
  "string_of (Some (VString s)) = Some s" | "string_of _ = None"

fun timepoint_of :: "val option \<Rightarrow> 64 word option" where
  "timepoint_of (Some (VTimepoint w)) = Some w" | "timepoint_of _ = None"

fun set_of :: "val option \<Rightarrow> property_set option" where
  "set_of (Some (VPropertySet s)) = Some s" | "set_of _ = None"

fun uint32_of :: "val option \<Rightarrow> 32 word option" where
  "uint32_of (Some (VUInt32 w)) = Some w" | "uint32_of _ = None"

fun bool_of :: "val option \<Rightarrow> bool option" where
  "bool_of (Some (VBool b)) = Some b" | "bool_of _ = None"

definition header_of :: "area \<Rightarrow> dots_header" where
  "header_of a = \<lparr>hd_typeName = string_of (slot 0 a), hd_sentTime = timepoint_of (slot 1 a),
     hd_serverSentTime = timepoint_of (slot 2 a), hd_attributes = set_of (slot 3 a), hd_sender = uint32_of (slot 4 a),
     hd_fromCache = uint32_of (slot 5 a), hd_removeObj = bool_of (slot 6 a), hd_isFromMyself = bool_of (slot 7 a)\<rparr>"

section \<open>Transmissions\<close>

record stream_transmission =
  tx_id :: "64 word"
  tx_header :: dots_header
  tx_type :: sdesc
  tx_instance :: area

text \<open>
  The serializer appends to its out while it visits, so what was appended before an exception
  stays there.
\<close>

definition seqW :: "bytes \<times> unit result \<Rightarrow> bytes \<times> unit result \<Rightarrow> bytes \<times> unit result" where
  "seqW m k = (case snd m of Inl e \<Rightarrow> m | Inr _ \<Rightarrow> (fst m @ fst k, snd k))"

fun emit_val :: "descr \<Rightarrow> val \<Rightarrow> bytes \<times> unit result"
and emit_props :: "property_set \<Rightarrow> nat \<Rightarrow> pdesc list \<Rightarrow> area \<Rightarrow> bytes \<times> unit result" where
  "emit_val (Fundamental t) v = (write_fund v, Inr ())"
| "emit_val (EnumDescriptor n es) v =
     (case enumeratorFromValue es (enum_of v) of Inl e \<Rightarrow> ([], Inl e) | Inr e \<Rightarrow> (write_uint (ucast (en_tag e)), Inr ()))"
| "emit_val (VectorDescriptor d) v =
     seqW (writeArraySize (of_nat (length (vals_of v))), Inr ()) (foldr seqW (List.map (emit_val d) (vals_of v)) ([], Inr ()))"
| "emit_val (StructD (StructDescriptor n fl ps)) v =
     (let included = ps_intersect (validProperties (area_of v)) (validProperties (area_of v)) in
      seqW (writeMapSize (of_nat (ps_count included)), Inr ()) (emit_props included 0 ps (area_of v)))"
| "emit_props inc i [] a = ([], Inr ())"
| "emit_props inc i (PropertyDescriptor d n t k # ps) a =
     seqW (if ps_le (pd_set (PropertyDescriptor d n t k)) inc
           then seqW (write_uint (ucast t), Inr ())
                  (if isValid (PropertyDescriptor d n t k) a
                   then (case read_slot i a of Inl e \<Rightarrow> ([], Inl e) | Inr v \<Rightarrow> emit_val d v)
                   else ([], Inr ()))
           else ([], Inr ()))
       (emit_props inc (Suc i) ps a)"

definition emit :: "pdesc list \<Rightarrow> area \<Rightarrow> property_set \<Rightarrow> bytes \<times> unit result" where
  "emit ps a inc =
     (let included = ps_intersect inc (validProperties a) in
      seqW (writeMapSize (of_nat (ps_count included)), Inr ()) (emit_props included 0 ps a))"

definition TransmissionSizeSize :: nat where "TransmissionSizeSize = 5"
definition ReadBufferMinSize :: nat where "ReadBufferMinSize = 2048"
definition WriteBufferMaxSize :: nat where "WriteBufferMaxSize = 10 * 1024 * 1024"

text \<open>What a transmission consists of, and the whole of it: the size is written into the storage reserved for it in the end.\<close>

definition payload :: "dots_header \<Rightarrow> sdesc \<Rightarrow> area \<Rightarrow> bytes \<times> unit result" where
  "payload h sd a =
     seqW (emit DotsHeader_props (header_area h) ps_All)
       (case deref ''attributes'' (hd_attributes h) of
          Inl e \<Rightarrow> ([], Inl e)
        | Inr attributes \<Rightarrow> emit (propertyDescriptors sd) a attributes)"

definition serializeTransmission :: "dots_header \<Rightarrow> sdesc \<Rightarrow> area \<Rightarrow> bytes \<Rightarrow> bytes \<times> unit result" where
  "serializeTransmission h sd a out =
     (if WriteBufferMaxSize < length out then (out, Inl (RuntimeError ''async write buffer exceeded maximum size''))
      else
        case payload h sd a of
          (bs, Inl e) \<Rightarrow> (out @ replicate TransmissionSizeSize 0 @ bs, Inl e)
        | (bs, Inr _) \<Rightarrow> (out @ 0x1A # be_write 4 (of_nat (length bs)) @ bs, Inr ()))"

record payload_cache =
  cache_id :: "64 word"
  cache_buffer :: bytes

definition serialize_transmission :: "stream_transmission \<Rightarrow> payload_cache option \<times> bytes \<Rightarrow> (payload_cache option \<times> bytes) \<times> unit result" where
  "serialize_transmission t s =
     (case s of
        (None, out) \<Rightarrow>
          (case serializeTransmission (tx_header t) (tx_type t) (tx_instance t) out of (out', r) \<Rightarrow> ((None, out'), r))
      | (Some cache, out) \<Rightarrow>
          if tx_id t = cache_id cache then ((Some cache, out @ cache_buffer cache), Inr ())
          else
            case serializeTransmission (tx_header t) (tx_type t) (tx_instance t) out of
              (out', Inl e) \<Rightarrow> ((Some cache, out'), Inl e)
            | (out', Inr u) \<Rightarrow>
                ((Some \<lparr>cache_id = tx_id t, cache_buffer = drop (length out) out'\<rparr>, out'), Inr ()))"

section \<open>Writing\<close>

text \<open>\<open>w_started\<close> records all bytes that were given to the stream, the last of them those of \<open>w_buffer\<close>.\<close>

record writer =
  w_output :: bytes
  w_buffer :: bytes
  w_asyncWriting :: bool
  w_started :: bytes

definition writer_new :: writer where
  "writer_new = \<lparr>w_output = [], w_buffer = [], w_asyncWriting = False, w_started = []\<rparr>"

definition asyncWrite :: "writer \<Rightarrow> writer" where
  "asyncWrite w =
     w\<lparr>w_buffer := w_output w, w_output := [], w_asyncWriting := (w_output w \<noteq> []), w_started := w_started w @ w_output w\<rparr>"

definition stream_transmit_with ::
  "(payload_cache option \<times> bytes \<Rightarrow> (payload_cache option \<times> bytes) \<times> unit result) \<Rightarrow>
    payload_cache option \<times> writer \<Rightarrow> (payload_cache option \<times> writer) \<times> unit result" where
  "stream_transmit_with ser s =
     (case s of (cache, w) \<Rightarrow>
      case ser (cache, w_output w) of
        ((cache', out), Inl e) \<Rightarrow> ((cache', w\<lparr>w_output := out\<rparr>), Inl e)
      | ((cache', out), Inr _) \<Rightarrow>
          ((cache', (if w_asyncWriting w then w\<lparr>w_output := out\<rparr> else asyncWrite (w\<lparr>w_output := out\<rparr>))), Inr ()))"

definition stream_transmit :: "stream_transmission \<Rightarrow> payload_cache option \<times> writer \<Rightarrow> (payload_cache option \<times> writer) \<times> unit result" where
  "stream_transmit t = stream_transmit_with (serialize_transmission t)"

text \<open>\<open>transmitImpl(header, instance)\<close>, which never uses the cache.\<close>

definition stream_transmit_instance :: "dots_header \<Rightarrow> sdesc \<Rightarrow> area \<Rightarrow> payload_cache option \<times> writer \<Rightarrow> (payload_cache option \<times> writer) \<times> unit result" where
  "stream_transmit_instance h sd a =
     stream_transmit_with (\<lambda>(cache, out). case serializeTransmission h sd a out of (out', r) \<Rightarrow> ((cache, out'), r))"

section \<open>Reading\<close>

text \<open>
  What the receive handler of the channel and its error handler do, over a state \<open>'h\<close>: go on, stop, or stop having
  deleted the channel. The registry is seen as the struct types it holds.
\<close>

datatype verdict = Continue | Stop | Gone | Raise exn

record 'h stream_env =
  se_types :: "string \<Rightarrow> sdesc option"
  se_receive :: "dots_header \<Rightarrow> sdesc \<Rightarrow> area \<Rightarrow> 'h \<Rightarrow> 'h \<times> verdict"
  se_error :: "exn \<Rightarrow> 'h \<Rightarrow> 'h \<times> bool"

definition deserializeTransmissionSize :: "bytes \<Rightarrow> (nat \<times> bytes) result" where
  "deserializeTransmissionSize inp = bindE (read_uint 4 inp) (\<lambda>(n, r). Inr (unat n, r))"

definition type_error :: "string \<Rightarrow> exn \<Rightarrow> exn" where
  "type_error name e =
     (case e of
        SerializerException s \<Rightarrow> RuntimeError (''deserialization exception in type '' @ name @ '': '' @ s)
      | _ \<Rightarrow> e)"

definition deserializeTransmission ::
  "(string \<Rightarrow> sdesc option) \<Rightarrow> bytes \<Rightarrow> ((dots_header \<times> sdesc \<times> area) \<times> bytes) result" where
  "deserializeTransmission types inp =
     bindE (deserialize DotsHeader_props ps_All (fresh_area DotsHeader_props) inp) (\<lambda>(ha, r).
     bindE (deref ''typeName'' (hd_typeName (header_of ha))) (\<lambda>name.
     bindE (case types name of
              None \<Rightarrow> Inl (LogicError (''no struct type registered with name: '' @ name))
            | Some sd \<Rightarrow> Inr sd) (\<lambda>sd.
       case deserialize (propertyDescriptors sd) ps_All (fresh_area (propertyDescriptors sd)) r of
         Inl e \<Rightarrow> Inl (type_error name e)
       | Inr (a, r') \<Rightarrow> Inr ((header_of ha, sd, a), r'))))"

text \<open>Which bytes the outstanding read waits for: those of a size, or those of a transmission.\<close>

datatype phase = P_size | P_transmission nat

datatype 'h reader =
    Waiting phase bytes 'h
  | Again bytes 'h
  | Stopped 'h
  | Deleted 'h

definition fail :: "'h stream_env \<Rightarrow> exn \<Rightarrow> 'h \<Rightarrow> 'h reader result" where
  "fail env e h =
     (case e of
        UndefinedBehaviour s \<Rightarrow> Inl e
      | _ \<Rightarrow> (case se_error env e h of (h', gone) \<Rightarrow> Inr (if gone then Deleted h' else Stopped h')))"

definition process_transmission :: "'h stream_env \<Rightarrow> bytes \<Rightarrow> 'h \<Rightarrow> 'h reader result" where
  "process_transmission env inp h =
     (case deserializeTransmission (se_types env) inp of
        Inl e \<Rightarrow> fail env e h
      | Inr ((header, sd, a), r) \<Rightarrow>
          (case se_receive env header sd a h of
             (h', Continue) \<Rightarrow> Inr (Again r h')
           | (h', Stop) \<Rightarrow> Inr (Stopped h')
           | (h', Gone) \<Rightarrow> Inr (Deleted h')
           | (h', Raise e) \<Rightarrow> fail env e h'))"

definition process_transmission_size :: "'h stream_env \<Rightarrow> bytes \<Rightarrow> 'h \<Rightarrow> 'h reader result" where
  "process_transmission_size env inp h =
     (case deserializeTransmissionSize inp of
        Inl e \<Rightarrow> fail env e h
      | Inr (n, r) \<Rightarrow> if n \<le> length r then process_transmission env r h else Inr (Waiting (P_transmission n) r h))"


lemma transmission_shorter: "deserializeTransmission types inp = Inr (t, r) \<Longrightarrow> length r < length inp"
proof -
  assume run: "deserializeTransmission types inp = Inr (t, r)"
  then obtain ha r1 where ha: "deserialize DotsHeader_props ps_All (fresh_area DotsHeader_props) inp = Inr (ha, r1)"
    unfolding deserializeTransmission_def bindE_eq_Inr by (elim exE conjE) (case_tac x, blast)
  note run = run [unfolded deserializeTransmission_def ha bindE_simps prod.case]
  obtain name where name: "hd_typeName (header_of ha) = Some name" using run by (cases "hd_typeName (header_of ha)") (simp_all add: deref_def)
  note run = run [unfolded name deref_def option.case bindE_simps]
  obtain sd where sd: "types name = Some sd" using run by (cases "types name") simp_all
  note run = run [unfolded sd option.case bindE_simps]
  let ?x = "deserialize (propertyDescriptors sd) ps_All (fresh_area (propertyDescriptors sd)) r1"
  obtain y where y: "?x = Inr y" using run by (cases ?x) (simp only: sum.case sum.distinct, blast)
  note run = run [unfolded y sum.case]
  have "y = (fst y, r)" using run by (cases y) simp
  then have "?x = Inr (fst y, r)" using y by simp
  from deserialize_shorter [OF this] deserialize_shorter [OF ha] show ?thesis by (rule less_trans)
qed

lemma process_shorter:
  "process_transmission env inp h = Inr (Again r h') \<Longrightarrow> length r < length inp"
  "process_transmission_size env inp h = Inr (Again r h') \<Longrightarrow> length r < length inp"
proof -
  have fails: "fail env e x \<noteq> Inr (Again r h')" for e x by (auto simp: fail_def split: exn.splits prod.splits)
  show 1: "length r < length inp" if "process_transmission env inp h = Inr (Again r h')" for inp
    using that fails
    by (auto simp: process_transmission_def split: sum.splits prod.splits verdict.splits dest!: transmission_shorter)
  show "process_transmission_size env inp h = Inr (Again r h') \<Longrightarrow> length r < length inp"
    using fails by (auto simp: process_transmission_size_def deserializeTransmissionSize_def
        split: sum.splits prod.splits if_splits dest!: 1 read_scalar_length(1))
qed

text \<open>
  \<open>asyncReceiveImpl\<close> goes on with the bytes that are there: the handler is called within
  \<open>asyncRead\<close>, which afterwards reads the flag by which a further \<open>asyncReceiveImpl\<close> tells it to loop.
\<close>

function asyncReceiveImpl :: "'h stream_env \<Rightarrow> bytes \<Rightarrow> 'h \<Rightarrow> 'h reader result" where
  "asyncReceiveImpl env inp h =
     (if length inp < TransmissionSizeSize then Inr (Waiting P_size inp h)
      else
        case process_transmission_size env inp h of
          Inr (Again r h') \<Rightarrow> asyncReceiveImpl env r h'
        | Inr (Deleted h') \<Rightarrow> Inl (UndefinedBehaviour ''flag of a deleted channel'')
        | Inr s \<Rightarrow> Inr s
        | Inl e \<Rightarrow> Inl e)"
  by pat_completeness auto
termination
  by (relation "measure (\<lambda>(env, inp, h). length inp)") (auto dest: process_shorter)

declare asyncReceiveImpl.simps [simp del]

definition required :: "phase \<Rightarrow> nat" where
  "required p = (case p of P_size \<Rightarrow> TransmissionSizeSize | P_transmission n \<Rightarrow> n)"

definition processing :: "'h stream_env \<Rightarrow> phase \<Rightarrow> bytes \<Rightarrow> 'h \<Rightarrow> 'h reader result" where
  "processing env p = (case p of P_size \<Rightarrow> process_transmission_size env | P_transmission n \<Rightarrow> process_transmission env)"

text \<open>The completion of the read that is outstanding, with the bytes it has read.\<close>

definition bytes_arrive :: "'h stream_env \<Rightarrow> bytes \<Rightarrow> 'h reader \<Rightarrow> 'h reader result" where
  "bytes_arrive env chunk s =
     (case s of
        Waiting p inp h \<Rightarrow>
          let inp = inp @ chunk in
          if length inp < required p then Inr (Waiting p inp h)
          else
            (case processing env p inp h of
               Inr (Again r h') \<Rightarrow> asyncReceiveImpl env r h'
             | x \<Rightarrow> x)
      | _ \<Rightarrow> Inr s)"

text \<open>How much is read at once: what is free in the read buffer.\<close>

definition read_space :: "'h reader \<Rightarrow> nat" where
  "read_space s = (case s of Waiting p inp h \<Rightarrow> max ReadBufferMinSize (required p) - length inp | _ \<Rightarrow> 0)"

fun arrivals :: "'h stream_env \<Rightarrow> bytes list \<Rightarrow> 'h reader \<Rightarrow> 'h reader result" where
  "arrivals env [] s = Inr s"
| "arrivals env (chunk # chunks) s = bindE (bytes_arrive env chunk s) (arrivals env chunks)"

section \<open>Headers in transit\<close>

lemma header_wf: "wf_tags DotsHeader_props" "wf_props DotsHeader_props"
  by (simp_all add: wf_tags_def DotsHeader_props_def pd_index_def)

lemma length_header [simp]: "length (header_slots h) = length DotsHeader_props"
  by (simp add: header_slots_def DotsHeader_props_def)

lemma header_slots_ok [simp]: "slots_ok DotsHeader_props (header_slots h)"
  by (auto simp: DotsHeader_props_def header_slots_def split: option.split)

lemma header_area_ok [simp]: "wf_area DotsHeader_props (header_area h)"
  by (simp add: header_area_def header_wf)

lemma header_slots_area [simp]: "slots (header_area h) = header_slots h"
  by (simp add: header_area_def)

lemma header_of_area [simp]: "header_of (header_area h) = h"
proof -
  have *: "string_of (map_option VString x1) = x1" "timepoint_of (map_option VTimepoint x2) = x2"
    "set_of (map_option VPropertySet x3) = x3" "uint32_of (map_option VUInt32 x4) = x4" "bool_of (map_option VBool x5) = x5"
    for x1 x2 x3 x4 x5
    by ((cases x1; simp), (cases x2; simp), (cases x3; simp), (cases x4; simp), (cases x5; simp))
  show ?thesis by (cases h) (simp add: header_of_def slot_def header_slots_def *)
qed


section \<open>Frames\<close>

definition toR :: "bytes \<times> unit result \<Rightarrow> bytes result" where
  "toR m = (case snd m of Inl e \<Rightarrow> Inl e | Inr _ \<Rightarrow> Inr (fst m))"

lemma toR_simps [simp]:
  "toR (bs, Inr u) = Inr bs" "toR (bs, Inl e) = Inl e"
  "toR (seqW m k) = bindE (toR m) (\<lambda>x. bindE (toR k) (\<lambda>y. Inr (x @ y)))"
  by (auto simp: toR_def seqW_def bindE_def split: sum.split)

lemma toR_Inr: "toR m = Inr bs \<longleftrightarrow> m = (bs, Inr ())"
  by (cases m) (auto simp: toR_def split: sum.split)

lemma toR_emits: "concatE (List.map (\<lambda>v. toR (f v)) vs) = toR (foldr seqW (List.map f vs) ([], Inr ()))"
  by (induction vs) simp_all

lemma write_emits:
  "write_val d v = toR (emit_val d v)"
  "write_props inc i ps a = toR (emit_props inc i ps a)"
proof (induction d v and inc i ps a rule: emit_val_emit_props.induct)
  case (3 d v)
  then have eq: "List.map (write_val d) (vals_of v) = List.map (\<lambda>v. toR (emit_val d v)) (vals_of v)" by simp
  show ?case unfolding write_val.simps emit_val.simps eq toR_emits by simp
qed (auto simp: Let_def toR_emits simp del: ps_le_iff isValid_iff split: sum.split)

lemma serialize_emits: "serialize ps a inc = toR (emit ps a inc)"
  by (simp add: serialize_def emit_def Let_def write_emits)

definition frame_of :: "stream_transmission \<Rightarrow> bytes" where
  "frame_of t = (let bs = fst (payload (tx_header t) (tx_type t) (tx_instance t)) in 0x1A # be_write 4 (of_nat (length bs)) @ bs)"

text \<open>A transmission that can be sent and is understood by a receiver that has the types \<open>types\<close>.\<close>

definition sendable :: "(string \<Rightarrow> sdesc option) \<Rightarrow> stream_transmission \<Rightarrow> bool" where
  "sendable types t \<longleftrightarrow>
     (let ps = propertyDescriptors (tx_type t); h = tx_header t; a = tx_instance t in
      wf_tags ps \<and> wf_props ps \<and> wf_area ps a \<and> slots_ok ps (slots a) \<and> encodable_slots ps (slots a)
      \<and> hd_attributes h \<noteq> None \<and> (\<exists>name. hd_typeName h = Some name \<and> types name = Some (tx_type t) \<and> length name < 2 ^ 64)
      \<and> length (fst (payload h (tx_type t) a)) < 2 ^ 32)"

text \<open>What arrives: a fresh instance into which the transmitted properties were merged.\<close>

definition arrives :: "stream_transmission \<Rightarrow> dots_header \<times> sdesc \<times> area" where
  "arrives t =
     (let ps = propertyDescriptors (tx_type t) in
      (tx_header t, tx_type t,
       case struct_merge ps (fresh_area ps) (tx_instance t) (the (hd_attributes (tx_header t))) of Inr b \<Rightarrow> b | Inl _ \<Rightarrow> fresh_area ps))"

lemma header_reads:
  assumes "\<forall>name. hd_typeName h = Some name \<longrightarrow> length name < 2 ^ 64"
  shows "\<exists>bs. emit DotsHeader_props (header_area h) ps_All = (bs, Inr ())
    \<and> (\<forall>rest. deserialize DotsHeader_props ps_All (fresh_area DotsHeader_props) (bs @ rest) = Inr (header_area h, rest))"
proof -
  let ?ps = DotsHeader_props and ?none = "replicate (length DotsHeader_props) None"
  have "encodable_slots ?ps (header_slots h)"
    using assms by (auto simp: DotsHeader_props_def header_slots_def split: option.split)
  then obtain bs where bs: "serialize ?ps (mk_area ?ps (header_slots h)) ps_All = Inr bs"
    "\<And>rest. deserialize ?ps ps_All (mk_area ?ps ?none) (bs @ rest) = Inr (mk_area ?ps (merged_slots ps_All ?ps ?none (header_slots h)), rest)"
    using serialize_reads [OF header_wf length_header header_slots_ok, of h ?none ps_All] by auto
  have "merged_slots ps_All ?ps ?none (header_slots h) = header_slots h"
    using merged_None(2) [OF header_wf(2) header_slots_ok] header_wf(1) by (auto simp: wf_tags_def)
  then show ?thesis using bs by (auto simp: header_area_def serialize_emits toR_Inr fresh_area_mk [OF header_wf(1)])
qed

lemma payload_reads:
  assumes "sendable types t"
  shows "\<exists>bs. payload (tx_header t) (tx_type t) (tx_instance t) = (bs, Inr ())
    \<and> (\<forall>rest. deserializeTransmission types (bs @ rest) = Inr (arrives t, rest))"
proof -
  let ?ps = "propertyDescriptors (tx_type t)" and ?h = "tx_header t" and ?a = "tx_instance t"
  let ?none = "replicate (length ?ps) None"
  have t: "wf_tags ?ps" "wf_props ?ps" "wf_area ?ps ?a" "slots_ok ?ps (slots ?a)" "encodable_slots ?ps (slots ?a)"
    using assms by (auto simp: sendable_def Let_def)
  obtain attrs name where h: "hd_attributes ?h = Some attrs" "hd_typeName ?h = Some name" "types name = Some (tx_type t)" "length name < 2 ^ 64"
    using assms by (auto simp: sendable_def Let_def)
  obtain ys where a: "length ys = length ?ps" "?a = mk_area ?ps ys" using t by (auto elim: wf_areaE)
  obtain hs where hs: "emit DotsHeader_props (header_area ?h) ps_All = (hs, Inr ())"
    "\<And>rest. deserialize DotsHeader_props ps_All (fresh_area DotsHeader_props) (hs @ rest) = Inr (header_area ?h, rest)"
    using header_reads [of ?h] h(2,4) by auto
  obtain bs where bs: "serialize ?ps (mk_area ?ps ys) attrs = Inr bs"
    "\<And>rest. deserialize ?ps ps_All (mk_area ?ps ?none) (bs @ rest) = Inr (mk_area ?ps (merged_slots attrs ?ps ?none ys), rest)"
    using serialize_reads [of ?ps ys ?none attrs] t a by auto
  have "payload ?h (tx_type t) ?a = (hs @ bs, Inr ())"
    using hs(1) bs(1) h(1) a(2) by (simp add: payload_def seqW_def deref_def serialize_emits toR_Inr)
  moreover have "arrives t = (?h, tx_type t, mk_area ?ps (merged_slots attrs ?ps ?none ys))"
    using t a h(1) struct_merge_mk [of ?ps ?none ys attrs] by (simp add: arrives_def Let_def fresh_area_mk)
  moreover have "deserializeTransmission types ((hs @ bs) @ rest) = Inr ((?h, tx_type t, mk_area ?ps (merged_slots attrs ?ps ?none ys)), rest)" for rest
    using hs(2) [of "bs @ rest"] bs(2) [of rest] h(2,3) t(1) by (simp add: deserializeTransmission_def deref_def fresh_area_mk)
  ultimately show ?thesis by auto
qed

lemma size_reads: "n < 2 ^ 32 \<Longrightarrow> deserializeTransmissionSize (0x1A # be_write 4 (of_nat n) @ rest) = Inr (n, rest)"
proof -
  assume n: "n < 2 ^ 32"
  have "readInitialByte MT_UnsignedInt 4 (0x1A # be_write 4 (of_nat n) @ rest) = Inr ((4, 26), be_write 4 (of_nat n) @ rest)"
    by (simp add: readInitialByte_def assertInputAvailable_def readByte_def cbor_constants Let_def)
  then show ?thesis using n
    by (simp add: deserializeTransmissionSize_def read_uint_def readHead_def AI_MaxInplaceValue_def
        unsigned_take_bit_eq unsigned_of_nat take_bit_nat_eq_self)
qed


section \<open>Frames in a stream of bytes\<close>

definition receives :: "'h stream_env \<Rightarrow> stream_transmission \<Rightarrow> 'h \<Rightarrow> 'h" where
  "receives env t s = (case arrives t of (h, sd, a) \<Rightarrow> fst (se_receive env h sd a s))"

text \<open>Handlers that always want more, and transmissions that the receiver understands.\<close>

definition continues :: "'h stream_env \<Rightarrow> bool" where
  "continues env \<longleftrightarrow> (\<forall>h sd a s. snd (se_receive env h sd a s) = Continue)"

definition frame_parts :: "stream_transmission \<Rightarrow> bytes \<times> bytes" where
  "frame_parts t =
     (let bs = fst (payload (tx_header t) (tx_type t) (tx_instance t)) in (0x1A # be_write 4 (of_nat (length bs)), bs))"

lemma frame_parts: "frame_of t = fst (frame_parts t) @ snd (frame_parts t)" "length (fst (frame_parts t)) = TransmissionSizeSize"
  by (simp_all add: frame_of_def frame_parts_def Let_def TransmissionSizeSize_def)

lemma frame_size_reads:
  "sendable types t \<Longrightarrow> deserializeTransmissionSize (fst (frame_parts t) @ rest) = Inr (length (snd (frame_parts t)), rest)"
  using size_reads by (simp add: sendable_def frame_parts_def Let_def)

lemma frame_payload_processed:
  assumes "continues env" "sendable (se_types env) t"
  shows "process_transmission env (snd (frame_parts t) @ rest) s = Inr (Again rest (receives env t s))"
proof -
  obtain bs where bs: "payload (tx_header t) (tx_type t) (tx_instance t) = (bs, Inr ())"
    "deserializeTransmission (se_types env) (bs @ rest) = Inr (arrives t, rest)"
    using payload_reads [OF assms(2)] by blast
  obtain h sd a where t: "arrives t = (h, sd, a)" by (cases "arrives t") blast
  have "snd (se_receive env h sd a s) = Continue" using assms(1) by (simp add: continues_def)
  then obtain s' where "se_receive env h sd a s = (s', Continue)" by (cases "se_receive env h sd a s") simp
  then show ?thesis using bs t by (simp add: frame_parts_def process_transmission_def receives_def)
qed

lemma split_prefix: "xs @ rest = ys @ zs \<Longrightarrow> length ys \<le> length xs \<Longrightarrow> \<exists>us. xs = ys @ us \<and> us @ rest = zs"
  by (auto simp: append_eq_append_conv2)

text \<open>A channel to which \<open>rest\<close> is still to come of the frames of \<open>ts\<close>.\<close>

definition in_step :: "'h stream_env \<Rightarrow> stream_transmission list \<Rightarrow> bytes \<Rightarrow> 'h \<Rightarrow> 'h reader \<Rightarrow> bool" where
  "in_step env ts rest s r \<longleftrightarrow>
     (\<exists>p inp. r = Waiting p inp s \<and> length inp < required p \<and>
       (case p of
          P_size \<Rightarrow> inp @ rest = concat (List.map frame_of ts)
        | P_transmission n \<Rightarrow> \<exists>t ts'. ts = t # ts' \<and> n = length (snd (frame_parts t))
            \<and> inp @ rest = snd (frame_parts t) @ concat (List.map frame_of ts')))"

lemma processed_frame:
  assumes "continues env" "sendable (se_types env) t"
    and "inp @ rest = snd (frame_parts t) @ later" "length (snd (frame_parts t)) \<le> length inp"
  shows "\<exists>inp'. process_transmission env inp s = Inr (Again inp' (receives env t s)) \<and> inp' @ rest = later"
proof -
  obtain inp' where "inp = snd (frame_parts t) @ inp'" "inp' @ rest = later" using split_prefix [OF assms(3,4)] by blast
  then show ?thesis using frame_payload_processed [OF assms(1,2)] by blast
qed

lemma processed_size:
  assumes "continues env" "sendable (se_types env) t"
    and "inp @ rest = frame_of t @ concat (List.map frame_of ts)" "TransmissionSizeSize \<le> length inp"
  shows "(\<exists>inp'. process_transmission_size env inp s = Inr (Again inp' (receives env t s)) \<and> inp' @ rest = concat (List.map frame_of ts))
    \<or> (\<exists>r. process_transmission_size env inp s = Inr r \<and> in_step env (t # ts) rest s r)"
proof -
  obtain inp1 where inp1: "inp = fst (frame_parts t) @ inp1" "inp1 @ rest = snd (frame_parts t) @ concat (List.map frame_of ts)"
    using split_prefix [of inp rest "fst (frame_parts t)"] assms(3,4) frame_parts [of t] by auto
  note size = frame_size_reads [OF assms(2), of inp1]
  show ?thesis
  proof (cases "length (snd (frame_parts t)) \<le> length inp1")
    case True
    then show ?thesis using processed_frame [OF assms(1,2) inp1(2)] size inp1(1) by (simp add: process_transmission_size_def)
  next
    case False
    then have "process_transmission_size env inp s = Inr (Waiting (P_transmission (length (snd (frame_parts t)))) inp1 s)"
      using size inp1(1) by (simp add: process_transmission_size_def)
    then show ?thesis using False inp1(2) by (auto simp: in_step_def required_def)
  qed
qed

lemma loop_in_step:
  assumes "continues env" "\<forall>t \<in> set ts. sendable (se_types env) t" "inp @ rest = concat (List.map frame_of ts)"
  shows "\<exists>taken left r. asyncReceiveImpl env inp s = Inr r \<and> ts = taken @ left \<and> in_step env left rest (fold (receives env) taken s) r"
  using assms(2,3)
proof (induction ts arbitrary: inp s)
  case Nil
  then have "asyncReceiveImpl env inp s = Inr (Waiting P_size [] s)" by (simp add: asyncReceiveImpl.simps TransmissionSizeSize_def)
  then show ?case using Nil by (auto simp: in_step_def required_def TransmissionSizeSize_def)
next
  case (Cons t ts)
  show ?case
  proof (cases "length inp < TransmissionSizeSize")
    case True
    then have "in_step env (t # ts) rest s (Waiting P_size inp s)" using Cons.prems(2) by (simp add: in_step_def required_def)
    moreover have "asyncReceiveImpl env inp s = Inr (Waiting P_size inp s)" using True by (simp add: asyncReceiveImpl.simps)
    ultimately show ?thesis by (intro exI [of _ "[]"] exI [of _ "t # ts"]) auto
  next
    case False
    consider inp' where "process_transmission_size env inp s = Inr (Again inp' (receives env t s))" "inp' @ rest = concat (List.map frame_of ts)"
      | r where "process_transmission_size env inp s = Inr r" "in_step env (t # ts) rest s r"
      using processed_size [OF assms(1), of t inp rest ts s] Cons.prems False by auto
    then show ?thesis
    proof cases
      case (1 inp')
      obtain taken left r where r: "asyncReceiveImpl env inp' (receives env t s) = Inr r" "ts = taken @ left"
        "in_step env left rest (fold (receives env) taken (receives env t s)) r"
        using Cons.IH [OF _ 1(2)] Cons.prems(1) by fastforce
      have "asyncReceiveImpl env inp s = Inr r" using False 1(1) r(1) by (subst asyncReceiveImpl.simps) simp
      then show ?thesis using r by (intro exI [of _ "t # taken"] exI [of _ left] exI [of _ r]) simp
    next
      case (2 r)
      then obtain p i where "r = Waiting p i s" by (auto simp: in_step_def)
      then have "asyncReceiveImpl env inp s = Inr r" using False 2(1) by (subst asyncReceiveImpl.simps) simp
      then show ?thesis using 2(2) by (intro exI [of _ "[]"] exI [of _ "t # ts"] exI [of _ r]) simp
    qed
  qed
qed

lemma arrival_in_step:
  assumes "continues env" "\<forall>t \<in> set ts. sendable (se_types env) t" "in_step env ts (chunk @ rest) s r"
  shows "\<exists>taken left r'. bytes_arrive env chunk r = Inr r' \<and> ts = taken @ left \<and> in_step env left rest (fold (receives env) taken s) r'"
proof -
  obtain p inp where p: "r = Waiting p inp s" "case p of P_size \<Rightarrow> inp @ chunk @ rest = concat (List.map frame_of ts)
        | P_transmission n \<Rightarrow> \<exists>t ts'. ts = t # ts' \<and> n = length (snd (frame_parts t))
            \<and> inp @ chunk @ rest = snd (frame_parts t) @ concat (List.map frame_of ts')"
    using assms(3) by (auto simp: in_step_def)
  show ?thesis
  proof (cases "length (inp @ chunk) < required p")
    case True
    then have "in_step env ts rest s (Waiting p (inp @ chunk) s)" using p(2) by (simp add: in_step_def split: phase.splits)
    moreover have "bytes_arrive env chunk r = Inr (Waiting p (inp @ chunk) s)" using True p(1) by (simp add: bytes_arrive_def)
    ultimately show ?thesis by (intro exI [of _ "[]"] exI [of _ ts]) auto
  next
    case False
    show ?thesis
    proof (cases p)
      case P_size
      then have i: "(inp @ chunk) @ rest = concat (List.map frame_of ts)" using p(2) by simp
      have long: "TransmissionSizeSize \<le> length (inp @ chunk)" using False P_size by (simp add: required_def)
      then obtain t ts' where t: "ts = t # ts'" using i by (cases ts) (auto simp: TransmissionSizeSize_def)
      consider inp' where "process_transmission_size env (inp @ chunk) s = Inr (Again inp' (receives env t s))"
          "inp' @ rest = concat (List.map frame_of ts')"
        | r' where "process_transmission_size env (inp @ chunk) s = Inr r'" "in_step env ts rest s r'"
        using processed_size [OF assms(1) _ _ long, of t rest ts' s] i assms(2) t by auto
      then show ?thesis
      proof cases
        case (1 inp')
        obtain taken left r' where r': "asyncReceiveImpl env inp' (receives env t s) = Inr r'" "ts' = taken @ left"
          "in_step env left rest (fold (receives env) taken (receives env t s)) r'"
          using loop_in_step [OF assms(1) _ 1(2)] assms(2) t by fastforce
        have "bytes_arrive env chunk r = Inr r'"
          using False p(1) P_size 1(1) r'(1) by (simp add: bytes_arrive_def processing_def required_def)
        then show ?thesis using r' t by (intro exI [of _ "t # taken"] exI [of _ left] exI [of _ r']) simp
      next
        case (2 r')
        then obtain q i where "r' = Waiting q i s" by (auto simp: in_step_def)
        then have "bytes_arrive env chunk r = Inr r'"
          using False p(1) P_size 2(1) by (simp add: bytes_arrive_def processing_def required_def)
        then show ?thesis using 2(2) by (intro exI [of _ "[]"] exI [of _ ts] exI [of _ r']) simp
      qed
    next
      case (P_transmission n)
      then obtain t ts' where t: "ts = t # ts'" "n = length (snd (frame_parts t))"
        "(inp @ chunk) @ rest = snd (frame_parts t) @ concat (List.map frame_of ts')" using p(2) by auto
      obtain inp' where inp': "process_transmission env (inp @ chunk) s = Inr (Again inp' (receives env t s))"
        "inp' @ rest = concat (List.map frame_of ts')"
        using processed_frame [OF assms(1) _ t(3)] assms(2) t(1,2) False P_transmission by (auto simp: required_def)
      obtain taken left r' where r': "asyncReceiveImpl env inp' (receives env t s) = Inr r'" "ts' = taken @ left"
        "in_step env left rest (fold (receives env) taken (receives env t s)) r'"
        using loop_in_step [OF assms(1) _ inp'(2)] assms(2) t(1) by fastforce
      have "bytes_arrive env chunk r = Inr r'"
        using False p(1) P_transmission inp'(1) r'(1) by (simp add: bytes_arrive_def processing_def required_def)
      then show ?thesis using r' t(1) by (intro exI [of _ "t # taken"] exI [of _ left] exI [of _ r']) simp
    qed
  qed
qed


lemma arrivals_in_step:
  "\<lbrakk>continues env; \<forall>t \<in> set ts. sendable (se_types env) t; in_step env ts (concat chunks) s r\<rbrakk> \<Longrightarrow>
     \<exists>taken left r'. arrivals env chunks r = Inr r' \<and> ts = taken @ left \<and> in_step env left [] (fold (receives env) taken s) r'"
proof (induction chunks arbitrary: ts s r)
  case Nil
  then show ?case by (intro exI [of _ "[]"] exI [of _ ts] exI [of _ r]) simp
next
  case (Cons chunk chunks)
  obtain taken left r1 where 1: "bytes_arrive env chunk r = Inr r1" "ts = taken @ left"
    "in_step env left (concat chunks) (fold (receives env) taken s) r1"
    using arrival_in_step [OF Cons.prems(1,2), of chunk "concat chunks" s r] Cons.prems(3) by auto
  obtain taken' left' r2 where 2: "arrivals env chunks r1 = Inr r2" "left = taken' @ left'"
    "in_step env left' [] (fold (receives env) taken' (fold (receives env) taken s)) r2"
    using Cons.IH [OF Cons.prems(1) _ 1(3)] Cons.prems(2) 1(2) by auto
  show ?case using 1 2 by (intro exI [of _ "taken @ taken'"] exI [of _ left'] exI [of _ r2]) simp
qed

lemma all_arrived: "in_step env ts [] s r \<Longrightarrow> ts = [] \<and> r = Waiting P_size [] s"
proof -
  assume "in_step env ts [] s r"
  then obtain p inp where p: "r = Waiting p inp s" "length inp < required p" "case p of P_size \<Rightarrow> inp = concat (List.map frame_of ts)
        | P_transmission n \<Rightarrow> \<exists>t ts'. ts = t # ts' \<and> n = length (snd (frame_parts t)) \<and> inp = snd (frame_parts t) @ concat (List.map frame_of ts')"
    unfolding in_step_def append_Nil2 by blast
  show ?thesis
  proof (cases p)
    case P_size
    then have "ts = []" using p frame_parts by (cases ts) (auto simp: required_def)
    then show ?thesis using P_size p by simp
  next
    case (P_transmission n)
    then show ?thesis using p by (auto simp: required_def)
  qed
qed

lemma stream_delivers:
  assumes "continues env" "\<forall>t \<in> set ts. sendable (se_types env) t" "concat chunks = concat (List.map frame_of ts)"
  shows "arrivals env chunks (Waiting P_size [] s) = Inr (Waiting P_size [] (fold (receives env) ts s))"
proof -
  have "in_step env ts (concat chunks) s (Waiting P_size [] s)"
    using assms(3) by (simp add: in_step_def required_def TransmissionSizeSize_def)
  from arrivals_in_step [OF assms(1,2) this] obtain taken left r where r: "arrivals env chunks (Waiting P_size [] s) = Inr r"
    "ts = taken @ left" "in_step env left [] (fold (receives env) taken s) r" by blast
  then show ?thesis using all_arrived [OF r(3)] by simp
qed


section \<open>What is written\<close>

datatype writer_event = Transmit stream_transmission | Written

text \<open>A write completes only while one is outstanding.\<close>

fun writer_run :: "writer_event list \<Rightarrow> payload_cache option \<times> writer \<Rightarrow> (payload_cache option \<times> writer) result" where
  "writer_run [] s = Inr s"
| "writer_run (Transmit t # evs) s = (case stream_transmit t s of (s', Inr _) \<Rightarrow> writer_run evs s' | (s', Inl e) \<Rightarrow> Inl e)"
| "writer_run (Written # evs) s = writer_run evs (fst s, if w_asyncWriting (snd s) then asyncWrite (snd s) else snd s)"

fun transmitted :: "writer_event list \<Rightarrow> stream_transmission list" where
  "transmitted [] = []"
| "transmitted (Transmit t # evs) = t # transmitted evs"
| "transmitted (Written # evs) = transmitted evs"

lemma serialized_frame:
  assumes "sendable types t"
  shows "serializeTransmission (tx_header t) (tx_type t) (tx_instance t) out =
     (if WriteBufferMaxSize < length out then (out, Inl (RuntimeError ''async write buffer exceeded maximum size''))
      else (out @ frame_of t, Inr ()))"
  using payload_reads [OF assms] by (auto simp: serializeTransmission_def frame_of_def)

text \<open>What is in the cache is the frame of the transmission that has its id.\<close>

definition cache_ok :: "stream_transmission set \<Rightarrow> payload_cache option \<Rightarrow> bool" where
  "cache_ok ts cache \<longleftrightarrow> (\<forall>c t. cache = Some c \<longrightarrow> t \<in> ts \<longrightarrow> tx_id t = cache_id c \<longrightarrow> cache_buffer c = frame_of t)"

lemma cached_frame:
  assumes "sendable types t" "t \<in> ts" "cache_ok ts cache" "\<forall>u \<in> ts. tx_id u = tx_id t \<longrightarrow> frame_of u = frame_of t"
    and "serialize_transmission t (cache, out) = ((cache', out'), Inr u)"
  shows "out' = out @ frame_of t \<and> cache_ok ts cache'"
proof (cases cache)
  case None
  then show ?thesis using assms(5) by (auto simp: serialize_transmission_def serialized_frame [OF assms(1)] cache_ok_def split: if_splits)
next
  case (Some c)
  show ?thesis
  proof (cases "tx_id t = cache_id c")
    case True
    then show ?thesis using assms(2,3,5) Some by (auto simp: serialize_transmission_def cache_ok_def)
  next
    case False
    then have "out' = out @ frame_of t" "cache' = Some \<lparr>cache_id = tx_id t, cache_buffer = frame_of t\<rparr>"
      using assms(5) Some by (auto simp: serialize_transmission_def serialized_frame [OF assms(1)] split: if_splits)
    then show ?thesis using assms(4) by (simp add: cache_ok_def)
  qed
qed

definition writer_ok :: "bytes \<Rightarrow> writer \<Rightarrow> bool" where
  "writer_ok bs w \<longleftrightarrow> w_started w @ w_output w = bs \<and> (w_asyncWriting w \<or> w_output w = [])"

lemma written_in_order:
  "\<lbrakk>writer_run evs (cache, w) = Inr (cache', w'); writer_ok bs w; cache_ok ts cache; set (transmitted evs) \<subseteq> ts;
    \<forall>t \<in> ts. sendable types t; \<forall>t \<in> ts. \<forall>u \<in> ts. tx_id u = tx_id t \<longrightarrow> frame_of u = frame_of t\<rbrakk> \<Longrightarrow>
     writer_ok (bs @ concat (List.map frame_of (transmitted evs))) w'"
proof (induction evs arbitrary: cache w bs)
  case (Cons ev evs)
  show ?case
  proof (cases ev)
    case (Transmit t)
    obtain cache1 out u where o: "serialize_transmission t (cache, w_output w) = ((cache1, out), Inr u)"
      using Cons.prems(1) Transmit
      by (cases "serialize_transmission t (cache, w_output w)") (auto simp: stream_transmit_def stream_transmit_with_def split: sum.splits)
    have t: "t \<in> ts" using Cons.prems(4) Transmit by simp
    then have o': "out = w_output w @ frame_of t" "cache_ok ts cache1"
      using cached_frame [OF _ t Cons.prems(3) _ o] Cons.prems(5,6) by blast+
    let ?w = "if w_asyncWriting w then w\<lparr>w_output := out\<rparr> else asyncWrite (w\<lparr>w_output := out\<rparr>)"
    have "writer_run evs (cache1, ?w) = Inr (cache', w')"
      using Cons.prems(1) Transmit o by (simp add: stream_transmit_def stream_transmit_with_def split: if_splits)
    moreover have "writer_ok (bs @ frame_of t) ?w"
      using Cons.prems(2) o'(1) by (auto simp: writer_ok_def asyncWrite_def)
    ultimately have "writer_ok ((bs @ frame_of t) @ concat (List.map frame_of (transmitted evs))) w'"
      by (rule Cons.IH [OF _ _ o'(2) _ Cons.prems(5,6)]) (use Cons.prems(4) Transmit in simp)
    then show ?thesis using Transmit by simp
  next
    case Written
    let ?w = "if w_asyncWriting w then asyncWrite w else w"
    have "writer_run evs (cache, ?w) = Inr (cache', w')" using Cons.prems(1) Written by (simp split: if_splits)
    moreover have "writer_ok bs ?w" using Cons.prems(2) by (auto simp: writer_ok_def asyncWrite_def)
    ultimately have "writer_ok (bs @ concat (List.map frame_of (transmitted evs))) w'"
      by (rule Cons.IH [OF _ _ Cons.prems(3) _ Cons.prems(5,6)]) (use Cons.prems(4) Written in simp)
    then show ?thesis using Written by simp
  qed
qed simp

text \<open>C33: Transmissions that are written to a stream, some of them from the payload cache, are read at
  the other end in the same order, each with the same header and the transmitted properties of
  its instance, however the stream cuts its bytes into pieces.\<close>

theorem stream_carries_transmissions:
  assumes run: "writer_run evs (cache, writer_new) = Inr (cache', w)" and idle: "\<not> w_asyncWriting w"
    and types: "\<forall>t \<in> set (transmitted evs). sendable (se_types env) t" and "continues env"
    and ids: "\<forall>t \<in> set (transmitted evs). \<forall>u \<in> set (transmitted evs). tx_id u = tx_id t \<longrightarrow> frame_of u = frame_of t"
    and fresh: "\<forall>c t. cache = Some c \<longrightarrow> t \<in> set (transmitted evs) \<longrightarrow> tx_id t \<noteq> cache_id c"
    and "concat chunks = w_started w"
  shows "w_output w = []
    \<and> arrivals env chunks (Waiting P_size [] s) = Inr (Waiting P_size [] (fold (receives env) (transmitted evs) s))"
proof -
  have "cache_ok (set (transmitted evs)) cache" using fresh by (auto simp: cache_ok_def)
  moreover have "writer_ok [] writer_new" by (simp add: writer_ok_def writer_new_def)
  ultimately have "writer_ok ([] @ concat (List.map frame_of (transmitted evs))) w"
    using written_in_order [OF run _ _ order_refl types ids] by blast
  then have "w_output w = []" "w_started w = concat (List.map frame_of (transmitted evs))"
    using idle by (auto simp: writer_ok_def)
  then show ?thesis using stream_delivers [OF assms(4) types] assms(7) by simp
qed


section \<open>What can go wrong\<close>

text \<open>
  A transmission that cannot be serialised leaves the storage of its size and a part of itself in
  the output; whoever reads the stream then finds an empty transmission.
\<close>

lemma zero_size: "deserializeTransmissionSize (0 # inp) = Inr (0, inp)"
  by (simp add: deserializeTransmissionSize_def read_uint_def readHead_def readInitialByte_def assertInputAvailable_def
      readByte_def cbor_constants Let_def)

lemma zero_payload:
  "deserializeTransmission types (0 # inp) = throwException ''encountered unexpected major type''"
  by (simp add: throwException_def deserializeTransmission_def deserialize_def readMapSize_def readHead_def readInitialByte_def assertInputAvailable_def
      readByte_def cbor_constants Let_def)

theorem failed_transmission_poisons_stream:
  assumes "hd_attributes h = None" "\<forall>name. hd_typeName h = Some name \<longrightarrow> length name < 2 ^ 64"
    and "length (w_output w) \<le> WriteBufferMaxSize"
  shows "\<exists>bs e. stream_transmit_instance h sd a (cache, w) =
        ((cache, w\<lparr>w_output := w_output w @ replicate TransmissionSizeSize 0 @ bs\<rparr>), Inl e)
    \<and> (\<forall>(env :: 'h stream_env) rest s. asyncReceiveImpl env (replicate TransmissionSizeSize 0 @ rest) s =
         throwException ''encountered unexpected major type'')"
proof -
  obtain bs where bs: "emit DotsHeader_props (header_area h) ps_All = (bs, Inr ())" using header_reads [OF assms(2)] by blast
  obtain e where e: "deref ''attributes'' (hd_attributes h) = Inl e" using assms(1) by (simp add: deref_def)
  have "payload h sd a = (bs, Inl e)" using bs e by (simp add: payload_def seqW_def)
  then have "stream_transmit_instance h sd a (cache, w) =
      ((cache, w\<lparr>w_output := w_output w @ replicate TransmissionSizeSize 0 @ bs\<rparr>), Inl e)"
    using assms(3) by (simp add: stream_transmit_instance_def stream_transmit_with_def serializeTransmission_def)
  moreover have "asyncReceiveImpl env (replicate TransmissionSizeSize 0 @ rest) s = throwException ''encountered unexpected major type''"
    for env :: "'h stream_env" and rest s
    by (simp add: throwException_def asyncReceiveImpl.simps TransmissionSizeSize_def process_transmission_size_def zero_size
        process_transmission_def zero_payload fail_def numeral_eq_Suc)
  ultimately show ?thesis by blast
qed

text \<open>
  A receive handler that deletes its channel: within the first transmission of what was read the
  channel is not touched again, within a later one it is.
\<close>

text \<open>When a receive handler deletes its channel while the channel processes the second of two
  transmissions that have been read together, the channel goes on with a flag of the deleted
  object; when they have been read one after the other it does not.\<close>

theorem deletion_within_batch:
  assumes "sendable (se_types env) t" "sendable (se_types env) u" "arrives t = (h, sd, a)" "arrives u = (h', sd', a')"
    and "se_receive env h sd a s = (s1, Continue)" "se_receive env h' sd' a' s1 = (s2, Gone)"
  shows "arrivals env [frame_of t, frame_of u] (Waiting P_size [] s) = Inr (Deleted s2)
    \<and> arrivals env [frame_of t @ frame_of u] (Waiting P_size [] s) = Inl (UndefinedBehaviour ''flag of a deleted channel'')"
proof -
  have whole: "process_transmission_size env (frame_of x @ rest) z = process_transmission env (snd (frame_parts x) @ rest) z"
    if "sendable (se_types env) x" for x rest z
    using frame_size_reads [OF that, of "snd (frame_parts x) @ rest"] frame_parts(1) [of x] by (simp add: process_transmission_size_def)
  have read: "deserializeTransmission (se_types env) (snd (frame_parts x) @ rest) = Inr (arrives x, rest)"
    if "sendable (se_types env) x" for x rest
    using payload_reads [OF that] by (auto simp: frame_parts_def)
  have t: "process_transmission_size env (frame_of t @ rest) s = Inr (Again rest s1)" for rest
    using whole [OF assms(1)] read [OF assms(1)] assms(3,5) by (simp add: process_transmission_def)
  have u: "process_transmission_size env (frame_of u) s1 = Inr (Deleted s2)"
    using whole [OF assms(2), of "[]"] read [OF assms(2), of "[]"] assms(4,6) by (simp add: process_transmission_def)
  have long: "TransmissionSizeSize \<le> length (frame_of x)" for x using frame_parts [of x] by simp
  have "asyncReceiveImpl env [] s1 = Inr (Waiting P_size [] s1)" by (simp add: asyncReceiveImpl.simps TransmissionSizeSize_def)
  then have "arrivals env [frame_of t, frame_of u] (Waiting P_size [] s) = Inr (Deleted s2)"
    using t [of "[]"] u long [of t] long [of u] by (simp add: bytes_arrive_def processing_def required_def)
  moreover have "asyncReceiveImpl env (frame_of u) s1 = Inl (UndefinedBehaviour ''flag of a deleted channel'')"
    using u long [of u] by (simp add: asyncReceiveImpl.simps)
  then have "arrivals env [frame_of t @ frame_of u] (Waiting P_size [] s) = Inl (UndefinedBehaviour ''flag of a deleted channel'')"
    using t [of "frame_of u"] long [of t] by (simp add: bytes_arrive_def processing_def required_def)
  ultimately show ?thesis by blast
qed


section \<open>The properties at concrete inputs\<close>

definition example_tx :: "64 word \<Rightarrow> stream_transmission" where
  "example_tx i =
     \<lparr>tx_id = i, tx_header = example_header ps_All, tx_type = example_sd, tx_instance = example_area (Some 7) None None\<rparr>"

definition collecting :: "(dots_header \<times> sdesc \<times> area) list stream_env" where
  "collecting = \<lparr>se_types = [''Example'' \<mapsto> example_sd], se_receive = (\<lambda>h sd a l. (l @ [(h, sd, a)], Continue)),
     se_error = (\<lambda>e l. (l, False))\<rparr>"

definition empty_dots_header :: dots_header where
  "empty_dots_header = \<lparr>hd_typeName = Some ''Example'', hd_sentTime = None, hd_serverSentTime = None, hd_attributes = None,
     hd_sender = None, hd_fromCache = None, hd_removeObj = None, hd_isFromMyself = None\<rparr>"

text \<open>A handler that deletes its channel once it has been called \<open>n\<close> times.\<close>

definition deleting_env :: "nat \<Rightarrow> nat stream_env" where
  "deleting_env n = \<lparr>se_types = [''Example'' \<mapsto> example_sd], se_receive = (\<lambda>h sd a k. (Suc k, if k < n then Continue else Gone)),
     se_error = (\<lambda>e k. (k, False))\<rparr>"

lemma example_payload_length: "length (fst (payload (example_header ps_All) example_sd (example_area (Some 7) None None))) \<le> 60"
  by code_simp

lemma example_sendable: "sendable (se_types collecting) (example_tx i)"
  using example_payload_length example_slots_ok [of "Some 7" None None] example_wf_tags example_wf_props
  by (simp add: sendable_def Let_def example_tx_def collecting_def example_header_def)
    (simp add: example_props_def example_area_def)


lemma example_run:
  "\<exists>cache w. writer_run [Transmit (example_tx 1), Written, Transmit (example_tx 1), Written] (Some \<lparr>cache_id = 0, cache_buffer = []\<rparr>, writer_new)
     = Inr (cache, w) \<and> \<not> w_asyncWriting w"
  using serialized_frame [OF example_sendable, of 1 "[]"]
  by (simp add: stream_transmit_def stream_transmit_with_def serialize_transmission_def writer_new_def asyncWrite_def
      WriteBufferMaxSize_def frame_of_def Let_def example_tx_def)

lemma stream_carries_transmissions_witness:
  "\<exists>cache w. writer_run [Transmit (example_tx 1), Written, Transmit (example_tx 1), Written] (Some \<lparr>cache_id = 0, cache_buffer = []\<rparr>, writer_new)
     = Inr (cache, w)
    \<and> arrivals collecting (List.map (\<lambda>b. [b]) (w_started w)) (Waiting P_size [] [])
        = Inr (Waiting P_size [] [arrives (example_tx 1), arrives (example_tx 1)])"
proof -
  obtain cache w where w: "writer_run [Transmit (example_tx 1), Written, Transmit (example_tx 1), Written]
      (Some \<lparr>cache_id = 0, cache_buffer = []\<rparr>, writer_new) = Inr (cache, w)" "\<not> w_asyncWriting w"
    using example_run by blast
  have "continues collecting" by (simp add: continues_def collecting_def)
  moreover have "receives collecting t l = l @ [arrives t]" for t l
    by (simp add: receives_def collecting_def split: prod.split)
  moreover have "concat (List.map (\<lambda>b. [b]) (w_started w)) = w_started w" by (induction "w_started w") simp_all
  ultimately have "arrivals collecting (List.map (\<lambda>b. [b]) (w_started w)) (Waiting P_size [] [])
        = Inr (Waiting P_size [] [arrives (example_tx 1), arrives (example_tx 1)])"
    using stream_carries_transmissions [OF w, of collecting "List.map (\<lambda>b. [b]) (w_started w)" "[]"] example_sendable
    by (simp add: example_tx_def)
  then show ?thesis using w(1) by blast
qed

lemma failed_transmission_poisons_stream_witness:
  "\<exists>bs e. stream_transmit_instance empty_dots_header example_sd (example_area (Some 7) None None) (None, writer_new)
        = ((None, writer_new\<lparr>w_output := [] @ replicate TransmissionSizeSize 0 @ bs\<rparr>), Inl e)
    \<and> asyncReceiveImpl collecting (replicate TransmissionSizeSize 0 @ [0xA0]) [] = throwException ''encountered unexpected major type''"
proof -
  have "\<exists>bs e. stream_transmit_instance empty_dots_header example_sd (example_area (Some 7) None None) (None, writer_new) =
        ((None, writer_new\<lparr>w_output := w_output writer_new @ replicate TransmissionSizeSize 0 @ bs\<rparr>), Inl e)
    \<and> (\<forall>(env :: (dots_header \<times> sdesc \<times> area) list stream_env) rest s.
         asyncReceiveImpl env (replicate TransmissionSizeSize 0 @ rest) s = throwException ''encountered unexpected major type'')"
    by (rule failed_transmission_poisons_stream) (simp_all add: empty_dots_header_def writer_new_def)
  then show ?thesis by (fastforce simp: writer_new_def)
qed

lemma deletion_within_batch_witness:
  "arrivals (deleting_env 1) [frame_of (example_tx 1) @ frame_of (example_tx 2)] (Waiting P_size [] 0)
     = Inl (UndefinedBehaviour ''flag of a deleted channel'')"
proof -
  obtain h sd a where t: "arrives (example_tx 1) = (h, sd, a)" by (cases "arrives (example_tx 1)")
  moreover have "arrives (example_tx 2) = arrives (example_tx 1)" by (simp add: arrives_def example_tx_def)
  ultimately have u: "arrives (example_tx 2) = (h, sd, a)" by simp
  have s: "sendable (se_types (deleting_env 1)) (example_tx i)" for i
    using example_sendable by (simp add: deleting_env_def collecting_def)
  show ?thesis
    using deletion_within_batch [OF s s t u, of 0 1 2] by (simp add: deleting_env_def)
qed

end
