(* ===== verification/Container_Pool.thy ===== *)
theory Container_Pool
  imports Dots_Container
begin

text \<open>
  \<open>ContainerPool.cpp\<close>: one container per descriptor, and a second index of the containers by
  type name. The first map is keyed by the address of the descriptor, so descriptors are
  references here (\<open>sd_ref\<close>): two of them can have equal contents. The name cache holds plain
  pointers to the containers inside of the first map's nodes; a node is identified by the number
  of its allocation, so that a pointer whose node has gone is visible.
\<close>

datatype sd_ref = SdRef (sd_addr: nat) (sd_of: sdesc)

record pool_node =
  node_descriptor :: sd_ref
  node_id :: nat
  node_container :: container

record container_pool =
  m_pool :: "pool_node list"
  m_nameCache :: "string \<Rightarrow> nat option"
  nextNode :: nat

definition pool_new :: container_pool where
  "pool_new = \<lparr>m_pool = [], m_nameCache = Map.empty, nextNode = 0\<rparr>"

definition pool_empty :: "container_pool \<Rightarrow> bool" where
  "pool_empty p \<longleftrightarrow> m_pool p = []"

definition pool_size :: "container_pool \<Rightarrow> nat" where
  "pool_size p = length (m_pool p)"

definition node_of :: "sd_ref \<Rightarrow> container_pool \<Rightarrow> pool_node option" where
  "node_of d p = find (\<lambda>n. sd_addr (node_descriptor n) = sd_addr d) (m_pool p)"

definition pool_find :: "sd_ref \<Rightarrow> container_pool \<Rightarrow> container option" where
  "pool_find d p = map_option node_container (node_of d p)"

text \<open>
  \<open>get(descriptor, insertIfNotExist)\<close>. \<open>emplace\<close> on the name cache keeps an entry that is
  already there.
\<close>

definition pool_insert_new :: "sd_ref \<Rightarrow> container_pool \<Rightarrow> container_pool" where
  "pool_insert_new d p =
     (let name = sd_name (sd_of d) in
      \<lparr>m_pool = m_pool p @ [\<lparr>node_descriptor = d, node_id = nextNode p,
                              node_container = container_new (sd_of d)\<rparr>],
       m_nameCache = (case m_nameCache p name of
                        None \<Rightarrow> (m_nameCache p)(name \<mapsto> nextNode p)
                      | Some n \<Rightarrow> m_nameCache p),
       nextNode = Suc (nextNode p)\<rparr>)"

definition pool_get :: "sd_ref \<Rightarrow> bool \<Rightarrow> container_pool \<Rightarrow> container_pool \<times> container result" where
  "pool_get d insertIfNotExist p =
     (case pool_find d p of
        Some c \<Rightarrow> (p, Inr c)
      | None \<Rightarrow>
          if insertIfNotExist then (pool_insert_new d p, Inr (container_new (sd_of d)))
          else (p, Inl (RuntimeError (''container pool does not contain an element for the given type: ''
                  @ sd_name (sd_of d)))))"

text \<open>Writing through the reference that \<open>get\<close> returns.\<close>

definition pool_put :: "sd_ref \<Rightarrow> container \<Rightarrow> container_pool \<Rightarrow> container_pool" where
  "pool_put d c p =
     p\<lparr>m_pool := List.map (\<lambda>n. if sd_addr (node_descriptor n) = sd_addr d then n\<lparr>node_container := c\<rparr> else n)
        (m_pool p)\<rparr>"

text \<open>The lookups by name read through the cached pointer.\<close>

definition pool_find_name :: "string \<Rightarrow> container_pool \<Rightarrow> container option result" where
  "pool_find_name name p =
     (case m_nameCache p name of
        None \<Rightarrow> Inr None
      | Some k \<Rightarrow>
          (case find (\<lambda>n. node_id n = k) (m_pool p) of
             None \<Rightarrow> Inl (UndefinedBehaviour ''dangling pointer to a container'')
           | Some n \<Rightarrow> Inr (Some (node_container n))))"

definition pool_get_name :: "string \<Rightarrow> container_pool \<Rightarrow> container result" where
  "pool_get_name name p =
     bindE (pool_find_name name p) (\<lambda>x.
       case x of
         None \<Rightarrow> Inl (RuntimeError (''container pool does not contain an element for the given type: '' @ name))
       | Some c \<Rightarrow> Inr c)"

definition pool_remove :: "sd_ref \<Rightarrow> container_pool \<Rightarrow> container_pool \<times> pool_node result" where
  "pool_remove d p =
     (case node_of d p of
        None \<Rightarrow> (p, Inl (RuntimeError (''container pool does not contain an element for the given type: ''
                  @ sd_name (sd_of d))))
      | Some n \<Rightarrow> (p\<lparr>m_pool := filter (\<lambda>m. sd_addr (node_descriptor m) \<noteq> sd_addr d) (m_pool p)\<rparr>, Inr n))"

section \<open>Invariant\<close>

text \<open>
  Descriptors and nodes are distinct, and every cached pointer leads to the first node of its
  name. \<open>remove\<close> breaks the last part.
\<close>

definition pool_wf :: "container_pool \<Rightarrow> bool" where
  "pool_wf p \<longleftrightarrow>
     distinct (List.map (\<lambda>n. sd_addr (node_descriptor n)) (m_pool p))
     \<and> distinct (List.map node_id (m_pool p)) \<and> (\<forall>n \<in> set (m_pool p). node_id n < nextNode p)
     \<and> (\<forall>name. m_nameCache p name =
           map_option node_id (find (\<lambda>n. sd_name (sd_of (node_descriptor n)) = name) (m_pool p)))"

lemma pool_wf_new [simp, invariant_intros]: "pool_wf pool_new"
  by (simp add: pool_wf_def pool_new_def)

lemma find_append: "find P (xs @ ys) = (case find P xs of None \<Rightarrow> find P ys | Some x \<Rightarrow> Some x)"
  by (induction xs) auto

lemma find_map: "find P (List.map f xs) = map_option f (find (\<lambda>x. P (f x)) xs)"
  by (induction xs) auto

lemma pool_wf_insert_new [invariant_intros]:
  assumes "pool_wf p" "pool_find d p = None"
  shows "pool_wf (pool_insert_new d p)"
proof -
  have "sd_addr d \<notin> (\<lambda>n. sd_addr (node_descriptor n)) ` set (m_pool p)"
    using assms(2) by (auto simp: pool_find_def node_of_def find_None_iff)
  then show ?thesis
    using assms(1)
    by (auto simp: pool_wf_def pool_insert_new_def Let_def find_append less_Suc_eq split: option.splits)
qed

lemma pool_wf_get [invariant_intros]: "pool_wf p \<Longrightarrow> pool_wf (fst (pool_get d b p))"
  using pool_wf_insert_new by (auto simp: pool_get_def split: option.split)

lemma pool_wf_put [invariant_intros]: "pool_wf p \<Longrightarrow> pool_wf (pool_put d c p)"
proof -
  define f :: "pool_node \<Rightarrow> pool_node" where
    "f = (\<lambda>n. if sd_addr (node_descriptor n) = sd_addr d then n\<lparr>node_container := c\<rparr> else n)"
  have eq: "node_id (f n) = node_id n" "node_descriptor (f n) = node_descriptor n" for n
    by (simp_all add: f_def)
  have "m_pool (pool_put d c p) = List.map f (m_pool p)" "m_nameCache (pool_put d c p) = m_nameCache p"
    "nextNode (pool_put d c p) = nextNode p"
    by (simp_all add: pool_put_def f_def)
  then show "pool_wf p \<Longrightarrow> pool_wf (pool_put d c p)"
    by (simp add: pool_wf_def comp_def find_map option.map_comp eq)
qed

lemma pool_find_get:
  "pool_find d (fst (pool_get d True p)) =
     (case pool_find d p of None \<Rightarrow> Some (container_new (sd_of d)) | Some c \<Rightarrow> Some c)"
  "sd_addr e \<noteq> sd_addr d \<Longrightarrow> pool_find e (fst (pool_get d b p)) = pool_find e p"
  by (auto simp: pool_get_def pool_find_def node_of_def pool_insert_new_def Let_def find_append split: option.splits)

lemma pool_find_put:
  "pool_find e (pool_put d c p) =
     (if sd_addr e = sd_addr d then map_option (\<lambda>_. c) (pool_find e p) else pool_find e p)"
  by (auto simp: pool_find_def node_of_def pool_put_def find_map option.map_comp comp_def if_distrib
      dest!: find_Some_set intro!: option.map_cong0 cong: if_cong option.map_cong)


section \<open>Lookups by name\<close>

lemma find_node_id:
  assumes "distinct (List.map node_id ns)" "n \<in> set ns"
  shows "find (\<lambda>m. node_id m = node_id n) ns = Some n"
  using assms find_unique_key by fastforce

text \<open>On a consistent container pool, looking a container up by name finds the first container of
  a type of that name.\<close>

theorem pool_name_lookup:
  assumes "pool_wf p"
  shows "pool_find_name name p =
    Inr (map_option node_container (find (\<lambda>n. sd_name (sd_of (node_descriptor n)) = name) (m_pool p)))"
proof (cases "find (\<lambda>n. sd_name (sd_of (node_descriptor n)) = name) (m_pool p)")
  case None
  then show ?thesis using assms by (simp add: pool_find_name_def pool_wf_def)
next
  case (Some n)
  then have "n \<in> set (m_pool p)" by (auto dest: find_Some_set)
  then show ?thesis using assms Some by (simp add: pool_find_name_def pool_wf_def find_node_id)
qed

lemma pool_name_lookup_witness:
  "pool_find_name ''A'' (fst (pool_get (SdRef 1 (StructDescriptor ''A'' 1 [])) True pool_new)) =
   Inr (Some (container_new (StructDescriptor ''A'' 1 [])))"
proof -
  have "pool_wf (fst (pool_get (SdRef 1 (StructDescriptor ''A'' 1 [])) True pool_new))"
    by (simp add: pool_wf_get)
  from pool_name_lookup [OF this] show ?thesis
    by (simp add: pool_get_def pool_find_def node_of_def pool_new_def pool_insert_new_def)
qed

text \<open>After a container is removed from the pool, the lookup by its name reads a dangling pointer,
  also when the type has been inserted again.\<close>

theorem pool_remove_dangles:
  assumes "pool_wf p" "find (\<lambda>n. sd_name (sd_of (node_descriptor n)) = sd_name (sd_of d)) (m_pool p) = Some n"
    and "sd_addr (node_descriptor n) = sd_addr d"
  shows "let p1 = fst (pool_remove d p); p2 = fst (pool_get d True p1) in
         is_ub (pool_find_name (sd_name (sd_of d)) p1) \<and> is_ub (pool_find_name (sd_name (sd_of d)) p2)
         \<and> pool_find d p2 = Some (container_new (sd_of d))"
proof -
  have n: "n \<in> set (m_pool p)" "m_nameCache p (sd_name (sd_of d)) = Some (node_id n)" "node_id n < nextNode p"
    using assms find_Some_set by (force simp: pool_wf_def)+
  have nd: "node_of d p = Some n"
    using assms(1,3) n(1) find_unique_key [of "\<lambda>n. sd_addr (node_descriptor n)" "m_pool p" n]
    by (simp add: node_of_def pool_wf_def)
  define p1 where "p1 = fst (pool_remove d p)"
  have p1: "m_pool p1 = filter (\<lambda>m. sd_addr (node_descriptor m) \<noteq> sd_addr d) (m_pool p)"
    "m_nameCache p1 = m_nameCache p" "nextNode p1 = nextNode p"
    by (simp_all add: p1_def pool_remove_def nd)
  have none: "pool_find d p1 = None" by (auto simp: pool_find_def node_of_def p1 find_None_iff)
  have "m = n" if "m \<in> set (m_pool p)" "node_id m = node_id n" for m
    using that n(1) assms(1) by (auto simp: pool_wf_def distinct_map inj_on_def)
  then have gone: "find (\<lambda>m. node_id m = node_id n) (m_pool p1) = None"
    using assms(3) by (auto simp: p1 find_None_iff)
  then have "is_ub (pool_find_name (sd_name (sd_of d)) p1)"
    by (simp add: pool_find_name_def p1(2) n(2))
  moreover have "is_ub (pool_find_name (sd_name (sd_of d)) (fst (pool_get d True p1)))"
    using gone n(2,3) none
    by (simp add: pool_find_name_def pool_get_def pool_insert_new_def p1(2,3) find_append Let_def)
  ultimately show ?thesis by (simp add: p1_def [symmetric] pool_find_get none)
qed

lemma pool_remove_dangles_witness:
  "is_ub (pool_find_name ''A'' (fst (pool_remove (SdRef 1 (StructDescriptor ''A'' 1 []))
      (pool_insert_new (SdRef 1 (StructDescriptor ''A'' 1 [])) pool_new))))"
proof -
  let ?d = "SdRef 1 (StructDescriptor ''A'' 1 [])"
  have "pool_wf (pool_insert_new ?d pool_new)"
    by (intro pool_wf_insert_new pool_wf_new) (simp add: pool_new_def pool_find_def node_of_def)
  from pool_remove_dangles [OF this, of ?d] show ?thesis
    by (simp add: pool_insert_new_def pool_new_def Let_def)
qed

end
