(* ===== verification/Dispatcher.thy ===== *)
theory Dispatcher
  imports Container_Pool
begin

text \<open>
  \<open>Dispatcher.cpp\<close> and \<open>Event.cpp\<close>. A transmission goes to the transmission handlers of its
  type, updates the type's container, and the event that results goes to the event handlers.
  Handlers are client code, so they are a parameter: \<open>call h trace x\<close> is the program that the
  handler \<open>h\<close> runs on \<open>x\<close> after the invocations of \<open>trace\<close>, and such a program can do with the
  dispatcher what client code can do while it is called: add and remove handlers and dispatch
  further transmissions; it looks at what it is called with before it does anything. Handler maps
  and containers are iterated while this happens, as in the code, and an event refers to a clone in
  its container; an iterator to an erased handler or an extracted clone, an event whose clone is gone
  and the destruction of a running handler are \<open>UndefinedBehaviour\<close>. The depth of nested calls is
  bounded, like a stack.
\<close>

section \<open>Transmissions and events\<close>

record transmission =
  tr_header :: dots_header
  tr_type :: sd_ref
  tr_instance :: area

record event =
  ev_header :: dots_header
  ev_transmitted :: area
  ev_updated :: area
  ev_cloneInfo :: clone_info
  ev_mt :: dots_mt

definition event_new ::
  "dots_header \<Rightarrow> area \<Rightarrow> area \<Rightarrow> clone_info \<Rightarrow> dots_mt option \<Rightarrow> event result" where
  "event_new h transmitted updated info mt =
     bindE (case mt of None \<Rightarrow> deref ''lastOperation'' (lastOperation info) | Some m \<Rightarrow> Inr m) (\<lambda>m.
       Inr \<lparr>ev_header = h, ev_transmitted = transmitted, ev_updated = updated,
            ev_cloneInfo = info, ev_mt = m\<rparr>)"

definition isCreate :: "event \<Rightarrow> bool" where "isCreate e \<longleftrightarrow> ev_mt e = Mt_create"
definition isUpdate :: "event \<Rightarrow> bool" where "isUpdate e \<longleftrightarrow> ev_mt e = Mt_update"
definition isRemove :: "event \<Rightarrow> bool" where "isRemove e \<longleftrightarrow> ev_mt e = Mt_remove"

definition isFromMyself :: "event \<Rightarrow> bool" where
  "isFromMyself e \<longleftrightarrow> hd_isFromMyself (ev_header e) = Some True"

datatype dispatchable = Trans transmission | Ev event

section \<open>The state\<close>

datatype handler_pool = Transmission_Pool | Event_Pool

text \<open>
  A handler map is ordered by descending id. \<open>trace\<close> and \<open>errors\<close> record what happened. So does
  \<open>changes\<close>, for the containers: the type and the instance of each insertion and removal, and whether
  it destroyed the clone of this instance. An insertion extracts the node of a known clone and inserts it again,
  which invalidates the iterators to it but not the references; a removal, and an insertion that throws in
  between, destroy it.
\<close>

type_synonym 'h handlers = "(nat \<times> 'h) list"
type_synonym 'h trace = "(handler_pool \<times> nat \<times> 'h \<times> dispatchable) list"

record 'h dispatcher =
  currentlyDispatchingId :: "nat option"
  removeIds :: "nat list"
  containerPool :: container_pool
  changes :: "(nat \<times> area \<times> bool) list"
  handlerPool :: "handler_pool \<Rightarrow> nat \<Rightarrow> 'h handlers option"
  nextId :: nat
  clearingHandlers :: bool
  trace :: "'h trace"
  errors :: "exn list"

definition dispatcher_new :: "'h dispatcher" where
  "dispatcher_new = \<lparr>currentlyDispatchingId = None, removeIds = [], containerPool = pool_new, changes = [],
     handlerPool = (\<lambda>_ _. None), nextId = 0, clearingHandlers = False, trace = [], errors = []\<rparr>"

definition handlers_of :: "handler_pool \<Rightarrow> sd_ref \<Rightarrow> 'h dispatcher \<Rightarrow> 'h handlers" where
  "handlers_of hp d st = (case handlerPool st hp (sd_addr d) of None \<Rightarrow> [] | Some hs \<Rightarrow> hs)"

definition put_handlers :: "handler_pool \<Rightarrow> sd_ref \<Rightarrow> 'h handlers \<Rightarrow> 'h dispatcher \<Rightarrow> 'h dispatcher" where
  "put_handlers hp d hs st =
     st\<lparr>handlerPool := (handlerPool st)(hp := (handlerPool st hp)(sd_addr d \<mapsto> hs))\<rparr>"

fun emplace_handler :: "nat \<Rightarrow> 'h \<Rightarrow> 'h handlers \<Rightarrow> 'h handlers" where
  "emplace_handler k h [] = [(k, h)]"
| "emplace_handler k h ((i, g) # hs) =
     (if i < k then (k, h) # (i, g) # hs
      else if i = k then (i, g) # hs
      else (i, g) # emplace_handler k h hs)"

definition erase_handler :: "nat \<Rightarrow> 'h handlers \<Rightarrow> 'h handlers" where
  "erase_handler k hs = filter (\<lambda>(i, h). i \<noteq> k) hs"

section \<open>Adding and removing handlers\<close>

text \<open>\<open>clear\<close>: what the destructors of the handlers do meanwhile is ignored.\<close>

definition dispatcher_clear :: "'h dispatcher \<Rightarrow> 'h dispatcher" where
  "dispatcher_clear st = st\<lparr>handlerPool := (\<lambda>_ _. None), clearingHandlers := False\<rparr>"

definition addTransmissionHandler :: "sd_ref \<Rightarrow> 'h \<Rightarrow> 'h dispatcher \<Rightarrow> 'h dispatcher \<times> nat" where
  "addTransmissionHandler d h st =
     (let k = nextId st; st1 = st\<lparr>nextId := Suc k\<rparr> in
      if clearingHandlers st then (st1, k)
      else (put_handlers Transmission_Pool d (emplace_handler k h (handlers_of Transmission_Pool d st1)) st1, k))"

definition removeHandler :: "handler_pool \<Rightarrow> sd_ref \<Rightarrow> nat \<Rightarrow> 'h dispatcher \<Rightarrow> 'h dispatcher \<times> unit result" where
  "removeHandler hp d k st =
     (if clearingHandlers st then (st, Inr ())
      else if k \<in> fst ` set (handlers_of hp d st) then
        (if currentlyDispatchingId st = Some k then (st\<lparr>removeIds := removeIds st @ [k]\<rparr>, Inr ())
         else (put_handlers hp d (erase_handler k (handlers_of hp d st)) st, Inr ()))
      else (st, Inl (LogicError (''cannot remove unknown handler for type: '' @ sd_name (sd_of d)))))"

section \<open>Handler programs\<close>

datatype 'h prog =
    Finish
  | Raise exn
  | RemoveTransmissionHandler sd_ref nat "'h prog"
  | RemoveEventHandler sd_ref nat "'h prog"
  | AddTransmissionHandler sd_ref 'h "nat \<Rightarrow> 'h prog"
  | AddEventHandler sd_ref 'h "nat \<Rightarrow> 'h prog"
  | Dispatch transmission "'h prog"

type_synonym 'h client = "'h \<Rightarrow> 'h trace \<Rightarrow> dispatchable \<Rightarrow> 'h prog"
type_synonym ('h, 'a) action = "'h dispatcher \<Rightarrow> 'h dispatcher \<times> 'a result"

text \<open>A step, and another one unless it threw.\<close>

definition thenA :: "'s \<times> 'a result \<Rightarrow> ('a \<Rightarrow> 's \<Rightarrow> 's \<times> 'b result) \<Rightarrow> 's \<times> 'b result" where
  "thenA m f = (case snd m of Inl e \<Rightarrow> (fst m, Inl e) | Inr x \<Rightarrow> f x (fst m))"

lemma thenA_simps [simp]:
  "thenA (st, Inl e) f = (st, Inl e)" "thenA (st, Inr x) f = f x st"
  by (simp_all add: thenA_def)

primrec run_prog ::
  "(transmission \<Rightarrow> ('h, unit) action) \<Rightarrow> (sd_ref \<Rightarrow> 'h \<Rightarrow> ('h, nat) action) \<Rightarrow> 'h prog \<Rightarrow> ('h, unit) action" where
  "run_prog disp add Finish = (\<lambda>st. (st, Inr ()))"
| "run_prog disp add (Raise e) = (\<lambda>st. (st, Inl e))"
| "run_prog disp add (RemoveTransmissionHandler d k p) =
     (\<lambda>st. thenA (removeHandler Transmission_Pool d k st) (\<lambda>_. run_prog disp add p))"
| "run_prog disp add (RemoveEventHandler d k p) =
     (\<lambda>st. thenA (removeHandler Event_Pool d k st) (\<lambda>_. run_prog disp add p))"
| "run_prog disp add (AddTransmissionHandler d h p) =
     (\<lambda>st. case addTransmissionHandler d h st of (st', k) \<Rightarrow> run_prog disp add (p k) st')"
| "run_prog disp add (AddEventHandler d h p) =
     (\<lambda>st. thenA (add d h st) (\<lambda>k. run_prog disp add (p k)))"
| "run_prog disp add (Dispatch t p) =
     (\<lambda>st. thenA (disp t st) (\<lambda>_. run_prog disp add p))"

text \<open>One invocation of a handler, which is recorded.\<close>

definition invoke ::
  "'h client \<Rightarrow> ('h prog \<Rightarrow> ('h, unit) action) \<Rightarrow> handler_pool \<Rightarrow> nat \<Rightarrow> 'h \<Rightarrow> dispatchable \<Rightarrow> ('h, unit) action" where
  "invoke call run hp k h x st = run (call h (trace st) x) (st\<lparr>trace := trace st @ [(hp, k, h, x)]\<rparr>)"

section \<open>Dispatching\<close>

text \<open>
  The loop of \<open>dispatchToHandlers\<close> at the handler \<open>cur\<close>: an exception goes to the error handler
  and the iterator moves on to the next lower id that is in the map now.
\<close>

definition after_call :: "unit result \<Rightarrow> 'h dispatcher \<Rightarrow> 'h dispatcher" where
  "after_call r st =
     st\<lparr>errors := errors st @ (case r of Inl e \<Rightarrow> [e] | Inr _ \<Rightarrow> []), currentlyDispatchingId := None\<rparr>"

text \<open>
  \<open>seen\<close> is what the dispatchable object shows to a handler that is called in a state: a transmission is the
  same for all handlers, but an event may refer to a clone.
\<close>

function dispatch_loop ::
  "'h client \<Rightarrow> ('h prog \<Rightarrow> ('h, unit) action) \<Rightarrow> handler_pool \<Rightarrow> sd_ref \<Rightarrow> ('h dispatcher \<Rightarrow> dispatchable result)
     \<Rightarrow> nat \<Rightarrow> ('h, unit) action" where
  "dispatch_loop call run hp d seen cur st =
     (case map_of (handlers_of hp d st) cur of
        None \<Rightarrow> (st, Inl (UndefinedBehaviour ''handler erased''))
      | Some h \<Rightarrow>
          (case seen st of
             Inl e \<Rightarrow> (st, Inl e)
           | Inr x \<Rightarrow>
               (case invoke call run hp cur h x (st\<lparr>currentlyDispatchingId := Some cur\<rparr>) of
                  (st1, r) \<Rightarrow>
                    if is_ub r then (st1, r)
                    else let st2 = after_call r st1; ids = List.map fst (handlers_of hp d st2) in
                      if cur \<notin> set ids then (st2, Inl (UndefinedBehaviour ''handler erased''))
                      else (case filter (\<lambda>i. i < cur) ids of
                              [] \<Rightarrow> (st2, Inr ())
                            | i # _ \<Rightarrow> dispatch_loop call run hp d seen i st2))))"
  by pat_completeness auto
termination
  by (relation "measure (\<lambda>(call, run, hp, d, seen, cur, st). cur)")
    (auto dest: filter_eq_ConsD)

definition dispatchToHandlers ::
  "'h client \<Rightarrow> ('h prog \<Rightarrow> ('h, unit) action) \<Rightarrow> handler_pool \<Rightarrow> sd_ref \<Rightarrow> ('h dispatcher \<Rightarrow> dispatchable result)
     \<Rightarrow> ('h, unit) action" where
  "dispatchToHandlers call run hp d seen st =
     thenA (case handlers_of hp d st of
              [] \<Rightarrow> (st, Inr ())
            | (k, h) # _ \<Rightarrow> dispatch_loop call run hp d seen k st)
       (\<lambda>_ st. (put_handlers hp d (fold erase_handler (removeIds st) (handlers_of hp d st)) (st\<lparr>removeIds := []\<rparr>),
                Inr ()))"

definition dispatchTransmission ::
  "'h client \<Rightarrow> ('h prog \<Rightarrow> ('h, unit) action) \<Rightarrow> transmission \<Rightarrow> ('h, unit) action" where
  "dispatchTransmission call run t st =
     (case handlerPool st Transmission_Pool (sd_addr (tr_type t)) of
        None \<Rightarrow> (st, Inr ())
      | Some _ \<Rightarrow> dispatchToHandlers call run Transmission_Pool (tr_type t) (\<lambda>_. Inr (Trans t)) st)"

text \<open>Access to the container of a type through the pool, and a change of it that goes into the record.\<close>

definition with_container :: "sd_ref \<Rightarrow> (container \<Rightarrow> container \<times> 'a result) \<Rightarrow> ('h, 'a) action" where
  "with_container d f st =
     (case pool_get d True (containerPool st) of
        (pool, Inl e) \<Rightarrow> (st\<lparr>containerPool := pool\<rparr>, Inl e)
      | (pool, Inr c) \<Rightarrow>
          (case f c of (c', r) \<Rightarrow> (st\<lparr>containerPool := pool_put d c' pool\<rparr>, r)))"

definition change_container ::
  "sd_ref \<Rightarrow> area \<Rightarrow> bool \<Rightarrow> (container \<Rightarrow> container \<times> 'a result) \<Rightarrow> ('h, 'a) action" where
  "change_container d a removes f st =
     (case with_container d f st of
        (st', r) \<Rightarrow> (st'\<lparr>changes := changes st @ [(sd_addr d, a, removes \<or> isl r)]\<rparr>, r))"

text \<open>What has happened since the first \<open>n\<close> changes to the clone that has the key of \<open>a\<close>.\<close>

definition changes_since :: "nat \<Rightarrow> sd_ref \<Rightarrow> area \<Rightarrow> 'h dispatcher \<Rightarrow> (nat \<times> area \<times> bool) list" where
  "changes_since n d a st =
     (let less = key_compare (propertyDescriptors (sd_of d)) in
      filter (\<lambda>(k, b, gone). k = sd_addr d \<and> \<not> less a b \<and> \<not> less b a) (drop n (changes st)))"

text \<open>
  An event of a clone, created when \<open>n\<close> changes had been made: it shows the clone as it is now. An event of an
  instance that is not in a container any more, or never is, owns what it shows.
\<close>

definition live_event :: "sd_ref \<Rightarrow> nat \<Rightarrow> event \<Rightarrow> 'h dispatcher \<Rightarrow> dispatchable result" where
  "live_event d n ev st =
     (case changes_since n d (ev_updated ev) st of
        [] \<Rightarrow> Inr (Ev ev)
      | later \<Rightarrow>
          if \<exists>(k, b, gone) \<in> set later. gone then Inl (UndefinedBehaviour ''event of an erased clone'')
          else (case Option.bind (pool_find d (containerPool st)) (findClone (ev_updated ev)) of
                  None \<Rightarrow> Inl (UndefinedBehaviour ''event of an erased clone'')
                | Some (u, info) \<Rightarrow> Inr (Ev (ev\<lparr>ev_updated := u, ev_cloneInfo := info\<rparr>))))"

definition dispatch_event_of ::
  "'h client \<Rightarrow> ('h prog \<Rightarrow> ('h, unit) action) \<Rightarrow> sd_ref \<Rightarrow> (event \<Rightarrow> 'h dispatcher \<Rightarrow> dispatchable result)
     \<Rightarrow> event result \<Rightarrow> ('h, unit) action" where
  "dispatch_event_of call run d seen e st =
     (case e of Inl x \<Rightarrow> (st, Inl x) | Inr ev \<Rightarrow> dispatchToHandlers call run Event_Pool d (seen ev) st)"

definition dispatchEvent ::
  "64 word \<Rightarrow> 'h client \<Rightarrow> ('h prog \<Rightarrow> ('h, unit) action) \<Rightarrow> transmission \<Rightarrow> ('h, unit) action" where
  "dispatchEvent now call run t st0 =
     (let d = tr_type t; h = tr_header t; a = tr_instance t;
          st = put_handlers Event_Pool d (handlers_of Event_Pool d st0) st0;
          owned = (\<lambda>ev _. Inr (Ev ev))
      in if cached (sd_of d) then
           (if hd_removeObj h = Some True then
              thenA (change_container d a True (container_remove now h a) st) (\<lambda>removed st.
                case removed of
                  None \<Rightarrow> (st, Inr ())
                | Some (u, info) \<Rightarrow> dispatch_event_of call run d owned (event_new h a u info None) st)
            else
              thenA (change_container d a False (container_insert now h a) st) (\<lambda>(u, info) st.
                dispatch_event_of call run d (live_event d (length (changes st))) (event_new h a u info None) st))
         else if hd_removeObj h = Some True
         then (st, Inl (LogicError (''cannot remove uncached instance for type: '' @ sd_name (sd_of d))))
         else dispatch_event_of call run d owned
                (event_new h a a \<lparr>lastOperation = Some Mt_create, lastUpdateFrom = None, created = hd_sentTime h,
                    createdFrom = hd_sender h, modified = None, localUpdateTime = Some now\<rparr> None) st)"

text \<open>
  The replay of \<open>addEventHandler\<close> iterates over the container while the handler runs. The iterator stands at a
  clone; \<open>cs\<close> are that clone and those behind it, \<open>left\<close> is the countdown of the header. When the handler has
  returned, the iterator must not have been invalidated, and moves to the next clone that is in the container
  then. A handler that inserts ever greater keys makes the loop endless, so \<open>rounds\<close> bounds it.
\<close>

definition replay_header :: "sd_ref \<Rightarrow> area \<Rightarrow> 32 word \<Rightarrow> dots_header" where
  "replay_header d a left =
     \<lparr>hd_typeName = Some (sd_name (sd_of d)), hd_sentTime = None, hd_serverSentTime = None,
      hd_attributes = Some (validProperties a), hd_sender = None, hd_fromCache = Some left,
      hd_removeObj = Some False, hd_isFromMyself = Some False\<rparr>"

definition clones_behind :: "sd_ref \<Rightarrow> area \<Rightarrow> 'h dispatcher \<Rightarrow> clone list" where
  "clones_behind d a st =
     (case pool_find d (containerPool st) of
        None \<Rightarrow> []
      | Some c \<Rightarrow> filter (\<lambda>(b, info). key_compare (cont_props c) a b) (m_instances c))"

fun replay ::
  "'h client \<Rightarrow> ('h prog \<Rightarrow> ('h, unit) action) \<Rightarrow> sd_ref \<Rightarrow> nat \<Rightarrow> 'h \<Rightarrow> nat \<Rightarrow> 32 word \<Rightarrow> clone list \<Rightarrow> ('h, unit) action" where
  "replay call run d k h rounds left [] st = (st, Inr ())"
| "replay call run d k h 0 left (c # cs) st = (st, Inl (UndefinedBehaviour ''replay without end''))"
| "replay call run d k h (Suc rounds) left ((a, info) # cs) st =
     (case event_new (replay_header d a (left - 1)) a a info (Some Mt_create) of
        Inl e \<Rightarrow> (st, Inl e)
      | Inr ev \<Rightarrow>
          thenA (invoke call run Event_Pool k h (Ev ev) st) (\<lambda>_ st'.
            if k \<notin> fst ` set (handlers_of Event_Pool d st')
            then (st', Inl (UndefinedBehaviour ''running handler destroyed''))
            else if changes_since (length (changes st)) d a st' \<noteq> []
            then (st', Inl (UndefinedBehaviour ''iterator to an extracted clone''))
            else replay call run d k h rounds (left - 1)
                   (if changes st' = changes st then cs else clones_behind d a st') st'))"

text \<open>\<open>extra\<close> is how many clones beyond those that are there at the start a replay may reach.\<close>

definition addEventHandler_with ::
  "'h client \<Rightarrow> ('h prog \<Rightarrow> ('h, unit) action) \<Rightarrow> nat \<Rightarrow> sd_ref \<Rightarrow> 'h \<Rightarrow> ('h, nat) action" where
  "addEventHandler_with call run extra d h st =
     (let k = nextId st; st1 = st\<lparr>nextId := Suc k\<rparr> in
      if clearingHandlers st then (st1, Inr k)
      else let st2 = put_handlers Event_Pool d (emplace_handler k h (handlers_of Event_Pool d st1)) st1
        in thenA (with_container d (\<lambda>c. (c, Inr c)) st2) (\<lambda>c st.
           let n = length (m_instances c) in
           thenA (replay call run d k h (n + extra) (of_nat n) (m_instances c) st) (\<lambda>_ st. (st, Inr k))))"

text \<open>Calls nested to a depth of \<open>n\<close>, and replays of \<open>n\<close> additional clones.\<close>

fun dispatch :: "64 word \<Rightarrow> 'h client \<Rightarrow> nat \<Rightarrow> transmission \<Rightarrow> ('h, unit) action"
and addEventHandler :: "64 word \<Rightarrow> 'h client \<Rightarrow> nat \<Rightarrow> sd_ref \<Rightarrow> 'h \<Rightarrow> ('h, nat) action" where
  "dispatch now call 0 t st = (st, Inl (UndefinedBehaviour ''stack overflow''))"
| "dispatch now call (Suc n) t st =
     (let run = run_prog (dispatch now call n) (addEventHandler now call n) in
      thenA (dispatchTransmission call run t st) (\<lambda>_. dispatchEvent now call run t))"
| "addEventHandler now call 0 d h st = (st, Inl (UndefinedBehaviour ''stack overflow''))"
| "addEventHandler now call (Suc n) d h st =
     addEventHandler_with call (run_prog (dispatch now call n) (addEventHandler now call n)) n d h st"

declare dispatch_loop.simps [simp del]

end
