(* ===== verification/Text_Numbers.thy ===== *)
theory Text_Numbers
  imports Dots_Prelude
begin

text \<open>
  Numbers as text, the way \<open>std::to_string\<close>, \<open>operator <<\<close> with \<open>std::hex\<close> and the
  corresponding readers of the standard library write and read them.
\<close>

definition digit_char :: "nat \<Rightarrow> char" where
  "digit_char n = char_of (if n < 10 then 48 + n else 87 + n)"

definition digit_value :: "char \<Rightarrow> nat option" where
  "digit_value c =
     (let k = of_char c :: nat in
      if 48 \<le> k \<and> k \<le> 57 then Some (k - 48)
      else if 97 \<le> k \<and> k \<le> 102 then Some (k - 87)
      else if 65 \<le> k \<and> k \<le> 70 then Some (k - 55)
      else None)"

definition digit_of_base :: "nat \<Rightarrow> char \<Rightarrow> nat option" where
  "digit_of_base b c = (case digit_value c of None \<Rightarrow> None | Some d \<Rightarrow> if d < b then Some d else None)"

function show_base :: "nat \<Rightarrow> nat \<Rightarrow> string" where
  "show_base b n = (if n < b \<or> b < 2 then [digit_char n] else show_base b (n div b) @ [digit_char (n mod b)])"
  by pat_completeness auto
termination
  by (relation "measure snd") auto

declare show_base.simps [simp del]

abbreviation show_nat :: "nat \<Rightarrow> string" where
  "show_nat \<equiv> show_base 10"

definition show_int :: "int \<Rightarrow> string" where
  "show_int i = (if i < 0 then ''-'' @ show_nat (nat (- i)) else show_nat (nat i))"

text \<open>The leading digits of a text, and what follows them.\<close>

fun read_base :: "nat \<Rightarrow> nat \<Rightarrow> string \<Rightarrow> nat \<times> string" where
  "read_base b n [] = (n, [])"
| "read_base b n (c # cs) =
     (case digit_of_base b c of None \<Rightarrow> (n, c # cs) | Some d \<Rightarrow> read_base b (n * b + d) cs)"

lemma digit_char_value [simp]: "n < 16 \<Longrightarrow> digit_value (digit_char n) = Some n"
  by (auto simp: digit_value_def digit_char_def Let_def)

lemma digit_char_base [simp]: "n < b \<Longrightarrow> b \<le> 16 \<Longrightarrow> digit_of_base b (digit_char n) = Some n"
  by (simp add: digit_of_base_def)

lemma show_base_not_Nil [simp]: "show_base b n \<noteq> []"
  by (subst show_base.simps) simp

lemma show_base_digits:
  "2 \<le> b \<Longrightarrow> b \<le> 16 \<Longrightarrow> c \<in> set (show_base b n) \<Longrightarrow> \<exists>d < b. c = digit_char d"
proof (induction b n rule: show_base.induct)
  case (1 b n)
  consider "c = digit_char n" "n < b" | "c = digit_char (n mod b)" | "\<not> n < b" "c \<in> set (show_base b (n div b))"
    using "1.prems" by (auto simp: show_base.simps [of b n] split: if_splits)
  then show ?case using 1 by cases (auto intro!: exI [of _ "n mod b"])
qed

lemma read_show_base:
  "2 \<le> b \<Longrightarrow> b \<le> 16 \<Longrightarrow> \<exists>k. \<forall>m rest. read_base b m (show_base b n @ rest) = read_base b (m * b ^ k + n) rest"
proof (induction b n rule: show_base.induct)
  case (1 b n)
  show ?case
  proof (cases "n < b")
    case True
    then show ?thesis using "1.prems" by (intro exI [of _ 1]) (simp add: show_base.simps)
  next
    case False
    then obtain k where k: "\<And>m rest. read_base b m (show_base b (n div b) @ rest) = read_base b (m * b ^ k + n div b) rest"
      using 1 by auto
    have "show_base b n = show_base b (n div b) @ [digit_char (n mod b)]"
      using False "1.prems" by (subst show_base.simps) simp
    moreover have "(m * b ^ k + n div b) * b + n mod b = m * b ^ Suc k + n" for m
    proof -
      have "(m * b ^ k + n div b) * b + n mod b = m * b ^ Suc k + (n div b * b + n mod b)" by (simp add: algebra_simps)
      then show ?thesis by simp
    qed
    ultimately show ?thesis using k "1.prems" by (intro exI [of _ "Suc k"]) simp
  qed
qed

lemma read_show:
  "2 \<le> b \<Longrightarrow> b \<le> 16 \<Longrightarrow> read_base b 0 (show_base b n @ rest) = read_base b n rest"
  using read_show_base [of b n] by fastforce

lemma read_stops: "(case rest of [] \<Rightarrow> True | c # _ \<Rightarrow> digit_of_base b c = None) \<Longrightarrow> read_base b n rest = (n, rest)"
  by (cases rest) simp_all

lemma read_zeroes [simp]: "0 < b \<Longrightarrow> read_base b 0 (replicate k (digit_char 0) @ rest) = read_base b 0 rest"
proof (induction k)
  case (Suc k)
  have "digit_value (digit_char 0) = Some 0" by simp
  then show ?case using Suc by (simp add: digit_of_base_def)
qed simp

lemma length_show_base: "2 \<le> b \<Longrightarrow> n < b ^ k \<Longrightarrow> 0 < k \<Longrightarrow> length (show_base b n) \<le> k"
proof (induction b n arbitrary: k rule: show_base.induct)
  case (1 b n)
  show ?case
  proof (cases "n < b")
    case False
    with 1 obtain j where j: "k = Suc j" "0 < j" by (cases k; cases "k - 1") auto
    then have "n div b < b ^ j"
      using "1.prems" less_mult_imp_div_less [of n "b ^ j" b] by (simp add: mult.commute)
    then show ?thesis using False 1 j by (subst show_base.simps) simp
  qed (use 1 in \<open>simp add: show_base.simps\<close>)
qed

end
