(* ===== verification/Messages.thy ===== *)
theory Messages
  imports Dispatcher Text_Numbers
begin

text \<open>
  What travels over a connection. The instances of the types that the code itself reads are
  records with their properties, all others are areas with the descriptor of their type. The
  properties and tags are those of \<open>external/dots/model\<close>.
\<close>

section \<open>System types\<close>

record msg_hello =
  hello_serverName :: "string option"
  hello_authChallenge :: "64 word option"
  hello_authenticationRequired :: "bool option"

record msg_connect =
  connect_clientName :: "string option"
  connect_preloadCache :: "bool option"
  connect_preloadClientFinished :: "bool option"
  connect_authChallengeResponse :: "string option"
  connect_cnonce :: "string option"

record msg_response =
  response_serverName :: "string option"
  response_clientId :: "32 word option"
  response_accepted :: "bool option"
  response_preload :: "bool option"
  response_preloadFinished :: "bool option"

record msg_error =
  error_code :: "32 word option"
  error_text :: "string option"

section \<open>Internal types the host handles\<close>

datatype member_event = Ev_join | Ev_leave | Ev_kill

record msg_member =
  member_groupName :: "string option"
  member_event :: "member_event option"
  member_client :: "32 word option"

record descriptor_request =
  request_whitelist :: "string list option"
  request_blacklist :: "string list option"

record cache_info =
  info_typeName :: "string option"
  info_startTransmission :: "bool option"
  info_endTransmission :: "bool option"
  info_endDescriptorRequest :: "bool option"

record echo =
  echo_request :: "bool option"
  echo_identifier :: "32 word option"
  echo_sequenceNumber :: "32 word option"
  echo_data :: "string option"

datatype content =
    Member msg_member
  | DescriptorRequest descriptor_request
  | ClearCache "string list option"
  | Echo echo
  | CacheInfo cache_info
  | Instance sd_ref area

datatype message =
    Hello msg_hello
  | Connect msg_connect
  | Response msg_response
  | Error msg_error
  | Data dots_header content

text \<open>The channel transmits messages and, in advance, the descriptors they need.\<close>

datatype frame = Message message | Descriptor sd_ref

section \<open>Valid properties\<close>

definition valid_tag :: "'a option \<Rightarrow> nat \<Rightarrow> property_set" where
  "valid_tag p t = (if p = None then ps_None else FromIndex t)"

definition hello_valid :: "msg_hello \<Rightarrow> property_set" where
  "hello_valid m = ps_add (valid_tag (hello_serverName m) 1)
     (ps_add (valid_tag (hello_authChallenge m) 2) (valid_tag (hello_authenticationRequired m) 3))"

definition connect_valid :: "msg_connect \<Rightarrow> property_set" where
  "connect_valid m = ps_add (valid_tag (connect_clientName m) 1) (ps_add (valid_tag (connect_preloadCache m) 2)
     (ps_add (valid_tag (connect_preloadClientFinished m) 3)
       (ps_add (valid_tag (connect_authChallengeResponse m) 4) (valid_tag (connect_cnonce m) 5))))"

definition response_valid :: "msg_response \<Rightarrow> property_set" where
  "response_valid m = ps_add (valid_tag (response_serverName m) 1) (ps_add (valid_tag (response_accepted m) 2)
     (ps_add (valid_tag (response_preload m) 3)
       (ps_add (valid_tag (response_preloadFinished m) 4) (valid_tag (response_clientId m) 5))))"

definition error_valid :: "msg_error \<Rightarrow> property_set" where
  "error_valid m = ps_add (valid_tag (error_code m) 1) (valid_tag (error_text m) 2)"

fun content_valid :: "content \<Rightarrow> property_set" where
  "content_valid (Member m) = ps_add (valid_tag (member_groupName m) 1)
     (ps_add (valid_tag (member_event m) 2) (valid_tag (member_client m) 3))"
| "content_valid (DescriptorRequest m) =
     ps_add (valid_tag (request_whitelist m) 1) (valid_tag (request_blacklist m) 2)"
| "content_valid (ClearCache names) = valid_tag names 1"
| "content_valid (Echo m) = ps_add (valid_tag (echo_request m) 1) (ps_add (valid_tag (echo_identifier m) 2)
     (ps_add (valid_tag (echo_sequenceNumber m) 3) (valid_tag (echo_data m) 4)))"
| "content_valid (CacheInfo m) = ps_add (valid_tag (info_typeName m) 1)
     (ps_add (valid_tag (info_startTransmission m) 2)
       (ps_add (valid_tag (info_endTransmission m) 3) (valid_tag (info_endDescriptorRequest m) 4)))"
| "content_valid (Instance d a) = validProperties a"

text \<open>None of the internal types has key properties.\<close>

fun content_properties :: "content \<Rightarrow> property_set" where
  "content_properties (Member m) = ps_add (FromIndex 1) (ps_add (FromIndex 2) (FromIndex 3))"
| "content_properties (DescriptorRequest m) = ps_add (FromIndex 1) (FromIndex 2)"
| "content_properties (ClearCache names) = FromIndex 1"
| "content_properties (Echo m) = ps_add (FromIndex 1) (ps_add (FromIndex 2) (ps_add (FromIndex 3) (FromIndex 4)))"
| "content_properties (CacheInfo m) = ps_add (FromIndex 1) (ps_add (FromIndex 2) (ps_add (FromIndex 3) (FromIndex 4)))"
| "content_properties (Instance d a) = properties (sd_of d)"

fun content_keys :: "content \<Rightarrow> property_set" where
  "content_keys (Instance d a) = keyProperties (sd_of d)"
| "content_keys c = ps_None"

fun content_name :: "content \<Rightarrow> string" where
  "content_name (Member m) = ''DotsMember''"
| "content_name (DescriptorRequest m) = ''DotsDescriptorRequest''"
| "content_name (ClearCache names) = ''DotsClearCache''"
| "content_name (Echo m) = ''DotsEcho''"
| "content_name (CacheInfo m) = ''DotsCacheInfo''"
| "content_name (Instance d a) = sd_name (sd_of d)"

fun content_substructOnly :: "content \<Rightarrow> bool" where
  "content_substructOnly (Instance d a) = substructOnly (sd_of d)"
| "content_substructOnly c = False"

fun content_internal :: "content \<Rightarrow> bool" where
  "content_internal (Instance d a) = internal (sd_of d)"
| "content_internal c = True"

text \<open>\<open>_assertHasProperties\<close> on an instance; the properties that are named in its message do not matter.\<close>

definition assert_valid :: "string \<Rightarrow> property_set \<Rightarrow> property_set \<Rightarrow> unit result" where
  "assert_valid name expected valid =
     assertE (ps_le expected valid) (LogicError (name @ '' instance is missing expected properties''))"

definition assert_keys :: "content \<Rightarrow> unit result" where
  "assert_keys c =
     (case c of
        Instance d a \<Rightarrow> assertHasProperties True (sd_of d) (content_keys c) a
      | _ \<Rightarrow> Inr ())"

section \<open>Headers\<close>

definition empty_header :: dots_header where
  "empty_header = \<lparr>hd_typeName = None, hd_sentTime = None, hd_serverSentTime = None, hd_attributes = None,
     hd_sender = None, hd_fromCache = None, hd_removeObj = None, hd_isFromMyself = None\<rparr>"

definition what :: "exn \<Rightarrow> string" where
  "what e = (case e of RuntimeError s \<Rightarrow> s | LogicError s \<Rightarrow> s | SerializerException s \<Rightarrow> s | UndefinedBehaviour s \<Rightarrow> s)"

lemma valid_tag_le [simp]: "t \<in> ps_members (valid_tag p u) \<longleftrightarrow> p \<noteq> None \<and> t \<in> ps_members (FromIndex u)"
  by (simp add: valid_tag_def ps_simps)

end
