(* ===== verification/Credentials.thy ===== *)
theory Credentials
  imports Text_Numbers
begin

text \<open>
  \<open>io/auth/Nonce.cpp\<close> and \<open>io/auth/Digest.cpp\<close>. The hash function and the hex coding are
  library code (PicoSHA2, Boost) and so parameters: \<open>unhex\<close> gives the bytes it has put into its
  output iterator, and the exception with which it ended, if any.
\<close>

record crypto_lib =
  sha256 :: "8 word list \<Rightarrow> 8 word list"
  unhex :: "string \<Rightarrow> 8 word list \<times> exn option"
  hex_lower :: "8 word list \<Rightarrow> string"
  little_endian :: bool

text \<open>The documented behaviour the code relies on.\<close>

definition crypto_ok :: "crypto_lib \<Rightarrow> bool" where
  "crypto_ok lib \<longleftrightarrow> (\<forall>bs. length (sha256 lib bs) = 32) \<and> (\<forall>bs. unhex lib (hex_lower lib bs) = (bs, None))"

definition chars :: "string \<Rightarrow> 8 word list" where
  "chars s = List.map of_char s"

section \<open>Nonces\<close>

type_synonym nonce = "64 word"

definition nonce_toString :: "nonce \<Rightarrow> string" where
  "nonce_toString v =
     (let digits = show_base 16 (unat v) in replicate (16 - length digits) (digit_char 0) @ digits)"

text \<open>
  \<open>operator >>\<close> for an unsigned number in base 16 on a text without leading blanks or sign: an
  optional prefix \<open>0x\<close>, at least one digit, saturation when the number is too large.
\<close>

definition nonce_fromString :: "string \<Rightarrow> nonce" where
  "nonce_fromString s =
     (let digits = (case s of c # x # rest \<Rightarrow> if c = CHR ''0'' \<and> (x = CHR ''x'' \<or> x = CHR ''X'') then rest else s | _ \<Rightarrow> s);
          n = fst (read_base 16 0 digits)
      in if n < 2 ^ 64 then of_nat n else - 1)"

section \<open>Digests\<close>

text \<open>
  \<open>unhex\<close> writes into an array of 32 bytes through an unchecked iterator.
\<close>

definition digest_fromString :: "crypto_lib \<Rightarrow> string \<Rightarrow> 8 word list result" where
  "digest_fromString lib s =
     (let (bs, e) = unhex lib s in
      if 32 < length bs then Inl (UndefinedBehaviour ''write behind the digest'')
      else case e of Some x \<Rightarrow> Inl x | None \<Rightarrow> Inr (bs @ replicate (32 - length bs) 0))"

definition nonce_memory :: "crypto_lib \<Rightarrow> nonce \<Rightarrow> 8 word list" where
  "nonce_memory lib v =
     (let low_first = List.map (\<lambda>i. ucast (drop_bit (8 * i) v)) [0..<8]
      in if little_endian lib then low_first else rev low_first)"

definition digest_new :: "crypto_lib \<Rightarrow> nonce \<Rightarrow> string \<Rightarrow> string \<Rightarrow> string \<Rightarrow> 8 word list" where
  "digest_new lib nonce cnonce userName secret =
     (let a1 = sha256 lib (chars userName @ chars ''::'' @ chars secret)
      in sha256 lib (a1 @ chars '':'' @ nonce_memory lib nonce @ chars '':'' @ chars cnonce))"

definition digest_toString :: "crypto_lib \<Rightarrow> 8 word list \<Rightarrow> string" where
  "digest_toString lib d = hex_lower lib d"

section \<open>Round trips\<close>

lemma nonce_toString_length: "length (nonce_toString v) = 16"
proof -
  have "unat v < 16 ^ 16" using unsigned_less [of v] by simp
  from length_show_base [OF _ this] show ?thesis by (simp add: nonce_toString_def Let_def)
qed

lemma nonce_toString_digits: "c \<in> set (nonce_toString v) \<Longrightarrow> \<exists>d < 16. c = digit_char d"
  using show_base_digits [of 16 c "unat v"]
  by (auto simp: nonce_toString_def Let_def intro: exI [of _ 0] split: if_splits)

text \<open>Reading the text of a nonce gives the nonce back.\<close>

theorem nonce_roundtrip: "nonce_fromString (nonce_toString v) = v"
proof -
  obtain c x rest where s: "nonce_toString v = c # x # rest"
    using nonce_toString_length [of v] by (cases "nonce_toString v"; cases "tl (nonce_toString v)") auto
  have "digit_value (CHR ''x'') = None" "digit_value (CHR ''X'') = None"
    by (simp_all add: digit_value_def)
  then have "digit_char d \<noteq> CHR ''x'' \<and> digit_char d \<noteq> CHR ''X''" if "d < 16" for d
    using digit_char_value [OF that] by auto
  then have "x \<noteq> CHR ''x''" "x \<noteq> CHR ''X''" using nonce_toString_digits [of x v] s by auto
  moreover have "read_base 16 0 (nonce_toString v) = (unat v, [])"
    using read_show [of 16 "unat v" "[]"] by (simp add: nonce_toString_def Let_def)
  moreover have lt: "unat v < 2 ^ 64" using unsigned_less [of v] by simp
  ultimately show ?thesis using lt s by (simp add: nonce_fromString_def Let_def)
qed

lemma digest_length [simp]: "crypto_ok lib \<Longrightarrow> length (digest_new lib n c u s) = 32"
  by (simp add: crypto_ok_def digest_new_def Let_def)

lemma digest_roundtrip:
  "crypto_ok lib \<Longrightarrow> length d = 32 \<Longrightarrow> digest_fromString lib (digest_toString lib d) = Inr d"
  by (simp add: crypto_ok_def digest_fromString_def digest_toString_def)

text \<open>A library that behaves as documented: the hash cuts off, hex coding is what it is.\<close>

fun simple_unhex :: "string \<Rightarrow> 8 word list \<times> exn option" where
  "simple_unhex [] = ([], None)"
| "simple_unhex [c] = ([], Some (RuntimeError ''not_enough_input''))"
| "simple_unhex (c # d # cs) =
     (case (digit_value c, digit_value d) of
        (Some a, Some b) \<Rightarrow> let (bs, e) = simple_unhex cs in (of_nat (16 * a + b) # bs, e)
      | _ \<Rightarrow> ([], Some (RuntimeError ''non_hex_input'')))"

definition simple_crypto :: crypto_lib where
  "simple_crypto =
     \<lparr>sha256 = (\<lambda>bs. take 32 (bs @ replicate 32 0)), unhex = simple_unhex,
      hex_lower = (\<lambda>bs. concat (List.map (\<lambda>b. [digit_char (unat b div 16), digit_char (unat b mod 16)]) bs)),
      little_endian = True\<rparr>"

lemma simple_crypto_ok [simp]: "crypto_ok simple_crypto"
proof -
  have "unat (b :: 8 word) div 16 < 16" for b
    using unsigned_less [of b] by (intro less_mult_imp_div_less) simp
  then have "simple_unhex (concat (List.map (\<lambda>b. [digit_char (unat b div 16), digit_char (unat b mod 16)]) bs)) = (bs, None)" for bs
    by (induction bs) auto
  then show ?thesis by (auto simp: crypto_ok_def simple_crypto_def min_def)
qed

text \<open>A digest is read from text through an unchecked iterator: the hex text of more than 32 bytes
  is written behind the array.\<close>

theorem digest_overflow:
  assumes "crypto_ok lib" "32 < length bs"
  shows "is_ub (digest_fromString lib (hex_lower lib bs))"
  using assms by (simp add: crypto_ok_def digest_fromString_def)

lemma digest_overflow_witness:
  "is_ub (digest_fromString simple_crypto (hex_lower simple_crypto (replicate 33 0)))"
  using digest_overflow [of simple_crypto "replicate 33 0"] by simp

end
