(* ===== verification/Connection.thy ===== *)
theory Connection
  imports Messages Credentials
begin

text \<open>
  \<open>Connection.cpp\<close>: the two sides of the connection protocol, together with the way
  \<open>io/Channel.cpp\<close> calls them. The channel, the handlers and the authentication manager are
  interfaces in the code; they are the fields of \<open>conn_env\<close>, over a state \<open>'s\<close> of which the
  connection is a part. Logging is not modelled.
\<close>

section \<open>State\<close>

datatype connection_state = Connecting | Early_subscribe | Connected | Suspended | Closed

datatype system_type = Type_Hello | Type_Connect | Type_Response | Type_Error

datatype system_handler =
    H_handleHello | H_handleAuthorizationRequest | H_handlePreloadFinished
  | H_handleConnect | H_handlePreloadClientFinished | H_handlePeerError | H_nullptr

record connection =
  c_expected :: "system_type \<times> property_set \<times> system_handler option"
  c_state :: connection_state
  c_selfId :: "32 word"
  c_peerId :: "32 word"
  c_selfName :: string
  c_peerName :: string
  c_authSecret :: "string option"
  c_nonce :: "nonce option"
  c_hasReceive :: bool
  c_hasTransition :: bool

definition UninitializedId :: "32 word" where "UninitializedId = 0"
definition HostId :: "32 word" where "HostId = 1"
definition FirstGuestId :: "32 word" where "FirstGuestId = 2"

text \<open>\<open>nextGuestId\<close> is the static counter of the class; it is returned incremented.\<close>

definition connection_new :: "bool \<Rightarrow> string option \<Rightarrow> 32 word \<Rightarrow> connection \<times> 32 word" where
  "connection_new host authSecret nextGuestId =
     (\<lparr>c_expected = (Type_Error, ps_None, None), c_state = Suspended,
       c_selfId = (if host then HostId else UninitializedId),
       c_peerId = (if host then nextGuestId else HostId),
       c_selfName = '''', c_peerName = ''<not_set>'', c_authSecret = authSecret, c_nonce = None,
       c_hasReceive = False, c_hasTransition = False\<rparr>,
      if host then nextGuestId + 1 else nextGuestId)"

definition isHost :: "connection \<Rightarrow> bool" where
  "isHost c \<longleftrightarrow> c_selfId c = HostId"

definition connected :: "connection \<Rightarrow> bool" where
  "connected c \<longleftrightarrow> c_state c = Connected"

definition closed :: "connection \<Rightarrow> bool" where
  "closed c \<longleftrightarrow> c_state c = Closed"

definition peerDescription :: "connection \<Rightarrow> string" where
  "peerDescription c =
     (if isHost c then ''guest '' else ''host '') @ c_peerName c @ '' ['' @ show_nat (unat (c_peerId c)) @ '']''"

section \<open>Interfaces\<close>

text \<open>
  The manager answers for the remote endpoint of the connection. \<open>verifyAuthentication\<close> takes the
  name of the guest, both nonces and the digest.
\<close>

record 's auth_manager =
  requiresAuthentication :: "'s \<Rightarrow> 's \<times> nonce option result"
  verifyAuthentication :: "string \<Rightarrow> nonce \<Rightarrow> string \<Rightarrow> 8 word list \<Rightarrow> 's \<Rightarrow> 's \<times> bool result"

record 's conn_env =
  get_conn :: "'s \<Rightarrow> connection"
  put_conn :: "connection \<Rightarrow> 's \<Rightarrow> 's"
  channel_transmit :: "frame \<Rightarrow> 's \<Rightarrow> 's \<times> unit result"
  channel_start :: "'s \<Rightarrow> 's \<times> unit result"
  channel_import :: "message \<Rightarrow> 's \<Rightarrow> 's \<times> unit result"
  channel_continue :: "'s \<Rightarrow> 's \<times> unit result"
  receiveHandler :: "dots_header \<Rightarrow> content \<Rightarrow> 's \<Rightarrow> 's \<times> bool result"
  transitionHandler :: "exn option \<Rightarrow> 's \<Rightarrow> 's \<times> unit result"
  authManager :: "'s auth_manager option"
  newNonce :: "'s \<Rightarrow> 's \<times> nonce"
  crypto :: crypto_lib
  time_now :: "64 word"

definition modify_conn :: "'s conn_env \<Rightarrow> (connection \<Rightarrow> connection) \<Rightarrow> 's \<Rightarrow> 's" where
  "modify_conn env f s = put_conn env (f (get_conn env s)) s"

text \<open>\<open>try\<close> and \<open>catch (...)\<close>; what is undefined stays so.\<close>

definition undefined_exn :: "exn \<Rightarrow> bool" where
  "undefined_exn e = (case e of UndefinedBehaviour s \<Rightarrow> True | _ \<Rightarrow> False)"

definition catchA :: "'s \<times> 'a result \<Rightarrow> (exn \<Rightarrow> 's \<Rightarrow> 's \<times> 'a result) \<Rightarrow> 's \<times> 'a result" where
  "catchA m h = (case m of (s, Inr x) \<Rightarrow> (s, Inr x)
     | (s, Inl e) \<Rightarrow> if undefined_exn e then (s, Inl e) else h e s)"

section \<open>Transitions\<close>

definition setConnectionState :: "'s conn_env \<Rightarrow> connection_state \<Rightarrow> exn option \<Rightarrow> 's \<Rightarrow> 's \<times> unit result" where
  "setConnectionState env st e s =
     (let s1 = modify_conn env (c_state_update (\<lambda>_. st)) s in
      if \<not> c_hasTransition (get_conn env s1) then (s1, Inl (UndefinedBehaviour ''no transition handler''))
      else catchA (transitionHandler env e s1) (\<lambda>x s2.
             (s2, Inl (LogicError (''error in transition handler for connection '' @ peerDescription (get_conn env s2)
                @ '' -> '' @ what x)))))"

definition expectSystemType ::
  "'s conn_env \<Rightarrow> system_type \<Rightarrow> property_set \<Rightarrow> system_handler \<Rightarrow> 's \<Rightarrow> 's" where
  "expectSystemType env t ps h s = modify_conn env (c_expected_update (\<lambda>_. (t, ps, Some h))) s"

definition handleClose :: "'s conn_env \<Rightarrow> exn option \<Rightarrow> 's \<Rightarrow> 's \<times> unit result" where
  "handleClose env e s =
     (let s1 = modify_conn env (c_hasReceive_update (\<lambda>_. False)) s;
          s2 = expectSystemType env Type_Error ps_None H_nullptr s1
      in setConnectionState env Closed e s2)"

definition transmit_message :: "'s conn_env \<Rightarrow> message \<Rightarrow> 's \<Rightarrow> 's \<times> unit result" where
  "transmit_message env m s = channel_transmit env (Message m) s"

text \<open>The overload for instances puts the header together.\<close>

definition transmit_content ::
  "'s conn_env \<Rightarrow> content \<Rightarrow> property_set option \<Rightarrow> bool \<Rightarrow> 's \<Rightarrow> 's \<times> unit result" where
  "transmit_content env c includedProperties rm s =
     (let attributes = (case includedProperties of None \<Rightarrow> content_valid c
            | Some ps \<Rightarrow> ps_intersect ps (content_properties c));
          header = empty_header\<lparr>hd_typeName := Some (content_name c), hd_sentTime := Some (time_now env),
            hd_attributes := Some attributes, hd_removeObj := Some rm\<rparr>
      in transmit_message env (Data header c) s)"

definition transmit_descriptor :: "'s conn_env \<Rightarrow> sd_ref \<Rightarrow> 's \<Rightarrow> 's \<times> unit result" where
  "transmit_descriptor env d s = channel_transmit env (Descriptor d) s"

definition handleError :: "'s conn_env \<Rightarrow> exn \<Rightarrow> 's \<Rightarrow> 's \<times> unit result" where
  "handleError env e s =
     thenA (if connected (get_conn env s)
            then catchA (transmit_message env (Error \<lparr>error_code = Some 1, error_text = Some (what e)\<rparr>) s)
                   (\<lambda>x s1. (s1, Inr ()))
            else (s, Inr ()))
       (\<lambda>_. handleClose env (Some e))"

definition handlePeerError :: "'s conn_env \<Rightarrow> msg_error \<Rightarrow> 's \<Rightarrow> 's \<times> unit result" where
  "handlePeerError env m s =
     (if error_code m = Some 0 then handleClose env None s
      else
        let code = (case error_code m of None \<Rightarrow> ''<unknown error code>'' | Some k \<Rightarrow> show_int (sint k));
            txt = (case error_text m of None \<Rightarrow> ''<unknown error>'' | Some t \<Rightarrow> t)
        in handleError env (RuntimeError (''received DOTS error: ('' @ code @ '') '' @ txt)) s)"

section \<open>The handshake of the guest\<close>

definition handleHello :: "'s conn_env \<Rightarrow> msg_hello \<Rightarrow> 's \<Rightarrow> 's \<times> unit result" where
  "handleHello env m s =
     thenA (s, deref ''serverName'' (hello_serverName m)) (\<lambda>server s.
     let s1 = modify_conn env (c_peerName_update (\<lambda>_. server)) s;
         connect = \<lparr>connect_clientName = Some (c_selfName (get_conn env s1)), connect_preloadCache = Some True,
           connect_preloadClientFinished = None, connect_authChallengeResponse = None, connect_cnonce = None\<rparr>
     in
       thenA (if hello_authenticationRequired m = Some True
              then case c_authSecret (get_conn env s1) of
                     None \<Rightarrow> (s1, Inl (RuntimeError ''host requested authentication but no secret was specified''))
                   | Some secret \<Rightarrow>
                       let (s2, cn) = newNonce env s1; cnonce = nonce_toString cn in
                       (s2, bindE (deref ''authChallenge'' (hello_authChallenge m)) (\<lambda>challenge.
                          Inr (connect\<lparr>connect_cnonce := Some cnonce,
                            connect_authChallengeResponse := Some (digest_toString (crypto env)
                              (digest_new (crypto env) challenge cnonce (c_selfName (get_conn env s2)) secret))\<rparr>)))
              else (s1, Inr connect)) (\<lambda>connect s.
       thenA (transmit_message env (Connect connect) s) (\<lambda>_ s.
         (expectSystemType env Type_Response (ps_add (FromIndex 5) (ps_add (FromIndex 2) (FromIndex 3)))
            H_handleAuthorizationRequest s, Inr ()))))"

definition expectError :: "'s conn_env \<Rightarrow> 's \<Rightarrow> 's \<times> unit result" where
  "expectError env s = (expectSystemType env Type_Error (FromIndex 1) H_handlePeerError s, Inr ())"

definition handleAuthorizationRequest :: "'s conn_env \<Rightarrow> msg_response \<Rightarrow> 's \<Rightarrow> 's \<times> unit result" where
  "handleAuthorizationRequest env m s =
     thenA (s, deref ''clientId'' (response_clientId m)) (\<lambda>k s.
     let s1 = modify_conn env (c_selfId_update (\<lambda>_. k)) s in
     if response_preload m = Some True then
       thenA (setConnectionState env Early_subscribe None s1) (\<lambda>_ s.
       thenA (transmit_message env (Connect \<lparr>connect_clientName = None, connect_preloadCache = None,
           connect_preloadClientFinished = Some True, connect_authChallengeResponse = None, connect_cnonce = None\<rparr>) s)
         (\<lambda>_ s. (expectSystemType env Type_Response (FromIndex 4) H_handlePreloadFinished s, Inr ())))
     else thenA (setConnectionState env Connected None s1) (\<lambda>_. expectError env))"

definition handlePreloadFinished :: "'s conn_env \<Rightarrow> 's \<Rightarrow> 's \<times> unit result" where
  "handlePreloadFinished env s =
     thenA (setConnectionState env Connected None s) (\<lambda>_. expectError env)"

section \<open>The handshake of the host\<close>

definition connect_response :: "32 word \<Rightarrow> bool \<Rightarrow> bool \<Rightarrow> message" where
  "connect_response peer accepted preload =
     Response \<lparr>response_serverName = None, response_clientId = Some peer, response_accepted = Some accepted,
       response_preload = Some preload, response_preloadFinished = None\<rparr>"

text \<open>Whether the manager, if there is one, accepts the guest; the arguments are evaluated first.\<close>

definition verifyConnect :: "'s conn_env \<Rightarrow> string \<Rightarrow> msg_connect \<Rightarrow> 's \<Rightarrow> 's \<times> bool result" where
  "verifyConnect env clientName m s =
     (case authManager env of
        None \<Rightarrow> (s, Inr True)
      | Some am \<Rightarrow>
          thenA (s, digest_fromString (crypto env) (case connect_authChallengeResponse m of None \<Rightarrow> '''' | Some r \<Rightarrow> r))
            (\<lambda>digest s.
              verifyAuthentication am clientName (case c_nonce (get_conn env s) of None \<Rightarrow> 0 | Some n \<Rightarrow> n)
                (case connect_cnonce m of None \<Rightarrow> '''' | Some n \<Rightarrow> n) digest s))"

definition handleConnect :: "'s conn_env \<Rightarrow> msg_connect \<Rightarrow> 's \<Rightarrow> 's \<times> unit result" where
  "handleConnect env m s =
     thenA (s, deref ''clientName'' (connect_clientName m)) (\<lambda>clientName s.
     thenA (verifyConnect env clientName m s) (\<lambda>accepted s.
     let preload = (connect_preloadCache m = Some True) in
     if \<not> accepted then
       thenA (transmit_message env (connect_response (c_peerId (get_conn env s)) False preload) s) (\<lambda>_ s.
         (s, Inl (RuntimeError ''invalid authorization information'')))
     else
       let s1 = modify_conn env (c_peerName_update (\<lambda>_. clientName)) s in
       thenA (transmit_message env (connect_response (c_peerId (get_conn env s1)) True preload) s1) (\<lambda>_ s.
         if preload then
           thenA (setConnectionState env Early_subscribe None s) (\<lambda>_ s.
             (expectSystemType env Type_Connect (FromIndex 3) H_handlePreloadClientFinished s, Inr ()))
         else thenA (setConnectionState env Connected None s) (\<lambda>_. expectError env))))"

definition handlePreloadClientFinished :: "'s conn_env \<Rightarrow> msg_connect \<Rightarrow> 's \<Rightarrow> 's \<times> unit result" where
  "handlePreloadClientFinished env m s =
     (if connect_preloadClientFinished m = Some False
      then (s, Inl (LogicError ''expected preload client finished to be true''))
      else thenA (setConnectionState env Connected None s) (\<lambda>_ s.
           thenA (transmit_message env (Response \<lparr>response_serverName = None, response_clientId = None,
               response_accepted = None, response_preload = None, response_preloadFinished = Some True\<rparr>) s)
             (\<lambda>_. expectError env)))"

section \<open>Receiving\<close>

definition call_handler :: "'s conn_env \<Rightarrow> system_handler option \<Rightarrow> message \<Rightarrow> 's \<Rightarrow> 's \<times> unit result" where
  "call_handler env h m s =
     (case (h, m) of
        (Some H_handleHello, Hello x) \<Rightarrow> handleHello env x s
      | (Some H_handleAuthorizationRequest, Response x) \<Rightarrow> handleAuthorizationRequest env x s
      | (Some H_handlePreloadFinished, Response x) \<Rightarrow> handlePreloadFinished env s
      | (Some H_handleConnect, Connect x) \<Rightarrow> handleConnect env x s
      | (Some H_handlePreloadClientFinished, Connect x) \<Rightarrow> handlePreloadClientFinished env x s
      | (Some H_handlePeerError, Error x) \<Rightarrow> handlePeerError env x s
      | (None, _) \<Rightarrow> (s, Inl (UndefinedBehaviour ''no handler''))
      | (Some H_nullptr, _) \<Rightarrow> (s, Inl (UndefinedBehaviour ''null member function''))
      | _ \<Rightarrow> (s, Inl (LogicError ''instance does not have expected type'')))"

fun system_valid :: "message \<Rightarrow> (system_type \<times> string \<times> property_set) option" where
  "system_valid (Hello m) = Some (Type_Hello, ''DotsMsgHello'', hello_valid m)"
| "system_valid (Connect m) = Some (Type_Connect, ''DotsMsgConnect'', connect_valid m)"
| "system_valid (Response m) = Some (Type_Response, ''DotsMsgConnectResponse'', response_valid m)"
| "system_valid (Error m) = Some (Type_Error, ''DotsMsgError'', error_valid m)"
| "system_valid (Data h c) = None"

text \<open>The header of an instance before it is handed to the receive handler.\<close>

definition stamp :: "64 word \<Rightarrow> connection \<Rightarrow> dots_header \<Rightarrow> dots_header" where
  "stamp now c h =
     (if isHost c then
        let h1 = h\<lparr>hd_sender := Some (c_peerId c), hd_serverSentTime := Some now\<rparr>;
            h2 = (if hd_sentTime h1 = None then h1\<lparr>hd_sentTime := hd_serverSentTime h1\<rparr> else h1)
        in h2\<lparr>hd_isFromMyself := Some (hd_sender h2 = Some (c_selfId c))\<rparr>
      else
        let h1 = (if hd_sentTime h = None then h\<lparr>hd_sentTime := Some now\<rparr> else h) in
        if hd_sender h1 \<noteq> None then h1\<lparr>hd_isFromMyself := Some (hd_sender h1 = Some (c_selfId c))\<rparr>
        else h1\<lparr>hd_sender := Some (c_peerId c), hd_isFromMyself := Some False\<rparr>)"

definition handleSystem :: "'s conn_env \<Rightarrow> message \<Rightarrow> 's \<Rightarrow> 's \<times> bool result" where
  "handleSystem env m s =
     (case system_valid m of
        None \<Rightarrow> (s, Inl (LogicError ''instance does not have expected type''))
      | Some (t, name, valid) \<Rightarrow>
          let (expectedType, expectedProperties, handler) = c_expected (get_conn env s) in
          thenA (s, assertE (t = expectedType) (LogicError (name @ '' instance does not have expected type''))) (\<lambda>_ s.
          thenA (s, assert_valid name expectedProperties valid) (\<lambda>_ s.
          thenA (call_handler env handler m s) (\<lambda>_ s. (s, Inr True)))))"

definition handleData :: "'s conn_env \<Rightarrow> dots_header \<Rightarrow> content \<Rightarrow> 's \<Rightarrow> 's \<times> bool result" where
  "handleData env h x s =
     (let c = get_conn env s in
      if c_state c = Connected \<or> c_state c = Early_subscribe then
        thenA (s, assert_keys x) (\<lambda>_ s.
          if \<not> c_hasReceive c then (s, Inl (UndefinedBehaviour ''no receive handler''))
          else receiveHandler env (stamp (time_now env) c h) x s)
      else (s, Inl (LogicError (''received instance of non-system type '' @ content_name x
              @ '' while not in early_subscribe or connected state''))))"

definition handleReceive :: "'s conn_env \<Rightarrow> message \<Rightarrow> 's \<Rightarrow> 's \<times> bool result" where
  "handleReceive env m s =
     (if closed (get_conn env s) then (s, Inr False)
      else case m of
        Error x \<Rightarrow> thenA (handlePeerError env x s) (\<lambda>_ s. (s, Inr False))
      | Data h x \<Rightarrow> handleData env h x s
      | _ \<Rightarrow> handleSystem env m s)"

text \<open>\<open>Channel::processReceive\<close> and \<open>Channel::processError\<close>; an exception that leaves them ends the program.\<close>

definition processError :: "'s conn_env \<Rightarrow> exn \<Rightarrow> 's \<Rightarrow> 's \<times> unit result" where
  "processError env e s =
     catchA (handleError env e s) (\<lambda>x s. (s, Inl (LogicError (''exception in channel error handler -> '' @ what x))))"

definition processReceive :: "'s conn_env \<Rightarrow> message \<Rightarrow> 's \<Rightarrow> 's \<times> unit result" where
  "processReceive env m s =
     catchA
       (catchA
         (thenA (channel_import env m s) (\<lambda>_ s.
          thenA (handleReceive env m s) (\<lambda>more. if more then channel_continue env else (\<lambda>s. (s, Inr ())))))
         (processError env))
       (\<lambda>x s. (s, Inl (UndefinedBehaviour ''std::terminate'')))"

section \<open>Begin and end\<close>

definition conn_asyncReceive :: "'s conn_env \<Rightarrow> string \<Rightarrow> 's \<Rightarrow> 's \<times> unit result" where
  "conn_asyncReceive env name s =
     (if c_state (get_conn env s) \<noteq> Suspended
      then (s, Inl (LogicError ''only one async receive can be started on a connection''))
      else
        let s1 = modify_conn env (c_hasReceive_update (\<lambda>_. True) \<circ> c_hasTransition_update (\<lambda>_. True)) s in
        thenA (setConnectionState env Connecting None s1) (\<lambda>_ s.
        thenA (channel_start env s) (\<lambda>_ s.
        if isHost (get_conn env s) then
          thenA (case authManager env of None \<Rightarrow> (s, Inr None) | Some am \<Rightarrow> requiresAuthentication am s) (\<lambda>n s.
          let s2 = modify_conn env (c_nonce_update (\<lambda>_. n)) s;
              hello = (case n of
                  None \<Rightarrow> \<lparr>hello_serverName = Some name, hello_authChallenge = Some 0, hello_authenticationRequired = None\<rparr>
                | Some v \<Rightarrow> \<lparr>hello_serverName = Some name, hello_authChallenge = Some v,
                    hello_authenticationRequired = Some True\<rparr>)
          in thenA (transmit_message env (Hello hello) s2) (\<lambda>_ s.
               (expectSystemType env Type_Connect (ps_add (FromIndex 1) (FromIndex 2)) H_handleConnect s, Inr ())))
        else
          (expectSystemType env Type_Hello (ps_add (FromIndex 1) (FromIndex 2)) H_handleHello
             (modify_conn env (c_selfName_update (\<lambda>_. name)) s), Inr ()))))"

text \<open>The destructor is \<open>noexcept\<close>.\<close>

definition connection_destroy :: "'s conn_env \<Rightarrow> 's \<Rightarrow> 's \<times> unit result" where
  "connection_destroy env s =
     (if closed (get_conn env s) then (s, Inr ())
      else
        catchA
          (catchA
            (thenA (if connected (get_conn env s)
                    then transmit_message env (Error \<lparr>error_code = Some 0, error_text = None\<rparr>) s else (s, Inr ()))
              (\<lambda>_. handleClose env None))
            (\<lambda>e. handleClose env (Some e)))
          (\<lambda>x s. (s, Inl (UndefinedBehaviour ''std::terminate''))))"

end
