(* ===== verification/Connection_Facts.thy ===== *)
theory Connection_Facts
  imports Connection
begin

text \<open>
  The connection protocol as an automaton, and the contract between a connection and the
  handlers it calls. Under the contract every message moves a connection along the automaton;
  the transceivers fulfil the contract in their theories.
\<close>

section \<open>Outcomes\<close>

definition wp :: "'s \<times> 'a result \<Rightarrow> ('s \<Rightarrow> 'a result \<Rightarrow> bool) \<Rightarrow> bool" where
  "wp m Q \<longleftrightarrow> Q (fst m) (snd m)"

lemma wp_pair [simp]: "wp (s, r) Q = Q s r"
  by (simp add: wp_def)

lemma wp_thenA [simp]:
  "wp (thenA m f) Q = wp m (\<lambda>s r. case r of Inl e \<Rightarrow> Q s (Inl e) | Inr x \<Rightarrow> wp (f x s) Q)"
  by (cases m; cases "snd m") (auto simp: wp_def)

lemma wp_catchA [simp]:
  "wp (catchA m h) Q = wp m (\<lambda>s r. case r of Inr x \<Rightarrow> Q s (Inr x)
     | Inl e \<Rightarrow> if undefined_exn e then Q s (Inl e) else wp (h e s) Q)"
  by (cases m; cases "snd m") (auto simp: wp_def catchA_def)

lemma wp_if [simp]: "wp (if b then m else m') Q = (if b then wp m Q else wp m' Q)"
  by simp

lemma wp_mono: "wp m Q \<Longrightarrow> (\<And>s r. Q s r \<Longrightarrow> Q' s r) \<Longrightarrow> wp m Q'"
  by (simp add: wp_def)

lemma undefined_exn_simps [simp]:
  "undefined_exn (UndefinedBehaviour s)" "\<not> undefined_exn (RuntimeError s)"
  "\<not> undefined_exn (LogicError s)" "\<not> undefined_exn (SerializerException s)"
  by (simp_all add: undefined_exn_def)

lemma is_ub_Inl [simp]: "is_ub (Inl e) = undefined_exn e"
  by (simp add: is_ub_def undefined_exn_def)

section \<open>The contract with the handlers\<close>

text \<open>While a handler runs it may close the connection, and do nothing else to it.\<close>

definition shut :: "connection \<Rightarrow> connection" where
  "shut c = c\<lparr>c_hasReceive := False, c_expected := (Type_Error, ps_None, Some H_nullptr), c_state := Closed\<rparr>"

definition closes :: "connection \<Rightarrow> connection \<Rightarrow> bool" where
  "closes c c' \<longleftrightarrow> c' = c \<or> c' = shut c"

lemma shut_simps [simp]:
  "c_state (shut c) = Closed" "c_hasReceive (shut c) = False" "c_hasTransition (shut c) = c_hasTransition c"
  "c_selfId (shut c) = c_selfId c" "c_peerId (shut c) = c_peerId c" "isHost (shut c) = isHost c"
  "shut (shut c) = shut c" "c_expected (shut c) = (Type_Error, ps_None, Some H_nullptr)"
  by (simp_all add: shut_def isHost_def)

lemma closes_refl [simp]: "closes c c"
  by (simp add: closes_def)

lemma closes_trans: "closes c c' \<Longrightarrow> closes c' c'' \<Longrightarrow> closes c c''"
  by (auto simp: closes_def)

locale connection_client =
  fixes env :: "'s conn_env"
  assumes get_put: "get_conn env (put_conn env c s) = c"
    and transmit_frame: "get_conn env (fst (channel_transmit env f s)) = get_conn env s"
    and start_frame: "get_conn env (fst (channel_start env s)) = get_conn env s"
    and import_frame: "get_conn env (fst (channel_import env m s)) = get_conn env s"
    and continue_frame: "get_conn env (fst (channel_continue env s)) = get_conn env s"
    and requires_frame: "authManager env = Some am \<Longrightarrow> get_conn env (fst (requiresAuthentication am s)) = get_conn env s"
    and verify_frame: "authManager env = Some am \<Longrightarrow> get_conn env (fst (verifyAuthentication am g n cn d s)) = get_conn env s"
    and nonce_frame: "get_conn env (fst (newNonce env s)) = get_conn env s"
    and receive_closes: "closes (get_conn env s) (get_conn env (fst (receiveHandler env h x s)))"
    and transition_closes: "closes (get_conn env s) (get_conn env (fst (transitionHandler env e s)))"
begin

lemma get_modify [simp]: "get_conn env (modify_conn env f s) = f (get_conn env s)"
  by (simp add: modify_conn_def get_put)

lemma get_expect [simp]:
  "get_conn env (expectSystemType env t ps h s) = get_conn env s\<lparr>c_expected := (t, ps, Some h)\<rparr>"
  by (simp add: expectSystemType_def)

lemma wp_transmit: "(\<And>s' r. get_conn env s' = get_conn env s \<Longrightarrow> Q s' r) \<Longrightarrow> wp (transmit_message env m s) Q"
  by (simp add: wp_def transmit_message_def transmit_frame)

lemma wp_import: "(\<And>s' r. get_conn env s' = get_conn env s \<Longrightarrow> Q s' r) \<Longrightarrow> wp (channel_import env m s) Q"
  by (simp add: wp_def import_frame)

lemma wp_continue: "(\<And>s' r. get_conn env s' = get_conn env s \<Longrightarrow> Q s' r) \<Longrightarrow> wp (channel_continue env s) Q"
  by (simp add: wp_def continue_frame)

lemma wp_start: "(\<And>s' r. get_conn env s' = get_conn env s \<Longrightarrow> Q s' r) \<Longrightarrow> wp (channel_start env s) Q"
  by (simp add: wp_def start_frame)

lemma wp_receive: "(\<And>s' r. closes (get_conn env s) (get_conn env s') \<Longrightarrow> Q s' r) \<Longrightarrow> wp (receiveHandler env h x s) Q"
  by (simp add: wp_def receive_closes)

text \<open>A transition leaves the new state, unless the handler has closed the connection.\<close>

lemma wp_setConnectionState:
  assumes "\<And>s' r. closes (get_conn env s\<lparr>c_state := st\<rparr>) (get_conn env s') \<Longrightarrow> Q s' r"
  shows "wp (setConnectionState env st e s) Q"
proof -
  have 1: "get_conn env (modify_conn env (c_state_update (\<lambda>_. st)) s) = get_conn env s\<lparr>c_state := st\<rparr>" by simp
  show ?thesis
    using transition_closes [of "modify_conn env (c_state_update (\<lambda>_. st)) s" e] assms
    by (cases "transitionHandler env e (modify_conn env (c_state_update (\<lambda>_. st)) s)")
      (auto simp: setConnectionState_def Let_def 1 catchA_def closes_def split: sum.split)
qed

lemma wp_handleClose:
  assumes "\<And>s' r. get_conn env s' = shut (get_conn env s) \<Longrightarrow> Q s' r"
  shows "wp (handleClose env e s) Q"
  unfolding handleClose_def Let_def
  by (rule wp_setConnectionState, rule assms) (auto simp: closes_def shut_def)

lemma wp_handleError:
  assumes "\<And>s' r. get_conn env s' = shut (get_conn env s) \<or> get_conn env s' = get_conn env s \<and> is_ub r \<Longrightarrow> Q s' r"
  shows "wp (handleError env e s) Q"
  unfolding handleError_def
  by (auto split: sum.split intro!: wp_transmit wp_handleClose assms)

lemma wp_processError:
  assumes "\<And>s' r. get_conn env s' = shut (get_conn env s) \<or> get_conn env s' = get_conn env s \<and> is_ub r \<Longrightarrow> Q s' r"
  shows "wp (processError env e s) Q"
  unfolding processError_def wp_catchA
  by (rule wp_handleError) (auto split: sum.split intro: assms)

lemma wp_handlePeerError:
  assumes "\<And>s' r. get_conn env s' = shut (get_conn env s) \<or> get_conn env s' = get_conn env s \<and> is_ub r \<Longrightarrow> Q s' r"
  shows "wp (handlePeerError env m s) Q"
  unfolding handlePeerError_def Let_def
  by (auto intro!: wp_handleClose wp_handleError assms)


end

section \<open>The automaton\<close>

text \<open>The phases of both sides, each with its state and what it expects next.\<close>

datatype phase = Idle | Await_connect | Host_preload | Await_hello | Await_response | Guest_preload | Open | Shut

fun expectation :: "phase \<Rightarrow> connection_state \<times> system_type \<times> property_set \<times> system_handler option" where
  "expectation Idle = (Suspended, Type_Error, ps_None, None)"
| "expectation Await_connect = (Connecting, Type_Connect, ps_add (FromIndex 1) (FromIndex 2), Some H_handleConnect)"
| "expectation Host_preload = (Early_subscribe, Type_Connect, FromIndex 3, Some H_handlePreloadClientFinished)"
| "expectation Await_hello = (Connecting, Type_Hello, ps_add (FromIndex 1) (FromIndex 2), Some H_handleHello)"
| "expectation Await_response =
     (Connecting, Type_Response, ps_add (FromIndex 5) (ps_add (FromIndex 2) (FromIndex 3)), Some H_handleAuthorizationRequest)"
| "expectation Guest_preload = (Early_subscribe, Type_Response, FromIndex 4, Some H_handlePreloadFinished)"
| "expectation Open = (Connected, Type_Error, FromIndex 1, Some H_handlePeerError)"
| "expectation Shut = (Closed, Type_Error, ps_None, Some H_nullptr)"

definition in_phase :: "phase \<Rightarrow> connection \<Rightarrow> bool" where
  "in_phase p c \<longleftrightarrow> c_hasTransition c = (p \<noteq> Idle) \<and>
     (if p = Shut then c_state c = Closed
      else (c_state c, c_expected c) = expectation p \<and> c_hasReceive c = (p \<noteq> Idle))"

definition exchanging :: "phase \<Rightarrow> bool" where
  "exchanging p \<longleftrightarrow> p = Host_preload \<or> p = Guest_preload \<or> p = Open"

inductive protocol :: "phase \<Rightarrow> message \<Rightarrow> phase \<Rightarrow> bool" where
  hello: "hello_serverName m \<noteq> None \<Longrightarrow> hello_authChallenge m \<noteq> None \<Longrightarrow> protocol Await_hello (Hello m) Await_response"
| response_preload: "response_clientId m \<noteq> None \<Longrightarrow> response_accepted m \<noteq> None \<Longrightarrow> response_preload m = Some True \<Longrightarrow>
    protocol Await_response (Response m) Guest_preload"
| response: "response_clientId m \<noteq> None \<Longrightarrow> response_accepted m \<noteq> None \<Longrightarrow> response_preload m = Some False \<Longrightarrow>
    protocol Await_response (Response m) Open"
| preload_finished: "response_preloadFinished m \<noteq> None \<Longrightarrow> protocol Guest_preload (Response m) Open"
| connect_preload: "connect_clientName m \<noteq> None \<Longrightarrow> connect_preloadCache m = Some True \<Longrightarrow>
    protocol Await_connect (Connect m) Host_preload"
| connect: "connect_clientName m \<noteq> None \<Longrightarrow> connect_preloadCache m = Some False \<Longrightarrow>
    protocol Await_connect (Connect m) Open"
| client_finished: "connect_preloadClientFinished m = Some True \<Longrightarrow> protocol Host_preload (Connect m) Open"
| data: "exchanging p \<Longrightarrow> protocol p (Data h x) p"
| shut: "protocol p m Shut"

inductive_simps protocol_Hello: "protocol p (Hello m) p'"
inductive_simps protocol_Connect: "protocol p (Connect m) p'"
inductive_simps protocol_Response: "protocol p (Response m) p'"
inductive_simps protocol_Data: "protocol p (Data h x) p'"
inductive_simps protocol_from_Shut: "protocol Shut m p'"
inductive_simps protocol_admits: "protocol Await_connect m p'"
inductive_cases protocol_finished: "protocol Host_preload m Open"

lemma protocol_not_Idle: "protocol p m p' \<Longrightarrow> p \<noteq> Idle \<Longrightarrow> p' \<noteq> Idle"
  by (induction rule: protocol.induct) auto

lemma in_phase_hasTransition: "in_phase p c \<Longrightarrow> p \<noteq> Idle \<Longrightarrow> c_hasTransition c"
  by (simp add: in_phase_def)

lemma valid_members:
  "ps_le (ps_add (FromIndex 1) (FromIndex 2)) (hello_valid x) \<Longrightarrow> hello_serverName x \<noteq> None \<and> hello_authChallenge x \<noteq> None"
  "ps_le (ps_add (FromIndex 1) (FromIndex 2)) (connect_valid y) \<Longrightarrow> connect_clientName y \<noteq> None \<and> connect_preloadCache y \<noteq> None"
  "ps_le (FromIndex 3) (connect_valid y) \<Longrightarrow> connect_preloadClientFinished y \<noteq> None"
  "ps_le (ps_add (FromIndex 5) (ps_add (FromIndex 2) (FromIndex 3))) (response_valid z) \<Longrightarrow>
     response_clientId z \<noteq> None \<and> response_accepted z \<noteq> None \<and> response_preload z \<noteq> None"
  "ps_le (FromIndex 4) (response_valid z) \<Longrightarrow> response_preloadFinished z \<noteq> None"
  by (auto simp: hello_valid_def connect_valid_def response_valid_def)

context connection_client
begin

text \<open>What a handler may leave: progress along the automaton, or an exception.\<close>

definition steps :: "phase \<Rightarrow> message \<Rightarrow> 's \<Rightarrow> 'b result \<Rightarrow> bool" where
  "steps p m s' r \<longleftrightarrow> (case r of Inl e \<Rightarrow> c_hasTransition (get_conn env s')
     | Inr x \<Rightarrow> \<exists>p'. in_phase p' (get_conn env s') \<and> protocol p m p')"

lemma steps_simps [simp]:
  "steps p m s' (Inl e) = c_hasTransition (get_conn env s')"
  "steps p m s' (Inr x) = (\<exists>p'. in_phase p' (get_conn env s') \<and> protocol p m p')"
  by (simp_all add: steps_def)

lemma nonce_eq: "newNonce env s = (s', n) \<Longrightarrow> get_conn env s' = get_conn env s"
  using nonce_frame [of s] by simp

lemma steps_handleHello:
  assumes "in_phase Await_hello (get_conn env s)" "hello_serverName m \<noteq> None" "hello_authChallenge m \<noteq> None"
  shows "wp (handleHello env m s) (steps Await_hello (Hello m))"
proof -
  have c: "c_hasTransition (get_conn env s)" "c_hasReceive (get_conn env s)" "c_state (get_conn env s) = Connecting"
    using assms(1) by (simp_all add: in_phase_def)
  obtain a b where ab: "hello_serverName m = Some a" "hello_authChallenge m = Some b" using assms(2,3) by auto
  show ?thesis
    unfolding handleHello_def Let_def wp_thenA wp_if
    by (auto simp: ab deref_def c split: sum.split option.split prod.split intro!: wp_transmit exI [of _ Await_response] hello)
       (auto simp: in_phase_def c dest!: nonce_eq)
qed

lemma steps_progress:
  assumes "in_phase p' (c\<lparr>c_state := fst (expectation p'), c_expected := snd (expectation p')\<rparr>)" "protocol p m p'"
    and "p' \<noteq> Idle" "closes (c\<lparr>c_state := fst (expectation p')\<rparr>) c'"
  shows "\<exists>q. in_phase q (c'\<lparr>c_expected := snd (expectation p')\<rparr>) \<and> protocol p m q"
proof (cases "c' = shut (c\<lparr>c_state := fst (expectation p')\<rparr>)")
  case True
  then have "in_phase Shut (c'\<lparr>c_expected := snd (expectation p')\<rparr>)" using assms by (simp add: in_phase_def split: if_splits)
  then show ?thesis using shut by blast
next
  case False
  then show ?thesis using assms by (auto simp: closes_def)
qed

lemma closes_keeps: "closes c c' \<Longrightarrow> c_hasTransition c' = c_hasTransition c"
  by (auto simp: closes_def)

lemma steps_connected:
  assumes "c_hasTransition (get_conn env s)" "c_hasReceive (get_conn env s)" "protocol p m Open"
  shows "wp (thenA (setConnectionState env Connected None s) (\<lambda>_. expectError env)) (steps p m)"
proof -
  have "in_phase Open (get_conn env s\<lparr>c_state := Connected, c_expected := snd (expectation Open)\<rparr>)"
    using assms by (simp add: in_phase_def)
  from steps_progress [of Open "get_conn env s", simplified, OF this [simplified] assms(3)] show ?thesis
    by (auto simp: expectError_def assms closes_keeps split: sum.split intro!: wp_setConnectionState)
qed

lemma steps_handleAuthorizationRequest:
  assumes "in_phase Await_response (get_conn env s)" "response_clientId m \<noteq> None" "response_accepted m \<noteq> None"
    "response_preload m \<noteq> None"
  shows "wp (handleAuthorizationRequest env m s) (steps Await_response (Response m))"
proof -
  obtain k where k: "response_clientId m = Some k" using assms(2) by auto
  let ?s = "modify_conn env (c_selfId_update (\<lambda>_. k)) s"
  have c: "c_hasTransition (get_conn env s)" "c_hasReceive (get_conn env s)"
    using assms(1) by (simp_all add: in_phase_def)
  show ?thesis
  proof (cases "response_preload m = Some True")
    case True
    have "in_phase Guest_preload (get_conn env ?s\<lparr>c_state := Early_subscribe, c_expected := snd (expectation Guest_preload)\<rparr>)"
      using c by (simp add: in_phase_def)
    from steps_progress [of Guest_preload "get_conn env ?s", simplified, OF this [simplified] response_preload [OF assms(2,3) True]]
    show ?thesis unfolding handleAuthorizationRequest_def
      by (auto simp: k deref_def True c closes_keeps split: sum.split intro!: wp_setConnectionState wp_transmit)
  next
    case False
    then have "protocol Await_response (Response m) Open" using response [OF assms(2,3)] assms(4) by auto
    then show ?thesis
      using steps_connected [of ?s] c False by (simp add: handleAuthorizationRequest_def k deref_def del: wp_thenA)
  qed
qed

lemma steps_handlePreloadFinished:
  assumes "in_phase Guest_preload (get_conn env s)" "response_preloadFinished m \<noteq> None"
  shows "wp (handlePreloadFinished env s) (steps Guest_preload (Response m))"
  unfolding handlePreloadFinished_def
  by (rule steps_connected) (use assms in \<open>auto simp: in_phase_def intro: preload_finished\<close>)

lemma wp_verifyConnect:
  "(\<And>s' r. get_conn env s' = get_conn env s \<Longrightarrow> Q s' r) \<Longrightarrow> wp (verifyConnect env g m s) Q"
  by (auto simp: verifyConnect_def wp_def verify_frame thenA_def split: option.split sum.split)

lemma steps_handleConnect:
  assumes "in_phase Await_connect (get_conn env s)" "connect_clientName m \<noteq> None" "connect_preloadCache m \<noteq> None"
  shows "wp (handleConnect env m s) (steps Await_connect (Connect m))"
proof -
  obtain g where g: "connect_clientName m = Some g" using assms(2) by auto
  have c: "c_hasTransition (get_conn env s)" "c_hasReceive (get_conn env s)"
    using assms(1) by (simp_all add: in_phase_def)
  have open_: "connect_preloadCache m \<noteq> Some True \<Longrightarrow> protocol Await_connect (Connect m) Open"
    using connect [OF assms(2)] assms(3) by auto
  have pre: "wp (thenA (setConnectionState env Early_subscribe None s1) (\<lambda>_ s.
      (expectSystemType env Type_Connect (FromIndex 3) H_handlePreloadClientFinished s, Inr ()))) (steps Await_connect (Connect m))"
    if "connect_preloadCache m = Some True" "c_hasTransition (get_conn env s1)" "c_hasReceive (get_conn env s1)" for s1
  proof -
    have "in_phase Host_preload (get_conn env s1\<lparr>c_state := Early_subscribe, c_expected := snd (expectation Host_preload)\<rparr>)"
      using that by (simp add: in_phase_def)
    from steps_progress [of Host_preload "get_conn env s1", simplified, OF this [simplified] connect_preload [OF assms(2) that(1)]]
    show ?thesis by (auto simp: that closes_keeps split: sum.split intro!: wp_setConnectionState)
  qed
  have rest: "wp (let preload = (connect_preloadCache m = Some True) in
      if \<not> accepted then
        thenA (transmit_message env (connect_response (c_peerId (get_conn env s)) False preload) s) (\<lambda>_ s.
          (s, Inl (RuntimeError ''invalid authorization information'')))
      else
        let s1 = modify_conn env (c_peerName_update (\<lambda>_. g)) s in
        thenA (transmit_message env (connect_response (c_peerId (get_conn env s1)) True preload) s1) (\<lambda>_ s.
          if preload then
            thenA (setConnectionState env Early_subscribe None s) (\<lambda>_ s.
              (expectSystemType env Type_Connect (FromIndex 3) H_handlePreloadClientFinished s, Inr ()))
          else thenA (setConnectionState env Connected None s) (\<lambda>_. expectError env))) (steps Await_connect (Connect m))"
    if "get_conn env s = get_conn env s0" "c_hasTransition (get_conn env s0)" "c_hasReceive (get_conn env s0)" for s s0 accepted
    unfolding Let_def wp_if
    apply (cases accepted)
    subgoal
      apply (subst wp_thenA)
      apply simp
      apply (rule wp_transmit)
      using steps_connected [OF _ _ open_] pre that
      apply (auto simp del: wp_thenA split: sum.split)
      done
    apply (auto simp: that intro!: wp_transmit split: sum.split)
    done
  show ?thesis
    unfolding handleConnect_def g deref_def option.case thenA_simps
    by (subst wp_thenA, rule wp_verifyConnect) (auto simp: c intro: rest split: sum.split simp del: wp_thenA)
qed

lemma steps_handlePreloadClientFinished:
  assumes "in_phase Host_preload (get_conn env s)" "connect_preloadClientFinished m \<noteq> None"
  shows "wp (handlePreloadClientFinished env m s) (steps Host_preload (Connect m))"
proof (cases "connect_preloadClientFinished m = Some False")
  case True
  then show ?thesis using assms(1) by (simp add: handlePreloadClientFinished_def in_phase_def)
next
  case False
  then have p: "protocol Host_preload (Connect m) Open" using client_finished assms(2) by auto
  have c: "c_hasTransition (get_conn env s)" "c_hasReceive (get_conn env s)"
    using assms(1) by (simp_all add: in_phase_def)
  have "in_phase Open (get_conn env s\<lparr>c_state := Connected, c_expected := snd (expectation Open)\<rparr>)"
    using c by (simp add: in_phase_def)
  from steps_progress [of Open "get_conn env s", simplified, OF this [simplified] p] show ?thesis
    unfolding handlePreloadClientFinished_def expectError_def
    by (auto simp: False c closes_keeps split: sum.split intro!: wp_setConnectionState wp_transmit)
qed

lemma steps_handleSystem:
  assumes "in_phase p (get_conn env s)" "p \<noteq> Idle" "p \<noteq> Shut"
    and "system_valid m = Some (t, name, valid)" "\<And>x. m \<noteq> Error x"
  shows "wp (handleSystem env m s) (steps p m)"
proof -
  have c: "c_hasTransition (get_conn env s)" using assms(1,2) by (simp add: in_phase_def)
  have e: "c_expected (get_conn env s) = snd (expectation p)"
    using assms(1,3) by (auto simp: in_phase_def simp flip: prod.collapse dest: arg_cong [of _ _ snd])
  have conclude: "wp (call_handler env h m s) (steps p m) \<Longrightarrow>
    wp (thenA (call_handler env h m s) (\<lambda>_ s. (s, Inr True))) (steps p m)" for h
    by (auto elim!: wp_mono split: sum.split simp: steps_def split: sum.split_asm)
  have "wp (call_handler env (snd (snd (snd (expectation p)))) m s) (steps p m)"
    if "t = fst (snd (expectation p))" "ps_le (fst (snd (snd (expectation p)))) valid"
    using that assms c valid_members
    by (cases p; cases m)
      (auto simp: call_handler_def simp del: ps_le_iff
        intro!: steps_handleHello steps_handleAuthorizationRequest steps_handlePreloadFinished steps_handleConnect
          steps_handlePreloadClientFinished)
  then show ?thesis
    using conclude
    by (auto simp: handleSystem_def assms(4) e c assert_valid_def assertE_def simp del: wp_thenA split: prod.split)
qed

lemma steps_handleData:
  assumes "in_phase p (get_conn env s)" "p \<noteq> Idle" "p \<noteq> Shut"
  shows "wp (handleData env h x s) (steps p (Data h x))"
proof -
  have c: "c_hasTransition (get_conn env s)" "c_hasReceive (get_conn env s)"
    "c_state (get_conn env s) = fst (expectation p)"
    using assms by (auto simp: in_phase_def dest: arg_cong [of _ _ fst])
  have after: "steps p (Data h x) s' r" if "exchanging p" "closes (get_conn env s) (get_conn env s')" for s' and r :: "bool result"
  proof -
    have "in_phase p (get_conn env s') \<or> in_phase Shut (get_conn env s')"
      using that(2) assms c by (auto simp: closes_def in_phase_def)
    then show ?thesis
      using data [OF that(1)] shut closes_keeps [OF that(2)] c(1) by (cases r) (auto simp: steps_def)
  qed
  have "exchanging p" if "fst (expectation p) = Connected \<or> fst (expectation p) = Early_subscribe"
    using that by (cases p) (simp_all add: exchanging_def)
  then show ?thesis
    unfolding handleData_def Let_def
    by (auto simp: c intro!: wp_receive after split: sum.split)
qed

lemma steps_handleReceive:
  assumes "in_phase p (get_conn env s)" "p \<noteq> Idle"
  shows "wp (handleReceive env m s) (\<lambda>s' r. \<not> is_ub r \<longrightarrow> steps p m s' r)"
proof (cases "p = Shut")
  case True
  then show ?thesis using assms protocol.shut by (auto simp: handleReceive_def closed_def in_phase_def)
next
  case False
  then have st: "\<not> closed (get_conn env s)" "c_hasTransition (get_conn env s)"
    using assms by (cases p; simp add: in_phase_def closed_def)+
  have weaken: "wp n (steps p m) \<Longrightarrow> wp n (\<lambda>s' r. \<not> is_ub r \<longrightarrow> steps p m s' r)" for n :: "'s \<times> bool result"
    by (erule wp_mono) simp
  show ?thesis
  proof (cases m)
    case (Error x)
    have "steps p m s' (Inr False)" if "get_conn env s' = shut (get_conn env s)" for s'
      using that st protocol.shut by (auto simp: in_phase_def intro!: exI [of _ Shut])
    then show ?thesis
      using st by (auto simp: handleReceive_def Error intro!: wp_handlePeerError split: sum.split)
  next
    case (Data h x)
    then show ?thesis using weaken [OF steps_handleData [OF assms False, of h x, folded Data]] st by (simp add: handleReceive_def)
  qed (use st weaken steps_handleSystem [OF assms False] in \<open>simp_all add: handleReceive_def\<close>)
qed

lemma processReceive_protocol:
  assumes "in_phase p (get_conn env s)" "p \<noteq> Idle"
  shows "wp (processReceive env m s) (\<lambda>s' r. \<not> is_ub r \<longrightarrow> (\<exists>p'. in_phase p' (get_conn env s') \<and> protocol p m p'))"
proof -
  have c: "c_hasTransition (get_conn env s)" using assms by (simp add: in_phase_def)
  have err: "wp (processError env e s') (\<lambda>s' r. \<not> is_ub r \<longrightarrow> (\<exists>p'. in_phase p' (get_conn env s') \<and> protocol p m p'))"
    if "c_hasTransition (get_conn env s')" for e s'
    using that protocol.shut by (intro wp_processError) (auto simp: in_phase_def intro!: exI [of _ Shut])
  have rcv: "wp (handleReceive env m s') (\<lambda>s' r. \<not> is_ub r \<longrightarrow> steps p m s' r)"
    if "get_conn env s' = get_conn env s" for s'
    using steps_handleReceive [of p s' m] assms that by simp
  have kept: "in_phase p' c' \<Longrightarrow> protocol p m p' \<Longrightarrow> c_hasTransition c'" for p' c'
    using protocol_not_Idle [OF _ assms(2)] in_phase_hasTransition by blast
  have inner: "wp (catchA (thenA (channel_import env m s) (\<lambda>_ s. thenA (handleReceive env m s)
      (\<lambda>more. if more then channel_continue env else (\<lambda>s. (s, Inr ()))))) (processError env))
      (\<lambda>s' r. \<not> is_ub r \<longrightarrow> (\<exists>p'. in_phase p' (get_conn env s') \<and> protocol p m p'))"
    unfolding wp_catchA wp_thenA
    apply (rule wp_import)
    using kept apply (auto simp: c err split: sum.split sum.split_asm intro!: wp_mono [OF rcv] wp_continue err)
    done
  show ?thesis unfolding processReceive_def by (subst wp_catchA, rule wp_mono [OF inner]) (auto split: sum.split)
qed

lemma conn_asyncReceive_phase:
  assumes "in_phase Idle (get_conn env s)"
  shows "wp (conn_asyncReceive env name s) (\<lambda>s' r. r = Inr () \<longrightarrow>
    in_phase Shut (get_conn env s') \<or> in_phase (if isHost (get_conn env s) then Await_connect else Await_hello) (get_conn env s'))"
proof -
  have c: "c_state (get_conn env s) = Suspended" using assms by (simp add: in_phase_def)
  have auth: "wp (case authManager env of None \<Rightarrow> (s, Inr None) | Some am \<Rightarrow> requiresAuthentication am s) Q"
    if "\<And>s' r. get_conn env s' = get_conn env s \<Longrightarrow> Q s' r" for s Q
    using that by (auto simp: wp_def requires_frame split: option.split)
  show ?thesis
    unfolding conn_asyncReceive_def Let_def wp_if wp_thenA
    by (auto simp: c closes_def isHost_def in_phase_def split: sum.split
        intro!: wp_setConnectionState wp_start auth wp_transmit)
qed

lemma handleConnect_rejects:
  assumes "snd (verifyConnect env g m s) \<noteq> Inr True"
    and "connect_clientName m = Some g"
  shows "wp (handleConnect env m s) (\<lambda>s' r. get_conn env s' = get_conn env s \<and> (\<exists>e. r = Inl e))"
proof -
  have "wp (verifyConnect env g m s) (\<lambda>s' r. get_conn env s' = get_conn env s \<and> r \<noteq> Inr True)"
    using assms(1) wp_verifyConnect [of s "\<lambda>s' r. get_conn env s' = get_conn env s" g m]
    by (simp add: wp_def)
  then show ?thesis
    unfolding handleConnect_def
    by (auto simp: deref_def assms(2) Let_def intro!: wp_transmit split: sum.split elim!: wp_mono)
qed

text \<open>
  \<open>processReceive\<close> asks the manager in the state in which the channel has imported the message. Without a
  message whose credentials it accepts there, the connection is closed.
\<close>

lemma processReceive_admits:
  assumes "in_phase Await_connect (get_conn env s)"
    and "\<And>x g s1. m = Connect x \<Longrightarrow> connect_clientName x = Some g \<Longrightarrow> channel_import env m s = (s1, Inr ()) \<Longrightarrow>
      snd (verifyConnect env g x s1) \<noteq> Inr True"
  shows "wp (processReceive env m s) (\<lambda>s' r. \<not> is_ub r \<longrightarrow> in_phase Shut (get_conn env s'))"
proof -
  have c: "c_hasTransition (get_conn env s)" "\<not> closed (get_conn env s)"
    "c_state (get_conn env s) = Connecting" "c_expected (get_conn env s) = snd (expectation Await_connect)"
    using assms(1) by (simp_all add: in_phase_def closed_def)
  have err: "wp (processError env e s') (\<lambda>s' r. \<not> is_ub r \<longrightarrow> in_phase Shut (get_conn env s'))"
    if "c_hasTransition (get_conn env s')" for e s'
    using that by (intro wp_processError) (auto simp: in_phase_def)
  have rcv: "wp (handleReceive env m s') (\<lambda>s' r. \<not> is_ub r \<longrightarrow>
      (case r of Inl e \<Rightarrow> c_hasTransition (get_conn env s') | Inr go \<Rightarrow> \<not> go \<and> in_phase Shut (get_conn env s')))"
    if s': "get_conn env s' = get_conn env s" and imported: "channel_import env m s = (s', Inr ())" for s'
  proof (cases m)
    case (Error x)
    then show ?thesis
      using c s' by (auto simp: handleReceive_def in_phase_def intro!: wp_handlePeerError split: sum.split)
  next
    case (Connect x)
    have "wp (call_handler env (Some H_handleConnect) m s') (\<lambda>s' r. get_conn env s' = get_conn env s \<and> (\<exists>e. r = Inl e))"
      if named: "connect_clientName x \<noteq> None"
    proof -
      obtain g where g: "connect_clientName x = Some g" using named by auto
      from handleConnect_rejects [OF assms(2) [OF Connect g imported] g] show ?thesis
        by (simp add: call_handler_def Connect s')
    qed
    then show ?thesis
      using c s' valid_members(2) [of x]
      by (auto simp: handleReceive_def Connect handleSystem_def assert_valid_def assertE_def simp del: ps_le_iff
          elim!: wp_mono split: sum.split)
  qed (use c s' in \<open>auto simp: handleReceive_def handleSystem_def handleData_def\<close>)
  obtain s' r where i: "channel_import env m s = (s', r)" by (cases "channel_import env m s")
  have s': "get_conn env s' = get_conn env s" using import_frame [of m s] by (simp add: i)
  have "wp (handleReceive env m s') (\<lambda>s' r. \<not> is_ub r \<longrightarrow>
      (case r of Inl e \<Rightarrow> c_hasTransition (get_conn env s') | Inr go \<Rightarrow> \<not> go \<and> in_phase Shut (get_conn env s')))"
    if "r = Inr ()" using rcv [OF s'] i that by simp
  then show ?thesis
    unfolding processReceive_def wp_catchA wp_thenA i wp_pair
    by (cases r) (auto simp: c s' err split: sum.split sum.split_asm elim!: wp_mono intro!: wp_mono [OF err])
qed

lemma stamp_claims:
  "isHost c \<Longrightarrow> stamp now c (h\<lparr>hd_sender := a, hd_serverSentTime := b, hd_isFromMyself := f\<rparr>) = stamp now c h"
  by (simp add: stamp_def Let_def)

lemma processReceive_claims:
  assumes "isHost (get_conn env s)" and "channel_import env (Data h' x) s = channel_import env (Data h x) s"
    and "h' = h\<lparr>hd_sender := a, hd_serverSentTime := b, hd_isFromMyself := f\<rparr>"
  shows "processReceive env (Data h' x) s = processReceive env (Data h x) s"
proof -
  obtain s1 r where i: "channel_import env (Data h x) s = (s1, r)" by (cases "channel_import env (Data h x) s")
  then have "isHost (get_conn env s1)" using import_frame [of "Data h x" s] assms(1) by simp
  then have "handleReceive env (Data h' x) s1 = handleReceive env (Data h x) s1"
    by (simp add: handleReceive_def handleData_def assms(3) stamp_claims Let_def cong: if_cong)
  then show ?thesis
    by (cases r) (simp_all add: processReceive_def assms(2) i)
qed

end

end
