(* ===== verification/Handshake.thy ===== *)
theory Handshake
  imports Connection_Facts
begin

text \<open>
  A host and a guest connection whose handlers only record what they are called with, and the
  messages of each delivered to the other in order.
\<close>

section \<open>Connections with recording handlers\<close>

record plain =
  p_conn :: connection
  p_sent :: "frame list"
  p_received :: "(dots_header \<times> content) list"
  p_reported :: "(connection_state \<times> exn option) list"

type_synonym plain_policy = "(nonce option \<times> (string \<Rightarrow> nonce \<Rightarrow> string \<Rightarrow> 8 word list \<Rightarrow> bool)) option"

definition plain_env :: "plain_policy \<Rightarrow> crypto_lib \<Rightarrow> 64 word \<Rightarrow> nonce \<Rightarrow> plain conn_env" where
  "plain_env policy lib now cn =
     \<lparr>get_conn = p_conn, put_conn = (\<lambda>c s. s\<lparr>p_conn := c\<rparr>),
      channel_transmit = (\<lambda>f s. (s\<lparr>p_sent := p_sent s @ [f]\<rparr>, Inr ())),
      channel_start = (\<lambda>s. (s, Inr ())), channel_import = (\<lambda>m s. (s, Inr ())), channel_continue = (\<lambda>s. (s, Inr ())),
      receiveHandler = (\<lambda>h x s. (s\<lparr>p_received := p_received s @ [(h, x)]\<rparr>, Inr True)),
      transitionHandler = (\<lambda>e s. (s\<lparr>p_reported := p_reported s @ [(c_state (p_conn s), e)]\<rparr>, Inr ())),
      authManager = map_option (\<lambda>(n, accepts). \<lparr>requiresAuthentication = (\<lambda>s. (s, Inr n)),
        verifyAuthentication = (\<lambda>g n' cn' d s. (s, Inr (accepts g n' cn' d)))\<rparr>) policy,
      newNonce = (\<lambda>s. (s, cn)), crypto = lib, time_now = now\<rparr>"

lemma plain_env_simps [simp]:
  "get_conn (plain_env policy lib now cn) = p_conn"
  "put_conn (plain_env policy lib now cn) c s = s\<lparr>p_conn := c\<rparr>"
  "channel_transmit (plain_env policy lib now cn) f s = (s\<lparr>p_sent := p_sent s @ [f]\<rparr>, Inr ())"
  "channel_start (plain_env policy lib now cn) s = (s, Inr ())"
  "channel_import (plain_env policy lib now cn) m s = (s, Inr ())"
  "channel_continue (plain_env policy lib now cn) s = (s, Inr ())"
  "receiveHandler (plain_env policy lib now cn) h x s = (s\<lparr>p_received := p_received s @ [(h, x)]\<rparr>, Inr True)"
  "transitionHandler (plain_env policy lib now cn) e s = (s\<lparr>p_reported := p_reported s @ [(c_state (p_conn s), e)]\<rparr>, Inr ())"
  "authManager (plain_env policy lib now cn) = map_option (\<lambda>(n, accepts). \<lparr>requiresAuthentication = (\<lambda>s. (s, Inr n)),
        verifyAuthentication = (\<lambda>g n' cn' d s. (s, Inr (accepts g n' cn' d)))\<rparr>) policy"
  "newNonce (plain_env policy lib now cn) s = (s, cn)" "crypto (plain_env policy lib now cn) = lib"
  "time_now (plain_env policy lib now cn) = now"
  by (simp_all add: plain_env_def)

interpretation plain: connection_client "plain_env policy lib now cn"
  by unfold_locales (auto simp: closes_def)

definition plain_start :: "plain_policy \<Rightarrow> crypto_lib \<Rightarrow> bool \<Rightarrow> string option \<Rightarrow> string \<Rightarrow> plain" where
  "plain_start policy lib host secret name =
     fst (conn_asyncReceive (plain_env policy lib 0 0) name
       \<lparr>p_conn = fst (connection_new host secret FirstGuestId), p_sent = [], p_received = [], p_reported = []\<rparr>)"

fun messages :: "frame list \<Rightarrow> message list" where
  "messages [] = []"
| "messages (Message m # fs) = m # messages fs"
| "messages (Descriptor d # fs) = messages fs"

definition deliver :: "plain conn_env \<Rightarrow> frame list \<Rightarrow> plain \<Rightarrow> plain" where
  "deliver env fs s = fold (\<lambda>m s. fst (processReceive env m s)) (messages fs) s"

text \<open>In each round the guest receives what the host has sent, and then the host what the guest has answered.\<close>

fun exchange :: "nat \<Rightarrow> plain conn_env \<Rightarrow> plain conn_env \<Rightarrow> plain \<times> plain \<Rightarrow> plain \<times> plain" where
  "exchange 0 host guest (h, g) = (h, g)"
| "exchange (Suc n) host guest (h, g) =
     (let g1 = deliver guest (p_sent h) g;
          h1 = deliver host (p_sent g1) (h\<lparr>p_sent := []\<rparr>)
      in exchange n host guest (h1, g1\<lparr>p_sent := []\<rparr>))"

section \<open>Evaluation\<close>

lemma members_simps [simp]:
  "ps_le (ps_add (FromIndex (Suc 0)) (FromIndex 2)) (hello_valid m) \<longleftrightarrow> hello_serverName m \<noteq> None \<and> hello_authChallenge m \<noteq> None"
  "ps_le (ps_add (FromIndex (Suc 0)) (FromIndex 2)) (connect_valid x) \<longleftrightarrow> connect_clientName x \<noteq> None \<and> connect_preloadCache x \<noteq> None"
  "ps_le (FromIndex 3) (connect_valid x) \<longleftrightarrow> connect_preloadClientFinished x \<noteq> None"
  "ps_le (ps_add (FromIndex 5) (ps_add (FromIndex 2) (FromIndex 3))) (response_valid z) \<longleftrightarrow>
     response_clientId z \<noteq> None \<and> response_accepted z \<noteq> None \<and> response_preload z \<noteq> None"
  "ps_le (FromIndex 4) (response_valid z) \<longleftrightarrow> response_preloadFinished z \<noteq> None"
  by (auto simp: hello_valid_def connect_valid_def response_valid_def)

lemmas protocol_defs =
  processReceive_def handleReceive_def handleSystem_def assert_valid_def assertE_def call_handler_def closed_def
  handleHello_def handleConnect_def handleAuthorizationRequest_def handlePreloadFinished_def
  handlePreloadClientFinished_def verifyConnect_def setConnectionState_def expectSystemType_def expectError_def
  modify_conn_def transmit_message_def catchA_def deref_def connect_response_def

text \<open>Guests without authentication, and guests that know the secret.\<close>

definition policy_of :: "crypto_lib \<Rightarrow> (nonce \<times> string) option \<Rightarrow> plain_policy" where
  "policy_of lib auth = map_option (\<lambda>(n, secret). (Some n, \<lambda>g n cn d. d = digest_new lib n cn g secret)) auth"

lemma plain_hello:
  assumes "c_state (p_conn s) = Connecting" "c_expected (p_conn s) = snd (expectation Await_hello)"
    and "hello_serverName m = Some server" "hello_authChallenge m = Some n"
    and "hello_authenticationRequired m = (if authenticate then Some True else None)"
    and "authenticate \<Longrightarrow> c_authSecret (p_conn s) = Some secret"
  shows "processReceive (plain_env policy lib now cn) (Hello m) s =
    (s\<lparr>p_conn := p_conn s\<lparr>c_peerName := server, c_expected := snd (expectation Await_response)\<rparr>,
       p_sent := p_sent s @ [Message (Connect \<lparr>connect_clientName = Some (c_selfName (p_conn s)),
         connect_preloadCache = Some True, connect_preloadClientFinished = None,
         connect_authChallengeResponse = (if authenticate then Some (digest_toString lib
           (digest_new lib n (nonce_toString cn) (c_selfName (p_conn s)) secret)) else None),
         connect_cnonce = (if authenticate then Some (nonce_toString cn) else None)\<rparr>)]\<rparr>, Inr ())"
  using assms
  by (cases authenticate) (simp_all add: protocol_defs Let_def del: ps_le_iff)

lemma plain_verify:
  "verifyConnect (plain_env policy lib now cn) name m s = (s, snd (verifyConnect (plain_env policy lib now cn) name m s))"
  by (auto simp: verifyConnect_def thenA_def split: option.split sum.split)

lemma plain_connect:
  assumes "c_state (p_conn s) = Connecting" "c_expected (p_conn s) = snd (expectation Await_connect)"
    and "c_hasTransition (p_conn s)" "connect_clientName m = Some name" "connect_preloadCache m = Some True"
    and "snd (verifyConnect (plain_env policy lib now cn) name m s) = Inr True"
  shows "processReceive (plain_env policy lib now cn) (Connect m) s =
    (s\<lparr>p_conn := p_conn s\<lparr>c_peerName := name, c_state := Early_subscribe, c_expected := snd (expectation Host_preload)\<rparr>,
       p_sent := p_sent s @ [Message (connect_response (c_peerId (p_conn s)) True True)],
       p_reported := p_reported s @ [(Early_subscribe, None)]\<rparr>, Inr ())"
proof -
  have "verifyConnect (plain_env policy lib now cn) name m s = (s, Inr True)"
    using assms(6) by (subst plain_verify) simp
  then show ?thesis
    using assms by (simp add: protocol_defs Let_def del: ps_le_iff)
qed

lemma plain_rejected:
  assumes "c_state (p_conn s) = Connecting" "c_expected (p_conn s) = snd (expectation Await_connect)"
    and "c_hasTransition (p_conn s)" "connect_clientName m = Some name" "connect_preloadCache m = Some True"
    and "snd (verifyConnect (plain_env policy lib now cn) name m s) = Inr False"
  shows "processReceive (plain_env policy lib now cn) (Connect m) s =
    (s\<lparr>p_conn := shut (p_conn s),
       p_sent := p_sent s @ [Message (connect_response (c_peerId (p_conn s)) False True)],
       p_reported := p_reported s @ [(Closed, Some (RuntimeError ''invalid authorization information''))]\<rparr>, Inr ())"
proof -
  have "verifyConnect (plain_env policy lib now cn) name m s = (s, Inr False)"
    using assms(6) by (subst plain_verify) simp
  then show ?thesis
    using assms
    by (simp add: protocol_defs Let_def processError_def handleError_def handleClose_def connected_def
        shut_def del: ps_le_iff)
qed

lemma plain_response:
  assumes "c_state (p_conn s) = Connecting" "c_expected (p_conn s) = snd (expectation Await_response)"
    and "c_hasTransition (p_conn s)"
  shows "processReceive (plain_env policy lib now cn) (connect_response k accepted True) s =
    (s\<lparr>p_conn := p_conn s\<lparr>c_selfId := k, c_state := Early_subscribe, c_expected := snd (expectation Guest_preload)\<rparr>,
       p_sent := p_sent s @ [Message (Connect \<lparr>connect_clientName = None, connect_preloadCache = None,
           connect_preloadClientFinished = Some True, connect_authChallengeResponse = None, connect_cnonce = None\<rparr>)],
       p_reported := p_reported s @ [(Early_subscribe, None)]\<rparr>, Inr ())"
  using assms by (simp add: protocol_defs Let_def del: ps_le_iff)

lemma plain_client_finished:
  assumes "c_state (p_conn s) = Early_subscribe" "c_expected (p_conn s) = snd (expectation Host_preload)"
    and "c_hasTransition (p_conn s)" "connect_preloadClientFinished m = Some True"
  shows "processReceive (plain_env policy lib now cn) (Connect m) s =
    (s\<lparr>p_conn := p_conn s\<lparr>c_state := Connected, c_expected := snd (expectation Open)\<rparr>,
       p_sent := p_sent s @ [Message (Response \<lparr>response_serverName = None, response_clientId = None,
               response_accepted = None, response_preload = None, response_preloadFinished = Some True\<rparr>)],
       p_reported := p_reported s @ [(Connected, None)]\<rparr>, Inr ())"
  using assms by (simp add: protocol_defs Let_def del: ps_le_iff)

lemma plain_preload_finished:
  assumes "c_state (p_conn s) = Early_subscribe" "c_expected (p_conn s) = snd (expectation Guest_preload)"
    and "c_hasTransition (p_conn s)" "response_preloadFinished m \<noteq> None"
  shows "processReceive (plain_env policy lib now cn) (Response m) s =
    (s\<lparr>p_conn := p_conn s\<lparr>c_state := Connected, c_expected := snd (expectation Open)\<rparr>,
       p_reported := p_reported s @ [(Connected, None)]\<rparr>, Inr ())"
  using assms by (simp add: protocol_defs Let_def del: ps_le_iff)

lemma plain_closed: "closed (p_conn s) \<Longrightarrow> processReceive (plain_env policy lib now cn) m s = (s, Inr ())"
  by (simp add: processReceive_def handleReceive_def catchA_def)

lemma plain_host_start:
  "plain_start (policy_of lib auth) lib True secret server =
     \<lparr>p_conn = \<lparr>c_expected = snd (expectation Await_connect), c_state = Connecting, c_selfId = HostId,
        c_peerId = FirstGuestId, c_selfName = '''', c_peerName = ''<not_set>'', c_authSecret = secret,
        c_nonce = map_option fst auth, c_hasReceive = True, c_hasTransition = True\<rparr>,
      p_sent = [Message (Hello \<lparr>hello_serverName = Some server,
        hello_authChallenge = Some (case auth of None \<Rightarrow> 0 | Some (n, _) \<Rightarrow> n),
        hello_authenticationRequired = (if auth = None then None else Some True)\<rparr>)],
      p_received = [], p_reported = [(Connecting, None)]\<rparr>"
  by (cases auth) (auto simp: plain_start_def conn_asyncReceive_def policy_of_def protocol_defs connection_new_def isHost_def
        Let_def)

lemma plain_guest_start:
  "plain_start policy lib False secret name =
     \<lparr>p_conn = \<lparr>c_expected = snd (expectation Await_hello), c_state = Connecting, c_selfId = UninitializedId,
        c_peerId = HostId, c_selfName = name, c_peerName = ''<not_set>'', c_authSecret = secret,
        c_nonce = None, c_hasReceive = True, c_hasTransition = True\<rparr>,
      p_sent = [], p_received = [], p_reported = [(Connecting, None)]\<rparr>"
  by (simp add: plain_start_def conn_asyncReceive_def protocol_defs connection_new_def isHost_def
        HostId_def UninitializedId_def Let_def)

lemma deliver_Nil [simp]: "deliver env [] s = s"
  by (simp add: deliver_def)

lemma deliver_one [simp]: "deliver env [Message m] s = fst (processReceive env m s)"
  by (simp add: deliver_def)

lemma exchange_round:
  "p_sent h = [Message m] \<Longrightarrow> p_sent (fst (processReceive guest m g)) = [Message m'] \<Longrightarrow>
   exchange (Suc n) host guest (h, g) =
     exchange n host guest (fst (processReceive host m' (h\<lparr>p_sent := []\<rparr>)), (fst (processReceive guest m g))\<lparr>p_sent := []\<rparr>)"
  by (simp add: Let_def)

text \<open>The first round up to the answer of the host.\<close>

definition first_connect :: "crypto_lib \<Rightarrow> (nonce \<times> string) option \<Rightarrow> string \<Rightarrow> nonce \<Rightarrow> string \<Rightarrow> msg_connect" where
  "first_connect lib auth secret cn name =
     \<lparr>connect_clientName = Some name, connect_preloadCache = Some True, connect_preloadClientFinished = None,
      connect_authChallengeResponse = map_option (\<lambda>(n, _). digest_toString lib (digest_new lib n (nonce_toString cn) name secret)) auth,
      connect_cnonce = map_option (\<lambda>_. nonce_toString cn) auth\<rparr>"

lemma first_round:
  fixes lib auth secret secret' cn name server
  defines "h \<equiv> plain_start (policy_of lib auth) lib True None server"
    and "g \<equiv> plain_start None lib False secret name"
  assumes "auth = None \<or> secret = Some secret'"
  shows "exchange (Suc n) host (plain_env None lib now' cn) (h, g) =
    exchange n host (plain_env None lib now' cn)
      (fst (processReceive host (Connect (first_connect lib auth secret' cn name)) (h\<lparr>p_sent := []\<rparr>)),
       g\<lparr>p_conn := p_conn g\<lparr>c_peerName := server, c_expected := snd (expectation Await_response)\<rparr>\<rparr>)"
proof -
  let ?m = "\<lparr>hello_serverName = Some server, hello_authChallenge = Some (case auth of None \<Rightarrow> 0 | Some (n, _) \<Rightarrow> n),
        hello_authenticationRequired = (if auth = None then None else Some True)\<rparr>"
  have m: "p_sent h = [Message (Hello ?m)]" by (simp add: h_def plain_host_start)
  have r: "processReceive (plain_env None lib now' cn) (Hello ?m) g =
      (g\<lparr>p_conn := p_conn g\<lparr>c_peerName := server, c_expected := snd (expectation Await_response)\<rparr>,
         p_sent := [Message (Connect (first_connect lib auth secret' cn name))]\<rparr>, Inr ())"
    using assms(3)
    by (cases auth; subst plain_hello [where authenticate = "auth \<noteq> None" and secret = secret'])
      (auto simp: g_def plain_guest_start first_connect_def)
  then have p: "p_sent (fst (processReceive (plain_env None lib now' cn) (Hello ?m) g)) =
      [Message (Connect (first_connect lib auth secret' cn name))]"
    by (simp only:) simp
  show ?thesis by (simp only: exchange_round [OF m p] r) (simp add: g_def plain_guest_start)
qed

lemma first_verify:
  assumes "crypto_ok lib" "auth = None \<or> secret = Some secret'" "c_nonce (p_conn s) = map_option fst auth"
  shows "snd (verifyConnect (plain_env (policy_of lib auth) lib now c0) name (first_connect lib auth secret' cn name) s) =
    Inr (case auth of None \<Rightarrow> True
         | Some (n, sec) \<Rightarrow> digest_new lib n (nonce_toString cn) name secret' = digest_new lib n (nonce_toString cn) name sec)"
  using assms
  by (cases auth)
    (auto simp: verifyConnect_def policy_of_def first_connect_def digest_roundtrip)

definition client_finished_message :: msg_connect where
  "client_finished_message = \<lparr>connect_clientName = None, connect_preloadCache = None, connect_preloadClientFinished = Some True,
      connect_authChallengeResponse = None, connect_cnonce = None\<rparr>"

text \<open>C31: A host and a guest that exchange their messages in order are both connected after three
  rounds, without authentication or with the same secret on both sides; they know the name of
  each other and the guest has the id the host gave it.\<close>

theorem handshake_connects:
  assumes "crypto_ok lib" and "auth = None \<or> map_option snd auth = secret"
  shows "let host = plain_env (policy_of lib auth) lib now 0; guest = plain_env None lib now' cn;
             (h, g) = exchange 3 host guest (plain_start (policy_of lib auth) lib True None server,
                                            plain_start None lib False secret name)
         in in_phase Open (p_conn h) \<and> in_phase Open (p_conn g)
          \<and> c_peerName (p_conn h) = name \<and> c_peerName (p_conn g) = server
          \<and> c_selfId (p_conn g) = c_peerId (p_conn h)
          \<and> List.map fst (p_reported h) = [Connecting, Early_subscribe, Connected]
          \<and> p_reported g = p_reported h"
proof -
  obtain secret' where s: "auth = None \<or> secret = Some secret'" "\<And>n x. auth = Some (n, x) \<Longrightarrow> x = secret'"
    using assms(2) by (cases auth) auto
  let ?host = "plain_env (policy_of lib auth) lib now 0" and ?m = "first_connect lib auth secret' cn name"
  let ?guest = "plain_env None lib now' cn" and ?r = "connect_response FirstGuestId True True"
  define h where "h = plain_start (policy_of lib auth) lib True None server\<lparr>p_sent := []\<rparr>"
  define g where "g = plain_start None lib False secret name\<lparr>p_conn := p_conn (plain_start None lib False secret name)
    \<lparr>c_peerName := server, c_expected := snd (expectation Await_response)\<rparr>\<rparr>"
  have hs: "c_state (p_conn h) = Connecting" "c_expected (p_conn h) = snd (expectation Await_connect)"
    "c_hasTransition (p_conn h)" "c_hasReceive (p_conn h)" "c_peerId (p_conn h) = FirstGuestId" "p_sent h = []"
    "p_reported h = [(Connecting, None)]" "c_nonce (p_conn h) = map_option fst auth"
    by (simp_all add: h_def plain_host_start)
  have gs: "c_state (p_conn g) = Connecting" "c_expected (p_conn g) = snd (expectation Await_response)"
    "c_hasTransition (p_conn g)" "c_hasReceive (p_conn g)" "p_sent g = []" "c_peerName (p_conn g) = server"
    "p_reported g = [(Connecting, None)]"
    by (simp_all add: g_def plain_guest_start)
  have v: "snd (verifyConnect ?host name ?m h) = Inr True"
    using s hs by (subst first_verify [OF assms(1) s(1)]) (auto split: option.split)
  have h2: "processReceive ?host (Connect ?m) h =
      (h\<lparr>p_conn := p_conn h\<lparr>c_peerName := name, c_state := Early_subscribe, c_expected := snd (expectation Host_preload)\<rparr>,
       p_sent := [Message ?r], p_reported := [(Connecting, None), (Early_subscribe, None)]\<rparr>, Inr ())"
    by (subst plain_connect [OF _ _ _ _ _ v]) (simp_all add: hs first_connect_def)
  have g3: "processReceive ?guest ?r g =
      (g\<lparr>p_conn := p_conn g\<lparr>c_selfId := FirstGuestId, c_state := Early_subscribe, c_expected := snd (expectation Guest_preload)\<rparr>,
         p_sent := [Message (Connect client_finished_message)], p_reported := [(Connecting, None), (Early_subscribe, None)]\<rparr>, Inr ())"
    by (subst plain_response) (simp_all add: gs client_finished_message_def)
  let ?h2 = "fst (processReceive ?host (Connect ?m) h)"
  have h3: "processReceive ?host (Connect client_finished_message) (?h2\<lparr>p_sent := []\<rparr>) =
      (?h2\<lparr>p_conn := p_conn ?h2\<lparr>c_state := Connected, c_expected := snd (expectation Open)\<rparr>,
         p_sent := [Message (Response \<lparr>response_serverName = None, response_clientId = None,
               response_accepted = None, response_preload = None, response_preloadFinished = Some True\<rparr>)],
         p_reported := [(Connecting, None), (Early_subscribe, None), (Connected, None)]\<rparr>, Inr ())"
    by (subst plain_client_finished) (simp_all add: h2 hs client_finished_message_def)
  have 2: "exchange (Suc n) ?host ?guest (?h2, g) =
      exchange n ?host ?guest (fst (processReceive ?host (Connect client_finished_message) (?h2\<lparr>p_sent := []\<rparr>)),
        fst (processReceive ?guest ?r g)\<lparr>p_sent := []\<rparr>)" for n
    by (rule exchange_round) (simp_all add: h2 g3)
  show ?thesis
    unfolding numeral_3_eq_3 first_round [OF s(1)] Let_def h_def [symmetric] g_def [symmetric] 2 h3 g3
    by (simp add: plain_preload_finished hs gs h2 in_phase_def)
qed

lemma handshake_connects_witness:
  "let host = plain_env (policy_of simple_crypto (Some (7, ''s''))) simple_crypto 1 0;
       guest = plain_env None simple_crypto 2 9;
       (h, g) = exchange 3 host guest (plain_start (policy_of simple_crypto (Some (7, ''s''))) simple_crypto True None ''server'',
                                       plain_start None simple_crypto False (Some ''s'') ''guest'')
   in in_phase Open (p_conn h) \<and> in_phase Open (p_conn g)"
  using handshake_connects [OF simple_crypto_ok, of "Some (7, ''s'')" "Some ''s''" 1 2 9 "''server''" "''guest''"]
  by (auto simp: Let_def)

text \<open>C32: A guest with the wrong secret is closed by the host, but takes the rejection for an
  acceptance and enters preloading.\<close>

theorem guest_ignores_rejection:
  assumes "crypto_ok lib"
    and "digest_new lib n (nonce_toString cn) name secret' \<noteq> digest_new lib n (nonce_toString cn) name secret"
  shows "let host = plain_env (policy_of lib (Some (n, secret))) lib now 0; guest = plain_env None lib now' cn;
             (h, g) = exchange 3 host guest (plain_start (policy_of lib (Some (n, secret))) lib True None server,
                                            plain_start None lib False (Some secret') name)
         in in_phase Shut (p_conn h) \<and> in_phase Guest_preload (p_conn g)
          \<and> p_reported g = [(Connecting, None), (Early_subscribe, None)]"
proof -
  let ?auth = "Some (n, secret)"
  let ?host = "plain_env (policy_of lib ?auth) lib now 0" and ?m = "first_connect lib ?auth secret' cn name"
  let ?guest = "plain_env None lib now' cn" and ?r = "connect_response FirstGuestId False True"
  have s: "?auth = None \<or> Some secret' = Some secret'" by simp
  define h where "h = plain_start (policy_of lib ?auth) lib True None server\<lparr>p_sent := []\<rparr>"
  define g where "g = plain_start None lib False (Some secret') name\<lparr>p_conn := p_conn (plain_start None lib False (Some secret') name)
    \<lparr>c_peerName := server, c_expected := snd (expectation Await_response)\<rparr>\<rparr>"
  have hs: "c_state (p_conn h) = Connecting" "c_expected (p_conn h) = snd (expectation Await_connect)"
    "c_hasTransition (p_conn h)" "c_hasReceive (p_conn h)" "c_peerId (p_conn h) = FirstGuestId" "p_sent h = []"
    "p_reported h = [(Connecting, None)]" "c_nonce (p_conn h) = map_option fst ?auth"
    by (simp_all add: h_def plain_host_start)
  have gs: "c_state (p_conn g) = Connecting" "c_expected (p_conn g) = snd (expectation Await_response)"
    "c_hasTransition (p_conn g)" "c_hasReceive (p_conn g)" "p_sent g = []" "c_peerName (p_conn g) = server"
    "p_reported g = [(Connecting, None)]"
    by (simp_all add: g_def plain_guest_start)
  have v: "snd (verifyConnect ?host name ?m h) = Inr False"
    using assms(2) hs(8) by (subst first_verify [OF assms(1) s]) auto
  have h2: "processReceive ?host (Connect ?m) h =
      (h\<lparr>p_conn := shut (p_conn h), p_sent := [Message ?r],
       p_reported := [(Connecting, None), (Closed, Some (RuntimeError ''invalid authorization information''))]\<rparr>, Inr ())"
    by (subst plain_rejected [OF _ _ _ _ _ v]) (simp_all add: hs first_connect_def)
  have g3: "processReceive ?guest ?r g =
      (g\<lparr>p_conn := p_conn g\<lparr>c_selfId := FirstGuestId, c_state := Early_subscribe, c_expected := snd (expectation Guest_preload)\<rparr>,
         p_sent := [Message (Connect client_finished_message)], p_reported := [(Connecting, None), (Early_subscribe, None)]\<rparr>, Inr ())"
    by (subst plain_response) (simp_all add: gs client_finished_message_def)
  let ?h2 = "fst (processReceive ?host (Connect ?m) h)"
  have h3: "processReceive ?host (Connect client_finished_message) (?h2\<lparr>p_sent := []\<rparr>) = (?h2\<lparr>p_sent := []\<rparr>, Inr ())"
    by (rule plain_closed) (simp add: h2 closed_def)
  have 2: "exchange (Suc k) ?host ?guest (?h2, g) =
      exchange k ?host ?guest (fst (processReceive ?host (Connect client_finished_message) (?h2\<lparr>p_sent := []\<rparr>)),
        fst (processReceive ?guest ?r g)\<lparr>p_sent := []\<rparr>)" for k
    by (rule exchange_round) (simp_all add: h2 g3)
  show ?thesis
    unfolding numeral_3_eq_3 first_round [OF s] Let_def h_def [symmetric] g_def [symmetric] 2 h3 g3
    by (simp add: hs gs h2 in_phase_def)
qed

lemma guest_ignores_rejection_witness:
  "let host = plain_env (policy_of simple_crypto (Some (7, ''right''))) simple_crypto 1 0;
       guest = plain_env None simple_crypto 2 9;
       (h, g) = exchange 3 host guest (plain_start (policy_of simple_crypto (Some (7, ''right''))) simple_crypto True None ''server'',
                                       plain_start None simple_crypto False (Some ''wrong'') ''guest'')
   in in_phase Shut (p_conn h) \<and> in_phase Guest_preload (p_conn g)"
proof -
  have "digest_new simple_crypto 7 (nonce_toString 9) ''guest'' ''wrong'' \<noteq>
      digest_new simple_crypto 7 (nonce_toString 9) ''guest'' ''right''"
    by (simp add: digest_new_def simple_crypto_def chars_def Let_def)
  from guest_ignores_rejection [OF simple_crypto_ok this, of 1 2 "''server''"] show ?thesis
    by (auto simp: Let_def)
qed

section \<open>Every connection\<close>

text \<open>C27: With handlers that at most close their connection, every received message whose processing
  is not undefined moves a connection along the protocol automaton: through the phases of the
  handshake in order, staying in a phase for an instance, or into the closed phase, which is
  final. Undefined is above all the processing of an authChallengeResponse of more than 64 hex
  digits.\<close>

theorem connection_follows_protocol:
  assumes "connection_client env" "in_phase p (get_conn env s)" "p \<noteq> Idle"
    and "\<not> is_ub (snd (processReceive env m s))"
  shows "\<exists>p'. in_phase p' (get_conn env (fst (processReceive env m s))) \<and> protocol p m p'"
  using connection_client.processReceive_protocol [OF assms(1-3), of m] assms(4) by (simp add: wp_def)

text \<open>C28: When the processing of a message, as far as it is not undefined, takes a host connection
  from the state in which it waits for a guest to connect to one in which instances are
  exchanged, then the message is a DotsMsgConnect with a client name, and in this very run the
  authentication manager has verified its credentials and accepted them. An
  authChallengeResponse of more than 64 hex digits is excluded, since it makes the processing
  undefined.\<close>

theorem host_admits_only_verified:
  assumes "connection_client env" "in_phase Await_connect (get_conn env s)"
    and "in_phase p' (get_conn env (fst (processReceive env m s)))" "exchanging p'"
    and "\<not> is_ub (snd (processReceive env m s))"
  shows "\<exists>x name s1 s2. m = Connect x \<and> connect_clientName x = Some name
    \<and> channel_import env m s = (s1, Inr ()) \<and> verifyConnect env name x s1 = (s2, Inr True)"
proof (rule ccontr)
  assume "\<not> ?thesis"
  then have "in_phase Shut (get_conn env (fst (processReceive env m s)))"
    using connection_client.processReceive_admits [OF assms(1,2), of m] assms(5) by (fastforce simp: wp_def prod_eq_iff)
  then show False using assms(3,4) by (auto simp: exchanging_def in_phase_def)
qed

text \<open>C29: What a guest writes into the sender, server time and is-from-myself properties of a header
  has no influence on anything a host does with the instance.\<close>

theorem host_ignores_claimed_sender:
  assumes "connection_client env" "isHost (get_conn env s)"
    and "channel_import env (Data h' x) s = channel_import env (Data h x) s"
    and "h' = h\<lparr>hd_sender := a, hd_serverSentTime := b, hd_isFromMyself := f\<rparr>"
  shows "processReceive env (Data h' x) s = processReceive env (Data h x) s"
  using connection_client.processReceive_claims [OF assms] .

lemma unstarted_connection_destroyed:
  assumes "connection_client env" "in_phase Idle (get_conn env s)"
  shows "is_ub (snd (connection_destroy env s))"
  using assms(2) connection_client.get_modify [OF assms(1)] connection_client.get_expect [OF assms(1)]
  by (simp add: connection_destroy_def in_phase_def closed_def connected_def handleClose_def setConnectionState_def
      catchA_def Let_def)

lemma plain_received [simp]:
  "p_received (fst (setConnectionState (plain_env policy lib now cn) st e s)) = p_received s"
  "p_received (expectSystemType (plain_env policy lib now cn) t ps h s) = p_received s"
  "p_received (modify_conn (plain_env policy lib now cn) f s) = p_received s"
  "p_received (fst (transmit_message (plain_env policy lib now cn) m s)) = p_received s"
  by (simp_all add: setConnectionState_def catchA_def modify_conn_def expectSystemType_def transmit_message_def Let_def)

lemma fst_thenA: "fst (thenA m f) = (case snd m of Inl e \<Rightarrow> fst m | Inr x \<Rightarrow> fst (f x (fst m)))"
  by (simp add: thenA_def split: sum.split)

lemma fst_catchA: "fst (catchA m h) = (case snd m of Inr x \<Rightarrow> fst m | Inl e \<Rightarrow> if undefined_exn e then fst m else fst (h e (fst m)))"
  by (cases m) (auto simp: catchA_def split: sum.split)

lemma plain_received_handlers [simp]:
  "p_received (fst (handleClose (plain_env policy lib now cn) e s)) = p_received s"
  "p_received (fst (handleError (plain_env policy lib now cn) x s)) = p_received s"
  "p_received (fst (processError (plain_env policy lib now cn) x s)) = p_received s"
  "p_received (fst (handlePeerError (plain_env policy lib now cn) err s)) = p_received s"
  by (simp_all add: handleClose_def handleError_def processError_def handlePeerError_def fst_thenA fst_catchA Let_def
      split: sum.split)

lemma plain_received_verify: "p_received (fst (verifyConnect (plain_env policy lib now cn) g x s)) = p_received s"
  by (subst plain_verify) simp

lemma plain_received_steps [simp]:
  "p_received (fst (handleHello (plain_env policy lib now cn) hello s)) = p_received s"
  "p_received (fst (handleAuthorizationRequest (plain_env policy lib now cn) r s)) = p_received s"
  "p_received (fst (handlePreloadFinished (plain_env policy lib now cn) s)) = p_received s"
  "p_received (fst (handleConnect (plain_env policy lib now cn) x s)) = p_received s"
  "p_received (fst (handlePreloadClientFinished (plain_env policy lib now cn) x s)) = p_received s"
  by (simp_all add: handleHello_def handleAuthorizationRequest_def handlePreloadFinished_def plain_received_verify
      handleConnect_def handlePreloadClientFinished_def expectError_def fst_thenA Let_def split: option.split sum.split)

lemma plain_received_call [simp]:
  "p_received (fst (call_handler (plain_env policy lib now cn) h m s)) = p_received s"
  by (simp add: call_handler_def split: system_handler.split message.split option.split)

text \<open>C30: The receive handler gets exactly the instances with valid keys that arrive while the
  connection is preloading or connected, each with the header stamped by the connection, and
  nothing before.\<close>

theorem delivery_after_admission:
  assumes "in_phase p (p_conn s)" "p \<noteq> Idle"
  shows "p_received (fst (processReceive (plain_env policy lib now cn) m s)) =
    (case m of
       Data h x \<Rightarrow> if exchanging p \<and> assert_keys x = Inr () then p_received s @ [(stamp now (p_conn s) h, x)] else p_received s
     | _ \<Rightarrow> p_received s)"
proof -
  have c: "c_state (p_conn s) = Connected \<or> c_state (p_conn s) = Early_subscribe \<longleftrightarrow> exchanging p"
    "exchanging p \<Longrightarrow> c_hasReceive (p_conn s) \<and> \<not> closed (p_conn s)"
    using assms by (cases p; simp add: in_phase_def exchanging_def closed_def)+
  show ?thesis
    using c
    by (cases m) (auto simp: processReceive_def handleReceive_def handleSystem_def handleData_def fst_thenA fst_catchA Let_def
      split: sum.split option.split prod.split)
qed

section \<open>Examples\<close>

lemma example_await_connect: "in_phase Await_connect (p_conn (plain_start None lib True None server))"
  using plain_host_start [of lib None None server] by (simp add: policy_of_def in_phase_def)

definition example_connect :: message where
  "example_connect = Connect \<lparr>connect_clientName = Some ''guest'', connect_preloadCache = Some True,
     connect_preloadClientFinished = None, connect_authChallengeResponse = None, connect_cnonce = None\<rparr>"

lemma example_admitted:
  "processReceive (plain_env None simple_crypto 1 0) example_connect (plain_start None simple_crypto True None ''server'') =
    (let s = plain_start None simple_crypto True None ''server'' in
     s\<lparr>p_conn := p_conn s\<lparr>c_peerName := ''guest'', c_state := Early_subscribe, c_expected := snd (expectation Host_preload)\<rparr>,
       p_sent := p_sent s @ [Message (connect_response (c_peerId (p_conn s)) True True)],
       p_reported := p_reported s @ [(Early_subscribe, None)]\<rparr>, Inr ())"
  using example_await_connect [of simple_crypto "''server''"]
  unfolding example_connect_def Let_def
  by (subst plain_connect [where name = "''guest''"]) (simp_all add: in_phase_def verifyConnect_def)

lemma connection_follows_protocol_witness:
  "\<exists>p'. in_phase p' (p_conn (fst (processReceive (plain_env None simple_crypto 1 0) example_connect
      (plain_start None simple_crypto True None ''server'')))) \<and> protocol Await_connect example_connect p'"
  using connection_follows_protocol [OF plain.connection_client_axioms,
      of Await_connect None simple_crypto 1 0 "plain_start None simple_crypto True None ''server''" example_connect]
    example_await_connect example_admitted
  by (simp add: Let_def)

text \<open>A host that asks for the secret \<open>''s''\<close>, and the answer of a guest that knows it.\<close>

definition secret_host :: "plain" where
  "secret_host = plain_start (policy_of simple_crypto (Some (7, ''s''))) simple_crypto True None ''server''"

definition secret_connect :: msg_connect where
  "secret_connect = first_connect simple_crypto (Some (7, ''s'')) ''s'' 9 ''guest''"

lemma host_admits_only_verified_witness:
  "\<exists>name s1 s2. connect_clientName secret_connect = Some name
     \<and> channel_import (plain_env (policy_of simple_crypto (Some (7, ''s''))) simple_crypto 1 0) (Connect secret_connect) secret_host
         = (s1, Inr ())
     \<and> verifyConnect (plain_env (policy_of simple_crypto (Some (7, ''s''))) simple_crypto 1 0) name secret_connect s1 = (s2, Inr True)"
proof -
  let ?env = "plain_env (policy_of simple_crypto (Some (7, ''s''))) simple_crypto 1 0"
  have "snd (verifyConnect ?env ''guest'' secret_connect secret_host) = Inr True"
    unfolding secret_connect_def by (subst first_verify [OF simple_crypto_ok, where secret = "Some ''s''"])
      (simp_all add: secret_host_def plain_host_start)
  then have run: "processReceive ?env (Connect secret_connect) secret_host =
    (secret_host\<lparr>p_conn := p_conn secret_host\<lparr>c_peerName := ''guest'', c_state := Early_subscribe, c_expected := snd (expectation Host_preload)\<rparr>,
       p_sent := p_sent secret_host @ [Message (connect_response (c_peerId (p_conn secret_host)) True True)],
       p_reported := p_reported secret_host @ [(Early_subscribe, None)]\<rparr>, Inr ())"
    by (intro plain_connect) (simp_all add: secret_host_def plain_host_start secret_connect_def first_connect_def)
  have f: "c_hasTransition (p_conn secret_host)" "c_hasReceive (p_conn secret_host)" "in_phase Await_connect (p_conn secret_host)"
    by (simp_all add: secret_host_def plain_host_start in_phase_def)
  have "\<exists>x name s1 s2. Connect secret_connect = Connect x \<and> connect_clientName x = Some name
    \<and> channel_import ?env (Connect secret_connect) secret_host = (s1, Inr ()) \<and> verifyConnect ?env name x s1 = (s2, Inr True)"
    by (intro host_admits_only_verified [OF plain.connection_client_axioms, where p' = Host_preload])
      (use f(1,2) f(3) in \<open>simp_all add: run exchanging_def in_phase_def [of Host_preload]\<close>)
  then show ?thesis by blast
qed

lemma host_ignores_claimed_sender_witness:
  "processReceive (plain_env None simple_crypto 1 0) (Data (empty_header\<lparr>hd_sender := Some 1, hd_isFromMyself := Some True\<rparr>) (ClearCache None))
      (plain_start None simple_crypto True None ''server'') =
    processReceive (plain_env None simple_crypto 1 0) (Data empty_header (ClearCache None)) (plain_start None simple_crypto True None ''server'')"
proof -
  have "isHost (p_conn (plain_start None simple_crypto True None ''server''))"
    using plain_host_start [of simple_crypto None None "''server''"] by (simp add: policy_of_def isHost_def)
  then show ?thesis
    by (intro host_ignores_claimed_sender [OF plain.connection_client_axioms, where a = "Some 1" and b = None and f = "Some True"])
      (simp_all add: empty_header_def)
qed

lemma delivery_after_admission_witness:
  "p_received (fst (processReceive (plain_env None simple_crypto 1 0) (Data empty_header (ClearCache None))
     (plain_start None simple_crypto True None ''server''))) = []"
  using delivery_after_admission [OF example_await_connect, of None simple_crypto 1 0 "Data empty_header (ClearCache None)"
      simple_crypto "''server''"] plain_host_start [of simple_crypto None None "''server''"]
  by (simp add: exchanging_def policy_of_def)

end
