(* ===== verification/Dispatcher_Facts.thy ===== *)
theory Dispatcher_Facts
  imports Dispatcher
begin

text \<open>
  What a dispatcher guarantees: its invariants hold whatever the handlers do, handlers that do
  not dispatch are called exactly once and in order, a new event handler gets the cached instances, and which guarantees are lost when a
  handler dispatches while it is called.
\<close>

section \<open>Invariants of the dispatcher\<close>

definition keeps :: "('s \<Rightarrow> bool) \<Rightarrow> ('s \<Rightarrow> 's \<times> 'a) \<Rightarrow> bool" where
  "keeps I f \<longleftrightarrow> (\<forall>st. I st \<longrightarrow> I (fst (f st)))"

lemma keepsI [intro?]: "(\<And>st. I st \<Longrightarrow> I (fst (f st))) \<Longrightarrow> keeps I f"
  by (simp add: keeps_def)

lemma keepsD: "keeps I f \<Longrightarrow> I st \<Longrightarrow> I (fst (f st))"
  by (simp add: keeps_def)

lemma keeps_thenA: "keeps I m \<Longrightarrow> (\<And>x. keeps I (f x)) \<Longrightarrow> keeps I (\<lambda>st. thenA (m st) f)"
  by (auto simp: keeps_def thenA_def split: sum.split)

text \<open>
  A property of the state that the elementary steps keep is kept by whole dispatches, whatever
  the handlers do.
\<close>

locale dispatcher_invariant =
  fixes I :: "'h dispatcher \<Rightarrow> bool"
  assumes I_bookkeeping: "I st \<Longrightarrow> I (st\<lparr>currentlyDispatchingId := c\<rparr>)" "I st \<Longrightarrow> I (st\<lparr>removeIds := r\<rparr>)"
      "I st \<Longrightarrow> I (st\<lparr>trace := t\<rparr>)" "I st \<Longrightarrow> I (st\<lparr>errors := e\<rparr>)" "I st \<Longrightarrow> I (st\<lparr>changes := l\<rparr>)"
      "I st \<Longrightarrow> I (st\<lparr>nextId := Suc (nextId st)\<rparr>)"
    and I_erase: "I st \<Longrightarrow> I (put_handlers hp d (fold erase_handler ks (handlers_of hp d st)) st)"
    and I_emplace: "I st \<Longrightarrow> k = nextId st \<Longrightarrow> st1 = st\<lparr>nextId := Suc k\<rparr> \<Longrightarrow>
      I (put_handlers hp d (emplace_handler k h (handlers_of hp d st1)) st1)"
    and I_insert: "I st \<Longrightarrow> I (fst (with_container d (container_insert now hdr a) st))"
    and I_remove: "I st \<Longrightarrow> I (fst (with_container d (container_remove now hdr a) st))"
    and I_get: "I st \<Longrightarrow> I (fst (with_container d (\<lambda>c. (c, Inr c)) st))"
begin

lemma keeps_removeHandler: "keeps I (removeHandler hp d k)"
proof
  fix st :: "'h dispatcher"
  assume "I st"
  then show "I (fst (removeHandler hp d k st))"
    using I_erase [of st hp d "[k]"] by (simp add: removeHandler_def I_bookkeeping)
qed

lemma I_addTransmissionHandler: "I st \<Longrightarrow> I (fst (addTransmissionHandler d h st))"
  by (simp add: addTransmissionHandler_def Let_def I_bookkeeping I_emplace)

lemma keeps_run_prog:
  assumes "\<And>t. keeps I (disp t)" "\<And>d h. keeps I (add d h)"
  shows "keeps I (run_prog disp add p)"
proof (induction p)
  case (AddTransmissionHandler d h p)
  then show ?case
    using I_addTransmissionHandler [of _ d h] by (fastforce simp: keeps_def split: prod.split)
qed (auto simp: assms intro!: keeps_thenA keeps_removeHandler; simp add: keeps_def)+

lemma keeps_invoke: "(\<And>p. keeps I (run p)) \<Longrightarrow> keeps I (invoke call run hp k h x)"
  by (simp add: keeps_def invoke_def I_bookkeeping)

lemma I_after_call: "I st \<Longrightarrow> I (after_call r st)"
proof -
  assume "I st"
  then have "I ((st\<lparr>errors := errors st @ (case r of Inl e \<Rightarrow> [e] | Inr _ \<Rightarrow> [])\<rparr>)\<lparr>currentlyDispatchingId := None\<rparr>)"
    by (intro I_bookkeeping)
  then show ?thesis by (simp add: after_call_def)
qed

lemma keeps_dispatch_loop:
  assumes "\<And>p. keeps I (run p)"
  shows "I st \<Longrightarrow> I (fst (dispatch_loop call run hp d seen cur st))"
proof (induction cur arbitrary: st rule: less_induct)
  case (less cur)
  show ?case
  proof (cases "map_of (handlers_of hp d st) cur")
    case None
    then show ?thesis using less.prems by (simp add: dispatch_loop.simps)
  next
    case (Some h)
    show ?thesis
    proof (cases "seen st")
      case (Inl e)
      then show ?thesis using less.prems Some by (simp add: dispatch_loop.simps)
    next
      case (Inr x)
    obtain st1 r where r: "invoke call run hp cur h x (st\<lparr>currentlyDispatchingId := Some cur\<rparr>) = (st1, r)"
      by (cases "invoke call run hp cur h x (st\<lparr>currentlyDispatchingId := Some cur\<rparr>)") auto
    have "I st1"
      using keepsD [OF keeps_invoke [of run call hp cur h x, OF assms], of "st\<lparr>currentlyDispatchingId := Some cur\<rparr>"] r
        less.prems by (simp add: I_bookkeeping)
    then have "I (after_call r st1)" by (rule I_after_call)
    moreover have "I (fst (dispatch_loop call run hp d seen i (after_call r st1)))"
      if "filter (\<lambda>i. i < cur) (List.map fst (handlers_of hp d (after_call r st1))) = i # is" for i "is"
      using that less.IH [of i] \<open>I (after_call r st1)\<close> by (auto dest: filter_eq_ConsD)
    ultimately show ?thesis
      using \<open>I st1\<close> unfolding dispatch_loop.simps [of call run hp d seen cur st]
      by (simp only: Some Inr r Let_def option.case sum.case prod.case fst_conv split: list.split if_split) simp
    qed
  qed
qed

lemma keeps_dispatchToHandlers:
  assumes "\<And>p. keeps I (run p)"
  shows "keeps I (dispatchToHandlers call run hp d seen)"
proof -
  have "keeps I (\<lambda>st. case handlers_of hp d st of [] \<Rightarrow> (st, Inr ())
            | (k, h) # _ \<Rightarrow> dispatch_loop call run hp d seen k st)"
    using keeps_dispatch_loop [OF assms] by (auto simp: keeps_def split: list.split)
  moreover have "keeps I (\<lambda>st. (put_handlers hp d (fold erase_handler (removeIds st) (handlers_of hp d st))
      (st\<lparr>removeIds := []\<rparr>), Inr ()))"
  proof
    fix st assume "I st"
    then have "I (put_handlers hp d (fold erase_handler (removeIds st) (handlers_of hp d (st\<lparr>removeIds := []\<rparr>)))
      (st\<lparr>removeIds := []\<rparr>))" by (intro I_erase I_bookkeeping)
    moreover have "handlers_of hp d (st\<lparr>removeIds := []\<rparr>) = handlers_of hp d st" by (simp add: handlers_of_def)
    ultimately show "I (fst (put_handlers hp d (fold erase_handler (removeIds st) (handlers_of hp d st))
      (st\<lparr>removeIds := []\<rparr>), Inr ()))" by simp
  qed
  ultimately show ?thesis unfolding dispatchToHandlers_def by (rule keeps_thenA)
qed

lemma keeps_dispatchTransmission:
  "(\<And>p. keeps I (run p)) \<Longrightarrow> keeps I (dispatchTransmission call run t)"
  using keeps_dispatchToHandlers [of run] by (auto simp: keeps_def dispatchTransmission_def split: option.split)

lemma keeps_dispatch_event_of:
  "(\<And>p. keeps I (run p)) \<Longrightarrow> keeps I (dispatch_event_of call run d seen e)"
  using keeps_dispatchToHandlers [of run] by (auto simp: keeps_def dispatch_event_of_def split: sum.split)

lemma I_change:
  assumes "I (fst (with_container d f st))"
  shows "I (fst (change_container d a b f st))"
  using I_bookkeeping(5) [OF assms] by (simp add: change_container_def split_def)

lemma keeps_dispatchEvent:
  assumes "\<And>p. keeps I (run p)"
  shows "keeps I (dispatchEvent now call run t)"
proof
  fix st0 assume I: "I st0"
  let ?d = "tr_type t" and ?h = "tr_header t" and ?a = "tr_instance t"
  define st where "st = put_handlers Event_Pool ?d (handlers_of Event_Pool ?d st0) st0"
  have st: "I st" using I_erase [OF I, of Event_Pool ?d "[]"] by (simp add: st_def)
  note e = keeps_dispatch_event_of [of run, OF assms]
  have ins: "keeps I (\<lambda>st. thenA (change_container ?d ?a False (container_insert now ?h ?a) st) (\<lambda>(u, info) st.
                dispatch_event_of call run ?d (live_event ?d (length (changes st))) (event_new ?h ?a u info None) st))"
    using e by (intro keeps_thenA) (auto simp: keeps_def I_insert I_change)
  have rem: "keeps I (\<lambda>st. thenA (change_container ?d ?a True (container_remove now ?h ?a) st) (\<lambda>removed st.
                case removed of None \<Rightarrow> (st, Inr ())
                | Some (u, info) \<Rightarrow> dispatch_event_of call run ?d (\<lambda>ev _. Inr (Ev ev)) (event_new ?h ?a u info None) st))"
    using e by (intro keeps_thenA) (auto simp: keeps_def I_remove I_change split: option.split)
  show "I (fst (dispatchEvent now call run t st0))"
    using keepsD [OF ins st] keepsD [OF rem st] keepsD [OF e st] st
    by (simp add: dispatchEvent_def Let_def flip: st_def)
qed

lemma keeps_replay:
  assumes "\<And>p. keeps I (run p)"
  shows "keeps I (replay call run d k h rounds left cs)"
proof (induction rounds arbitrary: left cs)
  case 0
  then show ?case by (cases cs) (auto simp: keeps_def)
next
  case (Suc rounds)
  show ?case
  proof
    fix st assume I: "I st"
    show "I (fst (replay call run d k h (Suc rounds) left cs st))"
    proof (cases cs)
      case (Cons c rest)
      obtain a info where c: "c = (a, info)" by (cases c)
      have "I (fst (thenA (invoke call run Event_Pool k h x st) (\<lambda>_ st'.
            if k \<notin> fst ` set (handlers_of Event_Pool d st')
            then (st', Inl (UndefinedBehaviour ''running handler destroyed''))
            else if changes_since (length (changes st)) d a st' \<noteq> []
            then (st', Inl (UndefinedBehaviour ''iterator to an extracted clone''))
            else replay call run d k h rounds (left - 1)
                   (if changes st' = changes st then rest else clones_behind d a st') st')))" for x
        using keepsD [OF keeps_invoke [of run, OF assms] I, of call Event_Pool k h x] Suc.IH
        by (simp add: thenA_def keeps_def split: sum.split)
      then show ?thesis using I by (simp add: Cons c split: sum.split)
    qed (use I in simp)
  qed
qed

lemma keeps_addEventHandler_with:
  assumes "\<And>p. keeps I (run p)"
  shows "keeps I (addEventHandler_with call run extra d h)"
proof
  fix st assume I: "I st"
  have r: "keeps I (\<lambda>st. thenA (with_container d (\<lambda>c. (c, Inr c)) st) (\<lambda>c st.
           thenA (replay call run d k h (length (m_instances c) + extra) (of_nat (length (m_instances c))) (m_instances c) st)
             (\<lambda>_ st. (st, Inr k))))" for k
    using keeps_replay [of run, OF assms] by (intro keeps_thenA) (auto simp: keeps_def I_get)
  show "I (fst (addEventHandler_with call run extra d h st))"
    using keepsD [OF r] I_emplace [OF I refl refl, of Event_Pool d h] I
    by (simp add: addEventHandler_with_def Let_def I_bookkeeping)
qed

lemma keeps_all:
  "keeps I (dispatch now call n t)" "keeps I (addEventHandler now call n d h)"
proof (induction n arbitrary: t d h)
  case (Suc n)
  {
    case 1
    have "keeps I (run_prog (dispatch now call n) (addEventHandler now call n) p)" for p
      using Suc by (intro keeps_run_prog)
    then have "keeps I (\<lambda>st. thenA (dispatchTransmission call (run_prog (dispatch now call n) (addEventHandler now call n)) t st)
        (\<lambda>_. dispatchEvent now call (run_prog (dispatch now call n) (addEventHandler now call n)) t))"
      by (intro keeps_thenA keeps_dispatchTransmission keeps_dispatchEvent)
    then show ?case by (simp add: keeps_def Let_def)
  next
    case 2
    have "keeps I (run_prog (dispatch now call n) (addEventHandler now call n) p)" for p
      using Suc by (intro keeps_run_prog)
    then show ?case using keeps_addEventHandler_with by (simp add: keeps_def)
  }
qed (simp_all add: keeps_def)

end


section \<open>Well-formed dispatchers\<close>

definition handlers_ok :: "nat \<Rightarrow> 'h handlers \<Rightarrow> bool" where
  "handlers_ok n hs \<longleftrightarrow> sorted_wrt (>) (List.map fst hs) \<and> (\<forall>k \<in> fst ` set hs. k < n)"

definition dispatcher_wf :: "'h dispatcher \<Rightarrow> bool" where
  "dispatcher_wf st \<longleftrightarrow>
     (\<forall>hp a hs. handlerPool st hp a = Some hs \<longrightarrow> handlers_ok (nextId st) hs)
     \<and> pool_wf (containerPool st)
     \<and> (\<forall>n \<in> set (m_pool (containerPool st)). cont_descriptor (node_container n) = sd_of (node_descriptor n))"

lemma handlers_ok_Nil [simp]: "handlers_ok n []"
  by (simp add: handlers_ok_def)

lemma handlers_ok_of: "dispatcher_wf st \<Longrightarrow> handlers_ok (nextId st) (handlers_of hp d st)"
  by (simp add: dispatcher_wf_def handlers_of_def split: option.split)

lemma handlers_ok_mono: "handlers_ok n hs \<Longrightarrow> n \<le> m \<Longrightarrow> handlers_ok m hs"
  by (auto simp: handlers_ok_def)

lemma handlers_ok_Suc: "handlers_ok n hs \<Longrightarrow> handlers_ok (Suc n) hs"
  by (auto simp: handlers_ok_def)

lemma handlers_ok_filter: "handlers_ok n hs \<Longrightarrow> handlers_ok n (filter P hs)"
proof (induction hs)
  case (Cons h hs)
  then show ?case by (auto simp: handlers_ok_def)
qed simp

lemma handlers_ok_erase: "handlers_ok n hs \<Longrightarrow> handlers_ok n (fold erase_handler ks hs)"
  by (induction ks arbitrary: hs) (simp_all add: erase_handler_def handlers_ok_filter)

lemma emplace_newest: "\<forall>i \<in> fst ` set hs. i < k \<Longrightarrow> emplace_handler k h hs = (k, h) # hs"
  by (cases hs) auto

lemma dispatcher_wf_put:
  "dispatcher_wf st \<Longrightarrow> handlers_ok (nextId st) hs \<Longrightarrow> dispatcher_wf (put_handlers hp d hs st)"
  by (simp add: dispatcher_wf_def put_handlers_def)

lemma container_ops_descriptor [simp]:
  "cont_descriptor (fst (container_insert now h a c)) = cont_descriptor c"
  "cont_descriptor (fst (container_remove now h a c)) = cont_descriptor c"
  by (auto simp: container_insert_def container_remove_def Let_def split: option.split sum.split)

definition pool_typed :: "container_pool \<Rightarrow> bool" where
  "pool_typed p \<longleftrightarrow> (\<forall>n \<in> set (m_pool p). cont_descriptor (node_container n) = sd_of (node_descriptor n))"

lemma pool_typed_get: "pool_typed p \<Longrightarrow> pool_typed (fst (pool_get d b p))"
  by (auto simp: pool_typed_def pool_get_def pool_insert_new_def container_new_def Let_def split: option.splits)

lemma pool_typed_put:
  assumes "pool_wf p" "pool_typed p" "pool_find d p = Some c" "cont_descriptor c' = cont_descriptor c"
  shows "pool_typed (pool_put d c' p)"
proof -
  obtain n where n: "node_of d p = Some n" "c = node_container n" using assms(3) by (auto simp: pool_find_def)
  then have "n \<in> set (m_pool p)" "sd_addr (node_descriptor n) = sd_addr d"
    using find_Some_set unfolding node_of_def by force+
  then have "m = n" if "m \<in> set (m_pool p)" "sd_addr (node_descriptor m) = sd_addr d" for m
    using that assms(1) by (auto simp: pool_wf_def distinct_map inj_on_def)
  then show ?thesis using assms(2,4) n by (auto simp: pool_typed_def pool_put_def)
qed

lemma pool_get_find: "pool_get d True p = (q, Inr c) \<Longrightarrow> pool_find d q = Some c"
  using pool_find_get(1) [of d p] by (auto simp: pool_get_def split: option.splits)

lemma dispatcher_wf_iff:
  "dispatcher_wf st \<longleftrightarrow> (\<forall>hp a hs. handlerPool st hp a = Some hs \<longrightarrow> handlers_ok (nextId st) hs)
     \<and> pool_wf (containerPool st) \<and> pool_typed (containerPool st)"
  by (simp add: dispatcher_wf_def pool_typed_def)

lemma dispatcher_wf_container:
  assumes "dispatcher_wf st" "\<And>c. cont_descriptor (fst (f c)) = cont_descriptor c"
  shows "dispatcher_wf (fst (with_container d f st))"
proof -
  obtain q r where q: "pool_get d True (containerPool st) = (q, r)" by (cases "pool_get d True (containerPool st)") auto
  have wf: "pool_wf q" "pool_typed q"
    using pool_wf_get [of "containerPool st" d True] pool_typed_get [of "containerPool st" d True] assms(1) q
    by (simp_all add: dispatcher_wf_iff)
  show ?thesis
  proof (cases r)
    case (Inl e)
    then show ?thesis using assms(1) q wf by (simp add: with_container_def dispatcher_wf_iff)
  next
    case (Inr c)
    have "pool_typed (pool_put d (fst (f c)) q)"
      using pool_typed_put [OF wf pool_get_find] assms(2) q Inr by blast
    then show ?thesis using assms(1) q wf Inr pool_wf_put
      by (cases "f c") (simp add: with_container_def dispatcher_wf_iff)
  qed
qed

interpretation wf_dispatcher: dispatcher_invariant dispatcher_wf
proof
  fix st :: "'h dispatcher" and hp d k st1 h
  assume st: "dispatcher_wf st"
  show "dispatcher_wf (put_handlers hp d (fold erase_handler ks (handlers_of hp d st)) st)" for ks
    using st by (intro dispatcher_wf_put handlers_ok_erase handlers_ok_of)
  assume k: "k = nextId st" "st1 = st\<lparr>nextId := Suc k\<rparr>"
  have hs: "handlers_ok k (handlers_of hp d st1)" using handlers_ok_of [OF st] by (simp add: k handlers_of_def)
  then have "handlers_ok (Suc k) (emplace_handler k h (handlers_of hp d st1))"
    by (auto simp: handlers_ok_def emplace_newest)
  moreover have "dispatcher_wf st1"
    using st by (auto simp: k dispatcher_wf_def handlers_ok_Suc)
  ultimately show "dispatcher_wf (put_handlers hp d (emplace_handler k h (handlers_of hp d st1)) st1)"
    by (intro dispatcher_wf_put) (simp_all add: k)
qed (simp_all add: dispatcher_wf_container, simp_all add: dispatcher_wf_def handlers_ok_Suc)


lemma dispatcher_wf_new: "dispatcher_wf dispatcher_new"
  by (simp add: dispatcher_wf_def dispatcher_new_def) (simp add: pool_new_def)

section \<open>Handlers that do not dispatch\<close>

text \<open>
  A handler program that neither dispatches nor adds event handlers (which replays); it may
  add and remove handlers, itself included, and throw.
\<close>

primrec flat :: "'h prog \<Rightarrow> bool" where
  "flat Finish = True"
| "flat (Raise e) = (\<not> is_ub (Inl e :: unit result))"
| "flat (RemoveTransmissionHandler d k p) = flat p"
| "flat (RemoveEventHandler d k p) = flat p"
| "flat (AddTransmissionHandler d h p) = (\<forall>k. flat (p k))"
| "flat (AddEventHandler d h p) = False"
| "flat (Dispatch t p) = False"

definition flat_client :: "'h client \<Rightarrow> bool" where
  "flat_client call \<longleftrightarrow> (\<forall>h tr x. flat (call h tr x))"

text \<open>What such a program leaves of the handler map that is being iterated at \<open>cur\<close>.\<close>

definition runs_on :: "handler_pool \<Rightarrow> sd_ref \<Rightarrow> nat \<Rightarrow> 'h dispatcher \<Rightarrow> 'h dispatcher \<Rightarrow> bool" where
  "runs_on hp d cur st st' \<longleftrightarrow>
     currentlyDispatchingId st' = Some cur \<and> trace st' = trace st \<and> errors st' = errors st
     \<and> (containerPool st' = containerPool st \<and> changes st' = changes st) \<and> clearingHandlers st' = clearingHandlers st
     \<and> nextId st \<le> nextId st' \<and> (\<exists>m. removeIds st' = removeIds st @ replicate m cur)
     \<and> (\<forall>k < nextId st. k \<notin> fst ` set (handlers_of hp d st) \<longrightarrow> k \<notin> fst ` set (handlers_of hp d st'))
     \<and> (\<forall>k. k < nextId st \<longrightarrow> k \<in> fst ` set (handlers_of hp d st') \<longrightarrow>
           map_of (handlers_of hp d st') k = map_of (handlers_of hp d st) k)
     \<and> (cur \<in> fst ` set (handlers_of hp d st) \<longrightarrow> cur \<in> fst ` set (handlers_of hp d st'))
     \<and> dispatcher_wf st'"

lemma runs_on_refl: "dispatcher_wf st \<Longrightarrow> currentlyDispatchingId st = Some cur \<Longrightarrow> runs_on hp d cur st st"
  by (simp add: runs_on_def)

lemma runs_onD:
  assumes "runs_on hp d cur st st'"
  shows "currentlyDispatchingId st' = Some cur" "trace st' = trace st" "errors st' = errors st"
    "containerPool st' = containerPool st \<and> changes st' = changes st" "clearingHandlers st' = clearingHandlers st"
    "nextId st \<le> nextId st'" "\<exists>m. removeIds st' = removeIds st @ replicate m cur"
    "k < nextId st \<Longrightarrow> k \<in> fst ` set (handlers_of hp d st') \<Longrightarrow> k \<in> fst ` set (handlers_of hp d st)"
    "k < nextId st \<Longrightarrow> k \<in> fst ` set (handlers_of hp d st') \<Longrightarrow>
       map_of (handlers_of hp d st') k = map_of (handlers_of hp d st) k"
    "cur \<in> fst ` set (handlers_of hp d st) \<Longrightarrow> cur \<in> fst ` set (handlers_of hp d st')"
    "dispatcher_wf st'"
  using assms unfolding runs_on_def by blast+

lemma runs_on_trans:
  assumes 1: "runs_on hp d cur st st'" and 2: "runs_on hp d cur st' st''"
  shows "runs_on hp d cur st st''"
  unfolding runs_on_def
proof (intro conjI allI impI)
  obtain m m' where "removeIds st' = removeIds st @ replicate m cur" "removeIds st'' = removeIds st' @ replicate m' cur"
    using runs_onD(7) [OF 1] runs_onD(7) [OF 2] by blast
  then show "\<exists>m. removeIds st'' = removeIds st @ replicate m cur"
    by (intro exI [of _ "m + m'"]) (simp add: replicate_add)
  fix k assume k: "k < nextId st"
  then have k': "k < nextId st'" using runs_onD(6) [OF 1] by simp
  show "k \<notin> fst ` set (handlers_of hp d st'')" if "k \<notin> fst ` set (handlers_of hp d st)"
    using that runs_onD(8) [OF 1 k] runs_onD(8) [OF 2 k'] by blast
  show "map_of (handlers_of hp d st'') k = map_of (handlers_of hp d st) k"
    if "k \<in> fst ` set (handlers_of hp d st'')"
    using runs_onD(9) [OF 1 k] runs_onD(9) [OF 2 k'] runs_onD(8) [OF 2 k'] that by simp
qed (use runs_onD(1-6,10,11) [OF 1] runs_onD(1-6,10,11) [OF 2] in simp_all)

lemma handlers_of_put [simp]:
  "handlers_of hp d (put_handlers hp' d' hs st) =
     (if hp = hp' \<and> sd_addr d = sd_addr d' then hs else handlers_of hp d st)"
  by (simp add: handlers_of_def put_handlers_def)

lemma put_handlers_simps [simp]:
  "currentlyDispatchingId (put_handlers hp d hs st) = currentlyDispatchingId st"
  "trace (put_handlers hp d hs st) = trace st" "errors (put_handlers hp d hs st) = errors st"
  "containerPool (put_handlers hp d hs st) = containerPool st" "changes (put_handlers hp d hs st) = changes st"
  "clearingHandlers (put_handlers hp d hs st) = clearingHandlers st"
  "nextId (put_handlers hp d hs st) = nextId st" "removeIds (put_handlers hp d hs st) = removeIds st"
  by (simp_all add: put_handlers_def)

lemma handlers_of_update [simp]:
  "handlers_of hp d (st\<lparr>nextId := n\<rparr>) = handlers_of hp d st"
  "handlers_of hp d (st\<lparr>trace := t\<rparr>) = handlers_of hp d st"
  "handlers_of hp d (st\<lparr>currentlyDispatchingId := c\<rparr>) = handlers_of hp d st"
  "handlers_of hp d (st\<lparr>removeIds := r\<rparr>) = handlers_of hp d st"
  "handlers_of hp d (st\<lparr>errors := e\<rparr>) = handlers_of hp d st"
  "handlers_of hp d (st\<lparr>containerPool := p\<rparr>) = handlers_of hp d st"
  "handlers_of hp d (st\<lparr>changes := l\<rparr>) = handlers_of hp d st"
  by (simp_all add: handlers_of_def)

lemma erase_handler_simps [simp]:
  "fst ` set (erase_handler k hs) = fst ` set hs - {k}"
  "i \<noteq> k \<Longrightarrow> map_of (erase_handler k hs) i = map_of hs i"
proof -
  show "fst ` set (erase_handler k hs) = fst ` set hs - {k}" by (force simp: erase_handler_def)
  show "i \<noteq> k \<Longrightarrow> map_of (erase_handler k hs) i = map_of hs i"
    by (induction hs) (auto simp: erase_handler_def)
qed

lemma handlers_of_addr: "sd_addr d' = sd_addr d \<Longrightarrow> handlers_of hp d' st = handlers_of hp d st"
  by (simp add: handlers_of_def)

lemma removeHandler_handlers:
  assumes "currentlyDispatchingId st = Some cur"
  shows "handlers_of hp d (fst (removeHandler hp' d' k st)) = handlers_of hp d st
    \<or> k \<noteq> cur \<and> handlers_of hp d (fst (removeHandler hp' d' k st)) = erase_handler k (handlers_of hp d st)"
proof (cases "hp = hp' \<and> sd_addr d = sd_addr d'")
  case True
  then have "handlers_of hp' d' st = handlers_of hp d st" by (simp add: handlers_of_def)
  then show ?thesis using assms True by (simp add: removeHandler_def)
qed (auto simp: removeHandler_def)

lemma removeHandler_frame:
  assumes "currentlyDispatchingId st = Some cur"
  shows "currentlyDispatchingId (fst (removeHandler hp' d' k st)) = Some cur"
    "trace (fst (removeHandler hp' d' k st)) = trace st" "errors (fst (removeHandler hp' d' k st)) = errors st"
    "containerPool (fst (removeHandler hp' d' k st)) = containerPool st \<and> changes (fst (removeHandler hp' d' k st)) = changes st"
    "clearingHandlers (fst (removeHandler hp' d' k st)) = clearingHandlers st"
    "nextId (fst (removeHandler hp' d' k st)) = nextId st"
    "\<exists>m. removeIds (fst (removeHandler hp' d' k st)) = removeIds st @ replicate m cur"
    "\<not> is_ub (snd (removeHandler hp' d' k st))"
  using assms by (auto simp: removeHandler_def intro: exI [of _ 0] exI [of _ 1])

lemma runs_on_removeHandler:
  assumes "dispatcher_wf st" "currentlyDispatchingId st = Some cur"
  shows "runs_on hp d cur st (fst (removeHandler hp' d' k st)) \<and> \<not> is_ub (snd (removeHandler hp' d' k st))"
proof
  let ?st' = "fst (removeHandler hp' d' k st)"
  show "runs_on hp d cur st ?st'"
    unfolding runs_on_def removeHandler_frame [OF assms(2)]
  proof (intro conjI allI impI)
    fix i
    assume i: "i \<in> fst ` set (handlers_of hp d ?st')"
    show "map_of (handlers_of hp d ?st') i = map_of (handlers_of hp d st) i"
      using removeHandler_handlers [OF assms(2), of hp d hp' d' k] i
      by (metis DiffE erase_handler_simps insertI1)
  next
    show "i \<notin> fst ` set (handlers_of hp d ?st')" if "i \<notin> fst ` set (handlers_of hp d st)" for i
      using removeHandler_handlers [OF assms(2), of hp d hp' d' k] that by (metis DiffE erase_handler_simps(1))
    show "cur \<in> fst ` set (handlers_of hp d ?st')" if "cur \<in> fst ` set (handlers_of hp d st)"
      using removeHandler_handlers [OF assms(2), of hp d hp' d' k] that
      by (metis DiffI erase_handler_simps(1) singletonD)
    show "dispatcher_wf ?st'" using keepsD [OF wf_dispatcher.keeps_removeHandler assms(1)] .
  qed (use removeHandler_frame(4,7) [OF assms(2)] in simp_all)
qed (rule removeHandler_frame(8) [OF assms(2)])

lemma runs_on_addTransmissionHandler:
  assumes "dispatcher_wf st" "currentlyDispatchingId st = Some cur"
  shows "runs_on hp d cur st (fst (addTransmissionHandler d' h st))"
proof -
  let ?st' = "fst (addTransmissionHandler d' h st)"
  have new: "emplace_handler (nextId st) h (handlers_of Transmission_Pool d' st) =
      (nextId st, h) # handlers_of Transmission_Pool d' st"
    using handlers_ok_of [OF assms(1), of Transmission_Pool d'] by (intro emplace_newest) (simp add: handlers_ok_def)
  have "handlers_of hp d ?st' = handlers_of hp d st \<or> handlers_of hp d ?st' = (nextId st, h) # handlers_of hp d st"
  proof (cases "hp = Transmission_Pool \<and> sd_addr d = sd_addr d'")
    case True
    then have "handlers_of Transmission_Pool d' st = handlers_of hp d st" by (simp add: handlers_of_def)
    then show ?thesis using True new by (simp add: addTransmissionHandler_def Let_def)
  qed (auto simp add: addTransmissionHandler_def Let_def)
  moreover have "currentlyDispatchingId ?st' = currentlyDispatchingId st" "trace ?st' = trace st"
    "errors ?st' = errors st" "containerPool ?st' = containerPool st \<and> changes ?st' = changes st"
    "clearingHandlers ?st' = clearingHandlers st" "nextId ?st' = Suc (nextId st)" "removeIds ?st' = removeIds st"
    by (simp_all add: addTransmissionHandler_def Let_def)
  moreover have "dispatcher_wf ?st'" using wf_dispatcher.I_addTransmissionHandler [OF assms(1)] .
  ultimately show ?thesis
    unfolding runs_on_def using assms(2) by (elim disjE) simp_all
qed

lemma flat_runs_on:
  assumes "flat p" "dispatcher_wf st" "currentlyDispatchingId st = Some cur"
  shows "runs_on hp d cur st (fst (run_prog disp add p st)) \<and> \<not> is_ub (snd (run_prog disp add p st))"
  using assms
proof (induction p arbitrary: st)
  case (AddTransmissionHandler d' h p)
  obtain st1 k where r: "addTransmissionHandler d' h st = (st1, k)" by (cases "addTransmissionHandler d' h st")
  have st1: "runs_on hp d cur st st1"
    using runs_on_addTransmissionHandler [OF AddTransmissionHandler.prems(2,3), of hp d d' h] by (simp add: r)
  then have "runs_on hp d cur st1 (fst (run_prog disp add (p k) st1)) \<and> \<not> is_ub (snd (run_prog disp add (p k) st1))"
    using AddTransmissionHandler.prems(1) by (intro AddTransmissionHandler.IH) (auto simp: runs_on_def)
  then show ?case using st1 runs_on_trans by (fastforce simp: r)
next
  case (RemoveTransmissionHandler d' k p)
  obtain st1 r where r: "removeHandler Transmission_Pool d' k st = (st1, r)" by (cases "removeHandler Transmission_Pool d' k st")
  have st1: "runs_on hp d cur st st1" "\<not> is_ub r"
    using runs_on_removeHandler [OF RemoveTransmissionHandler.prems(2,3), of hp d Transmission_Pool d' k] by (simp_all add: r)
  then have "runs_on hp d cur st1 (fst (run_prog disp add p st1)) \<and> \<not> is_ub (snd (run_prog disp add p st1))"
    using RemoveTransmissionHandler.prems(1) by (intro RemoveTransmissionHandler.IH) (auto simp: runs_on_def)
  then show ?case using st1 runs_on_trans by (cases r) (fastforce simp: r is_ub_def)+
next
  case (RemoveEventHandler d' k p)
  obtain st1 r where r: "removeHandler Event_Pool d' k st = (st1, r)" by (cases "removeHandler Event_Pool d' k st")
  have st1: "runs_on hp d cur st st1" "\<not> is_ub r"
    using runs_on_removeHandler [OF RemoveEventHandler.prems(2,3), of hp d Event_Pool d' k] by (simp_all add: r)
  then have "runs_on hp d cur st1 (fst (run_prog disp add p st1)) \<and> \<not> is_ub (snd (run_prog disp add p st1))"
    using RemoveEventHandler.prems(1) by (intro RemoveEventHandler.IH) (auto simp: runs_on_def)
  then show ?case using st1 runs_on_trans by (cases r) (fastforce simp: r is_ub_def)+
qed (simp_all add: runs_on_refl is_ub_def)


text \<open>The iteration from the handler \<open>cur\<close> on: each handler once, by descending id.\<close>

definition iterated :: "handler_pool \<Rightarrow> sd_ref \<Rightarrow> dispatchable \<Rightarrow> nat \<Rightarrow> 'h dispatcher \<Rightarrow> 'h dispatcher \<Rightarrow> 'h handlers \<Rightarrow> bool" where
  "iterated hp d x cur st st' called \<longleftrightarrow>
     dispatcher_wf st' \<and> currentlyDispatchingId st' = None
     \<and> (containerPool st' = containerPool st \<and> changes st' = changes st)
     \<and> clearingHandlers st' = clearingHandlers st \<and> nextId st \<le> nextId st'
     \<and> trace st' = trace st @ List.map (\<lambda>(k, h). (hp, k, h, x)) called
     \<and> sorted_wrt (>) (List.map fst called)
     \<and> (\<forall>(k, h) \<in> set called. k \<le> cur \<and> map_of (handlers_of hp d st) k = Some h)
     \<and> (\<forall>k \<le> cur. k \<in> fst ` set (handlers_of hp d st') \<longrightarrow> k \<in> fst ` set called)
     \<and> (\<forall>k < nextId st. k \<in> fst ` set (handlers_of hp d st') \<longrightarrow> k \<in> fst ` set (handlers_of hp d st))
     \<and> set (removeIds st') \<subseteq> set (removeIds st) \<union> fst ` set called"

lemma iteratedD:
  assumes "iterated hp d x cur st st' called"
  shows "dispatcher_wf st'" "currentlyDispatchingId st' = None" "containerPool st' = containerPool st \<and> changes st' = changes st"
    "clearingHandlers st' = clearingHandlers st" "nextId st \<le> nextId st'"
    "trace st' = trace st @ List.map (\<lambda>(k, h). (hp, k, h, x)) called" "sorted_wrt (>) (List.map fst called)"
    "(k, h) \<in> set called \<Longrightarrow> k \<le> cur \<and> map_of (handlers_of hp d st) k = Some h"
    "k \<le> cur \<Longrightarrow> k \<in> fst ` set (handlers_of hp d st') \<Longrightarrow> k \<in> fst ` set called"
    "k < nextId st \<Longrightarrow> k \<in> fst ` set (handlers_of hp d st') \<Longrightarrow> k \<in> fst ` set (handlers_of hp d st)"
    "set (removeIds st') \<subseteq> set (removeIds st) \<union> fst ` set called"
  using assms unfolding iterated_def by (elim conjE; (assumption | simp; fail | fast))+

lemma after_call_simps [simp]:
  "currentlyDispatchingId (after_call r st) = None" "containerPool (after_call r st) = containerPool st"
  "changes (after_call r st) = changes st"
  "clearingHandlers (after_call r st) = clearingHandlers st" "nextId (after_call r st) = nextId st"
  "trace (after_call r st) = trace st" "removeIds (after_call r st) = removeIds st"
  "handlers_of hp d (after_call r st) = handlers_of hp d st"
  by (simp_all add: after_call_def handlers_of_def)

text \<open>Handlers that change no container all see the same.\<close>

definition shows_same :: "('h dispatcher \<Rightarrow> dispatchable result) \<Rightarrow> dispatchable \<Rightarrow> 'h dispatcher \<Rightarrow> bool" where
  "shows_same seen x st \<longleftrightarrow> (\<forall>st'. changes st' = changes st \<longrightarrow> seen st' = Inr x)"

lemma shows_same_simps [simp]:
  "shows_same (\<lambda>_. Inr x) x st"
  "shows_same (live_event d (length (changes st)) ev) (Ev ev) st"
  by (simp_all add: shows_same_def live_event_def changes_since_def)

lemma shows_same_step: "shows_same seen x st \<Longrightarrow> changes st' = changes st \<Longrightarrow> shows_same seen x st'"
  by (simp add: shows_same_def)

lemma shows_sameD: "shows_same seen x st \<Longrightarrow> seen st = Inr x"
  by (simp add: shows_same_def)

lemma dispatch_loop_flat:
  assumes "flat_client call"
  shows "dispatcher_wf st \<Longrightarrow> cur \<in> fst ` set (handlers_of hp d st) \<Longrightarrow> shows_same seen x st \<Longrightarrow>
    \<exists>st' called. dispatch_loop call (run_prog disp add) hp d seen cur st = (st', Inr ()) \<and> iterated hp d x cur st st' called"
proof (induction cur arbitrary: st rule: less_induct)
  case (less cur)
  obtain h where h: "map_of (handlers_of hp d st) cur = Some h"
    using less.prems(2) by (metis map_of_eq_None_iff not_None_eq)
  have cur: "cur < nextId st"
    using handlers_ok_of [OF less.prems(1), of hp d] less.prems(2) by (auto simp: handlers_ok_def)
  let ?st0 = "st\<lparr>currentlyDispatchingId := Some cur, trace := trace st @ [(hp, cur, h, x)]\<rparr>"
  have wf0: "dispatcher_wf ?st0" using less.prems(1) by (simp add: dispatcher_wf_def)
  obtain st1 r where r: "run_prog disp add (call h (trace st) x) ?st0 = (st1, r)"
    by (cases "run_prog disp add (call h (trace st) x) ?st0") auto
  have run: "runs_on hp d cur ?st0 st1" "\<not> is_ub r"
    using flat_runs_on [of "call h (trace st) x", OF _ wf0, of cur hp d disp add] assms r
    by (simp_all add: flat_client_def)
  note ro = runs_onD [OF run(1), simplified]
  let ?st2 = "after_call r st1"
  have wf2: "dispatcher_wf ?st2" by (intro wf_dispatcher.I_after_call ro(11))
  have in2: "cur \<in> fst ` set (handlers_of hp d ?st2)" using ro(10) less.prems(2) by simp
  have sorted2: "sorted_wrt (>) (List.map fst (handlers_of hp d ?st2))"
    using handlers_ok_of [OF wf2, of hp d] by (simp add: handlers_ok_def)
  have loop: "dispatch_loop call (run_prog disp add) hp d seen cur st =
      (case filter (\<lambda>i. i < cur) (List.map fst (handlers_of hp d ?st2)) of
         [] \<Rightarrow> (?st2, Inr ()) | i # _ \<Rightarrow> dispatch_loop call (run_prog disp add) hp d seen i ?st2)"
    using in2 run(2) by (subst dispatch_loop.simps) (simp add: h invoke_def r Let_def shows_sameD [OF less.prems(3)])
  have same2: "shows_same seen x ?st2" using less.prems(3) by (rule shows_same_step) (use ro(4) in simp)
  show ?case
  proof (cases "filter (\<lambda>i. i < cur) (List.map fst (handlers_of hp d ?st2))")
    case Nil
    then have "k = cur" if "k \<le> cur" "k \<in> fst ` set (handlers_of hp d ?st2)" for k
      using that by (auto simp: filter_empty_conv)
    then have "iterated hp d x cur st ?st2 [(cur, h)]"
      unfolding iterated_def using wf2 ro h by auto
    then show ?thesis using loop Nil by auto
  next
    case (Cons i "is")
    have "i \<in> set (filter (\<lambda>i. i < cur) (List.map fst (handlers_of hp d ?st2)))" unfolding Cons by simp
    then have i: "i < cur" "i \<in> fst ` set (handlers_of hp d ?st2)" by simp_all
    have between: "k \<le> i" if "k < cur" "k \<in> fst ` set (handlers_of hp d ?st2)" for k
    proof -
      have "sorted_wrt (>) (i # is)" using sorted_wrt_filter [OF sorted2, of "\<lambda>i. i < cur"] Cons by simp
      moreover have "k \<in> set (i # is)" using that unfolding Cons [symmetric] by force
      ultimately show ?thesis by auto
    qed
    obtain st' called where l: "dispatch_loop call (run_prog disp add) hp d seen i ?st2 = (st', Inr ())"
      "iterated hp d x i ?st2 st' called"
      using less.IH [OF i(1) wf2 i(2) same2] by blast
    note it = iteratedD [OF l(2)]
    have "iterated hp d x cur st st' ((cur, h) # called)"
      unfolding iterated_def
    proof (intro conjI ballI allI impI)
      show "case kh of (k, h) \<Rightarrow> k \<le> cur \<and> map_of (handlers_of hp d st) k = Some h"
        if kh: "kh \<in> set ((cur, h) # called)" for kh
      proof (cases "kh = (cur, h)")
        case False
        then obtain k g where k: "kh = (k, g)" "(k, g) \<in> set called" using kh by (cases kh) auto
        then have "k \<le> i" "map_of (handlers_of hp d ?st2) k = Some g" using it(8) by simp_all
        then show ?thesis using k ro(9) [of k] i(1) cur by (force dest: map_of_SomeD)
      qed (simp add: h)
      fix k
      show "k \<in> fst ` set ((cur, h) # called)" if k: "k \<le> cur" "k \<in> fst ` set (handlers_of hp d st')"
      proof (cases "k = cur")
        case False
        then have "k < cur" using k(1) by simp
        moreover have "k < nextId ?st2" using \<open>k < cur\<close> cur ro(6) by simp
        ultimately have "k \<le> i" using between it(10) k(2) by blast
        then show ?thesis using it(9) k(2) by simp
      qed simp
      show "k \<in> fst ` set (handlers_of hp d st)"
        if "k < nextId st" "k \<in> fst ` set (handlers_of hp d st')"
        using that it(10) [of k] ro(6,8) by simp
      have "k < cur" if "(k, g) \<in> set called" for k g using it(8) [OF that] i(1) by simp
      then have "\<forall>kh \<in> set called. fst kh < cur" by auto
      then show "sorted_wrt (>) (List.map fst ((cur, h) # called))" using it(7) by simp
      obtain m where "removeIds st1 = removeIds st @ replicate m cur" using ro(7) by blast
      then show "set (removeIds st') \<subseteq> set (removeIds st) \<union> fst ` set ((cur, h) # called)"
        using it(11) by auto
    qed (use it(1-6) ro(2-6) in simp_all)
    then show ?thesis using loop Cons l(1) by auto
  qed
qed


text \<open>
  \<open>dispatchToHandlers\<close> as a whole: every handler that stays registered is called exactly once,
  by descending id, and the deferred removals are done at the end.
\<close>

definition delivered :: "handler_pool \<Rightarrow> sd_ref \<Rightarrow> dispatchable \<Rightarrow> 'h dispatcher \<Rightarrow> 'h dispatcher \<Rightarrow> 'h handlers \<Rightarrow> bool" where
  "delivered hp d x st st' called \<longleftrightarrow>
     trace st' = trace st @ List.map (\<lambda>(k, h). (hp, k, h, x)) called
     \<and> sorted_wrt (>) (List.map fst called)
     \<and> (\<forall>(k, h) \<in> set called. map_of (handlers_of hp d st) k = Some h)
     \<and> (\<forall>k \<in> fst ` set (handlers_of hp d st'). k < nextId st \<longrightarrow> k \<in> fst ` set called)"

definition quiescent :: "'h dispatcher \<Rightarrow> bool" where
  "quiescent st \<longleftrightarrow> dispatcher_wf st \<and> currentlyDispatchingId st = None \<and> removeIds st = []"

lemma fold_erase_ids [simp]: "fst ` set (fold erase_handler ks hs) = fst ` set hs - set ks"
  by (induction ks arbitrary: hs) auto

lemma dispatchToHandlers_flat:
  assumes "flat_client call" "quiescent st" "shows_same seen x st"
  shows "\<exists>st' called. dispatchToHandlers call (run_prog disp add) hp d seen st = (st', Inr ())
    \<and> quiescent st' \<and> (containerPool st' = containerPool st \<and> changes st' = changes st) \<and> nextId st \<le> nextId st'
    \<and> delivered hp d x st st' called"
proof (cases "handlers_of hp d st")
  case Nil
  have "dispatcher_wf (put_handlers hp d [] (st\<lparr>removeIds := []\<rparr>))"
    using assms(2) by (intro dispatcher_wf_put wf_dispatcher.I_bookkeeping) (simp_all add: quiescent_def)
  then show ?thesis
    using Nil assms(2)
    by (intro exI [of _ "put_handlers hp d [] (st\<lparr>removeIds := []\<rparr>)"] exI [of _ "[]"])
      (simp add: dispatchToHandlers_def quiescent_def delivered_def)
next
  case (Cons kh hs)
  obtain k h where kh: "kh = (k, h)" by (cases kh)
  have wf: "dispatcher_wf st" "removeIds st = []" using assms(2) by (simp_all add: quiescent_def)
  obtain st1 called where l: "dispatch_loop call (run_prog disp add) hp d seen k st = (st1, Inr ())"
    "iterated hp d x k st st1 called"
    using dispatch_loop_flat [OF assms(1) wf(1) _ assms(3), of k hp d disp add] Cons kh by force
  note it = iteratedD [OF l(2)]
  have top: "i \<le> k" if "i \<in> fst ` set (handlers_of hp d st)" for i
    using handlers_ok_of [OF wf(1), of hp d] that by (auto simp: Cons kh handlers_ok_def)
  let ?st2 = "put_handlers hp d (fold erase_handler (removeIds st1) (handlers_of hp d st1)) (st1\<lparr>removeIds := []\<rparr>)"
  have "dispatcher_wf (put_handlers hp d (fold erase_handler (removeIds st1) (handlers_of hp d (st1\<lparr>removeIds := []\<rparr>)))
      (st1\<lparr>removeIds := []\<rparr>))"
    using it(1) by (intro wf_dispatcher.I_erase wf_dispatcher.I_bookkeeping)
  then have q: "quiescent ?st2" using it(2) by (simp add: quiescent_def)
  have "i \<in> fst ` set called" if "i \<in> fst ` set (handlers_of hp d ?st2)" "i < nextId st" for i
    using that it(9) [of i] it(10) [of i] top by auto
  then have "delivered hp d x st ?st2 called"
    using it(6,7,8) by (auto simp: delivered_def)
  then show ?thesis
    using q it(3,5) l(1) Cons kh by (intro exI conjI) (auto simp: dispatchToHandlers_def)
qed

lemma with_container_eq:
  assumes "pool_wf (containerPool st)"
    and "c = (case pool_find d (containerPool st) of None \<Rightarrow> container_new (sd_of d) | Some c \<Rightarrow> c)"
    and "f c = (c', r)"
  obtains q where "with_container d f st = (st\<lparr>containerPool := q\<rparr>, r)" "pool_find d q = Some c'"
    "\<And>e. sd_addr e \<noteq> sd_addr d \<Longrightarrow> pool_find e q = pool_find e (containerPool st)"
proof -
  obtain q0 where q0: "pool_get d True (containerPool st) = (q0, Inr c)"
    using assms(2) by (auto simp: pool_get_def split: option.splits)
  have "pool_find d q0 = Some c" using pool_get_find [OF q0] .
  moreover have "pool_find e q0 = pool_find e (containerPool st)" if "sd_addr e \<noteq> sd_addr d" for e
    using pool_find_get(2) [OF that, of True "containerPool st"] q0 by simp
  ultimately show ?thesis
    using that [of "pool_put d c' q0"] q0 assms(3) by (simp add: with_container_def pool_find_put)
qed


lemma change_container_eq:
  assumes "pool_wf (containerPool st)"
    and "c = (case pool_find d (containerPool st) of None \<Rightarrow> container_new (sd_of d) | Some c \<Rightarrow> c)"
    and "f c = (c', r)"
  obtains q where "with_container d f st = (st\<lparr>containerPool := q\<rparr>, r)"
    "change_container d a b f st = (st\<lparr>containerPool := q, changes := changes st @ [(sd_addr d, a, b \<or> isl r)]\<rparr>, r)"
    "pool_find d q = Some c'" "\<And>e. sd_addr e \<noteq> sd_addr d \<Longrightarrow> pool_find e q = pool_find e (containerPool st)"
proof -
  obtain q where q: "with_container d f st = (st\<lparr>containerPool := q\<rparr>, r)" "pool_find d q = Some c'"
    "\<And>e. sd_addr e \<noteq> sd_addr d \<Longrightarrow> pool_find e q = pool_find e (containerPool st)"
    by (rule with_container_eq [OF assms(1,2), where f = f, OF assms(3)]) blast
  show ?thesis by (rule that [OF q(1) _ q(2,3)]) (simp_all add: change_container_def q(1))
qed

text \<open>A whole dispatch of a cached type.\<close>

lemma dispatchTransmission_flat:
  assumes "flat_client call" "quiescent st"
  shows "\<exists>st' called. dispatchTransmission call (run_prog disp add) t st = (st', Inr ())
    \<and> quiescent st' \<and> (containerPool st' = containerPool st \<and> changes st' = changes st) \<and> nextId st \<le> nextId st'
    \<and> delivered Transmission_Pool (tr_type t) (Trans t) st st' called"
proof (cases "handlerPool st Transmission_Pool (sd_addr (tr_type t))")
  case None
  then have "handlers_of Transmission_Pool (tr_type t) st = []" by (simp add: handlers_of_def)
  then show ?thesis
    using None assms(2) by (intro exI [of _ st] exI [of _ "[]"]) (simp add: dispatchTransmission_def delivered_def)
next
  case (Some hs)
  then show ?thesis using dispatchToHandlers_flat [OF assms, of "\<lambda>_. Inr (Trans t)" "Trans t" disp add] by (simp add: dispatchTransmission_def)
qed

lemma quiescent_put:
  "quiescent st \<Longrightarrow> quiescent (put_handlers hp d (handlers_of hp d st) st)"
  by (simp add: quiescent_def dispatcher_wf_put handlers_ok_of)

text \<open>The event handlers of a type after the transmission handlers have run.\<close>

definition current_container :: "sd_ref \<Rightarrow> 'h dispatcher \<Rightarrow> container" where
  "current_container d st =
     (case pool_find d (containerPool st) of None \<Rightarrow> container_new (sd_of d) | Some c \<Rightarrow> c)"

text \<open>
  What a transmission of a cached type does to the container of the type: the container afterwards, and the
  event that results, if any.
\<close>

definition cached_outcome :: "64 word \<Rightarrow> transmission \<Rightarrow> container \<Rightarrow> container \<times> event option result" where
  "cached_outcome now t c =
     (let h = tr_header t; a = tr_instance t;
          happened = (\<lambda>u info. bindE (event_new h a u info None) (\<lambda>ev. Inr (Some ev)))
      in if hd_removeObj h = Some True then
           (case container_remove now h a c of
              (c', r) \<Rightarrow> (c', bindE r (\<lambda>removed. case removed of None \<Rightarrow> Inr None | Some (u, info) \<Rightarrow> happened u info)))
         else
           (case container_insert now h a c of (c', r) \<Rightarrow> (c', bindE r (\<lambda>(u, info). happened u info))))"

lemma dispatchEvent_cached:
  assumes "quiescent st" "cached (sd_of (tr_type t))" "cached_outcome now t (current_container (tr_type t) st) = (c', r)"
  obtains st3 seen where
    "dispatchEvent now call run t st =
       (case r of Inl e \<Rightarrow> (st3, Inl e) | Inr None \<Rightarrow> (st3, Inr ())
        | Inr (Some ev) \<Rightarrow> dispatchToHandlers call run Event_Pool (tr_type t) (seen ev) st3)"
    "\<And>ev. shows_same (seen ev) (Ev ev) st3" "quiescent st3" "trace st3 = trace st" "nextId st3 = nextId st"
    "handlers_of Event_Pool (tr_type t) st3 = handlers_of Event_Pool (tr_type t) st"
    "pool_find (tr_type t) (containerPool st3) = Some c'"
    "\<And>e. sd_addr e \<noteq> sd_addr (tr_type t) \<Longrightarrow> pool_find e (containerPool st3) = pool_find e (containerPool st)"
proof -
  let ?d = "tr_type t" and ?h = "tr_header t" and ?a = "tr_instance t"
  define st2 where "st2 = put_handlers Event_Pool ?d (handlers_of Event_Pool ?d st) st"
  have st2: "quiescent st2" "containerPool st2 = containerPool st" "pool_wf (containerPool st2)" "trace st2 = trace st"
    "handlers_of Event_Pool ?d st2 = handlers_of Event_Pool ?d st" "nextId st2 = nextId st"
    using quiescent_put [OF assms(1), of Event_Pool ?d] by (simp_all add: st2_def quiescent_def dispatcher_wf_def)
  have c: "current_container ?d st = (case pool_find ?d (containerPool st2) of None \<Rightarrow> container_new (sd_of ?d) | Some c \<Rightarrow> c)"
    by (simp add: current_container_def st2(2))
  show ?thesis
  proof (cases "hd_removeObj ?h = Some True")
    case True
    obtain r0 where r0: "container_remove now ?h ?a (current_container ?d st) = (c', r0)"
      "r = bindE r0 (\<lambda>removed. case removed of None \<Rightarrow> Inr None
         | Some (u, info) \<Rightarrow> bindE (event_new ?h ?a u info None) (\<lambda>ev. Inr (Some ev)))"
      using assms(3) True by (auto simp: cached_outcome_def Let_def split: prod.splits)
    obtain q where q: "with_container ?d (container_remove now ?h ?a) st2 = (st2\<lparr>containerPool := q\<rparr>, r0)"
      "change_container ?d ?a True (container_remove now ?h ?a) st2 =
         (st2\<lparr>containerPool := q, changes := changes st2 @ [(sd_addr ?d, ?a, True \<or> isl r0)]\<rparr>, r0)"
      "pool_find ?d q = Some c'" "\<And>e. sd_addr e \<noteq> sd_addr ?d \<Longrightarrow> pool_find e q = pool_find e (containerPool st2)"
      by (rule change_container_eq [OF st2(3) c, where f = "container_remove now ?h ?a", OF r0(1), where a = ?a and b = True]) blast
    let ?st3 = "st2\<lparr>containerPool := q, changes := changes st2 @ [(sd_addr ?d, ?a, True \<or> isl r0)]\<rparr>"
    have "dispatcher_wf (st2\<lparr>containerPool := q\<rparr>)"
      using wf_dispatcher.I_remove [of st2 ?d now ?h ?a] st2(1) q(1) by (simp add: quiescent_def)
    from wf_dispatcher.I_bookkeeping(5) [OF this] have quiet: "quiescent ?st3" using st2(1) by (simp add: quiescent_def)
    have run: "dispatchEvent now call run t st = (case r of Inl e \<Rightarrow> (?st3, Inl e) | Inr None \<Rightarrow> (?st3, Inr ())
        | Inr (Some ev) \<Rightarrow> dispatchToHandlers call run Event_Pool ?d (\<lambda>_. Inr (Ev ev)) ?st3)"
      using assms(2) True q(2) r0(2)
      by (cases r0) (auto simp: dispatchEvent_def Let_def dispatch_event_of_def bindE_def split: option.split sum.split simp flip: st2_def)
    show ?thesis by (rule that [OF run _ quiet]) (use st2 q(3,4) in simp_all)
  next
    case False
    obtain r0 where r0: "container_insert now ?h ?a (current_container ?d st) = (c', r0)"
      "r = bindE r0 (\<lambda>(u, info). bindE (event_new ?h ?a u info None) (\<lambda>ev. Inr (Some ev)))"
      using assms(3) False by (auto simp: cached_outcome_def Let_def split: prod.splits)
    obtain q where q: "with_container ?d (container_insert now ?h ?a) st2 = (st2\<lparr>containerPool := q\<rparr>, r0)"
      "change_container ?d ?a False (container_insert now ?h ?a) st2 =
         (st2\<lparr>containerPool := q, changes := changes st2 @ [(sd_addr ?d, ?a, False \<or> isl r0)]\<rparr>, r0)"
      "pool_find ?d q = Some c'" "\<And>e. sd_addr e \<noteq> sd_addr ?d \<Longrightarrow> pool_find e q = pool_find e (containerPool st2)"
      by (rule change_container_eq [OF st2(3) c, where f = "container_insert now ?h ?a", OF r0(1), where a = ?a and b = False]) blast
    define st3 where "st3 = st2\<lparr>containerPool := q, changes := changes st2 @ [(sd_addr ?d, ?a, False \<or> isl r0)]\<rparr>"
    have "dispatcher_wf (st2\<lparr>containerPool := q\<rparr>)"
      using wf_dispatcher.I_insert [of st2 ?d now ?h ?a] st2(1) q(1) by (simp add: quiescent_def)
    from wf_dispatcher.I_bookkeeping(5) [OF this] have quiet: "quiescent st3" using st2(1) by (simp add: quiescent_def st3_def)
    have run: "dispatchEvent now call run t st = (case r of Inl e \<Rightarrow> (st3, Inl e) | Inr None \<Rightarrow> (st3, Inr ())
        | Inr (Some ev) \<Rightarrow> dispatchToHandlers call run Event_Pool ?d (live_event ?d (length (changes st3)) ev) st3)"
      using assms(2) False q(2) [folded st3_def] r0(2)
      by (cases r0) (auto simp: dispatchEvent_def Let_def dispatch_event_of_def bindE_def split: sum.split simp flip: st2_def)
    have same: "shows_same (live_event ?d (length (changes st3)) ev) (Ev ev) st3" for ev by simp
    show ?thesis by (rule that [OF run same quiet]) (use st2 q(3,4) in \<open>simp_all add: st3_def\<close>)
  qed
qed


text \<open>C20: As long as the run is not undefined, dispatching and subscribing keep the state of the
  dispatcher consistent, whatever handlers do - add and remove handlers, raise, dispatch
  further transmissions while handler maps and containers are iterated: ids are fresh, handler
  maps ordered and free of duplicates, and every container is filed under its type.\<close>

theorem dispatcher_stays_wf:
  assumes "dispatcher_wf st"
  shows "(\<not> is_ub (snd (dispatch now call n t st)) \<longrightarrow> dispatcher_wf (fst (dispatch now call n t st)))
    \<and> (\<not> is_ub (snd (addEventHandler now call n d h st)) \<longrightarrow> dispatcher_wf (fst (addEventHandler now call n d h st)))"
  using keepsD [OF wf_dispatcher.keeps_all(1) assms] keepsD [OF wf_dispatcher.keeps_all(2) assms] by simp

section \<open>Replay of the cache\<close>

definition replay_call :: "sd_ref \<Rightarrow> nat \<Rightarrow> 'h \<Rightarrow> nat \<Rightarrow> clone \<Rightarrow> handler_pool \<times> nat \<times> 'h \<times> dispatchable" where
  "replay_call d k h left cl =
     (Event_Pool, k, h, Ev \<lparr>ev_header = replay_header d (fst cl) (of_nat left), ev_transmitted = fst cl,
        ev_updated = fst cl, ev_cloneInfo = snd cl, ev_mt = Mt_create\<rparr>)"

text \<open>The calls of the replay of all clones, and what the handler answers to the \<open>i\<close>-th.\<close>

fun replay_calls :: "sd_ref \<Rightarrow> nat \<Rightarrow> 'h \<Rightarrow> clone list \<Rightarrow> 'h trace" where
  "replay_calls d k h [] = []"
| "replay_calls d k h (c # cs) = replay_call d k h (length cs) c # replay_calls d k h cs"

definition replay_answer :: "'h client \<Rightarrow> 'h \<Rightarrow> 'h trace \<Rightarrow> 'h trace \<Rightarrow> nat \<Rightarrow> 'h prog" where
  "replay_answer call h tr calls i = (case calls ! i of (hp, k, g, x) \<Rightarrow> call h (tr @ take i calls) x)"

lemma length_replay_calls [simp]: "length (replay_calls d k h cs) = length cs"
  by (induction cs) simp_all

lemma replay_answer_Suc: "replay_answer call h tr (c # calls) (Suc i) = replay_answer call h (tr @ [c]) calls i"
  by (simp add: replay_answer_def)

text \<open>A handler that only returns or raises.\<close>

definition returns_or_raises :: "'h client \<Rightarrow> 'h \<Rightarrow> bool" where
  "returns_or_raises call h \<longleftrightarrow> (\<forall>tr x. call h tr x = Finish \<or> (\<exists>e. call h tr x = Raise e))"

definition replay_ends :: "'h client \<Rightarrow> 'h \<Rightarrow> 'h trace \<Rightarrow> 'h trace \<Rightarrow> 'h trace \<Rightarrow> unit result \<Rightarrow> bool" where
  "replay_ends call h tr calls tr' r \<longleftrightarrow>
     (r = Inr () \<and> tr' = tr @ calls \<and> (\<forall>i < length calls. replay_answer call h tr calls i = Finish))
     \<or> (\<exists>i < length calls. \<exists>e. r = Inl e \<and> tr' = tr @ take (Suc i) calls
          \<and> (\<forall>j < i. replay_answer call h tr calls j = Finish) \<and> replay_answer call h tr calls i = Raise e)"

lemma replay_ends_Cons:
  assumes "replay_answer call h tr (c # calls) 0 = Finish" "replay_ends call h (tr @ [c]) calls tr' r"
  shows "replay_ends call h tr (c # calls) tr' r"
  using assms(2) unfolding replay_ends_def
proof (elim disjE exE conjE)
  assume "r = Inr ()" "tr' = (tr @ [c]) @ calls" "\<forall>i<length calls. replay_answer call h (tr @ [c]) calls i = Finish"
  then show "r = Inr () \<and> tr' = tr @ c # calls \<and> (\<forall>i<length (c # calls). replay_answer call h tr (c # calls) i = Finish)
    \<or> (\<exists>i<length (c # calls). \<exists>e. r = Inl e \<and> tr' = tr @ take (Suc i) (c # calls)
        \<and> (\<forall>j<i. replay_answer call h tr (c # calls) j = Finish) \<and> replay_answer call h tr (c # calls) i = Raise e)"
    using assms(1) by (auto simp: less_Suc_eq_0_disj replay_answer_Suc)
next
  fix i e
  assume i: "i < length calls" "r = Inl e" "tr' = (tr @ [c]) @ take (Suc i) calls"
    "\<forall>j<i. replay_answer call h (tr @ [c]) calls j = Finish" "replay_answer call h (tr @ [c]) calls i = Raise e"
  then show "r = Inr () \<and> tr' = tr @ c # calls \<and> (\<forall>i<length (c # calls). replay_answer call h tr (c # calls) i = Finish)
    \<or> (\<exists>i<length (c # calls). \<exists>e. r = Inl e \<and> tr' = tr @ take (Suc i) (c # calls)
        \<and> (\<forall>j<i. replay_answer call h tr (c # calls) j = Finish) \<and> replay_answer call h tr (c # calls) i = Raise e)"
    using assms(1) by (intro disjI2 exI [of _ "Suc i"]) (auto simp: less_Suc_eq_0_disj replay_answer_Suc)
qed

lemma replay_returns_or_raises:
  assumes "returns_or_raises call h"
  shows "k \<in> fst ` set (handlers_of Event_Pool d st) \<Longrightarrow> length cs \<le> rounds \<Longrightarrow>
    \<exists>tr' r. replay call (run_prog disp add) d k h rounds (of_nat (length cs)) cs st = (st\<lparr>trace := tr'\<rparr>, r)
      \<and> replay_ends call h (trace st) (replay_calls d k h cs) tr' r"
proof (induction cs arbitrary: st rounds)
  case Nil
  then show ?case by (cases rounds) (auto simp: replay_ends_def intro!: exI [of _ "trace st"])
next
  case (Cons c cs)
  obtain a info where c: "c = (a, info)" by (cases c)
  obtain n where n: "rounds = Suc n" using Cons.prems(2) by (cases rounds) auto
  let ?x = "Ev \<lparr>ev_header = replay_header d a (of_nat (length cs)), ev_transmitted = a,
        ev_updated = a, ev_cloneInfo = info, ev_mt = Mt_create\<rparr>"
  let ?st1 = "st\<lparr>trace := trace st @ [(Event_Pool, k, h, ?x)]\<rparr>"
  have x: "replay_call d k h (length cs) c = (Event_Pool, k, h, ?x)" by (simp add: replay_call_def c)
  have answer: "replay_answer call h (trace st) (replay_calls d k h (c # cs)) 0 = call h (trace st) ?x"
    by (simp add: replay_answer_def x)
  show ?case
  proof (cases "call h (trace st) ?x = Finish")
    case True
    obtain tr' r where ih: "replay call (run_prog disp add) d k h n (of_nat (length cs)) cs ?st1 = (?st1\<lparr>trace := tr'\<rparr>, r)"
      "replay_ends call h (trace ?st1) (replay_calls d k h cs) tr' r"
      using Cons.IH [of ?st1 n] Cons.prems n by auto
    have "replay call (run_prog disp add) d k h rounds (of_nat (length (c # cs))) (c # cs) st = (st\<lparr>trace := tr'\<rparr>, r)"
      using ih(1) True Cons.prems(1) by (simp add: n c event_new_def invoke_def changes_since_def)
    moreover have "replay_ends call h (trace st) (replay_calls d k h (c # cs)) tr' r"
      using replay_ends_Cons [of call h "trace st" "replay_call d k h (length cs) c"] ih(2) answer True by (simp add: x)
    ultimately show ?thesis by blast
  next
    case False
    then obtain e where e: "call h (trace st) ?x = Raise e" using assms unfolding returns_or_raises_def by blast
    have "replay call (run_prog disp add) d k h rounds (of_nat (length (c # cs))) (c # cs) st = (?st1, Inl e)"
      using e by (simp add: n c event_new_def invoke_def)
    moreover have "replay_ends call h (trace st) (replay_calls d k h (c # cs)) (trace ?st1) (Inl e)"
      using answer e by (auto simp: replay_ends_def x)
    ultimately show ?thesis by (intro exI [of _ "trace ?st1"] exI [of _ "Inl e"]) simp
  qed
qed

text \<open>C21: Adding an event handler, while no dispatch is under way, enters it under a fresh id and
  calls it with a create event for each cached instance in key order, with a countdown of the
  instances that are left. This is for a handler that each time just returns or raises: the
  replay goes on as long as it returns, and stops at the first exception, which the caller
  gets while the handler stays entered.\<close>

theorem addEventHandler_replays:
  assumes "quiescent st" "\<not> clearingHandlers st" "returns_or_raises call h"
  shows "\<exists>st' r. addEventHandler now call (Suc n) d h st = (st', bindE r (\<lambda>_. Inr (nextId st)))
    \<and> quiescent st' \<and> handlers_of Event_Pool d st' = (nextId st, h) # handlers_of Event_Pool d st
    \<and> replay_ends call h (trace st) (replay_calls d (nextId st) h (m_instances (current_container d st))) (trace st') r"
proof -
  let ?k = "nextId st" and ?run = "run_prog (dispatch now call n) (addEventHandler now call n)"
  define st1 where "st1 = put_handlers Event_Pool d (emplace_handler ?k h (handlers_of Event_Pool d (st\<lparr>nextId := Suc ?k\<rparr>)))
      (st\<lparr>nextId := Suc ?k\<rparr>)"
  have st1_eq: "st1 = put_handlers Event_Pool d (emplace_handler ?k h (handlers_of Event_Pool d st)) (st\<lparr>nextId := Suc ?k\<rparr>)"
    by (simp add: st1_def)
  have wf: "dispatcher_wf st" using assms(1) by (simp add: quiescent_def)
  have new: "emplace_handler ?k h (handlers_of Event_Pool d st) = (?k, h) # handlers_of Event_Pool d st"
    using handlers_ok_of [OF wf, of Event_Pool d] by (intro emplace_newest) (simp add: handlers_ok_def)
  have st1: "dispatcher_wf st1" "quiescent st1" "containerPool st1 = containerPool st"
    using wf_dispatcher.I_emplace [OF wf refl refl, of Event_Pool d h] assms(1)
    by (simp_all add: st1_def quiescent_def)
  let ?c = "current_container d st"
  have p: "pool_wf (containerPool st1)" using st1(1) by (simp add: dispatcher_wf_def)
  have c: "?c = (case pool_find d (containerPool st1) of None \<Rightarrow> container_new (sd_of d) | Some c \<Rightarrow> c)"
    by (simp add: current_container_def st1(3))
  obtain q where q: "with_container d (\<lambda>c. (c, Inr c)) st1 = (st1\<lparr>containerPool := q\<rparr>, Inr ?c)"
    by (rule with_container_eq [of st1 ?c d "\<lambda>c. (c, Inr c)", OF p c]) simp_all
  let ?st2 = "st1\<lparr>containerPool := q\<rparr>"
  let ?cs = "m_instances ?c"
  have st2: "dispatcher_wf ?st2" "trace ?st2 = trace st" using wf_dispatcher.I_get [OF st1(1), of d] q by (simp_all add: st1_def)
  have mem: "?k \<in> fst ` set (handlers_of Event_Pool d ?st2)" by (simp add: st1_def new)
  obtain tr' r where r: "replay call ?run d ?k h (length ?cs + n) (of_nat (length ?cs)) ?cs ?st2 = (?st2\<lparr>trace := tr'\<rparr>, r)"
    "replay_ends call h (trace st) (replay_calls d ?k h ?cs) tr' r"
    using replay_returns_or_raises [OF assms(3) mem le_add1 [of "length ?cs" n], of "dispatch now call n" "addEventHandler now call n"]
    unfolding st2(2) by blast
  have "addEventHandler now call (Suc n) d h st = (?st2\<lparr>trace := tr'\<rparr>, bindE r (\<lambda>_. Inr ?k))"
    using assms(2) q r(1) by (cases r) (simp_all add: addEventHandler_with_def Let_def flip: st1_eq)
  moreover have "quiescent (?st2\<lparr>trace := tr'\<rparr>)"
    using st1(2) wf_dispatcher.I_bookkeeping(3) [OF st2(1)] by (simp add: quiescent_def)
  moreover have "handlers_of Event_Pool d (?st2\<lparr>trace := tr'\<rparr>) = (?k, h) # handlers_of Event_Pool d st"
    by (simp add: st1_def new)
  ultimately show ?thesis using r(2) by (intro exI [of _ "?st2\<lparr>trace := tr'\<rparr>"] exI [of _ r]) simp
qed

section \<open>Nested dispatches\<close>

definition plain_header :: dots_header where
  "plain_header = \<lparr>hd_typeName = None, hd_sentTime = None, hd_serverSentTime = None, hd_attributes = None,
     hd_sender = None, hd_fromCache = None, hd_removeObj = None, hd_isFromMyself = None\<rparr>"

lemma dispatch_single:
  assumes "handlers_of hp d st = [(k, h)]"
    and "invoke call run hp k h x (st\<lparr>currentlyDispatchingId := Some k\<rparr>) = (st1, r)" "\<not> is_ub r"
  shows "handlers_of hp d st1 = [(k, h)] \<Longrightarrow> dispatchToHandlers call run hp d (\<lambda>_. Inr x) st =
      (put_handlers hp d (fold erase_handler (removeIds st1) [(k, h)]) ((after_call r st1)\<lparr>removeIds := []\<rparr>), Inr ())"
    and "handlers_of hp d st1 = [] \<Longrightarrow> is_ub (snd (dispatchToHandlers call run hp d (\<lambda>_. Inr x) st))"
  using assms by (simp_all add: dispatchToHandlers_def dispatch_loop.simps Let_def)

lemma dispatch_uncached:
  assumes "\<not> cached (sd_of d)" "handlerPool st Transmission_Pool (sd_addr d) = None"
  shows "dispatch now call (Suc n) \<lparr>tr_header = plain_header, tr_type = d, tr_instance = a\<rparr> st =
    dispatchToHandlers call (run_prog (dispatch now call n) (addEventHandler now call n)) Event_Pool d
      (\<lambda>_. Inr (Ev \<lparr>ev_header = plain_header, ev_transmitted = a, ev_updated = a,
           ev_cloneInfo = \<lparr>lastOperation = Some Mt_create, lastUpdateFrom = None, created = None, createdFrom = None,
              modified = None, localUpdateTime = Some now\<rparr>, ev_mt = Mt_create\<rparr>))
      (put_handlers Event_Pool d (handlers_of Event_Pool d st) st)"
  using assms by (simp add: dispatchTransmission_def dispatchEvent_def event_new_def dispatch_event_of_def plain_header_def
      Let_def)


declare dispatch.simps(2) [simp del]

text \<open>
  A dispatch of an uncached type with one handler that just returns: it takes the deferred
  removals of the caller with it, and forgets which handler was being called.
\<close>

lemma nested_dispatch:
  assumes "\<not> cached (sd_of d)" "handlerPool st Transmission_Pool (sd_addr d) = None"
    and "handlers_of Event_Pool d st = [(k, h)]" "\<And>tr x. call h tr x = Finish" "k \<notin> set (removeIds st)"
  shows "\<exists>st'. dispatch now call (Suc n) \<lparr>tr_header = plain_header, tr_type = d, tr_instance = a\<rparr> st = (st', Inr ())
    \<and> removeIds st' = [] \<and> currentlyDispatchingId st' = None \<and> errors st' = errors st
    \<and> clearingHandlers st' = clearingHandlers st
    \<and> (\<forall>e. sd_addr e \<noteq> sd_addr d \<longrightarrow> handlers_of Event_Pool e st' = handlers_of Event_Pool e st)"
proof -
  have "fold erase_handler ks [(k, h)] = [(k, h)]" if "k \<notin> set ks" for ks
    using that by (induction ks) (simp_all add: erase_handler_def)
  moreover define x where "x = Ev \<lparr>ev_header = plain_header, ev_transmitted = a, ev_updated = a,
           ev_cloneInfo = \<lparr>lastOperation = Some Mt_create, lastUpdateFrom = None, created = None, createdFrom = None,
              modified = None, localUpdateTime = Some now\<rparr>, ev_mt = Mt_create\<rparr>"
  define run where "run = run_prog (dispatch now call n) (addEventHandler now call n)"
  define st0 where "st0 = put_handlers Event_Pool d [(k, h)] st"
  define st1 where "st1 = st0\<lparr>currentlyDispatchingId := Some k, trace := trace st0 @ [(Event_Pool, k, h, x)]\<rparr>"
  have "invoke call run Event_Pool k h x (st0\<lparr>currentlyDispatchingId := Some k\<rparr>) = (st1, Inr ())"
    using assms(4) by (simp add: invoke_def run_def st1_def)
  then have "dispatchToHandlers call run Event_Pool d (\<lambda>_. Inr x) st0 =
      (put_handlers Event_Pool d (fold erase_handler (removeIds st1) [(k, h)])
         ((after_call (Inr ()) st1)\<lparr>removeIds := []\<rparr>), Inr ())"
    by (intro dispatch_single(1)) (simp_all add: st0_def st1_def)
  ultimately show ?thesis
    unfolding dispatch_uncached [OF assms(1,2)] assms(3) x_def [symmetric] run_def [symmetric] st0_def [symmetric]
    using assms(5) by (simp add: st1_def after_call_def) (simp add: st0_def)
qed

text \<open>A handler that asks for its own removal and then dispatches to another type stays
  registered, and one that dispatches first and then asks for its removal is erased while it
  is iterated.\<close>

theorem nested_dispatch_loses_removal:
  fixes a b :: area and now :: "64 word"
  defines "d \<equiv> SdRef 1 (StructDescriptor ''D'' 0 [])" and "e \<equiv> SdRef 2 (StructDescriptor ''E'' 0 [])"
  defines "td \<equiv> \<lparr>tr_header = plain_header, tr_type = d, tr_instance = a\<rparr>"
    and "te \<equiv> \<lparr>tr_header = plain_header, tr_type = e, tr_instance = b\<rparr>"
    and "st \<equiv> put_handlers Event_Pool e [(1, 1)] (put_handlers Event_Pool d [(0, 0)] (dispatcher_new\<lparr>nextId := 2\<rparr>))"
  shows "(let client = (\<lambda>h _ _. if h = 0 then RemoveEventHandler d 0 (Dispatch te Finish) else Finish);
              (st', r) = dispatch now client 2 td st
          in r = Inr () \<and> errors st' = [] \<and> removeIds st' = [] \<and> handlers_of Event_Pool d st' = [(0, 0 :: nat)])
    \<and> is_ub (snd (dispatch now (\<lambda>h _ _. if h = 0 then Dispatch te (RemoveEventHandler d 0 Finish) else Finish) 2 td st))"
proof
  have u: "\<not> cached (sd_of d)" "\<not> cached (sd_of e)" by (simp_all add: d_def e_def cached_def)
  have st: "handlers_of Event_Pool d st = [(0, 0)]" "handlers_of Event_Pool e st = [(1, 1)]"
    "handlerPool st Transmission_Pool a = None" "removeIds st = []" "errors st = []" "\<not> clearingHandlers st" for a
    by (simp_all add: st_def d_def e_def) (simp_all add: put_handlers_def dispatcher_new_def)
  define st0 where "st0 = put_handlers Event_Pool d [(0, 0 :: nat)] st"
  have addr: "sd_addr d \<noteq> sd_addr e" by (simp add: d_def e_def)
  have st0: "handlers_of Event_Pool d st0 = [(0, 0)]" "handlers_of Event_Pool e st0 = [(1, 1)]" "removeIds st0 = []"
    "handlerPool st0 Transmission_Pool a = None" "errors st0 = []" "\<not> clearingHandlers st0" for a
    using addr st by (simp_all add: st0_def) (simp add: put_handlers_def st(3))
  have outer: "\<exists>x. dispatch now call 2 td st = dispatchToHandlers call
      (run_prog (dispatch now call 1) (addEventHandler now call 1)) Event_Pool d (\<lambda>_. Inr x) st0" for call
    unfolding td_def numeral_2_eq_2 using dispatch_uncached [OF u(1) st(3), of now call 1 a]
    by (auto simp: st(1) st0_def)
  have inner: "\<exists>st'. dispatch now call 1 te st2 = (st', Inr ()) \<and> removeIds st' = [] \<and> currentlyDispatchingId st' = None
      \<and> errors st' = [] \<and> \<not> clearingHandlers st' \<and> handlers_of Event_Pool d st' = [(0, 0)]"
    if pre: "call 1 = (\<lambda>tr x. Finish)" "handlers_of Event_Pool d st2 = [(0, 0)]" "handlers_of Event_Pool e st2 = [(1, 1)]"
      "handlerPool st2 Transmission_Pool (sd_addr e) = None" "set (removeIds st2) \<subseteq> {0}" "errors st2 = []"
      "\<not> clearingHandlers st2" for call and st2 :: "nat dispatcher"
  proof -
    have "1 \<notin> set (removeIds st2)" using pre(5) by auto
    then obtain st' where "dispatch now call (Suc 0) te st2 = (st', Inr ())" "removeIds st' = []"
      "currentlyDispatchingId st' = None" "errors st' = errors st2" "clearingHandlers st' = clearingHandlers st2"
      "handlers_of Event_Pool d st' = handlers_of Event_Pool d st2"
      using nested_dispatch [OF u(2) pre(4,3), of call now 0 b] pre(1) addr unfolding te_def by metis
    then show ?thesis using pre(2,6,7) by (intro exI [of _ st']) (simp del: dispatch.simps)
  qed
  show "let client = (\<lambda>h _ _. if h = 0 then RemoveEventHandler d 0 (Dispatch te Finish) else Finish);
              (st', r) = dispatch now client 2 td st
          in r = Inr () \<and> errors st' = [] \<and> removeIds st' = [] \<and> handlers_of Event_Pool d st' = [(0, 0 :: nat)]"
  proof -
    define call :: "nat client" where "call = (\<lambda>h _ _. if h = 0 then RemoveEventHandler d 0 (Dispatch te Finish) else Finish)"
    obtain x where x: "dispatch now call 2 td st = dispatchToHandlers call
      (run_prog (dispatch now call 1) (addEventHandler now call 1)) Event_Pool d (\<lambda>_. Inr x) st0" using outer by blast
    let ?st2 = "st0\<lparr>currentlyDispatchingId := Some 0, trace := trace st0 @ [(Event_Pool, 0, 0, x)], removeIds := [0]\<rparr>"
    obtain st3 where st3: "dispatch now call 1 te ?st2 = (st3, Inr ())" "removeIds st3 = []"
      "errors st3 = []" "handlers_of Event_Pool d st3 = [(0, 0)]"
      using inner [of call ?st2] st0 by (auto simp: call_def)
    have "invoke call (run_prog (dispatch now call 1) (addEventHandler now call 1)) Event_Pool 0 0 x
        (st0\<lparr>currentlyDispatchingId := Some 0\<rparr>) = (st3, Inr ())"
      using st3(1) st0 by (simp add: invoke_def call_def removeHandler_def flip: One_nat_def)
    from dispatch_single(1) [OF st0(1) this _ st3(4)] show ?thesis
      using st3(2,3) by (simp add: x after_call_def flip: call_def)
  qed
  show "is_ub (snd (dispatch now (\<lambda>h _ _. if h = 0 then Dispatch te (RemoveEventHandler d 0 Finish) else Finish) 2 td st))"
  proof -
    define call :: "nat client" where "call = (\<lambda>h _ _. if h = 0 then Dispatch te (RemoveEventHandler d 0 Finish) else Finish)"
    obtain x where x: "dispatch now call 2 td st = dispatchToHandlers call
      (run_prog (dispatch now call 1) (addEventHandler now call 1)) Event_Pool d (\<lambda>_. Inr x) st0" using outer by blast
    let ?st2 = "st0\<lparr>currentlyDispatchingId := Some 0, trace := trace st0 @ [(Event_Pool, 0, 0, x)]\<rparr>"
    obtain st3 where st3: "dispatch now call 1 te ?st2 = (st3, Inr ())" "currentlyDispatchingId st3 = None"
      "\<not> clearingHandlers st3" "handlers_of Event_Pool d st3 = [(0, 0)]"
      using inner [of call ?st2] st0 by (auto simp: call_def)
    have "invoke call (run_prog (dispatch now call 1) (addEventHandler now call 1)) Event_Pool 0 0 x
        (st0\<lparr>currentlyDispatchingId := Some 0\<rparr>) = (put_handlers Event_Pool d [] st3, Inr ())"
      using st3 by (simp add: invoke_def call_def removeHandler_def erase_handler_def flip: One_nat_def)
    from dispatch_single(2) [OF st0(1) this] show ?thesis by (simp add: x flip: call_def)
  qed
qed

section \<open>Examples\<close>

definition example_dispatcher :: "nat dispatcher" where
  "example_dispatcher = fst (addTransmissionHandler (SdRef 1 example_sd) 5 dispatcher_new)"

definition example_transmission :: transmission where
  "example_transmission = \<lparr>tr_header = example_header ps_All, tr_type = SdRef 1 example_sd,
     tr_instance = example_area (Some 1) (Some ''b'') None\<rparr>"

lemma example_quiescent: "quiescent example_dispatcher"
  using wf_dispatcher.I_addTransmissionHandler [OF dispatcher_wf_new]
  by (simp add: quiescent_def example_dispatcher_def)
    (simp add: addTransmissionHandler_def dispatcher_new_def Let_def)

lemma example_current: "current_container (SdRef 1 example_sd) example_dispatcher = container_new example_sd"
  by (simp add: current_container_def example_dispatcher_def addTransmissionHandler_def Let_def dispatcher_new_def
      pool_find_def node_of_def pool_new_def)

text \<open>A handler that removes itself and then dispatches to another type.\<close>

definition nested_ref :: "nat \<Rightarrow> sd_ref" where
  "nested_ref i = SdRef i (StructDescriptor (if i = 1 then ''D'' else ''E'') 0 [])"

definition nested_transmission :: "nat \<Rightarrow> transmission" where
  "nested_transmission i = \<lparr>tr_header = plain_header, tr_type = nested_ref i, tr_instance = fresh_area []\<rparr>"

definition nested_dispatcher :: "nat dispatcher" where
  "nested_dispatcher =
     put_handlers Event_Pool (nested_ref 2) [(1, 1)] (put_handlers Event_Pool (nested_ref 1) [(0, 0)] (dispatcher_new\<lparr>nextId := 2\<rparr>))"

definition nested_client :: "nat client" where
  "nested_client = (\<lambda>h _ _. if h = 0 then RemoveEventHandler (nested_ref 1) 0 (Dispatch (nested_transmission 2) Finish) else Finish)"

lemma dispatcher_stays_wf_witness:
  "dispatcher_wf (fst (dispatch 9 nested_client 2 (nested_transmission 1) nested_dispatcher))"
proof -
  have refs: "nested_ref 1 = SdRef 1 (StructDescriptor ''D'' 0 [])" "nested_ref 2 = SdRef 2 (StructDescriptor ''E'' 0 [])"
    by (simp_all add: nested_ref_def)
  have "snd (dispatch 9 nested_client 2 (nested_transmission 1) nested_dispatcher) = Inr ()"
    using nested_dispatch_loses_removal [where now = 9 and a = "fresh_area []" and b = "fresh_area []", THEN conjunct1]
    unfolding nested_client_def nested_transmission_def nested_dispatcher_def refs Let_def case_prod_beta by blast
  then have "\<not> is_ub (snd (dispatch 9 nested_client 2 (nested_transmission 1) nested_dispatcher))" by simp
  moreover have "dispatcher_wf (dispatcher_new\<lparr>nextId := 2\<rparr> :: nat dispatcher)"
    using dispatcher_wf_new by (auto simp: dispatcher_wf_def dispatcher_new_def)
  then have "dispatcher_wf nested_dispatcher"
    unfolding nested_dispatcher_def by (intro dispatcher_wf_put) (simp_all add: handlers_ok_def)
  ultimately show ?thesis using dispatcher_stays_wf [of nested_dispatcher 9 nested_client 2 "nested_transmission 1"] by blast
qed


text \<open>A dispatcher with one cached instance, and a handler that raises.\<close>

definition cached_dispatcher :: "nat dispatcher" where
  "cached_dispatcher =
     fst (with_container (SdRef 1 example_sd) (\<lambda>c. (c\<lparr>m_instances := m_instances example_container\<rparr>, Inr ())) dispatcher_new)"

lemma addEventHandler_replays_witness:
  "\<exists>st'. addEventHandler 9 (\<lambda>_ _ _. Raise (RuntimeError ''no'')) 1 (SdRef 1 example_sd) 4 cached_dispatcher =
     (st', Inl (RuntimeError ''no'')) \<and> quiescent st' \<and> length (trace st') = 1"
proof -
  let ?d = "SdRef 1 example_sd" and ?call = "\<lambda>(h :: nat) tr x. Raise (RuntimeError ''no'')"
  have wf: "dispatcher_wf (dispatcher_new :: nat dispatcher)" by (rule dispatcher_wf_new)
  let ?f = "\<lambda>c. (c\<lparr>m_instances := m_instances example_container\<rparr>, Inr () :: unit result)"
  obtain q where q: "with_container ?d ?f (dispatcher_new :: nat dispatcher) = (dispatcher_new\<lparr>containerPool := q\<rparr>, Inr ())"
    "pool_find ?d q = Some (fst (?f (container_new example_sd)))"
    by (rule with_container_eq [of "dispatcher_new :: nat dispatcher" "container_new example_sd" ?d ?f])
      (use wf in \<open>simp_all add: dispatcher_wf_def dispatcher_new_def pool_new_def pool_find_def node_of_def\<close>)
  have "dispatcher_wf cached_dispatcher"
    unfolding cached_dispatcher_def by (rule dispatcher_wf_container [OF wf]) simp
  then have "quiescent cached_dispatcher" using q(1) by (simp add: quiescent_def cached_dispatcher_def dispatcher_new_def)
  moreover have "\<not> clearingHandlers cached_dispatcher" using q(1) by (simp add: cached_dispatcher_def dispatcher_new_def)
  moreover have "returns_or_raises ?call 4" by (simp add: returns_or_raises_def)
  ultimately obtain st' r where r: "addEventHandler 9 ?call (Suc 0) ?d 4 cached_dispatcher = (st', bindE r (\<lambda>_. Inr (nextId cached_dispatcher)))"
    "quiescent st'" "replay_ends ?call 4 (trace cached_dispatcher)
        (replay_calls ?d (nextId cached_dispatcher) 4 (m_instances (current_container ?d cached_dispatcher))) (trace st') r"
    using addEventHandler_replays [of cached_dispatcher ?call 4 9 0 ?d] by blast
  have "length (m_instances (current_container ?d cached_dispatcher)) = 1" "trace cached_dispatcher = []"
    using q by (simp_all add: cached_dispatcher_def current_container_def example_container_def) (simp add: dispatcher_new_def)
  then have "r = Inl (RuntimeError ''no'') \<and> length (trace st') = 1"
    using r(3) by (auto simp: replay_ends_def replay_answer_def split: prod.splits)
  then show ?thesis using r(1,2) by (auto simp del: addEventHandler.simps)
qed

end
