(* ===== verification/Host_Transceiver.thy ===== *)
theory Host_Transceiver
  imports Connection_Facts Dispatcher_Facts
begin

text \<open>
  \<open>HostTransceiver.cpp\<close> with the parts of \<open>Transceiver.cpp\<close> it uses: the dispatcher, the guest
  connections, and the groups of the connections that want to receive a type. A connection is
  identified by its address. Connection objects are owned by the map of guest connections and,
  while a handler runs, by a pointer on the stack; a call on a connection that has no owner any
  more is \<open>UndefinedBehaviour\<close>.
\<close>

section \<open>State\<close>

record 'h host =
  h_dispatcher :: "'h dispatcher"
  h_guests :: "nat list"
  h_held :: "nat list"
  h_conns :: "nat \<Rightarrow> connection"
  h_groups :: "string \<Rightarrow> nat list"
  h_frames :: "(nat \<times> frame) list"
  h_nextGuestId :: "32 word"

text \<open>
  What the host is given: the time, the event handlers of the application and the depth to which
  they may nest, the transition handler of the application, if it has one, the known types, the instances of the internal types, whose classes the build
  generates, and the channels, each of which may fail at any transmission;
  the number of the frames transmitted so far stands for the time of the failure. The keys
  \<open>f_order\<close> stand for the order in which the library iterates an unordered set.
\<close>

record 'h host_config =
  f_name :: string
  f_now :: "64 word"
  f_client :: "'h client"
  f_depth :: nat
  f_transition :: "(nat \<Rightarrow> connection \<Rightarrow> exn option \<Rightarrow> 'h prog) option"
  f_types :: "sd_ref list"
  f_generated :: "content \<Rightarrow> sd_ref \<times> area"
  f_fails :: "nat \<Rightarrow> nat \<Rightarrow> exn option"
  f_auth :: "nat \<Rightarrow> (nonce option \<times> (string \<Rightarrow> nonce \<Rightarrow> string \<Rightarrow> 8 word list \<Rightarrow> bool)) option"
  f_crypto :: crypto_lib
  f_order :: "nat list \<Rightarrow> nat \<Rightarrow> nat"

type_synonym ('h, 'a) host_action = "'h host \<Rightarrow> 'h host \<times> 'a result"

definition host_new :: "'h host" where
  "host_new = \<lparr>h_dispatcher = dispatcher_new, h_guests = [], h_held = [],
     h_conns = (\<lambda>_. fst (connection_new True None 0)), h_groups = (\<lambda>_. []), h_frames = [],
     h_nextGuestId = FirstGuestId\<rparr>"

definition owned :: "'h host \<Rightarrow> nat \<Rightarrow> bool" where
  "owned st k \<longleftrightarrow> k \<in> set (h_guests st) \<union> set (h_held st)"

definition host_dispatcher :: "('h, 'a) action \<Rightarrow> ('h, 'a) host_action" where
  "host_dispatcher f st = (case f (h_dispatcher st) of (d, r) \<Rightarrow> (st\<lparr>h_dispatcher := d\<rparr>, r))"

definition content_transmission :: "'h host_config \<Rightarrow> dots_header \<Rightarrow> content \<Rightarrow> transmission" where
  "content_transmission cfg h x =
     (case x of
        Instance d a \<Rightarrow> \<lparr>tr_header = h, tr_type = d, tr_instance = a\<rparr>
      | _ \<Rightarrow> \<lparr>tr_header = h, tr_type = fst (f_generated cfg x), tr_instance = snd (f_generated cfg x)\<rparr>)"

section \<open>Transmitting\<close>

text \<open>
  A group is an \<open>std::unordered_set\<close> of pointers. The order in which it is iterated is up to the
  library: after an insertion it is the order of the keys that \<open>f_order\<close> gives to the members.
\<close>

definition group_join :: "'h host_config \<Rightarrow> string \<Rightarrow> nat \<Rightarrow> 'h host \<Rightarrow> 'h host" where
  "group_join cfg g k st =
     (let group = h_groups st g in
      if k \<in> set group then st
      else st\<lparr>h_groups := (h_groups st)(g := sort_key (f_order cfg (k # group)) (k # group))\<rparr>)"

definition group_leave :: "string \<Rightarrow> nat \<Rightarrow> 'h host \<Rightarrow> 'h host" where
  "group_leave g k st = st\<lparr>h_groups := (h_groups st)(g := filter (\<lambda>i. i \<noteq> k) (h_groups st g))\<rparr>"

definition channel_put :: "'h host_config \<Rightarrow> nat \<Rightarrow> frame \<Rightarrow> ('h, unit) host_action" where
  "channel_put cfg k f st =
     (case f_fails cfg k (length (h_frames st)) of
        Some e \<Rightarrow> (st, Inl e)
      | None \<Rightarrow> (st\<lparr>h_frames := h_frames st @ [(k, f)]\<rparr>, Inr ()))"

definition host_env ::
  "'h host_config \<Rightarrow> (nat \<Rightarrow> dots_header \<Rightarrow> content \<Rightarrow> ('h, bool) host_action) \<Rightarrow>
   (nat \<Rightarrow> exn option \<Rightarrow> ('h, unit) host_action) \<Rightarrow> nat \<Rightarrow> 'h host conn_env" where
  "host_env cfg rcv change k =
     \<lparr>get_conn = (\<lambda>st. h_conns st k), put_conn = (\<lambda>c st. st\<lparr>h_conns := (h_conns st)(k := c)\<rparr>),
      channel_transmit = channel_put cfg k,
      channel_start = (\<lambda>st. (st, Inr ())), channel_import = (\<lambda>m st. (st, Inr ())),
      channel_continue = (\<lambda>st. (st, Inr ())),
      receiveHandler = rcv k, transitionHandler = change k,
      authManager = map_option (\<lambda>(n, accepts). \<lparr>requiresAuthentication = (\<lambda>st. (st, Inr n)),
        verifyAuthentication = (\<lambda>g n' cn d st. (st, Inr (accepts g n' cn d)))\<rparr>) (f_auth cfg k),
      newNonce = (\<lambda>st. (st, 0)), crypto = f_crypto cfg, time_now = f_now cfg\<rparr>"

text \<open>
  The loop of \<open>transmit\<close> over the members of a group; the connections whose channel fails are
  collected with their exception.
\<close>

fun transmit_loop ::
  "'h host_config \<Rightarrow> message \<Rightarrow> nat list \<Rightarrow> (nat \<times> exn) list \<Rightarrow> ('h, (nat \<times> exn) list) host_action" where
  "transmit_loop cfg m [] dirty st = (st, Inr dirty)"
| "transmit_loop cfg m (k # ks) dirty st =
     (if \<not> owned st k then (st, Inl (UndefinedBehaviour ''connection destroyed''))
      else if c_state (h_conns st k) = Closed then transmit_loop cfg m ks dirty st
      else case channel_put cfg k (Message m) st of
             (st', Inr _) \<Rightarrow> transmit_loop cfg m ks dirty st'
           | (st', Inl e) \<Rightarrow> transmit_loop cfg m ks (dirty @ [(k, e)]) st')"

text \<open>The dirty connections, through the pointers collected before.\<close>

fun handle_dirty ::
  "'h host_config \<Rightarrow> (nat \<Rightarrow> exn option \<Rightarrow> ('h, unit) host_action) \<Rightarrow> (nat \<times> exn) list \<Rightarrow> ('h, unit) host_action" where
  "handle_dirty cfg change [] st = (st, Inr ())"
| "handle_dirty cfg change ((k, e) # dirty) st =
     (if \<not> owned st k then (st, Inl (UndefinedBehaviour ''connection destroyed''))
      else thenA (handleError (host_env cfg (\<lambda>_ _ _ st. (st, Inr True)) change k) e st) (\<lambda>_. handle_dirty cfg change dirty))"

section \<open>Publishing\<close>

definition host_publish_with ::
  "'h host_config \<Rightarrow> (dots_header \<Rightarrow> content \<Rightarrow> ('h, unit) host_action) \<Rightarrow>
   sd_ref \<Rightarrow> area \<Rightarrow> property_set option \<Rightarrow> bool \<Rightarrow> ('h, unit) host_action" where
  "host_publish_with cfg tx d a includedProperties rm st =
     (let sd = sd_of d; keys = keyProperties sd; valid = validProperties a in
      if substructOnly sd then (st, Inl (LogicError (''attempt to publish substruct-only type '' @ sd_name sd)))
      else if \<not> ps_le keys valid
      then (st, Inl (RuntimeError (''attempt to publish instance with missing key properties ''
              @ ps_toString (CHR ''0'') (CHR ''1'') (ps_sub keys valid))))
      else
        let attributes = (case includedProperties of None \<Rightarrow> valid
              | Some ps \<Rightarrow> ps_intersect (ps_add ps keys) (properties sd));
            header = \<lparr>hd_typeName = Some (sd_name sd), hd_sentTime = Some (f_now cfg), hd_serverSentTime = Some (f_now cfg),
              hd_attributes = Some attributes, hd_sender = Some HostId, hd_fromCache = None,
              hd_removeObj = Some rm, hd_isFromMyself = Some True\<rparr>
        in thenA (host_dispatcher (dispatch (f_now cfg) (f_client cfg) (f_depth cfg)
               \<lparr>tr_header = header, tr_type = d, tr_instance = a\<rparr>) st)
             (\<lambda>_. tx header (Instance d a)))"

definition host_remove_with ::
  "'h host_config \<Rightarrow> (dots_header \<Rightarrow> content \<Rightarrow> ('h, unit) host_action) \<Rightarrow> sd_ref \<Rightarrow> area \<Rightarrow> ('h, unit) host_action" where
  "host_remove_with cfg tx d a = host_publish_with cfg tx d a (Some (keyProperties (sd_of d))) True"

text \<open>
  The removal of collected instances, through pointers into the container: an instance that has
  gone meanwhile must not be touched.
\<close>

definition clones_of :: "sd_ref \<Rightarrow> 'h host \<Rightarrow> clone list" where
  "clones_of d st = (case pool_find d (containerPool (h_dispatcher st)) of None \<Rightarrow> [] | Some c \<Rightarrow> m_instances c)"

fun remove_collected ::
  "'h host_config \<Rightarrow> (dots_header \<Rightarrow> content \<Rightarrow> ('h, unit) host_action) \<Rightarrow> (sd_ref \<times> area) list \<Rightarrow> ('h, unit) host_action" where
  "remove_collected cfg tx [] st = (st, Inr ())"
| "remove_collected cfg tx ((d, a) # xs) st =
     (if a \<notin> fst ` set (clones_of d st) then (st, Inl (UndefinedBehaviour ''instance destroyed''))
      else thenA (host_remove_with cfg tx d a st) (\<lambda>_. remove_collected cfg tx xs))"

section \<open>Transitions\<close>

definition cleanup_instances :: "32 word \<Rightarrow> 'h host \<Rightarrow> (sd_ref \<times> area) list" where
  "cleanup_instances peer st =
     concat (List.map (\<lambda>n. if cleanup (sd_of (node_descriptor n))
         then List.map (\<lambda>(a, info). (node_descriptor n, a))
                (filter (\<lambda>(a, info). lastUpdateFrom info = Some peer) (m_instances (node_container n)))
         else [])
       (m_pool (containerPool (h_dispatcher st))))"

definition host_handleTransitionImpl_with ::
  "'h host_config \<Rightarrow> (dots_header \<Rightarrow> content \<Rightarrow> ('h, unit) host_action) \<Rightarrow> nat \<Rightarrow> ('h, unit) host_action" where
  "host_handleTransitionImpl_with cfg tx k st =
     (if c_state (h_conns st k) = Closed then
        let st1 = st\<lparr>h_groups := (\<lambda>g. filter (\<lambda>i. i \<noteq> k) (h_groups st g))\<rparr>;
            instances = cleanup_instances (c_peerId (h_conns st k)) st1
        in catchA
             (thenA (remove_collected cfg tx instances st1) (\<lambda>_ st.
               (st\<lparr>h_guests := filter (\<lambda>i. i \<noteq> k) (h_guests st)\<rparr>, Inr ())))
             (\<lambda>x st. (st, Inr ()))
      else (st, Inr ()))"

text \<open>
  \<open>Transceiver::handleTransition\<close> calls the transition handler of the application first. Like the event
  handlers it is a program over the dispatcher, and its exceptions are caught.
\<close>

definition host_transition_handler :: "'h host_config \<Rightarrow> nat \<Rightarrow> exn option \<Rightarrow> ('h, unit) host_action" where
  "host_transition_handler cfg k e st =
     (case f_transition cfg of
        None \<Rightarrow> (st, Inr ())
      | Some handler \<Rightarrow>
          catchA (host_dispatcher (run_prog (dispatch (f_now cfg) (f_client cfg) (f_depth cfg))
              (addEventHandler (f_now cfg) (f_client cfg) (f_depth cfg)) (handler k (h_conns st k) e)) st)
            (\<lambda>x st. (st, Inr ())))"

definition host_handleTransition_with ::
  "'h host_config \<Rightarrow> (dots_header \<Rightarrow> content \<Rightarrow> ('h, unit) host_action) \<Rightarrow> nat \<Rightarrow> exn option \<Rightarrow> ('h, unit) host_action" where
  "host_handleTransition_with cfg tx k e st =
     thenA (host_transition_handler cfg k e st) (\<lambda>_. host_handleTransitionImpl_with cfg tx k)"

text \<open>
  \<open>transmit\<close>, which handles the errors of its dirty connections, whose transitions publish
  removals, which are transmitted: nested to a depth of \<open>n\<close>.
\<close>

fun host_transmit :: "'h host_config \<Rightarrow> nat \<Rightarrow> dots_header \<Rightarrow> content \<Rightarrow> ('h, unit) host_action" where
  "host_transmit cfg 0 h x st = (st, Inl (UndefinedBehaviour ''stack overflow''))"
| "host_transmit cfg (Suc n) h x st =
     thenA (st, deref ''typeName'' (hd_typeName h)) (\<lambda>name st.
     thenA (transmit_loop cfg (Data h x) (h_groups st name) [] st) (\<lambda>dirty.
       handle_dirty cfg (host_handleTransition_with cfg (host_transmit cfg n)) dirty))"

abbreviation host_handleTransition ::
  "'h host_config \<Rightarrow> nat \<Rightarrow> nat \<Rightarrow> exn option \<Rightarrow> ('h, unit) host_action" where
  "host_handleTransition cfg n \<equiv> host_handleTransition_with cfg (host_transmit cfg n)"

definition host_publish ::
  "'h host_config \<Rightarrow> nat \<Rightarrow> sd_ref \<Rightarrow> area \<Rightarrow> property_set option \<Rightarrow> bool \<Rightarrow> ('h, unit) host_action" where
  "host_publish cfg n = host_publish_with cfg (host_transmit cfg n)"

section \<open>Messages of the guests\<close>

text \<open>\<open>connection.transmit\<close> on a guest connection.\<close>

definition guest_transmit :: "'h host_config \<Rightarrow> nat \<Rightarrow> content \<Rightarrow> ('h, unit) host_action" where
  "guest_transmit cfg k x st =
     transmit_content (host_env cfg (\<lambda>_ _ _ st. (st, Inr True)) (\<lambda>_ _ st. (st, Inr ())) k) x None False st"

definition cache_end :: "string option \<Rightarrow> content" where
  "cache_end name = CacheInfo \<lparr>info_typeName = name, info_startTransmission = None,
     info_endTransmission = Some True, info_endDescriptorRequest = None\<rparr>"

fun transmit_clones ::
  "'h host_config \<Rightarrow> nat \<Rightarrow> sd_ref \<Rightarrow> clone list \<Rightarrow> ('h, unit) host_action" where
  "transmit_clones cfg k d [] st = (st, Inr ())"
| "transmit_clones cfg k d ((a, info) # cs) st =
     thenA (st, deref ''modified'' (modified info)) (\<lambda>sent st.
     thenA (st, deref ''lastUpdateFrom'' (lastUpdateFrom info)) (\<lambda>sender st.
     thenA (channel_put cfg k (Message (Data
         \<lparr>hd_typeName = Some (sd_name (sd_of d)), hd_sentTime = Some sent, hd_serverSentTime = Some (f_now cfg),
          hd_attributes = Some (validProperties a), hd_sender = Some sender, hd_fromCache = Some (of_nat (length cs)),
          hd_removeObj = Some False, hd_isFromMyself = None\<rparr> (Instance d a))) st)
       (\<lambda>_. transmit_clones cfg k d cs)))"

definition transmitContainer :: "'h host_config \<Rightarrow> nat \<Rightarrow> sd_ref \<Rightarrow> ('h, unit) host_action" where
  "transmitContainer cfg k d st = transmit_clones cfg k d (clones_of d st) st"

definition findStructType :: "'h host_config \<Rightarrow> string \<Rightarrow> sd_ref option" where
  "findStructType cfg name = find (\<lambda>d. sd_name (sd_of d) = name) (f_types cfg)"

definition handleMemberMessage :: "'h host_config \<Rightarrow> nat \<Rightarrow> msg_member \<Rightarrow> ('h, unit) host_action" where
  "handleMemberMessage cfg k m st =
     thenA (st, assert_valid ''DotsMember'' (ps_add (FromIndex 1) (FromIndex 2)) (content_valid (Member m))) (\<lambda>_ st.
     thenA (st, deref ''groupName'' (member_groupName m)) (\<lambda>groupName st.
       if member_event m = Some Ev_leave then (group_leave groupName k st, Inr ())
       else if member_event m = Some Ev_join then
         (case findStructType cfg groupName of
            Some d \<Rightarrow>
              if cached (sd_of d) then
                thenA (transmitContainer cfg k d (group_join cfg groupName k st)) (\<lambda>_.
                  guest_transmit cfg k (cache_end (member_groupName m)))
              else (group_join cfg groupName k st, Inr ())
          | None \<Rightarrow> (group_join cfg groupName k st, Inr ()))
       else (st, Inr ())))"

fun transmit_descriptors :: "'h host_config \<Rightarrow> nat \<Rightarrow> sd_ref list \<Rightarrow> ('h, unit) host_action" where
  "transmit_descriptors cfg k [] st = (st, Inr ())"
| "transmit_descriptors cfg k (d # ds) st =
     thenA (channel_put cfg k (Descriptor d) st) (\<lambda>_. transmit_descriptors cfg k ds)"

definition requested :: "descriptor_request \<Rightarrow> sd_ref \<Rightarrow> bool" where
  "requested r d \<longleftrightarrow>
     (let whiteList = (case request_whitelist r of None \<Rightarrow> [] | Some l \<Rightarrow> l);
          blacklist = (case request_blacklist r of None \<Rightarrow> [] | Some l \<Rightarrow> l);
          name = sd_name (sd_of d)
      in \<not> internal (sd_of d) \<and> (whiteList = [] \<or> name \<in> set whiteList) \<and> (blacklist = [] \<or> name \<notin> set blacklist))"

definition handleDescriptorRequest :: "'h host_config \<Rightarrow> nat \<Rightarrow> descriptor_request \<Rightarrow> ('h, unit) host_action" where
  "handleDescriptorRequest cfg k r st =
     thenA (transmit_descriptors cfg k (filter (requested r) (f_types cfg)) st) (\<lambda>_.
       guest_transmit cfg k (CacheInfo \<lparr>info_typeName = None, info_startTransmission = None,
         info_endTransmission = None, info_endDescriptorRequest = Some True\<rparr>))"

fun clear_containers ::
  "'h host_config \<Rightarrow> nat \<Rightarrow> string list \<Rightarrow> sd_ref list \<Rightarrow> ('h, unit) host_action" where
  "clear_containers cfg n names [] st = (st, Inr ())"
| "clear_containers cfg n names (d # ds) st =
     thenA (if sd_name (sd_of d) \<in> set names
            then remove_collected cfg (host_transmit cfg n) (List.map (\<lambda>(a, info). (d, a)) (clones_of d st)) st
            else (st, Inr ()))
       (\<lambda>_. clear_containers cfg n names ds)"

definition handleClearCache :: "'h host_config \<Rightarrow> nat \<Rightarrow> string list option \<Rightarrow> ('h, unit) host_action" where
  "handleClearCache cfg n names st =
     thenA (st, assert_valid ''DotsClearCache'' (FromIndex 1) (content_valid (ClearCache names))) (\<lambda>_ st.
     thenA (st, deref ''typeNames'' names) (\<lambda>typeNames st.
       clear_containers cfg n typeNames (List.map node_descriptor (m_pool (containerPool (h_dispatcher st)))) st))"

definition handleEchoRequest :: "'h host_config \<Rightarrow> nat \<Rightarrow> echo \<Rightarrow> ('h, unit) host_action" where
  "handleEchoRequest cfg k m st =
     (if echo_request m = Some True then guest_transmit cfg k (Echo (m\<lparr>echo_request := Some False\<rparr>)) st
      else (st, Inr ()))"

definition relay :: "'h host_config \<Rightarrow> nat \<Rightarrow> dots_header \<Rightarrow> content \<Rightarrow> ('h, unit) host_action" where
  "relay cfg n h x st =
     thenA (host_dispatcher (dispatch (f_now cfg) (f_client cfg) (f_depth cfg) (content_transmission cfg h x)) st)
       (\<lambda>_. host_transmit cfg n h x)"

definition handle_content :: "'h host_config \<Rightarrow> nat \<Rightarrow> nat \<Rightarrow> dots_header \<Rightarrow> content \<Rightarrow> ('h, unit) host_action" where
  "handle_content cfg n k h x st =
     (case x of
        Member m \<Rightarrow> handleMemberMessage cfg k m st
      | DescriptorRequest r \<Rightarrow> handleDescriptorRequest cfg k r st
      | ClearCache names \<Rightarrow> thenA (handleClearCache cfg n names st) (\<lambda>_. relay cfg n h x)
      | Echo m \<Rightarrow> handleEchoRequest cfg k m st
      | _ \<Rightarrow> relay cfg n h x st)"

definition host_handleTransmission ::
  "'h host_config \<Rightarrow> nat \<Rightarrow> nat \<Rightarrow> dots_header \<Rightarrow> content \<Rightarrow> ('h, bool) host_action" where
  "host_handleTransmission cfg n k h x st =
     (if k \<notin> set (h_guests st) then (st, Inl (UndefinedBehaviour ''end iterator''))
      else case handle_content cfg n k h x (st\<lparr>h_held := k # h_held st\<rparr>) of
             (st', r) \<Rightarrow>
               let st'' = st'\<lparr>h_held := h_held st\<rparr> in
               case r of Inl e \<Rightarrow> (st'', Inl e) | Inr _ \<Rightarrow> (st'', Inr (\<not> closed (h_conns st' k))))"

section \<open>Entry points\<close>

definition guest_env :: "'h host_config \<Rightarrow> nat \<Rightarrow> nat \<Rightarrow> 'h host conn_env" where
  "guest_env cfg n = host_env cfg (host_handleTransmission cfg n) (host_handleTransition cfg n)"

text \<open>\<open>handleListenAccept\<close>: the new connection \<open>k\<close> is entered once its reception has started.\<close>

definition host_accept :: "'h host_config \<Rightarrow> nat \<Rightarrow> nat \<Rightarrow> ('h, unit) host_action" where
  "host_accept cfg n k st =
     (let (c, nextId) = connection_new True None (h_nextGuestId st);
          st1 = st\<lparr>h_conns := (h_conns st)(k := c), h_nextGuestId := nextId, h_held := k # h_held st\<rparr>
      in case conn_asyncReceive (guest_env cfg n k) (f_name cfg) st1 of
           (st2, Inr _) \<Rightarrow> (st2\<lparr>h_held := h_held st, h_guests := insort k (h_guests st2)\<rparr>, Inr ())
         | (st2, Inl e) \<Rightarrow>
             (case connection_destroy (guest_env cfg n k) st2 of
                (st3, Inl u) \<Rightarrow> (st3\<lparr>h_held := h_held st\<rparr>, Inl u)
              | (st3, Inr _) \<Rightarrow> (st3\<lparr>h_held := h_held st\<rparr>, Inl e)))"

definition host_receive :: "'h host_config \<Rightarrow> nat \<Rightarrow> nat \<Rightarrow> message \<Rightarrow> ('h, unit) host_action" where
  "host_receive cfg n k m st =
     (if \<not> owned st k then (st, Inl (UndefinedBehaviour ''connection destroyed''))
      else processReceive (guest_env cfg n k) m st)"

definition host_channel_error :: "'h host_config \<Rightarrow> nat \<Rightarrow> nat \<Rightarrow> exn \<Rightarrow> ('h, unit) host_action" where
  "host_channel_error cfg n k e st =
     (if \<not> owned st k then (st, Inl (UndefinedBehaviour ''connection destroyed''))
      else processError (guest_env cfg n k) e st)"

end
