(* ===== verification/Connection_Invariant.thy ===== *)
theory Connection_Invariant
  imports Connection_Facts
begin

text \<open>
  A property that neither the connection's own fields nor the single calls of its interfaces can
  break is kept by everything a connection does.
\<close>

locale connection_invariant =
  fixes env :: "'s conn_env" and I :: "'s \<Rightarrow> bool"
  assumes I_put: "I s \<Longrightarrow> I (put_conn env c s)"
    and I_transmit: "I s \<Longrightarrow> I (fst (channel_transmit env f s))"
    and I_start: "I s \<Longrightarrow> I (fst (channel_start env s))"
    and I_import: "I s \<Longrightarrow> I (fst (channel_import env m s))"
    and I_continue: "I s \<Longrightarrow> I (fst (channel_continue env s))"
    and I_requires: "authManager env = Some am \<Longrightarrow> I s \<Longrightarrow> I (fst (requiresAuthentication am s))"
    and I_verify: "authManager env = Some am \<Longrightarrow> I s \<Longrightarrow> I (fst (verifyAuthentication am g n cn d s))"
    and I_nonce: "I s \<Longrightarrow> I (fst (newNonce env s))"
    and I_receive: "I s \<Longrightarrow> I (fst (receiveHandler env h x s))"
    and I_transition: "I s \<Longrightarrow> I (fst (transitionHandler env e s))"
begin

lemma I_modify: "I s \<Longrightarrow> I (modify_conn env f s)"
  by (simp add: modify_conn_def I_put)

lemma I_expect: "I s \<Longrightarrow> I (expectSystemType env t ps h s)"
  by (simp add: expectSystemType_def I_modify)

lemma I_thenA: "I (fst m) \<Longrightarrow> (\<And>x s. I s \<Longrightarrow> I (fst (f x s))) \<Longrightarrow> I (fst (thenA m f))"
  by (simp add: thenA_def split: sum.split)

lemma I_catchA: "I (fst m) \<Longrightarrow> (\<And>x s. I s \<Longrightarrow> I (fst (h x s))) \<Longrightarrow> I (fst (catchA m h))"
  by (cases m) (auto simp: catchA_def split: sum.split)

lemma I_message: "I s \<Longrightarrow> I (fst (transmit_message env m s))"
  by (simp add: transmit_message_def I_transmit)

lemma I_setConnectionState: "I s \<Longrightarrow> I (fst (setConnectionState env st e s))"
  unfolding setConnectionState_def Let_def by (auto intro!: I_modify I_catchA I_transition)

lemma I_handleClose: "I s \<Longrightarrow> I (fst (handleClose env e s))"
  unfolding handleClose_def Let_def by (intro I_setConnectionState I_expect I_modify)

lemma I_handleError: "I s \<Longrightarrow> I (fst (handleError env e s))"
  unfolding handleError_def by (auto intro!: I_modify I_expect I_thenA I_catchA I_message I_handleClose)

lemma I_processError: "I s \<Longrightarrow> I (fst (processError env e s))"
  unfolding processError_def by (auto intro!: I_catchA I_handleError)

lemma I_handlePeerError: "I s \<Longrightarrow> I (fst (handlePeerError env m s))"
  unfolding handlePeerError_def Let_def by (auto intro!: I_handleClose I_handleError)

lemma I_verifyConnect: "I s \<Longrightarrow> I (fst (verifyConnect env g m s))"
  unfolding verifyConnect_def by (auto intro!: I_modify I_expect I_thenA I_verify split: option.split)

lemma I_newNonce: "I s \<Longrightarrow> newNonce env s = (s', n) \<Longrightarrow> I s'"
  using I_nonce [of s] by simp

lemma I_handleHello: "I s \<Longrightarrow> I (fst (handleHello env m s))"
  unfolding handleHello_def Let_def
  by (auto intro!: I_modify I_expect I_thenA I_message intro: I_newNonce [OF I_modify] split: option.split prod.split)

lemma I_connected: "I s \<Longrightarrow> I (fst (thenA (setConnectionState env st e s) (\<lambda>_. expectError env)))"
  by (auto intro!: I_modify I_expect I_thenA I_setConnectionState simp: expectError_def)

lemma I_handleAuthorizationRequest: "I s \<Longrightarrow> I (fst (handleAuthorizationRequest env m s))"
  unfolding handleAuthorizationRequest_def Let_def
  by (auto intro!: I_modify I_expect I_thenA I_message I_setConnectionState simp: expectError_def)

lemma I_handleConnect: "I s \<Longrightarrow> I (fst (handleConnect env m s))"
  unfolding handleConnect_def Let_def
  by (auto intro!: I_modify I_expect I_thenA I_message I_setConnectionState I_verifyConnect simp: expectError_def)

lemma I_handlePreloadClientFinished: "I s \<Longrightarrow> I (fst (handlePreloadClientFinished env m s))"
  unfolding handlePreloadClientFinished_def
  by (auto intro!: I_modify I_expect I_thenA I_message I_setConnectionState simp: expectError_def)

lemma I_call_handler: "I s \<Longrightarrow> I (fst (call_handler env h m s))"
  by (auto simp: call_handler_def handlePreloadFinished_def
      intro!: I_handleHello I_handleAuthorizationRequest I_handleConnect I_handlePreloadClientFinished
        I_handlePeerError I_connected split: option.split system_handler.split message.split)

lemma I_handleReceive: "I s \<Longrightarrow> I (fst (handleReceive env m s))"
  by (auto simp: handleReceive_def handleSystem_def handleData_def Let_def
      intro!: I_modify I_expect I_thenA I_handlePeerError I_call_handler I_receive split: message.split option.split prod.split)

lemma I_processReceive: "I s \<Longrightarrow> I (fst (processReceive env m s))"
  unfolding processReceive_def
  by (intro I_catchA I_thenA I_import) (auto intro!: I_handleReceive I_continue I_processError)

lemma I_asyncReceive: "I s \<Longrightarrow> I (fst (conn_asyncReceive env name s))"
  unfolding conn_asyncReceive_def Let_def
  by (auto intro!: I_modify I_expect I_thenA I_setConnectionState I_start I_message I_requires split: option.split)

lemma I_destroy: "I s \<Longrightarrow> I (fst (connection_destroy env s))"
  unfolding connection_destroy_def by (auto intro!: I_catchA I_thenA I_message I_handleClose)

end

end
