(* ===== verification/Host_Facts.thy ===== *)
theory Host_Facts
  imports Host_Transceiver Connection_Invariant
begin

text \<open>
  What the operations of a host do to its groups, its guests and their connections, and the invariant they
  keep: groups hold no dangling connections, and the dispatcher is well formed.
\<close>

section \<open>The effect of transmitting\<close>

text \<open>
  Transmitting, and all the closing of connections it entails, only shrinks the groups and the
  set of guests, and keeps groups free of connections that are no guests.
\<close>

definition groups_ok :: "'h host \<Rightarrow> bool" where
  "groups_ok st \<longleftrightarrow> (\<forall>g. set (h_groups st g) \<subseteq> set (h_guests st))"

definition shrinks :: "'h host \<Rightarrow> 'h host \<Rightarrow> bool" where
  "shrinks st st' \<longleftrightarrow>
     (\<forall>k. closes (h_conns st k) (h_conns st' k)) \<and> (\<forall>g. set (h_groups st' g) \<subseteq> set (h_groups st g))
     \<and> set (h_guests st') \<subseteq> set (h_guests st) \<and> h_held st' = h_held st \<and> h_nextGuestId st' = h_nextGuestId st
     \<and> (groups_ok st \<longrightarrow> groups_ok st')
     \<and> (dispatcher_wf (h_dispatcher st) \<longrightarrow> dispatcher_wf (h_dispatcher st'))"

lemma shrinks_refl [simp]: "shrinks st st"
  by (simp add: shrinks_def)

lemma shrinks_trans: "shrinks st st' \<Longrightarrow> shrinks st' st'' \<Longrightarrow> shrinks st st''"
  unfolding shrinks_def by (elim conjE, intro conjI) (blast intro: closes_trans | simp)+

definition shrinking :: "('h, 'a) host_action \<Rightarrow> bool" where
  "shrinking f \<longleftrightarrow> (\<forall>st. shrinks st (fst (f st)))"

lemma shrinking_thenA: "shrinks st (fst m) \<Longrightarrow> (\<And>x. shrinking (f x)) \<Longrightarrow> shrinks st (fst (thenA m f))"
  by (auto simp: shrinking_def thenA_def split: sum.split intro: shrinks_trans)

lemma shrinking_catchA: "shrinks st (fst m) \<Longrightarrow> (\<And>x. shrinking (h x)) \<Longrightarrow> shrinks st (fst (catchA m h))"
  by (cases m) (auto simp: shrinking_def catchA_def split: sum.split intro: shrinks_trans)

lemma shrinks_channel_put [simp]: "shrinks st (fst (channel_put cfg k f st))"
  by (simp add: channel_put_def shrinks_def groups_ok_def split: option.split)

lemma shrinks_dispatcher:
  assumes "keeps dispatcher_wf f"
  shows "shrinks st (fst (host_dispatcher f st))"
proof -
  have "dispatcher_wf (h_dispatcher st) \<Longrightarrow> dispatcher_wf (fst (f (h_dispatcher st)))"
    by (rule keepsD [OF assms])
  then show ?thesis
    by (cases "f (h_dispatcher st)") (simp add: host_dispatcher_def shrinks_def groups_ok_def)
qed

lemma shrinks_dispatch [simp]: "shrinks st (fst (host_dispatcher (dispatch now call n t) st))"
  by (rule shrinks_dispatcher [OF wf_dispatcher.keeps_all(1)])

lemma shrinks_transition_handler [simp]: "shrinks st (fst (host_transition_handler cfg k e st))"
proof (cases "f_transition cfg")
  case (Some handler)
  let ?run = "run_prog (dispatch (f_now cfg) (f_client cfg) (f_depth cfg))
              (addEventHandler (f_now cfg) (f_client cfg) (f_depth cfg)) (handler k (h_conns st k) e)"
  have "keeps dispatcher_wf ?run"
    by (intro wf_dispatcher.keeps_run_prog wf_dispatcher.keeps_all)
  then have "shrinks st (fst (host_dispatcher ?run st))" by (rule shrinks_dispatcher)
  then have "shrinks st (fst (catchA (host_dispatcher ?run st) (\<lambda>x st. (st, Inr ()))))"
    by (rule shrinking_catchA) (simp add: shrinking_def)
  then show ?thesis by (simp add: host_transition_handler_def Some)
qed (simp add: host_transition_handler_def)

lemma host_env_simps [simp]:
  "get_conn (host_env cfg rcv change k) = (\<lambda>st. h_conns st k)"
  "put_conn (host_env cfg rcv change k) c st = st\<lparr>h_conns := (h_conns st)(k := c)\<rparr>"
  "channel_transmit (host_env cfg rcv change k) = channel_put cfg k"
  "transitionHandler (host_env cfg rcv change k) = change k"
  "receiveHandler (host_env cfg rcv change k) = rcv k"
  "channel_start (host_env cfg rcv change k) st = (st, Inr ())"
  "channel_import (host_env cfg rcv change k) m st = (st, Inr ())"
  "channel_continue (host_env cfg rcv change k) st = (st, Inr ())"
  "newNonce (host_env cfg rcv change k) st = (st, 0)" "time_now (host_env cfg rcv change k) = f_now cfg"
  "crypto (host_env cfg rcv change k) = f_crypto cfg"
  by (simp_all add: host_env_def)

lemma shrinks_handleError:
  assumes "\<And>e. shrinking (change k e)"
  shows "shrinks st (fst (handleError (host_env cfg rcv change k) e st))"
proof -
  have close: "shrinks st' (fst (handleClose (host_env cfg rcv change k) e st'))" for st' e
  proof -
    let ?s = "st'\<lparr>h_conns := (h_conns st')(k := shut (h_conns st' k))\<rparr>"
    have s: "shrinks st' ?s" by (simp add: shrinks_def groups_ok_def closes_def)
    have "fst (handleClose (host_env cfg rcv change k) e st') =
        (if c_hasTransition (h_conns st' k) then fst (change k e ?s) else ?s)"
      by (cases "change k e ?s")
        (auto simp: handleClose_def setConnectionState_def expectSystemType_def modify_conn_def shut_def Let_def catchA_def
          split: sum.split)
    then show ?thesis using shrinks_trans [OF s] assms s by (simp add: shrinking_def)
  qed
  have "shrinks st (fst (catchA (transmit_message (host_env cfg rcv change k) m st) (\<lambda>x s1. (s1, Inr ()))))" for m
    by (rule shrinking_catchA) (simp_all add: transmit_message_def shrinking_def)
  then show ?thesis
    unfolding handleError_def by (intro shrinking_thenA) (simp_all add: shrinking_def close)
qed

lemma shrinks_transmit_loop: "shrinks st (fst (transmit_loop cfg m ks dirty st))"
proof (induction ks arbitrary: dirty st)
  case (Cons k ks)
  obtain st1 r where p: "channel_put cfg k (Message m) st = (st1, r)" by (cases "channel_put cfg k (Message m) st")
  then have "shrinks st st1" using shrinks_channel_put [of st cfg k "Message m"] by simp
  then show ?case using Cons.IH p by (auto split: sum.split intro: shrinks_trans)
qed simp

lemma shrinks_handle_dirty:
  assumes "\<And>k e. shrinking (change k e)"
  shows "shrinks st (fst (handle_dirty cfg change dirty st))"
proof (induction dirty arbitrary: st)
  case (Cons x dirty)
  then show ?case
    by (cases x) (auto intro!: shrinking_thenA shrinks_handleError assms simp: shrinking_def)
qed simp

lemma shrinks_publish:
  assumes "\<And>h x. shrinking (tx h x)"
  shows "shrinks st (fst (host_publish_with cfg tx d a ps rm st))"
  unfolding host_publish_with_def Let_def by (auto intro!: shrinking_thenA assms)

lemma shrinks_remove_collected:
  assumes "\<And>h x. shrinking (tx h x)"
  shows "shrinks st (fst (remove_collected cfg tx xs st))"
proof (induction xs arbitrary: st)
  case (Cons y xs)
  then show ?case
    by (cases y) (auto intro!: shrinking_thenA shrinks_publish assms simp: shrinking_def host_remove_with_def)
qed simp

lemma shrinks_handleTransitionImpl:
  assumes "\<And>h x. shrinking (tx h x)"
  shows "shrinks st (fst (host_handleTransitionImpl_with cfg tx k st))"
proof -
  let ?st1 = "st\<lparr>h_groups := (\<lambda>g. filter (\<lambda>i. i \<noteq> k) (h_groups st g))\<rparr>"
  have 1: "shrinks st ?st1" by (auto simp: shrinks_def groups_ok_def)
  have "shrinks ?st1 (fst (catchA (thenA (remove_collected cfg tx xs ?st1) (\<lambda>_ st.
               (st\<lparr>h_guests := filter (\<lambda>i. i \<noteq> k) (h_guests st)\<rparr>, Inr ()))) (\<lambda>x st. (st, Inr ()))))" for xs
  proof (intro shrinking_catchA)
    obtain st2 r where r: "remove_collected cfg tx xs ?st1 = (st2, r)" by (cases "remove_collected cfg tx xs ?st1")
    then have s: "shrinks ?st1 st2" using shrinks_remove_collected [of tx ?st1 cfg xs, OF assms] by simp
    then have "set (h_groups st2 g) \<subseteq> set (filter (\<lambda>i. i \<noteq> k) (h_groups st g))" for g
      by (simp add: shrinks_def)
    then have "shrinks st2 (st2\<lparr>h_guests := filter (\<lambda>i. i \<noteq> k) (h_guests st2)\<rparr>)"
      by (auto simp: shrinks_def groups_ok_def)
    then show "shrinks ?st1 (fst (thenA (remove_collected cfg tx xs ?st1) (\<lambda>_ st.
               (st\<lparr>h_guests := filter (\<lambda>i. i \<noteq> k) (h_guests st)\<rparr>, Inr ()))))"
      using s by (auto simp: r thenA_def split: sum.split intro: shrinks_trans)
  qed (simp add: shrinking_def)
  from shrinks_trans [OF 1 this] show ?thesis
    by (simp add: host_handleTransitionImpl_with_def Let_def)
qed

lemma shrinks_handleTransition:
  assumes "\<And>h x. shrinking (tx h x)"
  shows "shrinks st (fst (host_handleTransition_with cfg tx k e st))"
  unfolding host_handleTransition_with_def
  by (rule shrinking_thenA [OF shrinks_transition_handler])
    (unfold shrinking_def, intro allI shrinks_handleTransitionImpl assms)

lemma shrinks_transmit: "shrinks st (fst (host_transmit cfg n h x st))"
proof (induction n arbitrary: h x st)
  case (Suc n)
  then show ?case
    by (auto intro!: shrinking_thenA shrinks_transmit_loop shrinks_handle_dirty shrinks_handleTransition simp: shrinking_def)
qed simp

section \<open>The effect of a message\<close>

text \<open>A guest may also join groups while its message is handled.\<close>

definition serves :: "'h host \<Rightarrow> 'h host \<Rightarrow> bool" where
  "serves st st' \<longleftrightarrow>
     (\<forall>k. closes (h_conns st k) (h_conns st' k)) \<and> h_held st' = h_held st
     \<and> (groups_ok st \<longrightarrow> groups_ok st')
     \<and> (dispatcher_wf (h_dispatcher st) \<longrightarrow> dispatcher_wf (h_dispatcher st'))"

lemma shrinks_serves: "shrinks st st' \<Longrightarrow> serves st st'"
  by (simp add: shrinks_def serves_def)

lemma serves_trans: "serves st st' \<Longrightarrow> serves st' st'' \<Longrightarrow> serves st st''"
  unfolding serves_def by (elim conjE, intro conjI) (blast intro: closes_trans | simp)+

lemma serves_thenA:
  "serves st (fst m) \<Longrightarrow> (\<And>x st'. serves st' (fst (f x st'))) \<Longrightarrow> serves st (fst (thenA m f))"
  by (auto simp: thenA_def split: sum.split intro: serves_trans)

lemma serves_join: "k \<in> set (h_guests st) \<Longrightarrow> serves st (group_join cfg g k st)"
  by (auto simp: serves_def group_join_def groups_ok_def Let_def set_insort_key split: if_splits)

lemma serves_leave: "serves st (group_leave g k st)"
  by (auto simp: serves_def group_leave_def groups_ok_def)

lemma serves_simps [simp]:
  "serves st st" "serves st (fst (channel_put cfg k f st))" "serves st (fst (host_transmit cfg n h x st))"
  "serves st (fst (host_dispatcher (dispatch now call i t) st))"
  using shrinks_serves shrinks_channel_put shrinks_transmit shrinks_dispatch shrinks_refl by blast+

lemma serves_guest_transmit [simp]: "serves st (fst (guest_transmit cfg k x st))"
  by (simp add: guest_transmit_def transmit_content_def transmit_message_def Let_def)

lemma serves_transmit_clones [simp]: "serves st (fst (transmit_clones cfg k d cs st))"
  by (induction cs arbitrary: st) (auto intro!: serves_thenA)

lemma serves_transmit_descriptors [simp]: "serves st (fst (transmit_descriptors cfg k ds st))"
  by (induction ds arbitrary: st) (auto intro!: serves_thenA)

lemma serves_remove_collected [simp]: "serves st (fst (remove_collected cfg (host_transmit cfg n) xs st))"
  by (intro shrinks_serves shrinks_remove_collected) (simp add: shrinking_def shrinks_transmit)

lemma serves_clear_containers [simp]: "serves st (fst (clear_containers cfg n names ds st))"
  by (induction ds arbitrary: st) (auto intro!: serves_thenA)

lemma serves_relay [simp]: "serves st (fst (relay cfg n h x st))"
  by (auto simp: relay_def intro!: serves_thenA)

lemma serves_member:
  assumes "k \<in> set (h_guests st)"
  shows "serves st (fst (handleMemberMessage cfg k m st))"
proof -
  have "serves st (fst (thenA (transmitContainer cfg k d (group_join cfg g k st)) (\<lambda>_. guest_transmit cfg k x)))" for g d x
    by (intro serves_thenA serves_guest_transmit)
      (unfold transmitContainer_def, rule serves_trans [OF serves_join [OF assms] serves_transmit_clones])
  then show ?thesis
    using serves_join [OF assms] serves_leave
    by (auto simp: handleMemberMessage_def assert_valid_def assertE_def deref_def split: option.split)
qed

lemma serves_handle_content:
  "k \<in> set (h_guests st) \<Longrightarrow> serves st (fst (handle_content cfg n k h x st))"
  by (auto simp: handle_content_def handleDescriptorRequest_def handleClearCache_def handleEchoRequest_def serves_member
      intro!: serves_thenA split: content.split)

lemma serves_hold:
  "serves (st\<lparr>h_held := hs\<rparr>) st' \<Longrightarrow> serves st (st'\<lparr>h_held := h_held st\<rparr>)"
  by (auto simp: serves_def groups_ok_def)

lemma serves_handleTransmission: "serves st (fst (host_handleTransmission cfg n k h x st))"
proof (cases "k \<in> set (h_guests st)")
  case True
  then have "serves (st\<lparr>h_held := k # h_held st\<rparr>) (fst (handle_content cfg n k h x (st\<lparr>h_held := k # h_held st\<rparr>)))"
    by (intro serves_handle_content) simp
  from serves_hold [OF this] show ?thesis
    using True by (auto simp: host_handleTransmission_def Let_def split: prod.split sum.split)
qed (simp add: host_handleTransmission_def)

lemma serves_handleTransition: "serves st (fst (host_handleTransition cfg n k e st))"
  by (intro shrinks_serves shrinks_handleTransition) (simp add: shrinking_def shrinks_transmit)

lemma guest_env_simps [simp]:
  "get_conn (guest_env cfg n k) = (\<lambda>st. h_conns st k)"
  "put_conn (guest_env cfg n k) c st = st\<lparr>h_conns := (h_conns st)(k := c)\<rparr>"
  "channel_transmit (guest_env cfg n k) = channel_put cfg k"
  "transitionHandler (guest_env cfg n k) = host_handleTransition cfg n k"
  "receiveHandler (guest_env cfg n k) = host_handleTransmission cfg n k"
  "channel_start (guest_env cfg n k) st = (st, Inr ())"
  "channel_import (guest_env cfg n k) m st = (st, Inr ())"
  "channel_continue (guest_env cfg n k) st = (st, Inr ())"
  "newNonce (guest_env cfg n k) st = (st, 0)"
  by (simp_all add: guest_env_def)

lemma guest_env_auth:
  "authManager (guest_env cfg n k) = Some am \<Longrightarrow>
     fst (requiresAuthentication am st) = st \<and> fst (verifyAuthentication am g v cn d st) = st"
  by (auto simp: guest_env_def host_env_def)

text \<open>The host keeps the contract of the connection, so the facts on connections hold for its guests.\<close>

interpretation guest: connection_client "guest_env cfg n k"
proof
  fix st :: "'a host" and h x e
  show "closes (get_conn (guest_env cfg n k) st) (get_conn (guest_env cfg n k) (fst (receiveHandler (guest_env cfg n k) h x st)))"
    using serves_handleTransmission [of st cfg n k h x] by (simp add: serves_def)
  show "closes (get_conn (guest_env cfg n k) st) (get_conn (guest_env cfg n k) (fst (transitionHandler (guest_env cfg n k) e st)))"
    using serves_handleTransition [of st cfg n k e] by (simp add: serves_def)
qed (auto simp: guest_env_auth channel_put_def split: option.split)

section \<open>The invariant of the host\<close>

definition host_wf :: "'h host \<Rightarrow> bool" where
  "host_wf st \<longleftrightarrow> groups_ok st \<and> dispatcher_wf (h_dispatcher st)"

lemma serves_wf: "serves st st' \<Longrightarrow> host_wf st \<Longrightarrow> host_wf st'"
  by (simp add: serves_def host_wf_def)

interpretation host_inv: connection_invariant "guest_env cfg n k" host_wf
proof
  fix st :: "'a host" and c f h x e
  assume wf: "host_wf st"
  show "host_wf (put_conn (guest_env cfg n k) c st)"
    using wf by (simp add: host_wf_def groups_ok_def)
  show "host_wf (fst (channel_transmit (guest_env cfg n k) f st))"
    using serves_wf [OF serves_simps(2) wf] by simp
  show "host_wf (fst (receiveHandler (guest_env cfg n k) h x st))"
    using serves_wf [OF serves_handleTransmission wf] by simp
  show "host_wf (fst (transitionHandler (guest_env cfg n k) e st))"
    using serves_wf [OF serves_handleTransition wf] by simp
qed (auto simp: guest_env_auth)

text \<open>C25: Accepting a connection, processing a message or a channel error of a guest, whatever they
  are, and publishing each keep the host consistent as long as the step is not undefined: only
  guests are members of groups, and the dispatcher is well formed. The event handlers and the
  transition handler of the application may do anything with the dispatcher.\<close>

theorem host_stays_wf:
  assumes "host_wf st"
  shows "(\<not> is_ub (snd (host_accept cfg n k st)) \<longrightarrow> host_wf (fst (host_accept cfg n k st)))
    \<and> (\<not> is_ub (snd (host_receive cfg n k m st)) \<longrightarrow> host_wf (fst (host_receive cfg n k m st)))
    \<and> (\<not> is_ub (snd (host_channel_error cfg n k e st)) \<longrightarrow> host_wf (fst (host_channel_error cfg n k e st)))
    \<and> (\<not> is_ub (snd (host_publish cfg n d a ps rm st)) \<longrightarrow> host_wf (fst (host_publish cfg n d a ps rm st)))"
proof (intro conjI impI)
  show "host_wf (fst (host_receive cfg n k m st))" "host_wf (fst (host_channel_error cfg n k e st))"
    using assms host_inv.I_processReceive host_inv.I_processError by (auto simp: host_receive_def host_channel_error_def)
  show "host_wf (fst (host_publish cfg n d a ps rm st))"
  proof -
    have "shrinks st (fst (host_publish_with cfg (host_transmit cfg n) d a ps rm st))"
      by (rule shrinks_publish) (simp add: shrinking_def shrinks_transmit)
    from serves_wf [OF shrinks_serves [OF this] assms] show ?thesis by (simp add: host_publish_def)
  qed
  obtain c i where c: "connection_new True None (h_nextGuestId st) = (c, i)"
    by (cases "connection_new True None (h_nextGuestId st)")
  let ?st = "st\<lparr>h_conns := (h_conns st)(k := c), h_nextGuestId := i, h_held := k # h_held st\<rparr>"
  have 1: "host_wf ?st" using assms by (simp add: host_wf_def groups_ok_def)
  obtain st2 r where 2: "conn_asyncReceive (guest_env cfg n k) (f_name cfg) ?st = (st2, r)"
    by (cases "conn_asyncReceive (guest_env cfg n k) (f_name cfg) ?st")
  then have wf2: "host_wf st2" using host_inv.I_asyncReceive [OF 1, of cfg n k "f_name cfg"] by simp
  then have "host_wf (fst (connection_destroy (guest_env cfg n k) st2))" by (rule host_inv.I_destroy)
  moreover have "host_wf (st'\<lparr>h_held := hs\<rparr>)" if "host_wf st'" for st' :: "'a host" and hs
    using that by (simp add: host_wf_def groups_ok_def)
  moreover have "host_wf (st2\<lparr>h_held := hs, h_guests := insort k (h_guests st2)\<rparr>)" for hs
    using wf2 by (auto simp: host_wf_def groups_ok_def set_insort_key)
  ultimately show "host_wf (fst (host_accept cfg n k st))"
    by (cases "connection_destroy (guest_env cfg n k) st2") (auto simp: host_accept_def c 2 split: sum.split)
qed

end
