(* ===== verification/Host_Relay.thy ===== *)
theory Host_Relay
  imports Host_Facts
begin

text \<open>The way of an instance through a host: from the guest that sends it to the members of the group of its type.\<close>

section \<open>Fan-out and replay\<close>

definition no_failures :: "'h host_config \<Rightarrow> bool" where
  "no_failures cfg \<longleftrightarrow> (\<forall>k i. f_fails cfg k i = None)"

lemma channel_put_ok: "no_failures cfg \<Longrightarrow> channel_put cfg k f st = (st\<lparr>h_frames := h_frames st @ [(k, f)]\<rparr>, Inr ())"
  by (simp add: no_failures_def channel_put_def)

lemma transmit_loop_ok:
  assumes "no_failures cfg"
  shows "\<forall>k \<in> set ks. owned st k \<Longrightarrow> transmit_loop cfg m ks dirty st =
    (st\<lparr>h_frames := h_frames st @ List.map (\<lambda>k. (k, Message m)) (filter (\<lambda>k. c_state (h_conns st k) \<noteq> Closed) ks)\<rparr>, Inr dirty)"
proof (induction ks arbitrary: st)
  case (Cons k ks)
  have "\<forall>i \<in> set ks. owned (st\<lparr>h_frames := fs\<rparr>) i" for fs using Cons.prems by (simp add: owned_def)
  then show ?case using Cons assms by (simp add: channel_put_ok)
qed simp

lemma host_transmit_ok:
  assumes "no_failures cfg" "groups_ok st" "hd_typeName h = Some name"
  shows "host_transmit cfg (Suc n) h x st =
    (st\<lparr>h_frames := h_frames st @ List.map (\<lambda>k. (k, Message (Data h x)))
        (filter (\<lambda>k. c_state (h_conns st k) \<noteq> Closed) (h_groups st name))\<rparr>, Inr ())"
proof -
  have "\<forall>k \<in> set (h_groups st name). owned st k" using assms(2) by (auto simp: groups_ok_def owned_def)
  then show ?thesis by (simp add: deref_def assms(3) transmit_loop_ok [OF assms(1)])
qed

text \<open>C23: An instance that a guest sends is first dispatched on the host and then transmitted,
  unchanged and in group order, to exactly the open connections of the group of its type, when
  no channel fails.\<close>

theorem host_relays_instance:
  assumes "no_failures cfg" "host_wf st" "k \<in> set (h_guests st)" "hd_typeName h = Some name"
    and "dispatch (f_now cfg) (f_client cfg) (f_depth cfg) \<lparr>tr_header = h, tr_type = d, tr_instance = a\<rparr> (h_dispatcher st) = (d', Inr ())"
  shows "host_handleTransmission cfg (Suc n) k h (Instance d a) st =
    (st\<lparr>h_dispatcher := d', h_frames := h_frames st @ List.map (\<lambda>i. (i, Message (Data h (Instance d a))))
        (filter (\<lambda>i. c_state (h_conns st i) \<noteq> Closed) (h_groups st name))\<rparr>, Inr (\<not> closed (h_conns st k)))"
proof -
  let ?st = "st\<lparr>h_held := k # h_held st, h_dispatcher := d'\<rparr>"
  have "groups_ok ?st" using assms(2) by (simp add: host_wf_def groups_ok_def)
  from host_transmit_ok [OF assms(1) this assms(4), of n "Instance d a"] show ?thesis
    by (simp add: host_handleTransmission_def handle_content_def relay_def host_dispatcher_def content_transmission_def
        assms(3,5) del: host_transmit.simps)
qed

definition replayed :: "64 word \<Rightarrow> nat \<Rightarrow> sd_ref \<Rightarrow> nat \<Rightarrow> clone \<Rightarrow> nat \<times> frame" where
  "replayed now k d left cl =
     (k, Message (Data \<lparr>hd_typeName = Some (sd_name (sd_of d)), hd_sentTime = modified (snd cl), hd_serverSentTime = Some now,
        hd_attributes = Some (validProperties (fst cl)), hd_sender = lastUpdateFrom (snd cl), hd_fromCache = Some (of_nat left),
        hd_removeObj = Some False, hd_isFromMyself = None\<rparr> (Instance d (fst cl))))"

lemma transmit_clones_ok:
  assumes "no_failures cfg" 
  shows "\<forall>cl \<in> set cs. modified (snd cl) \<noteq> None \<and> lastUpdateFrom (snd cl) \<noteq> None \<Longrightarrow> transmit_clones cfg k d cs st =
    (st\<lparr>h_frames := h_frames st @ List.map (\<lambda>i. replayed (f_now cfg) k d (length cs - Suc i) (cs ! i)) [0..<length cs]\<rparr>, Inr ())"
proof (induction cs arbitrary: st)
  case (Cons c cs)
  obtain a info sent sender where c: "c = (a, info)" "modified info = Some sent" "lastUpdateFrom info = Some sender"
    using Cons.prems by (cases c) auto
  have "List.map (\<lambda>i. replayed (f_now cfg) k d (length (c # cs) - Suc i) ((c # cs) ! i)) [0..<length (c # cs)] =
      replayed (f_now cfg) k d (length cs) c # List.map (\<lambda>i. replayed (f_now cfg) k d (length cs - Suc i) (cs ! i)) [0..<length cs]"
    by (simp add: upt_conv_Cons map_Suc_upt [symmetric] del: upt_Suc map_Suc_upt)
  then show ?case
    using Cons c by (simp add: deref_def channel_put_ok [OF assms] replayed_def)
qed simp

lemma group_join_simps [simp]:
  "h_dispatcher (group_join cfg g k st) = h_dispatcher st" "h_guests (group_join cfg g k st) = h_guests st"
  "h_conns (group_join cfg g k st) = h_conns st" "h_frames (group_join cfg g k st) = h_frames st"
  "h_held (group_join cfg g k st) = h_held st"
  "group_join cfg g k (st\<lparr>h_held := hs\<rparr>) = (group_join cfg g k st)\<lparr>h_held := hs\<rparr>"
  by (simp_all add: group_join_def Let_def)

lemma host_held_same: "h_held st' = h_held st \<Longrightarrow> st'\<lparr>h_held := h_held st\<rparr> = st'"
  by simp

text \<open>C24: A guest that joins the group of a cached type becomes a member and receives the cached
  instances in key order, each with its modification time and last sender and a countdown of
  the instances that are left, and then the end-of-cache message.\<close>

theorem join_replays_cache:
  assumes "no_failures cfg" "k \<in> set (h_guests st)"
    and "member_groupName m = Some g" "member_event m = Some Ev_join"
    and "findStructType cfg g = Some d" "cached (sd_of d)"
    and "\<forall>cl \<in> set (clones_of d st). modified (snd cl) \<noteq> None \<and> lastUpdateFrom (snd cl) \<noteq> None"
  shows "host_handleTransmission cfg n k h (Member m) st =
    ((group_join cfg g k st)\<lparr>h_frames := h_frames st
        @ (let cs = clones_of d st in List.map (\<lambda>i. replayed (f_now cfg) k d (length cs - Suc i) (cs ! i)) [0..<length cs])
        @ [(k, Message (Data (empty_header\<lparr>hd_typeName := Some ''DotsCacheInfo'', hd_sentTime := Some (f_now cfg),
             hd_attributes := Some (content_valid (cache_end (Some g))), hd_removeObj := Some False\<rparr>) (cache_end (Some g))))]\<rparr>,
     Inr (\<not> closed (h_conns st k)))"
proof -
  have "clones_of d (group_join cfg g k (st\<lparr>h_held := k # h_held st\<rparr>)) = clones_of d st"
    by (simp add: clones_of_def)
  then have "transmitContainer cfg k d (group_join cfg g k (st\<lparr>h_held := k # h_held st\<rparr>)) =
    ((group_join cfg g k (st\<lparr>h_held := k # h_held st\<rparr>))\<lparr>h_frames := h_frames st
        @ List.map (\<lambda>i. replayed (f_now cfg) k d (length (clones_of d st) - Suc i) (clones_of d st ! i)) [0..<length (clones_of d st)]\<rparr>, Inr ())"
    using transmit_clones_ok [OF assms(1,7)] by (simp add: transmitContainer_def)
  then show ?thesis
    using assms(2-6)
    by (simp add: host_handleTransmission_def handle_content_def handleMemberMessage_def assert_valid_def deref_def
        guest_transmit_def transmit_content_def transmit_message_def channel_put_ok [OF assms(1)] cache_end_def
        empty_header_def Let_def)
qed

section \<open>Two failing channels\<close>

definition removal_header :: "'h host_config \<Rightarrow> sd_ref \<Rightarrow> dots_header" where
  "removal_header cfg d =
     \<lparr>hd_typeName = Some (sd_name (sd_of d)), hd_sentTime = Some (f_now cfg), hd_serverSentTime = Some (f_now cfg),
      hd_attributes = Some (ps_intersect (keyProperties (sd_of d)) (properties (sd_of d))), hd_sender = Some HostId,
      hd_fromCache = None, hd_removeObj = Some True, hd_isFromMyself = Some True\<rparr>"

lemma host_remove_eq:
  assumes "\<not> substructOnly (sd_of d)" "ps_le (keyProperties (sd_of d)) (validProperties a)"
  shows "host_remove_with cfg tx d a st =
    thenA (host_dispatcher (dispatch (f_now cfg) (f_client cfg) (f_depth cfg)
       \<lparr>tr_header = removal_header cfg d, tr_type = d, tr_instance = a\<rparr>) st) (\<lambda>_. tx (removal_header cfg d) (Instance d a))"
proof -
  have "ps_add s s = s" for s by (simp add: ps_members_inject [symmetric])
  then show ?thesis
    using assms by (simp add: host_remove_with_def host_publish_with_def removal_header_def Let_def del: ps_le_iff)
qed

lemma transmit_loop_failing:
  assumes "\<And>k i. f_fails cfg k i = Some e"
  shows "\<forall>k \<in> set ks. owned st k \<Longrightarrow> transmit_loop cfg m ks dirty st =
    (st, Inr (dirty @ List.map (\<lambda>k. (k, e)) (filter (\<lambda>k. c_state (h_conns st k) \<noteq> Closed) ks)))"
  by (induction ks arbitrary: dirty) (simp_all add: channel_put_def assms)

lemma handleError_failing:
  assumes "\<And>k i. f_fails cfg k i = Some (RuntimeError e)" "c_hasTransition (h_conns st k)"
    and "change k (Some x) (st\<lparr>h_conns := (h_conns st)(k := shut (h_conns st k))\<rparr>) = (st', Inr ())"
  shows "handleError (host_env cfg rcv change k) x st = (st', Inr ())"
proof -
  have "shut (h_conns st k) = h_conns st k\<lparr>c_hasReceive := False, c_expected := (Type_Error, ps_None, Some H_nullptr), c_state := Closed\<rparr>"
    by (simp add: shut_def)
  then show ?thesis
    using assms(2,3)
    by (simp add: handleError_def transmit_message_def channel_put_def assms(1) catchA_def handleClose_def
        setConnectionState_def expectSystemType_def modify_conn_def Let_def)
qed

lemma handleTransition_no_cleanup:
  assumes "f_transition cfg = None" "c_state (h_conns st k) = Closed" "cleanup_instances (c_peerId (h_conns st k)) st = []"
  shows "host_handleTransition_with cfg tx k e st =
    (st\<lparr>h_groups := (\<lambda>g. filter (\<lambda>i. i \<noteq> k) (h_groups st g)), h_guests := filter (\<lambda>i. i \<noteq> k) (h_guests st)\<rparr>, Inr ())"
proof -
  have "cleanup_instances (c_peerId (h_conns st k)) (st\<lparr>h_groups := gs\<rparr>) = []" for gs
    using assms(3) by (simp add: cleanup_instances_def)
  then show ?thesis
    using assms(1,2) by (simp add: host_handleTransition_with_def host_transition_handler_def host_handleTransitionImpl_with_def Let_def catchA_def)
qed


definition cleanup_ref :: sd_ref where
  "cleanup_ref = SdRef 1 (StructDescriptor ''Example'' (Flag_Cached OR Flag_Cleanup) example_props)"

definition open_guest :: "32 word \<Rightarrow> connection" where
  "open_guest i = \<lparr>c_expected = snd (expectation Open), c_state = Connected, c_selfId = HostId, c_peerId = i,
     c_selfName = '''', c_peerName = ''guest'', c_authSecret = None, c_nonce = None, c_hasReceive = True, c_hasTransition = True\<rparr>"

definition example_config :: "(nat \<Rightarrow> nat \<Rightarrow> exn option) \<Rightarrow> nat host_config" where
  "example_config fails = \<lparr>f_name = ''host'', f_now = 9, f_client = (\<lambda>_ _ _. Finish), f_depth = 1, f_transition = None, f_types = [cleanup_ref],
     f_generated = (\<lambda>_. (cleanup_ref, example_area None None None)), f_fails = fails,
     f_auth = (\<lambda>_. None), f_crypto = simple_crypto, f_order = (\<lambda>_ i. i)\<rparr>"

definition example_pool :: "clone list \<Rightarrow> container_pool" where
  "example_pool cs = \<lparr>m_pool = [\<lparr>node_descriptor = cleanup_ref, node_id = 0,
         node_container = \<lparr>cont_descriptor = sd_of cleanup_ref, m_instances = cs\<rparr>\<rparr>],
       m_nameCache = [''Example'' \<mapsto> 0], nextNode = 1\<rparr>"

definition example_host :: "nat host" where
  "example_host = host_new\<lparr>
     h_dispatcher := dispatcher_new\<lparr>containerPool := example_pool [(example_area (Some 1) (Some ''a'') None, example_info)]\<rparr>,
     h_guests := [1, 2], h_conns := (\<lambda>k. open_guest (if k = 1 then 3 else 4)),
     h_groups := (\<lambda>g. if g = ''Example'' then [1, 2] else [])\<rparr>"

lemma cleanup_ref_simps [simp]:
  "sd_name (sd_of cleanup_ref) = ''Example''" "propertyDescriptors (sd_of cleanup_ref) = example_props"
  "cached (sd_of cleanup_ref)" "cleanup (sd_of cleanup_ref)" "\<not> substructOnly (sd_of cleanup_ref)"
  by (simp_all add: cleanup_ref_def cached_def cleanup_def substructOnly_def Flag_Cached_def Flag_Cleanup_def Flag_SubstructOnly_def)

definition example_clones :: "clone list \<Rightarrow> container" where
  "example_clones cs = \<lparr>cont_descriptor = sd_of cleanup_ref, m_instances = cs\<rparr>"

lemma example_container_remove:
  "\<exists>u info. container_remove 9 (removal_header (example_config fails) cleanup_ref) (example_area (Some 1) (Some ''a'') None)
      (example_clones [(example_area (Some 1) (Some ''a'') None, example_info)]) =
      (example_clones [], Inr (Some (u, info))) \<and> lastOperation info = Some Mt_remove"
proof -
  let ?c = "example_clones [(example_area (Some 1) (Some ''a'') None, example_info)]"
  have p: "cont_props ?c = example_props" by (simp add: example_clones_def)
  have ok: "container_ok ?c"
    using example_key_ok by (simp add: container_ok_def map_ok_def p) (simp add: example_clones_def example_key_ok)
  have f: "findClone (example_area (Some 1) (Some ''a'') None) ?c = Some (example_area (Some 1) (Some ''a'') None, example_info)"
    by (simp add: findClone_def p) (simp add: example_clones_def map_find_def key_compare_def
        keyPropertyDescriptors_def example_props_def storage_def slot_def example_area_def)
  then have "map_extract (key_compare example_props) (example_area (Some 1) (Some ''a'') None) (m_instances ?c) = []"
    by (simp add: findClone_def p) (simp add: example_clones_def map_extract_def map_find_def split: if_splits)
  then show ?thesis
    using remove_known [OF ok _ f, of "removal_header (example_config fails) cleanup_ref" _ 9] example_key_ok
    by (auto simp: p extracted_def removal_header_def) (auto simp: example_clones_def)
qed

lemma example_pool_get:
  "pool_get cleanup_ref True (example_pool cs) = (example_pool cs, Inr (example_clones cs))"
  "pool_put cleanup_ref (example_clones cs') (example_pool cs) = example_pool cs'"
  by (simp_all add: pool_get_def pool_find_def node_of_def example_pool_def example_clones_def pool_put_def)

lemma example_removal:
  "\<exists>d'. dispatch 9 (\<lambda>_ _ _. Finish) 1 \<lparr>tr_header = removal_header (example_config fails) cleanup_ref,
      tr_type = cleanup_ref, tr_instance = example_area (Some 1) (Some ''a'') None\<rparr> (h_dispatcher example_host) = (d', Inr ())
    \<and> containerPool d' = example_pool []"
proof -
  obtain u info where r: "container_remove 9 (removal_header (example_config fails) cleanup_ref) (example_area (Some 1) (Some ''a'') None)
      (example_clones [(example_area (Some 1) (Some ''a'') None, example_info)]) =
      (example_clones [], Inr (Some (u, info)))" "lastOperation info = Some Mt_remove"
    using example_container_remove by blast
  have h: "hd_removeObj (removal_header cfg d) = Some True" for cfg :: "nat host_config" and d by (simp add: removal_header_def)
  show ?thesis
    using r by (auto simp: example_host_def dispatcher_new_def dispatchTransmission_def dispatchEvent_def Let_def change_container_def with_container_def
        put_handlers_def handlers_of_def example_pool_get h dispatch_event_of_def event_new_def dispatchToHandlers_def deref_def)
qed


definition uncached_ref :: sd_ref where
  "uncached_ref = SdRef 2 (StructDescriptor ''Event'' 0 [])"

lemma host_stays_wf_witness:
  "host_wf (fst (host_accept (example_config (\<lambda>_ _. None)) 3 7 (host_new :: nat host)))"
proof -
  have wf: "host_wf (host_new :: nat host)"
    by (simp add: host_wf_def groups_ok_def host_new_def dispatcher_wf_new)
  have "\<not> is_ub (snd (host_accept (example_config (\<lambda>_ _. None)) 3 7 (host_new :: nat host)))"
    by (simp add: host_accept_def conn_asyncReceive_def connection_new_def setConnectionState_def catchA_def
        host_handleTransition_with_def host_handleTransitionImpl_with_def host_transition_handler_def isHost_def
        expectSystemType_def modify_conn_def transmit_message_def channel_put_def example_config_def host_new_def guest_env_def host_env_def Let_def)
  then show ?thesis using host_stays_wf [OF wf] by blast
qed

lemma host_relays_instance_witness:
  "\<exists>d'. host_handleTransmission (example_config (\<lambda>_ _. None)) 1 1 (empty_header\<lparr>hd_typeName := Some ''Event''\<rparr>)
      (Instance uncached_ref (Area ps_None [])) (host_new\<lparr>h_guests := [1], h_conns := (\<lambda>_. open_guest 3), h_groups := (\<lambda>_. [1])\<rparr>) =
    (host_new\<lparr>h_guests := [1], h_conns := (\<lambda>_. open_guest 3), h_groups := (\<lambda>_. [1]), h_dispatcher := d',
       h_frames := [(1, Message (Data (empty_header\<lparr>hd_typeName := Some ''Event''\<rparr>) (Instance uncached_ref (Area ps_None []))))]\<rparr>, Inr True)"
proof -
  let ?cfg = "example_config (\<lambda>_ _. None)" and ?h = "empty_header\<lparr>hd_typeName := Some ''Event''\<rparr>"
  let ?st = "host_new\<lparr>h_guests := [1], h_conns := (\<lambda>_. open_guest 3), h_groups := (\<lambda>_. [1])\<rparr> :: nat host"
  have "\<exists>d'. dispatch (f_now ?cfg) (f_client ?cfg) (f_depth ?cfg)
     \<lparr>tr_header = ?h, tr_type = uncached_ref, tr_instance = Area ps_None []\<rparr> (h_dispatcher ?st) = (d', Inr ())"
    by (simp add: example_config_def host_new_def dispatcher_new_def dispatchTransmission_def dispatchEvent_def Let_def
        uncached_ref_def cached_def empty_header_def dispatch_event_of_def event_new_def dispatchToHandlers_def
        put_handlers_def handlers_of_def)
  then obtain d' where d': "dispatch (f_now ?cfg) (f_client ?cfg) (f_depth ?cfg)
     \<lparr>tr_header = ?h, tr_type = uncached_ref, tr_instance = Area ps_None []\<rparr> (h_dispatcher ?st) = (d', Inr ())" by blast
  have "no_failures ?cfg" "host_wf ?st" "1 \<in> set (h_guests ?st)" "hd_typeName ?h = Some ''Event''"
    by (simp_all add: no_failures_def example_config_def host_wf_def groups_ok_def host_new_def dispatcher_wf_new)
  from host_relays_instance [OF this d', of 0] show ?thesis
    by (auto simp: open_guest_def closed_def host_new_def)
qed

lemma join_replays_cache_witness:
  "\<exists>st'. host_handleTransmission (example_config (\<lambda>_ _. None)) 1 1 empty_header
      (Member \<lparr>member_groupName = Some ''Example'', member_event = Some Ev_join, member_client = None\<rparr>) example_host =
    (st', Inr True) \<and> length (h_frames st') = 2"
proof -
  let ?cfg = "example_config (\<lambda>_ _. None)"
  have c: "clones_of cleanup_ref example_host = [(example_area (Some 1) (Some ''a'') None, example_info)]"
    by (simp add: clones_of_def example_host_def example_pool_def pool_find_def node_of_def)
  have "no_failures ?cfg" "1 \<in> set (h_guests example_host)" "findStructType ?cfg ''Example'' = Some cleanup_ref"
    by (simp_all add: no_failures_def example_config_def example_host_def findStructType_def)
  from join_replays_cache [OF this(1,2) _ _ this(3), of "\<lparr>member_groupName = Some ''Example'', member_event = Some Ev_join, member_client = None\<rparr>" 1 empty_header]
  show ?thesis
    by (simp add: c example_info_def Let_def group_join_def) (simp add: example_host_def host_new_def open_guest_def closed_def)
qed

end
