(* ===== verification/Host_Cleanup.thy ===== *)
theory Host_Cleanup
  imports Host_Relay
begin

text \<open>
  What is left of a guest whose connection has closed: the host removes the instances that the guest has
  updated last, and tells the members of their groups.
\<close>

section \<open>Dispatching a removal\<close>

lemma dispatch_removal:
  assumes "flat_client call" "quiescent st" "cached (sd_of d)" "hd_removeObj h = Some True"
    and "container_remove now h a (current_container d st) = (c', Inr (Some (u, info)))"
    and "lastOperation info = Some mt"
  shows "\<exists>st'. dispatch now call (Suc n) \<lparr>tr_header = h, tr_type = d, tr_instance = a\<rparr> st = (st', Inr ())
    \<and> quiescent st' \<and> pool_find d (containerPool st') = Some c'
    \<and> (\<forall>e. sd_addr e \<noteq> sd_addr d \<longrightarrow> pool_find e (containerPool st') = pool_find e (containerPool st))"
proof -
  let ?run = "run_prog (dispatch now call n) (addEventHandler now call n)"
  let ?t = "\<lparr>tr_header = h, tr_type = d, tr_instance = a\<rparr>"
  let ?ev = "\<lparr>ev_header = h, ev_transmitted = a, ev_updated = u, ev_cloneInfo = info, ev_mt = mt\<rparr>"
  obtain st1 where 1: "dispatchTransmission call ?run ?t st = (st1, Inr ())" "quiescent st1" "containerPool st1 = containerPool st"
    using dispatchTransmission_flat [OF assms(1,2)] by blast
  have "current_container d st1 = current_container d st" using 1(3) by (simp add: current_container_def)
  then have o: "cached_outcome now ?t (current_container (tr_type ?t) st1) = (c', Inr (Some ?ev))"
    using assms(4-6) by (simp add: cached_outcome_def event_new_def)
  have cached: "cached (sd_of (tr_type ?t))" using assms(3) by simp
  obtain st3 seen where 3: "dispatchEvent now call ?run ?t st1 = dispatchToHandlers call ?run Event_Pool d (seen ?ev) st3"
    "shows_same (seen ?ev) (Ev ?ev) st3" "quiescent st3" "pool_find d (containerPool st3) = Some c'"
    "\<And>e. sd_addr e \<noteq> sd_addr d \<Longrightarrow> pool_find e (containerPool st3) = pool_find e (containerPool st1)"
    by (rule dispatchEvent_cached [OF 1(2) cached o, where call = call and run = ?run]) simp
  obtain st' where 4: "dispatchToHandlers call ?run Event_Pool d (seen ?ev) st3 = (st', Inr ())"
    "quiescent st'" "containerPool st' = containerPool st3"
    using dispatchToHandlers_flat [OF assms(1) 3(3,2), of "dispatch now call n" "addEventHandler now call n" Event_Pool d] by blast
  have "dispatch now call (Suc n) ?t st = (st', Inr ())" using 1(1) 3(1) 4(1) by simp
  then show ?thesis using 3(4,5) 4(2,3) 1(3) by auto
qed

section \<open>Removing collected instances\<close>

definition caches_ok :: "'h host \<Rightarrow> bool" where
  "caches_ok st \<longleftrightarrow> groups_ok st \<and> quiescent (h_dispatcher st)
     \<and> (\<forall>d c. pool_find d (containerPool (h_dispatcher st)) = Some c \<longrightarrow> container_ok c)"

definition removable :: "'h host \<Rightarrow> sd_ref \<Rightarrow> bool" where
  "removable st d \<longleftrightarrow> cached (sd_of d) \<and> \<not> substructOnly (sd_of d)
     \<and> (\<exists>c. pool_find d (containerPool (h_dispatcher st)) = Some c \<and> cont_descriptor c = sd_of d)"

lemma key_valid:
  assumes "key_ok (propertyDescriptors sd) a"
  shows "ps_le (keyProperties sd) (validProperties a)"
proof -
  let ?ps = "propertyDescriptors sd"
  have wf: "wf_tags ?ps" "wf_area ?ps a" using assms by (simp_all add: key_ok_def)
  have "ps_members (keyProperties sd) = {pd_index p | p. p \<in> set ?ps \<and> isKey p}"
    using ps_members_key_loop [of ?ps ps_None] wf(1) by (simp add: keyProperties_def wf_tags_def)
  moreover have "pd_index p \<in> ps_members (validProperties a)" if p: "p \<in> set ?ps" "isKey p" for p
  proof -
    obtain i where i: "i < length ?ps" "?ps ! i = p" using p(1) by (auto simp: in_set_conv_nth)
    then have "slots a ! i \<noteq> None" using assms p(2) by (auto simp: key_ok_def)
    then show ?thesis using wf p(1) i by (simp add: wf_area_def wf_tags_def)
  qed
  ultimately show ?thesis by auto
qed

lemma remove_member:
  assumes "container_ok c" "(a, info) \<in> clones c" "hd_attributes h = Some attributes"
  shows "\<exists>c' u info'. container_remove now h a c = (c', Inr (Some (u, info'))) \<and> lastOperation info' = Some Mt_remove
    \<and> container_ok c' \<and> cont_descriptor c' = cont_descriptor c \<and> clones c' = {cl \<in> clones c. fst cl \<noteq> a}"
proof -
  have k: "key_ok (cont_props c) a" using clone_key_ok [OF assms(1,2)] by simp
  have "key_equal (cont_props c) a a"
    using container_keys.eq_iff [of a "cont_props c" a] container_keys.irrefl [of a "cont_props c"] k by simp
  then have f: "findClone a c = Some (a, info)" using findClone_Some [OF assms(1) k] assms(2) by simp
  have "cl = (a, info)" if "cl \<in> clones c" "fst cl = a" for cl
  proof -
    have "findClone a c = Some cl"
      using that \<open>key_equal (cont_props c) a a\<close> by (simp add: findClone_Some [OF assms(1) k])
    then show ?thesis using f by simp
  qed
  then have "cl \<in> clones c \<Longrightarrow> fst cl = a \<longleftrightarrow> cl = (a, info)" for cl by (rule iffI) simp_all
  then have "clones c - {(a, info)} = {cl \<in> clones c. fst cl \<noteq> a}" by blast
  moreover obtain u info' where "container_remove now h a c = (extracted a c, Inr (Some (u, info')))" "lastOperation info' = Some Mt_remove"
  proof -
    from remove_known [OF assms(1) k f assms(3), of now] obtain u where
      "container_remove now h a c = (extracted a c, Inr (Some (u, info\<lparr>lastOperation := Some Mt_remove,
        lastUpdateFrom := hd_sender h, modified := hd_sentTime h, localUpdateTime := Some now\<rparr>)))"
      by (elim exE conjE)
    then show ?thesis by (rule that) simp
  qed
  ultimately show ?thesis
    using extracted_ok(1-3) [OF assms(1) k f]
    by (intro exI [of _ "extracted a c"] exI [of _ u] exI [of _ info']) simp
qed

text \<open>One removal: the clone is gone, everything else in the caches stays.\<close>

definition cached_clones :: "'h host \<Rightarrow> sd_ref \<Rightarrow> clone set" where
  "cached_clones st d = set (clones_of d st)"

lemma cached_clones_frames [simp]: "cached_clones (st\<lparr>h_frames := fs\<rparr>) d = cached_clones st d"
  by (simp add: cached_clones_def clones_of_def)

text \<open>The frames by which the removals of instances reach the open members of the groups of their types.\<close>

definition removal_frames :: "'h host_config \<Rightarrow> 'h host \<Rightarrow> (sd_ref \<times> area) list \<Rightarrow> (nat \<times> frame) list" where
  "removal_frames cfg st xs =
     concat (List.map (\<lambda>(d, a). List.map (\<lambda>i. (i, Message (Data (removal_header cfg d) (Instance d a))))
       (filter (\<lambda>i. c_state (h_conns st i) \<noteq> Closed) (h_groups st (sd_name (sd_of d))))) xs)"

lemma removal_frames_simps:
  "removal_frames cfg st [] = []"
  "removal_frames cfg st (x # xs) = removal_frames cfg st [x] @ removal_frames cfg st xs"
  by (simp_all add: removal_frames_def)

lemma removal_frames_cong:
  "h_conns st' = h_conns st \<Longrightarrow> h_groups st' = h_groups st \<Longrightarrow> removal_frames cfg st' xs = removal_frames cfg st xs"
  by (simp add: removal_frames_def)

lemma removal_attributes:
  "hd_attributes (removal_header cfg d) = Some (ps_intersect (keyProperties (sd_of d)) (properties (sd_of d)))"
  by (simp add: removal_header_def)

lemma host_remove_ok:
  assumes "no_failures cfg" "flat_client (f_client cfg)" "f_depth cfg = Suc i"
    and "caches_ok st" "removable st d" "(a, info) \<in> cached_clones st d"
  shows "\<exists>st'. host_remove_with cfg (host_transmit cfg (Suc n)) d a st = (st', Inr ()) \<and> caches_ok st'
    \<and> h_conns st' = h_conns st \<and> h_guests st' = h_guests st \<and> h_groups st' = h_groups st
    \<and> h_frames st' = h_frames st @ removal_frames cfg st [(d, a)]
    \<and> (\<forall>e. removable st e \<longrightarrow> removable st' e)
    \<and> (\<forall>e. cached_clones st' e = {cl \<in> cached_clones st e. sd_addr e = sd_addr d \<longrightarrow> fst cl \<noteq> a})"
proof -
  obtain c where c: "pool_find d (containerPool (h_dispatcher st)) = Some c" "cont_descriptor c = sd_of d"
    using assms(5) by (auto simp: removable_def)
  have m: "container_ok c" "(a, info) \<in> clones c" "current_container d (h_dispatcher st) = c"
    using assms(4,6) c(1) by (auto simp: caches_ok_def cached_clones_def clones_of_def clones_def current_container_def)
  have valid: "ps_le (keyProperties (sd_of d)) (validProperties a)"
    using key_valid clone_key_ok [OF m(1,2)] c(2) by simp
  obtain c' u info' where r: "container_remove (f_now cfg) (removal_header cfg d) a c = (c', Inr (Some (u, info')))"
    "lastOperation info' = Some Mt_remove" "container_ok c'" "cont_descriptor c' = sd_of d" "clones c' = {cl \<in> clones c. fst cl \<noteq> a}"
    using remove_member [OF m(1,2), of "removal_header cfg d" _ "f_now cfg", OF removal_attributes] c(2) by auto
  obtain d' where d': "dispatch (f_now cfg) (f_client cfg) (f_depth cfg) \<lparr>tr_header = removal_header cfg d, tr_type = d, tr_instance = a\<rparr>
      (h_dispatcher st) = (d', Inr ())" "quiescent d'" "pool_find d (containerPool d') = Some c'"
      "\<And>e. sd_addr e \<noteq> sd_addr d \<Longrightarrow> pool_find e (containerPool d') = pool_find e (containerPool (h_dispatcher st))"
  proof -
    have "quiescent (h_dispatcher st)" "cached (sd_of d)" "hd_removeObj (removal_header cfg d) = Some True"
      using assms(4,5) by (simp_all add: caches_ok_def removable_def removal_header_def)
    from dispatch_removal [OF assms(2) this, of "f_now cfg" a c' u info' Mt_remove i] show ?thesis
      using that r(1,2) m(3) assms(3) by (auto simp del: dispatch.simps)
  qed
  have same: "pool_find e p = pool_find d p" if "sd_addr e = sd_addr d" for e p
    using that by (simp add: pool_find_def node_of_def)
  let ?st = "st\<lparr>h_dispatcher := d'\<rparr>"
  have ok: "caches_ok ?st"
  proof -
    have "container_ok x" if x: "pool_find e (containerPool d') = Some x" for e x
    proof (cases "sd_addr e = sd_addr d")
      case True
      then show ?thesis using x d'(3) r(3) same [of e "containerPool d'"] by simp
    next
      case False
      then show ?thesis using x d'(4) [of e] assms(4) by (simp add: caches_ok_def)
    qed
    then show ?thesis using assms(4) d'(2) by (auto simp: caches_ok_def groups_ok_def)
  qed
  have rem: "removable ?st e" if "removable st e" for e
  proof (cases "sd_addr e = sd_addr d")
    case True
    then have "pool_find e (containerPool d') = Some c'" "pool_find e (containerPool (h_dispatcher st)) = Some c"
      using same [of e] d'(3) c(1) by simp_all
    then show ?thesis using that r(4) c(2) by (simp add: removable_def)
  next
    case False
    then show ?thesis using that d'(4) [of e] by (simp add: removable_def)
  qed
  have cl: "cached_clones ?st e = {cl \<in> cached_clones st e. sd_addr e = sd_addr d \<longrightarrow> fst cl \<noteq> a}" for e
  proof (cases "sd_addr e = sd_addr d")
    case True
    then have "pool_find e (containerPool d') = Some c'" "pool_find e (containerPool (h_dispatcher st)) = Some c"
      using same [of e] d'(3) c(1) by simp_all
    then show ?thesis using True r(5) by (simp add: cached_clones_def clones_of_def clones_def)
  next
    case False
    then show ?thesis using d'(4) [of e] by (simp add: cached_clones_def clones_of_def)
  qed
  have t: "host_transmit cfg (Suc n) (removal_header cfg d) (Instance d a) ?st =
      (?st\<lparr>h_frames := h_frames st @ List.map (\<lambda>k. (k, Message (Data (removal_header cfg d) (Instance d a))))
        (filter (\<lambda>k. c_state (h_conns st k) \<noteq> Closed) (h_groups st (sd_name (sd_of d))))\<rparr>, Inr ())"
    using host_transmit_ok [OF assms(1), of ?st "removal_header cfg d" "sd_name (sd_of d)" n "Instance d a"] ok
    by (simp add: caches_ok_def removal_header_def del: host_transmit.simps)
  have frames: "caches_ok (s\<lparr>h_frames := fs\<rparr>) = caches_ok s" "removable (s\<lparr>h_frames := fs\<rparr>) e = removable s e" for s :: "'a host" and fs e
    by (simp_all add: caches_ok_def groups_ok_def removable_def)
  have ns: "\<not> substructOnly (sd_of d)" using assms(5) by (simp add: removable_def)
  show ?thesis
    by (subst host_remove_eq [OF ns valid])
      (simp add: host_dispatcher_def d'(1) t ok frames rem cl removal_frames_def del: host_transmit.simps)
qed

lemma remove_collected_ok:
  assumes "no_failures cfg" "flat_client (f_client cfg)" "f_depth cfg = Suc i"
  shows "\<lbrakk>caches_ok st; \<forall>(d, a) \<in> set xs. removable st d \<and> a \<in> fst ` cached_clones st d;
      distinct (List.map (\<lambda>(d, a). (sd_addr d, a)) xs)\<rbrakk> \<Longrightarrow>
    \<exists>st'. remove_collected cfg (host_transmit cfg (Suc n)) xs st = (st', Inr ()) \<and> caches_ok st'
      \<and> h_conns st' = h_conns st \<and> h_guests st' = h_guests st \<and> h_groups st' = h_groups st
      \<and> h_frames st' = h_frames st @ removal_frames cfg st xs
      \<and> (\<forall>e. cached_clones st' e = {cl \<in> cached_clones st e. (sd_addr e, fst cl) \<notin> (\<lambda>(d, a). (sd_addr d, a)) ` set xs})"
proof (induction xs arbitrary: st)
  case (Cons x xs)
  obtain d a where x: "x = (d, a)" by (cases x)
  obtain info where m: "removable st d" "(a, info) \<in> cached_clones st d" using Cons.prems(2) by (auto simp: x)
  obtain st1 where 1: "host_remove_with cfg (host_transmit cfg (Suc n)) d a st = (st1, Inr ())" "caches_ok st1"
    "h_conns st1 = h_conns st" "h_guests st1 = h_guests st" "h_groups st1 = h_groups st"
    "h_frames st1 = h_frames st @ removal_frames cfg st [x]"
    "\<And>e. removable st e \<Longrightarrow> removable st1 e"
    "\<And>e. cached_clones st1 e = {cl \<in> cached_clones st e. sd_addr e = sd_addr d \<longrightarrow> fst cl \<noteq> a}"
    using host_remove_ok [OF assms Cons.prems(1) m, of n] unfolding x by blast
  have "\<forall>(d, a) \<in> set xs. removable st1 d \<and> a \<in> fst ` cached_clones st1 d"
  proof (intro ballI)
    fix y assume y: "y \<in> set xs"
    obtain e b where e: "y = (e, b)" by (cases y)
    have "(sd_addr e, b) \<noteq> (sd_addr d, a)" using Cons.prems(3) y by (force simp: x e)
    moreover obtain info' where "removable st e" "(b, info') \<in> cached_clones st e" using Cons.prems(2) y by (auto simp: e)
    ultimately have "removable st1 e" "(b, info') \<in> cached_clones st1 e" using 1(7,8) by auto
    then show "case y of (d, a) \<Rightarrow> removable st1 d \<and> a \<in> fst ` cached_clones st1 d"
      by (simp add: e) (metis fst_conv image_eqI)
  qed
  moreover have "distinct (List.map (\<lambda>(d, a). (sd_addr d, a)) xs)" using Cons.prems(3) by simp
  ultimately obtain st2 where 2: "remove_collected cfg (host_transmit cfg (Suc n)) xs st1 = (st2, Inr ())" "caches_ok st2"
    "h_conns st2 = h_conns st1" "h_guests st2 = h_guests st1" "h_groups st2 = h_groups st1"
    "h_frames st2 = h_frames st1 @ removal_frames cfg st1 xs"
    "\<And>e. cached_clones st2 e = {cl \<in> cached_clones st1 e. (sd_addr e, fst cl) \<notin> (\<lambda>(d, a). (sd_addr d, a)) ` set xs}"
    using Cons.IH [OF 1(2)] by blast
  have "a \<in> fst ` set (clones_of d st)" using m(2) by (force simp: cached_clones_def)
  then have "remove_collected cfg (host_transmit cfg (Suc n)) (x # xs) st = (st2, Inr ())"
    using 1(1) 2(1) by (simp add: x del: host_transmit.simps)
  moreover have "cached_clones st2 e = {cl \<in> cached_clones st e. (sd_addr e, fst cl) \<notin> (\<lambda>(d, a). (sd_addr d, a)) ` set (x # xs)}" for e
    unfolding 2(7) 1(8) by (auto simp: x)
  moreover have "h_frames st2 = h_frames st @ removal_frames cfg st (x # xs)"
    using removal_frames_cong [OF 1(3,5), of cfg xs] removal_frames_simps(2) [of cfg st x xs] 1(6) 2(6) by simp
  ultimately show ?case using 2(2-5) 1(3-5) by (intro exI [of _ st2]) (simp del: host_transmit.simps)
qed (simp add: removal_frames_simps)

section \<open>After a guest has gone\<close>

lemma container_distinct:
  assumes "container_ok c"
  shows "distinct (List.map fst (m_instances c))"
proof -
  have ok: "map_ok (Collect (key_ok (cont_props c))) (key_compare (cont_props c)) (m_instances c)"
    using assms by (simp add: container_ok_def)
  have "inj_on fst (set (m_instances c))"
  proof (intro inj_onI)
    fix x y assume m: "x \<in> set (m_instances c)" "y \<in> set (m_instances c)" "fst x = fst y"
    have "key_ok (cont_props c) (fst x)" using container_keys.map_ok_C [OF ok m(1)] by simp
    then have "key_equal (cont_props c) (fst x) (fst y)"
      using container_keys.eq_iff [of "fst x" "cont_props c" "fst x"] container_keys.irrefl [of "fst x" "cont_props c"] m(3) by simp
    then show "x = y" using container_keys.map_ok_unique [OF ok m(1,2)] by simp
  qed
  then show ?thesis using container_keys.map_ok_distinct [OF ok] by (simp add: distinct_map)
qed

lemma distinct_collected:
  assumes "distinct (List.map (\<lambda>m. sd_addr (node_descriptor m)) ms)"
    and "\<forall>m \<in> set ms. distinct (List.map fst (m_instances (node_container m)))"
  shows "distinct (List.map (\<lambda>(d, a). (sd_addr d, a)) (concat (List.map (\<lambda>m. if P m
     then List.map (\<lambda>(a, info). (node_descriptor m, a)) (filter (Q m) (m_instances (node_container m))) else []) ms)))"
  using assms
proof (induction ms)
  case (Cons m ms)
  let ?f = "\<lambda>(d, a). (sd_addr d, a)"
  have fst_map: "List.map ?f (List.map (\<lambda>(a, info). (d, a)) cs) = List.map (Pair (sd_addr d)) (List.map fst cs)" for d and cs :: "clone list"
    by (simp add: case_prod_unfold comp_def)
  have "distinct (List.map fst (filter (Q m) (m_instances (node_container m))))"
    using Cons.prems(2) by (simp add: distinct_map_filter)
  then have "distinct (List.map ?f (List.map (\<lambda>(a, info). (node_descriptor m, a)) (filter (Q m) (m_instances (node_container m)))))"
    unfolding fst_map by (simp add: distinct_map inj_on_def)
  moreover have "sd_addr (node_descriptor m) \<notin> (\<lambda>m. sd_addr (node_descriptor m)) ` set ms" using Cons.prems(1) by simp
  ultimately show ?case using Cons by (auto split: if_splits)
qed simp

lemma transition_handler_frame:
  assumes "host_transition_handler cfg k e st = (st0, r)"
  shows "\<exists>d. st0 = st\<lparr>h_dispatcher := d\<rparr>"
proof (cases "f_transition cfg")
  case None
  then have "st0 = st\<lparr>h_dispatcher := h_dispatcher st\<rparr>" using assms by (simp add: host_transition_handler_def)
  then show ?thesis by blast
next
  case (Some handler)
  have "fst (catchA m (\<lambda>x st. (st, Inr ()))) = fst m" for m :: "'a host \<times> unit result"
    by (cases m) (simp add: catchA_def split: sum.split)
  then show ?thesis
    using assms Some by (auto simp: host_transition_handler_def host_dispatcher_def split: prod.splits dest!: arg_cong [where f = fst])
qed

text \<open>The instances that a guest leaves behind, which are those whose last update came from it.\<close>

definition left_behind :: "(clone_info \<Rightarrow> 32 word option) \<Rightarrow> 32 word \<Rightarrow> 'h host \<Rightarrow> (sd_ref \<times> area) set" where
  "left_behind from peer st =
     {(node_descriptor m, a) | m a info. m \<in> set (m_pool (containerPool (h_dispatcher st)))
        \<and> cleanup (sd_of (node_descriptor m)) \<and> (a, info) \<in> cached_clones st (node_descriptor m) \<and> from info = Some peer}"

lemma cached_nodes:
  assumes "caches_ok st" "m \<in> set (m_pool (containerPool (h_dispatcher st)))"
  shows "pool_find (node_descriptor m) (containerPool (h_dispatcher st)) = Some (node_container m)"
    "cached_clones st (node_descriptor m) = set (m_instances (node_container m))"
    "cont_descriptor (node_container m) = sd_of (node_descriptor m)"
proof -
  have wf: "pool_wf (containerPool (h_dispatcher st))" "pool_typed (containerPool (h_dispatcher st))"
    using assms(1) by (auto simp: caches_ok_def quiescent_def dispatcher_wf_iff)
  have "node_of (node_descriptor m) (containerPool (h_dispatcher st)) = Some m"
    using find_unique_key [of "\<lambda>m. sd_addr (node_descriptor m)" "m_pool (containerPool (h_dispatcher st))" m] wf(1) assms(2)
    by (simp add: node_of_def pool_wf_def)
  then show "pool_find (node_descriptor m) (containerPool (h_dispatcher st)) = Some (node_container m)"
    by (simp add: pool_find_def)
  then show "cached_clones st (node_descriptor m) = set (m_instances (node_container m))"
    by (simp add: cached_clones_def clones_of_def)
  show "cont_descriptor (node_container m) = sd_of (node_descriptor m)" using wf(2) assms(2) by (simp add: pool_typed_def)
qed

lemma cleanup_instances_set:
  assumes "caches_ok st"
  shows "set (cleanup_instances peer st) = left_behind lastUpdateFrom peer st"
proof -
  have "set (cleanup_instances peer st) = {(node_descriptor m, a) | m a info. m \<in> set (m_pool (containerPool (h_dispatcher st)))
        \<and> cleanup (sd_of (node_descriptor m)) \<and> (a, info) \<in> set (m_instances (node_container m)) \<and> lastUpdateFrom info = Some peer}"
    by (auto simp: cleanup_instances_def image_iff split: if_splits)
  also have "\<dots> = left_behind lastUpdateFrom peer st"
    using cached_nodes(2) [OF assms] unfolding left_behind_def by blast
  finally show ?thesis .
qed

lemma cleanup_instances_distinct:
  assumes "caches_ok st"
  shows "distinct (List.map (\<lambda>(d, a). (sd_addr d, a)) (cleanup_instances peer st))"
proof -
  have "distinct (List.map (\<lambda>m. sd_addr (node_descriptor m)) (m_pool (containerPool (h_dispatcher st))))"
    using assms by (auto simp: caches_ok_def quiescent_def dispatcher_wf_iff pool_wf_def)
  moreover have "\<forall>m \<in> set (m_pool (containerPool (h_dispatcher st))). distinct (List.map fst (m_instances (node_container m)))"
    using cached_nodes(1) [OF assms] assms container_distinct unfolding caches_ok_def by blast
  ultimately show ?thesis
    using distinct_collected [of "m_pool (containerPool (h_dispatcher st))" "\<lambda>m. cleanup (sd_of (node_descriptor m))"
        "\<lambda>m (a, info). lastUpdateFrom info = Some peer"]
    by (simp add: cleanup_instances_def)
qed

lemma left_behind_iff:
  assumes "caches_ok st" "m \<in> set (m_pool (containerPool (h_dispatcher st)))" "cl \<in> cached_clones st (node_descriptor m)"
  shows "(sd_addr (node_descriptor m), fst cl) \<in> (\<lambda>(d, a). (sd_addr d, a)) ` left_behind from peer st \<longleftrightarrow>
     cleanup (sd_of (node_descriptor m)) \<and> from (snd cl) = Some peer"
proof
  assume "(sd_addr (node_descriptor m), fst cl) \<in> (\<lambda>(d, a). (sd_addr d, a)) ` left_behind from peer st"
  then obtain m' info where m': "m' \<in> set (m_pool (containerPool (h_dispatcher st)))"
    "sd_addr (node_descriptor m') = sd_addr (node_descriptor m)" "cleanup (sd_of (node_descriptor m'))"
    "(fst cl, info) \<in> cached_clones st (node_descriptor m')" "from info = Some peer"
    by (auto simp: left_behind_def)
  have "m' = m"
    using assms(1,2) m'(1,2) by (auto simp: caches_ok_def quiescent_def dispatcher_wf_iff pool_wf_def distinct_map dest: inj_onD)
  moreover from this have "(fst cl, info) = cl"
    using m'(4) assms(3) cached_nodes(1,2) [OF assms(1,2)] assms(1) container_distinct [of "node_container m"]
    by (metis caches_ok_def distinct_map fst_conv inj_onD)
  then have "info = snd cl" by (metis snd_conv)
  ultimately show "cleanup (sd_of (node_descriptor m)) \<and> from (snd cl) = Some peer" using m' by simp
next
  assume "cleanup (sd_of (node_descriptor m)) \<and> from (snd cl) = Some peer"
  then have "(node_descriptor m, fst cl) \<in> left_behind from peer st"
    using assms(2,3) by (cases cl) (auto simp: left_behind_def)
  then show "(sd_addr (node_descriptor m), fst cl) \<in> (\<lambda>(d, a). (sd_addr d, a)) ` left_behind from peer st" by force
qed

text \<open>C22: When the connection of a guest has closed and the transition handler of the application has
  returned, the host forgets the guest in every group, takes exactly those cached instances of
  cleanup types out of the caches whose last update came from it, and transmits the removal of
  each of them once to the open members of the group of its type; every other cached instance
  stays. The premises are that no channel fails, that the caches are consistent and no
  dispatch is under way, that event handlers neither dispatch nor add event handlers, and that
  cleanup types are cached and can be published. The documentation of the flag speaks of the
  creator of an instance instead: the code agrees with it where every instance was last
  updated by its creator.\<close>

theorem closing_cleans_up:
  assumes "no_failures cfg" "flat_client (f_client cfg)" "f_depth cfg = Suc i"
    and "c_state (h_conns st k) = Closed" "host_transition_handler cfg k e st = (st0, Inr ())" "caches_ok st0"
    and "\<forall>m \<in> set (m_pool (containerPool (h_dispatcher st0))). cleanup (sd_of (node_descriptor m)) \<longrightarrow>
           cached (sd_of (node_descriptor m)) \<and> \<not> substructOnly (sd_of (node_descriptor m))"
  shows "\<exists>st' removed. host_handleTransition cfg (Suc n) k e st = (st', Inr ()) \<and> caches_ok st'
    \<and> k \<notin> set (h_guests st') \<and> (\<forall>g. h_groups st' g = filter (\<lambda>i. i \<noteq> k) (h_groups st g)) \<and> h_conns st' = h_conns st
    \<and> distinct removed \<and> set removed = left_behind lastUpdateFrom (c_peerId (h_conns st k)) st0
    \<and> h_frames st' = h_frames st @ removal_frames cfg st' removed
    \<and> (\<forall>m \<in> set (m_pool (containerPool (h_dispatcher st0))). cached_clones st' (node_descriptor m) =
          {cl \<in> cached_clones st0 (node_descriptor m). (node_descriptor m, fst cl) \<notin> set removed})
    \<and> ((\<forall>m \<in> set (m_pool (containerPool (h_dispatcher st0))). \<forall>cl \<in> cached_clones st0 (node_descriptor m).
           createdFrom (snd cl) = lastUpdateFrom (snd cl)) \<longrightarrow>
         set removed = left_behind createdFrom (c_peerId (h_conns st k)) st0)"
proof -
  let ?st1 = "st0\<lparr>h_groups := (\<lambda>g. filter (\<lambda>i. i \<noteq> k) (h_groups st0 g))\<rparr>" and ?peer = "c_peerId (h_conns st k)"
  let ?xs = "cleanup_instances ?peer ?st1" and ?pool = "m_pool (containerPool (h_dispatcher st0))"
  obtain d where st0: "st0 = st\<lparr>h_dispatcher := d\<rparr>" using transition_handler_frame [OF assms(5)] by blast
  have ok: "caches_ok ?st1" using assms(6) by (auto simp: caches_ok_def groups_ok_def)
  have clones: "cached_clones ?st1 = cached_clones st0" by (simp add: fun_eq_iff cached_clones_def clones_of_def)
  have left: "left_behind from ?peer ?st1 = left_behind from ?peer st0" for "from" by (simp add: left_behind_def clones)
  note xs = cleanup_instances_set [OF ok, of ?peer] and dist = cleanup_instances_distinct [OF ok, of ?peer]
  have "\<forall>(d, a) \<in> set ?xs. removable ?st1 d \<and> a \<in> fst ` cached_clones ?st1 d"
  proof (intro ballI, clarify)
    fix d a assume "(d, a) \<in> set ?xs"
    then obtain m info where m: "m \<in> set ?pool" "cleanup (sd_of (node_descriptor m))" "d = node_descriptor m"
      "(a, info) \<in> cached_clones st0 d"
      unfolding xs left by (auto simp: left_behind_def)
    have "removable st0 d" using assms(7) m(1-3) cached_nodes(1,3) [OF assms(6) m(1)] by (simp add: removable_def)
    moreover have "a \<in> fst ` cached_clones st0 d" using m(4) by force
    ultimately show "removable ?st1 d \<and> a \<in> fst ` cached_clones ?st1 d"
      by (simp add: removable_def clones)
  qed
  then obtain st2 where 2: "remove_collected cfg (host_transmit cfg (Suc n)) ?xs ?st1 = (st2, Inr ())" "caches_ok st2"
    "h_conns st2 = h_conns ?st1" "h_groups st2 = h_groups ?st1" "h_frames st2 = h_frames ?st1 @ removal_frames cfg ?st1 ?xs"
    "\<And>e. cached_clones st2 e = {cl \<in> cached_clones ?st1 e. (sd_addr e, fst cl) \<notin> (\<lambda>(d, a). (sd_addr d, a)) ` set ?xs}"
    using remove_collected_ok [OF assms(1-3) ok _ dist, of n] by blast
  let ?st' = "st2\<lparr>h_guests := filter (\<lambda>i. i \<noteq> k) (h_guests st2)\<rparr>"
  have "host_handleTransition cfg (Suc n) k e st = (?st', Inr ())"
    using assms(4,5) 2(1) st0
    by (simp add: host_handleTransition_with_def host_handleTransitionImpl_with_def Let_def catchA_def del: host_transmit.simps)
  moreover have "caches_ok ?st'" using 2(2,4) by (auto simp: caches_ok_def groups_ok_def)
  moreover have "h_frames ?st' = h_frames st @ removal_frames cfg ?st' ?xs"
    using removal_frames_cong [of ?st' ?st1 cfg ?xs] 2(3-5) by (simp add: st0)
  moreover have "cached_clones ?st' (node_descriptor m) =
      {cl \<in> cached_clones st0 (node_descriptor m). (node_descriptor m, fst cl) \<notin> set ?xs}" if m: "m \<in> set ?pool" for m
  proof -
    have same: "(sd_addr (node_descriptor m), fst cl) \<in> (\<lambda>(d, a). (sd_addr d, a)) ` set ?xs \<longleftrightarrow> (node_descriptor m, fst cl) \<in> set ?xs"
      if cl: "cl \<in> cached_clones st0 (node_descriptor m)" for cl
    proof
      assume "(sd_addr (node_descriptor m), fst cl) \<in> (\<lambda>(d, a). (sd_addr d, a)) ` set ?xs"
      then have "cleanup (sd_of (node_descriptor m)) \<and> lastUpdateFrom (snd cl) = Some ?peer"
        unfolding xs left using left_behind_iff [OF assms(6) m cl] by simp
      then show "(node_descriptor m, fst cl) \<in> set ?xs"
        unfolding xs left using m cl by (cases cl) (auto simp: left_behind_def)
    qed force
    have "cached_clones ?st' (node_descriptor m) = cached_clones st2 (node_descriptor m)"
      by (simp add: cached_clones_def clones_of_def)
    also have "\<dots> = {cl \<in> cached_clones st0 (node_descriptor m). (node_descriptor m, fst cl) \<notin> set ?xs}"
      unfolding 2(6) clones by (intro Collect_cong conj_cong refl arg_cong [where f = Not] same)
    finally show ?thesis .
  qed
  moreover have "left_behind createdFrom ?peer st0 = left_behind lastUpdateFrom ?peer st0"
    if "\<forall>m \<in> set ?pool. \<forall>cl \<in> cached_clones st0 (node_descriptor m). createdFrom (snd cl) = lastUpdateFrom (snd cl)"
    using that unfolding left_behind_def by fastforce
  ultimately show ?thesis
    using 2(3,4) dist xs left st0 by (intro exI [of _ ?st'] exI [of _ ?xs]) (auto simp: distinct_map)
qed

lemma closing_cleans_up_witness:
  "\<exists>st'. host_handleTransition (example_config (\<lambda>_ _. None)) 1 1 None
      (example_host\<lparr>h_conns := (\<lambda>k. if k = 1 then (open_guest 3)\<lparr>c_state := Closed\<rparr> else open_guest 4)\<rparr>) = (st', Inr ())
    \<and> h_groups st' ''Example'' = [2] \<and> cached_clones st' cleanup_ref = {}
    \<and> h_frames st' = [(2, Message (Data (removal_header (example_config (\<lambda>_ _. None)) cleanup_ref)
        (Instance cleanup_ref (example_area (Some 1) (Some ''a'') None))))]"
proof -
  let ?st = "example_host\<lparr>h_conns := (\<lambda>k. if k = 1 then (open_guest 3)\<lparr>c_state := Closed\<rparr> else open_guest 4)\<rparr>"
  let ?cfg = "example_config (\<lambda>_ _. None)"
  let ?cs = "[(example_area (Some 1) (Some ''a'') None, example_info)]"
  have pool: "containerPool (h_dispatcher ?st) = example_pool ?cs" by (simp add: example_host_def)
  have "container_ok (example_clones ?cs)"
    using example_key_ok by (simp add: container_ok_def map_ok_def example_clones_def)
  then have ok: "caches_ok ?st"
    by (auto simp: caches_ok_def groups_ok_def quiescent_def dispatcher_wf_def pool_wf_def pool_typed_def
        example_host_def host_new_def dispatcher_new_def example_pool_def pool_find_def node_of_def example_clones_def cleanup_ref_def)
  have cfg: "no_failures ?cfg" "flat_client (f_client ?cfg)" "f_depth ?cfg = Suc 0"
    by (simp_all add: no_failures_def example_config_def flat_client_def)
  have types: "\<forall>m \<in> set (m_pool (containerPool (h_dispatcher ?st))). cleanup (sd_of (node_descriptor m)) \<longrightarrow>
           cached (sd_of (node_descriptor m)) \<and> \<not> substructOnly (sd_of (node_descriptor m))"
    unfolding pool by (simp add: example_pool_def)
  have h: "host_transition_handler ?cfg 1 None ?st = (?st, Inr ())" "c_state (h_conns ?st 1) = Closed"
    by (simp_all add: host_transition_handler_def example_config_def)
  obtain st' removed where st': "host_handleTransition ?cfg (Suc 0) 1 None ?st = (st', Inr ())"
    "\<forall>g. h_groups st' g = filter (\<lambda>i. i \<noteq> 1) (h_groups ?st g)" "h_conns st' = h_conns ?st" "distinct removed"
    "set removed = left_behind lastUpdateFrom (c_peerId (h_conns ?st 1)) ?st"
    "h_frames st' = h_frames ?st @ removal_frames ?cfg st' removed"
    "\<forall>m \<in> set (m_pool (containerPool (h_dispatcher ?st))). cached_clones st' (node_descriptor m) =
          {cl \<in> cached_clones ?st (node_descriptor m). (node_descriptor m, fst cl) \<notin> set removed}"
    using closing_cleans_up [OF cfg h(2,1) ok types, of 0] by blast
  have clones: "cached_clones ?st cleanup_ref = set ?cs"
    by (simp add: cached_clones_def clones_of_def example_host_def example_pool_def pool_find_def node_of_def)
  have "set removed = {(cleanup_ref, example_area (Some 1) (Some ''a'') None)}"
    unfolding st'(5) left_behind_def pool using clones by (auto simp: example_pool_def open_guest_def example_info_def)
  then have removed: "removed = [(cleanup_ref, example_area (Some 1) (Some ''a'') None)]"
    using st'(4) by (cases removed) (auto simp: subset_singleton_iff)
  have "cached_clones st' cleanup_ref = {}"
    using st'(7) clones unfolding pool removed by (auto simp: example_pool_def)
  moreover have "h_groups st' ''Example'' = [2]" using st'(2) by (simp add: example_host_def)
  moreover have "h_frames st' = [(2, Message (Data (removal_header ?cfg cleanup_ref) (Instance cleanup_ref (example_area (Some 1) (Some ''a'') None))))]"
    using st'(2,3) unfolding st'(6) removed by (simp add: removal_frames_def) (simp add: example_host_def host_new_def open_guest_def)
  ultimately show ?thesis using st'(1) by auto
qed

end
