(* ===== verification/Auth_Manager.thy ===== *)
theory Auth_Manager
  imports Connection_Facts Dispatcher
begin

text \<open>
  \<open>io/auth/LegacyAuthManager.cpp\<close> and \<open>tools/IpNetwork.cpp\<close>: the authentication manager of a host,
  which keeps the cached \<open>DotsAuthentication\<close> instances as rules. Addresses are parsed and subnets
  compared by Boost.Asio, a parameter; networks are the values its constructors check.
\<close>

section \<open>Networks\<close>

datatype ip_address = V4 "32 word" | V6 "128 word"

text \<open>The variant of an IPv4 and an IPv6 network: the address and the length of the prefix.\<close>

datatype ip_network = NetworkV4 "32 word" nat | NetworkV6 "128 word" nat

record ip_lib =
  make_address :: "string \<Rightarrow> ip_address result"
  is_subnet_of_v4 :: "32 word \<times> nat \<Rightarrow> 32 word \<times> nat \<Rightarrow> bool"
  is_subnet_of_v6 :: "128 word \<times> nat \<Rightarrow> 128 word \<times> nat \<Rightarrow> bool"

definition DefaultV4PrefixLength :: nat where "DefaultV4PrefixLength = 32"
definition DefaultV6PrefixLength :: nat where "DefaultV6PrefixLength = 128"

text \<open>\<open>make_network_v4\<close> and \<open>make_network_v6\<close> throw when the prefix is too long.\<close>

definition make_network :: "ip_address \<Rightarrow> nat \<Rightarrow> ip_network result" where
  "make_network a prefixLength =
     (case a of
        V4 i \<Rightarrow> if 32 < prefixLength then Inl (LogicError ''prefix length too large'') else Inr (NetworkV4 i prefixLength)
      | V6 i \<Rightarrow> if 128 < prefixLength then Inl (LogicError ''prefix length too large'') else Inr (NetworkV6 i prefixLength))"

definition network_of :: "ip_lib \<Rightarrow> string \<Rightarrow> nat \<Rightarrow> ip_network result" where
  "network_of lib address prefixLength =
     bindE (make_address lib address) (\<lambda>addr. make_network addr prefixLength)"

definition network_of_address :: "ip_address \<Rightarrow> ip_network" where
  "network_of_address a =
     (case a of V4 i \<Rightarrow> NetworkV4 i DefaultV4PrefixLength | V6 i \<Rightarrow> NetworkV6 i DefaultV6PrefixLength)"

fun isStrictSubnetOf :: "ip_lib \<Rightarrow> ip_network \<Rightarrow> ip_network \<Rightarrow> bool" where
  "isStrictSubnetOf lib (NetworkV4 a p) (NetworkV4 b q) = is_subnet_of_v4 lib (a, p) (b, q)"
| "isStrictSubnetOf lib (NetworkV6 a p) (NetworkV6 b q) = is_subnet_of_v6 lib (a, p) (b, q)"
| "isStrictSubnetOf lib _ _ = False"

definition isIpv4 :: "ip_network \<Rightarrow> bool" where
  "isIpv4 n = (case n of NetworkV4 _ _ \<Rightarrow> True | NetworkV6 _ _ \<Rightarrow> False)"

definition isSubnetOf :: "ip_lib \<Rightarrow> ip_network \<Rightarrow> ip_network \<Rightarrow> bool" where
  "isSubnetOf lib n m = (if isIpv4 n \<noteq> isIpv4 m then False else isStrictSubnetOf lib n m \<or> n = m)"

section \<open>Rules\<close>

record dots_network =
  network_network :: "string option"
  network_prefix :: "8 word option"

record dots_authentication =
  auth_nameSpace :: "string option"
  auth_network :: "dots_network option"
  auth_clientName :: "string option"
  auth_priority :: "16 word option"
  auth_secret :: "string option"
  auth_accept :: "bool option"

record dots_authentication_policy =
  policy_nameSpace :: "string option"
  policy_accept :: "bool option"

text \<open>The manager: \<open>m_rules\<close>, a multimap in ascending order of priority, and the default policy.\<close>

record legacy_auth =
  m_rules :: "(16 word \<times> dots_authentication) list"
  m_defaultAcceptPolicy :: "bool option"

definition legacy_new :: legacy_auth where
  "legacy_new = \<lparr>m_rules = [], m_defaultAcceptPolicy = None\<rparr>"

definition key_equal_rule :: "dots_authentication \<Rightarrow> 16 word \<times> dots_authentication \<Rightarrow> bool" where
  "key_equal_rule a kv \<longleftrightarrow>
     auth_nameSpace (snd kv) = auth_nameSpace a \<and> auth_network (snd kv) = auth_network a
     \<and> auth_clientName (snd kv) = auth_clientName a \<and> auth_priority (snd kv) = auth_priority a"

text \<open>\<open>std::multimap::emplace\<close>: behind the elements with an equal key.\<close>

definition rules_emplace :: "16 word \<Rightarrow> 'a \<Rightarrow> (16 word \<times> 'a) list \<Rightarrow> (16 word \<times> 'a) list" where
  "rules_emplace p a rules =
     takeWhile (\<lambda>kv. fst kv \<le> p) rules @ [(p, a)] @ dropWhile (\<lambda>kv. fst kv \<le> p) rules"

fun update_first :: "('a \<Rightarrow> bool) \<Rightarrow> ('a \<Rightarrow> 'a) \<Rightarrow> 'a list \<Rightarrow> 'a list" where
  "update_first P f [] = []"
| "update_first P f (x # xs) = (if P x then f x # xs else x # update_first P f xs)"

fun erase_first :: "('a \<Rightarrow> bool) \<Rightarrow> 'a list \<Rightarrow> 'a list" where
  "erase_first P [] = []"
| "erase_first P (x # xs) = (if P x then xs else x # erase_first P xs)"

definition handleDotsAuthentication :: "dots_mt \<Rightarrow> dots_authentication \<Rightarrow> legacy_auth \<Rightarrow> legacy_auth" where
  "handleDotsAuthentication mt authentication am =
     (if mt = Mt_create then
        am\<lparr>m_rules := rules_emplace (case auth_priority authentication of None \<Rightarrow> 0 | Some p \<Rightarrow> p) authentication (m_rules am)\<rparr>
      else if mt = Mt_update then
        am\<lparr>m_rules := update_first (key_equal_rule authentication) (\<lambda>kv. (fst kv, authentication)) (m_rules am)\<rparr>
      else if mt = Mt_remove then am\<lparr>m_rules := erase_first (key_equal_rule authentication) (m_rules am)\<rparr>
      else am)"

definition handleDotsAuthenticationPolicy :: "dots_mt \<Rightarrow> dots_authentication_policy \<Rightarrow> legacy_auth \<Rightarrow> legacy_auth" where
  "handleDotsAuthenticationPolicy mt policy am =
     (if mt = Mt_remove then am\<lparr>m_defaultAcceptPolicy := None\<rparr>
      else case policy_accept policy of
             Some accept \<Rightarrow> am\<lparr>m_defaultAcceptPolicy := Some accept\<rparr>
           | None \<Rightarrow> am)"

section \<open>Decisions\<close>

text \<open>
  Whether a rule matches. What throws in the loop is logged and the rule skipped; \<open>dbg\<close> tells whether
  debug messages are compiled in, whose text dereferences \<open>accept\<close>.
\<close>

definition rule_matches :: "ip_lib \<Rightarrow> ip_network \<Rightarrow> string \<Rightarrow> dots_authentication \<Rightarrow> bool result" where
  "rule_matches lib network clientName rule =
     bindE (deref ''clientName'' (auth_clientName rule)) (\<lambda>name.
       if name \<noteq> [] \<and> name \<noteq> clientName then Inr False
       else
         bindE (deref ''network'' (auth_network rule)) (\<lambda>net.
         bindE (deref ''network'' (network_network net)) (\<lambda>address.
         bindE (deref ''prefix'' (network_prefix net)) (\<lambda>prefix.
         bindE (network_of lib address (unat prefix)) (\<lambda>rule_network.
           Inr (isSubnetOf lib network rule_network))))))"

definition rule_listed :: "ip_lib \<Rightarrow> bool \<Rightarrow> ip_network \<Rightarrow> string \<Rightarrow> dots_authentication \<Rightarrow> bool result" where
  "rule_listed lib dbg network clientName rule =
     bindE (rule_matches lib network clientName rule) (\<lambda>matches.
       if matches \<and> dbg then bindE (deref ''accept'' (auth_accept rule)) (\<lambda>_. Inr True) else Inr matches)"

definition findMatchingRules :: "ip_lib \<Rightarrow> bool \<Rightarrow> ip_address \<Rightarrow> string \<Rightarrow> legacy_auth \<Rightarrow> dots_authentication list" where
  "findMatchingRules lib dbg address clientName am =
     filter (\<lambda>rule. rule_listed lib dbg (network_of_address address) clientName rule = Inr True)
       (List.map snd (m_rules am))"

text \<open>
  The loop of \<open>verifyResponse\<close>: the first rule that decides, \<open>None\<close> when none does. Connect messages
  carry a text for the response and for the nonce of the guest.
\<close>

fun decide :: "crypto_lib \<Rightarrow> nonce \<Rightarrow> string \<Rightarrow> msg_connect \<Rightarrow> dots_authentication list \<Rightarrow> bool option result" where
  "decide lib nonce clientName m [] = Inr None"
| "decide lib nonce clientName m (rule # rules) =
     (case auth_secret rule of
        Some secret \<Rightarrow>
          (case (connect_authChallengeResponse m, connect_cnonce m) of
             (Some r, Some cnonce) \<Rightarrow>
               bindE (digest_fromString lib r) (\<lambda>response.
                 if response = digest_new lib nonce cnonce clientName secret \<and> auth_accept rule \<noteq> None
                 then Inr (auth_accept rule)
                 else decide lib nonce clientName m rules)
           | _ \<Rightarrow> Inr (Some False))
      | None \<Rightarrow>
          if auth_accept rule \<noteq> None then Inr (auth_accept rule)
          else decide lib nonce clientName m rules)"

definition verifyResponse ::
  "ip_lib \<Rightarrow> crypto_lib \<Rightarrow> bool \<Rightarrow> ip_address \<Rightarrow> nonce \<Rightarrow> msg_connect \<Rightarrow> legacy_auth \<Rightarrow> bool result" where
  "verifyResponse ip lib dbg address authNonce m am =
     bindE (deref ''clientName'' (connect_clientName m)) (\<lambda>clientName.
     bindE (decide lib authNonce clientName m (findMatchingRules ip dbg address clientName am)) (\<lambda>accept.
       Inr (case accept of
              Some b \<Rightarrow> b
            | None \<Rightarrow> (case m_defaultAcceptPolicy am of Some b \<Rightarrow> b | None \<Rightarrow> True))))"

definition requires_at :: "ip_lib \<Rightarrow> bool \<Rightarrow> ip_address \<Rightarrow> legacy_auth \<Rightarrow> bool" where
  "requires_at ip dbg address am =
     (case find (\<lambda>r. auth_accept r = Some True) (findMatchingRules ip dbg address '''' am) of
        Some r \<Rightarrow> auth_secret r \<noteq> None
      | None \<Rightarrow> False)"

text \<open>The entry points; \<open>fresh\<close> is the random nonce.\<close>

definition legacy_requiresAuthentication ::
  "ip_lib \<Rightarrow> bool \<Rightarrow> nonce \<Rightarrow> string \<Rightarrow> string \<Rightarrow> legacy_auth \<Rightarrow> nonce option result" where
  "legacy_requiresAuthentication ip dbg fresh scheme host am =
     (if scheme = ''tcp'' \<or> scheme = ''ws'' then
        bindE (make_address ip host) (\<lambda>address.
          Inr (if requires_at ip dbg address am then Some fresh else None))
      else if scheme = ''uds'' then Inr None
      else if m_defaultAcceptPolicy am = Some True then Inr None
      else Inr (Some fresh))"

definition legacy_verifyAuthentication ::
  "ip_lib \<Rightarrow> crypto_lib \<Rightarrow> bool \<Rightarrow> string \<Rightarrow> string \<Rightarrow> string \<Rightarrow> nonce \<Rightarrow> string \<Rightarrow> 8 word list \<Rightarrow> legacy_auth \<Rightarrow> bool result" where
  "legacy_verifyAuthentication ip lib dbg scheme host guest nonce cnonce response am =
     (if scheme = ''tcp'' \<or> scheme = ''ws'' then
        bindE (make_address ip host) (\<lambda>address.
          verifyResponse ip lib dbg address nonce
            \<lparr>connect_clientName = Some guest, connect_preloadCache = None, connect_preloadClientFinished = None,
             connect_authChallengeResponse = Some (digest_toString lib response), connect_cnonce = Some cnonce\<rparr> am)
      else if scheme = ''uds'' then Inr True
      else Inr (case m_defaultAcceptPolicy am of Some b \<Rightarrow> b | None \<Rightarrow> False))"


section \<open>The rules mirror the cache\<close>

text \<open>
  The cache of the host, seen as the authentications by key, and the events it reports: a creation
  of what is not cached, an update or a removal of what is.
\<close>

type_synonym auth_key = "string option \<times> dots_network option \<times> string option \<times> 16 word option"

definition auth_key :: "dots_authentication \<Rightarrow> auth_key" where
  "auth_key a = (auth_nameSpace a, auth_network a, auth_clientName a, auth_priority a)"

definition rule_priority :: "dots_authentication \<Rightarrow> 16 word" where
  "rule_priority a = (case auth_priority a of None \<Rightarrow> 0 | Some p \<Rightarrow> p)"

definition cache_event :: "dots_mt \<times> dots_authentication \<Rightarrow> (auth_key \<rightharpoonup> dots_authentication) \<Rightarrow> (auth_key \<rightharpoonup> dots_authentication)" where
  "cache_event e cache = (if fst e = Mt_remove then cache(auth_key (snd e) := None) else cache(auth_key (snd e) \<mapsto> snd e))"

fun reported :: "(dots_mt \<times> dots_authentication) list \<Rightarrow> (auth_key \<rightharpoonup> dots_authentication) \<Rightarrow> bool" where
  "reported [] cache = True"
| "reported (e # es) cache \<longleftrightarrow>
     (fst e = Mt_create) = (cache (auth_key (snd e)) = None) \<and> reported es (cache_event e cache)"

definition mirrors :: "legacy_auth \<Rightarrow> (auth_key \<rightharpoonup> dots_authentication) \<Rightarrow> bool" where
  "mirrors am cache \<longleftrightarrow>
     sorted (List.map fst (m_rules am)) \<and> distinct (List.map (\<lambda>kv. auth_key (snd kv)) (m_rules am))
     \<and> (\<forall>kv \<in> set (m_rules am). fst kv = rule_priority (snd kv))
     \<and> (\<forall>a. a \<in> snd ` set (m_rules am) \<longleftrightarrow> cache (auth_key a) = Some a)
     \<and> (\<forall>k a. cache k = Some a \<longrightarrow> auth_key a = k)"

lemma key_equal_iff: "key_equal_rule a kv \<longleftrightarrow> auth_key (snd kv) = auth_key a"
  by (auto simp: key_equal_rule_def auth_key_def)

lemma set_rules_emplace [simp]: "set (rules_emplace p a rules) = insert (p, a) (set rules)"
proof -
  have "set rules = set (takeWhile (\<lambda>kv. fst kv \<le> p) rules) \<union> set (dropWhile (\<lambda>kv. fst kv \<le> p) rules)"
    by (metis set_append takeWhile_dropWhile_id)
  then show ?thesis by (auto simp: rules_emplace_def)
qed

lemma sorted_rules_emplace:
  assumes "sorted (List.map fst rules)"
  shows "sorted (List.map fst (rules_emplace p a rules))"
proof -
  let ?P = "\<lambda>kv :: _ \<times> _. fst kv \<le> p"
  have parts: "rules = takeWhile ?P rules @ dropWhile ?P rules" by simp
  have "sorted (List.map fst (takeWhile ?P rules) @ List.map fst (dropWhile ?P rules))"
    using assms parts by (metis map_append)
  then have s: "sorted (List.map fst (takeWhile ?P rules))" "sorted (List.map fst (dropWhile ?P rules))"
    "\<forall>x \<in> set (takeWhile ?P rules). \<forall>y \<in> set (dropWhile ?P rules). fst x \<le> fst y"
    by (auto simp: sorted_append)
  have "p \<le> fst y" if y: "y \<in> set (dropWhile ?P rules)" for y
  proof -
    obtain z zs where z: "dropWhile ?P rules = z # zs" using y by (cases "dropWhile ?P rules") auto
    then have "\<not> ?P z" by (metis dropWhile_eq_Cons_conv)
    moreover have "fst z \<le> fst y" using s(2) y z by auto
    ultimately show ?thesis by simp
  qed
  moreover have "fst x \<le> p" if "x \<in> set (takeWhile ?P rules)" for x using that by (auto dest: set_takeWhileD)
  ultimately show ?thesis using s by (auto simp: rules_emplace_def sorted_append)
qed

lemma distinct_rules_emplace:
  "distinct (List.map f (rules_emplace p a rules)) \<longleftrightarrow> f (p, a) \<notin> f ` set rules \<and> distinct (List.map f rules)"
proof -
  let ?P = "\<lambda>kv :: _ \<times> _. fst kv \<le> p"
  have "List.map f rules = List.map f (takeWhile ?P rules) @ List.map f (dropWhile ?P rules)"
    by (simp flip: map_append)
  then show ?thesis by (auto simp: rules_emplace_def simp flip: set_map)
qed

lemma update_first_mem:
  assumes "distinct (List.map g xs)" "x \<in> set xs" "\<And>y. P y \<longleftrightarrow> g y = g x"
  shows "set (update_first P f xs) = insert (f x) (set xs - {x})"
  using assms by (induction xs) (auto simp: image_iff)

lemma update_first_map: "(\<And>y. P y \<Longrightarrow> h (f y) = h y) \<Longrightarrow> List.map h (update_first P f xs) = List.map h xs"
  by (induction xs) auto

lemma erase_first_mem:
  assumes "distinct (List.map g xs)" "\<And>y. P y \<longleftrightarrow> g y = k"
  shows "set (erase_first P xs) = {y \<in> set xs. g y \<noteq> k}"
  using assms by (induction xs) (auto simp: image_iff)

lemma erase_first_sublist: "\<exists>ys zs. xs = ys @ zs \<and> (erase_first P xs = xs \<or> (\<exists>z zs'. zs = z # zs' \<and> erase_first P xs = ys @ zs'))"
  by (rule exI [of _ "takeWhile (\<lambda>x. \<not> P x) xs"], rule exI [of _ "dropWhile (\<lambda>x. \<not> P x) xs"])
    (induction xs; auto)

lemma erase_first_sorted: "sorted (List.map f xs) \<Longrightarrow> sorted (List.map f (erase_first P xs))"
  using erase_first_sublist [of xs P] by (auto simp: sorted_append)

lemma erase_first_distinct: "distinct (List.map f xs) \<Longrightarrow> distinct (List.map f (erase_first P xs))"
  using erase_first_sublist [of xs P] by auto

lemma mirrors_event:
  assumes m: "mirrors am cache" and new: "(mt = Mt_create) = (cache (auth_key a) = None)"
  shows "mirrors (handleDotsAuthentication mt a am) (cache_event (mt, a) cache)"
proof -
  have d: "distinct (List.map (\<lambda>kv. auth_key (snd kv)) (m_rules am))" and s: "sorted (List.map fst (m_rules am))"
    and p: "\<forall>kv \<in> set (m_rules am). fst kv = rule_priority (snd kv)"
    and c: "\<And>b. b \<in> snd ` set (m_rules am) \<longleftrightarrow> cache (auth_key b) = Some b"
    and k: "\<And>k b. cache k = Some b \<Longrightarrow> auth_key b = k"
    using m by (auto simp: mirrors_def)
  show ?thesis
  proof (cases mt)
    case Mt_create
    have fresh: "auth_key a \<notin> (\<lambda>kv. auth_key (snd kv)) ` set (m_rules am)"
    proof
      assume "auth_key a \<in> (\<lambda>kv. auth_key (snd kv)) ` set (m_rules am)"
      then obtain kv where "kv \<in> set (m_rules am)" "auth_key (snd kv) = auth_key a" by auto
      then have "cache (auth_key a) \<noteq> None" using c [of "snd kv"] by auto
      then show False using new Mt_create by simp
    qed
    have c': "b \<in> insert a (snd ` set (m_rules am)) \<longleftrightarrow> (cache(auth_key a \<mapsto> a)) (auth_key b) = Some b" for b
      using c [of b] fresh by (auto simp: image_iff)
    show ?thesis
      using s d p fresh c' k Mt_create
      by (auto simp: mirrors_def handleDotsAuthentication_def cache_event_def sorted_rules_emplace distinct_rules_emplace
          rule_priority_def split: if_splits)
  next
    case Mt_update
    then obtain b where b: "cache (auth_key a) = Some b" using new by auto
    then have "auth_key b = auth_key a" "b \<in> snd ` set (m_rules am)" using k c by auto
    then obtain kv where kv: "kv \<in> set (m_rules am)" "auth_key (snd kv) = auth_key a" by auto
    let ?upd = "update_first (key_equal_rule a) (\<lambda>kv. (fst kv, a)) (m_rules am)"
    have set': "set ?upd = insert (fst kv, a) (set (m_rules am) - {kv})"
      using update_first_mem [OF d kv(1), of "key_equal_rule a"] kv(2) by (simp add: key_equal_iff)
    have maps: "List.map fst ?upd = List.map fst (m_rules am)"
      "List.map (\<lambda>kv. auth_key (snd kv)) ?upd = List.map (\<lambda>kv. auth_key (snd kv)) (m_rules am)"
      by (auto intro!: update_first_map simp: key_equal_iff)
    have inj: "y = kv" if "y \<in> set (m_rules am)" "auth_key (snd y) = auth_key a" for y
      using d kv that by (simp add: distinct_map) (metis inj_onD)
    have prio: "rule_priority a = fst kv" using p kv by (auto simp: rule_priority_def auth_key_def)
    have c': "b \<in> snd ` set ?upd \<longleftrightarrow> (cache(auth_key a \<mapsto> a)) (auth_key b) = Some b" for b
    proof (cases "auth_key b = auth_key a")
      case True
      then show ?thesis using inj by (auto simp: set' image_iff)
    next
      case False
      then have "b \<in> snd ` set ?upd \<longleftrightarrow> b \<in> snd ` set (m_rules am)"
        using kv(2) by (auto simp: set' image_iff)
      then show ?thesis using False c [of b] by simp
    qed
    have "\<forall>kv \<in> set ?upd. fst kv = rule_priority (snd kv)" using p prio by (auto simp: set')
    then show ?thesis
      using s d c' k Mt_update maps
      by (auto simp: mirrors_def handleDotsAuthentication_def cache_event_def)
  next
    case Mt_remove
    let ?er = "erase_first (key_equal_rule a) (m_rules am)"
    have set': "set ?er = {y \<in> set (m_rules am). auth_key (snd y) \<noteq> auth_key a}"
      using erase_first_mem [OF d, of "key_equal_rule a" "auth_key a"] by (simp add: key_equal_iff)
    have "b \<in> snd ` set ?er \<longleftrightarrow> (cache(auth_key a := None)) (auth_key b) = Some b" for b
      using c [of b] by (force simp: set' image_iff)
    then show ?thesis
      using erase_first_sorted [OF s] erase_first_distinct [OF d] p k Mt_remove set'
      by (auto simp: mirrors_def handleDotsAuthentication_def cache_event_def split: if_splits)
  qed
qed

text \<open>C39: After any sequence of authentication events of a cache, the rules of the manager are in the
  order of their priorities and are exactly the cached authentications, each once.\<close>

theorem rules_mirror_cache:
  assumes "reported es Map.empty"
  shows "mirrors (fold (\<lambda>(mt, a). handleDotsAuthentication mt a) es legacy_new) (fold cache_event es Map.empty)"
proof -
  have "mirrors am cache \<Longrightarrow> reported es cache \<Longrightarrow>
      mirrors (fold (\<lambda>(mt, a). handleDotsAuthentication mt a) es am) (fold cache_event es cache)" for am cache
  proof (induction es arbitrary: am cache)
    case (Cons e es)
    then show ?case using mirrors_event [of am cache "fst e" "snd e"] by (simp add: case_prod_unfold)
  qed simp
  moreover have "mirrors legacy_new Map.empty" by (simp add: mirrors_def legacy_new_def)
  ultimately show ?thesis using assms by blast
qed

lemma rules_mirror_cache_witness:
  "let a = \<lparr>auth_nameSpace = Some '''', auth_network = Some \<lparr>network_network = Some ''10.0.0.0'', network_prefix = Some 8\<rparr>,
      auth_clientName = Some '''', auth_priority = Some 7, auth_secret = None, auth_accept = Some False\<rparr>;
      b = a\<lparr>auth_priority := Some 3, auth_accept := Some True\<rparr>;
      es = [(Mt_create, a), (Mt_create, b), (Mt_update, a\<lparr>auth_secret := Some ''s''\<rparr>), (Mt_remove, b)]
   in mirrors (fold (\<lambda>(mt, a). handleDotsAuthentication mt a) es legacy_new) (fold cache_event es Map.empty)"
  unfolding Let_def by (rule rules_mirror_cache) (simp add: cache_event_def auth_key_def)

section \<open>What the rules decide\<close>

text \<open>The credentials of a connect message: the digest and the nonce of the guest, if it has sent both.\<close>

definition credentials :: "crypto_lib \<Rightarrow> msg_connect \<Rightarrow> (8 word list \<times> string) option result" where
  "credentials lib m =
     (case (connect_authChallengeResponse m, connect_cnonce m) of
        (Some r, Some cnonce) \<Rightarrow> bindE (digest_fromString lib r) (\<lambda>d. Inr (Some (d, cnonce)))
      | _ \<Rightarrow> Inr None)"

text \<open>Whether a rule settles the case, and how.\<close>

definition settles :: "crypto_lib \<Rightarrow> nonce \<Rightarrow> string \<Rightarrow> (8 word list \<times> string) option \<Rightarrow> dots_authentication \<Rightarrow> bool" where
  "settles lib nonce clientName creds rule \<longleftrightarrow>
     (case (auth_secret rule, creds) of
        (None, _) \<Rightarrow> auth_accept rule \<noteq> None
      | (Some _, None) \<Rightarrow> True
      | (Some secret, Some (d, cnonce)) \<Rightarrow> d = digest_new lib nonce cnonce clientName secret \<and> auth_accept rule \<noteq> None)"

definition verdict :: "(8 word list \<times> string) option \<Rightarrow> dots_authentication \<Rightarrow> bool" where
  "verdict creds rule \<longleftrightarrow> (auth_secret rule = None \<or> creds \<noteq> None) \<and> auth_accept rule = Some True"

lemma decide_settles:
  assumes "credentials lib m = Inr creds"
  shows "decide lib nonce clientName m rules =
    Inr (map_option (verdict creds) (find (settles lib nonce clientName creds) rules))"
proof -
  show ?thesis
  proof (induction rules)
    case Nil
    show ?case by simp
  next
    case (Cons rule rules)
    show ?case
    proof (cases "auth_secret rule")
      case None
      then have "settles lib nonce clientName creds rule \<longleftrightarrow> auth_accept rule \<noteq> None" "verdict creds rule \<longleftrightarrow> auth_accept rule = Some True"
        by (simp_all add: settles_def verdict_def)
      then show ?thesis using Cons.IH None by (cases "auth_accept rule") simp_all
    next
      case (Some secret)
      show ?thesis
      proof (cases "connect_authChallengeResponse m = None \<or> connect_cnonce m = None")
        case True
        then have "credentials lib m = Inr None" by (cases "connect_authChallengeResponse m") (auto simp: credentials_def)
        then have "creds = None" using assms by simp
        moreover have "decide lib nonce clientName m (rule # rules) = Inr (Some False)"
          using Some True by (cases "connect_authChallengeResponse m") auto
        ultimately show ?thesis using Some by (simp add: settles_def verdict_def)
      next
        case False
        then obtain r cnonce where m: "connect_authChallengeResponse m = Some r" "connect_cnonce m = Some cnonce" by auto
        then obtain d where d: "digest_fromString lib r = Inr d" "creds = Some (d, cnonce)"
          using assms by (auto simp add: credentials_def bindE_eq_Inr simp del: not_None_eq)
        have "settles lib nonce clientName creds rule \<longleftrightarrow> d = digest_new lib nonce cnonce clientName secret \<and> auth_accept rule \<noteq> None"
          "verdict creds rule \<longleftrightarrow> auth_accept rule = Some True"
          using Some by (simp_all add: d settles_def verdict_def)
        then show ?thesis using Cons.IH Some by (cases "auth_accept rule") (simp_all add: m d(1))
      qed
    qed
  qed
qed

text \<open>C40: The manager decides by the first matching rule that settles the case: one without a secret,
  one whose secret fits the response, or one with a secret when the guest has sent no
  credentials, which rejects; without such a rule the guest is accepted unless the default
  policy is false.\<close>

theorem verifyResponse_first_settles:
  assumes "connect_clientName m = Some clientName" "credentials lib m = Inr creds"
  shows "verifyResponse ip lib dbg address nonce m am =
    Inr (case find (settles lib nonce clientName creds) (findMatchingRules ip dbg address clientName am) of
           Some rule \<Rightarrow> verdict creds rule
         | None \<Rightarrow> m_defaultAcceptPolicy am \<noteq> Some False)"
  using assms(1) decide_settles [OF assms(2)]
  by (auto simp: verifyResponse_def deref_def split: option.splits)

text \<open>Addresses that are texts of four dotted numbers are not needed for an example: one network.\<close>

definition one_network :: ip_lib where
  "one_network = \<lparr>make_address = (\<lambda>s. if s = ''10.0.0.1'' then Inr (V4 0x0A000001) else if s = ''10.0.0.0'' then Inr (V4 0x0A000000)
       else Inl (RuntimeError ''invalid address'')),
     is_subnet_of_v4 = (\<lambda>(a, p) (b, q). q < p \<and> drop_bit (32 - q) a = drop_bit (32 - q) b),
     is_subnet_of_v6 = (\<lambda>(a, p) (b, q). q < p \<and> drop_bit (128 - q) a = drop_bit (128 - q) b)\<rparr>"

definition office_rule :: "string \<Rightarrow> string \<Rightarrow> dots_authentication" where
  "office_rule client secret =
     \<lparr>auth_nameSpace = Some '''', auth_network = Some \<lparr>network_network = Some ''10.0.0.0'', network_prefix = Some 8\<rparr>,
      auth_clientName = Some client, auth_priority = Some 1, auth_secret = Some secret, auth_accept = Some True\<rparr>"

definition office :: "string \<Rightarrow> string \<Rightarrow> legacy_auth" where
  "office client secret = \<lparr>m_rules = [(1, office_rule client secret)], m_defaultAcceptPolicy = None\<rparr>"

lemma office_matches:
  "rule_listed one_network False (NetworkV4 0x0A000001 32) name (office_rule client secret) =
     Inr (client = [] \<or> client = name)"
  by (auto simp: rule_listed_def rule_matches_def office_rule_def deref_def network_of_def one_network_def make_network_def
      isSubnetOf_def isIpv4_def drop_bit_eq_div)

lemma verifyResponse_first_settles_witness:
  "verifyResponse one_network simple_crypto False (V4 0x0A000001) 0
     \<lparr>connect_clientName = Some ''me'', connect_preloadCache = None, connect_preloadClientFinished = None,
      connect_authChallengeResponse = None, connect_cnonce = None\<rparr> (office ''me'' ''s'') = Inr False"
proof -
  let ?m = "\<lparr>connect_clientName = Some ''me'', connect_preloadCache = None, connect_preloadClientFinished = None,
      connect_authChallengeResponse = None, connect_cnonce = None\<rparr>"
  have c: "connect_clientName ?m = Some ''me''" "credentials simple_crypto ?m = Inr None"
    by (simp_all add: credentials_def)
  have f: "findMatchingRules one_network False (V4 0x0A000001) ''me'' (office ''me'' ''s'') = [office_rule ''me'' ''s'']"
    by (simp add: findMatchingRules_def office_def network_of_address_def DefaultV4PrefixLength_def office_matches)
  show ?thesis
    using verifyResponse_first_settles [OF c, of one_network False "V4 0x0A000001" 0 "office ''me'' ''s''"]
    by (simp add: f settles_def verdict_def office_rule_def)
qed

section \<open>Rules for a client\<close>

lemma find_no_match: "(\<And>x. x \<in> set xs \<Longrightarrow> \<not> P x) \<Longrightarrow> find P xs = None"
  by (simp add: find_None_set)

text \<open>When all rules name a client and demand a secret, and there is no default policy, no guest
  is challenged, and each one is accepted whatever it answers.\<close>

theorem client_rules_not_enforced:
  assumes "crypto_ok lib" "length response = 32" "make_address ip host = Inr address"
    and "\<forall>(p, rule) \<in> set (m_rules am). auth_clientName rule \<noteq> Some '''' \<and>
           (\<exists>secret. auth_secret rule = Some secret \<and> response \<noteq> digest_new lib nonce cnonce guest secret)"
    and "m_defaultAcceptPolicy am = None"
  shows "legacy_requiresAuthentication ip dbg fresh ''tcp'' host am = Inr None
    \<and> legacy_verifyAuthentication ip lib dbg ''tcp'' host guest nonce cnonce response am = Inr True"
proof
  have "rule_listed ip dbg net '''' rule \<noteq> Inr True" if "(p, rule) \<in> set (m_rules am)" for p rule net
    using assms(4) that by (auto simp: rule_listed_def rule_matches_def deref_def split: option.splits if_splits)
  then have "findMatchingRules ip dbg address '''' am = []"
    by (auto simp: findMatchingRules_def filter_empty_conv)
  then show "legacy_requiresAuthentication ip dbg fresh ''tcp'' host am = Inr None"
    by (simp add: legacy_requiresAuthentication_def assms(3) requires_at_def)
next
  let ?m = "\<lparr>connect_clientName = Some guest, connect_preloadCache = None, connect_preloadClientFinished = None,
      connect_authChallengeResponse = Some (digest_toString lib response), connect_cnonce = Some cnonce\<rparr>"
  have c: "credentials lib ?m = Inr (Some (response, cnonce))"
    using digest_roundtrip [OF assms(1,2)] by (simp add: credentials_def)
  have "find (settles lib nonce guest (Some (response, cnonce))) (findMatchingRules ip dbg address guest am) = None"
    by (rule find_no_match) (use assms(4) in \<open>auto simp: findMatchingRules_def settles_def\<close>)
  then have "verifyResponse ip lib dbg address nonce ?m am = Inr True"
    using decide_settles [OF c, of nonce guest "findMatchingRules ip dbg address guest am"]
    by (simp add: verifyResponse_def deref_def assms(5))
  then show "legacy_verifyAuthentication ip lib dbg ''tcp'' host guest nonce cnonce response am = Inr True"
    by (simp add: legacy_verifyAuthentication_def assms(3))
qed

lemma client_rules_not_enforced_witness:
  "legacy_requiresAuthentication one_network False 5 ''tcp'' ''10.0.0.1'' (office ''me'' ''s'') = Inr None
    \<and> legacy_verifyAuthentication one_network simple_crypto False ''tcp'' ''10.0.0.1'' ''me'' 0 '''' (replicate 32 0) (office ''me'' ''s'') = Inr True"
proof (rule client_rules_not_enforced [where address = "V4 0x0A000001"])
  have "digest_new simple_crypto 0 '''' ''me'' ''s'' ! 0 = of_char (CHR ''m'')"
    by (simp add: digest_new_def simple_crypto_def chars_def nth_append)
  moreover have "replicate 32 (0 :: 8 word) ! 0 = 0" "(of_char (CHR ''m'') :: 8 word) \<noteq> 0" by simp_all
  ultimately have "replicate 32 0 \<noteq> digest_new simple_crypto 0 '''' ''me'' ''s''" by metis
  then show "\<forall>(p, rule) \<in> set (m_rules (office ''me'' ''s'')). auth_clientName rule \<noteq> Some '''' \<and>
      (\<exists>secret. auth_secret rule = Some secret \<and> replicate 32 0 \<noteq> digest_new simple_crypto 0 '''' ''me'' secret)"
    by (simp add: office_def office_rule_def)
qed (simp_all add: one_network_def office_def)

end
