(* ===== verification/Guest_Transceiver.thy ===== *)
theory Guest_Transceiver
  imports Connection_Facts Dispatcher_Facts
begin

text \<open>
  \<open>GuestTransceiver.cpp\<close>, with \<open>subscribe\<close> of \<open>Transceiver.cpp\<close> and \<open>Subscription.cpp\<close>. The guest owns
  its connection to the host (\<open>m_hostConnection\<close>) and gives it up in the transition to the closed
  state, which the connection itself reports: the connection object is destroyed while its member
  functions still run. Whatever is transmitted over it from then on is \<open>UndefinedBehaviour\<close>.
\<close>

section \<open>State\<close>

text \<open>
  \<open>g_owned\<close> tells whether \<open>m_hostConnection\<close> is set, \<open>g_alive\<close> whether the connection object \<open>g_conn\<close>
  exists. The frames are those transmitted to the host, each with the number of the connection.
\<close>

record 'h guest =
  g_dispatcher :: "'h dispatcher"
  g_conn :: connection
  g_owned :: bool
  g_alive :: bool
  g_opened :: nat
  g_preloadPublishTypes :: "sd_ref list"
  g_preloadSubscribeTypes :: "sd_ref list"
  g_joinedGroups :: "string set"
  g_frames :: "(nat \<times> frame) list"

text \<open>
  What the guest is given: its name, the time, the event handlers and the depth to which they may
  nest, the transition handler of the application, if it has one, the instances of the internal types, whose classes the build generates, and the channels, each of which may fail at any transmission; the number of the frames
  transmitted so far stands for the time of the failure.
\<close>

record 'h guest_config =
  g_name :: string
  g_now :: "64 word"
  g_client :: "'h client"
  g_depth :: nat
  g_transition :: "(connection \<Rightarrow> exn option \<Rightarrow> 'h prog) option"
  g_fails :: "nat \<Rightarrow> nat \<Rightarrow> exn option"
  g_nonce :: nonce
  g_crypto :: crypto_lib
  g_generated :: "content \<Rightarrow> sd_ref \<times> area"

type_synonym ('h, 'a) guest_action = "'h guest \<Rightarrow> 'h guest \<times> 'a result"

definition guest_new :: "'h guest" where
  "guest_new = \<lparr>g_dispatcher = dispatcher_new, g_conn = fst (connection_new False None 0), g_owned = False,
     g_alive = False, g_opened = 0, g_preloadPublishTypes = [], g_preloadSubscribeTypes = [],
     g_joinedGroups = {}, g_frames = []\<rparr>"

definition guest_dispatcher :: "('h, 'a) action \<Rightarrow> ('h, 'a) guest_action" where
  "guest_dispatcher f st = (case f (g_dispatcher st) of (d, r) \<Rightarrow> (st\<lparr>g_dispatcher := d\<rparr>, r))"

definition host_put :: "'h guest_config \<Rightarrow> frame \<Rightarrow> ('h, unit) guest_action" where
  "host_put cfg f st =
     (if \<not> g_alive st then (st, Inl (UndefinedBehaviour ''connection destroyed''))
      else case g_fails cfg (g_opened st) (length (g_frames st)) of
        Some e \<Rightarrow> (st, Inl e)
      | None \<Rightarrow> (st\<lparr>g_frames := g_frames st @ [(g_opened st, f)]\<rparr>, Inr ()))"

definition host_conn_env ::
  "'h guest_config \<Rightarrow> (dots_header \<Rightarrow> content \<Rightarrow> ('h, bool) guest_action) \<Rightarrow>
   (exn option \<Rightarrow> ('h, unit) guest_action) \<Rightarrow> 'h guest conn_env" where
  "host_conn_env cfg rcv change =
     \<lparr>get_conn = g_conn, put_conn = (\<lambda>c st. st\<lparr>g_conn := c\<rparr>),
      channel_transmit = host_put cfg,
      channel_start = (\<lambda>st. (st, Inr ())), channel_import = (\<lambda>m st. (st, Inr ())),
      channel_continue = (\<lambda>st. if g_alive st then (st, Inr ()) else (st, Inl (UndefinedBehaviour ''channel destroyed''))),
      receiveHandler = rcv, transitionHandler = change,
      authManager = None, newNonce = (\<lambda>st. (st, g_nonce cfg)), crypto = g_crypto cfg, time_now = g_now cfg\<rparr>"

section \<open>Transitions to the closed state\<close>

text \<open>
  \<open>Transceiver::handleTransition\<close> calls the transition handler of the application first. Like the event
  handlers it is a program over the dispatcher, and its exceptions are caught.
\<close>

definition guest_transition_handler :: "'h guest_config \<Rightarrow> exn option \<Rightarrow> ('h, unit) guest_action" where
  "guest_transition_handler cfg e st =
     (case g_transition cfg of
        None \<Rightarrow> (st, Inr ())
      | Some handler \<Rightarrow>
          catchA (guest_dispatcher (run_prog (dispatch (g_now cfg) (g_client cfg) (g_depth cfg))
              (addEventHandler (g_now cfg) (g_client cfg) (g_depth cfg)) (handler (g_conn st) e)) st)
            (\<lambda>x st. (st, Inr ())))"

text \<open>
  The branch of \<open>handleTransitionImpl\<close> for a closed connection: \<open>m_hostConnection = nullptr\<close> resets the
  pointer and then deletes the connection, whose destructor has nothing to do for a closed one.
\<close>

definition drop_connection :: "('h, unit) guest_action" where
  "drop_connection st =
     (if g_owned st then (st\<lparr>g_owned := False, g_alive := False\<rparr>, Inr ()) else (st, Inr ()))"

definition closed_transition :: "'h guest_config \<Rightarrow> exn option \<Rightarrow> ('h, unit) guest_action" where
  "closed_transition cfg e st = thenA (guest_transition_handler cfg e st) (\<lambda>_. drop_connection)"

text \<open>
  What the guest does while it handles an instance or a transition can change its connection to
  closed only, so this is the connection as these operations see it.
\<close>

abbreviation closing_env :: "'h guest_config \<Rightarrow> 'h guest conn_env" where
  "closing_env cfg \<equiv> host_conn_env cfg (\<lambda>h x st. (st, Inr True)) (closed_transition cfg)"

section \<open>Publishing and groups\<close>

definition guest_publish_content ::
  "'h guest_config \<Rightarrow> content \<Rightarrow> property_set option \<Rightarrow> bool \<Rightarrow> ('h, unit) guest_action" where
  "guest_publish_content cfg x includedProperties rm st =
     (if content_substructOnly x then (st, Inl (LogicError (''attempt to publish substruct-only type '' @ content_name x)))
      else if \<not> ps_le (content_keys x) (content_valid x)
      then (st, Inl (RuntimeError (''attempt to publish instance with missing key properties ''
              @ ps_toString (CHR ''0'') (CHR ''1'') (ps_sub (content_keys x) (content_valid x)))))
      else
        let included = (case includedProperties of None \<Rightarrow> content_valid x
              | Some ps \<Rightarrow> ps_intersect (ps_add ps (content_keys x)) (content_properties x))
        in if \<not> g_owned st then (st, Inl (RuntimeError ''attempt to publish on closed connection''))
           else catchA (transmit_content (closing_env cfg) x (Some included) rm st)
                  (handleError (closing_env cfg)))"

definition guest_publish ::
  "'h guest_config \<Rightarrow> sd_ref \<Rightarrow> area \<Rightarrow> property_set option \<Rightarrow> bool \<Rightarrow> ('h, unit) guest_action" where
  "guest_publish cfg d a = guest_publish_content cfg (Instance d a)"

definition guest_remove :: "'h guest_config \<Rightarrow> sd_ref \<Rightarrow> area \<Rightarrow> ('h, unit) guest_action" where
  "guest_remove cfg d a = guest_publish cfg d a (Some (keyProperties (sd_of d))) True"

definition member_message :: "string \<Rightarrow> member_event \<Rightarrow> content" where
  "member_message name ev = Member \<lparr>member_groupName = Some name, member_event = Some ev, member_client = None\<rparr>"

definition joinGroup :: "'h guest_config \<Rightarrow> string \<Rightarrow> ('h, unit) guest_action" where
  "joinGroup cfg name st =
     (if name \<notin> g_joinedGroups st then
        thenA (guest_publish_content cfg (member_message name Ev_join) None False st) (\<lambda>_ st.
          (st\<lparr>g_joinedGroups := insert name (g_joinedGroups st)\<rparr>, Inr ()))
      else (st, Inr ()))"

definition leaveGroup :: "'h guest_config \<Rightarrow> string \<Rightarrow> ('h, unit) guest_action" where
  "leaveGroup cfg name st =
     (if name \<in> g_joinedGroups st then
        thenA (guest_publish_content cfg (member_message name Ev_leave) None False st) (\<lambda>_ st.
          (st\<lparr>g_joinedGroups := g_joinedGroups st - {name}\<rparr>, Inr ()))
      else (st, Inr ()))"

section \<open>Subscriptions\<close>

text \<open>A subscription holds the handler it removes, until it is discarded or has removed it.\<close>

type_synonym subscription = "(handler_pool \<times> sd_ref \<times> nat) option"

definition subscribe :: "'h guest_config \<Rightarrow> handler_pool \<Rightarrow> sd_ref \<Rightarrow> 'h \<Rightarrow> ('h, subscription) guest_action" where
  "subscribe cfg hp d h st =
     (if substructOnly (sd_of d)
      then (st, Inl (LogicError (''attempt to subscribe to substruct-only type '' @ sd_name (sd_of d))))
      else
        thenA (joinGroup cfg (sd_name (sd_of d)) st) (\<lambda>_ st.
        thenA (case hp of
                 Transmission_Pool \<Rightarrow> guest_dispatcher (\<lambda>s. case addTransmissionHandler d h s of (s', k) \<Rightarrow> (s', Inr k)) st
               | Event_Pool \<Rightarrow> guest_dispatcher (addEventHandler (g_now cfg) (g_client cfg) (g_depth cfg) d h) st)
          (\<lambda>k st. (st, Inr (Some (hp, d, k))))))"

definition unsubscribe :: "subscription \<Rightarrow> ('h, subscription) guest_action" where
  "unsubscribe s st =
     (case s of
        None \<Rightarrow> (st, Inr None)
      | Some (hp, d, k) \<Rightarrow> thenA (guest_dispatcher (removeHandler hp d k) st) (\<lambda>_ st. (st, Inr None)))"

definition discard :: "subscription \<Rightarrow> subscription" where
  "discard s = None"

text \<open>Destructors and the move assignment are \<open>noexcept\<close>.\<close>

definition subscription_destroy :: "subscription \<Rightarrow> ('h, unit) guest_action" where
  "subscription_destroy s st =
     catchA (thenA (unsubscribe s st) (\<lambda>_ st. (st, Inr ()))) (\<lambda>x st. (st, Inl (UndefinedBehaviour ''std::terminate'')))"

definition subscription_assign :: "subscription \<Rightarrow> subscription \<Rightarrow> ('h, subscription \<times> subscription) guest_action" where
  "subscription_assign s rhs st =
     catchA (thenA (unsubscribe s st) (\<lambda>_ st. (st, Inr (rhs, None)))) (\<lambda>x st. (st, Inl (UndefinedBehaviour ''std::terminate'')))"

definition guest_clear :: "'h guest \<Rightarrow> 'h guest" where
  "guest_clear st = st\<lparr>g_dispatcher := dispatcher_clear (g_dispatcher st)\<rparr>"

section \<open>The connection to the host\<close>

definition guest_handleTransmission :: "'h guest_config \<Rightarrow> dots_header \<Rightarrow> content \<Rightarrow> ('h, bool) guest_action" where
  "guest_handleTransmission cfg h x st =
     (let (d, a) = (case x of Instance d a \<Rightarrow> (d, a) | _ \<Rightarrow> g_generated cfg x) in
      thenA (guest_dispatcher (dispatch (g_now cfg) (g_client cfg) (g_depth cfg)
               \<lparr>tr_header = h, tr_type = d, tr_instance = a\<rparr>) st)
        (\<lambda>_ st. (st, Inr True)))"

fun preload_publish :: "'h guest_config \<Rightarrow> sd_ref list \<Rightarrow> ('h, unit) guest_action" where
  "preload_publish cfg [] st = (st, Inr ())"
| "preload_publish cfg (d # ds) st =
     thenA (transmit_descriptor (closing_env cfg) d st) (\<lambda>_. preload_publish cfg ds)"

fun preload_subscribe :: "'h guest_config \<Rightarrow> sd_ref list \<Rightarrow> ('h, unit) guest_action" where
  "preload_subscribe cfg [] st = (st, Inr ())"
| "preload_subscribe cfg (d # ds) st =
     thenA (transmit_descriptor (closing_env cfg) d st) (\<lambda>_ st.
     thenA (joinGroup cfg (sd_name (sd_of d)) st) (\<lambda>_. preload_subscribe cfg ds))"

text \<open>
  \<open>handleTransitionImpl\<close>. An exception makes the guest delete the connection, whose destructor
  closes it first.
\<close>

definition guest_handleTransitionImpl :: "'h guest_config \<Rightarrow> ('h, unit) guest_action" where
  "guest_handleTransitionImpl cfg st =
     (if c_state (g_conn st) = Early_subscribe then
        catchA
          (thenA (preload_publish cfg (g_preloadPublishTypes st) st) (\<lambda>_ st.
           thenA (preload_subscribe cfg (g_preloadSubscribeTypes st) st) (\<lambda>_ st.
             (st\<lparr>g_preloadPublishTypes := [], g_preloadSubscribeTypes := []\<rparr>, Inr ()))))
          (\<lambda>x st. if g_owned st
             then thenA (connection_destroy (closing_env cfg) (st\<lparr>g_owned := False\<rparr>)) (\<lambda>_ st. (st\<lparr>g_alive := False\<rparr>, Inr ()))
             else (st, Inr ()))
      else if closed (g_conn st) then drop_connection st
      else (st, Inr ()))"

definition guest_handleTransition :: "'h guest_config \<Rightarrow> exn option \<Rightarrow> ('h, unit) guest_action" where
  "guest_handleTransition cfg e st =
     thenA (guest_transition_handler cfg e st) (\<lambda>_. guest_handleTransitionImpl cfg)"

definition guest_conn_env :: "'h guest_config \<Rightarrow> 'h guest conn_env" where
  "guest_conn_env cfg = host_conn_env cfg (guest_handleTransmission cfg) (guest_handleTransition cfg)"

definition guest_open ::
  "'h guest_config \<Rightarrow> sd_ref list \<Rightarrow> sd_ref list \<Rightarrow> string option \<Rightarrow> ('h, unit) guest_action" where
  "guest_open cfg publishTypes subscribeTypes authSecret st =
     (if g_owned st then (st, Inl (LogicError ''attempt to open connection while already connected''))
      else conn_asyncReceive (guest_conn_env cfg) (g_name cfg)
        (st\<lparr>g_preloadPublishTypes := publishTypes, g_preloadSubscribeTypes := subscribeTypes,
            g_conn := fst (connection_new False authSecret 0), g_owned := True, g_alive := True,
            g_opened := Suc (g_opened st)\<rparr>))"

definition guest_connected :: "'h guest \<Rightarrow> bool" where
  "guest_connected st \<longleftrightarrow> g_owned st \<and> connected (g_conn st)"

text \<open>A message or an error of the channel to the host.\<close>

definition guest_receive :: "'h guest_config \<Rightarrow> message \<Rightarrow> ('h, unit) guest_action" where
  "guest_receive cfg m = processReceive (guest_conn_env cfg) m"

definition guest_channel_error :: "'h guest_config \<Rightarrow> exn \<Rightarrow> ('h, unit) guest_action" where
  "guest_channel_error cfg e = processError (guest_conn_env cfg) e"

definition guest_destroy :: "'h guest_config \<Rightarrow> ('h, unit) guest_action" where
  "guest_destroy cfg st =
     (if g_owned st
      then thenA (connection_destroy (guest_conn_env cfg) (st\<lparr>g_owned := False\<rparr>)) (\<lambda>_ st. (st\<lparr>g_alive := False\<rparr>, Inr ()))
      else (st, Inr ()))"


section \<open>Transmitting while the channel works\<close>

definition online :: "'h guest_config \<Rightarrow> 'h guest \<Rightarrow> bool" where
  "online cfg st \<longleftrightarrow> g_owned st \<and> g_alive st \<and> (\<forall>i. g_fails cfg (g_opened st) i = None)"

definition guest_sent :: "frame list \<Rightarrow> 'h guest \<Rightarrow> 'h guest" where
  "guest_sent fs st = st\<lparr>g_frames := g_frames st @ List.map (Pair (g_opened st)) fs\<rparr>"

lemma guest_sent_simps [simp]:
  "g_conn (guest_sent fs st) = g_conn st" "g_owned (guest_sent fs st) = g_owned st"
  "g_alive (guest_sent fs st) = g_alive st" "g_opened (guest_sent fs st) = g_opened st"
  "g_joinedGroups (guest_sent fs st) = g_joinedGroups st" "g_dispatcher (guest_sent fs st) = g_dispatcher st"
  "g_preloadPublishTypes (guest_sent fs st) = g_preloadPublishTypes st"
  "g_preloadSubscribeTypes (guest_sent fs st) = g_preloadSubscribeTypes st"
  "guest_sent [] st = st" "guest_sent gs (guest_sent fs st) = guest_sent (fs @ gs) st"
  "online cfg (guest_sent fs st) = online cfg st"
  by (simp_all add: guest_sent_def online_def)

lemma online_updates [simp]:
  "online cfg (st\<lparr>g_conn := c\<rparr>) = online cfg st" "online cfg (st\<lparr>g_joinedGroups := gs\<rparr>) = online cfg st"
  "online cfg (st\<lparr>g_dispatcher := d\<rparr>) = online cfg st"
  by (simp_all add: online_def)

lemma host_put_online: "online cfg st \<Longrightarrow> host_put cfg f st = (guest_sent [f] st, Inr ())"
  by (simp add: online_def host_put_def guest_sent_def)

lemma host_conn_env_simps [simp]:
  "get_conn (host_conn_env cfg rcv change) = g_conn"
  "put_conn (host_conn_env cfg rcv change) = (\<lambda>c st. st\<lparr>g_conn := c\<rparr>)"
  "channel_transmit (host_conn_env cfg rcv change) = host_put cfg"
  "channel_start (host_conn_env cfg rcv change) = (\<lambda>st. (st, Inr ()))"
  "channel_import (host_conn_env cfg rcv change) = (\<lambda>m st. (st, Inr ()))"
  "channel_continue (host_conn_env cfg rcv change) =
     (\<lambda>st. if g_alive st then (st, Inr ()) else (st, Inl (UndefinedBehaviour ''channel destroyed'')))"
  "receiveHandler (host_conn_env cfg rcv change) = rcv"
  "transitionHandler (host_conn_env cfg rcv change) = change"
  "authManager (host_conn_env cfg rcv change) = None"
  "time_now (host_conn_env cfg rcv change) = g_now cfg"
  by (simp_all add: host_conn_env_def)

text \<open>The frame by which a guest joins a group.\<close>

definition join_frame :: "'h guest_config \<Rightarrow> string \<Rightarrow> frame" where
  "join_frame cfg name =
     (let x = member_message name Ev_join in
      Message (Data (empty_header\<lparr>hd_typeName := Some ''DotsMember'', hd_sentTime := Some (g_now cfg),
        hd_attributes := Some (ps_intersect (content_valid x) (content_properties x)), hd_removeObj := Some False\<rparr>) x))"

lemma joinGroup_online:
  assumes "online cfg st"
  shows "joinGroup cfg name st =
    (if name \<in> g_joinedGroups st then (st, Inr ())
     else ((guest_sent [join_frame cfg name] st)\<lparr>g_joinedGroups := insert name (g_joinedGroups st)\<rparr>, Inr ()))"
proof -
  have "g_owned st" using assms by (simp add: online_def)
  moreover have "ps_le ps_None ps" for ps by simp
  ultimately show ?thesis
    by (simp add: joinGroup_def guest_publish_content_def member_message_def transmit_content_def transmit_message_def
        host_put_online [OF assms] catchA_def join_frame_def Let_def empty_header_def)
qed

section \<open>Preloading\<close>

fun preload_frames :: "'h guest_config \<Rightarrow> sd_ref list \<Rightarrow> frame list" where
  "preload_frames cfg [] = []"
| "preload_frames cfg (d # ds) = Descriptor d # join_frame cfg (sd_name (sd_of d)) # preload_frames cfg ds"

lemma preload_publish_online: "online cfg st \<Longrightarrow> preload_publish cfg ds st = (guest_sent (List.map Descriptor ds) st, Inr ())"
  by (induction ds arbitrary: st) (simp_all add: transmit_descriptor_def host_put_online)

lemma preload_subscribe_online:
  assumes "online cfg st" "distinct (List.map (\<lambda>d. sd_name (sd_of d)) ds)"
    and "g_joinedGroups st \<inter> (\<lambda>d. sd_name (sd_of d)) ` set ds = {}"
  shows "preload_subscribe cfg ds st =
    ((guest_sent (preload_frames cfg ds) st)\<lparr>g_joinedGroups := g_joinedGroups st \<union> (\<lambda>d. sd_name (sd_of d)) ` set ds\<rparr>, Inr ())"
  using assms
proof (induction ds arbitrary: st)
  case Nil
  then show ?case by simp
next
  case (Cons d ds)
  let ?n = "sd_name (sd_of d)"
  let ?st1 = "(guest_sent [Descriptor d, join_frame cfg ?n] st)\<lparr>g_joinedGroups := insert ?n (g_joinedGroups st)\<rparr>"
  have "preload_subscribe cfg (d # ds) st = preload_subscribe cfg ds ?st1"
    using Cons.prems by (simp add: transmit_descriptor_def host_put_online joinGroup_online)
  also have "\<dots> = ((guest_sent (preload_frames cfg ds) ?st1)\<lparr>g_joinedGroups := g_joinedGroups ?st1 \<union> (\<lambda>d. sd_name (sd_of d)) ` set ds\<rparr>, Inr ())"
    by (rule Cons.IH) (use Cons.prems in auto)
  finally show ?case by (simp add: guest_sent_def insert_commute Un_commute)
qed

definition preloading_response :: "msg_response \<Rightarrow> bool" where
  "preloading_response m \<longleftrightarrow> response_clientId m \<noteq> None \<and> response_preload m = Some True
     \<and> ps_le (ps_add (FromIndex 5) (ps_add (FromIndex 2) (FromIndex 3))) (response_valid m)"

definition awaits_response :: "connection \<Rightarrow> bool" where
  "awaits_response c \<longleftrightarrow> c_state c = Connecting \<and> c_hasTransition c
     \<and> c_expected c = (Type_Response, ps_add (FromIndex 5) (ps_add (FromIndex 2) (FromIndex 3)), Some H_handleAuthorizationRequest)"

text \<open>The message that tells the host that the guest has sent what it preloads.\<close>

definition client_finished :: message where
  "client_finished = Connect \<lparr>connect_clientName = None, connect_preloadCache = None,
     connect_preloadClientFinished = Some True, connect_authChallengeResponse = None, connect_cnonce = None\<rparr>"

lemma transition_handler_outcome:
  obtains (returns) d where "guest_transition_handler cfg e st = (st\<lparr>g_dispatcher := d\<rparr>, Inr ())"
  | (undefined) d x where "guest_transition_handler cfg e st = (st\<lparr>g_dispatcher := d\<rparr>, Inl x)" "undefined_exn x"
proof (cases "g_transition cfg")
  case None
  then show ?thesis using returns [of "g_dispatcher st"] by (simp add: guest_transition_handler_def)
next
  case (Some handler)
  let ?run = "run_prog (dispatch (g_now cfg) (g_client cfg) (g_depth cfg))
              (addEventHandler (g_now cfg) (g_client cfg) (g_depth cfg)) (handler (g_conn st) e)"
  obtain d r where d: "?run (g_dispatcher st) = (d, r)" by (cases "?run (g_dispatcher st)")
  show ?thesis
  proof (cases "is_ub r")
    case True
    then show ?thesis
      using undefined [of d] d by (cases r) (auto simp: guest_transition_handler_def Some guest_dispatcher_def catchA_def)
  next
    case False
    then show ?thesis
      using returns [of d] d by (cases r) (auto simp: guest_transition_handler_def Some guest_dispatcher_def catchA_def)
  qed
qed

lemma transition_online:
  assumes "online cfg st" "c_state (g_conn st) = Early_subscribe"
    and "distinct (List.map (\<lambda>d. sd_name (sd_of d)) (g_preloadSubscribeTypes st))"
    and "g_joinedGroups st \<inter> (\<lambda>d. sd_name (sd_of d)) ` set (g_preloadSubscribeTypes st) = {}"
  shows "guest_handleTransitionImpl cfg st =
    ((guest_sent (List.map Descriptor (g_preloadPublishTypes st) @ preload_frames cfg (g_preloadSubscribeTypes st)) st)
       \<lparr>g_joinedGroups := g_joinedGroups st \<union> (\<lambda>d. sd_name (sd_of d)) ` set (g_preloadSubscribeTypes st),
        g_preloadPublishTypes := [], g_preloadSubscribeTypes := []\<rparr>, Inr ())"
  using assms by (simp add: guest_handleTransitionImpl_def preload_publish_online preload_subscribe_online catchA_def)

lemma receive_response:
  assumes "awaits_response (g_conn st)" "preloading_response m"
  shows "guest_receive cfg (Response m) st =
    catchA
      (catchA
        (thenA (setConnectionState (guest_conn_env cfg) Early_subscribe None
             (st\<lparr>g_conn := (g_conn st)\<lparr>c_selfId := the (response_clientId m)\<rparr>\<rparr>)) (\<lambda>_ s.
         thenA (host_put cfg (Message client_finished) s) (\<lambda>_ s.
           channel_continue (guest_conn_env cfg)
             (expectSystemType (guest_conn_env cfg) Type_Response (FromIndex 4) H_handlePreloadFinished s))))
        (processError (guest_conn_env cfg)))
      (\<lambda>x s. (s, Inl (UndefinedBehaviour ''std::terminate'')))"
proof -
  have assoc: "thenA (thenA a f) g = thenA a (\<lambda>x s. thenA (f x s) g)" for a f g
    by (simp add: thenA_def split: sum.split)
  obtain i where i: "response_clientId m = Some i" using assms(2) by (auto simp: preloading_response_def)
  show ?thesis
    using assms i
    by (simp add: guest_receive_def processReceive_def handleReceive_def handleSystem_def awaits_response_def preloading_response_def
        guest_conn_env_def closed_def call_handler_def handleAuthorizationRequest_def deref_def assert_valid_def modify_conn_def
        transmit_message_def client_finished_def assoc)
qed

text \<open>C37: A guest that is accepted with preloading, over a channel that does not fail and with none of
  the groups joined before, as on its first connection, sends in this order the descriptors of
  the types it publishes, for each type it subscribes to the descriptor and the request to
  join the group, and the end of its preloading, and remembers the groups. On a later
  connection the requests for groups joined before are missing. The transition handler of the
  application may do anything defined with the dispatcher.\<close>

theorem guest_preloads:
  assumes "online cfg st" "awaits_response (g_conn st)" "preloading_response m"
    and "distinct (List.map (\<lambda>d. sd_name (sd_of d)) (g_preloadSubscribeTypes st))"
    and "g_joinedGroups st \<inter> (\<lambda>d. sd_name (sd_of d)) ` set (g_preloadSubscribeTypes st) = {}"
    and "\<And>s. \<not> is_ub (snd (guest_transition_handler cfg None s))"
  shows "\<exists>st'. guest_receive cfg (Response m) st = (st', Inr ())
    \<and> g_frames st' = g_frames st @ List.map (Pair (g_opened st))
        (List.map Descriptor (g_preloadPublishTypes st) @ preload_frames cfg (g_preloadSubscribeTypes st) @ [Message client_finished])
    \<and> g_joinedGroups st' = g_joinedGroups st \<union> (\<lambda>d. sd_name (sd_of d)) ` set (g_preloadSubscribeTypes st)
    \<and> c_state (g_conn st') = Early_subscribe \<and> Some (c_selfId (g_conn st')) = response_clientId m
    \<and> g_preloadPublishTypes st' = [] \<and> g_preloadSubscribeTypes st' = []"
proof -
  let ?st1 = "st\<lparr>g_conn := (g_conn st)\<lparr>c_selfId := the (response_clientId m)\<rparr>\<rparr>"
  let ?st2 = "st\<lparr>g_conn := (g_conn st)\<lparr>c_selfId := the (response_clientId m), c_state := Early_subscribe\<rparr>\<rparr>"
  let ?joined = "g_joinedGroups st \<union> (\<lambda>d. sd_name (sd_of d)) ` set (g_preloadSubscribeTypes st)"
  obtain d where d: "guest_transition_handler cfg None ?st2 = (?st2\<lparr>g_dispatcher := d\<rparr>, Inr ())"
    using transition_handler_outcome [of cfg None ?st2] assms(6) [of ?st2] by fastforce
  let ?st2' = "?st2\<lparr>g_dispatcher := d\<rparr>"
  let ?st3 = "(guest_sent (List.map Descriptor (g_preloadPublishTypes st) @ preload_frames cfg (g_preloadSubscribeTypes st)) ?st2')
       \<lparr>g_joinedGroups := ?joined, g_preloadPublishTypes := [], g_preloadSubscribeTypes := []\<rparr>"
  have on: "online cfg ?st2'" using assms(1) by simp
  have "guest_handleTransition cfg None ?st2 = (?st3, Inr ())"
    using transition_online [OF on] assms(4,5) by (simp add: guest_handleTransition_def d)
  then have "setConnectionState (guest_conn_env cfg) Early_subscribe None ?st1 = (?st3, Inr ())"
    using assms(2) by (simp add: setConnectionState_def guest_conn_env_def modify_conn_def awaits_response_def catchA_def)
  moreover have "online cfg ?st3" using assms(1) by (simp add: online_def)
  moreover have "\<exists>i. response_clientId m = Some i" using assms(3) by (auto simp: preloading_response_def)
  ultimately show ?thesis
    using assms(1)
    by (auto simp: receive_response [OF assms(2,3)] host_put_online catchA_def guest_conn_env_def expectSystemType_def modify_conn_def
        online_def guest_sent_def)
qed

section \<open>Errors while preloading\<close>

lemma failed_preload:
  assumes "c_state (g_conn st) = Early_subscribe" "c_hasTransition (g_conn st)" "g_owned st" "g_alive st"
    and "g_preloadPublishTypes st = d # ds" "g_fails cfg (g_opened st) (length (g_frames st)) = Some x" "\<not> undefined_exn x"
  shows "\<exists>st'. (guest_handleTransitionImpl cfg st = (st', Inr ()) \<and> \<not> g_alive st')
    \<or> (\<exists>y. guest_handleTransitionImpl cfg st = (st', Inl y) \<and> undefined_exn y)"
proof -
  let ?s = "st\<lparr>g_owned := False, g_conn := shut (g_conn st)\<rparr>"
  show ?thesis
    by (rule transition_handler_outcome [of cfg None ?s])
      (use assms in \<open>simp add: guest_handleTransitionImpl_def transmit_descriptor_def host_put_def catchA_def connection_destroy_def
        closed_def connected_def handleClose_def setConnectionState_def expectSystemType_def modify_conn_def closed_transition_def
        drop_connection_def shut_def\<close>)+
qed

text \<open>When the channel fails at the first descriptor a guest preloads, the guest deletes the
  connection within its own transition, and the handshake goes on with the deleted object.\<close>

theorem preload_failure_use_after_free:
  assumes "awaits_response (g_conn st)" "preloading_response m" "g_owned st" "g_alive st"
    and "g_preloadPublishTypes st = d # ds" "g_fails cfg (g_opened st) (length (g_frames st)) = Some x" "\<not> undefined_exn x"
  shows "is_ub (snd (guest_receive cfg (Response m) st))"
proof -
  let ?st1 = "st\<lparr>g_conn := (g_conn st)\<lparr>c_selfId := the (response_clientId m)\<rparr>\<rparr>"
  let ?st2 = "st\<lparr>g_conn := (g_conn st)\<lparr>c_selfId := the (response_clientId m), c_state := Early_subscribe\<rparr>\<rparr>"
  obtain st3 r where st3: "guest_handleTransition cfg None ?st2 = (st3, r)" "r = Inr () \<and> \<not> g_alive st3 \<or> (\<exists>y. r = Inl y \<and> undefined_exn y)"
  proof (cases rule: transition_handler_outcome [of cfg None ?st2])
    case (returns d')
    then have "guest_handleTransition cfg None ?st2 = guest_handleTransitionImpl cfg (?st2\<lparr>g_dispatcher := d'\<rparr>)"
      by (simp add: guest_handleTransition_def)
    then show ?thesis
      using failed_preload [of "?st2\<lparr>g_dispatcher := d'\<rparr>" d ds cfg x] assms that by (auto simp: awaits_response_def)
  next
    case (undefined d' y)
    then show ?thesis using that by (auto simp: guest_handleTransition_def)
  qed
  then have "setConnectionState (guest_conn_env cfg) Early_subscribe None ?st1 = (st3, r)"
    using assms(1) by (auto simp: setConnectionState_def guest_conn_env_def modify_conn_def awaits_response_def catchA_def)
  then show ?thesis
    using st3(2) by (auto simp: receive_response [OF assms(1,2)] host_put_def catchA_def)
qed

section \<open>Joining\<close>

lemma guest_dispatcher_frame:
  "g_frames (fst (guest_dispatcher f st)) = g_frames st" "g_joinedGroups (fst (guest_dispatcher f st)) = g_joinedGroups st"
  "online cfg (fst (guest_dispatcher f st)) = online cfg st" "g_opened (fst (guest_dispatcher f st)) = g_opened st"
  by (simp_all add: guest_dispatcher_def online_def split: prod.split)

lemma subscribe_join:
  assumes "joinGroup cfg (sd_name (sd_of d)) st = (st1, Inr ())" "\<not> substructOnly (sd_of d)"
  shows "\<exists>f :: ('h, nat) action. fst (subscribe cfg hp d (h :: 'h) st) = fst (guest_dispatcher f st1)"
proof -
  have keep: "fst (thenA x (\<lambda>k st. (st, Inr (g k)))) = fst x" for x :: "'h guest \<times> nat result" and g :: "nat \<Rightarrow> subscription"
    by (cases x; cases "snd x") auto
  show ?thesis
  proof (cases hp)
    case Transmission_Pool
    then show ?thesis using assms by (auto simp: subscribe_def keep)
  next
    case Event_Pool
    then show ?thesis using assms by (auto simp: subscribe_def keep)
  qed
qed

lemma subscribe_frame:
  assumes "online cfg st" "st' = fst (subscribe cfg hp d (h :: 'h) st)"
  defines "names \<equiv> (if substructOnly (sd_of d) \<or> sd_name (sd_of d) \<in> g_joinedGroups st then [] else [sd_name (sd_of d)])"
  shows "g_frames st' = g_frames st @ List.map (\<lambda>n. (g_opened st, join_frame cfg n)) names"
    and "g_joinedGroups st' = g_joinedGroups st \<union> set names" "online cfg st'" "g_opened st' = g_opened st"
proof -
  let ?name = "sd_name (sd_of d)"
  have "g_frames st' = g_frames st @ List.map (\<lambda>n. (g_opened st, join_frame cfg n)) names
    \<and> g_joinedGroups st' = g_joinedGroups st \<union> set names \<and> online cfg st' \<and> g_opened st' = g_opened st"
  proof (cases "substructOnly (sd_of d)")
    case True
    then show ?thesis using assms(1,2) by (simp add: subscribe_def names_def)
  next
    case False
    define st1 where "st1 = fst (joinGroup cfg ?name st)"
    have st1: "joinGroup cfg ?name st = (st1, Inr ())" "online cfg st1" "g_opened st1 = g_opened st"
      "g_frames st1 = g_frames st @ List.map (\<lambda>n. (g_opened st, join_frame cfg n)) names"
      "g_joinedGroups st1 = g_joinedGroups st \<union> set names"
      using joinGroup_online [OF assms(1), of ?name] assms(1) False
      by (auto simp: st1_def guest_sent_def online_def insert_absorb names_def)
    obtain f :: "('h, nat) action" where "st' = fst (guest_dispatcher f st1)"
      using subscribe_join [of cfg d st st1 hp h] st1(1) False assms(2) by auto
    then show ?thesis using st1(2-5) by (simp add: guest_dispatcher_frame)
  qed
  then show "g_frames st' = g_frames st @ List.map (\<lambda>n. (g_opened st, join_frame cfg n)) names"
    "g_joinedGroups st' = g_joinedGroups st \<union> set names" "online cfg st'" "g_opened st' = g_opened st" by simp_all
qed

lemma unsubscribe_frame:
  assumes "unsubscribe s st = (st', r)"
  shows "g_frames st' = g_frames st" "g_joinedGroups st' = g_joinedGroups st" "online cfg st' = online cfg st" "g_opened st' = g_opened st"
proof -
  have keep: "fst (thenA x (\<lambda>_ st. (st, Inr None))) = fst x" for x :: "'a guest \<times> unit result"
    by (cases x; cases "snd x") auto
  have "st' = fst (unsubscribe s st)" using assms by simp
  also have "\<dots> = st \<or> (\<exists>f :: ('a, unit) action. \<dots> = fst (guest_dispatcher f st))"
    by (auto simp: unsubscribe_def keep split: option.split)
  finally have "st' = st \<or> (\<exists>f :: ('a, unit) action. st' = fst (guest_dispatcher f st))" using assms by simp
  then show "g_frames st' = g_frames st" "g_joinedGroups st' = g_joinedGroups st" "online cfg st' = online cfg st" "g_opened st' = g_opened st"
    by (auto simp: guest_dispatcher_frame)
qed

text \<open>
  What an application does with subscriptions: it subscribes, ends subscriptions, and catches what these
  operations throw.
\<close>

datatype 'h sub_op = Subscribe handler_pool sd_ref 'h | Unsubscribe subscription

fun run_sub_op :: "'h guest_config \<Rightarrow> 'h sub_op \<Rightarrow> ('h, subscription) guest_action" where
  "run_sub_op cfg (Subscribe hp d h) st = subscribe cfg hp d h st"
| "run_sub_op cfg (Unsubscribe s) st = unsubscribe s st"

fun sub_ops :: "'h guest_config \<Rightarrow> 'h sub_op list \<Rightarrow> ('h, subscription) guest_action" where
  "sub_ops cfg [] st = (st, Inr None)"
| "sub_ops cfg (op # ops) st = thenA (catchA (run_sub_op cfg op st) (\<lambda>x st. (st, Inr None))) (\<lambda>_. sub_ops cfg ops)"

definition subscribed_types :: "'h sub_op list \<Rightarrow> string set" where
  "subscribed_types ops = {sd_name (sd_of d) | hp d h. Subscribe hp d h \<in> set ops \<and> \<not> substructOnly (sd_of d)}"

lemma subscribed_types_simps [simp]:
  "subscribed_types [] = {}"
  "subscribed_types (Subscribe hp d h # ops) = (if substructOnly (sd_of d) then {} else {sd_name (sd_of d)}) \<union> subscribed_types ops"
  "subscribed_types (Unsubscribe s # ops) = subscribed_types ops"
  unfolding subscribed_types_def list.set by auto

lemma subscribed_types_Cons: "subscribed_types (op # ops) = subscribed_types [op] \<union> subscribed_types ops"
  by (cases op) simp_all

lemma run_sub_op_frame:
  assumes "online cfg st"
  obtains names where
    "g_frames (fst (run_sub_op cfg op st)) = g_frames st @ List.map (\<lambda>n. (g_opened st, join_frame cfg n)) names"
    "g_joinedGroups (fst (run_sub_op cfg op st)) = g_joinedGroups st \<union> set names" "distinct names"
    "set names = subscribed_types [op] - g_joinedGroups st"
    "online cfg (fst (run_sub_op cfg op st))" "g_opened (fst (run_sub_op cfg op st)) = g_opened st"
proof (cases op)
  case (Subscribe hp d h)
  let ?names = "if substructOnly (sd_of d) \<or> sd_name (sd_of d) \<in> g_joinedGroups st then [] else [sd_name (sd_of d)]"
  have "set ?names = subscribed_types [op] - g_joinedGroups st" by (auto simp: Subscribe)
  then show ?thesis
    by (intro that [of ?names]) (simp_all only: Subscribe run_sub_op.simps subscribe_frame [OF assms refl], simp)
next
  case (Unsubscribe s)
  obtain st' r where "unsubscribe s st = (st', r)" by fastforce
  then show ?thesis
    using unsubscribe_frame [of s st st' r] assms
    by (intro that [of "[]"]) (simp_all add: Unsubscribe)
qed

text \<open>C38: On one connection that does not fail, any sequence of subscriptions and unsubscriptions,
  failing ones included, sends exactly one request to join for each subscribed type whose
  group was not joined before, and nothing else. So no request to leave is sent either when
  the last subscription ends, although the documentation says so: this is what the code does,
  and it differs from the documentation there.\<close>

theorem subscriptions_join_once:
  assumes "online cfg st" "sub_ops cfg ops st = (st', Inr s)"
  shows "\<exists>names. distinct names \<and> set names = subscribed_types ops - g_joinedGroups st
    \<and> g_frames st' = g_frames st @ List.map (\<lambda>n. (g_opened st, join_frame cfg n)) names
    \<and> g_joinedGroups st' = g_joinedGroups st \<union> subscribed_types ops"
  using assms
proof (induction ops arbitrary: st)
  case Nil
  then show ?case by simp
next
  case (Cons op ops)
  define st1 where "st1 = fst (run_sub_op cfg op st)"
  obtain names where 1: "g_frames st1 = g_frames st @ List.map (\<lambda>n. (g_opened st, join_frame cfg n)) names"
    "g_joinedGroups st1 = g_joinedGroups st \<union> set names" "distinct names" "set names = subscribed_types [op] - g_joinedGroups st"
    "online cfg st1" "g_opened st1 = g_opened st"
    unfolding st1_def by (rule run_sub_op_frame [OF Cons.prems(1), where op = op])
  obtain r where r: "run_sub_op cfg op st = (st1, r)" unfolding st1_def by (metis prod.collapse)
  have "sub_ops cfg ops st1 = (st', Inr s)"
    using Cons.prems(2) by (cases r) (auto simp: r catchA_def split: if_splits)
  from Cons.IH [OF 1(5) this] obtain names' where 2: "distinct names'" "set names' = subscribed_types ops - g_joinedGroups st1"
    "g_frames st' = g_frames st1 @ List.map (\<lambda>n. (g_opened st1, join_frame cfg n)) names'"
    "g_joinedGroups st' = g_joinedGroups st1 \<union> subscribed_types ops" by blast
  note types = subscribed_types_Cons [of op ops]
  have "distinct (names @ names')" using 1(2,3) 2(1,2) by auto
  moreover have "set (names @ names') = subscribed_types (op # ops) - g_joinedGroups st"
    using 1(2,4) 2(2) unfolding types by auto
  moreover have "g_joinedGroups st' = g_joinedGroups st \<union> subscribed_types (op # ops)"
    using 1(2,4) 2(4) unfolding types by auto
  ultimately show ?case using 1(1,6) 2(3) by (intro exI [of _ "names @ names'"]) simp
qed

section \<open>A second connection\<close>

text \<open>After a guest has opened a new connection, a subscription to a type it joined on an earlier
  one sends no request to join, so the new host never sends it the type.\<close>

theorem reconnect_joins_nothing:
  assumes "sd_name (sd_of d) \<in> g_joinedGroups st" "\<forall>n i. g_fails cfg n i = None"
    and "guest_open cfg [] [] authSecret st = (st1, Inr ())" "subscribe cfg hp d h st1 = (st2, Inr s)"
  shows "g_frames st2 = g_frames st \<and> g_opened st2 = Suc (g_opened st)"
proof -
  have owned: "\<not> g_owned st" using assms(3) by (simp add: guest_open_def split: if_splits)
  define st0 where "st0 = st\<lparr>g_preloadPublishTypes := [], g_preloadSubscribeTypes := [], g_conn := (fst (connection_new False authSecret 0))
      \<lparr>c_state := Connecting, c_hasReceive := True, c_hasTransition := True\<rparr>, g_owned := True, g_alive := True,
    g_opened := Suc (g_opened st)\<rparr>"
  have impl: "guest_handleTransitionImpl cfg (st0\<lparr>g_dispatcher := d'\<rparr>) = (st0\<lparr>g_dispatcher := d'\<rparr>, Inr ())" for d'
    by (simp add: guest_handleTransitionImpl_def st0_def closed_def)
  have start: "modify_conn (guest_conn_env cfg) (c_state_update (\<lambda>_. Connecting))
      (modify_conn (guest_conn_env cfg) (c_hasReceive_update (\<lambda>_. True) \<circ> c_hasTransition_update (\<lambda>_. True))
        (st\<lparr>g_preloadPublishTypes := [], g_preloadSubscribeTypes := [], g_conn := fst (connection_new False authSecret 0),
          g_owned := True, g_alive := True, g_opened := Suc (g_opened st)\<rparr>)) = st0"
    by (simp add: modify_conn_def guest_conn_env_def st0_def)
  have st1: "online cfg st1 \<and> g_frames st1 = g_frames st \<and> g_joinedGroups st1 = g_joinedGroups st \<and> g_opened st1 = Suc (g_opened st)"
  proof (cases rule: transition_handler_outcome [of cfg None st0])
    case (returns d')
    then have "guest_handleTransition cfg None st0 = (st0\<lparr>g_dispatcher := d'\<rparr>, Inr ())"
      by (simp add: guest_handleTransition_def impl)
    then have "guest_open cfg [] [] authSecret st = (st0\<lparr>g_dispatcher := d', g_conn := (g_conn st0)\<lparr>c_selfName := g_name cfg,
        c_expected := (Type_Hello, ps_add (FromIndex 1) (FromIndex 2), Some H_handleHello)\<rparr>\<rparr>, Inr ())"
      using owned
      by (simp add: guest_open_def conn_asyncReceive_def setConnectionState_def start Let_def catchA_def)
        (simp add: st0_def guest_conn_env_def connection_new_def isHost_def HostId_def UninitializedId_def expectSystemType_def modify_conn_def)
    then show ?thesis using assms(2,3) by (auto simp: st0_def online_def)
  next
    case (undefined d' x)
    then have "guest_handleTransition cfg None st0 = (st0\<lparr>g_dispatcher := d'\<rparr>, Inl x)"
      by (simp add: guest_handleTransition_def)
    then have "guest_open cfg [] [] authSecret st = (st0\<lparr>g_dispatcher := d'\<rparr>, Inl x)"
      using owned undefined(2)
      by (simp add: guest_open_def conn_asyncReceive_def setConnectionState_def start Let_def catchA_def)
        (simp add: st0_def guest_conn_env_def connection_new_def)
    then show ?thesis using assms(3) by simp
  qed
  have "st2 = fst (subscribe cfg hp d h st1)" using assms(4) by simp
  from subscribe_frame [OF _ this] show ?thesis using st1 assms(1) by simp
qed

section \<open>Subscriptions that outlive their handlers\<close>

text \<open>When a transceiver is cleared before a subscription of it ends, the destructor of the
  subscription throws, which ends the program.\<close>

theorem cleared_subscription_terminates:
  assumes "subscribe cfg hp d h st = (st1, Inr s)"
  shows "subscription_destroy s (guest_clear st1) = (guest_clear st1, Inl (UndefinedBehaviour ''std::terminate''))"
proof -
  obtain k where s: "s = Some (hp, d, k)"
    using assms by (auto simp: subscribe_def thenA_def split: if_splits sum.splits)
  have "dispatcher_clear (g_dispatcher st1) = (dispatcher_clear (g_dispatcher st1)) \<and> handlers_of hp d (dispatcher_clear (g_dispatcher st1)) = []"
    by (simp add: dispatcher_clear_def handlers_of_def)
  then show ?thesis
    by (simp add: s subscription_destroy_def unsubscribe_def guest_dispatcher_def removeHandler_def guest_clear_def catchA_def
        dispatcher_clear_def)
qed

section \<open>The contract with the connection\<close>

lemma transition_handler_conn [simp]: "g_conn (fst (guest_transition_handler cfg e st)) = g_conn st"
  by (rule transition_handler_outcome [of cfg e st]) simp_all

lemma thenA_conn: "(\<And>x s. g_conn (fst (f x s)) = g_conn s) \<Longrightarrow> g_conn (fst (thenA m f)) = g_conn (fst m)"
  by (cases m; cases "snd m") auto

lemma closed_transition_conn [simp]: "g_conn (fst (closed_transition cfg e st)) = g_conn st"
  unfolding closed_transition_def by (subst thenA_conn) (simp_all add: drop_connection_def)

interpretation closing: connection_client "closing_env cfg"
  by unfold_locales (auto simp: host_conn_env_def host_put_def closes_def split: option.split)

lemma wp_publish: "wp (guest_publish_content cfg x ps rm st) (\<lambda>st' r. closes (g_conn st) (g_conn st'))"
proof -
  have "wp (handleError (closing_env cfg) e st') (\<lambda>st'' r. closes (g_conn st) (g_conn st''))" if "g_conn st' = g_conn st" for e st'
    by (rule closing.wp_handleError) (use that in \<open>auto simp: closes_def\<close>)
  then have "wp (catchA (transmit_content (closing_env cfg) x (Some inc) rm st) (handleError (closing_env cfg)))
      (\<lambda>st' r. closes (g_conn st) (g_conn st'))" for inc
    by (auto simp: transmit_content_def Let_def closes_def split: sum.split intro!: closing.wp_transmit)
  then show ?thesis by (simp add: guest_publish_content_def Let_def closes_def)
qed

lemma wp_join: "wp (joinGroup cfg name st) (\<lambda>st' r. closes (g_conn st) (g_conn st'))"
proof -
  have "g_conn (fst (thenA m (\<lambda>_ st. (st\<lparr>g_joinedGroups := insert name (g_joinedGroups st)\<rparr>, Inr ())))) = g_conn (fst m)"
    for m :: "'a guest \<times> unit result"
    by (cases m; cases "snd m") auto
  then show ?thesis
    using wp_publish [of cfg "member_message name Ev_join" None False st] by (simp add: joinGroup_def wp_def)
qed

lemma wp_preload_publish: "wp (preload_publish cfg ds st) (\<lambda>st' r. g_conn st' = g_conn st)"
proof (induction ds arbitrary: st)
  case (Cons d ds)
  have "g_conn (fst (host_put cfg f st)) = g_conn st" for f by (simp add: host_put_def split: option.split)
  then show ?case
    using Cons.IH by (auto simp: transmit_descriptor_def wp_def thenA_def split: sum.split)
qed simp

lemma wp_preload_subscribe: "wp (preload_subscribe cfg ds st) (\<lambda>st' r. closes (g_conn st) (g_conn st'))"
proof (induction ds arbitrary: st)
  case (Cons d ds)
  have put: "g_conn (fst (host_put cfg f st)) = g_conn st" for f by (simp add: host_put_def split: option.split)
  define st1 where "st1 = fst (host_put cfg (Descriptor d) st)"
  define st2 where "st2 = fst (joinGroup cfg (sd_name (sd_of d)) st1)"
  have 1: "g_conn st1 = g_conn st" "closes (g_conn st1) (g_conn st2)"
    using put wp_join [of cfg "sd_name (sd_of d)" st1] by (simp_all add: st1_def st2_def wp_def)
  have 2: "closes (g_conn st2) (g_conn (fst (preload_subscribe cfg ds st2)))" using Cons.IH [of st2] by (simp add: wp_def)
  show ?case
    using 1 closes_trans [OF 1(2) 2]
    by (cases "host_put cfg (Descriptor d) st"; cases "joinGroup cfg (sd_name (sd_of d)) st1")
      (auto simp: transmit_descriptor_def wp_def thenA_def st1_def st2_def closes_def split: sum.split)
qed (simp add: closes_def)

lemma wp_guest_destroy: "wp (connection_destroy (closing_env cfg) st) (\<lambda>st' r. closes (g_conn st) (g_conn st'))"
  unfolding connection_destroy_def
  by (auto simp: closes_def split: sum.split intro!: closing.wp_transmit closing.wp_handleClose)

lemma wp_guest_transitionImpl: "wp (guest_handleTransitionImpl cfg st) (\<lambda>st' r. closes (g_conn st) (g_conn st'))"
proof -
  define m where "m = thenA (preload_publish cfg (g_preloadPublishTypes st) st) (\<lambda>_ st.
           thenA (preload_subscribe cfg (g_preloadSubscribeTypes st) st) (\<lambda>_ st.
             (st\<lparr>g_preloadPublishTypes := [], g_preloadSubscribeTypes := []\<rparr>, Inr ())))"
  define st1 where "st1 = fst (preload_publish cfg (g_preloadPublishTypes st) st)"
  have 1: "g_conn st1 = g_conn st" using wp_preload_publish [of cfg "g_preloadPublishTypes st" st] by (simp add: wp_def st1_def)
  have 2: "closes (g_conn st1) (g_conn (fst (preload_subscribe cfg (g_preloadSubscribeTypes st1) st1)))"
    using wp_preload_subscribe [of cfg _ st1] by (simp add: wp_def)
  have keep: "g_conn (fst (thenA x (\<lambda>_ st. (f st, Inr ())))) = g_conn (fst x)" if "\<And>s. g_conn (f s) = g_conn s"
    for x :: "'a guest \<times> unit result" and f
    using that by (cases x; cases "snd x") auto
  have m: "closes (g_conn st) (g_conn (fst m))"
  proof (cases "snd (preload_publish cfg (g_preloadPublishTypes st) st)")
    case (Inl x)
    then have "fst m = st1" by (simp add: m_def thenA_def st1_def)
    then show ?thesis using 1 by simp
  next
    case (Inr u)
    then have "preload_publish cfg (g_preloadPublishTypes st) st = (st1, Inr ())" by (simp add: st1_def prod_eq_iff)
    then have "g_conn (fst m) = g_conn (fst (preload_subscribe cfg (g_preloadSubscribeTypes st1) st1))"
      by (simp add: m_def keep)
    then show ?thesis using 1 2 by simp
  qed
  have d: "closes (g_conn s) (g_conn (fst (thenA (connection_destroy (closing_env cfg) (s\<lparr>g_owned := False\<rparr>))
      (\<lambda>_ st. (st\<lparr>g_alive := False\<rparr>, Inr ())))))" for s
    using wp_guest_destroy [of cfg "s\<lparr>g_owned := False\<rparr>"] by (simp add: keep wp_def)
  show ?thesis
    using m d [of "fst m"]
    by (cases m) (auto simp: guest_handleTransitionImpl_def drop_connection_def catchA_def wp_def simp flip: m_def
        intro: closes_trans split: sum.split)
qed

lemma wp_guest_transition: "wp (guest_handleTransition cfg e st) (\<lambda>st' r. closes (g_conn st) (g_conn st'))"
proof (cases rule: transition_handler_outcome [of cfg e st])
  case (returns d)
  then show ?thesis
    using wp_guest_transitionImpl [of cfg "st\<lparr>g_dispatcher := d\<rparr>"] by (simp add: guest_handleTransition_def)
next
  case (undefined d x)
  then show ?thesis by (simp add: guest_handleTransition_def wp_def closes_def)
qed

interpretation host_side: connection_client "guest_conn_env cfg"
proof
  fix st :: "'a guest" and h x e
  show "closes (get_conn (guest_conn_env cfg) st) (get_conn (guest_conn_env cfg) (fst (transitionHandler (guest_conn_env cfg) e st)))"
    using wp_guest_transition [of cfg e st] by (simp add: guest_conn_env_def wp_def)
  have "g_conn (fst (thenA (guest_dispatcher f st) (\<lambda>_ st. (st, Inr True)))) = g_conn st" for f :: "('a, unit) action"
    by (cases "f (g_dispatcher st)"; cases "snd (f (g_dispatcher st))") (auto simp: guest_dispatcher_def)
  then show "closes (get_conn (guest_conn_env cfg) st) (get_conn (guest_conn_env cfg) (fst (receiveHandler (guest_conn_env cfg) h x st)))"
    by (simp add: guest_conn_env_def guest_handleTransmission_def closes_def split: prod.split)
qed (auto simp: guest_conn_env_def host_conn_env_def host_put_def split: option.split)

text \<open>So every message moves the connection of a guest along the protocol.\<close>

lemma guest_follows_protocol:
  assumes "in_phase p (g_conn st)" "p \<noteq> Idle" "\<not> is_ub (snd (guest_receive cfg m st))"
  shows "\<exists>p'. in_phase p' (g_conn (fst (guest_receive cfg m st))) \<and> protocol p m p'"
proof -
  have get: "get_conn (guest_conn_env cfg) = g_conn" by (simp add: guest_conn_env_def)
  show ?thesis
    using host_side.processReceive_protocol [of p cfg st m] assms by (simp add: wp_def guest_receive_def get)
qed

section \<open>Examples\<close>

definition news_ref :: sd_ref where
  "news_ref = SdRef 7 (StructDescriptor ''News'' 0 [])"

definition guest_example_config :: "(nat \<Rightarrow> nat \<Rightarrow> exn option) \<Rightarrow> nat guest_config" where
  "guest_example_config fails = \<lparr>g_name = ''guest'', g_now = 9, g_client = (\<lambda>_ _ _. Finish), g_depth = 1, g_transition = None, g_fails = fails,
     g_nonce = 0, g_crypto = simple_crypto, g_generated = (\<lambda>_. (news_ref, Area ps_None []))\<rparr>"

definition waiting_guest :: "nat guest" where
  "waiting_guest = guest_new\<lparr>g_conn := (g_conn (guest_new :: nat guest))\<lparr>c_state := Connecting, c_hasTransition := True,
       c_expected := (Type_Response, ps_add (FromIndex 5) (ps_add (FromIndex 2) (FromIndex 3)), Some H_handleAuthorizationRequest)\<rparr>,
     g_owned := True, g_alive := True, g_opened := 1, g_preloadPublishTypes := [news_ref], g_preloadSubscribeTypes := [news_ref]\<rparr>"

definition acceptance :: msg_response where
  "acceptance = \<lparr>response_serverName = None, response_clientId = Some 3, response_accepted = Some True,
     response_preload = Some True, response_preloadFinished = None\<rparr>"

lemma acceptance_preloading: "preloading_response acceptance"
  by (simp add: preloading_response_def acceptance_def response_valid_def valid_tag_def)

lemma waiting_guest_simps:
  "awaits_response (g_conn waiting_guest)" "g_owned waiting_guest" "g_alive waiting_guest" "g_opened waiting_guest = 1"
  "g_preloadPublishTypes waiting_guest = [news_ref]" "g_preloadSubscribeTypes waiting_guest = [news_ref]"
  "g_joinedGroups waiting_guest = {}" "g_frames waiting_guest = []"
  by (simp_all add: waiting_guest_def guest_new_def awaits_response_def)

text \<open>The steps of a guest that subscribes, unsubscribes and subscribes again.\<close>

lemma news_not_substruct: "\<not> substructOnly (sd_of news_ref)" "sd_name (sd_of news_ref) = ''News''"
  by (simp_all add: news_ref_def substructOnly_def Flag_SubstructOnly_def)

lemma guest_preloads_witness:
  "\<exists>st'. guest_receive (guest_example_config (\<lambda>_ _. None)) (Response acceptance) waiting_guest = (st', Inr ())
    \<and> List.map snd (g_frames st') = [Descriptor news_ref, Descriptor news_ref, join_frame (guest_example_config (\<lambda>_ _. None)) ''News'',
        Message client_finished]"
proof -
  have on: "online (guest_example_config (\<lambda>_ _. None)) waiting_guest"
    by (simp add: online_def waiting_guest_simps) (simp add: guest_example_config_def)
  have "distinct (List.map (\<lambda>d. sd_name (sd_of d)) (g_preloadSubscribeTypes waiting_guest))"
    "g_joinedGroups waiting_guest \<inter> (\<lambda>d. sd_name (sd_of d)) ` set (g_preloadSubscribeTypes waiting_guest) = {}"
    by (simp_all add: waiting_guest_simps)
  moreover have "\<not> is_ub (snd (guest_transition_handler (guest_example_config (\<lambda>_ _. None)) None s))" for s
    by (simp add: guest_transition_handler_def guest_example_config_def)
  ultimately have "\<exists>st'. guest_receive (guest_example_config (\<lambda>_ _. None)) (Response acceptance) waiting_guest = (st', Inr ())
    \<and> g_frames st' = g_frames waiting_guest @ List.map (Pair (g_opened waiting_guest))
        (List.map Descriptor (g_preloadPublishTypes waiting_guest)
          @ preload_frames (guest_example_config (\<lambda>_ _. None)) (g_preloadSubscribeTypes waiting_guest) @ [Message client_finished])"
    using guest_preloads [OF on waiting_guest_simps(1) acceptance_preloading] by blast
  then
  obtain st' where st': "guest_receive (guest_example_config (\<lambda>_ _. None)) (Response acceptance) waiting_guest = (st', Inr ())"
    "g_frames st' = g_frames waiting_guest @ List.map (Pair (g_opened waiting_guest))
        (List.map Descriptor (g_preloadPublishTypes waiting_guest)
          @ preload_frames (guest_example_config (\<lambda>_ _. None)) (g_preloadSubscribeTypes waiting_guest) @ [Message client_finished])"
    by (elim exE conjE)
  have "List.map snd (g_frames st') = [Descriptor news_ref, Descriptor news_ref,
      join_frame (guest_example_config (\<lambda>_ _. None)) ''News'', Message client_finished]"
    unfolding st'(2) by (simp add: waiting_guest_simps news_not_substruct)
  with st'(1) show ?thesis by (intro exI conjI)
qed

lemma preload_failure_use_after_free_witness:
  "is_ub (snd (guest_receive (guest_example_config (\<lambda>_ _. Some (RuntimeError ''broken pipe''))) (Response acceptance) waiting_guest))"
  by (rule preload_failure_use_after_free [OF waiting_guest_simps(1) acceptance_preloading waiting_guest_simps(2,3,5),
        where x = "RuntimeError ''broken pipe''"])
    (simp_all add: guest_example_config_def)

lemma subscribe_transmissions:
  assumes "online cfg st"
  shows "\<exists>st' s. subscribe cfg Transmission_Pool news_ref h st = (st', Inr s)"
  using joinGroup_online [OF assms, of "''News''"]
  by (auto simp: subscribe_def news_not_substruct guest_dispatcher_def split: prod.split)

lemma distinct_singleton: "distinct xs \<Longrightarrow> set xs = {x} \<Longrightarrow> xs = [x]"
  by (cases xs) (auto simp: subset_singleton_iff)

lemma subscriptions_join_once_witness:
  "\<exists>st' s. sub_ops (guest_example_config (\<lambda>_ _. None)) [Subscribe Transmission_Pool news_ref 1,
        Unsubscribe (Some (Transmission_Pool, news_ref, 0)), Subscribe Transmission_Pool news_ref 2] waiting_guest = (st', Inr s)
    \<and> g_frames st' = [(1, join_frame (guest_example_config (\<lambda>_ _. None)) ''News'')]"
proof -
  let ?cfg = "guest_example_config (\<lambda>_ _. None)"
  let ?ops = "[Subscribe Transmission_Pool news_ref 1, Unsubscribe (Some (Transmission_Pool, news_ref, 0)),
     Subscribe Transmission_Pool news_ref (2::nat)]"
  have on: "online ?cfg waiting_guest"
    by (simp add: online_def waiting_guest_simps) (simp add: guest_example_config_def)
  obtain st1 s where 1: "subscribe ?cfg Transmission_Pool news_ref 1 waiting_guest = (st1, Inr s)"
    using subscribe_transmissions [OF on, of 1] by blast
  have on1: "online ?cfg st1" using subscribe_frame(3) [OF on, of st1 Transmission_Pool news_ref 1] 1 by simp
  obtain st2 r where 2: "unsubscribe (Some (Transmission_Pool, news_ref, 0)) st1 = (st2, r)" by fastforce
  have "\<not> is_ub r"
    using 2 by (auto simp: unsubscribe_def guest_dispatcher_def removeHandler_def thenA_def split: if_splits prod.splits sum.splits)
  have on2: "online ?cfg st2" using unsubscribe_frame(3) [OF 2] on1 by blast
  obtain st3 s' where 3: "subscribe ?cfg Transmission_Pool news_ref 2 st2 = (st3, Inr s')"
    using subscribe_transmissions [OF on2, of 2] by blast
  have c: "catchA (st2, r) (\<lambda>x st. (st, Inr None)) = (st2, Inr (case r of Inl x \<Rightarrow> None | Inr s \<Rightarrow> s))"
    using \<open>\<not> is_ub r\<close> by (cases r) (simp_all add: catchA_def)
  have returned: "catchA (st, Inr x) f = (st, Inr x)" for st :: "nat guest" and x :: subscription and f by (simp add: catchA_def)
  have run: "sub_ops ?cfg ?ops waiting_guest = (st3, Inr None)"
    by (simp only: sub_ops.simps run_sub_op.simps 1 2 3 c thenA_simps returned)
  obtain names where names: "distinct names" "set names = subscribed_types ?ops - g_joinedGroups waiting_guest"
    "g_frames st3 = g_frames waiting_guest @ List.map (\<lambda>n. (g_opened waiting_guest, join_frame ?cfg n)) names"
    using subscriptions_join_once [OF on run] by blast
  have "set names = {''News''}"
    unfolding names(2) by (simp add: waiting_guest_simps news_not_substruct)
  then have "names = [''News'']" by (rule distinct_singleton [OF names(1)])
  then have "g_frames st3 = [(1, join_frame ?cfg ''News'')]" using names(3) by (simp add: waiting_guest_simps)
  with run show ?thesis by blast
qed

lemma reconnect_joins_nothing_witness:
  "\<exists>st1 st2 s. guest_open (guest_example_config (\<lambda>_ _. None)) [] [] None ((guest_new :: nat guest)\<lparr>g_joinedGroups := {''News''}\<rparr>) = (st1, Inr ())
    \<and> subscribe (guest_example_config (\<lambda>_ _. None)) Transmission_Pool news_ref 1 st1 = (st2, Inr s)
    \<and> g_frames st2 = []"
proof -
  let ?cfg = "guest_example_config (\<lambda>_ _. None)" and ?st = "(guest_new :: nat guest)\<lparr>g_joinedGroups := {''News''}\<rparr>"
  have "\<exists>st1. guest_open ?cfg [] [] None ?st = (st1, Inr ()) \<and> online ?cfg st1"
    by (simp add: guest_open_def conn_asyncReceive_def connection_new_def guest_conn_env_def setConnectionState_def catchA_def
        guest_handleTransition_def guest_handleTransitionImpl_def guest_transition_handler_def closed_def isHost_def HostId_def UninitializedId_def expectSystemType_def modify_conn_def online_def
        guest_new_def guest_example_config_def)
  then obtain st1 where 1: "guest_open ?cfg [] [] None ?st = (st1, Inr ())" "online ?cfg st1" by blast
  obtain st2 s where 2: "subscribe ?cfg Transmission_Pool news_ref 1 st1 = (st2, Inr s)"
    using subscribe_transmissions [OF 1(2), of 1] by blast
  have "g_frames st2 = g_frames ?st \<and> g_opened st2 = Suc (g_opened ?st)"
    by (rule reconnect_joins_nothing [OF _ _ 1(1) 2]) (simp_all add: news_not_substruct guest_example_config_def)
  then have "g_frames st2 = []" by (simp add: guest_new_def)
  then show ?thesis using 1(1) 2 by blast
qed

lemma cleared_subscription_terminates_witness:
  "\<exists>st1 s. subscribe (guest_example_config (\<lambda>_ _. None)) Transmission_Pool news_ref 1 waiting_guest = (st1, Inr s)
    \<and> is_ub (snd (subscription_destroy s (guest_clear st1)))"
proof -
  let ?cfg = "guest_example_config (\<lambda>_ _. None)"
  have on: "online ?cfg waiting_guest"
    by (simp add: online_def waiting_guest_simps) (simp add: guest_example_config_def)
  obtain st1 s where 1: "subscribe ?cfg Transmission_Pool news_ref 1 waiting_guest = (st1, Inr s)"
    using subscribe_transmissions [OF on, of 1] by blast
  have "is_ub (snd (subscription_destroy s (guest_clear st1)))"
    unfolding cleared_subscription_terminates [OF 1] by simp
  then show ?thesis using 1 by blast
qed

end
