(* ===== verification/Type_Registry.thy ===== *)
theory Type_Registry
  imports Dispatcher
begin

text \<open>
  \<open>type/DescriptorMap.cpp\<close> and \<open>type/Registry.cpp\<close>. Descriptors are shared objects that refer to each
  other, so here they live in a heap: an address is an index into the list of the descriptors
  that have been made. A registry maps names to descriptors and tells its handler of each new one.
\<close>

section \<open>Descriptors in memory\<close>

record prop_node =
  prop_name :: string
  prop_tag :: "32 word"
  prop_isKey :: bool
  prop_value :: nat

text \<open>
  An enum refers to the descriptor of \<open>int32\<close>; a struct has its flags and whether it is a
  \<open>DynamicStruct\<close>, whose type was made at run time.
\<close>

datatype desc_node =
    FundNode string
  | EnumNode string nat "enumerator list"
  | VectorNode string nat
  | StructNode string "8 word" bool "prop_node list"

type_synonym desc_heap = "desc_node list"

primrec node_name :: "desc_node \<Rightarrow> string" where
  "node_name (FundNode name) = name"
| "node_name (EnumNode name u es) = name"
| "node_name (VectorNode name v) = name"
| "node_name (StructNode name fl dyn ps) = name"

definition is_enum_node :: "desc_node \<Rightarrow> bool" where
  "is_enum_node d = (case d of EnumNode _ _ _ \<Rightarrow> True | _ \<Rightarrow> False)"

definition is_struct_node :: "desc_node \<Rightarrow> bool" where
  "is_struct_node d = (case d of StructNode _ _ _ _ \<Rightarrow> True | _ \<Rightarrow> False)"

definition internal_flags :: "8 word \<Rightarrow> bool" where
  "internal_flags fl \<longleftrightarrow> internal (StructDescriptor '''' fl [])"

section \<open>Descriptor maps\<close>

type_synonym descriptor_map = "string \<rightharpoonup> nat"

definition map_findType :: "descriptor_map \<Rightarrow> string \<Rightarrow> bool \<Rightarrow> nat option result" where
  "map_findType m name assertNotNull =
     (case m name of
        None \<Rightarrow> if assertNotNull then Inl (LogicError (''no type with name: '' @ name)) else Inr None
      | Some d \<Rightarrow> Inr (Some d))"

text \<open>Dereferencing the pointer that a lookup has returned.\<close>

definition deref_ptr :: "nat option \<Rightarrow> nat result" where
  "deref_ptr p = (case p of None \<Rightarrow> Inl (UndefinedBehaviour ''null descriptor'') | Some d \<Rightarrow> Inr d)"

definition map_getType :: "descriptor_map \<Rightarrow> string \<Rightarrow> nat result" where
  "map_getType m name = bindE (map_findType m name True) deref_ptr"

definition map_contains :: "descriptor_map \<Rightarrow> string \<Rightarrow> bool" where
  "map_contains m name \<longleftrightarrow> map_findType m name False = Inr None"

definition map_tryEmplace :: "string \<Rightarrow> nat \<Rightarrow> descriptor_map \<Rightarrow> descriptor_map \<times> nat \<times> bool" where
  "map_tryEmplace name d m =
     (case m name of None \<Rightarrow> (m(name \<mapsto> d), d, True) | Some d' \<Rightarrow> (m, d', False))"

definition map_emplace :: "string \<Rightarrow> nat \<Rightarrow> descriptor_map \<Rightarrow> descriptor_map \<times> nat result" where
  "map_emplace name d m =
     (case map_tryEmplace name d m of
        (m', d', True) \<Rightarrow> (m', Inr d')
      | (m', d', False) \<Rightarrow> (m', Inl (LogicError (''there already is a type with name: '' @ name))))"

definition map_erase :: "string \<Rightarrow> bool \<Rightarrow> descriptor_map \<Rightarrow> descriptor_map \<times> unit result" where
  "map_erase name assertContainedType m =
     (case m name of
        None \<Rightarrow> if assertContainedType then (m, Inl (LogicError (''no type with name: '' @ name))) else (m, Inr ())
      | Some d \<Rightarrow> (m(name := None), Inr ()))"

definition map_clear :: "descriptor_map \<Rightarrow> descriptor_map" where
  "map_clear m = Map.empty"

section \<open>The registry\<close>

text \<open>\<open>r_notified\<close> records the calls of the handler for new types.\<close>

record registry =
  r_heap :: desc_heap
  r_types :: descriptor_map
  r_notified :: "nat list"

definition node_at :: "desc_heap \<Rightarrow> nat \<Rightarrow> desc_node result" where
  "node_at h d = (if d < length h then Inr (h ! d) else Inl (UndefinedBehaviour ''no descriptor''))"

definition findType :: "registry \<Rightarrow> string \<Rightarrow> bool \<Rightarrow> nat option result" where
  "findType r name assertNotNull =
     bindE (map_findType (r_types r) name False) (\<lambda>d.
       if d = None \<and> assertNotNull then Inl (LogicError (''no type registered with name1: '' @ name)) else Inr d)"

text \<open>\<open>findEnumType\<close> and \<open>findStructType\<close>, which differ in the kind they look for.\<close>

definition find_kind :: "(desc_node \<Rightarrow> bool) \<Rightarrow> registry \<Rightarrow> string \<Rightarrow> bool \<Rightarrow> nat option result" where
  "find_kind kind r name assertNotNull =
     bindE (findType r name assertNotNull) (\<lambda>p.
     bindE (case p of
              None \<Rightarrow> Inr None
            | Some d \<Rightarrow> bindE (node_at (r_heap r) d) (\<lambda>node. Inr (if kind node then Some d else None))) (\<lambda>p.
       if assertNotNull \<and> p = None then Inl (LogicError (''registered type has another kind: '' @ name)) else Inr p))"

definition findEnumType :: "registry \<Rightarrow> string \<Rightarrow> bool \<Rightarrow> nat option result" where
  "findEnumType = find_kind is_enum_node"

definition registry_findStructType :: "registry \<Rightarrow> string \<Rightarrow> bool \<Rightarrow> nat option result" where
  "registry_findStructType = find_kind is_struct_node"

definition getType :: "registry \<Rightarrow> string \<Rightarrow> nat result" where
  "getType r name = bindE (findType r name True) deref_ptr"

definition getEnumType :: "registry \<Rightarrow> string \<Rightarrow> nat result" where
  "getEnumType r name = bindE (findEnumType r name True) deref_ptr"

definition getStructType :: "registry \<Rightarrow> string \<Rightarrow> nat result" where
  "getStructType r name = bindE (registry_findStructType r name True) deref_ptr"

definition hasType :: "registry \<Rightarrow> string \<Rightarrow> bool" where
  "hasType r name \<longleftrightarrow> findType r name False \<noteq> Inr None"

text \<open>The descriptors a descriptor refers to, in the order in which they are registered.\<close>

primrec value_descriptors :: "desc_node \<Rightarrow> nat list" where
  "value_descriptors (FundNode name) = []"
| "value_descriptors (EnumNode name u es) = [u]"
| "value_descriptors (VectorNode name v) = [v]"
| "value_descriptors (StructNode name fl dyn ps) = List.map prop_value ps"

fun forA :: "('x \<Rightarrow> 's \<Rightarrow> 's \<times> 'a result) \<Rightarrow> 'x list \<Rightarrow> 's \<Rightarrow> 's \<times> unit result" where
  "forA f [] s = (s, Inr ())"
| "forA f (x # xs) s = thenA (f x s) (\<lambda>_. forA f xs)"

lemma forA_cong [fundef_cong]:
  "xs = ys \<Longrightarrow> s = s' \<Longrightarrow> (\<And>x s. x \<in> set ys \<Longrightarrow> f x s = g x s) \<Longrightarrow> forA f xs s = forA g ys s'"
proof (induction ys arbitrary: xs s s')
  case (Cons y ys)
  then show ?case by (auto simp: thenA_def split: sum.split)
qed simp

text \<open>\<open>registerType\<close>, nested to a depth of \<open>n\<close>.\<close>

primrec registerType :: "nat \<Rightarrow> nat \<Rightarrow> bool \<Rightarrow> registry \<Rightarrow> registry \<times> nat result" where
  "registerType 0 d assertNewType r = (r, Inl (UndefinedBehaviour ''stack overflow''))"
| "registerType (Suc n) d assertNewType r =
     thenA (r, node_at (r_heap r) d) (\<lambda>node r.
     thenA (r, findType r (node_name node) False) (\<lambda>p r.
       case p of
         Some d' \<Rightarrow>
           if assertNewType then (r, Inl (LogicError (''there already is a type with name: '' @ node_name node)))
           else (r, Inr d')
       | None \<Rightarrow>
           thenA (case map_emplace (node_name node) d (r_types r) of (m, x) \<Rightarrow> (r\<lparr>r_types := m\<rparr>, x)) (\<lambda>_ r.
           thenA (forA (\<lambda>v. registerType n v False) (value_descriptors node) r) (\<lambda>_ r.
             (r\<lparr>r_notified := r_notified r @ [d]\<rparr>, Inr d)))))"

definition deregisterType :: "string \<Rightarrow> bool \<Rightarrow> registry \<Rightarrow> registry \<times> unit result" where
  "deregisterType name assertRegisteredType r =
     (case map_erase name assertRegisteredType (r_types r) of (m, x) \<Rightarrow> (r\<lparr>r_types := m\<rparr>, x))"

text \<open>\<open>IsUserType\<close>, along a chain of vectors to a depth of \<open>n\<close>.\<close>

primrec isUserType :: "nat \<Rightarrow> desc_heap \<Rightarrow> nat \<Rightarrow> bool result" where
  "isUserType 0 h d = Inl (UndefinedBehaviour ''stack overflow'')"
| "isUserType (Suc n) h d =
     bindE (node_at h d) (\<lambda>node.
       case node of
         StructNode name fl dyn ps \<Rightarrow> Inr (\<not> internal_flags fl)
       | VectorNode name v \<Rightarrow> isUserType n h v
       | _ \<Rightarrow> Inr False)"

text \<open>\<open>isFundamentalType\<close>, which a vector passes on to its value.\<close>

primrec isFundamentalNode :: "nat \<Rightarrow> desc_heap \<Rightarrow> nat \<Rightarrow> bool result" where
  "isFundamentalNode 0 h d = Inl (UndefinedBehaviour ''stack overflow'')"
| "isFundamentalNode (Suc n) h d =
     bindE (node_at h d) (\<lambda>node.
       case node of
         FundNode name \<Rightarrow> Inr True
       | VectorNode name v \<Rightarrow> isFundamentalNode n h v
       | _ \<Rightarrow> Inr False)"

datatype static_type_policy = FundamentalOnly | InternalOnly | AllTypes

text \<open>The constructor takes over the static descriptors that the policy admits.\<close>

definition admitted :: "static_type_policy \<Rightarrow> desc_heap \<Rightarrow> nat \<Rightarrow> bool result" where
  "admitted policy h d =
     bindE (node_at h d) (\<lambda>node.
       case policy of
         FundamentalOnly \<Rightarrow> isFundamentalNode (Suc (length h)) h d
       | InternalOnly \<Rightarrow> bindE (isUserType (Suc (length h)) h d) (\<lambda>user. Inr (\<not> user))
       | AllTypes \<Rightarrow> Inr True)"

definition registry_new :: "static_type_policy \<Rightarrow> desc_heap \<Rightarrow> nat list \<Rightarrow> registry \<times> unit result" where
  "registry_new policy h static_descriptors =
     forA (\<lambda>d r. thenA (r, admitted policy h d) (\<lambda>ok r.
         if ok then
           thenA (r, node_at h d) (\<lambda>node r.
             case map_emplace (node_name node) d (r_types r) of (m, x) \<Rightarrow> (r\<lparr>r_types := m\<rparr>, bindE x (\<lambda>_. Inr ())))
         else (r, Inr ())))
       static_descriptors \<lparr>r_heap = h, r_types = Map.empty, r_notified = []\<rparr>"


section \<open>Registering\<close>

definition name_at :: "registry \<Rightarrow> nat \<Rightarrow> string" where
  "name_at r d = node_name (r_heap r ! d)"

definition heap_closed :: "desc_heap \<Rightarrow> bool" where
  "heap_closed h \<longleftrightarrow> (\<forall>node \<in> set h. \<forall>v \<in> set (value_descriptors node). v < length h)"

definition unregistered :: "registry \<Rightarrow> nat set" where
  "unregistered r = {d. d < length (r_heap r) \<and> name_at r d \<notin> dom (r_types r)}"

text \<open>What a registration does: \<open>ds\<close> are the descriptors it has entered, in the order of the notifications.\<close>

definition registers :: "registry \<Rightarrow> registry \<Rightarrow> nat list \<Rightarrow> bool" where
  "registers r r' ds \<longleftrightarrow>
     r_heap r' = r_heap r \<and> r_notified r' = r_notified r @ ds
     \<and> set ds \<subseteq> unregistered r \<and> distinct (List.map (name_at r) ds)
     \<and> r_types r' = r_types r ++ map_of (List.map (\<lambda>d. (name_at r d, d)) ds)
     \<and> (\<forall>d \<in> set ds. \<forall>v \<in> set (value_descriptors (r_heap r ! d)). name_at r v \<in> dom (r_types r'))"

lemma registers_refl [simp]: "registers r r []"
  by (simp add: registers_def)

lemma name_at_heap: "r_heap r' = r_heap r \<Longrightarrow> name_at r' = name_at r"
  by (simp add: name_at_def fun_eq_iff)

lemma dom_named: "dom (map_of (List.map (\<lambda>d. (f d, d)) ds)) = f ` set ds"
  by (simp add: dom_map_of_conv_image_fst image_image)

lemma registers_dom: "registers r r' ds \<Longrightarrow> dom (r_types r') = dom (r_types r) \<union> name_at r ` set ds"
  by (simp add: registers_def dom_named Un_commute)

lemma registers_name: "registers r r' ds \<Longrightarrow> name_at r' = name_at r"
  by (rule name_at_heap) (simp add: registers_def)

lemma registers_heap: "registers r r' ds \<Longrightarrow> r_heap r' = r_heap r"
  by (simp add: registers_def)

lemma registers_new: "registers r r' ds \<Longrightarrow> d \<in> set ds \<Longrightarrow> d < length (r_heap r) \<and> name_at r d \<notin> dom (r_types r)"
  by (auto simp: registers_def unregistered_def)

lemma registers_values:
  "registers r r' ds \<Longrightarrow> d \<in> set ds \<Longrightarrow> v \<in> set (value_descriptors (r_heap r ! d)) \<Longrightarrow> name_at r v \<in> dom (r_types r')"
  unfolding registers_def by blast

lemma registers_trans:
  assumes "registers r r1 ds1" "registers r1 r2 ds2"
  shows "registers r r2 (ds1 @ ds2)"
proof -
  let ?f = "\<lambda>d. (name_at r d, d)"
  have n: "name_at r1 = name_at r" using registers_name [OF assms(1)] .
  have h: "r_heap r1 = r_heap r" using registers_heap [OF assms(1)] .
  have d1: "dom (r_types r1) = dom (r_types r) \<union> name_at r ` set ds1" using registers_dom [OF assms(1)] .
  have new: "d < length (r_heap r) \<and> name_at r d \<notin> dom (r_types r) \<and> name_at r d \<notin> name_at r ` set ds1" if "d \<in> set ds2" for d
    using registers_new [OF assms(2) that] by (simp add: n h d1)
  have disjoint: "name_at r ` set ds1 \<inter> name_at r ` set ds2 = {}"
  proof (rule equals0I)
    fix name assume "name \<in> name_at r ` set ds1 \<inter> name_at r ` set ds2"
    then have i: "name \<in> name_at r ` set ds1" "name \<in> name_at r ` set ds2" by simp_all
    from i(2) obtain d where "name = name_at r d" "d \<in> set ds2" by (rule imageE)
    then show False using new [of d] i(1) by simp
  qed
  then have "dom (map_of (List.map ?f ds1)) \<inter> dom (map_of (List.map ?f ds2)) = {}"
    by (simp add: dom_named)
  then have "map_of (List.map ?f (ds1 @ ds2)) = map_of (List.map ?f ds1) ++ map_of (List.map ?f ds2)"
    unfolding map_append map_of_append by (rule map_add_comm [symmetric])
  moreover have "r_types r1 = r_types r ++ map_of (List.map ?f ds1)" "r_types r2 = r_types r1 ++ map_of (List.map ?f ds2)"
    using assms by (simp_all add: registers_def n)
  ultimately have "r_types r2 = r_types r ++ map_of (List.map ?f (ds1 @ ds2))" by (simp add: map_add_assoc)
  moreover have sub: "dom (r_types r1) \<subseteq> dom (r_types r2)" using registers_dom [OF assms(2)] by simp
  have "\<forall>d \<in> set (ds1 @ ds2). \<forall>v \<in> set (value_descriptors (r_heap r ! d)). name_at r v \<in> dom (r_types r2)"
  proof (intro ballI)
    fix d v assume d: "d \<in> set (ds1 @ ds2)" and v: "v \<in> set (value_descriptors (r_heap r ! d))"
    show "name_at r v \<in> dom (r_types r2)"
    proof (cases "d \<in> set ds1")
      case True
      show ?thesis using registers_values [OF assms(1) True v] sub by (rule set_mp [rotated])
    next
      case False
      then show ?thesis using registers_values [OF assms(2), of d v] d v by (simp add: n h)
    qed
  qed
  moreover have "distinct (List.map (name_at r) (ds1 @ ds2))"
  proof -
    have "distinct (List.map (name_at r) ds1)" "distinct (List.map (name_at r) ds2)"
      using assms by (simp_all add: registers_def n)
    then show ?thesis using disjoint by (simp only: map_append distinct_append set_map simp_thms)
  qed
  moreover have "set (ds1 @ ds2) \<subseteq> unregistered r"
    using new registers_new [OF assms(1)] by (auto simp: unregistered_def)
  moreover have "r_heap r2 = r_heap r" "r_notified r2 = r_notified r @ ds1 @ ds2"
    using assms by (simp_all add: registers_def)
  ultimately show ?thesis by (simp add: registers_def)
qed

lemma registers_unregistered: "registers r r' ds \<Longrightarrow> unregistered r' \<subseteq> unregistered r"
  using registers_dom [of r r' ds] registers_name [of r r' ds] by (auto simp: unregistered_def registers_def)

lemma finite_unregistered [simp]: "finite (unregistered r)"
  by (simp add: unregistered_def)

lemma registerType_registers:
  "\<lbrakk>heap_closed (r_heap r); d < length (r_heap r); card (unregistered r) < n; assertNewType \<longrightarrow> name_at r d \<notin> dom (r_types r)\<rbrakk> \<Longrightarrow>
    \<exists>r' ds. registerType n d assertNewType r =
        (r', Inr (if name_at r d \<in> dom (r_types r) then the (r_types r (name_at r d)) else d))
      \<and> registers r r' ds \<and> name_at r d \<in> dom (r_types r') \<and> (name_at r d \<notin> dom (r_types r) \<longrightarrow> d \<in> set ds)"
proof (induction n arbitrary: r d assertNewType)
  case (Suc n)
  show ?case
  proof (cases "r_types r (name_at r d)")
    case (Some d')
    then have "registerType (Suc n) d assertNewType r = (r, Inr d')"
      using Suc.prems(2,4) by (auto simp: node_at_def findType_def map_findType_def name_at_def)
    then show ?thesis using Some by (intro exI [of _ r] exI [of _ "[]"]) auto
  next
    case None
    let ?r1 = "r\<lparr>r_types := (r_types r)(name_at r d \<mapsto> d)\<rparr>"
    let ?vs = "value_descriptors (r_heap r ! d)"
    have new: "d \<in> unregistered r" using None Suc.prems(2) by (auto simp: unregistered_def)
    have less: "card (unregistered ?r1) < n"
    proof -
      have "unregistered ?r1 \<subset> unregistered r" using new by (auto simp: unregistered_def name_at_def)
      then have "card (unregistered ?r1) < card (unregistered r)" by (simp add: psubset_card_mono)
      then show ?thesis using Suc.prems(3) by simp
    qed
    have loop: "\<exists>r' ds. forA (\<lambda>v. registerType n v False) vs r1 = (r', Inr ()) \<and> registers r1 r' ds
        \<and> (\<forall>v \<in> set vs. name_at r v \<in> dom (r_types r'))"
      if "set vs \<subseteq> {v. v < length (r_heap r)}" "r_heap r1 = r_heap r" "card (unregistered r1) < n" for vs r1
      using that
    proof (induction vs arbitrary: r1)
      case Nil
      then show ?case by (intro exI [of _ r1] exI [of _ "[]"]) simp
    next
      case (Cons v vs)
      obtain r2 ds2 x where 2: "registerType n v False r1 = (r2, Inr x)" "registers r1 r2 ds2" "name_at r1 v \<in> dom (r_types r2)"
        using Suc.IH [of r1 v False] Cons.prems Suc.prems(1) by auto
      have "card (unregistered r2) < n"
        using registers_unregistered [OF 2(2)] Cons.prems(3) by (meson card_mono finite_unregistered le_less_trans)
      moreover have "r_heap r2 = r_heap r" using 2(2) Cons.prems(2) by (simp add: registers_def)
      ultimately obtain r3 ds3 where 3: "forA (\<lambda>v. registerType n v False) vs r2 = (r3, Inr ())" "registers r2 r3 ds3"
        "\<forall>v \<in> set vs. name_at r v \<in> dom (r_types r3)"
        using Cons.IH [of r2] Cons.prems(1) by auto
      have "name_at r v \<in> dom (r_types r3)"
        using 2(3) registers_dom [OF 3(2)] name_at_heap [OF Cons.prems(2)] by auto
      then show ?case using 2(1) 3 registers_trans [OF 2(2) 3(2)] by (intro exI [of _ r3] exI [of _ "ds2 @ ds3"]) simp
    qed
    have "set ?vs \<subseteq> {v. v < length (r_heap r)}"
      using Suc.prems(1,2) by (auto simp: heap_closed_def)
    then obtain r2 ds2 where 2: "forA (\<lambda>v. registerType n v False) ?vs ?r1 = (r2, Inr ())" "registers ?r1 r2 ds2"
      "\<forall>v \<in> set ?vs. name_at r v \<in> dom (r_types r2)"
      using loop [of ?vs ?r1] less by auto
    let ?r' = "r2\<lparr>r_notified := r_notified r2 @ [d]\<rparr>"
    have "registerType (Suc n) d assertNewType r = (?r', Inr d)"
      using 2(1) None Suc.prems(2)
      by (simp add: node_at_def findType_def map_findType_def map_emplace_def map_tryEmplace_def name_at_def)
    moreover have n: "name_at ?r1 = name_at r" by (rule name_at_heap) simp
    have "name_at r d \<notin> name_at r ` set ds2" using 2(2) n by (auto simp: registers_def unregistered_def)
    then have "registers r ?r' (ds2 @ [d])"
      using 2(2,3) n None Suc.prems(2)
      by (auto simp: registers_def unregistered_def map_add_def fun_eq_iff split: option.splits)
    moreover have "name_at r d \<in> dom (r_types ?r')" using registers_dom [OF 2(2)] by simp
    ultimately show ?thesis using None by (intro exI [of _ ?r'] exI [of _ "ds2 @ [d]"]) auto
  qed
qed simp

text \<open>Every registered type is found under its name, and with the types it refers to.\<close>

definition registry_closed :: "registry \<Rightarrow> bool" where
  "registry_closed r \<longleftrightarrow> heap_closed (r_heap r)
     \<and> (\<forall>name d. r_types r name = Some d \<longrightarrow> d < length (r_heap r) \<and> name_at r d = name
         \<and> (\<forall>v \<in> set (value_descriptors (r_heap r ! d)). name_at r v \<in> dom (r_types r)))"

lemma map_of_named: "map_of (List.map (\<lambda>d. (f d, d)) ds) name = Some d \<Longrightarrow> d \<in> set ds \<and> f d = name"
  by (auto dest!: map_of_SomeD)

lemma registers_closed:
  assumes "registry_closed r" "registers r r' ds"
  shows "registry_closed r'"
  unfolding registry_closed_def
proof (intro conjI allI impI ballI)
  have n: "name_at r' = name_at r" and h: "r_heap r' = r_heap r"
    using registers_name registers_heap assms(2) by blast+
  show "heap_closed (r_heap r')" using assms(1) by (simp add: h registry_closed_def)
  fix name d assume d: "r_types r' name = Some d"
  then have "r_types r name = Some d \<or> d \<in> set ds \<and> name_at r d = name"
    using assms(2) by (auto simp: registers_def map_add_Some_iff dest: map_of_named)
  then show "d < length (r_heap r')" "name_at r' d = name"
    using assms(1) registers_new [OF assms(2)] by (auto simp: registry_closed_def n h)
  fix v assume v: "v \<in> set (value_descriptors (r_heap r' ! d))"
  consider "r_types r name = Some d" | "d \<in> set ds"
    using \<open>r_types r name = Some d \<or> d \<in> set ds \<and> name_at r d = name\<close> by blast
  then show "name_at r' v \<in> dom (r_types r')"
  proof cases
    case 1
    then have "name_at r v \<in> dom (r_types r)" using assms(1) v unfolding registry_closed_def h by blast
    then show ?thesis unfolding n registers_dom [OF assms(2)] by blast
  next
    case 2
    then show ?thesis using registers_values [OF assms(2) 2, of v] v by (simp add: n h)
  qed
qed

text \<open>C36: Registering a new descriptor in a closed registry ends, enters it and every type it depends
  on, tells the handler of each once, leaves the types known before alone, and keeps the
  registry closed: each type is found under its name, together with the types it refers to.\<close>

theorem registration_completes:
  assumes "registry_closed r" "d < length (r_heap r)" "name_at r d \<notin> dom (r_types r)"
  shows "\<exists>r' ds. registerType (Suc (length (r_heap r))) d assertNewType r = (r', Inr d) \<and> registry_closed r'
    \<and> r_notified r' = r_notified r @ ds \<and> distinct ds \<and> d \<in> set ds
    \<and> (\<forall>x \<in> set ds. r_types r (name_at r x) = None \<and> r_types r' (name_at r x) = Some x)
    \<and> (\<forall>name. r_types r name \<noteq> None \<longrightarrow> r_types r' name = r_types r name)"
proof -
  have "card (unregistered r) \<le> card {..<length (r_heap r)}"
    by (rule card_mono) (auto simp: unregistered_def)
  then have "card (unregistered r) < Suc (length (r_heap r))" by simp
  then obtain r' ds where r': "registerType (Suc (length (r_heap r))) d assertNewType r = (r', Inr d)" "registers r r' ds"
    "d \<in> set ds"
    using registerType_registers [of r d "Suc (length (r_heap r))" assertNewType] assms by (auto simp: registry_closed_def)
  let ?m = "map_of (List.map (\<lambda>d. (name_at r d, d)) ds)"
  have dist: "distinct (List.map (name_at r) ds)" using r'(2) by (simp add: registers_def)
  have types: "r_types r' = r_types r ++ ?m" using r'(2) by (simp add: registers_def)
  have m: "?m (name_at r x) = Some x" if "x \<in> set ds" for x
    using dist that by (intro map_of_is_SomeI) (auto simp: comp_def)
  have none: "r_types r (name_at r x) = None" if "x \<in> set ds" for x
    using registers_new [OF r'(2) that] by auto
  have "r_types r' name = r_types r name" if "r_types r name \<noteq> None" for name
    using that none types by (auto simp: map_add_def split: option.split dest: map_of_named)
  then show ?thesis
    using r' registers_closed [OF assms(1) r'(2)] m none types dist
    by (intro exI [of _ r'] exI [of _ ds]) (auto simp: registers_def distinct_map map_add_def split: option.split)
qed

definition example_heap :: desc_heap where
  "example_heap = [FundNode ''int32'', EnumNode ''Colour'' 0 [], VectorNode ''vector<Colour>'' 1,
     StructNode ''Thing'' 1 True [\<lparr>prop_name = ''colours'', prop_tag = 1, prop_isKey = False, prop_value = 2\<rparr>]]"

lemma registration_completes_witness:
  "\<exists>r' ds. registerType 5 3 True \<lparr>r_heap = example_heap, r_types = Map.empty, r_notified = []\<rparr> = (r', Inr 3)
    \<and> registry_closed r' \<and> r_notified r' = ds \<and> 3 \<in> set ds"
proof -
  let ?r = "\<lparr>r_heap = example_heap, r_types = Map.empty, r_notified = []\<rparr>"
  have c: "registry_closed ?r" "3 < length (r_heap ?r)" "name_at ?r 3 \<notin> dom (r_types ?r)"
    by (simp_all add: registry_closed_def heap_closed_def example_heap_def)
  have five: "Suc (length (r_heap ?r)) = 5" by (simp add: example_heap_def)
  show ?thesis using registration_completes [OF c, of True] unfolding five by auto
qed

end
