(* ===== verification/Descriptor_Exchange.thy ===== *)
theory Descriptor_Exchange
  imports Type_Registry
begin

text \<open>
  How descriptors travel: \<open>io/DescriptorConverter.cpp\<close>, which turns descriptors into instances of
  \<open>StructDescriptorData\<close> and \<open>EnumDescriptorData\<close> and back, and the part of \<open>io/Channel.cpp\<close> that sends
  the descriptors an instance depends on ahead of it and imports those it receives.
\<close>

section \<open>Descriptor data\<close>

record struct_flags =
  flag_cached :: "bool option"
  flag_internal :: "bool option"
  flag_persistent :: "bool option"
  flag_cleanup :: "bool option"
  flag_local :: "bool option"
  flag_substructOnly :: "bool option"

record property_data =
  pdata_name :: "string option"
  pdata_tag :: "32 word option"
  pdata_isKey :: "bool option"
  pdata_type :: "string option"

record struct_data =
  sdata_name :: "string option"
  sdata_properties :: "property_data list option"
  sdata_flags :: "struct_flags option"

record element_data =
  edata_enum_value :: "32 word option"
  edata_name :: "string option"
  edata_tag :: "32 word option"

record enum_data =
  edata_typeName :: "string option"
  edata_elements :: "element_data list option"

section \<open>From descriptors to data\<close>

definition element_of :: "enumerator \<Rightarrow> element_data" where
  "element_of e = \<lparr>edata_enum_value = Some (en_value e), edata_name = Some (en_name e), edata_tag = Some (en_tag e)\<rparr>"

definition enum_to_data :: "string \<Rightarrow> enumerator list \<Rightarrow> enum_data" where
  "enum_to_data name es = \<lparr>edata_typeName = Some name, edata_elements = Some (List.map element_of es)\<rparr>"

definition flags_to_data :: "8 word \<Rightarrow> struct_flags" where
  "flags_to_data fl =
     (let sd = StructDescriptor '''' fl [] in
      \<lparr>flag_cached = Some (cached sd), flag_internal = Some (internal sd), flag_persistent = Some (persistent sd),
       flag_cleanup = Some (cleanup sd), flag_local = Some (local_only sd), flag_substructOnly = Some (substructOnly sd)\<rparr>)"

definition property_to_data :: "desc_heap \<Rightarrow> prop_node \<Rightarrow> property_data result" where
  "property_to_data h p =
     bindE (node_at h (prop_value p)) (\<lambda>value.
       Inr \<lparr>pdata_name = Some (prop_name p), pdata_tag = Some (prop_tag p), pdata_isKey = Some (prop_isKey p),
            pdata_type = Some (node_name value)\<rparr>)"

fun mapE :: "('x \<Rightarrow> 'y result) \<Rightarrow> 'x list \<Rightarrow> 'y list result" where
  "mapE f [] = Inr []"
| "mapE f (x # xs) = bindE (f x) (\<lambda>y. bindE (mapE f xs) (\<lambda>ys. Inr (y # ys)))"

definition struct_to_data :: "desc_heap \<Rightarrow> string \<Rightarrow> 8 word \<Rightarrow> prop_node list \<Rightarrow> struct_data result" where
  "struct_to_data h name fl ps =
     bindE (mapE (property_to_data h) ps) (\<lambda>properties.
       Inr \<lparr>sdata_name = Some name, sdata_properties = Some properties, sdata_flags = Some (flags_to_data fl)\<rparr>)"

section \<open>From data to descriptors\<close>

text \<open>\<open>make_descriptor\<close> and the template \<open>registerType\<close>: a new object, then its registration.\<close>

definition make_descriptor :: "desc_node \<Rightarrow> registry \<Rightarrow> registry \<times> nat" where
  "make_descriptor node r = (r\<lparr>r_heap := r_heap r @ [node]\<rparr>, length (r_heap r))"

definition register_new :: "desc_node \<Rightarrow> registry \<Rightarrow> registry \<times> nat result" where
  "register_new node r =
     (case make_descriptor node r of (r', d) \<Rightarrow> registerType (Suc (length (r_heap r'))) d True r')"

definition enumerator_of :: "element_data \<Rightarrow> enumerator result" where
  "enumerator_of e =
     bindE (deref ''tag'' (edata_tag e)) (\<lambda>t.
     bindE (deref ''name'' (edata_name e)) (\<lambda>name.
     bindE (deref ''enum_value'' (edata_enum_value e)) (\<lambda>v. Inr (EnumeratorDescriptor t name v))))"

text \<open>\<open>int32\<close> is the address of the descriptor of that type.\<close>

definition enum_from_data :: "nat \<Rightarrow> enum_data \<Rightarrow> registry \<Rightarrow> registry \<times> nat result" where
  "enum_from_data int32 m r =
     thenA (r, deref ''name'' (edata_typeName m)) (\<lambda>name r.
     thenA (r, findEnumType r name False) (\<lambda>found r.
       case found of
         Some d \<Rightarrow> (r, Inr d)
       | None \<Rightarrow>
           thenA (r, bindE (deref ''elements'' (edata_elements m)) (mapE enumerator_of)) (\<lambda>es.
             register_new (EnumNode name int32 es))))"

definition flags_from_data :: "struct_flags \<Rightarrow> 8 word" where
  "flags_from_data f =
     (if flag_cached f = Some True then Flag_Cached else 0)
     OR (if flag_internal f = Some True then Flag_Internal else 0)
     OR (if flag_persistent f = Some True then Flag_Persistent else 0)
     OR (if flag_cleanup f = Some True then Flag_Cleanup else 0)
     OR (if flag_local f = Some True then Flag_Local else 0)
     OR (if flag_substructOnly f = Some True then Flag_SubstructOnly else 0)"

fun contains_text :: "string \<Rightarrow> string \<Rightarrow> bool" where
  "contains_text s [] = (s = [])"
| "contains_text s (c # cs) = (take (length s) (c # cs) = s \<or> contains_text s cs)"

text \<open>\<open>typeName.substr(7, typeName.size() - 8)\<close>, with the size as an unsigned number.\<close>

definition value_type_name :: "string \<Rightarrow> string" where
  "value_type_name typeName =
     take (if length typeName < 8 then length typeName else length typeName - 8) (drop 7 typeName)"

text \<open>The descriptor of the vectors of a dynamic type, which nothing has registered yet.\<close>

definition vector_from_name :: "string \<Rightarrow> registry \<Rightarrow> registry \<times> nat result" where
  "vector_from_name typeName r =
     (if \<not> contains_text ''vector<'' typeName then (r, Inl (LogicError (''missing type dependency: '' @ typeName)))
      else
        let valueTypeName = value_type_name typeName in
        thenA (r, findType r valueTypeName False) (\<lambda>found r.
        case found of
          None \<Rightarrow> (r, Inl (LogicError (''missing value type dependency: '' @ valueTypeName)))
        | Some v \<Rightarrow>
            thenA (r, node_at (r_heap r) v) (\<lambda>value r.
            case value of
              EnumNode name u es \<Rightarrow> register_new (VectorNode (''vector<'' @ name @ ''>'') v) r
            | StructNode name fl dyn ps \<Rightarrow>
                if dyn then register_new (VectorNode (''vector<'' @ name @ ''>'') v) r
                else (case make_descriptor (StructNode name fl True ps) r of
                        (r', w) \<Rightarrow> register_new (VectorNode (''vector<'' @ name @ ''>'') w) r')
            | _ \<Rightarrow> (r, Inl (LogicError (''unsupported dynamic vector type: '' @ valueTypeName))))))"

definition property_from_data :: "property_data \<Rightarrow> registry \<Rightarrow> registry \<times> prop_node result" where
  "property_from_data p r =
     thenA (r, deref ''type'' (pdata_type p)) (\<lambda>typeName r.
     thenA (r, findType r typeName False) (\<lambda>found r.
     thenA (case found of Some d \<Rightarrow> (r, Inr d) | None \<Rightarrow> vector_from_name typeName r) (\<lambda>d r.
       (r, bindE (deref ''name'' (pdata_name p)) (\<lambda>name.
           bindE (deref ''tag'' (pdata_tag p)) (\<lambda>t.
           bindE (deref ''isKey'' (pdata_isKey p)) (\<lambda>key.
             Inr \<lparr>prop_name = name, prop_tag = t, prop_isKey = key, prop_value = d\<rparr>)))))))"

fun properties_from_data :: "property_data list \<Rightarrow> registry \<Rightarrow> registry \<times> prop_node list result" where
  "properties_from_data [] r = (r, Inr [])"
| "properties_from_data (p # ps) r =
     thenA (property_from_data p r) (\<lambda>x r.
     thenA (properties_from_data ps r) (\<lambda>xs r. (r, Inr (x # xs))))"

text \<open>The size is computed from the last property, through a null pointer when there is none.\<close>

definition struct_from_data :: "struct_data \<Rightarrow> registry \<Rightarrow> registry \<times> nat result" where
  "struct_from_data m r =
     thenA (r, deref ''name'' (sdata_name m)) (\<lambda>name r.
     thenA (r, registry_findStructType r name False) (\<lambda>found r.
       case found of
         Some d \<Rightarrow> (r, Inr d)
       | None \<Rightarrow>
           thenA (r, deref ''properties'' (sdata_properties m)) (\<lambda>properties r.
           thenA (properties_from_data properties r) (\<lambda>ps r.
             if ps = [] then (r, Inl (UndefinedBehaviour ''null property descriptor''))
             else register_new (StructNode name (case sdata_flags m of None \<Rightarrow> 0 | Some f \<Rightarrow> flags_from_data f) True ps) r))))"

section \<open>The channel\<close>

datatype wire =
    StructDescriptorData struct_data
  | EnumDescriptorData enum_data
  | Payload nat

text \<open>
  The descriptors both sides of a channel know, the names of those that were received, and what was
  transmitted. The channel is given the addresses of the descriptors of \<open>int32\<close> and of the two
  internal types that carry descriptors, and may fail at any transmission.
\<close>

record channel =
  x_registry :: registry
  x_sharedTypeDescriptors :: "nat set"
  x_sharedTypeNames :: "string set"
  x_sent :: "wire list"

record channel_config =
  x_int32 :: nat
  x_structData :: nat
  x_enumData :: nat
  x_fails :: "nat \<Rightarrow> exn option"

definition transmitImpl :: "channel_config \<Rightarrow> wire \<Rightarrow> channel \<Rightarrow> channel \<times> unit result" where
  "transmitImpl cfg w c =
     (case x_fails cfg (length (x_sent c)) of
        Some e \<Rightarrow> (c, Inl e)
      | None \<Rightarrow> (c\<lparr>x_sent := x_sent c @ [w]\<rparr>, Inr ()))"

text \<open>\<open>exportDependencies\<close> of a descriptor, nested to a depth of \<open>n\<close>. The data are instances, so their own descriptors come first.\<close>

primrec exportDependencies :: "channel_config \<Rightarrow> nat \<Rightarrow> nat \<Rightarrow> channel \<Rightarrow> channel \<times> unit result" where
  "exportDependencies cfg 0 d c = (c, Inl (UndefinedBehaviour ''stack overflow''))"
| "exportDependencies cfg (Suc n) d c =
     (if d \<in> x_sharedTypeDescriptors c then (c, Inr ())
      else
        let c = c\<lparr>x_sharedTypeDescriptors := insert d (x_sharedTypeDescriptors c)\<rparr> in
        thenA (c, node_at (r_heap (x_registry c)) d) (\<lambda>node c.
        case node of
          VectorNode name v \<Rightarrow> exportDependencies cfg n v c
        | EnumNode name u es \<Rightarrow>
            thenA (exportDependencies cfg n u c) (\<lambda>_ c.
            thenA (exportDependencies cfg n (x_enumData cfg) c) (\<lambda>_.
              transmitImpl cfg (EnumDescriptorData (enum_to_data name es))))
        | StructNode name fl dyn ps \<Rightarrow>
            if internal_flags fl then (c, Inr ())
            else
              thenA (forA (exportDependencies cfg n) (List.map prop_value ps) c) (\<lambda>_ c.
              thenA (c, struct_to_data (r_heap (x_registry c)) name fl ps) (\<lambda>m c.
              thenA (exportDependencies cfg n (x_structData cfg) c) (\<lambda>_.
                transmitImpl cfg (StructDescriptorData m))))
        | FundNode name \<Rightarrow> (c, Inr ())))"

definition channel_depth :: "channel \<Rightarrow> nat" where
  "channel_depth c = Suc (length (r_heap (x_registry c)))"

text \<open>\<open>transmit(header, instance)\<close> of an instance of the type \<open>d\<close>, and \<open>transmit(descriptor)\<close>.\<close>

definition channel_transmit_instance :: "channel_config \<Rightarrow> nat \<Rightarrow> channel \<Rightarrow> channel \<times> unit result" where
  "channel_transmit_instance cfg d c =
     thenA (exportDependencies cfg (channel_depth c) d c) (\<lambda>_. transmitImpl cfg (Payload d))"

definition channel_transmit_descriptor :: "channel_config \<Rightarrow> nat \<Rightarrow> channel \<Rightarrow> channel \<times> unit result" where
  "channel_transmit_descriptor cfg d c = exportDependencies cfg (channel_depth c) d c"

text \<open>
  \<open>exportDependencies\<close> of a transmission that is passed on: only the descriptor that is embedded in
  descriptor data, when the registry knows it, is sent ahead.
\<close>

definition channel_relay :: "channel_config \<Rightarrow> wire \<Rightarrow> channel \<Rightarrow> channel \<times> unit result" where
  "channel_relay cfg w c =
     thenA
       (let embedded = (\<lambda>found c. case found of Some d \<Rightarrow> exportDependencies cfg (channel_depth c) d c | None \<Rightarrow> (c, Inr ())) in
        case w of
          StructDescriptorData m \<Rightarrow>
            thenA (c, bindE (deref ''name'' (sdata_name m)) (\<lambda>name. registry_findStructType (x_registry c) name False)) embedded
        | EnumDescriptorData m \<Rightarrow>
            thenA (c, bindE (deref ''name'' (edata_typeName m)) (\<lambda>name. findEnumType (x_registry c) name False)) embedded
        | Payload d \<Rightarrow> (c, Inr ()))
       (\<lambda>_. transmitImpl cfg w)"

definition import_with :: "string option \<Rightarrow> (registry \<Rightarrow> registry \<times> nat result) \<Rightarrow> channel \<Rightarrow> channel \<times> unit result" where
  "import_with typeName convert c =
     thenA (c, deref ''name'' typeName) (\<lambda>name c.
       if name \<in> x_sharedTypeNames c then (c, Inr ())
       else
         let c = c\<lparr>x_sharedTypeNames := insert name (x_sharedTypeNames c)\<rparr> in
         (case convert (x_registry c) of
            (r, Inl e) \<Rightarrow> (c\<lparr>x_registry := r\<rparr>, Inl e)
          | (r, Inr d) \<Rightarrow> (c\<lparr>x_registry := r, x_sharedTypeDescriptors := insert d (x_sharedTypeDescriptors c)\<rparr>, Inr ())))"

definition importDependencies :: "channel_config \<Rightarrow> wire \<Rightarrow> channel \<Rightarrow> channel \<times> unit result" where
  "importDependencies cfg w c =
     (case w of
        StructDescriptorData m \<Rightarrow> import_with (sdata_name m) (struct_from_data m) c
      | EnumDescriptorData m \<Rightarrow> import_with (edata_typeName m) (enum_from_data (x_int32 cfg) m) c
      | Payload d \<Rightarrow> (c, Inr ()))"


section \<open>Data and back\<close>

lemma flag_set: "fl AND 1 \<noteq> 0 \<longleftrightarrow> bit fl 0" "fl AND 2 \<noteq> 0 \<longleftrightarrow> bit fl 1" "fl AND 4 \<noteq> 0 \<longleftrightarrow> bit fl 2"
  "fl AND 8 \<noteq> 0 \<longleftrightarrow> bit fl 3" "fl AND 16 \<noteq> 0 \<longleftrightarrow> bit fl 4" "fl AND 32 \<noteq> 0 \<longleftrightarrow> bit fl 5"
  for fl :: "8 word"
  using and_exp_eq_0_iff_not_bit [of fl 0] and_exp_eq_0_iff_not_bit [of fl 1] and_exp_eq_0_iff_not_bit [of fl 2]
    and_exp_eq_0_iff_not_bit [of fl 3] and_exp_eq_0_iff_not_bit [of fl 4] and_exp_eq_0_iff_not_bit [of fl 5]
  by simp_all

lemma bit_flag: "bit (if b then 2 ^ k else (0 :: 8 word)) n \<longleftrightarrow> b \<and> n = k \<and> n < 8"
  by (auto simp: bit_exp_iff)

lemma bit_flags:
  "bit (if b then 1 else (0 :: 8 word)) n \<longleftrightarrow> b \<and> n = 0 \<and> n < 8" "bit (if b then 2 else (0 :: 8 word)) n \<longleftrightarrow> b \<and> n = 1 \<and> n < 8"
  "bit (if b then 4 else (0 :: 8 word)) n \<longleftrightarrow> b \<and> n = 2 \<and> n < 8" "bit (if b then 8 else (0 :: 8 word)) n \<longleftrightarrow> b \<and> n = 3 \<and> n < 8"
  "bit (if b then 16 else (0 :: 8 word)) n \<longleftrightarrow> b \<and> n = 4 \<and> n < 8" "bit (if b then 32 else (0 :: 8 word)) n \<longleftrightarrow> b \<and> n = 5 \<and> n < 8"
  using bit_flag [of b 0 n] bit_flag [of b 1 n] bit_flag [of b 2 n] bit_flag [of b 3 n] bit_flag [of b 4 n] bit_flag [of b 5 n]
  by (simp_all cong: if_cong)

lemma flags_roundtrip: "flags_from_data (flags_to_data fl) = fl AND 63"
proof (rule bit_word_eqI)
  fix n assume n: "n < LENGTH(8)"
  have "flags_from_data (flags_to_data fl) =
     (if bit fl 0 then 1 else 0) OR (if bit fl 1 then 2 else 0) OR (if bit fl 2 then 4 else 0)
     OR (if bit fl 3 then 8 else 0) OR (if bit fl 4 then 16 else 0) OR (if bit fl 5 then 32 else 0)"
    by (simp only: flags_from_data_def flags_to_data_def Let_def cached_def internal_def persistent_def cleanup_def
        local_only_def substructOnly_def Flag_Cached_def Flag_Internal_def Flag_Persistent_def Flag_Cleanup_def
        Flag_Local_def Flag_SubstructOnly_def flag_set struct_flags.select_convs sdesc.sel option.inject eq_True)
  then have "bit (flags_from_data (flags_to_data fl)) n \<longleftrightarrow> bit fl n \<and> n < 6"
    using n by (simp only: bit_or_iff bit_flags) (auto simp: less_Suc_eq eval_nat_numeral)
  moreover have "bit (63 :: 8 word) n \<longleftrightarrow> n < 6"
    using n bit_mask_iff [of 6 n, where 'a = "8 word"] by (simp add: mask_eq_exp_minus_1)
  then have "bit (fl AND 63) n \<longleftrightarrow> bit fl n \<and> n < 6" by (auto simp only: bit_and_iff)
  ultimately show "bit (flags_from_data (flags_to_data fl)) n = bit (fl AND 63) n" by simp
qed

section \<open>Registering what was converted\<close>

lemma registerType_known:
  "\<lbrakk>v < length (r_heap r); name_at r v \<in> dom (r_types r); 0 < n\<rbrakk> \<Longrightarrow>
     registerType n v False r = (r, Inr (the (r_types r (name_at r v))))"
  by (cases n) (auto simp: node_at_def findType_def map_findType_def name_at_def)

lemma forA_known:
  "\<lbrakk>\<forall>v \<in> set vs. v < length (r_heap r) \<and> name_at r v \<in> dom (r_types r); 0 < n\<rbrakk> \<Longrightarrow>
     forA (\<lambda>v. registerType n v False) vs r = (r, Inr ())"
  by (induction vs) (auto simp: registerType_known simp del: registerType.simps)

lemma name_at_append: "v < length (r_heap r) \<Longrightarrow> name_at (r\<lparr>r_heap := r_heap r @ ns\<rparr>) v = name_at r v"
  by (simp add: name_at_def nth_append)

definition entered :: "desc_node \<Rightarrow> registry \<Rightarrow> registry" where
  "entered node r =
     r\<lparr>r_heap := r_heap r @ [node], r_types := (r_types r)(node_name node \<mapsto> length (r_heap r)),
       r_notified := r_notified r @ [length (r_heap r)]\<rparr>"

lemma entered_simps [simp]:
  "r_heap (entered node r) = r_heap r @ [node]"
  "r_types (entered node r) = (r_types r)(node_name node \<mapsto> length (r_heap r))"
  by (simp_all add: entered_def)

lemma register_new_entered:
  assumes "node_name node \<notin> dom (r_types r)"
    and "\<forall>v \<in> set (value_descriptors node). v < length (r_heap r) \<and> name_at r v \<in> dom (r_types r)"
  shows "register_new node r = (entered node r, Inr (length (r_heap r)))"
proof -
  let ?r = "r\<lparr>r_heap := r_heap r @ [node], r_types := (r_types r)(node_name node \<mapsto> length (r_heap r))\<rparr>"
  have none: "r_types r (node_name node) = None" using assms(1) by auto
  have n: "name_at ?r v = name_at r v" if "v < length (r_heap r)" for v
    using that by (simp add: name_at_def nth_append)
  have "forA (\<lambda>v. registerType (Suc (length (r_heap r))) v False) (value_descriptors node) ?r = (?r, Inr ())"
    by (rule forA_known) (use assms(2) n in auto)
  then show ?thesis
    by (simp add: register_new_def make_descriptor_def node_at_def findType_def map_findType_def map_emplace_def
        map_tryEmplace_def entered_def none del: registerType.simps(2) add: registerType.simps(2) [of "Suc m" for m])
qed

lemma entered_closed:
  assumes "registry_closed r" "node_name node \<notin> dom (r_types r)"
    and "\<forall>v \<in> set (value_descriptors node). v < length (r_heap r) \<and> name_at r v \<in> dom (r_types r)"
  shows "registry_closed (entered node r)"
proof -
  have n: "name_at (entered node r) v = name_at r v" if "v < length (r_heap r)" for v
    using that by (simp add: name_at_def entered_def nth_append)
  have closed: "heap_closed (r_heap r)"
    "\<And>name d. r_types r name = Some d \<Longrightarrow> d < length (r_heap r) \<and> name_at r d = name
         \<and> (\<forall>v \<in> set (value_descriptors (r_heap r ! d)). name_at r v \<in> dom (r_types r))"
    using assms(1) unfolding registry_closed_def by blast+
  have inner: "v < length (r_heap r)" if "d < length (r_heap r)" "v \<in> set (value_descriptors (r_heap r ! d))" for d v
    using closed(1) that by (auto simp: heap_closed_def)
  have "heap_closed (r_heap (entered node r))"
    using closed(1) assms(3) by (auto simp: heap_closed_def less_SucI)
  moreover have "d < length (r_heap (entered node r)) \<and> name_at (entered node r) d = name
         \<and> (\<forall>v \<in> set (value_descriptors (r_heap (entered node r) ! d)). name_at (entered node r) v \<in> dom (r_types (entered node r)))"
    if d: "r_types (entered node r) name = Some d" for name d
  proof (cases "name = node_name node")
    case True
    then have "d = length (r_heap r)" using d by simp
    then show ?thesis using True assms(3) n by (auto simp: name_at_def nth_append)
  next
    case False
    then have old: "r_types r name = Some d" using d by simp
    then have "d < length (r_heap r)" using closed(2) by blast
    then show ?thesis using closed(2) [OF old] n inner by (auto simp: nth_append less_SucI)
  qed
  ultimately show ?thesis by (simp add: registry_closed_def)
qed

section \<open>Types of properties\<close>

text \<open>A registry that has grown: what it knew is still there.\<close>

definition grown :: "registry \<Rightarrow> registry \<Rightarrow> bool" where
  "grown r r' \<longleftrightarrow> (\<exists>ns. r_heap r' = r_heap r @ ns) \<and> (\<forall>name d. r_types r name = Some d \<longrightarrow> r_types r' name = Some d)"

lemma grown_refl [simp]: "grown r r"
  by (simp add: grown_def)

lemma grown_trans: "grown r r' \<Longrightarrow> grown r' r'' \<Longrightarrow> grown r r''"
  by (auto simp: grown_def)

lemma grown_node: "grown r r' \<Longrightarrow> d < length (r_heap r) \<Longrightarrow> d < length (r_heap r') \<and> r_heap r' ! d = r_heap r ! d"
  by (auto simp: grown_def nth_append)

lemma grown_dom: "grown r r' \<Longrightarrow> dom (r_types r) \<subseteq> dom (r_types r')"
  by (auto simp: grown_def)

lemma grown_entered: "node_name node \<notin> dom (r_types r) \<Longrightarrow> grown r (entered node r)"
  by (auto simp: grown_def)

definition vector_name :: "string \<Rightarrow> string" where
  "vector_name name = ''vector<'' @ name @ ''>''"

text \<open>The kind of type whose vectors can be made at run time.\<close>

definition user_node :: "desc_node \<Rightarrow> bool" where
  "user_node node \<longleftrightarrow> is_enum_node node \<or> is_struct_node node"

definition resolvable :: "registry \<Rightarrow> string \<Rightarrow> bool" where
  "resolvable r typeName \<longleftrightarrow> typeName \<in> dom (r_types r) \<or>
     (\<exists>name v. typeName = vector_name name \<and> r_types r name = Some v \<and> user_node (r_heap r ! v))"

lemma value_type_name_vector: "value_type_name (vector_name name) = name" "contains_text ''vector<'' (vector_name name)"
  by (simp_all add: value_type_name_def vector_name_def)

lemma registered_node:
  "registry_closed r \<Longrightarrow> r_types r name = Some d \<Longrightarrow> d < length (r_heap r) \<and> node_name (r_heap r ! d) = name"
  unfolding registry_closed_def name_at_def by blast

lemma vector_entered:
  assumes "registry_closed r" "r_types r name = Some v" "w < length (r_heap r)" "node_name (r_heap r ! w) = name"
    and "vector_name name \<notin> dom (r_types r)"
  shows "register_new (VectorNode (vector_name name) w) r = (entered (VectorNode (vector_name name) w) r, Inr (length (r_heap r)))"
    and "registry_closed (entered (VectorNode (vector_name name) w) r)"
proof -
  have "\<forall>v \<in> set (value_descriptors (VectorNode (vector_name name) w)). v < length (r_heap r) \<and> name_at r v \<in> dom (r_types r)"
    using assms(2,3,4) by (auto simp: name_at_def)
  then show "register_new (VectorNode (vector_name name) w) r = (entered (VectorNode (vector_name name) w) r, Inr (length (r_heap r)))"
    "registry_closed (entered (VectorNode (vector_name name) w) r)"
    using register_new_entered [of "VectorNode (vector_name name) w" r] entered_closed [OF assms(1)] assms(5) by simp_all
qed

lemma closed_copy:
  assumes "registry_closed r" "v < length (r_heap r)" "value_descriptors node = value_descriptors (r_heap r ! v)"
  shows "registry_closed (r\<lparr>r_heap := r_heap r @ [node]\<rparr>)"
proof -
  have n: "name_at (r\<lparr>r_heap := r_heap r @ [node]\<rparr>) d = name_at r d" if "d < length (r_heap r)" for d
    using that by (simp add: name_at_def nth_append)
  have inner: "x < length (r_heap r)" if "d < length (r_heap r)" "x \<in> set (value_descriptors (r_heap r ! d))" for d x
    using assms(1) that by (auto simp: registry_closed_def heap_closed_def)
  have "heap_closed (r_heap r @ [node])"
    using assms inner by (auto simp: registry_closed_def heap_closed_def less_SucI)
  moreover have "d < length (r_heap r @ [node]) \<and> name_at (r\<lparr>r_heap := r_heap r @ [node]\<rparr>) d = name
      \<and> (\<forall>v \<in> set (value_descriptors ((r_heap r @ [node]) ! d)). name_at (r\<lparr>r_heap := r_heap r @ [node]\<rparr>) v \<in> dom (r_types r))"
    if "r_types r name = Some d" for name d
  proof -
    have d: "d < length (r_heap r)" "name_at r d = name"
      "\<forall>v \<in> set (value_descriptors (r_heap r ! d)). name_at r v \<in> dom (r_types r)"
      using assms(1) that unfolding registry_closed_def by blast+
    then show ?thesis using n inner [OF d(1)] by (auto simp: nth_append)
  qed
  ultimately show ?thesis by (simp add: registry_closed_def)
qed

lemma vector_from_name_known:
  assumes "registry_closed r" "r_types r name = Some v" "user_node (r_heap r ! v)" "vector_name name \<notin> dom (r_types r)"
  shows "\<exists>r' d. vector_from_name (vector_name name) r = (r', Inr d) \<and> registry_closed r' \<and> grown r r'
    \<and> dom (r_types r') = insert (vector_name name) (dom (r_types r)) \<and> d < length (r_heap r') \<and> name_at r' d = vector_name name"
proof -
  have v: "v < length (r_heap r)" "node_name (r_heap r ! v) = name" using registered_node [OF assms(1,2)] by auto
  have start: "vector_from_name (vector_name name) r =
     (case r_heap r ! v of
              EnumNode name u es \<Rightarrow> register_new (VectorNode (''vector<'' @ name @ ''>'') v) r
            | StructNode name fl dyn ps \<Rightarrow>
                if dyn then register_new (VectorNode (''vector<'' @ name @ ''>'') v) r
                else (case make_descriptor (StructNode name fl True ps) r of
                        (r', w) \<Rightarrow> register_new (VectorNode (''vector<'' @ name @ ''>'') w) r')
            | _ \<Rightarrow> (r, Inl (LogicError (''unsupported dynamic vector type: '' @ name))))"
    using assms(2) v(1)
    by (simp add: vector_from_name_def value_type_name_vector findType_def map_findType_def node_at_def split: desc_node.split)
  have direct: ?thesis if "vector_from_name (vector_name name) r = register_new (VectorNode (vector_name name) v) r"
    using vector_entered [OF assms(1,2) v assms(4)] grown_entered [of "VectorNode (vector_name name) v" r] that assms(4)
    by (intro exI [of _ "entered (VectorNode (vector_name name) v) r"] exI [of _ "length (r_heap r)"]) (auto simp: name_at_def)
  show ?thesis
  proof (cases "r_heap r ! v")
    case (EnumNode n u es)
    then show ?thesis using direct start v(2) by (simp add: vector_name_def)
  next
    case (StructNode n fl dyn ps)
    show ?thesis
    proof (cases dyn)
      case True
      then show ?thesis using direct start v(2) StructNode by (simp add: vector_name_def)
    next
      case False
      let ?r1 = "r\<lparr>r_heap := r_heap r @ [StructNode name fl True ps]\<rparr>" and ?w = "length (r_heap r)"
      have c: "registry_closed ?r1" using closed_copy [OF assms(1) v(1)] StructNode by simp
      have "vector_from_name (vector_name name) r = register_new (VectorNode (vector_name name) ?w) ?r1"
        using start v(2) StructNode False by (simp add: vector_name_def make_descriptor_def)
      moreover note vector_entered [OF c, of name v ?w]
      moreover have "grown r (entered (VectorNode (vector_name name) ?w) ?r1)"
        using assms(4) by (auto simp: grown_def)
      ultimately show ?thesis
        using assms(2,4)
        by (intro exI [of _ "entered (VectorNode (vector_name name) ?w) ?r1"] exI [of _ "Suc (length (r_heap r))"])
          (auto simp: name_at_def nth_append)
    qed
  qed (use assms(3) in \<open>simp_all add: user_node_def is_enum_node_def is_struct_node_def\<close>)
qed


lemma grown_resolvable: "registry_closed r \<Longrightarrow> grown r r' \<Longrightarrow> resolvable r typeName \<Longrightarrow> resolvable r' typeName"
proof -
  assume r: "registry_closed r" "grown r r'" "resolvable r typeName"
  have "user_node (r_heap r' ! v)" "r_types r' name = Some v" if "r_types r name = Some v" "user_node (r_heap r ! v)" for name v
    using that r(2) grown_node [OF r(2), of v] registered_node [OF r(1), of name v] by (auto simp: grown_def)
  then show "resolvable r' typeName" using r(3) grown_dom [OF r(2)] unfolding resolvable_def by blast
qed

text \<open>The data of a complete property, as \<open>property_to_data\<close> makes it.\<close>

definition complete_property :: "registry \<Rightarrow> property_data \<Rightarrow> bool" where
  "complete_property r p \<longleftrightarrow> pdata_name p \<noteq> None \<and> pdata_tag p \<noteq> None \<and> pdata_isKey p \<noteq> None
     \<and> (\<exists>typeName. pdata_type p = Some typeName \<and> resolvable r typeName)"

lemma property_imported:
  assumes "registry_closed r" "complete_property r p"
  shows "\<exists>r' q. property_from_data p r = (r', Inr q) \<and> registry_closed r' \<and> grown r r'
    \<and> dom (r_types r') \<subseteq> insert (the (pdata_type p)) (dom (r_types r)) \<and> prop_value q < length (r_heap r')
    \<and> name_at r' (prop_value q) \<in> dom (r_types r') \<and> property_to_data (r_heap r') q = Inr p"
proof -
  obtain name t key typeName where p: "pdata_name p = Some name" "pdata_tag p = Some t" "pdata_isKey p = Some key"
    "pdata_type p = Some typeName" "resolvable r typeName"
    using assms(2) by (auto simp: complete_property_def)
  have "\<exists>r' d. (case r_types r typeName of Some d \<Rightarrow> (r, Inr d) | None \<Rightarrow> vector_from_name typeName r) = (r', Inr d)
    \<and> registry_closed r' \<and> grown r r' \<and> dom (r_types r') \<subseteq> insert typeName (dom (r_types r))
    \<and> d < length (r_heap r') \<and> name_at r' d = typeName \<and> typeName \<in> dom (r_types r')"
  proof (cases "r_types r typeName")
    case None
    then obtain base v where v: "typeName = vector_name base" "r_types r base = Some v" "user_node (r_heap r ! v)"
      using p(5) by (auto simp: resolvable_def)
    then have "vector_name base \<notin> dom (r_types r)" using None by auto
    from vector_from_name_known [OF assms(1) v(2,3) this] show ?thesis using None v(1) by auto
  next
    case (Some d)
    then show ?thesis using registered_node [OF assms(1) Some] assms(1)
      by (intro exI [of _ r] exI [of _ d]) (auto simp: name_at_def)
  qed
  then obtain r' d where d: "(case r_types r typeName of Some d \<Rightarrow> (r, Inr d) | None \<Rightarrow> vector_from_name typeName r) = (r', Inr d)"
    "registry_closed r'" "grown r r'" "dom (r_types r') \<subseteq> insert typeName (dom (r_types r))"
    "d < length (r_heap r')" "name_at r' d = typeName" "typeName \<in> dom (r_types r')"
    by blast
  let ?q = "\<lparr>prop_name = name, prop_tag = t, prop_isKey = key, prop_value = d\<rparr>"
  have "property_from_data p r = (r', Inr ?q)"
    using d(1) p by (simp add: property_from_data_def deref_def findType_def map_findType_def split: option.splits)
  moreover have "property_to_data (r_heap r') ?q = Inr p"
    using d(5,6) p by (simp add: property_to_data_def node_at_def name_at_def)
  ultimately show ?thesis using d p(4) by (intro exI [of _ r'] exI [of _ ?q]) simp
qed

lemma grown_property:
  "grown r r' \<Longrightarrow> prop_value q < length (r_heap r) \<Longrightarrow> property_to_data (r_heap r') q = property_to_data (r_heap r) q"
  using grown_node [of r r' "prop_value q"] by (simp add: property_to_data_def node_at_def)

lemma properties_imported:
  "\<lbrakk>registry_closed r; \<forall>p \<in> set ps. complete_property r p\<rbrakk> \<Longrightarrow>
    \<exists>r' qs. properties_from_data ps r = (r', Inr qs) \<and> registry_closed r' \<and> grown r r'
      \<and> dom (r_types r') \<subseteq> {typeName. \<exists>p \<in> set ps. pdata_type p = Some typeName} \<union> dom (r_types r)
      \<and> (\<forall>q \<in> set qs. prop_value q < length (r_heap r') \<and> name_at r' (prop_value q) \<in> dom (r_types r'))
      \<and> mapE (property_to_data (r_heap r')) qs = Inr ps"
proof (induction ps arbitrary: r)
  case Nil
  then show ?case by (intro exI [of _ r] exI [of _ "[]"]) simp
next
  case (Cons p ps)
  obtain r1 q where 1: "property_from_data p r = (r1, Inr q)" "registry_closed r1" "grown r r1"
    "dom (r_types r1) \<subseteq> insert (the (pdata_type p)) (dom (r_types r))" "prop_value q < length (r_heap r1)"
    "name_at r1 (prop_value q) \<in> dom (r_types r1)" "property_to_data (r_heap r1) q = Inr p"
    using property_imported [of r p] Cons.prems by auto
  have "\<forall>p \<in> set ps. complete_property r1 p"
    using Cons.prems grown_resolvable [OF Cons.prems(1) 1(3)] by (auto simp: complete_property_def)
  from Cons.IH [OF 1(2) this] obtain r2 qs where 2: "properties_from_data ps r1 = (r2, Inr qs)" "registry_closed r2" "grown r1 r2"
    "dom (r_types r2) \<subseteq> {typeName. \<exists>p \<in> set ps. pdata_type p = Some typeName} \<union> dom (r_types r1)"
    "\<forall>q \<in> set qs. prop_value q < length (r_heap r2) \<and> name_at r2 (prop_value q) \<in> dom (r_types r2)"
    "mapE (property_to_data (r_heap r2)) qs = Inr ps" by blast
  have "properties_from_data (p # ps) r = (r2, Inr (q # qs))" using 1(1) 2(1) by simp
  moreover have "grown r r2" using 1(3) 2(3) by (rule grown_trans)
  moreover have "\<exists>typeName. pdata_type p = Some typeName" using Cons.prems(2) by (auto simp: complete_property_def)
  then have "dom (r_types r2) \<subseteq> {typeName. \<exists>p \<in> set (p # ps). pdata_type p = Some typeName} \<union> dom (r_types r)"
    using 1(4) 2(4) by fastforce
  moreover have "prop_value q < length (r_heap r2) \<and> name_at r2 (prop_value q) \<in> dom (r_types r2)"
    using grown_node [OF 2(3) 1(5)] grown_dom [OF 2(3)] 1(6) by (auto simp: name_at_def)
  moreover have "property_to_data (r_heap r2) q = Inr p" using grown_property [OF 2(3) 1(5)] 1(7) by simp
  ultimately show ?case using 2(2,5,6) by (intro exI [of _ r2] exI [of _ "q # qs"]) simp
qed

lemma properties_data:
  "mapE (property_to_data h) ps = Inr ds \<Longrightarrow>
     length ds = length ps \<and> (\<forall>d \<in> set ds. \<exists>p \<in> set ps. prop_value p < length h \<and> d =
       \<lparr>pdata_name = Some (prop_name p), pdata_tag = Some (prop_tag p), pdata_isKey = Some (prop_isKey p),
        pdata_type = Some (node_name (h ! prop_value p))\<rparr>)"
proof (induction ps arbitrary: ds)
  case (Cons p ps)
  from Cons.prems obtain d es where d: "property_to_data h p = Inr d" "mapE (property_to_data h) ps = Inr es" "ds = d # es"
    by (auto simp: bindE_def split: sum.splits)
  have "prop_value p < length h" "d = \<lparr>pdata_name = Some (prop_name p), pdata_tag = Some (prop_tag p),
      pdata_isKey = Some (prop_isKey p), pdata_type = Some (node_name (h ! prop_value p))\<rparr>"
    using d(1) by (auto simp: property_to_data_def node_at_def split: if_splits)
  then show ?case using Cons.IH [OF d(2)] d(3) by auto
qed simp

lemma flags_data_masked: "flags_to_data (fl AND 63) = flags_to_data fl"
  by (simp add: flags_to_data_def Let_def cached_def internal_def persistent_def cleanup_def local_only_def substructOnly_def
      Flag_Cached_def Flag_Internal_def Flag_Persistent_def Flag_Cleanup_def Flag_Local_def Flag_SubstructOnly_def and.assoc)

text \<open>A type whose properties are all resolvable is entered under its name, with the data it was sent as.\<close>

lemma struct_imported:
  assumes "registry_closed r" "struct_to_data h name fl ps = Inr m" "ps \<noteq> []" "r_types r name = None"
    and "\<forall>p \<in> set ps. resolvable r (node_name (h ! prop_value p)) \<and> node_name (h ! prop_value p) \<noteq> name"
  shows "\<exists>r' d qs. struct_from_data m r = (r', Inr d) \<and> registry_closed r' \<and> r_types r' name = Some d
    \<and> r_heap r' ! d = StructNode name (fl AND 63) True qs \<and> struct_to_data (r_heap r') name (fl AND 63) qs = Inr m
    \<and> grown r r' \<and> dom (r_types r') \<subseteq> insert name ((\<lambda>p. node_name (h ! prop_value p)) ` set ps \<union> dom (r_types r))"
proof -
  obtain ds where ds: "mapE (property_to_data h) ps = Inr ds"
    "m = \<lparr>sdata_name = Some name, sdata_properties = Some ds, sdata_flags = Some (flags_to_data fl)\<rparr>"
    using assms(2) by (auto simp: struct_to_data_def bindE_def split: sum.splits)
  note data = properties_data [OF ds(1)]
  have "\<forall>d \<in> set ds. complete_property r d"
    using data assms(5) by (fastforce simp: complete_property_def)
  from properties_imported [OF assms(1) this] obtain r1 qs where 1: "properties_from_data ds r = (r1, Inr qs)" "registry_closed r1"
    "grown r r1" "dom (r_types r1) \<subseteq> {typeName. \<exists>p \<in> set ds. pdata_type p = Some typeName} \<union> dom (r_types r)"
    "\<forall>q \<in> set qs. prop_value q < length (r_heap r1) \<and> name_at r1 (prop_value q) \<in> dom (r_types r1)"
    "mapE (property_to_data (r_heap r1)) qs = Inr ds" by blast
  have types: "{typeName. \<exists>p \<in> set ds. pdata_type p = Some typeName} \<subseteq> (\<lambda>p. node_name (h ! prop_value p)) ` set ps"
    using data by fastforce
  moreover have "name \<notin> (\<lambda>p. node_name (h ! prop_value p)) ` set ps" using assms(5) by auto
  moreover have "name \<notin> dom (r_types r)" using assms(4) by auto
  ultimately have new: "name \<notin> dom (r_types r1)" using 1(4) by blast
  have "length qs = length ds" using properties_data [OF 1(6)] by simp
  then have "qs \<noteq> []" using data assms(3) by auto
  let ?node = "StructNode name (fl AND 63) True qs"
  have vals: "\<forall>v \<in> set (value_descriptors ?node). v < length (r_heap r1) \<and> name_at r1 v \<in> dom (r_types r1)"
    using 1(5) by auto
  have "struct_from_data m r = (entered ?node r1, Inr (length (r_heap r1)))"
    using register_new_entered [of ?node r1] new vals 1(1) \<open>qs \<noteq> []\<close> assms(4)
    by (simp add: struct_from_data_def ds(2) deref_def registry_findStructType_def find_kind_def findType_def map_findType_def
        flags_roundtrip)
  moreover have "registry_closed (entered ?node r1)" using entered_closed [OF 1(2)] new vals by simp
  moreover have g: "grown r1 (entered ?node r1)" using grown_entered [of ?node r1] new by simp
  have "mapE (property_to_data (r_heap (entered ?node r1))) qs' = mapE (property_to_data (r_heap r1)) qs'"
    if "set qs' \<subseteq> set qs" for qs'
    using that 1(5) grown_property [OF g] by (induction qs') (auto simp del: entered_simps)
  then have "struct_to_data (r_heap (entered ?node r1)) name (fl AND 63) qs = Inr m"
    using 1(6) ds(2) by (simp add: struct_to_data_def flags_data_masked del: entered_simps)
  moreover have "grown r (entered ?node r1)" using 1(3) g by (rule grown_trans)
  moreover have "dom (r_types (entered ?node r1)) \<subseteq> insert name ((\<lambda>p. node_name (h ! prop_value p)) ` set ps \<union> dom (r_types r))"
    using 1(4) types by auto
  ultimately show ?thesis
    by (intro exI [of _ "entered ?node r1"] exI [of _ "length (r_heap r1)"] exI [of _ qs]) simp
qed

lemma enum_imported:
  assumes "registry_closed r" "r_types r name = None" "int32 < length (r_heap r)" "name_at r int32 \<in> dom (r_types r)"
  shows "enum_from_data int32 (enum_to_data name es) r = (entered (EnumNode name int32 es) r, Inr (length (r_heap r)))"
    and "registry_closed (entered (EnumNode name int32 es) r)"
proof -
  have "mapE enumerator_of (List.map element_of es) = Inr es"
  proof (induction es)
    case (Cons e es)
    have "enumerator_of (element_of e) = Inr e" by (cases e) (simp add: enumerator_of_def element_of_def deref_def)
    then show ?case using Cons by simp
  qed simp
  then show "enum_from_data int32 (enum_to_data name es) r = (entered (EnumNode name int32 es) r, Inr (length (r_heap r)))"
    using register_new_entered [of "EnumNode name int32 es" r] assms
    by (simp add: enum_from_data_def enum_to_data_def deref_def findEnumType_def find_kind_def findType_def map_findType_def domIff)
  show "registry_closed (entered (EnumNode name int32 es) r)"
    using entered_closed [OF assms(1), of "EnumNode name int32 es"] assms(2-) by auto
qed

text \<open>C35: A struct descriptor with at least one property that is turned into data and imported by a
  registry that knows the types of its properties, or the value types of its vectors, is
  registered under its name with the same flags and the same data; everything registered
  before stays. The name is not registered yet, and no property is of the struct itself; a
  struct without properties makes the code dereference a null pointer.\<close>

theorem struct_data_roundtrip:
  assumes "registry_closed r" "struct_to_data h name fl ps = Inr m" "ps \<noteq> []" "r_types r name = None"
    and "\<forall>p \<in> set ps. resolvable r (node_name (h ! prop_value p)) \<and> node_name (h ! prop_value p) \<noteq> name"
  shows "\<exists>r' d qs. struct_from_data m r = (r', Inr d) \<and> registry_closed r' \<and> r_types r' name = Some d
    \<and> r_heap r' ! d = StructNode name (fl AND 63) True qs \<and> struct_to_data (r_heap r') name (fl AND 63) qs = Inr m
    \<and> (\<forall>other x. r_types r other = Some x \<longrightarrow> r_types r' other = Some x \<and> r_heap r' ! x = r_heap r ! x)"
proof -
  obtain r' d qs where r': "struct_from_data m r = (r', Inr d)" "registry_closed r'" "r_types r' name = Some d"
    "r_heap r' ! d = StructNode name (fl AND 63) True qs" "struct_to_data (r_heap r') name (fl AND 63) qs = Inr m" "grown r r'"
    using struct_imported [OF assms] by blast
  have "r_types r' other = Some x \<and> r_heap r' ! x = r_heap r ! x" if "r_types r other = Some x" for other x
    using r'(6) grown_node [OF r'(6), of x] registered_node [OF assms(1) that] that unfolding grown_def by blast
  with r' show ?thesis by blast
qed

section \<open>What one side exports the other imports\<close>

definition exported_node :: "desc_node \<Rightarrow> bool" where
  "exported_node node = (case node of EnumNode _ _ _ \<Rightarrow> True | StructNode _ fl _ _ \<Rightarrow> \<not> internal_flags fl | _ \<Rightarrow> False)"

definition property_data_of :: "desc_heap \<Rightarrow> prop_node \<Rightarrow> property_data" where
  "property_data_of h p =
     \<lparr>pdata_name = Some (prop_name p), pdata_tag = Some (prop_tag p), pdata_isKey = Some (prop_isKey p),
      pdata_type = Some (node_name (h ! prop_value p))\<rparr>"

definition wire_of :: "desc_heap \<Rightarrow> nat \<Rightarrow> wire" where
  "wire_of h d =
     (case h ! d of
        EnumNode name u es \<Rightarrow> EnumDescriptorData (enum_to_data name es)
      | StructNode name fl dyn ps \<Rightarrow>
          StructDescriptorData \<lparr>sdata_name = Some name, sdata_properties = Some (List.map (property_data_of h) ps),
            sdata_flags = Some (flags_to_data fl)\<rparr>
      | _ \<Rightarrow> Payload d)"

text \<open>
  The sender: its descriptors have names of their own and are built up in the order of some \<open>rank\<close>, a
  vector is named after its value and a type that is sent has a property.
\<close>

definition sender_ok :: "desc_heap \<Rightarrow> (nat \<Rightarrow> nat) \<Rightarrow> bool" where
  "sender_ok h rank \<longleftrightarrow> heap_closed h \<and> distinct (List.map node_name h)
     \<and> (\<forall>d < length h. (\<forall>v \<in> set (value_descriptors (h ! d)). rank v < rank d)
          \<and> (case h ! d of
               VectorNode name v \<Rightarrow> name = vector_name (node_name (h ! v))
             | StructNode name fl dyn ps \<Rightarrow> internal_flags fl \<or> ps \<noteq> []
             | _ \<Rightarrow> True))"

text \<open>
  The receiver: it knows the types that are never sent, and what it knows of the sender's types is of
  the same kind.
\<close>

definition always_known :: "desc_heap \<Rightarrow> nat \<Rightarrow> bool" where
  "always_known h d =
     (case h ! d of
        FundNode _ \<Rightarrow> True
      | EnumNode _ _ _ \<Rightarrow> False
      | VectorNode _ v \<Rightarrow> \<not> user_node (h ! v)
      | StructNode _ fl _ _ \<Rightarrow> internal_flags fl)"

definition receiver_ok :: "desc_heap \<Rightarrow> channel_config \<Rightarrow> channel \<Rightarrow> bool" where
  "receiver_ok h cfg c \<longleftrightarrow>
     (let r = x_registry c in
      registry_closed r \<and> x_int32 cfg < length (r_heap r) \<and> name_at r (x_int32 cfg) \<in> dom (r_types r)
      \<and> x_sharedTypeNames c \<subseteq> dom (r_types r)
      \<and> (\<forall>d < length h. (always_known h d \<longrightarrow> node_name (h ! d) \<in> dom (r_types r))
          \<and> (\<forall>v. r_types r (node_name (h ! d)) = Some v \<longrightarrow>
               (is_struct_node (h ! d) \<longrightarrow> is_struct_node (r_heap r ! v)) \<and> (is_enum_node (h ! d) \<longrightarrow> is_enum_node (r_heap r ! v)))))"

text \<open>What the receiver has then: a type it can resolve, and when the type was new, one with the same data.\<close>

definition delivered :: "desc_heap \<Rightarrow> registry \<Rightarrow> nat \<Rightarrow> bool" where
  "delivered h r d =
     (case h ! d of
        VectorNode name v \<Rightarrow> resolvable r name
      | _ \<Rightarrow> node_name (h ! d) \<in> dom (r_types r))"

definition same_data :: "desc_heap \<Rightarrow> registry \<Rightarrow> nat \<Rightarrow> bool" where
  "same_data h r d \<longleftrightarrow>
     (\<exists>v. r_types r (node_name (h ! d)) = Some v \<and> v < length (r_heap r) \<and> wire_of (r_heap r) v = wire_of h d)"


lemma heap_closed_value: "heap_closed h \<Longrightarrow> d < length h \<Longrightarrow> v \<in> set (value_descriptors (h ! d)) \<Longrightarrow> v < length h"
  by (auto simp: heap_closed_def)

lemma struct_to_data_wire:
  "heap_closed h \<Longrightarrow> d < length h \<Longrightarrow> h ! d = StructNode name fl dyn ps \<Longrightarrow>
     \<exists>m. struct_to_data h name fl ps = Inr m \<and> wire_of h d = StructDescriptorData m"
proof -
  assume h: "heap_closed h" "d < length h" "h ! d = StructNode name fl dyn ps"
  then have "\<forall>p \<in> set ps. prop_value p < length h" by (fastforce simp: heap_closed_def dest: bspec [OF _ nth_mem])
  then have "mapE (property_to_data h) ps = Inr (List.map (property_data_of h) ps)"
    by (induction ps) (simp_all add: property_to_data_def property_data_of_def node_at_def)
  then show ?thesis using h(3) by (simp add: struct_to_data_def wire_of_def)
qed

lemma grown_wire:
  assumes "grown r r'" "heap_closed (r_heap r)" "v < length (r_heap r)"
  shows "wire_of (r_heap r') v = wire_of (r_heap r) v"
proof -
  have v: "r_heap r' ! v = r_heap r ! v" using grown_node [OF assms(1,3)] by simp
  have "r_heap r' ! x = r_heap r ! x" if "x \<in> set (value_descriptors (r_heap r ! v))" for x
    using grown_node [OF assms(1) heap_closed_value [OF assms(2,3) that]] by simp
  then show ?thesis by (auto simp: wire_of_def property_data_of_def v split: desc_node.split)
qed

lemma grown_same_data:
  "grown r r' \<Longrightarrow> registry_closed r \<Longrightarrow> same_data h r d \<Longrightarrow> same_data h r' d"
proof -
  assume g: "grown r r'" "registry_closed r" "same_data h r d"
  then obtain v where v: "r_types r (node_name (h ! d)) = Some v" "v < length (r_heap r)" "wire_of (r_heap r) v = wire_of h d"
    by (auto simp: same_data_def)
  have "wire_of (r_heap r') v = wire_of h d" "v < length (r_heap r')"
    using grown_wire [OF g(1) _ v(2)] grown_node [OF g(1) v(2)] g(2) v(3) by (simp_all add: registry_closed_def)
  then show ?thesis using v g(1) by (auto simp: same_data_def grown_def)
qed

lemma grown_delivered: "registry_closed r \<Longrightarrow> grown r r' \<Longrightarrow> delivered h r d \<Longrightarrow> delivered h r' d"
  using grown_resolvable [of r r'] grown_dom [of r r'] by (auto simp: delivered_def split: desc_node.splits)

lemma delivered_resolvable: "delivered h r d \<Longrightarrow> resolvable r (node_name (h ! d))"
  by (auto simp: delivered_def resolvable_def split: desc_node.splits)

lemma always_known_delivered:
  "receiver_ok h cfg c \<Longrightarrow> d < length h \<Longrightarrow> always_known h d \<Longrightarrow> delivered h (x_registry c) d"
  by (auto simp: receiver_ok_def Let_def delivered_def resolvable_def domIff split: desc_node.splits)

lemma vector_delivered:
  assumes "receiver_ok h cfg c" "sender_ok h rank" "d < length h" "h ! d = VectorNode name v" "delivered h (x_registry c) v"
  shows "delivered h (x_registry c) d"
proof (cases "user_node (h ! v)")
  case True
  let ?r = "x_registry c"
  have v: "v < length h" using assms(2-4) by (fastforce simp: sender_ok_def heap_closed_def dest: bspec [OF _ nth_mem])
  have name: "name = vector_name (node_name (h ! v))" using assms(2-4) by (fastforce simp: sender_ok_def)
  have "\<exists>w. r_types ?r (node_name (h ! v)) = Some w"
    using True assms(5) by (auto simp: delivered_def user_node_def is_struct_node_def is_enum_node_def split: desc_node.splits)
  then obtain w where w: "r_types ?r (node_name (h ! v)) = Some w" by blast
  then have "user_node (r_heap ?r ! w)"
    using True assms(1) v unfolding receiver_ok_def Let_def user_node_def by blast
  then show ?thesis using w name assms(4) by (auto simp: delivered_def resolvable_def)
next
  case False
  then have "always_known h d" using assms(4) by (simp add: always_known_def)
  then show ?thesis using always_known_delivered assms(1,3) by blast
qed

text \<open>The names that the descriptors of \<open>ds\<close> may add: theirs and those of vectors.\<close>

definition sent_names :: "desc_heap \<Rightarrow> nat list \<Rightarrow> string set" where
  "sent_names h ds = (\<lambda>d. node_name (h ! d)) ` {d. d < length h \<and> (d \<in> set ds \<or> \<not> exported_node (h ! d))}"

lemma sent_names_append [simp]: "sent_names h (ds @ es) = sent_names h ds \<union> sent_names h es"
  by (auto simp: sent_names_def)

text \<open>Importing the descriptors of \<open>ds\<close>.\<close>

definition takes_in :: "desc_heap \<Rightarrow> channel_config \<Rightarrow> channel \<Rightarrow> channel \<Rightarrow> nat list \<Rightarrow> bool" where
  "takes_in h cfg c c' ds \<longleftrightarrow>
     (let r = x_registry c; r' = x_registry c' in
      forA (importDependencies cfg) (List.map (wire_of h) ds) c = (c', Inr ())
      \<and> receiver_ok h cfg c' \<and> grown r r'
      \<and> dom (r_types r') \<subseteq> dom (r_types r) \<union> sent_names h ds
      \<and> (\<forall>d \<in> set ds. node_name (h ! d) \<notin> dom (r_types r) \<longrightarrow> same_data h r' d))"

lemma takes_in_refl: "receiver_ok h cfg c \<Longrightarrow> takes_in h cfg c c []"
  by (simp add: takes_in_def)

lemma forA_append: "forA f (xs @ ys) s = thenA (forA f xs s) (\<lambda>_. forA f ys)"
  by (induction xs arbitrary: s) (auto simp: thenA_def split: sum.split)

lemma node_name_inj:
  "sender_ok h rank \<Longrightarrow> d < length h \<Longrightarrow> e < length h \<Longrightarrow> node_name (h ! d) = node_name (h ! e) \<Longrightarrow> d = e"
  by (auto simp: sender_ok_def distinct_map distinct_conv_nth inj_on_def dest: nth_mem)

lemma takes_in_trans:
  assumes "takes_in h cfg c c1 ds" "takes_in h cfg c1 c2 es" "sender_ok h rank" "registry_closed (x_registry c)"
    and "set ds \<inter> set es = {}" "\<forall>e \<in> set es. e < length h \<and> exported_node (h ! e)"
  shows "takes_in h cfg c c2 (ds @ es)"
  unfolding takes_in_def Let_def
proof (intro conjI ballI impI)
  note 1 = assms(1) [unfolded takes_in_def Let_def] and 2 = assms(2) [unfolded takes_in_def Let_def]
  show "forA (importDependencies cfg) (List.map (wire_of h) (ds @ es)) c = (c2, Inr ())"
    using 1 2 by (simp add: forA_append)
  show "receiver_ok h cfg c2" using 2 by blast
  show "grown (x_registry c) (x_registry c2)" using 1 2 grown_trans by blast
  show "dom (r_types (x_registry c2)) \<subseteq> dom (r_types (x_registry c)) \<union> sent_names h (ds @ es)"
    unfolding sent_names_append using 1 2 by blast
  fix d assume d: "d \<in> set (ds @ es)" "node_name (h ! d) \<notin> dom (r_types (x_registry c))"
  have closed: "registry_closed (x_registry c1)" using 1 by (simp add: receiver_ok_def Let_def)
  show "same_data h (x_registry c2) d"
  proof (cases "d \<in> set ds")
    case True
    then show ?thesis using 1 2 d(2) grown_same_data [OF _ closed] by blast
  next
    case False
    then have e: "d \<in> set es" using d(1) by simp
    have "node_name (h ! d) \<noteq> node_name (h ! x)" if "x < length h" "x \<in> set ds \<or> \<not> exported_node (h ! x)" for x
      using that node_name_inj [OF assms(3), of d x] assms(6) e False by auto
    then have "node_name (h ! d) \<notin> dom (r_types (x_registry c1))" using 1 d(2) unfolding sent_names_def by blast
    then show ?thesis using 2 e by blast
  qed
qed


lemma receiver_grown:
  assumes "receiver_ok h cfg c" "registry_closed (x_registry c')" "grown (x_registry c) (x_registry c')"
    and "x_sharedTypeNames c' \<subseteq> insert name (x_sharedTypeNames c)" "name \<in> dom (r_types (x_registry c'))"
    and kinds: "\<And>d v. d < length h \<Longrightarrow> r_types (x_registry c) (node_name (h ! d)) = None \<Longrightarrow> r_types (x_registry c') (node_name (h ! d)) = Some v \<Longrightarrow>
      (is_struct_node (h ! d) \<longrightarrow> is_struct_node (r_heap (x_registry c') ! v)) \<and> (is_enum_node (h ! d) \<longrightarrow> is_enum_node (r_heap (x_registry c') ! v))"
  shows "receiver_ok h cfg c'"
  unfolding receiver_ok_def Let_def
proof (intro conjI allI impI)
  let ?r = "x_registry c" and ?r' = "x_registry c'"
  note ok = assms(1) [unfolded receiver_ok_def Let_def]
  note sub = grown_dom [OF assms(3)]
  show "registry_closed ?r'" by (rule assms(2))
  show "x_int32 cfg < length (r_heap ?r')" using ok grown_node [OF assms(3)] by blast
  have "name_at ?r' (x_int32 cfg) = name_at ?r (x_int32 cfg)" using ok grown_node [OF assms(3)] by (simp add: name_at_def)
  then show "name_at ?r' (x_int32 cfg) \<in> dom (r_types ?r')" using ok sub by auto
  show "x_sharedTypeNames c' \<subseteq> dom (r_types ?r')" using assms(4,5) ok sub by blast
  fix d assume d: "d < length h"
  show "node_name (h ! d) \<in> dom (r_types ?r')" if "always_known h d" using ok sub d that by blast
  fix v assume v: "r_types ?r' (node_name (h ! d)) = Some v"
  have both: "(is_struct_node (h ! d) \<longrightarrow> is_struct_node (r_heap ?r' ! v)) \<and> (is_enum_node (h ! d) \<longrightarrow> is_enum_node (r_heap ?r' ! v))"
  proof (cases "r_types ?r (node_name (h ! d))")
    case None
    then show ?thesis using kinds d v by blast
  next
    case (Some w)
    then have "w = v" using assms(3) v by (auto simp: grown_def)
    moreover have "w < length (r_heap ?r)" using ok Some registered_node by blast
    ultimately show ?thesis using ok d Some grown_node [OF assms(3), of w] by auto
  qed
  show "is_struct_node (h ! d) \<Longrightarrow> is_struct_node (r_heap ?r' ! v)" "is_enum_node (h ! d) \<Longrightarrow> is_enum_node (r_heap ?r' ! v)"
    using both by blast+
qed

lemma receiver_closed: "receiver_ok h cfg c \<Longrightarrow> registry_closed (x_registry c)"
  by (simp add: receiver_ok_def Let_def)

lemma known_sent:
  assumes "receiver_ok h cfg c" "d < length h" "node_name (h ! d) \<in> dom (r_types (x_registry c))"
    and import: "importDependencies cfg (wire_of h d) c = import_with (Some (node_name (h ! d))) convert c"
    and found: "\<And>v. r_types (x_registry c) (node_name (h ! d)) = Some v \<Longrightarrow> convert (x_registry c) = (x_registry c, Inr v)"
  shows "\<exists>c'. takes_in h cfg c c' [d] \<and> x_registry c' = x_registry c"
proof (cases "node_name (h ! d) \<in> x_sharedTypeNames c")
  case True
  then show ?thesis using assms by (intro exI [of _ c]) (simp add: takes_in_def import_with_def deref_def)
next
  case False
  obtain v where v: "r_types (x_registry c) (node_name (h ! d)) = Some v" using assms(3) by blast
  let ?c = "c\<lparr>x_sharedTypeNames := insert (node_name (h ! d)) (x_sharedTypeNames c),
      x_sharedTypeDescriptors := insert v (x_sharedTypeDescriptors c)\<rparr>"
  have "receiver_ok h cfg ?c"
    using receiver_grown [OF assms(1), of ?c "node_name (h ! d)"] receiver_closed [OF assms(1)] assms(3) by simp
  moreover have "importDependencies cfg (wire_of h d) c = (?c, Inr ())"
    using import False found [OF v] by (simp add: import_with_def deref_def)
  ultimately show ?thesis using assms(3) by (intro exI [of _ ?c]) (simp add: takes_in_def)
qed

lemma new_sent:
  assumes "receiver_ok h cfg c" "sender_ok h rank" "d < length h" "node_name (h ! d) \<notin> dom (r_types (x_registry c))"
    and import: "importDependencies cfg (wire_of h d) c = import_with (Some (node_name (h ! d))) convert c"
    and convert: "convert (x_registry c) = (r', Inr v)" "registry_closed r'" "grown (x_registry c) r'"
      "r_types r' (node_name (h ! d)) = Some v" "v < length (r_heap r')" "wire_of (r_heap r') v = wire_of h d" "exported_node (h ! d)"
    and new: "dom (r_types r') \<subseteq> insert (node_name (h ! d)) (dom (r_types (x_registry c)) \<union> {name. \<exists>e < length h. \<not> user_node (h ! e) \<and> name = node_name (h ! e)})"
  shows "\<exists>c'. takes_in h cfg c c' [d] \<and> x_registry c' = r'"
proof -
  let ?r = "x_registry c"
  let ?c = "c\<lparr>x_registry := r', x_sharedTypeNames := insert (node_name (h ! d)) (x_sharedTypeNames c),
      x_sharedTypeDescriptors := insert v (x_sharedTypeDescriptors c)\<rparr>"
  have fresh: "node_name (h ! d) \<notin> x_sharedTypeNames c" using assms(1,4) by (auto simp: receiver_ok_def Let_def)
  have same_kind: "(is_struct_node (r_heap r' ! v) \<longleftrightarrow> is_struct_node (h ! d)) \<and> (is_enum_node (r_heap r' ! v) \<longleftrightarrow> is_enum_node (h ! d))"
    using convert(6,7) by (auto simp: wire_of_def exported_node_def is_struct_node_def is_enum_node_def split: desc_node.splits)
  have "receiver_ok h cfg ?c"
  proof (rule receiver_grown [OF assms(1), where name = "node_name (h ! d)"])
    fix e w assume e: "e < length h" "r_types ?r (node_name (h ! e)) = None" "r_types (x_registry ?c) (node_name (h ! e)) = Some w"
    then have "node_name (h ! e) = node_name (h ! d) \<or> (\<exists>x < length h. \<not> user_node (h ! x) \<and> node_name (h ! e) = node_name (h ! x))"
      using new by (auto dest: domI)
    then have "e = d \<or> \<not> user_node (h ! e)" using node_name_inj [OF assms(2)] e(1) assms(3) by blast
    then show "(is_struct_node (h ! e) \<longrightarrow> is_struct_node (r_heap (x_registry ?c) ! w)) \<and> (is_enum_node (h ! e) \<longrightarrow> is_enum_node (r_heap (x_registry ?c) ! w))"
      using same_kind e(3) convert(4) by (auto simp: user_node_def)
  qed (use convert in auto)
  moreover have "importDependencies cfg (wire_of h d) c = (?c, Inr ())"
    using import fresh convert(1) by (simp add: import_with_def deref_def)
  moreover have "dom (r_types r') \<subseteq> dom (r_types ?r) \<union> sent_names h [d]"
  proof -
    have "\<not> exported_node (h ! e)" if "\<not> user_node (h ! e)" for e
      using that by (auto simp: exported_node_def user_node_def is_struct_node_def is_enum_node_def split: desc_node.splits)
    then have "{name. \<exists>e < length h. \<not> user_node (h ! e) \<and> name = node_name (h ! e)} \<subseteq> sent_names h [d]"
      by (auto simp: sent_names_def)
    moreover have "node_name (h ! d) \<in> sent_names h [d]" using assms(3) by (auto simp: sent_names_def)
    ultimately show ?thesis using new by blast
  qed
  moreover have "same_data h r' d" using convert by (auto simp: same_data_def)
  ultimately show ?thesis using convert(3) by (intro exI [of _ ?c]) (simp add: takes_in_def)
qed

lemma enum_sent:
  assumes "receiver_ok h cfg c" "sender_ok h rank" "d < length h" "h ! d = EnumNode name u es"
  shows "\<exists>c'. takes_in h cfg c c' [d] \<and> delivered h (x_registry c') d"
proof -
  let ?r = "x_registry c"
  have import: "importDependencies cfg (wire_of h d) c = import_with (Some (node_name (h ! d))) (enum_from_data (x_int32 cfg) (enum_to_data name es)) c"
    using assms(4) by (simp add: wire_of_def importDependencies_def enum_to_data_def)
  show ?thesis
  proof (cases "r_types ?r name")
    case None
    let ?n = "EnumNode name (x_int32 cfg) es"
    note new = enum_imported [OF receiver_closed [OF assms(1)] None, of "x_int32 cfg" es]
    have i: "x_int32 cfg < length (r_heap ?r)" "name_at ?r (x_int32 cfg) \<in> dom (r_types ?r)"
      using assms(1) by (auto simp: receiver_ok_def Let_def)
    have "\<exists>c'. takes_in h cfg c c' [d] \<and> x_registry c' = entered ?n ?r"
      by (rule new_sent [OF assms(1-3) _ import new(1) [OF i] new(2) [OF i]])
        (use None assms(4) grown_entered [of ?n ?r] in \<open>auto simp: wire_of_def exported_node_def\<close>)
    then show ?thesis using assms(4) by (auto simp: delivered_def)
  next
    case (Some v)
    have "v < length (r_heap ?r)" "is_enum_node (r_heap ?r ! v)"
      using registered_node [OF receiver_closed [OF assms(1)] Some] assms(1,3,4) Some
      by (auto simp: receiver_ok_def Let_def is_enum_node_def)
    then have found: "enum_from_data (x_int32 cfg) (enum_to_data name es) ?r = (?r, Inr v)"
      using Some by (simp add: enum_from_data_def enum_to_data_def deref_def findEnumType_def find_kind_def findType_def map_findType_def node_at_def)
    have "\<exists>c'. takes_in h cfg c c' [d] \<and> x_registry c' = ?r"
      by (rule known_sent [OF assms(1,3) _ import]) (use found Some assms(4) in auto)
    then show ?thesis using assms(4) Some by (auto simp: delivered_def)
  qed
qed

lemma struct_sent:
  assumes "receiver_ok h cfg c" "sender_ok h rank" "d < length h" "h ! d = StructNode name fl dyn ps" "\<not> internal_flags fl"
    and "\<forall>p \<in> set ps. delivered h (x_registry c) (prop_value p)"
  shows "\<exists>c'. takes_in h cfg c c' [d] \<and> delivered h (x_registry c') d"
proof -
  let ?r = "x_registry c"
  have closed: "heap_closed h" using assms(2) by (simp add: sender_ok_def)
  obtain m where m: "struct_to_data h name fl ps = Inr m" "wire_of h d = StructDescriptorData m"
    using struct_to_data_wire [OF closed assms(3,4)] by blast
  have name: "sdata_name m = Some name" using m(2) assms(4) by (auto simp: wire_of_def)
  have import: "importDependencies cfg (wire_of h d) c = import_with (Some (node_name (h ! d))) (struct_from_data m) c"
    using m(2) assms(4) name by (simp add: importDependencies_def)
  have inner: "prop_value p < length h" "node_name (h ! prop_value p) \<noteq> name" if "p \<in> set ps" for p
  proof -
    have v: "prop_value p \<in> set (value_descriptors (h ! d))" using that assms(4) by simp
    then show "prop_value p < length h" using heap_closed_value [OF closed assms(3)] by blast
    then show "node_name (h ! prop_value p) \<noteq> name"
      using node_name_inj [OF assms(2,3), of "prop_value p"] v assms(2,3,4) by (fastforce simp: sender_ok_def)
  qed
  show ?thesis
  proof (cases "r_types ?r name")
    case None
    have "ps \<noteq> []" using assms(2-5) by (fastforce simp: sender_ok_def)
    moreover have "\<forall>p \<in> set ps. resolvable ?r (node_name (h ! prop_value p)) \<and> node_name (h ! prop_value p) \<noteq> name"
      using delivered_resolvable assms(6) inner(2) by blast
    ultimately obtain r' v qs where r': "struct_from_data m ?r = (r', Inr v)" "registry_closed r'" "r_types r' name = Some v"
      "r_heap r' ! v = StructNode name (fl AND 63) True qs" "struct_to_data (r_heap r') name (fl AND 63) qs = Inr m" "grown ?r r'"
      "dom (r_types r') \<subseteq> insert name ((\<lambda>p. node_name (h ! prop_value p)) ` set ps \<union> dom (r_types ?r))"
      using struct_imported [OF receiver_closed [OF assms(1)] m(1) _ None] by blast
    have v: "v < length (r_heap r')" using registered_node [OF r'(2,3)] by simp
    have wire: "wire_of (r_heap r') v = wire_of h d"
      using struct_to_data_wire [OF _ v r'(4)] r'(2,5) m(2) by (simp add: registry_closed_def)
    have new: "dom (r_types r') \<subseteq> insert (node_name (h ! d)) (dom (r_types ?r) \<union> {name. \<exists>e < length h. \<not> user_node (h ! e) \<and> name = node_name (h ! e)})"
    proof -
      have "(\<lambda>p. node_name (h ! prop_value p)) ` set ps
          \<subseteq> dom (r_types ?r) \<union> {name. \<exists>e < length h. \<not> user_node (h ! e) \<and> name = node_name (h ! e)}"
      proof (rule image_subsetI)
        fix p assume p: "p \<in> set ps"
        then have "delivered h ?r (prop_value p)" using assms(6) by blast
        then have "node_name (h ! prop_value p) \<in> dom (r_types ?r) \<or> \<not> user_node (h ! prop_value p)"
          by (auto simp: delivered_def user_node_def is_struct_node_def is_enum_node_def split: desc_node.splits)
        then show "node_name (h ! prop_value p)
            \<in> dom (r_types ?r) \<union> {name. \<exists>e < length h. \<not> user_node (h ! e) \<and> name = node_name (h ! e)}"
          using inner(1) [OF p] by blast
      qed
      moreover have "node_name (h ! d) = name" using assms(4) by simp
      ultimately show ?thesis using r'(7) by blast
    qed
    have "\<exists>c'. takes_in h cfg c c' [d] \<and> x_registry c' = r'"
      by (rule new_sent [OF assms(1-3) _ import r'(1,2,6) _ v wire _ new])
        (use None assms(4,5) r'(3) in \<open>auto simp: exported_node_def\<close>)
    then show ?thesis using assms(4) r'(3) by (auto simp: delivered_def)
  next
    case (Some v)
    have "v < length (r_heap ?r)" "is_struct_node (r_heap ?r ! v)"
      using registered_node [OF receiver_closed [OF assms(1)] Some] assms(1,3,4) Some
      by (auto simp: receiver_ok_def Let_def is_struct_node_def)
    then have found: "struct_from_data m ?r = (?r, Inr v)"
      using Some name by (simp add: struct_from_data_def deref_def registry_findStructType_def find_kind_def findType_def map_findType_def node_at_def)
    have "\<exists>c'. takes_in h cfg c c' [d] \<and> x_registry c' = ?r"
      by (rule known_sent [OF assms(1,3) _ import]) (use found Some assms(4) in auto)
    then show ?thesis using assms(4) Some by (auto simp: delivered_def)
  qed
qed


text \<open>The steps of the sender: every exported descriptor that becomes shared is sent, once.\<close>

definition exports :: "desc_heap \<Rightarrow> channel \<Rightarrow> channel \<Rightarrow> nat list \<Rightarrow> bool" where
  "exports h c c' ds \<longleftrightarrow>
     x_registry c' = x_registry c \<and> x_sent c' = x_sent c @ List.map (wire_of h) ds \<and> distinct ds
     \<and> x_sharedTypeDescriptors c \<subseteq> x_sharedTypeDescriptors c'
     \<and> x_sharedTypeDescriptors c' - x_sharedTypeDescriptors c \<subseteq> {..<length h}
     \<and> set ds = {d \<in> x_sharedTypeDescriptors c' - x_sharedTypeDescriptors c. exported_node (h ! d)}"

definition hands_over :: "desc_heap \<Rightarrow> channel_config \<Rightarrow> channel \<times> channel \<Rightarrow> channel \<times> channel \<Rightarrow> nat list \<Rightarrow> bool" where
  "hands_over h cfg s s' ds \<longleftrightarrow>
     exports h (fst s) (fst s') ds \<and> takes_in h cfg (snd s) (snd s') ds
     \<and> (\<forall>d \<in> x_sharedTypeDescriptors (fst s') - x_sharedTypeDescriptors (fst s). delivered h (x_registry (snd s')) d)"

lemma hands_over_refl: "receiver_ok h cfg (snd s) \<Longrightarrow> hands_over h cfg s s []"
  by (simp add: hands_over_def exports_def takes_in_refl)

lemma exports_trans: "exports h c c1 ds \<Longrightarrow> exports h c1 c2 es \<Longrightarrow> exports h c c2 (ds @ es)"
  unfolding exports_def by (intro conjI) auto

lemma exports_disjoint:
  "exports h c c1 ds \<Longrightarrow> exports h c1 c2 es \<Longrightarrow> set ds \<inter> set es = {} \<and> (\<forall>e \<in> set es. e < length h \<and> exported_node (h ! e))"
  unfolding exports_def by auto

lemma takes_in_grown: "takes_in h cfg c c' ds \<Longrightarrow> grown (x_registry c) (x_registry c') \<and> receiver_ok h cfg c'"
  by (simp add: takes_in_def Let_def)

lemma hands_over_keeps:
  "hands_over h cfg s s' ds \<Longrightarrow> receiver_ok h cfg (snd s) \<Longrightarrow> delivered h (x_registry (snd s)) d \<Longrightarrow> delivered h (x_registry (snd s')) d"
  unfolding hands_over_def using takes_in_grown [of h cfg "snd s" "snd s'" ds] grown_delivered receiver_closed by blast

lemma hands_over_trans:
  assumes "sender_ok h rank" "receiver_ok h cfg (snd s)" "hands_over h cfg s s1 ds" "hands_over h cfg s1 s2 es"
  shows "hands_over h cfg s s2 (ds @ es)"
proof -
  note 1 = assms(3) [unfolded hands_over_def] and 2 = assms(4) [unfolded hands_over_def]
  have "exports h (fst s) (fst s2) (ds @ es)" using 1 2 exports_trans by blast
  moreover have "set ds \<inter> set es = {} \<and> (\<forall>e \<in> set es. e < length h \<and> exported_node (h ! e))"
    using 1 2 exports_disjoint by blast
  then have "takes_in h cfg (snd s) (snd s2) (ds @ es)"
    using 1 2 takes_in_trans [OF _ _ assms(1) receiver_closed [OF assms(2)]] by blast
  moreover have "receiver_ok h cfg (snd s1)" using 1 takes_in_grown by blast
  then have "\<forall>d \<in> x_sharedTypeDescriptors (fst s2) - x_sharedTypeDescriptors (fst s). delivered h (x_registry (snd s2)) d"
    using 1 2 hands_over_keeps [OF assms(4)] by blast
  ultimately show ?thesis by (simp add: hands_over_def)
qed

text \<open>Exporting several descriptors, when each of them can be exported as long as \<open>P\<close> holds.\<close>

definition hands :: "desc_heap \<Rightarrow> channel_config \<Rightarrow> (channel \<Rightarrow> channel \<times> unit result) \<Rightarrow> channel \<times> channel \<Rightarrow> nat set \<Rightarrow> bool" where
  "hands h cfg f s vs \<longleftrightarrow>
     (\<exists>c' c2' ds. f (fst s) = (c', Inr ()) \<and> hands_over h cfg s (c', c2') ds
        \<and> (\<forall>v \<in> vs. delivered h (x_registry c2') v \<and> v \<in> x_sharedTypeDescriptors c'))"

lemma hands_thenA:
  assumes "sender_ok h rank" "receiver_ok h cfg (snd s)" "hands h cfg f s vs"
    and "\<And>s' ds. hands_over h cfg s s' ds \<Longrightarrow> \<forall>v \<in> vs. delivered h (x_registry (snd s')) v \<and> v \<in> x_sharedTypeDescriptors (fst s') \<Longrightarrow> hands h cfg g s' ws"
  shows "hands h cfg (\<lambda>c. thenA (f c) (\<lambda>_. g)) s (vs \<union> ws)"
proof -
  obtain c1 c2 ds where 1: "f (fst s) = (c1, Inr ())" "hands_over h cfg s (c1, c2) ds"
    "\<forall>v \<in> vs. delivered h (x_registry c2) v \<and> v \<in> x_sharedTypeDescriptors c1"
    using assms(3) unfolding hands_def by blast
  have "hands h cfg g (c1, c2) ws" using assms(4) [OF 1(2)] 1(3) by simp
  then obtain c3 c4 es where 2: "g c1 = (c3, Inr ())" "hands_over h cfg (c1, c2) (c3, c4) es"
    "\<forall>v \<in> ws. delivered h (x_registry c4) v \<and> v \<in> x_sharedTypeDescriptors c3"
    unfolding hands_def by auto
  have "receiver_ok h cfg c2" using 1(2) takes_in_grown unfolding hands_over_def by auto
  then have "\<forall>v \<in> vs. delivered h (x_registry c4) v" using 1(3) hands_over_keeps [OF 2(2)] by simp
  moreover have "x_sharedTypeDescriptors c1 \<subseteq> x_sharedTypeDescriptors c3"
    using 2(2) by (simp add: hands_over_def exports_def)
  ultimately show ?thesis
    using 1 2 hands_over_trans [OF assms(1,2) 1(2) 2(2)]
    unfolding hands_def by (intro exI [of _ c3] exI [of _ c4] exI [of _ "ds @ es"]) auto
qed

lemma hands_forA:
  assumes "sender_ok h rank" and ok: "\<And>s. P s \<Longrightarrow> receiver_ok h cfg (snd s)"
    and step: "\<And>v s. v \<in> set vs \<Longrightarrow> P s \<Longrightarrow> hands h cfg (f v) s {v}"
    and keep: "\<And>s s' ds. P s \<Longrightarrow> hands_over h cfg s s' ds \<Longrightarrow> P s'"
  shows "P s \<Longrightarrow> hands h cfg (forA f vs) s (set vs)"
  using step
proof (induction vs arbitrary: s)
  case Nil
  then show ?case using hands_over_refl [OF ok] unfolding hands_def by (intro exI [of _ "fst s"] exI [of _ "snd s"] exI [of _ "[]"]) auto
next
  case (Cons v vs)
  have "hands h cfg (\<lambda>c. thenA (f v c) (\<lambda>_. forA f vs)) s ({v} \<union> set vs)"
  proof (rule hands_thenA [OF assms(1) ok [OF Cons.prems(1)]])
    show "hands h cfg (f v) s {v}" using Cons.prems by simp
    fix s' ds assume "hands_over h cfg s s' ds"
    then have "P s'" using keep Cons.prems(1) by blast
    then show "hands h cfg (forA f vs) s' (set vs)" using Cons.IH Cons.prems(2) by simp
  qed
  then show ?case by (simp add: hands_def)
qed


text \<open>What an export starts from: whatever is shared and below \<open>k\<close> has arrived, and the depth \<open>m\<close> is enough.\<close>

definition ready :: "desc_heap \<Rightarrow> (nat \<Rightarrow> nat) \<Rightarrow> channel_config \<Rightarrow> nat \<Rightarrow> nat \<Rightarrow> channel \<times> channel \<Rightarrow> bool" where
  "ready h rank cfg k m s \<longleftrightarrow>
     r_heap (x_registry (fst s)) = h \<and> receiver_ok h cfg (snd s)
     \<and> (\<forall>d \<in> x_sharedTypeDescriptors (fst s). rank d < k \<longrightarrow> delivered h (x_registry (snd s)) d)
     \<and> card ({..<length h} - x_sharedTypeDescriptors (fst s)) < m"

lemma ready_keep: "ready h rank cfg k m s \<Longrightarrow> hands_over h cfg s s' ds \<Longrightarrow> ready h rank cfg k m s'"
proof -
  assume s: "ready h rank cfg k m s" "hands_over h cfg s s' ds"
  then have sub: "x_sharedTypeDescriptors (fst s) \<subseteq> x_sharedTypeDescriptors (fst s')" "x_registry (fst s') = x_registry (fst s)"
    "receiver_ok h cfg (snd s')"
    using takes_in_grown by (auto simp: hands_over_def exports_def)
  have "card ({..<length h} - x_sharedTypeDescriptors (fst s')) \<le> card ({..<length h} - x_sharedTypeDescriptors (fst s))"
    using sub(1) by (intro card_mono) auto
  moreover have "\<forall>d \<in> x_sharedTypeDescriptors (fst s'). rank d < k \<longrightarrow> delivered h (x_registry (snd s')) d"
    using s hands_over_keeps [OF s(2)] unfolding ready_def hands_over_def by blast
  ultimately show ?thesis using s(1) sub by (simp add: ready_def)
qed

lemma ready_mark:
  assumes "ready h rank cfg k (Suc m) (c, c2)" "d < length h" "d \<notin> x_sharedTypeDescriptors c" "k' \<le> rank d" "k' \<le> k"
  shows "ready h rank cfg k' m (c\<lparr>x_sharedTypeDescriptors := insert d (x_sharedTypeDescriptors c)\<rparr>, c2)"
proof -
  have "{..<length h} - insert d (x_sharedTypeDescriptors c) \<subset> {..<length h} - x_sharedTypeDescriptors c"
    using assms(2,3) by auto
  then have "card ({..<length h} - insert d (x_sharedTypeDescriptors c)) < card ({..<length h} - x_sharedTypeDescriptors c)"
    by (simp add: psubset_card_mono)
  then show ?thesis using assms by (auto simp: ready_def)
qed

text \<open>The type of the descriptor data: an internal struct, which is not sent itself.\<close>

definition carrier :: "desc_heap \<Rightarrow> nat \<Rightarrow> bool" where
  "carrier h d \<longleftrightarrow> d < length h \<and> is_struct_node (h ! d) \<and> \<not> exported_node (h ! d)"

lemma mark_hands:
  assumes "d < length h" "\<not> exported_node (h ! d)" "delivered h (x_registry c2) d" "receiver_ok h cfg c2"
  shows "hands_over h cfg (c, c2) (c\<lparr>x_sharedTypeDescriptors := insert d (x_sharedTypeDescriptors c)\<rparr>, c2) []"
  using assms by (auto simp: hands_over_def exports_def takes_in_refl)

lemma carrier_hands:
  assumes "carrier h x" "ready h rank rcfg k n s"
  shows "hands h rcfg (exportDependencies cfg n x) s {x}"
proof -
  obtain m where n: "n = Suc m" using assms(2) by (cases n) (auto simp: ready_def)
  have x: "x < length h" "\<not> exported_node (h ! x)" using assms(1) by (simp_all add: carrier_def)
  obtain name fl dyn ps where node: "h ! x = StructNode name fl dyn ps" "internal_flags fl"
    using assms(1) by (auto simp: carrier_def exported_node_def is_struct_node_def split: desc_node.splits)
  have ok: "receiver_ok h rcfg (snd s)" and heap: "r_heap (x_registry (fst s)) = h" using assms(2) by (simp_all add: ready_def)
  have there: "delivered h (x_registry (snd s)) x"
    using always_known_delivered [OF ok x(1)] node by (simp add: always_known_def)
  show ?thesis
  proof (cases "x \<in> x_sharedTypeDescriptors (fst s)")
    case True
    then show ?thesis using there hands_over_refl [OF ok] unfolding hands_def n
      by (intro exI [of _ "fst s"] exI [of _ "snd s"] exI [of _ "[]"]) simp
  next
    case False
    let ?c = "(fst s)\<lparr>x_sharedTypeDescriptors := insert x (x_sharedTypeDescriptors (fst s))\<rparr>"
    have "exportDependencies cfg n x (fst s) = (?c, Inr ())"
      using False node x(1) heap by (simp add: n node_at_def)
    then show ?thesis using there mark_hands [OF x there ok, of "fst s"] unfolding hands_def
      by (intro exI [of _ ?c] exI [of _ "snd s"] exI [of _ "[]"]) simp
  qed
qed

lemma hands_over_marked:
  assumes "hands_over h cfg (c\<lparr>x_sharedTypeDescriptors := insert d (x_sharedTypeDescriptors c)\<rparr>, c2) (c3, c4) ds"
    and "d < length h" "d \<notin> x_sharedTypeDescriptors c" "\<not> exported_node (h ! d)" "delivered h (x_registry c4) d"
  shows "hands_over h cfg (c, c2) (c3, c4) ds"
  using assms unfolding hands_over_def exports_def by auto

lemma hands_over_sent:
  assumes over: "hands_over h cfg (c\<lparr>x_sharedTypeDescriptors := insert d (x_sharedTypeDescriptors c)\<rparr>, c2) (c3, c4) ds"
    and d: "d < length h" "d \<notin> x_sharedTypeDescriptors c" "exported_node (h ! d)"
    and last: "takes_in h cfg c4 c5 [d]" "delivered h (x_registry c5) d"
    and "sender_ok h rank" "receiver_ok h cfg c2"
  shows "hands_over h cfg (c, c2) (c3\<lparr>x_sent := x_sent c3 @ [wire_of h d]\<rparr>, c5) (ds @ [d])"
proof -
  note o = over [unfolded hands_over_def fst_conv snd_conv]
  have "exports h c (c3\<lparr>x_sent := x_sent c3 @ [wire_of h d]\<rparr>) (ds @ [d])"
    using o d unfolding exports_def by auto
  moreover have "set ds \<inter> set [d] = {}" using o unfolding exports_def by auto
  then have "takes_in h cfg c2 c5 (ds @ [d])"
    using takes_in_trans [OF _ last(1) assms(7) receiver_closed [OF assms(8)]] o d by auto
  moreover have "delivered h (x_registry c5) x" if "delivered h (x_registry c4) x" for x
    using that grown_delivered takes_in_grown [OF last(1)] receiver_closed takes_in_grown o by blast
  then have "\<forall>x \<in> x_sharedTypeDescriptors c3 - x_sharedTypeDescriptors c. delivered h (x_registry c5) x"
    using o last(2) by auto
  ultimately show ?thesis by (simp add: hands_over_def)
qed

lemma sender_values:
  assumes "sender_ok h rank" "d < length h" "v \<in> set (value_descriptors (h ! d))"
  shows "v < length h \<and> rank v < rank d"
  using assms heap_closed_value by (auto simp: sender_ok_def)


text \<open>The kinds of descriptors, each once what it refers to has been handed over.\<close>

abbreviation marked :: "nat \<Rightarrow> channel \<Rightarrow> channel" where
  "marked d c \<equiv> c\<lparr>x_sharedTypeDescriptors := insert d (x_sharedTypeDescriptors c)\<rparr>"

lemma marked_shared: "hands_over h cfg (marked d c, c2) (c3, c4) ds \<Longrightarrow> d \<in> x_sharedTypeDescriptors c3 \<and> receiver_ok h cfg c4"
  using takes_in_grown by (auto simp: hands_over_def exports_def)

lemma quiet_hands:
  assumes "always_known h d" "value_descriptors (h ! d) = [] \<or> is_struct_node (h ! d)" "d < length h" "receiver_ok h rcfg c2"
    and "r_heap (x_registry c) = h" "d \<notin> x_sharedTypeDescriptors c"
  shows "hands h rcfg (exportDependencies cfg (Suc n) d) (c, c2) {d}"
proof -
  have there: "delivered h (x_registry c2) d" using always_known_delivered assms(1,3,4) by blast
  have "exportDependencies cfg (Suc n) d c = (marked d c, Inr ())" "\<not> exported_node (h ! d)"
    using assms by (auto simp: node_at_def always_known_def exported_node_def is_struct_node_def split: desc_node.splits)
  then show ?thesis using mark_hands [OF assms(3) _ there assms(4), of c] there unfolding hands_def
    by (intro exI [of _ "marked d c"] exI [of _ c2] exI [of _ "[]"]) (simp del: exportDependencies.simps)
qed

lemma vector_hands:
  assumes "h ! d = VectorNode name v" "hands h rcfg (exportDependencies cfg n v) (marked d c, c2) {v}"
    and "sender_ok h rank" "d < length h" "r_heap (x_registry c) = h" "d \<notin> x_sharedTypeDescriptors c"
  shows "hands h rcfg (exportDependencies cfg (Suc n) d) (c, c2) {d}"
proof -
  obtain c3 c4 ds where v: "exportDependencies cfg n v (marked d c) = (c3, Inr ())" "hands_over h rcfg (marked d c, c2) (c3, c4) ds"
    "delivered h (x_registry c4) v"
    using assms(2) unfolding hands_def by auto
  have there: "delivered h (x_registry c4) d"
    using vector_delivered [OF _ assms(3,4,1) v(3)] marked_shared [OF v(2)] by blast
  have "exportDependencies cfg (Suc n) d c = (c3, Inr ())"
    using v(1) assms(1,4-6) by (simp add: node_at_def)
  moreover have "hands_over h rcfg (c, c2) (c3, c4) ds"
    using hands_over_marked [OF v(2) assms(4,6) _ there] assms(1) by (simp add: exported_node_def)
  ultimately show ?thesis using there marked_shared [OF v(2)] unfolding hands_def
    by (intro exI [of _ c3] exI [of _ c4] exI [of _ ds]) (simp del: exportDependencies.simps)
qed

lemma sent_hands:
  assumes "exportDependencies cfg (Suc n) d c = transmitImpl cfg (wire_of h d) c3" "\<And>i. x_fails cfg i = None"
    and over: "hands_over h rcfg (marked d c, c2) (c3, c4) ds" and got: "\<exists>c5. takes_in h rcfg c4 c5 [d] \<and> delivered h (x_registry c5) d"
    and ok: "sender_ok h rank" "receiver_ok h rcfg c2" and d: "d < length h" "d \<notin> x_sharedTypeDescriptors c" "exported_node (h ! d)"
  shows "hands h rcfg (exportDependencies cfg (Suc n) d) (c, c2) {d}"
proof -
  obtain c5 where c5: "takes_in h rcfg c4 c5 [d]" "delivered h (x_registry c5) d" using got by blast
  show ?thesis
    using hands_over_sent [OF over d c5 ok] marked_shared [OF over] c5(2) assms(1,2) unfolding hands_def
    by (intro exI [of _ "c3\<lparr>x_sent := x_sent c3 @ [wire_of h d]\<rparr>"] exI [of _ c5] exI [of _ "ds @ [d]"])
      (simp add: transmitImpl_def del: exportDependencies.simps)
qed

lemma enum_hands:
  assumes "h ! d = EnumNode name u es" "hands h rcfg (exportDependencies cfg n u) (marked d c, c2) {u}"
    and carrier: "\<And>s ds. hands_over h rcfg (marked d c, c2) s ds \<Longrightarrow> hands h rcfg (exportDependencies cfg n (x_enumData cfg)) s {x_enumData cfg}"
    and never: "\<And>i. x_fails cfg i = None"
    and ok: "sender_ok h rank" "receiver_ok h rcfg c2" "d < length h" "d \<notin> x_sharedTypeDescriptors c" "r_heap (x_registry c) = h"
  shows "hands h rcfg (exportDependencies cfg (Suc n) d) (c, c2) {d}"
proof -
  have "hands h rcfg (\<lambda>c. thenA (exportDependencies cfg n u c) (\<lambda>_. exportDependencies cfg n (x_enumData cfg))) (marked d c, c2)
      ({u} \<union> {x_enumData cfg})"
    by (rule hands_thenA [OF ok(1) _ assms(2)]) (use ok(2) carrier in auto)
  then obtain c3 c4 ds where c: "thenA (exportDependencies cfg n u (marked d c)) (\<lambda>_. exportDependencies cfg n (x_enumData cfg)) = (c3, Inr ())"
    "hands_over h rcfg (marked d c, c2) (c3, c4) ds"
    unfolding hands_def by auto
  have "exportDependencies cfg (Suc n) d c = transmitImpl cfg (wire_of h d) c3"
    using c(1) assms(1) ok(3-5) by (auto simp: node_at_def wire_of_def thenA_def split: sum.splits)
  then show ?thesis
    using sent_hands [OF _ never c(2) _ ok(1-4)] enum_sent [OF _ ok(1,3) assms(1), of rcfg c4] marked_shared [OF c(2)] assms(1)
    by (simp add: exported_node_def del: exportDependencies.simps)
qed

lemma struct_hands:
  assumes "h ! d = StructNode name fl dyn ps" "\<not> internal_flags fl"
    "hands h rcfg (forA (exportDependencies cfg n) (List.map prop_value ps)) (marked d c, c2) (set (List.map prop_value ps))"
    and carrier: "\<And>s ds. hands_over h rcfg (marked d c, c2) s ds \<Longrightarrow> hands h rcfg (exportDependencies cfg n (x_structData cfg)) s {x_structData cfg}"
    and never: "\<And>i. x_fails cfg i = None"
    and ok: "sender_ok h rank" "receiver_ok h rcfg c2" "d < length h" "d \<notin> x_sharedTypeDescriptors c" "r_heap (x_registry c) = h"
  shows "hands h rcfg (exportDependencies cfg (Suc n) d) (c, c2) {d}"
proof -
  obtain m where m: "struct_to_data h name fl ps = Inr m" "wire_of h d = StructDescriptorData m"
    using struct_to_data_wire [OF _ ok(3) assms(1)] ok(1) by (auto simp: sender_ok_def)
  obtain c3 c4 ds where c: "forA (exportDependencies cfg n) (List.map prop_value ps) (marked d c) = (c3, Inr ())"
    "hands_over h rcfg (marked d c, c2) (c3, c4) ds" "\<forall>v \<in> set (List.map prop_value ps). delivered h (x_registry c4) v"
    using assms(3) unfolding hands_def by auto
  obtain c5 c6 es where e: "exportDependencies cfg n (x_structData cfg) c3 = (c5, Inr ())" "hands_over h rcfg (c3, c4) (c5, c6) es"
    using carrier [OF c(2)] unfolding hands_def by auto
  have over: "hands_over h rcfg (marked d c, c2) (c5, c6) (ds @ es)"
    using hands_over_trans [OF ok(1) _ c(2) e(2)] ok(2) by simp
  have "\<forall>p \<in> set ps. delivered h (x_registry c6) (prop_value p)"
    using c(3) hands_over_keeps [OF e(2)] marked_shared [OF c(2)] by simp
  then have got: "\<exists>c7. takes_in h rcfg c6 c7 [d] \<and> delivered h (x_registry c7) d"
    using struct_sent [OF _ ok(1,3) assms(1,2)] marked_shared [OF over] by blast
  have "r_heap (x_registry c3) = h" using c(2) ok(5) by (simp add: hands_over_def exports_def)
  then have "exportDependencies cfg (Suc n) d c = transmitImpl cfg (wire_of h d) c5"
    using c(1) e(1) m assms(1,2) ok(3-5) by (simp add: node_at_def)
  then show ?thesis using sent_hands [OF _ never over got ok(1-4)] assms(1,2) by (simp add: exported_node_def del: exportDependencies.simps)
qed

lemma export_hands:
  assumes sender: "sender_ok h rank" and never: "\<And>i. x_fails cfg i = None"
    and carriers: "carrier h (x_structData cfg)" "carrier h (x_enumData cfg)"
  shows "ready h rank rcfg (Suc (rank d)) n (c, c2) \<Longrightarrow> d < length h \<Longrightarrow> hands h rcfg (exportDependencies cfg n d) (c, c2) {d}"
proof (induction n arbitrary: d c c2)
  case 0
  then show ?case by (simp add: ready_def)
next
  case (Suc n)
  have ok: "receiver_ok h rcfg c2" and heap: "r_heap (x_registry c) = h" using Suc.prems(1) by (simp_all add: ready_def)
  show ?case
  proof (cases "d \<in> x_sharedTypeDescriptors c")
    case True
    then have "delivered h (x_registry c2) d" using Suc.prems(1) by (simp add: ready_def)
    then show ?thesis using True hands_over_refl [of h rcfg "(c, c2)"] ok unfolding hands_def
      by (intro exI [of _ c] exI [of _ c2] exI [of _ "[]"]) simp
  next
    case False
    have marked: "ready h rank rcfg (rank d) n (marked d c, c2)" using ready_mark [OF Suc.prems(1,2) False] by simp
    have one: "hands h rcfg (exportDependencies cfg n v) s {v}"
      if "v \<in> set (value_descriptors (h ! d))" "ready h rank rcfg (rank d) n s" for v s
    proof -
      have v: "v < length h" "rank v < rank d" using sender_values [OF sender Suc.prems(2) that(1)] by simp_all
      then have "ready h rank rcfg (Suc (rank v)) n (fst s, snd s)" using that(2) by (auto simp: ready_def)
      then show ?thesis using Suc.IH [of v "fst s" "snd s"] v(1) by simp
    qed
    have all: "hands h rcfg (forA (exportDependencies cfg n) (value_descriptors (h ! d))) (marked d c, c2) (set (value_descriptors (h ! d)))"
      by (rule hands_forA [where P = "ready h rank rcfg (rank d) n", OF sender _ one ready_keep marked]) (simp_all add: ready_def)
    note carrier = carrier_hands [OF carriers(1) ready_keep [OF marked]] carrier_hands [OF carriers(2) ready_keep [OF marked]]
    note rest = never sender ok Suc.prems(2) False heap
    show ?thesis
    proof (cases "h ! d")
      case (FundNode name)
      then show ?thesis using quiet_hands [OF _ _ Suc.prems(2) ok heap False] by (simp add: always_known_def del: exportDependencies.simps)
    next
      case (VectorNode name v)
      then show ?thesis using vector_hands [OF VectorNode one [OF _ marked] sender Suc.prems(2) heap False]
        by (simp del: exportDependencies.simps)
    next
      case (EnumNode name u es)
      then show ?thesis using enum_hands [OF EnumNode one [OF _ marked] carrier(2) rest]
        by (simp del: exportDependencies.simps)
    next
      case (StructNode name fl dyn ps)
      show ?thesis
      proof (cases "internal_flags fl")
        case True
        then show ?thesis using quiet_hands [OF _ _ Suc.prems(2) ok heap False] StructNode
          by (simp add: always_known_def is_struct_node_def del: exportDependencies.simps)
      next
        case False
        show ?thesis using struct_hands [OF StructNode False _ carrier(1) rest] all StructNode
          by (simp del: exportDependencies.simps)
      qed
    qed
  qed
qed


text \<open>C34: Transmitting a descriptor over a channel that does not fail sends the data of every enum and
  user struct it depends on that the channel has not shared yet, each once, and a receiver
  that imports them in this order, knowing the types that are never sent, succeeds: it knows
  the type then, and each type that was new to it has the data it was sent with. The types of
  the sender are free of cycles and have distinct names, and every user struct has at least
  one property: one without makes the receiver dereference a null pointer.\<close>

theorem exported_types_arrive:
  assumes "sender_ok (r_heap (x_registry c)) rank" "\<And>i. x_fails cfg i = None" "d < length (r_heap (x_registry c))"
    and "carrier (r_heap (x_registry c)) (x_structData cfg)" "carrier (r_heap (x_registry c)) (x_enumData cfg)"
    and "receiver_ok (r_heap (x_registry c)) rcfg c2"
    and "\<forall>x \<in> x_sharedTypeDescriptors c. delivered (r_heap (x_registry c)) (x_registry c2) x"
  shows "\<exists>c' c2' ds. channel_transmit_descriptor cfg d c = (c', Inr ())
    \<and> x_sent c' = x_sent c @ List.map (wire_of (r_heap (x_registry c))) ds \<and> distinct ds
    \<and> set ds = {x \<in> x_sharedTypeDescriptors c' - x_sharedTypeDescriptors c. exported_node (r_heap (x_registry c) ! x)}
    \<and> forA (importDependencies rcfg) (List.map (wire_of (r_heap (x_registry c))) ds) c2 = (c2', Inr ())
    \<and> delivered (r_heap (x_registry c)) (x_registry c2') d
    \<and> (\<forall>x \<in> set ds. node_name (r_heap (x_registry c) ! x) \<notin> dom (r_types (x_registry c2)) \<longrightarrow>
         same_data (r_heap (x_registry c)) (x_registry c2') x)"
proof -
  let ?h = "r_heap (x_registry c)"
  have "card ({..<length ?h} - x_sharedTypeDescriptors c) \<le> card {..<length ?h}" by (rule card_mono) auto
  then have "ready ?h rank rcfg (Suc (rank d)) (channel_depth c) (c, c2)"
    using assms(6,7) by (simp add: ready_def channel_depth_def)
  then have "hands ?h rcfg (exportDependencies cfg (channel_depth c) d) (c, c2) {d}"
    by (rule export_hands [OF assms(1,2,4,5)]) (rule assms(3))
  then obtain c' c2' ds where h: "exportDependencies cfg (channel_depth c) d c = (c', Inr ())"
    "hands_over ?h rcfg (c, c2) (c', c2') ds" "delivered ?h (x_registry c2') d"
    unfolding hands_def by auto
  then show ?thesis
    unfolding channel_transmit_descriptor_def hands_over_def exports_def takes_in_def Let_def fst_conv snd_conv by blast
qed

definition sending_heap :: desc_heap where
  "sending_heap = [FundNode ''int32'', EnumNode ''Colour'' 0 [EnumeratorDescriptor 1 ''red'' 7], VectorNode ''vector<Colour>'' 1,
     StructNode ''Thing'' 1 True [\<lparr>prop_name = ''colours'', prop_tag = 1, prop_isKey = False, prop_value = 2\<rparr>],
     StructNode ''StructDescriptorData'' 2 False [], StructNode ''EnumDescriptorData'' 2 False []]"

definition receiving_registry :: registry where
  "receiving_registry =
     \<lparr>r_heap = [FundNode ''int32'', StructNode ''StructDescriptorData'' 2 False [], StructNode ''EnumDescriptorData'' 2 False []],
      r_types = [''int32'' \<mapsto> 0, ''StructDescriptorData'' \<mapsto> 1, ''EnumDescriptorData'' \<mapsto> 2], r_notified = []\<rparr>"

definition fresh_channel :: "registry \<Rightarrow> channel" where
  "fresh_channel r = \<lparr>x_registry = r, x_sharedTypeDescriptors = {}, x_sharedTypeNames = {}, x_sent = []\<rparr>"

definition sending_config :: channel_config where
  "sending_config = \<lparr>x_int32 = 0, x_structData = 4, x_enumData = 5, x_fails = (\<lambda>_. None)\<rparr>"

lemma exported_types_arrive_witness:
  "\<exists>c' c2' ds. channel_transmit_descriptor sending_config 3
      (fresh_channel \<lparr>r_heap = sending_heap, r_types = Map.empty, r_notified = []\<rparr>) = (c', Inr ())
    \<and> forA (importDependencies sending_config) (x_sent c') (fresh_channel receiving_registry) = (c2', Inr ())
    \<and> ''Thing'' \<in> dom (r_types (x_registry c2'))"
proof -
  let ?c = "fresh_channel \<lparr>r_heap = sending_heap, r_types = Map.empty, r_notified = []\<rparr>"
  have h: "r_heap (x_registry ?c) = sending_heap" by (simp add: fresh_channel_def)
  have sender: "sender_ok sending_heap id"
    by (simp add: sender_ok_def heap_closed_def sending_heap_def All_less_Suc vector_name_def
        internal_flags_def internal_def Flag_Internal_def)
  have carriers: "carrier sending_heap 4" "carrier sending_heap 5"
    by (simp_all add: carrier_def sending_heap_def is_struct_node_def exported_node_def internal_flags_def internal_def Flag_Internal_def)
  have receiver: "receiver_ok sending_heap sending_config (fresh_channel receiving_registry)"
    by (simp add: receiver_ok_def fresh_channel_def receiving_registry_def sending_config_def registry_closed_def heap_closed_def
        name_at_def sending_heap_def All_less_Suc always_known_def user_node_def is_struct_node_def is_enum_node_def
        internal_flags_def internal_def Flag_Internal_def)
  show ?thesis
    using exported_types_arrive [of ?c id sending_config 3 sending_config "fresh_channel receiving_registry"] sender carriers receiver
    unfolding h by (simp add: sending_config_def delivered_def) (auto simp: fresh_channel_def sending_heap_def)
qed

section \<open>Imports that go wrong\<close>

text \<open>A struct with no properties is sent like any other, but a receiver that does not know it reads through a null pointer.\<close>

text \<open>A user struct without properties is turned into data like any other, but a receiver that
  does not know it dereferences a null pointer to the last property.\<close>

theorem empty_struct_breaks_receiver:
  assumes "r_heap (x_registry c) ! d = StructNode name fl dyn []" "d < length (r_heap (x_registry c))" "\<not> internal_flags fl"
    and "name \<notin> x_sharedTypeNames c2" "r_types (x_registry c2) name = None"
  shows "\<exists>m. struct_to_data (r_heap (x_registry c)) name fl [] = Inr m \<and> wire_of (r_heap (x_registry c)) d = StructDescriptorData m
    \<and> snd (importDependencies rcfg (StructDescriptorData m) c2) = Inl (UndefinedBehaviour ''null property descriptor'')"
  using assms
  by (simp add: struct_to_data_def wire_of_def importDependencies_def import_with_def deref_def struct_from_data_def
      registry_findStructType_def find_kind_def findType_def map_findType_def)

text \<open>An import that fails has already noted the name: the same data are then taken for known.\<close>

theorem failed_import_counts_as_shared:
  assumes "importDependencies cfg (StructDescriptorData m) c = (c', Inl e)" "sdata_name m = Some name"
  shows "name \<notin> x_sharedTypeNames c \<and> name \<in> x_sharedTypeNames c' \<and> importDependencies cfg (StructDescriptorData m) c' = (c', Inr ())
    \<and> x_sharedTypeDescriptors c' = x_sharedTypeDescriptors c"
  using assms by (auto simp: importDependencies_def import_with_def deref_def Let_def split: if_splits prod.splits sum.splits)


section \<open>The properties at concrete inputs\<close>

lemma receiving_registry_closed: "registry_closed receiving_registry"
  by (simp add: registry_closed_def heap_closed_def receiving_registry_def name_at_def)

lemma struct_data_roundtrip_witness:
  "\<exists>m r' d qs. struct_from_data m receiving_registry = (r', Inr d) \<and> r_types r' ''Point'' = Some d
    \<and> r_heap r' ! d = StructNode ''Point'' 9 True qs \<and> struct_to_data (r_heap r') ''Point'' 9 qs = Inr m"
proof -
  let ?ps = "[\<lparr>prop_name = ''x'', prop_tag = 1, prop_isKey = True, prop_value = 0\<rparr>]"
  obtain m where m: "struct_to_data sending_heap ''Point'' 9 ?ps = Inr m"
    by (auto simp: struct_to_data_def property_to_data_def node_at_def sending_heap_def)
  show ?thesis
    using struct_data_roundtrip [OF receiving_registry_closed m]
    by (auto simp: resolvable_def receiving_registry_def sending_heap_def)
qed

lemma empty_struct_breaks_receiver_witness:
  "\<exists>m. struct_to_data [StructNode ''Ping'' 0 True []] ''Ping'' 0 [] = Inr m
    \<and> snd (importDependencies sending_config (StructDescriptorData m) (fresh_channel receiving_registry))
      = Inl (UndefinedBehaviour ''null property descriptor'')"
  using empty_struct_breaks_receiver [of "fresh_channel \<lparr>r_heap = [StructNode ''Ping'' 0 True []], r_types = Map.empty, r_notified = []\<rparr>"
      0 "''Ping''" 0 True "fresh_channel receiving_registry" sending_config]
  by (auto simp: fresh_channel_def receiving_registry_def internal_flags_def internal_def Flag_Internal_def)

end
