(* ===== verification/Text_Format.thy ===== *)
theory Text_Format
  imports Text_Numbers
begin

unbundle bit_operations_syntax

text \<open>
  The text formats and their writer and reader (\<open>TextFormat.h\<close>, \<open>StringFormat.h\<close>, \<open>JsonFormat.h\<close>,
  \<open>TextWriter.h\<close>, \<open>TextReader.h\<close>, \<open>tools/string_tools.h\<close>). A format is a class of constants that the
  templates take as a parameter, here a record; \<open>if constexpr\<close> on such a constant is a case distinction.
  The writer appends to its output, the reader consumes its input; both keep the stack of the arrays and
  objects they are in, where the flag says that the first element is still to come. Text is a list of
  characters, and \<open>char\<close> is signed, as it is on x86.
\<close>

section \<open>Formats and options\<close>

datatype object_format = WithoutTypeName | WithTypeName
datatype integer_format = WithoutSignSuffix | WithSignSuffix
datatype float_format = WithoutSizeSuffix | WithSizeSuffix
datatype boolean_format = BooleanInteger | BooleanLiteral | BooleanString

record text_format =
  ObjectBegin :: string
  ObjectEnd :: string
  ObjectMemberNameBegin :: string
  ObjectMemberNameEnd :: string
  ObjectMemberValueBegin :: string
  ObjectMemberValueEnd :: string
  ArrayBegin :: string
  ArrayElementSeparator :: string
  ArrayEnd :: string
  NullValue :: string
  ObjectFormat :: object_format
  IntegerFormat :: integer_format
  FloatFormat :: float_format
  BooleanFormat :: boolean_format

definition StringFormat :: text_format where
  "StringFormat =
     \<lparr>ObjectBegin = ''{'', ObjectEnd = ''}'',
      ObjectMemberNameBegin = ''.'', ObjectMemberNameEnd = '''',
      ObjectMemberValueBegin = ''='', ObjectMemberValueEnd = '','',
      ArrayBegin = ''{'', ArrayElementSeparator = '','', ArrayEnd = ''}'',
      NullValue = ''<invalid>'',
      ObjectFormat = WithTypeName, IntegerFormat = WithSignSuffix,
      FloatFormat = WithSizeSuffix, BooleanFormat = BooleanLiteral\<rparr>"

definition JsonFormat :: text_format where
  "JsonFormat =
     \<lparr>ObjectBegin = ''{'', ObjectEnd = ''}'',
      ObjectMemberNameBegin = ''\"'', ObjectMemberNameEnd = ''\":'',
      ObjectMemberValueBegin = '''', ObjectMemberValueEnd = '','',
      ArrayBegin = ''['', ArrayElementSeparator = '','', ArrayEnd = '']'',
      NullValue = ''null'',
      ObjectFormat = WithoutTypeName, IntegerFormat = WithoutSignSuffix,
      FloatFormat = WithoutSizeSuffix, BooleanFormat = BooleanLiteral\<rparr>"

text \<open>The constants of the base class \<open>TextFormat\<close>.\<close>

definition StringEscapeMapping :: "(string \<times> string) list" where
  "StringEscapeMapping =
     [(''\"'', [CHR 0x5C, CHR 0x22]), ([CHR 0x5C], [CHR 0x5C, CHR 0x5C]), (''/'', [CHR 0x5C, CHR 0x2F]),
      ([CHR 0x08], [CHR 0x5C, CHR ''b'']), ([CHR 0x0C], [CHR 0x5C, CHR ''f'']),
      ([CHR 0x0A], [CHR 0x5C, CHR ''n'']), ([CHR 0x0D], [CHR 0x5C, CHR ''r'']),
      ([CHR 0x09], [CHR 0x5C, CHR ''t''])]"

definition StringDelimiter :: string where "StringDelimiter = ''\"''"
definition StringEscape :: string where "StringEscape = [CHR 0x5C]"

datatype text_policy = Relaxed | Strict
datatype text_style = Minified | SingleLine | MultiLine

record text_options =
  style :: text_style
  policy :: text_policy
  indentSize :: nat

definition TextOptions_default :: text_options where
  "TextOptions_default = \<lparr>style = SingleLine, policy = Relaxed, indentSize = 4\<rparr>"

datatype text_state = InArray | InObject

type_synonym nesting = "(text_state \<times> bool) list"

text \<open>\<open>tools::starts_with\<close>.\<close>

fun starts_with :: "string \<Rightarrow> string \<Rightarrow> bool" where
  "starts_with s [] = True"
| "starts_with [] (p # ps) = False"
| "starts_with (c # cs) (p # ps) = (c = p \<and> starts_with cs ps)"

section \<open>The writer\<close>

record text_writer =
  tw_output :: string
  tw_nesting :: nesting

definition append_text :: "string \<Rightarrow> text_writer \<Rightarrow> text_writer" where
  "append_text s w = w\<lparr>tw_output := tw_output w @ s\<rparr>"

definition appendNewLine :: "text_options \<Rightarrow> nat \<Rightarrow> text_writer \<Rightarrow> text_writer" where
  "appendNewLine opt level w =
     (case style opt of
        MultiLine \<Rightarrow> append_text (replicate (level * indentSize opt) CHR '' '') (append_text [CHR 0x0A] w)
      | SingleLine \<Rightarrow> append_text '' '' w
      | Minified \<Rightarrow> w)"

definition appendPrefixedNewLine :: "text_options \<Rightarrow> nat \<Rightarrow> string \<Rightarrow> text_writer \<Rightarrow> text_writer" where
  "appendPrefixedNewLine opt level pre w = appendNewLine opt level (append_text pre w)"

definition appendSuffixedNewLine :: "text_options \<Rightarrow> nat \<Rightarrow> string \<Rightarrow> text_writer \<Rightarrow> text_writer" where
  "appendSuffixedNewLine opt level suf w = append_text suf (appendNewLine opt level w)"

text \<open>What separates the elements of an array is written before each element.\<close>

definition initiateWrite :: "text_format \<Rightarrow> text_options \<Rightarrow> text_writer \<Rightarrow> text_writer" where
  "initiateWrite F opt w =
     (case tw_nesting w of
        (InArray, first) # outer \<Rightarrow>
          if first
          then (appendNewLine opt (length (tw_nesting w)) w)\<lparr>tw_nesting := (InArray, False) # outer\<rparr>
          else appendPrefixedNewLine opt (length (tw_nesting w)) (ArrayElementSeparator F) w
      | _ \<Rightarrow> w)"

definition tw_writeString :: "text_format \<Rightarrow> text_options \<Rightarrow> string \<Rightarrow> text_writer \<Rightarrow> text_writer" where
  "tw_writeString F opt s w = append_text s (initiateWrite F opt w)"

definition tw_push :: "text_state \<Rightarrow> text_writer \<Rightarrow> text_writer" where
  "tw_push t w = w\<lparr>tw_nesting := (t, True) # tw_nesting w\<rparr>"

definition tw_pop :: "text_writer \<Rightarrow> text_writer result" where
  "tw_pop w =
     (case tw_nesting w of
        [] \<Rightarrow> Inl (UndefinedBehaviour ''pop of an empty stack'')
      | _ # outer \<Rightarrow> Inr (w\<lparr>tw_nesting := outer\<rparr>))"

definition tw_writeArrayBegin :: "text_format \<Rightarrow> text_options \<Rightarrow> text_writer \<Rightarrow> text_writer" where
  "tw_writeArrayBegin F opt w = tw_push InArray (tw_writeString F opt (ArrayBegin F) w)"

definition tw_writeArrayEnd :: "text_format \<Rightarrow> text_options \<Rightarrow> text_writer \<Rightarrow> text_writer result" where
  "tw_writeArrayEnd F opt w =
     bindE (tw_pop w) (\<lambda>w. Inr (appendSuffixedNewLine opt (length (tw_nesting w)) (ArrayEnd F) w))"

text \<open>The overload without and the one with the name of the type.\<close>

definition writeObjectBegin :: "text_format \<Rightarrow> text_options \<Rightarrow> text_writer \<Rightarrow> text_writer" where
  "writeObjectBegin F opt w = tw_push InObject (tw_writeString F opt (ObjectBegin F) w)"

definition writeNamedObjectBegin :: "text_format \<Rightarrow> text_options \<Rightarrow> string \<Rightarrow> text_writer \<Rightarrow> text_writer" where
  "writeNamedObjectBegin F opt name w =
     writeObjectBegin F opt
       (case ObjectFormat F of
          WithTypeName \<Rightarrow>
            (case style opt of
               SingleLine \<Rightarrow> if tw_nesting w = [] then tw_writeString F opt name w else w
             | MultiLine \<Rightarrow> tw_writeString F opt name w
             | Minified \<Rightarrow> w)
        | WithoutTypeName \<Rightarrow> w)"

definition writeObjectEnd :: "text_format \<Rightarrow> text_options \<Rightarrow> text_writer \<Rightarrow> text_writer result" where
  "writeObjectEnd F opt w =
     bindE (tw_pop w) (\<lambda>w. Inr (appendSuffixedNewLine opt (length (tw_nesting w)) (ObjectEnd F) w))"

definition writeObjectMemberName :: "text_format \<Rightarrow> text_options \<Rightarrow> string \<Rightarrow> text_writer \<Rightarrow> text_writer result" where
  "writeObjectMemberName F opt name w =
     (case tw_nesting w of
        [] \<Rightarrow> Inl (UndefinedBehaviour ''top of an empty stack'')
      | (t, first) # outer \<Rightarrow>
          let w1 = (if first
                    then (appendNewLine opt (length (tw_nesting w)) w)\<lparr>tw_nesting := (t, False) # outer\<rparr>
                    else appendPrefixedNewLine opt (length (tw_nesting w)) (ObjectMemberValueEnd F) w);
              w2 = append_text name (append_text (ObjectMemberNameBegin F) w1);
              w3 = (if ObjectMemberNameEnd F \<noteq> [] then append_text (ObjectMemberNameEnd F) w2 else w2) in
          Inr (if ObjectMemberValueBegin F \<noteq> []
               then (if style opt = Minified then append_text (ObjectMemberValueBegin F) w3
                     else append_text '' '' (append_text (ObjectMemberValueBegin F) (append_text '' '' w3)))
               else if style opt \<noteq> Minified then append_text '' '' w3 else w3))"

definition writeNull :: "text_format \<Rightarrow> text_options \<Rightarrow> text_writer \<Rightarrow> text_writer" where
  "writeNull F opt w = append_text (NullValue F) (initiateWrite F opt w)"

text \<open>The overloads of \<open>write\<close>: an integer by its value and whether its type is unsigned, and a boolean.\<close>

definition show_int_base :: "nat \<Rightarrow> int \<Rightarrow> string" where
  "show_int_base b i = (if i < 0 then ''-'' else '''') @ show_base b (nat \<bar>i\<bar>)"

definition tw_write_int :: "text_format \<Rightarrow> text_options \<Rightarrow> bool \<Rightarrow> int \<Rightarrow> nat \<Rightarrow> text_writer \<Rightarrow> text_writer" where
  "tw_write_int F opt is_unsigned i base w =
     (let w1 = initiateWrite F opt w;
          w2 = (if base = 2 then append_text ''0b'' w1 else if base = 16 then append_text ''0x'' w1 else w1);
          w3 = append_text (show_int_base base i) w2 in
      if IntegerFormat F = WithSignSuffix \<and> is_unsigned \<and> tw_nesting w3 \<noteq> [] \<and> style opt \<noteq> Minified
      then append_text ''u'' w3 else w3)"

definition writeQuotedString :: "text_format \<Rightarrow> text_options \<Rightarrow> string \<Rightarrow> text_writer \<Rightarrow> text_writer" where
  "writeQuotedString F opt s w =
     (let w = initiateWrite F opt w in
      if tw_nesting w = [] then append_text s w
      else append_text StringDelimiter (append_text s (append_text StringDelimiter w)))"

definition tw_write_bool :: "text_format \<Rightarrow> text_options \<Rightarrow> bool \<Rightarrow> text_writer \<Rightarrow> text_writer" where
  "tw_write_bool F opt b w =
     (case BooleanFormat F of
        BooleanInteger \<Rightarrow> tw_write_int F opt True (if b then 1 else 0) 10 w
      | BooleanLiteral \<Rightarrow> tw_writeString F opt (if b then ''true'' else ''false'') w
      | BooleanString \<Rightarrow> writeQuotedString F opt (if b then ''true'' else ''false'') w)"

text \<open>A floating-point number by its text, which \<open>Text_Floats\<close> gives, and whether it is a \<open>float\<close>.\<close>

definition tw_write_float :: "text_format \<Rightarrow> text_options \<Rightarrow> bool \<Rightarrow> string \<Rightarrow> text_writer \<Rightarrow> text_writer" where
  "tw_write_float F opt is_float s w =
     (let w1 = append_text s (initiateWrite F opt w) in
      if FloatFormat F = WithSizeSuffix \<and> is_float \<and> tw_nesting w1 \<noteq> [] \<and> style opt \<noteq> Minified
      then append_text ''f'' w1 else w1)"

text \<open>\<open>writeIdentifierString\<close> with a prefix, a separator and the identifier.\<close>

definition writeIdentifierString ::
    "text_format \<Rightarrow> text_options \<Rightarrow> string \<Rightarrow> string \<Rightarrow> string \<Rightarrow> text_writer \<Rightarrow> text_writer" where
  "writeIdentifierString F opt pre sep ident w =
     (let w = initiateWrite F opt w in
      if ObjectFormat F = WithTypeName \<and> tw_nesting w \<noteq> [] \<and> style opt = MultiLine
      then append_text ident (append_text sep (append_text pre w))
      else append_text ident w)"

text \<open>The loop over the string to escape; every \<open>from\<close> of the mapping is one character.\<close>

fun escape_text :: "string \<Rightarrow> string" where
  "escape_text [] = []"
| "escape_text (c # cs) =
     (case find (\<lambda>(from, to). starts_with (c # cs) from) StringEscapeMapping of
        None \<Rightarrow> c # escape_text cs
      | Some (from, to) \<Rightarrow> to @ escape_text (drop (length from - 1) cs))"

definition writeEscapedString :: "text_format \<Rightarrow> text_options \<Rightarrow> string \<Rightarrow> text_writer \<Rightarrow> text_writer" where
  "writeEscapedString F opt s w =
     (let w = initiateWrite F opt w in
      if tw_nesting w = [] then append_text s w
      else append_text StringDelimiter (append_text (escape_text s) (append_text StringDelimiter w)))"

end
