(* ===== verification/Text_Floats.thy ===== *)
theory Text_Floats
  imports Text_Numbers
begin

text \<open>
  Floating-point numbers as text: what \<open>operator <<\<close> of a stream with \<open>std::setprecision\<close> writes (the
  conversion \<open>%g\<close> of the C library) and what \<open>std::strtof\<close> and \<open>std::strtod\<close> read, in the locale "C" and
  with rounding to nearest, ties to even. A finite value is a sign and the quotient of two naturals, so that
  both directions are integer arithmetic and exact.
\<close>

section \<open>Representation\<close>

text \<open>Number of mantissa bits, exponent bias and the exponent of infinities of the two types.\<close>

record float_kind =
  mantissa_bits :: nat
  exp_bias :: nat
  exp_max :: nat

definition binary32 :: float_kind where
  "binary32 = \<lparr>mantissa_bits = 23, exp_bias = 127, exp_max = 255\<rparr>"

definition binary64 :: float_kind where
  "binary64 = \<lparr>mantissa_bits = 52, exp_bias = 1023, exp_max = 2047\<rparr>"

datatype float_class = FNan bool | FInf bool | FFinite bool nat nat

text \<open>The bits of a value below its sign are its exponent and its mantissa.\<close>

definition classify :: "float_kind \<Rightarrow> bool \<Rightarrow> nat \<Rightarrow> float_class" where
  "classify k neg bits =
     (let e = bits div 2 ^ mantissa_bits k; m = bits mod 2 ^ mantissa_bits k;
          low = exp_bias k + mantissa_bits k - 1 in
      if e = exp_max k then (if m = 0 then FInf neg else FNan neg)
      else if e = 0 then FFinite neg m (2 ^ low)
      else if e - 1 \<le> low then FFinite neg (m + 2 ^ mantissa_bits k) (2 ^ (low - (e - 1)))
      else FFinite neg ((m + 2 ^ mantissa_bits k) * 2 ^ (e - 1 - low)) 1)"

section \<open>Writing\<close>

text \<open>Division rounded to nearest, ties to even.\<close>

definition round_div :: "nat \<Rightarrow> nat \<Rightarrow> nat" where
  "round_div a b =
     (let q = a div b; r = a mod b in
      if 2 * r < b \<or> (2 * r = b \<and> even q) then q else Suc q)"

text \<open>The exponent of the leading digit of \<open>num / den\<close> to a base.\<close>

definition num_digits :: "nat \<Rightarrow> nat \<Rightarrow> nat" where
  "num_digits b n = length (show_base b n)"

definition leading_exponent :: "nat \<Rightarrow> nat \<Rightarrow> nat \<Rightarrow> int" where
  "leading_exponent b num den =
     (if den \<le> num then int (num_digits b (num div den)) - 1
      else - int (num_digits b ((den - 1) div num)))"

text \<open>\<open>num / den * b ^ e\<close>, rounded.\<close>

definition round_scaled :: "nat \<Rightarrow> nat \<Rightarrow> nat \<Rightarrow> int \<Rightarrow> nat" where
  "round_scaled b num den e =
     (if 0 \<le> e then round_div (num * b ^ nat e) den else round_div num (den * b ^ nat (- e)))"

definition strip_zeroes :: "string \<Rightarrow> string" where
  "strip_zeroes s = rev (dropWhile (\<lambda>c. c = CHR ''0'') (rev s))"

definition with_fraction :: "string \<Rightarrow> string \<Rightarrow> string" where
  "with_fraction whole frac = (if strip_zeroes frac = [] then whole else whole @ ''.'' @ strip_zeroes frac)"

definition show_exponent :: "int \<Rightarrow> string" where
  "show_exponent x =
     ''e'' @ (if x < 0 then ''-'' else ''+'') @
     (if nat \<bar>x\<bar> < 10 then ''0'' else '''') @ show_nat (nat \<bar>x\<bar>)"

text \<open>The conversion of a positive \<open>num / den\<close> to \<open>p\<close> significant digits.\<close>

definition show_g :: "nat \<Rightarrow> nat \<Rightarrow> nat \<Rightarrow> string" where
  "show_g p num den =
     (let x0 = leading_exponent 10 num den;
          q0 = round_scaled 10 num den (int p - 1 - x0);
          (q, x) = (if q0 = 10 ^ p then (10 ^ (p - 1), x0 + 1) else (q0, x0));
          ds = show_nat q in
      if -4 \<le> x \<and> x < int p then
        (if 0 \<le> x then with_fraction (take (Suc (nat x)) ds) (drop (Suc (nat x)) ds)
         else with_fraction ''0'' (replicate (nat (- x) - 1) CHR ''0'' @ ds))
      else with_fraction (take 1 ds) (drop 1 ds) @ show_exponent x)"

text \<open>\<open>TextWriter::write\<close> writes a zero of either sign itself, as \<open>0.0\<close>.\<close>

definition show_class :: "nat \<Rightarrow> float_class \<Rightarrow> string" where
  "show_class p c =
     (case c of
        FNan neg \<Rightarrow> (if neg then ''-nan'' else ''nan'')
      | FInf neg \<Rightarrow> (if neg then ''-inf'' else ''inf'')
      | FFinite neg num den \<Rightarrow>
          if num = 0 then ''0.0'' else (if neg then ''-'' else '''') @ show_g p num den)"

text \<open>\<open>std::setprecision(std::numeric_limits<T>::digits10 + 1)\<close>.\<close>

definition show_float32 :: "32 word \<Rightarrow> string" where
  "show_float32 w = show_class 7 (classify binary32 (bit w 31) (unat (take_bit 31 w)))"

definition show_float64 :: "64 word \<Rightarrow> string" where
  "show_float64 w = show_class 16 (classify binary64 (bit w 63) (unat (take_bit 63 w)))"

section \<open>Reading\<close>

text \<open>The bits of \<open>num / den\<close>, rounded: a magnitude too large becomes infinity, a small one subnormal.\<close>

definition float_bits :: "float_kind \<Rightarrow> nat \<Rightarrow> nat \<Rightarrow> nat" where
  "float_bits k num den =
     (if num = 0 then 0
      else let low = 1 - int (exp_bias k) - int (mantissa_bits k);
               u = max (leading_exponent 2 num den - int (mantissa_bits k)) low;
               bits = nat (u - low) * 2 ^ mantissa_bits k + round_scaled 2 num den (- u) in
           min bits (exp_max k * 2 ^ mantissa_bits k))"

definition is_space :: "char \<Rightarrow> bool" where
  "is_space c = (let k = of_char c :: nat in k = 32 \<or> (9 \<le> k \<and> k \<le> 13))"

definition lower :: "char \<Rightarrow> char" where
  "lower c = (let k = of_char c :: nat in if 65 \<le> k \<and> k \<le> 90 then char_of (k + 32) else c)"

text \<open>A word at the start of the input whatever its case, and what follows it.\<close>

definition match_word :: "string \<Rightarrow> string \<Rightarrow> string option" where
  "match_word wd s =
     (if length wd \<le> length s \<and> map lower (take (length wd) s) = wd then Some (drop (length wd) s) else None)"

text \<open>The character sequence in parentheses after \<open>nan\<close>, which has no meaning of its own.\<close>

definition is_nan_char :: "char \<Rightarrow> bool" where
  "is_nan_char c = (let k = of_char (lower c) :: nat in (48 \<le> k \<and> k \<le> 57) \<or> (97 \<le> k \<and> k \<le> 122) \<or> k = 95)"

definition skip_nan_seq :: "string \<Rightarrow> string" where
  "skip_nan_seq s =
     (case s of
        c # cs \<Rightarrow> if c = CHR ''('' then
            (case dropWhile is_nan_char cs of
               d # ds \<Rightarrow> if d = CHR '')'' then ds else s
             | [] \<Rightarrow> s)
          else s
      | [] \<Rightarrow> s)"

text \<open>
  Digits with an optional point: the number they form without the point, how many of them follow it, and
  what follows in the input. There must be a digit.
\<close>

abbreviation is_digit :: "nat \<Rightarrow> char \<Rightarrow> bool" where
  "is_digit b c \<equiv> digit_of_base b c \<noteq> None"

definition scan_mantissa :: "nat \<Rightarrow> string \<Rightarrow> (nat \<times> nat \<times> string) option" where
  "scan_mantissa b s =
     (let whole = takeWhile (is_digit b) s; r = dropWhile (is_digit b) s;
          (frac, r') = (case r of
             c # cs \<Rightarrow> if c = CHR ''.'' then (takeWhile (is_digit b) cs, dropWhile (is_digit b) cs) else ([], r)
           | [] \<Rightarrow> ([], r)) in
      if whole @ frac = [] then None
      else Some (fst (read_base b 0 (whole @ frac)), length frac, r'))"

text \<open>An exponent after its letter, which belongs to the number only if digits follow it.\<close>

definition scan_exponent :: "char \<Rightarrow> string \<Rightarrow> int \<times> string" where
  "scan_exponent l s =
     (case s of
        [] \<Rightarrow> (0, s)
      | c # cs \<Rightarrow>
          if lower c \<noteq> l then (0, s)
          else let (neg, ds) = (case cs of
                     d # r \<Rightarrow> if d = CHR ''-'' then (True, r) else if d = CHR ''+'' then (False, r) else (False, cs)
                   | [] \<Rightarrow> (False, cs));
                   n = int (fst (read_base 10 0 (takeWhile (is_digit 10) ds))) in
               if takeWhile (is_digit 10) ds = [] then (0, s)
               else (if neg then - n else n, dropWhile (is_digit 10) ds))"

definition bits_scaled :: "float_kind \<Rightarrow> nat \<Rightarrow> nat \<Rightarrow> int \<Rightarrow> nat" where
  "bits_scaled k b n e = (if 0 \<le> e then float_bits k (n * b ^ nat e) 1 else float_bits k n (b ^ nat (- e)))"

definition scan_number :: "float_kind \<Rightarrow> string \<Rightarrow> (nat \<times> string) option" where
  "scan_number k s =
     (case match_word ''infinity'' s of Some r \<Rightarrow> Some (exp_max k * 2 ^ mantissa_bits k, r)
      | None \<Rightarrow>
     (case match_word ''inf'' s of Some r \<Rightarrow> Some (exp_max k * 2 ^ mantissa_bits k, r)
      | None \<Rightarrow>
     (case match_word ''nan'' s of
        Some r \<Rightarrow> Some (exp_max k * 2 ^ mantissa_bits k + 2 ^ (mantissa_bits k - 1), skip_nan_seq r)
      | None \<Rightarrow>
     (case Option.bind (match_word ''0x'' s) (scan_mantissa 16) of
        Some (n, f, r) \<Rightarrow>
          let (e, r') = scan_exponent CHR ''p'' r in Some (bits_scaled k 2 n (e - 4 * int f), r')
      | None \<Rightarrow>
     (case scan_mantissa 10 s of
        Some (n, f, r) \<Rightarrow>
          let (e, r') = scan_exponent CHR ''e'' r in Some (bits_scaled k 10 n (e - int f), r')
      | None \<Rightarrow> None)))))"

text \<open>\<open>std::strtof\<close> and \<open>std::strtod\<close>: the sign, the bits below it and the rest; \<open>None\<close> when nothing is read.\<close>

definition strto :: "float_kind \<Rightarrow> string \<Rightarrow> (bool \<times> nat \<times> string) option" where
  "strto k s =
     (let s1 = dropWhile is_space s;
          (neg, s2) = (case s1 of
             c # cs \<Rightarrow> if c = CHR ''-'' then (True, cs) else if c = CHR ''+'' then (False, cs) else (False, s1)
           | [] \<Rightarrow> (False, s1)) in
      map_option (\<lambda>(b, r). (neg, b, r)) (scan_number k s2))"

definition strtof :: "string \<Rightarrow> (32 word \<times> string) option" where
  "strtof s = map_option (\<lambda>(neg, b, r). (of_nat (b + (if neg then 2 ^ 31 else 0)), r)) (strto binary32 s)"

definition strtod :: "string \<Rightarrow> (64 word \<times> string) option" where
  "strtod s = map_option (\<lambda>(neg, b, r). (of_nat (b + (if neg then 2 ^ 63 else 0)), r)) (strto binary64 s)"

end
