(* ===== verification/Text_Reader.thy ===== *)
theory Text_Reader
  imports Text_Format Text_Floats
begin

unbundle bit_operations_syntax

text \<open>
  \<open>TextReader.h\<close>: what has not been read yet, and the stack of the arrays and objects the reader is in.
  Every read finishes with \<open>finalizeRead\<close>, which consumes the separator that follows. The position that
  the code puts into the message of an unexpected token is left out. A loop that repeats without reading
  anything does not end: the loops of the code have a depth here, and reaching it is
  \<open>UndefinedBehaviour\<close>, like every loop without effects in C++.
\<close>

record text_reader =
  tr_input :: string
  tr_nesting :: nesting

abbreviation "token_error \<equiv> Inl (RuntimeError ''encountered unexpected token'')"
abbreviation "endless_loop \<equiv> Inl (UndefinedBehaviour ''endless loop'')"

section \<open>Tokens\<close>

text \<open>\<open>input().front() < '!'\<close> with a signed \<open>char\<close>.\<close>

definition is_blank :: "char \<Rightarrow> bool" where
  "is_blank c = (let k = of_char c :: nat in k < 33 \<or> 128 \<le> k)"

definition inputAdvance :: "nat \<Rightarrow> text_reader \<Rightarrow> text_reader" where
  "inputAdvance n r = r\<lparr>tr_input := drop n (tr_input r)\<rparr>"

definition consumeWhitespace :: "text_reader \<Rightarrow> text_reader" where
  "consumeWhitespace r = r\<lparr>tr_input := dropWhile is_blank (tr_input r)\<rparr>"

definition tryConsumeToken :: "string \<Rightarrow> text_reader \<Rightarrow> bool \<times> text_reader" where
  "tryConsumeToken t r =
     (if starts_with (tr_input r) t then (True, inputAdvance (length t) r) else (False, r))"

definition consumeToken :: "string \<Rightarrow> text_reader \<Rightarrow> text_reader result" where
  "consumeToken t r = (let (ok, r') = tryConsumeToken t r in if ok then Inr r' else token_error)"

definition consumeTokenAfterWhitespace :: "string \<Rightarrow> text_reader \<Rightarrow> text_reader result" where
  "consumeTokenAfterWhitespace t r = consumeToken t (consumeWhitespace r)"

definition tryConsumeTokenAfterWhitespace :: "string \<Rightarrow> text_reader \<Rightarrow> bool \<times> text_reader" where
  "tryConsumeTokenAfterWhitespace t r = tryConsumeToken t (consumeWhitespace r)"

definition finalizeRead :: "text_format \<Rightarrow> text_reader \<Rightarrow> text_reader" where
  "finalizeRead F r =
     (case tr_nesting r of
        [] \<Rightarrow> r
      | (InArray, _) # _ \<Rightarrow> snd (tryConsumeTokenAfterWhitespace (ArrayElementSeparator F) r)
      | (InObject, _) # _ \<Rightarrow> snd (tryConsumeTokenAfterWhitespace (ObjectMemberValueEnd F) r))"

definition tr_push :: "text_state \<Rightarrow> text_reader \<Rightarrow> text_reader" where
  "tr_push t r = r\<lparr>tr_nesting := (t, True) # tr_nesting r\<rparr>"

definition tr_pop :: "text_reader \<Rightarrow> text_reader result" where
  "tr_pop r =
     (case tr_nesting r of
        [] \<Rightarrow> Inl (UndefinedBehaviour ''pop of an empty stack'')
      | _ # outer \<Rightarrow> Inr (r\<lparr>tr_nesting := outer\<rparr>))"

section \<open>Arrays and objects\<close>

definition tr_readArrayBegin :: "text_format \<Rightarrow> text_reader \<Rightarrow> text_reader result" where
  "tr_readArrayBegin F r =
     bindE (consumeTokenAfterWhitespace (ArrayBegin F) r) (\<lambda>r. Inr (tr_push InArray r))"

definition tr_readArrayEnd :: "text_format \<Rightarrow> text_reader \<Rightarrow> text_reader result" where
  "tr_readArrayEnd F r =
     bindE (tr_pop r) (\<lambda>r.
     bindE (consumeTokenAfterWhitespace (ArrayEnd F) r) (\<lambda>r. Inr (finalizeRead F r)))"

definition tryReadArrayEnd :: "text_format \<Rightarrow> text_reader \<Rightarrow> (bool \<times> text_reader) result" where
  "tryReadArrayEnd F r =
     (let (ok, r') = tryConsumeTokenAfterWhitespace (ArrayEnd F) r in
      if ok then bindE (tr_pop r') (\<lambda>r. Inr (True, finalizeRead F r)) else Inr (False, r'))"

definition readObjectBegin :: "text_format \<Rightarrow> text_reader \<Rightarrow> text_reader result" where
  "readObjectBegin F r =
     bindE (consumeTokenAfterWhitespace (ObjectBegin F) r) (\<lambda>r. Inr (tr_push InObject r))"

definition readNamedObjectBegin :: "text_format \<Rightarrow> text_options \<Rightarrow> string \<Rightarrow> text_reader \<Rightarrow> text_reader result" where
  "readNamedObjectBegin F opt name r =
     bindE (case ObjectFormat F of
              WithTypeName \<Rightarrow>
                if policy opt = Strict then consumeTokenAfterWhitespace name r
                else Inr (snd (tryConsumeTokenAfterWhitespace name r))
            | WithoutTypeName \<Rightarrow> Inr r)
       (readObjectBegin F)"

definition readObjectEnd :: "text_format \<Rightarrow> text_reader \<Rightarrow> text_reader result" where
  "readObjectEnd F r =
     bindE (tr_pop r) (\<lambda>r.
     bindE (consumeTokenAfterWhitespace (ObjectEnd F) r) (\<lambda>r. Inr (finalizeRead F r)))"

definition tryReadObjectEnd :: "text_format \<Rightarrow> text_reader \<Rightarrow> (bool \<times> text_reader) result" where
  "tryReadObjectEnd F r =
     (let (ok, r') = tryConsumeTokenAfterWhitespace (ObjectEnd F) r in
      if ok then bindE (tr_pop r') (\<lambda>r. Inr (True, finalizeRead F r)) else Inr (False, r'))"

definition tryReadNull :: "text_format \<Rightarrow> text_reader \<Rightarrow> bool \<times> text_reader" where
  "tryReadNull F r =
     (if NullValue F = [] then (False, r)
      else let (ok, r') = tryConsumeTokenAfterWhitespace (NullValue F) r in
           (ok, if ok then finalizeRead F r' else r'))"

section \<open>Strings and identifiers\<close>

text \<open>
  The table \<open>IdentifierSymbols\<close> has an entry for each of the 256 characters, but a character above 127 is
  negative, so the lookup is far outside of it.
\<close>

definition is_identifier_char :: "char \<Rightarrow> bool" where
  "is_identifier_char c =
     (let k = of_char c :: nat in
      (48 \<le> k \<and> k \<le> 57) \<or> (65 \<le> k \<and> k \<le> 90) \<or> (97 \<le> k \<and> k \<le> 122) \<or> k = 95)"

fun span_identifier :: "string \<Rightarrow> (string \<times> string) result" where
  "span_identifier [] = Inr ([], [])"
| "span_identifier (c # cs) =
     (if 128 \<le> (of_char c :: nat) then Inl (UndefinedBehaviour ''index outside of the identifier table'')
      else if is_identifier_char c then bindE (span_identifier cs) (\<lambda>(i, r). Inr (c # i, r))
      else Inr ([], c # cs))"

definition readIdentifierString :: "text_format \<Rightarrow> text_reader \<Rightarrow> (string \<times> text_reader) result" where
  "readIdentifierString F r =
     bindE (span_identifier (tr_input r)) (\<lambda>(ident, rest).
       Inr (ident, finalizeRead F (r\<lparr>tr_input := rest\<rparr>)))"

definition readPrefixedIdentifierString ::
    "text_format \<Rightarrow> text_options \<Rightarrow> string \<Rightarrow> string \<Rightarrow> text_reader \<Rightarrow> (string \<times> text_reader) result" where
  "readPrefixedIdentifierString F opt pre sep r =
     (let r = consumeWhitespace r in
      bindE (if tr_nesting r \<noteq> [] \<and> policy opt = Strict
             then bindE (consumeToken pre r) (consumeToken sep)
             else let (ok, r') = tryConsumeToken pre r in if ok then consumeToken sep r' else Inr r')
        (readIdentifierString F))"

definition readObjectMemberName :: "text_format \<Rightarrow> text_reader \<Rightarrow> (string \<times> text_reader) result" where
  "readObjectMemberName F r =
     bindE (consumeTokenAfterWhitespace (ObjectMemberNameBegin F) r) (\<lambda>r.
     bindE (readIdentifierString F r) (\<lambda>(name, r).
     bindE (if ObjectMemberNameEnd F \<noteq> [] then consumeTokenAfterWhitespace (ObjectMemberNameEnd F) r else Inr r) (\<lambda>r.
     bindE (consumeTokenAfterWhitespace (ObjectMemberValueBegin F) r) (\<lambda>r. Inr (name, r)))))"

text \<open>The rest of the input, which is what a string outside of arrays and objects is.\<close>

definition read_all :: "text_format \<Rightarrow> text_reader \<Rightarrow> string \<times> text_reader" where
  "read_all F r =
     (let r = consumeWhitespace r in (tr_input r, finalizeRead F (r\<lparr>tr_input := []\<rparr>)))"

text \<open>The loop over the characters of an escaped string, up to and including its delimiter.\<close>

function unescape_text :: "string \<Rightarrow> (string \<times> string) result" where
  "unescape_text inp =
     (if inp = [] then token_error
      else if starts_with inp StringDelimiter then Inr ([], drop (length StringDelimiter) inp)
      else if starts_with inp StringEscape then
        (case find (\<lambda>(from, to). starts_with inp to) StringEscapeMapping of
           None \<Rightarrow> token_error
         | Some (from, to) \<Rightarrow>
             bindE (unescape_text (drop (length to) inp)) (\<lambda>(s, r). Inr (from @ s, r)))
      else bindE (unescape_text (drop 1 inp)) (\<lambda>(s, r). Inr (hd inp # s, r)))"
  by pat_completeness auto
termination
proof (relation "measure length", goal_cases)
  case (2 inp x fr to)
  have "(fr, to) \<in> set StringEscapeMapping" using find_Some_set [of _ _ x] 2(4,5) by auto
  then have "to \<noteq> []" by (auto simp: StringEscapeMapping_def)
  then show ?case using 2(1) by (cases inp) auto
qed auto

declare unescape_text.simps [simp del]

definition readEscapedString :: "text_format \<Rightarrow> text_reader \<Rightarrow> (string \<times> text_reader) result" where
  "readEscapedString F r =
     (if tr_nesting r = [] then Inr (read_all F r)
      else bindE (consumeTokenAfterWhitespace StringDelimiter r) (\<lambda>r.
           bindE (unescape_text (tr_input r)) (\<lambda>(s, rest).
             Inr (s, finalizeRead F (r\<lparr>tr_input := rest\<rparr>)))))"

text \<open>The loop over the characters of a quoted string.\<close>

fun until_delimiter :: "string \<Rightarrow> (string \<times> string) result" where
  "until_delimiter [] = token_error"
| "until_delimiter (c # cs) =
     (if starts_with (c # cs) StringDelimiter then Inr ([], drop (length StringDelimiter) (c # cs))
      else bindE (until_delimiter cs) (\<lambda>(s, r). Inr (c # s, r)))"

definition readQuotedString :: "text_format \<Rightarrow> text_reader \<Rightarrow> (string \<times> text_reader) result" where
  "readQuotedString F r =
     (if tr_nesting r = [] then Inr (read_all F r)
      else bindE (consumeTokenAfterWhitespace StringDelimiter r) (\<lambda>r.
           bindE (until_delimiter (tr_input r)) (\<lambda>(s, rest).
             Inr (s, finalizeRead F (r\<lparr>tr_input := rest\<rparr>)))))"

section \<open>Numbers and booleans\<close>

text \<open>\<open>std::from_chars\<close> for an integer type of so many bits: no sign but a minus, and no value out of range.\<close>

definition from_chars :: "bool \<Rightarrow> nat \<Rightarrow> nat \<Rightarrow> string \<Rightarrow> (int \<times> string) option" where
  "from_chars is_unsigned bits base s =
     (let neg = (\<not> is_unsigned \<and> starts_with s ''-'');
          s1 = (if neg then drop 1 s else s);
          ds = takeWhile (is_digit base) s1;
          n = int (fst (read_base base 0 ds));
          i = (if neg then - n else n) in
      if ds = [] then None
      else if (if is_unsigned then i < 2 ^ bits else - (2 ^ (bits - 1)) \<le> i \<and> i < 2 ^ (bits - 1))
           then Some (i, dropWhile (is_digit base) s1) else None)"

definition consumeSuffix :: "text_options \<Rightarrow> string \<Rightarrow> text_reader \<Rightarrow> text_reader result" where
  "consumeSuffix opt t r =
     (if tr_nesting r \<noteq> [] \<and> policy opt = Strict then consumeToken t r
      else Inr (snd (tryConsumeToken t r)))"

definition tr_read_int ::
    "text_format \<Rightarrow> text_options \<Rightarrow> bool \<Rightarrow> nat \<Rightarrow> text_reader \<Rightarrow> (int \<times> text_reader) result" where
  "tr_read_int F opt is_unsigned bits r =
     (let r = consumeWhitespace r;
          (bin, r) = tryConsumeToken ''0b'' r;
          (hex, r) = (if bin then (False, r) else tryConsumeToken ''0x'' r) in
      case from_chars is_unsigned bits (if bin then 2 else if hex then 16 else 10) (tr_input r) of
        None \<Rightarrow> token_error
      | Some (i, rest) \<Rightarrow>
          bindE (if IntegerFormat F = WithSignSuffix \<and> is_unsigned
                 then consumeSuffix opt ''u'' (r\<lparr>tr_input := rest\<rparr>)
                 else Inr (r\<lparr>tr_input := rest\<rparr>))
            (\<lambda>r. Inr (i, finalizeRead F r)))"

text \<open>The two floating-point types share the code: what differs is the conversion and the suffix.\<close>

definition tr_read_float ::
    "text_format \<Rightarrow> text_options \<Rightarrow> bool \<Rightarrow> (string \<Rightarrow> ('w \<times> string) option) \<Rightarrow> text_reader
     \<Rightarrow> ('w \<times> text_reader) result" where
  "tr_read_float F opt is_float conv r =
     (case conv (tr_input r) of
        None \<Rightarrow> token_error
      | Some (x, rest) \<Rightarrow>
          bindE (if FloatFormat F = WithSizeSuffix \<and> is_float
                 then consumeSuffix opt ''f'' (r\<lparr>tr_input := rest\<rparr>)
                 else Inr (r\<lparr>tr_input := rest\<rparr>))
            (\<lambda>r. Inr (x, finalizeRead F r)))"

text \<open>The first of two tokens that is next in the input.\<close>

definition either_token :: "string \<Rightarrow> string \<Rightarrow> text_reader \<Rightarrow> (bool \<times> text_reader) result" where
  "either_token yes no r =
     (let (ok, r1) = tryConsumeToken yes r in
      if ok then Inr (True, r1)
      else let (ok, r2) = tryConsumeToken no r1 in if ok then Inr (False, r2) else token_error)"

definition tr_read_bool :: "text_format \<Rightarrow> text_reader \<Rightarrow> (bool \<times> text_reader) result" where
  "tr_read_bool F r =
     (let r = consumeWhitespace r in
      bindE (case BooleanFormat F of
               BooleanInteger \<Rightarrow> either_token ''1'' ''0'' r
             | BooleanLiteral \<Rightarrow> either_token ''true'' ''false'' r
             | BooleanString \<Rightarrow>
                 bindE (readQuotedString F r) (\<lambda>(t, r).
                   if t = ''true'' then Inr (True, r) else if t = ''false'' then Inr (False, r) else token_error))
        (\<lambda>(b, r). Inr (b, finalizeRead F r)))"

section \<open>Skipping\<close>

text \<open>
  \<open>skip\<close>, its loop over the characters, and its loops over the elements of an array and the members of
  an object, each with the depth that is left.
\<close>

fun skip_value :: "text_format \<Rightarrow> nat \<Rightarrow> text_reader \<Rightarrow> text_reader result"
and skip_scan :: "text_format \<Rightarrow> nat \<Rightarrow> text_reader \<Rightarrow> text_reader result"
and skip_array :: "text_format \<Rightarrow> nat \<Rightarrow> text_reader \<Rightarrow> text_reader result"
and skip_object :: "text_format \<Rightarrow> nat \<Rightarrow> text_reader \<Rightarrow> text_reader result" where
  "skip_value F 0 r = endless_loop"
| "skip_value F (Suc n) r = skip_scan F n (consumeWhitespace r)"
| "skip_scan F 0 r = endless_loop"
| "skip_scan F (Suc n) r =
     (if tr_input r = [] then Inr r
      else if starts_with (tr_input r) StringDelimiter
           then bindE (readEscapedString F r) (\<lambda>(_, r). Inr r)
      else if starts_with (tr_input r) (ArrayBegin F)
           then bindE (tr_readArrayBegin F r) (skip_array F n)
      else if starts_with (tr_input r) (ObjectBegin F)
           then bindE (readObjectBegin F r) (skip_object F n)
      else if starts_with (tr_input r) (ArrayElementSeparator F)
           then consumeToken (ArrayElementSeparator F) r
      else if starts_with (tr_input r) (ObjectMemberValueEnd F)
           then consumeToken (ObjectMemberValueEnd F) r
      else if starts_with (tr_input r) (ArrayEnd F) \<or> starts_with (tr_input r) (ObjectEnd F) then Inr r
      else skip_scan F n (inputAdvance 1 r))"
| "skip_array F 0 r = endless_loop"
| "skip_array F (Suc n) r =
     bindE (tryReadArrayEnd F r) (\<lambda>(done, r).
       if done then Inr r else bindE (skip_value F n r) (skip_array F n))"
| "skip_object F 0 r = endless_loop"
| "skip_object F (Suc n) r =
     bindE (tryReadObjectEnd F r) (\<lambda>(done, r).
       if done then Inr r
       else bindE (readObjectMemberName F r) (\<lambda>(_, r). bindE (skip_value F n r) (skip_object F n)))"

text \<open>The depth is three for each character and three more, which no call exceeds that returns.\<close>

definition skip_text :: "text_format \<Rightarrow> text_reader \<Rightarrow> text_reader result" where
  "skip_text F r = skip_value F (3 * length (tr_input r) + 3) r"

end
