(* ===== verification/Text_Serializer.thy ===== *)
theory Text_Serializer
  imports Text_Reader Cbor_Serializer
begin

unbundle bit_operations_syntax

text \<open>
  \<open>TextSerializer.h\<close> on the visitor \<open>TypeVisitor.h\<close>, for the two formats of \<open>StringSerializer.h\<close> and
  \<open>JsonSerializer.h\<close>. An object has a member for each included property, with the null value for one that
  is not valid. Reading finds properties by name, skips members it does not know or that are not included,
  makes a property invalid that is null, and reads into what is there otherwise: a struct into the struct,
  while the elements of an array are appended to the vector. The text of a UUID (Boost) and of a time point
  (the date library) are given by functions of these libraries.
\<close>

section \<open>Formats and surroundings\<close>

datatype property_set_format = DecimalValue | BinaryValue
datatype timepoint_format = FractionalSeconds | ISO8601String
datatype enum_format = EnumTag | EnumValue | EnumIdentifier | EnumString

record text_library =
  uuid_toString :: "bytes \<Rightarrow> string"
  uuid_FromString :: "string \<Rightarrow> bytes result"
  timepoint_toString :: "64 word \<Rightarrow> string"
  timepoint_FromString :: "string \<Rightarrow> 64 word result"

record text_serializer =
  ts_format :: text_format
  ts_PropertySetFormat :: property_set_format
  ts_TimepointFormat :: timepoint_format
  ts_EnumFormat :: enum_format
  ts_options :: text_options
  ts_library :: text_library

definition StringSerializer :: "text_options \<Rightarrow> text_library \<Rightarrow> text_serializer" where
  "StringSerializer opt lib =
     \<lparr>ts_format = StringFormat, ts_PropertySetFormat = BinaryValue,
      ts_TimepointFormat = ISO8601String, ts_EnumFormat = EnumIdentifier, ts_options = opt, ts_library = lib\<rparr>"

definition JsonSerializer :: "text_options \<Rightarrow> text_library \<Rightarrow> text_serializer" where
  "JsonSerializer opt lib =
     \<lparr>ts_format = JsonFormat, ts_PropertySetFormat = DecimalValue,
      ts_TimepointFormat = FractionalSeconds, ts_EnumFormat = EnumTag, ts_options = opt, ts_library = lib\<rparr>"

section \<open>Serialisation\<close>

text \<open>\<open>visitFundamentalTypeDerived\<close> on a constant value.\<close>

definition write_fund_text :: "text_serializer \<Rightarrow> val \<Rightarrow> text_writer \<Rightarrow> text_writer" where
  "write_fund_text S v =
     (let F = ts_format S; opt = ts_options S; lib = ts_library S;
          int_of = (\<lambda>i. tw_write_int F opt False i 10); nat_of = (\<lambda>i. tw_write_int F opt True i 10) in
      case v of
        VBool b \<Rightarrow> tw_write_bool F opt b
      | VInt8 w \<Rightarrow> int_of (sint w) | VUInt8 w \<Rightarrow> nat_of (uint w)
      | VInt16 w \<Rightarrow> int_of (sint w) | VUInt16 w \<Rightarrow> nat_of (uint w)
      | VInt32 w \<Rightarrow> int_of (sint w) | VUInt32 w \<Rightarrow> nat_of (uint w)
      | VInt64 w \<Rightarrow> int_of (sint w) | VUInt64 w \<Rightarrow> nat_of (uint w)
      | VFloat32 w \<Rightarrow> tw_write_float F opt True (show_float32 w)
      | VFloat64 w \<Rightarrow> tw_write_float F opt False (show_float64 w)
      | VPropertySet s \<Rightarrow>
          tw_write_int F opt True (uint (toValue s)) (case ts_PropertySetFormat S of DecimalValue \<Rightarrow> 10 | BinaryValue \<Rightarrow> 2)
      | VTimepoint w \<Rightarrow>
          (case ts_TimepointFormat S of
             FractionalSeconds \<Rightarrow> tw_write_float F opt False (show_float64 w)
           | ISO8601String \<Rightarrow> writeQuotedString F opt (timepoint_toString lib w))
      | VSteadyTimepoint w \<Rightarrow> tw_write_float F opt False (show_float64 w)
      | VDuration w \<Rightarrow> tw_write_float F opt False (show_float64 w)
      | VUuid bs \<Rightarrow> writeQuotedString F opt (uuid_toString lib bs)
      | VString s \<Rightarrow> writeEscapedString F opt s
      | _ \<Rightarrow> (\<lambda>w. w))"

text \<open>\<open>visitEnumDerived\<close> on a constant value.\<close>

definition write_enum_text ::
    "text_serializer \<Rightarrow> string \<Rightarrow> enumerator list \<Rightarrow> 32 word \<Rightarrow> text_writer \<Rightarrow> text_writer result" where
  "write_enum_text S name es v w =
     (let F = ts_format S; opt = ts_options S in
      case ts_EnumFormat S of
        EnumTag \<Rightarrow>
          bindE (enumeratorFromValue es v) (\<lambda>e. Inr (tw_write_int F opt True (uint (en_tag e)) 10 w))
      | EnumValue \<Rightarrow> Inr (tw_write_int F opt False (sint v) 10 w)
      | EnumIdentifier \<Rightarrow>
          bindE (enumeratorFromValue es v) (\<lambda>e. Inr (writeIdentifierString F opt name ''::'' (en_name e) w))
      | EnumString \<Rightarrow>
          bindE (enumeratorFromValue es v) (\<lambda>e. Inr (writeQuotedString F opt (en_name e) w)))"

lemma foldE_cong [fundef_cong]:
  assumes "xs = ys" "s = t" "\<And>x u. x \<in> set ys \<Longrightarrow> f x u = g x u"
  shows "foldE f xs s = foldE g ys t"
proof -
  have "foldE f ys t = foldE g ys t" using assms(3)
    by (induction ys arbitrary: t) (auto intro: bindE_cong)
  then show ?thesis using assms(1,2) by simp
qed

text \<open>
  \<open>visitVectorInternal\<close>, \<open>visitStructInternal\<close> and \<open>visitPropertyInternal\<close> with the callbacks of the
  serializer; a nested struct includes its valid properties. What a failed call has written before its
  exception is not modelled.
\<close>

fun write_text :: "text_serializer \<Rightarrow> descr \<Rightarrow> val \<Rightarrow> text_writer \<Rightarrow> text_writer result"
and write_text_props ::
    "text_serializer \<Rightarrow> property_set \<Rightarrow> nat \<Rightarrow> pdesc list \<Rightarrow> area \<Rightarrow> text_writer \<Rightarrow> text_writer result" where
  "write_text S (Fundamental t) v w = Inr (write_fund_text S v w)"
| "write_text S (EnumDescriptor n es) v w = write_enum_text S n es (enum_of v) w"
| "write_text S (VectorDescriptor d) v w =
     bindE (foldE (write_text S d) (vals_of v) (tw_writeArrayBegin (ts_format S) (ts_options S) w))
       (tw_writeArrayEnd (ts_format S) (ts_options S))"
| "write_text S (StructD (StructDescriptor n fl ps)) v w =
     bindE (write_text_props S (validProperties (area_of v)) 0 ps (area_of v)
              (writeNamedObjectBegin (ts_format S) (ts_options S) n w))
       (writeObjectEnd (ts_format S) (ts_options S))"
| "write_text_props S inc i [] a w = Inr w"
| "write_text_props S inc i (PropertyDescriptor d n t k # ps) a w =
     bindE (if ps_le (pd_set (PropertyDescriptor d n t k)) inc
            then bindE (if tw_nesting w \<noteq> []
                        then writeObjectMemberName (ts_format S) (ts_options S) n w else Inr w)
                   (\<lambda>w. if isValid (PropertyDescriptor d n t k) a
                         then bindE (read_slot i a) (\<lambda>v. write_text S d v w)
                         else Inr (writeNull (ts_format S) (ts_options S) w))
            else Inr w)
       (write_text_props S inc (Suc i) ps a)"

text \<open>\<open>Serialize(instance, includedProperties, options)\<close>: the output of a fresh serializer.\<close>

definition text_serialize ::
    "text_serializer \<Rightarrow> string \<Rightarrow> pdesc list \<Rightarrow> area \<Rightarrow> property_set \<Rightarrow> string result" where
  "text_serialize S name ps a inc =
     bindE (bindE (write_text_props S inc 0 ps a
                    (writeNamedObjectBegin (ts_format S) (ts_options S) name \<lparr>tw_output = [], tw_nesting = []\<rparr>))
             (writeObjectEnd (ts_format S) (ts_options S)))
       (\<lambda>w. Inr (tw_output w))"

section \<open>Deserialisation\<close>

definition mapV :: "('a \<Rightarrow> 'b) \<Rightarrow> ('a \<times> 'r) result \<Rightarrow> ('b \<times> 'r) result" where
  "mapV f m = bindE m (\<lambda>(x, r). Inr (f x, r))"

text \<open>\<open>visitFundamentalTypeDerived\<close> on a mutable value.\<close>

definition read_fund_text :: "text_serializer \<Rightarrow> fund_type \<Rightarrow> text_reader \<Rightarrow> (val \<times> text_reader) result" where
  "read_fund_text S t r =
     (let F = ts_format S; opt = ts_options S; lib = ts_library S;
          seconds = (\<lambda>c. mapV c (tr_read_float F opt False strtod r)) in
      case t of
        T_boolean \<Rightarrow> mapV VBool (tr_read_bool F r)
      | T_int8 \<Rightarrow> mapV (\<lambda>i. VInt8 (word_of_int i)) (tr_read_int F opt False 8 r)
      | T_uint8 \<Rightarrow> mapV (\<lambda>i. VUInt8 (word_of_int i)) (tr_read_int F opt True 8 r)
      | T_int16 \<Rightarrow> mapV (\<lambda>i. VInt16 (word_of_int i)) (tr_read_int F opt False 16 r)
      | T_uint16 \<Rightarrow> mapV (\<lambda>i. VUInt16 (word_of_int i)) (tr_read_int F opt True 16 r)
      | T_int32 \<Rightarrow> mapV (\<lambda>i. VInt32 (word_of_int i)) (tr_read_int F opt False 32 r)
      | T_uint32 \<Rightarrow> mapV (\<lambda>i. VUInt32 (word_of_int i)) (tr_read_int F opt True 32 r)
      | T_int64 \<Rightarrow> mapV (\<lambda>i. VInt64 (word_of_int i)) (tr_read_int F opt False 64 r)
      | T_uint64 \<Rightarrow> mapV (\<lambda>i. VUInt64 (word_of_int i)) (tr_read_int F opt True 64 r)
      | T_float32 \<Rightarrow> mapV VFloat32 (tr_read_float F opt True strtof r)
      | T_float64 \<Rightarrow> mapV VFloat64 (tr_read_float F opt False strtod r)
      | T_property_set \<Rightarrow> mapV (\<lambda>i. VPropertySet (PropertySet (word_of_int i))) (tr_read_int F opt True 32 r)
      | T_timepoint \<Rightarrow>
          (case ts_TimepointFormat S of
             FractionalSeconds \<Rightarrow> seconds VTimepoint
           | ISO8601String \<Rightarrow>
               bindE (readQuotedString F r) (\<lambda>(s, r).
               bindE (timepoint_FromString lib s) (\<lambda>w. Inr (VTimepoint w, r))))
      | T_steady_timepoint \<Rightarrow> seconds VSteadyTimepoint
      | T_duration \<Rightarrow> seconds VDuration
      | T_uuid \<Rightarrow>
          bindE (readQuotedString F r) (\<lambda>(s, r).
          bindE (uuid_FromString lib s) (\<lambda>bs. Inr (VUuid bs, r)))
      | T_string \<Rightarrow> mapV VString (readEscapedString F r))"

text \<open>\<open>visitEnumDerived\<close> on a mutable value.\<close>

definition read_enum_text ::
    "text_serializer \<Rightarrow> string \<Rightarrow> enumerator list \<Rightarrow> text_reader \<Rightarrow> (val \<times> text_reader) result" where
  "read_enum_text S name es r =
     (let F = ts_format S; opt = ts_options S in
      case ts_EnumFormat S of
        EnumTag \<Rightarrow>
          bindE (tr_read_int F opt True 32 r) (\<lambda>(i, r).
          bindE (enumeratorFromTag es (word_of_int i)) (\<lambda>e. Inr (VEnum (en_value e), r)))
      | EnumValue \<Rightarrow>
          bindE (tr_read_int F opt True 32 r) (\<lambda>(i, r).
          bindE (enumeratorFromValue es (word_of_int i)) (\<lambda>e. Inr (VEnum (en_value e), r)))
      | EnumIdentifier \<Rightarrow>
          bindE (readPrefixedIdentifierString F opt name ''::'' r) (\<lambda>(ident, r).
          bindE (enumeratorFromName es ident) (\<lambda>e. Inr (VEnum (en_value e), r)))
      | EnumString \<Rightarrow>
          bindE (readQuotedString F r) (\<lambda>(ident, r).
          bindE (enumeratorFromName es ident) (\<lambda>e. Inr (VEnum (en_value e), r))))"

text \<open>\<open>while (!done()) body()\<close>, with the depth that is left.\<close>

fun loopE :: "nat \<Rightarrow> ('s \<Rightarrow> (bool \<times> 's) result) \<Rightarrow> ('s \<Rightarrow> 's result) \<Rightarrow> 's \<Rightarrow> 's result" where
  "loopE 0 test body s = endless_loop"
| "loopE (Suc n) test body s =
     bindE (test s) (\<lambda>(done, s). if done then Inr s else bindE (body s) (loopE n test body))"

lemma loopE_cong [fundef_cong]:
  assumes "n = n'" "test = test'" "s = s'" "\<And>s. body s = body' s"
  shows "loopE n test body s = loopE n' test' body' s'"
proof -
  have "body = body'" using assms(4) by blast
  then show ?thesis using assms(1-3) by simp
qed

definition at_end :: "('r \<Rightarrow> (bool \<times> 'r) result) \<Rightarrow> 's \<times> 'r \<Rightarrow> (bool \<times> 's \<times> 'r) result" where
  "at_end f = (\<lambda>(s, r). bindE (f r) (\<lambda>(done, r). Inr (done, s, r)))"

definition find_named :: "string \<Rightarrow> pdesc list \<Rightarrow> (nat \<times> pdesc) option" where
  "find_named n ps = find (\<lambda>(i, p). pd_name p = n) (enumerate 0 ps)"

lemma find_named_Some: "find_named n ps = Some (i, p) \<Longrightarrow> i < length ps \<and> ps ! i = p \<and> pd_name p = n"
  unfolding find_named_def by (drule find_Some_set) (auto simp: in_set_enumerate_eq)

lemma find_named_size: "find_named n ps = Some (i, p) \<Longrightarrow> size p < size_list size ps"
  using find_named_Some size_less_size_list nth_mem by blast

text \<open>
  The loops end after as many iterations as there are characters, because an iteration that reads nothing
  would repeat forever.
\<close>

function read_text :: "text_serializer \<Rightarrow> descr \<Rightarrow> val \<Rightarrow> text_reader \<Rightarrow> (val \<times> text_reader) result"
and read_member ::
    "text_serializer \<Rightarrow> pdesc list \<Rightarrow> property_set \<Rightarrow> area \<times> text_reader \<Rightarrow> (area \<times> text_reader) result" where
  "read_text S (Fundamental t) old r = read_fund_text S t r"
| "read_text S (EnumDescriptor n es) old r = read_enum_text S n es r"
| "read_text S (VectorDescriptor d) old r =
     bindE (tr_readArrayBegin (ts_format S) r) (\<lambda>r.
     mapV VVector
       (loopE (Suc (length (tr_input r))) (at_end (tryReadArrayEnd (ts_format S)))
          (\<lambda>(vs, r). bindE (read_text S d (default_val d) r) (\<lambda>(v, r). Inr (vs @ [v], r)))
          (vals_of old, r)))"
| "read_text S (StructD (StructDescriptor n fl ps)) old r =
     bindE (readNamedObjectBegin (ts_format S) (ts_options S) n r) (\<lambda>r.
     mapV VStruct
       (loopE (Suc (length (tr_input r))) (at_end (tryReadObjectEnd (ts_format S)))
          (read_member S ps ps_All) (area_of old, r)))"
| "read_member S ps inc (a, r) =
     bindE (readObjectMemberName (ts_format S) r) (\<lambda>(name, r).
       case find_named name ps of
         Some (i, p) \<Rightarrow>
           if ps_le (pd_set p) inc
           then (case tryReadNull (ts_format S) r of
                   (True, r) \<Rightarrow> bindE (reset i p a) (\<lambda>a. Inr (a, r))
                 | (False, r) \<Rightarrow>
                     bindE (valueOrEmplace i p (default_val (valueDescriptor p)) a) (\<lambda>a.
                     bindE (read_slot i a) (\<lambda>old.
                     bindE (read_text S (valueDescriptor p) old r) (\<lambda>(v, r).
                     bindE (assign_slot i v a) (\<lambda>a. Inr (a, r))))))
           else bindE (skip_text (ts_format S) r) (\<lambda>r. Inr (a, r))
       | None \<Rightarrow> bindE (skip_text (ts_format S) r) (\<lambda>r. Inr (a, r)))"
  by pat_completeness auto
termination
proof (relation "measure (\<lambda>s. case s of Inl (_, d, _) \<Rightarrow> size d | Inr (_, ps, _) \<Rightarrow> Suc (size_list size ps))",
    goal_cases)
  case (4 S ps inc a r x name r' y i p)
  then have "size p < size_list size ps" using find_named_size by auto
  then show ?case by (cases p) simp
qed auto

text \<open>
  \<open>deserialize(instance, includedProperties)\<close>: the included properties apply to the outermost struct only.
\<close>

definition text_deserialize ::
    "text_serializer \<Rightarrow> string \<Rightarrow> pdesc list \<Rightarrow> property_set \<Rightarrow> area \<Rightarrow> string \<Rightarrow> (area \<times> string) result" where
  "text_deserialize S name ps inc a inp =
     (if inp = [] then Inl (LogicError ''attempt to deserialize from invalid or empty input buffer'')
      else bindE (readNamedObjectBegin (ts_format S) (ts_options S) name \<lparr>tr_input = inp, tr_nesting = []\<rparr>) (\<lambda>r.
           bindE (loopE (Suc (length (tr_input r))) (at_end (tryReadObjectEnd (ts_format S)))
                    (read_member S ps inc) (a, r)) (\<lambda>(a, r). Inr (a, tr_input r))))"

end
