(* ===== verification/Text_Tokens.thy ===== *)
theory Text_Tokens
  imports Text_Serializer
begin

text \<open>
  What the operations of the text writer append and what those of the reader make of it again, token by
  token, for the two formats of the library and inside of an array or object.
\<close>

section \<open>The writer appends\<close>

definition line_break :: "text_options \<Rightarrow> nat \<Rightarrow> string" where
  "line_break opt level =
     (case style opt of
        MultiLine \<Rightarrow> CHR 0x0A # replicate (level * indentSize opt) CHR '' '' | SingleLine \<Rightarrow> '' '' | Minified \<Rightarrow> [])"

text \<open>What \<open>initiateWrite\<close> appends, and the stack after it.\<close>

definition lead :: "text_format \<Rightarrow> text_options \<Rightarrow> nesting \<Rightarrow> string" where
  "lead F opt N =
     (case N of
        (InArray, first) # _ \<Rightarrow> (if first then [] else ArrayElementSeparator F) @ line_break opt (length N)
      | _ \<Rightarrow> [])"

definition touched :: "nesting \<Rightarrow> nesting" where
  "touched N = (case N of (InArray, _) # M \<Rightarrow> (InArray, False) # M | _ \<Rightarrow> N)"

abbreviation Wr :: "string \<Rightarrow> nesting \<Rightarrow> text_writer" where
  "Wr out N \<equiv> \<lparr>tw_output = out, tw_nesting = N\<rparr>"

abbreviation Rd :: "string \<Rightarrow> nesting \<Rightarrow> text_reader" where
  "Rd i M \<equiv> \<lparr>tr_input = i, tr_nesting = M\<rparr>"

lemma append_text_W [simp]: "append_text s (Wr out N) = Wr (out @ s) N"
  by (simp add: append_text_def)

lemma appendNewLine_W [simp]: "appendNewLine opt l (Wr out N) = Wr (out @ line_break opt l) N"
  by (simp add: appendNewLine_def line_break_def split: text_style.split)

lemma appendPrefixedNewLine_W [simp]:
  "appendPrefixedNewLine opt l s (Wr out N) = Wr (out @ s @ line_break opt l) N"
  "appendSuffixedNewLine opt l s (Wr out N) = Wr (out @ line_break opt l @ s) N"
  by (simp_all add: appendPrefixedNewLine_def appendSuffixedNewLine_def)

lemma initiateWrite_W [simp]: "initiateWrite F opt (Wr out N) = Wr (out @ lead F opt N) (touched N)"
  by (auto simp: initiateWrite_def lead_def touched_def split: list.split prod.split text_state.split)

lemma tw_writeString_W [simp]: "tw_writeString F opt s (Wr out N) = Wr (out @ lead F opt N @ s) (touched N)"
  by (simp add: tw_writeString_def)

lemma tw_push_W [simp]: "tw_push t (Wr out N) = Wr out ((t, True) # N)"
  by (simp add: tw_push_def)

lemma tw_pop_W [simp]: "tw_pop (Wr out (x # N)) = Inr (Wr out N)"
  by (simp add: tw_pop_def)

lemma touched_Nil [simp]: "touched N = [] \<longleftrightarrow> N = []"
  by (auto simp: touched_def split: list.split prod.split text_state.split)

lemma length_touched [simp]: "length (touched N) = length N"
  by (auto simp: touched_def split: list.split prod.split text_state.split)

lemma touched_simps [simp]:
  "touched ((InObject, b) # N) = (InObject, b) # N" "touched ((InArray, b) # N) = (InArray, False) # N"
  "lead F opt ((InObject, b) # N) = []" "touched [] = []" "lead F opt [] = []"
  by (simp_all add: touched_def lead_def)

definition member_text :: "text_format \<Rightarrow> text_options \<Rightarrow> string \<Rightarrow> string" where
  "member_text F opt name =
     ObjectMemberNameBegin F @ name @ ObjectMemberNameEnd F @
     (if ObjectMemberValueBegin F \<noteq> []
      then (if style opt = Minified then ObjectMemberValueBegin F else '' '' @ ObjectMemberValueBegin F @ '' '')
      else if style opt \<noteq> Minified then '' '' else [])"

lemma writeObjectMemberName_W [simp]:
  "writeObjectMemberName F opt name (Wr out ((t, first) # N)) =
     Inr (Wr (out @ (if first then [] else ObjectMemberValueEnd F) @ line_break opt (Suc (length N)) @
             member_text F opt name) ((t, False) # N))"
  by (auto simp: writeObjectMemberName_def member_text_def Let_def)

section \<open>What can follow a value\<close>

definition blank :: "string \<Rightarrow> bool" where
  "blank s \<longleftrightarrow> list_all is_blank s"

lemma blank_simps [simp]:
  "blank []" "blank (c # s) \<longleftrightarrow> is_blank c \<and> blank s" "blank (s @ t) \<longleftrightarrow> blank s \<and> blank t"
  by (simp_all add: blank_def)

lemma is_blank_space [simp]: "is_blank CHR '' ''" "is_blank CHR 0x0A"
  by (simp_all add: is_blank_def)

lemma blank_line_break [simp]: "blank (line_break opt l)"
  by (auto simp: line_break_def blank_def list_all_iff split: text_style.split)

lemma drop_blank [simp]: "blank ws \<Longrightarrow> dropWhile is_blank (ws @ s) = dropWhile is_blank s"
  by (induction ws) auto

text \<open>The characters that end a number, a literal or an identifier in the output of the writer.\<close>

definition delimiter :: "char \<Rightarrow> bool" where
  "delimiter c \<longleftrightarrow> c \<in> set '' ,}]'' \<or> c = CHR 0x0A"

definition delimited :: "string \<Rightarrow> bool" where
  "delimited s \<longleftrightarrow> (case s of [] \<Rightarrow> True | c # _ \<Rightarrow> delimiter c)"

lemma delimited_simps [simp]:
  "delimited []" "delimited (c # s) \<longleftrightarrow> delimiter c"
  by (simp_all add: delimited_def)

definition known_format :: "text_format \<Rightarrow> bool" where
  "known_format F \<longleftrightarrow> F = StringFormat \<or> F = JsonFormat"

lemma known_separators [simp]:
  "known_format F \<Longrightarrow> ArrayElementSeparator F = '',''" "known_format F \<Longrightarrow> ObjectMemberValueEnd F = '',''"
  "known_format F \<Longrightarrow> ObjectBegin F = ''{''" "known_format F \<Longrightarrow> ObjectEnd F = ''}''"
  "known_format F \<Longrightarrow> BooleanFormat F = BooleanLiteral"
  unfolding known_format_def by (elim disjE; simp add: StringFormat_def JsonFormat_def)+

lemma known_array:
  "known_format F \<Longrightarrow> \<exists>a z. ArrayBegin F = [a] \<and> ArrayEnd F = [z] \<and> a \<in> set ''{['' \<and> z \<in> set ''}]''"
  unfolding known_format_def by (elim disjE) (simp_all add: StringFormat_def JsonFormat_def)

text \<open>What \<open>finalizeRead\<close> leaves of the input.\<close>

definition finalized :: "string \<Rightarrow> string" where
  "finalized s = (let s' = dropWhile is_blank s in if starts_with s' '','' then drop 1 s' else s')"

lemma finalizeRead_R:
  "known_format F \<Longrightarrow> M \<noteq> [] \<Longrightarrow> finalizeRead F (Rd i M) = Rd (finalized i) M"
  by (cases M) (auto simp: finalizeRead_def finalized_def Let_def tryConsumeTokenAfterWhitespace_def
      tryConsumeToken_def consumeWhitespace_def inputAdvance_def split: text_state.split)

lemma finalizeRead_top [simp]: "finalizeRead F (Rd i []) = Rd i []"
  by (simp add: finalizeRead_def)

lemma finalized_simps [simp]:
  "blank ws \<Longrightarrow> finalized (ws @ s) = finalized s" "finalized (CHR '','' # s) = s"
  "\<not> is_blank c \<Longrightarrow> c \<noteq> CHR '','' \<Longrightarrow> finalized (c # s) = c # s"
  by (simp_all add: finalized_def Let_def is_blank_def)

section \<open>Tokens\<close>

lemma starts_with_append [simp]: "starts_with (s @ t) s"
  by (induction s) auto

lemma starts_with_Cons [simp]: "starts_with s (p # ps) \<longleftrightarrow> (\<exists>cs. s = p # cs \<and> starts_with cs ps)"
  by (cases s) auto

lemma consumeWhitespace_R [simp]: "consumeWhitespace (Rd i M) = Rd (dropWhile is_blank i) M"
  by (simp add: consumeWhitespace_def)

lemma tryConsumeToken_R:
  "tryConsumeToken t (Rd i M) = (if starts_with i t then (True, Rd (drop (length t) i) M) else (False, Rd i M))"
  by (simp add: tryConsumeToken_def inputAdvance_def)

lemma consumeToken_R:
  "consumeToken t (Rd i M) = (if starts_with i t then Inr (Rd (drop (length t) i) M) else token_error)"
  by (simp add: consumeToken_def tryConsumeToken_R)

lemmas token_simps = tryConsumeToken_R consumeToken_R consumeTokenAfterWhitespace_def
  tryConsumeTokenAfterWhitespace_def

lemma tr_push_R [simp]: "tr_push t (Rd i M) = Rd i ((t, True) # M)"
  by (simp add: tr_push_def)

lemma tr_pop_R [simp]: "tr_pop (Rd i (x # M)) = Inr (Rd i M)"
  by (simp add: tr_pop_def)

section \<open>Strings\<close>

definition escaped :: "char \<Rightarrow> string" where
  "escaped c =
     (if c = CHR 0x22 then [CHR 0x5C, CHR 0x22] else if c = CHR 0x5C then [CHR 0x5C, CHR 0x5C]
      else if c = CHR ''/'' then [CHR 0x5C, CHR ''/''] else if c = CHR 0x08 then [CHR 0x5C, CHR ''b'']
      else if c = CHR 0x0C then [CHR 0x5C, CHR ''f''] else if c = CHR 0x0A then [CHR 0x5C, CHR ''n'']
      else if c = CHR 0x0D then [CHR 0x5C, CHR ''r''] else if c = CHR 0x09 then [CHR 0x5C, CHR ''t''] else [c])"

lemma escape_text_Cons: "escape_text (c # cs) = escaped c @ escape_text cs"
  by (simp add: StringEscapeMapping_def escaped_def)

lemma unescape_escaped:
  "unescape_text (escaped c @ s) = bindE (unescape_text s) (\<lambda>(t, r). Inr (c # t, r))"
proof -
  have "unescape_text (e # c' # s) = bindE (unescape_text s) (\<lambda>(t, r). Inr (c # t, r))"
    if "escaped c = [e, c']" for e c'
    using that by (subst unescape_text.simps)
      (auto simp: escaped_def StringDelimiter_def StringEscape_def StringEscapeMapping_def split: if_splits)
  moreover have "unescape_text (c # s) = bindE (unescape_text s) (\<lambda>(t, r). Inr (c # t, r))"
    if "escaped c = [c]"
    using that by (subst unescape_text.simps)
      (auto simp: escaped_def StringDelimiter_def StringEscape_def split: if_splits)
  moreover have "(\<exists>e c'. escaped c = [e, c']) \<or> escaped c = [c]"
    by (auto simp: escaped_def)
  ultimately show ?thesis by auto
qed

lemma unescape_escape: "unescape_text (escape_text s @ StringDelimiter @ rest) = Inr (s, rest)"
proof (induction s)
  case Nil
  then show ?case by (subst unescape_text.simps) (simp add: StringDelimiter_def)
next
  case (Cons c s)
  then show ?case by (simp add: escape_text_Cons unescape_escaped del: escape_text.simps)
qed

lemma until_delimiter_append:
  "CHR 0x22 \<notin> set s \<Longrightarrow> until_delimiter (s @ StringDelimiter @ rest) = Inr (s, rest)"
  by (induction s) (auto simp: StringDelimiter_def)

lemma writeEscapedString_W:
  "N \<noteq> [] \<Longrightarrow> writeEscapedString F opt s (Wr out N) =
     Wr (out @ lead F opt N @ StringDelimiter @ escape_text s @ StringDelimiter) (touched N)"
  by (simp add: writeEscapedString_def Let_def)

lemma writeQuotedString_W:
  "N \<noteq> [] \<Longrightarrow> writeQuotedString F opt s (Wr out N) =
     Wr (out @ lead F opt N @ StringDelimiter @ s @ StringDelimiter) (touched N)"
  by (simp add: writeQuotedString_def Let_def)

lemma consume_delimiter:
  "blank ws \<Longrightarrow> consumeTokenAfterWhitespace StringDelimiter (Rd (ws @ StringDelimiter @ s) M) = Inr (Rd s M)"
  by (simp add: token_simps StringDelimiter_def is_blank_def)

lemma readEscapedString_R:
  assumes "known_format F" "M \<noteq> []" "blank ws"
  shows "readEscapedString F (Rd (ws @ StringDelimiter @ escape_text s @ StringDelimiter @ rest) M) =
         Inr (s, Rd (finalized rest) M)"
  using assms by (simp add: readEscapedString_def consume_delimiter unescape_escape finalizeRead_R)

lemma readQuotedString_R:
  assumes "known_format F" "M \<noteq> []" "blank ws" "CHR 0x22 \<notin> set s"
  shows "readQuotedString F (Rd (ws @ StringDelimiter @ s @ StringDelimiter @ rest) M) = Inr (s, Rd (finalized rest) M)"
  using assms by (simp add: readQuotedString_def consume_delimiter until_delimiter_append finalizeRead_R)

section \<open>Numbers\<close>

definition readable_options :: "text_options \<Rightarrow> bool" where
  "readable_options opt \<longleftrightarrow> policy opt = Relaxed \<or> style opt = MultiLine"

lemma delimiter_no_digit: "delimiter c \<Longrightarrow> b \<le> 16 \<Longrightarrow> \<not> is_digit b c"
  by (auto simp: delimiter_def digit_of_base_def digit_value_def)

lemma show_base_hd_digit:
  "2 \<le> b \<Longrightarrow> b \<le> 16 \<Longrightarrow> c \<in> set (show_base b n) \<Longrightarrow> is_digit b c"
  using show_base_digits by fastforce

lemma span_digits:
  assumes "2 \<le> b" "b \<le> 16" "case r of [] \<Rightarrow> True | c # _ \<Rightarrow> \<not> is_digit b c"
  shows "takeWhile (is_digit b) (show_base b n @ r) = show_base b n"
    "dropWhile (is_digit b) (show_base b n @ r) = r"
proof -
  have d: "c \<in> set (show_base b n) \<Longrightarrow> is_digit b c" for c using assms show_base_hd_digit by blast
  have "takeWhile (is_digit b) r = []" "dropWhile (is_digit b) r = r"
    using assms(3) by (cases r; simp)+
  then show "takeWhile (is_digit b) (show_base b n @ r) = show_base b n"
    "dropWhile (is_digit b) (show_base b n @ r) = r"
    using d by (simp_all add: takeWhile_append2 dropWhile_append2)
qed

lemma read_base_show: "2 \<le> b \<Longrightarrow> b \<le> 16 \<Longrightarrow> read_base b 0 (show_base b n) = (n, [])"
  using read_show [of b n "[]"] by simp

lemma from_chars_show:
  assumes "2 \<le> b" "b \<le> 16" "case r of [] \<Rightarrow> True | c # _ \<Rightarrow> \<not> is_digit b c"
    and "if uns then 0 \<le> i \<and> i < 2 ^ bits else - (2 ^ (bits - 1)) \<le> i \<and> i < 2 ^ (bits - 1)"
  shows "from_chars uns bits b (show_int_base b i @ r) = Some (i, r)"
proof -
  have minus: "\<not> starts_with (show_base b n @ r) ''-''" for n
  proof -
    obtain c cs where c: "show_base b n = c # cs" by (meson neq_Nil_conv show_base_not_Nil)
    have "is_digit b c" using assms(1,2) show_base_hd_digit [of b c n] by (simp add: c)
    then show ?thesis by (auto simp: c digit_of_base_def digit_value_def)
  qed
  show ?thesis
    using assms minus [of "nat i"] span_digits [OF assms(1-3)]
    by (cases "i < 0")
      (auto simp: from_chars_def show_int_base_def Let_def read_base_show simp del: starts_with_Cons)
qed

definition sign_suffix :: "text_format \<Rightarrow> text_options \<Rightarrow> bool \<Rightarrow> string" where
  "sign_suffix F opt uns =
     (if IntegerFormat F = WithSignSuffix \<and> uns \<and> style opt \<noteq> Minified then ''u'' else [])"

lemma tw_write_int_W:
  "N \<noteq> [] \<Longrightarrow> tw_write_int F opt uns i b (Wr out N) =
     Wr (out @ lead F opt N @ (if b = 2 then ''0b'' else if b = 16 then ''0x'' else []) @ show_int_base b i @
        sign_suffix F opt uns) (touched N)"
  by (auto simp: tw_write_int_def Let_def sign_suffix_def)

lemma consumeSuffix_R:
  assumes "readable_options opt" "M \<noteq> []" "delimited rest" "\<not> delimiter c"
  shows "consumeSuffix opt [c] (Rd ((if style opt \<noteq> Minified then [c] else []) @ rest) M) = Inr (Rd rest M)"
  using assms by (cases rest) (auto simp: consumeSuffix_def token_simps readable_options_def)

text \<open>The first character of a number, and why it starts with no prefix of another base.\<close>

lemma show_int_hd:
  assumes "2 \<le> b" "b \<le> 16"
  obtains c cs where "show_int_base b i = c # cs" "c = CHR ''-'' \<or> is_digit b c"
proof (cases "i < 0")
  case False
  then have s: "show_int_base b i = show_base b (nat i)" by (simp add: show_int_base_def)
  then obtain c cs where c: "show_base b (nat i) = c # cs" by (meson neq_Nil_conv show_base_not_Nil)
  then have "is_digit b c" using assms show_base_hd_digit [of b c "nat i"] by simp
  then show ?thesis using that c s by simp
qed (use that in \<open>simp add: show_int_base_def\<close>)

lemma digit_no_blank: "c = CHR ''-'' \<or> is_digit b c \<Longrightarrow> \<not> is_blank c"
  by (auto simp: is_blank_def digit_of_base_def digit_value_def Let_def split: if_splits)

lemma no_base_prefix:
  assumes "case r of [] \<Rightarrow> True | c # _ \<Rightarrow> c \<noteq> p" "p \<in> {CHR ''b'', CHR ''x''}"
  shows "\<not> starts_with (show_int_base 10 i @ r) [CHR ''0'', p]"
proof
  assume "starts_with (show_int_base 10 i @ r) [CHR ''0'', p]"
  then obtain cs where cs: "show_int_base 10 i @ r = CHR ''0'' # p # cs" by auto
  then have i: "\<not> i < 0" by (auto simp: show_int_base_def)
  have "p \<notin> set (show_base 10 (nat i))"
    using assms(2) show_base_hd_digit [of 10 p "nat i"] by (auto simp: digit_of_base_def digit_value_def)
  moreover obtain d ds where "show_base 10 (nat i) = d # ds" by (meson neq_Nil_conv show_base_not_Nil)
  ultimately show False using cs i assms(1) by (cases ds) (auto simp: show_int_base_def split: list.splits)
qed

lemma suffix_stops:
  assumes "delimited rest" "\<And>c. delimiter c \<Longrightarrow> P c" "P CHR ''u''"
  shows "case sign_suffix F opt uns @ rest of [] \<Rightarrow> True | c # _ \<Rightarrow> P c"
proof (cases "sign_suffix F opt uns = []")
  case True
  then show ?thesis using assms(1,2) by (cases rest) simp_all
qed (simp add: sign_suffix_def assms(3) split: if_splits)

lemma u_no_digit: "\<not> is_digit 10 CHR ''u''" "\<not> is_digit 2 CHR ''u''"
  by (simp_all add: digit_of_base_def digit_value_def)

lemma tr_read_int_R:
  assumes F: "known_format F" and M: "M \<noteq> []" and "readable_options opt" "blank ws" "delimited rest"
    and range: "if uns then 0 \<le> i \<and> i < 2 ^ bits else - (2 ^ (bits - 1)) \<le> i \<and> i < 2 ^ (bits - 1)"
  shows "tr_read_int F opt uns bits (Rd (ws @ show_int_base 10 i @ sign_suffix F opt uns @ rest) M) =
         Inr (i, Rd (finalized rest) M)"
proof -
  let ?r = "sign_suffix F opt uns @ rest"
  obtain c cs where c: "show_int_base 10 i = c # cs" "c = CHR ''-'' \<or> is_digit 10 c"
    by (rule show_int_hd [of 10 i]) auto
  have stop: "case ?r of [] \<Rightarrow> True | c # _ \<Rightarrow> \<not> is_digit 10 c"
    using delimiter_no_digit [of _ 10] u_no_digit by (intro suffix_stops [OF assms(5)]) simp_all
  have stop2: "case ?r of [] \<Rightarrow> True | c # _ \<Rightarrow> c \<noteq> p" if "p \<in> {CHR ''b'', CHR ''x''}" for p
    using that by (intro suffix_stops [OF assms(5)]) (auto simp: delimiter_def)
  have drop: "dropWhile is_blank (ws @ show_int_base 10 i @ ?r) = show_int_base 10 i @ ?r"
    using assms(4) c digit_no_blank [of c 10] by simp
  have none: "\<not> starts_with (show_int_base 10 i @ ?r) ''0b''" "\<not> starts_with (show_int_base 10 i @ ?r) ''0x''"
    by (rule no_base_prefix [OF stop2]; simp)+
  have suffix: "IntegerFormat F = WithSignSuffix \<and> uns \<Longrightarrow> consumeSuffix opt ''u'' (Rd ?r M) = Inr (Rd rest M)"
    using consumeSuffix_R [OF assms(3) M assms(5), of "CHR ''u''"] by (simp add: sign_suffix_def delimiter_def)
  have "\<not> (IntegerFormat F = WithSignSuffix \<and> uns) \<Longrightarrow> ?r = rest" by (auto simp: sign_suffix_def)
  then show ?thesis
    using from_chars_show [OF _ _ stop range] suffix
    by (auto simp: tr_read_int_def drop none tryConsumeToken_R finalizeRead_R [OF F M] simp del: starts_with_Cons)
qed

lemma tr_read_binary_R:
  assumes F: "known_format F" and M: "M \<noteq> []" and "readable_options opt" "blank ws" "delimited rest"
    and range: "0 \<le> i \<and> i < 2 ^ bits"
  shows "tr_read_int F opt True bits (Rd (ws @ ''0b'' @ show_int_base 2 i @ sign_suffix F opt True @ rest) M) =
         Inr (i, Rd (finalized rest) M)"
proof -
  let ?r = "sign_suffix F opt True @ rest"
  have stop: "case ?r of [] \<Rightarrow> True | c # _ \<Rightarrow> \<not> is_digit 2 c"
    using delimiter_no_digit [of _ 2] u_no_digit by (intro suffix_stops [OF assms(5)]) simp_all
  have drop: "dropWhile is_blank (ws @ CHR ''0'' # s) = CHR ''0'' # s" for s
    using assms(4) by (simp add: is_blank_def)
  have suffix: "IntegerFormat F = WithSignSuffix \<Longrightarrow> consumeSuffix opt ''u'' (Rd ?r M) = Inr (Rd rest M)"
    using consumeSuffix_R [OF assms(3) M assms(5), of "CHR ''u''"] by (simp add: sign_suffix_def delimiter_def)
  have tok: "tryConsumeToken ''0b'' (Rd (''0b'' @ t) M) = (True, Rd t M)" for t by (simp add: tryConsumeToken_R)
  have num: "from_chars True bits 2 (show_int_base 2 i @ ?r) = Some (i, ?r)"
    using from_chars_show [OF _ _ stop, of True i bits] range by simp
  have "consumeWhitespace (Rd (ws @ ''0b'' @ show_int_base 2 i @ ?r) M) = Rd (''0b'' @ show_int_base 2 i @ ?r) M"
    using drop by simp
  then have "tr_read_int F opt True bits (Rd (ws @ ''0b'' @ show_int_base 2 i @ ?r) M) =
      bindE (if IntegerFormat F = WithSignSuffix then consumeSuffix opt ''u'' (Rd ?r M) else Inr (Rd ?r M))
        (\<lambda>r. Inr (i, finalizeRead F r))"
    by (simp only: tr_read_int_def Let_def tok split if_True num option.case prod.case text_reader.simps simp_thms)
  then show ?thesis
    using suffix by (cases "IntegerFormat F") (simp_all add: sign_suffix_def finalizeRead_R [OF F M])
qed

section \<open>Booleans, identifiers and names\<close>

lemma tr_read_bool_R:
  assumes "known_format F" "M \<noteq> []" "blank ws"
  shows "tr_read_bool F (Rd (ws @ (if b then ''true'' else ''false'') @ rest) M) = Inr (b, Rd (finalized rest) M)"
  using assms by (simp add: tr_read_bool_def Let_def either_token_def tryConsumeToken_R finalizeRead_R is_blank_def)

definition is_identifier :: "string \<Rightarrow> bool" where
  "is_identifier s \<longleftrightarrow> s \<noteq> [] \<and> list_all is_identifier_char s"

lemma identifier_Cons:
  assumes "is_identifier s"
  obtains c cs where "s = c # cs" "is_identifier_char c"
  using assms by (cases s) (auto simp: is_identifier_def)

lemma identifier_no_blank: "is_identifier_char c \<Longrightarrow> \<not> is_blank c \<and> \<not> 128 \<le> (of_char c :: nat)"
  by (auto simp: is_identifier_char_def is_blank_def Let_def)

lemma identifier_drop_blank: "is_identifier s \<Longrightarrow> dropWhile is_blank (s @ t) = s @ t"
  by (erule identifier_Cons) (simp add: identifier_no_blank)

definition identifier_stop :: "char \<Rightarrow> bool" where
  "identifier_stop c \<longleftrightarrow> (of_char c :: nat) < 128 \<and> \<not> is_identifier_char c"

lemma span_identifier_append:
  assumes "list_all is_identifier_char s" "case r of [] \<Rightarrow> True | c # _ \<Rightarrow> identifier_stop c"
  shows "span_identifier (s @ r) = Inr (s, r)"
  using assms
proof (induction s)
  case Nil
  then show ?case by (cases r) (auto simp: identifier_stop_def)
next
  case (Cons c s)
  then show ?case using identifier_no_blank [of c] by simp
qed

lemma delimiter_stops: "delimiter c \<Longrightarrow> identifier_stop c"
  by (auto simp: delimiter_def identifier_stop_def is_identifier_char_def)

lemma readIdentifierString_R:
  assumes "known_format F" "M \<noteq> []" "list_all is_identifier_char s" "case r of [] \<Rightarrow> True | c # _ \<Rightarrow> identifier_stop c"
  shows "readIdentifierString F (Rd (s @ r) M) = Inr (s, Rd (finalized r) M)"
  using assms by (simp add: readIdentifierString_def span_identifier_append finalizeRead_R)

text \<open>The text of an enumerator, and when a reader that does not ask for the name of the enum understands it.\<close>

definition enumerator_text :: "text_format \<Rightarrow> text_options \<Rightarrow> string \<Rightarrow> string \<Rightarrow> string" where
  "enumerator_text F opt pre ident =
     (if ObjectFormat F = WithTypeName \<and> style opt = MultiLine then pre @ ''::'' @ ident else ident)"

lemma writeIdentifierString_W:
  "N \<noteq> [] \<Longrightarrow> writeIdentifierString F opt pre ''::'' ident (Wr out N) =
     Wr (out @ lead F opt N @ enumerator_text F opt pre ident) (touched N)"
  by (simp add: writeIdentifierString_def enumerator_text_def Let_def)

lemma starts_with_longer:
  assumes "\<not> starts_with s p" "list_all is_identifier_char p" "case r of [] \<Rightarrow> True | c # _ \<Rightarrow> \<not> is_identifier_char c"
  shows "\<not> starts_with (s @ r) p"
  using assms
proof (induction s p rule: starts_with.induct)
  case (2 p ps)
  then show ?case by (cases r) auto
qed auto

lemma readPrefixedIdentifierString_R:
  assumes "known_format F" "M \<noteq> []" "readable_options opt" "blank ws" "delimited rest" "ObjectFormat F = WithTypeName"
    and "is_identifier pre" "is_identifier ident" "\<not> starts_with ident pre"
  shows "readPrefixedIdentifierString F opt pre ''::'' (Rd (ws @ enumerator_text F opt pre ident @ rest) M) =
         Inr (ident, Rd (finalized rest) M)"
proof -
  have stop: "case rest of [] \<Rightarrow> True | c # _ \<Rightarrow> identifier_stop c"
    using assms(5) by (auto simp: delimited_def delimiter_stops split: list.splits)
  have idr: "readIdentifierString F (Rd (ident @ rest) M) = Inr (ident, Rd (finalized rest) M)"
    using readIdentifierString_R [OF assms(1,2) _ stop] assms(8) by (simp add: is_identifier_def)
  show ?thesis
  proof (cases "style opt = MultiLine")
    case True
    have "tryConsumeToken pre (Rd (pre @ t) M) = (True, Rd t M)" "consumeToken pre (Rd (pre @ t) M) = Inr (Rd t M)" for t
      by (simp_all add: token_simps)
    moreover have "consumeToken ''::'' (Rd (''::'' @ t) M) = Inr (Rd t M)" for t by (simp add: token_simps)
    ultimately show ?thesis
      using True assms(2,4,6) idr
      by (simp add: readPrefixedIdentifierString_def enumerator_text_def identifier_drop_blank [OF assms(7)] Let_def)
  next
    case False
    then have "policy opt = Relaxed" using assms(3) by (auto simp: readable_options_def)
    moreover have "\<not> starts_with (ident @ rest) pre"
      using assms(7,9) stop by (intro starts_with_longer) (auto simp: is_identifier_def identifier_stop_def split: list.splits)
    ultimately show ?thesis
      using False assms(2,4) idr
      by (simp add: readPrefixedIdentifierString_def enumerator_text_def identifier_drop_blank [OF assms(8)] Let_def
          tryConsumeToken_R)
  qed
qed

section \<open>Null, arrays and objects\<close>

definition value_start :: "text_format \<Rightarrow> string \<Rightarrow> bool" where
  "value_start F s \<longleftrightarrow>
     (case s of
        [] \<Rightarrow> False
      | c # _ \<Rightarrow> \<not> is_blank c \<and> c \<notin> set ''}],<'' \<and> (c = CHR ''n'' \<longrightarrow> F = StringFormat))"

lemma value_start_Cons [simp]:
  "value_start F (c # s) \<longleftrightarrow> \<not> is_blank c \<and> c \<notin> set ''}],<'' \<and> (c = CHR ''n'' \<longrightarrow> F = StringFormat)"
  by (simp add: value_start_def)

lemma value_start_Nil [simp]: "\<not> value_start F []"
  by (simp add: value_start_def)

lemma value_start_drop [simp]: "value_start F s \<Longrightarrow> dropWhile is_blank (s @ t) = s @ t"
  by (cases s) (auto simp: value_start_def)

lemma known_null:
  "known_format F \<Longrightarrow> \<exists>c cs. NullValue F = c # cs \<and> \<not> is_blank c \<and> (F = StringFormat \<longrightarrow> c = CHR ''<'') \<and> (F \<noteq> StringFormat \<longrightarrow> c = CHR ''n'')"
  unfolding known_format_def by (elim disjE) (auto simp: StringFormat_def JsonFormat_def is_blank_def)

lemma tryReadNull_null:
  assumes "known_format F" "M \<noteq> []" "blank ws"
  shows "tryReadNull F (Rd (ws @ NullValue F @ rest) M) = (True, Rd (finalized rest) M)"
proof -
  obtain c cs where c: "NullValue F = c # cs" "\<not> is_blank c" using known_null [OF assms(1)] by auto
  then have "dropWhile is_blank (ws @ NullValue F @ rest) = NullValue F @ rest" using assms(3) by simp
  moreover have "NullValue F \<noteq> []" using c by simp
  ultimately show ?thesis
    using finalizeRead_R [OF assms(1,2)] unfolding tryReadNull_def token_simps consumeWhitespace_R by simp
qed

lemma tryReadNull_value:
  assumes "known_format F" "blank ws" "value_start F s"
  shows "tryReadNull F (Rd (ws @ s @ rest) M) = (False, Rd (s @ rest) M)"
proof -
  obtain c cs where c: "NullValue F = c # cs" "F = StringFormat \<longrightarrow> c = CHR ''<''" "F \<noteq> StringFormat \<longrightarrow> c = CHR ''n''"
    using known_null [OF assms(1)] by auto
  have "\<not> starts_with (s @ rest) (NullValue F)"
    using c assms(3) by (cases s) auto
  moreover have "NullValue F \<noteq> []" using c by simp
  ultimately show ?thesis
    using assms(2,3) unfolding tryReadNull_def token_simps consumeWhitespace_R by simp
qed

definition fin :: "nesting \<Rightarrow> string \<Rightarrow> string" where
  "fin M s = (if M = [] then s else finalized s)"

lemma finalizeRead_fin: "known_format F \<Longrightarrow> finalizeRead F (Rd i M) = Rd (fin M i) M"
  by (cases "M = []") (simp_all add: fin_def finalizeRead_R)

lemma tryReadEnd_value:
  assumes "known_format F" "blank ws" "value_start F s"
  shows "tryReadArrayEnd F (Rd (ws @ s @ rest) M) = Inr (False, Rd (s @ rest) M)"
    "tryReadObjectEnd F (Rd (ws @ s @ rest) M) = Inr (False, Rd (s @ rest) M)"
proof -
  obtain z where z: "ArrayEnd F = [z]" "z \<in> set ''}]''" using known_array [OF assms(1)] by auto
  obtain c cs where c: "s = c # cs" "c \<noteq> CHR ''}''" "c \<noteq> CHR '']''" using assms(3) by (cases s) auto
  have "\<not> starts_with (s @ rest) (ArrayEnd F)" using z c by auto
  moreover have "\<not> starts_with (s @ rest) (ObjectEnd F)" using assms(1) c by simp
  ultimately show "tryReadArrayEnd F (Rd (ws @ s @ rest) M) = Inr (False, Rd (s @ rest) M)"
    "tryReadObjectEnd F (Rd (ws @ s @ rest) M) = Inr (False, Rd (s @ rest) M)"
    using assms(2,3) unfolding tryReadArrayEnd_def tryReadObjectEnd_def token_simps consumeWhitespace_R by simp_all
qed

lemma tryReadEnd_end:
  assumes "known_format F" "blank ws"
  shows "tryReadArrayEnd F (Rd (ws @ ArrayEnd F @ rest) (x # M)) = Inr (True, Rd (fin M rest) M)"
    "tryReadObjectEnd F (Rd (ws @ ObjectEnd F @ rest) (x # M)) = Inr (True, Rd (fin M rest) M)"
proof -
  obtain z where z: "ArrayEnd F = [z]" "z \<in> set ''}]''" using known_array [OF assms(1)] by auto
  then have nb: "\<not> is_blank z" "\<not> is_blank CHR ''}''" by (auto simp: is_blank_def)
  then show "tryReadArrayEnd F (Rd (ws @ ArrayEnd F @ rest) (x # M)) = Inr (True, Rd (fin M rest) M)"
    using assms(2) finalizeRead_fin [OF assms(1)]
    unfolding tryReadArrayEnd_def token_simps consumeWhitespace_R z by simp
  show "tryReadObjectEnd F (Rd (ws @ ObjectEnd F @ rest) (x # M)) = Inr (True, Rd (fin M rest) M)"
    using assms nb finalizeRead_fin [OF assms(1)]
    unfolding tryReadObjectEnd_def token_simps consumeWhitespace_R known_separators(4) [OF assms(1)] by simp
qed

lemma tr_readArrayBegin_R:
  assumes "known_format F" "blank ws"
  shows "tr_readArrayBegin F (Rd (ws @ ArrayBegin F @ s) M) = Inr (Rd s ((InArray, True) # M))"
proof -
  obtain a where a: "ArrayBegin F = [a]" "a \<in> set ''{[''" using known_array [OF assms(1)] by auto
  then have "\<not> is_blank a" by (auto simp: is_blank_def)
  then show ?thesis using assms(2) unfolding tr_readArrayBegin_def token_simps consumeWhitespace_R a by simp
qed

text \<open>The name of a struct that is written before its members.\<close>

definition type_name_text :: "text_format \<Rightarrow> text_options \<Rightarrow> nesting \<Rightarrow> string \<Rightarrow> string" where
  "type_name_text F opt N n =
     (if ObjectFormat F = WithTypeName \<and> (style opt = MultiLine \<or> style opt = SingleLine \<and> N = []) then n else [])"

definition in_array :: "nesting \<Rightarrow> bool" where
  "in_array N \<longleftrightarrow> (case N of (InArray, _) # _ \<Rightarrow> True | _ \<Rightarrow> False)"

lemma lead_not_in_array: "\<not> in_array N \<Longrightarrow> lead F opt N = [] \<and> touched N = N"
  by (auto simp: in_array_def lead_def touched_def split: list.splits prod.splits text_state.splits)

lemma writeNamedObjectBegin_W:
  assumes "known_format F" "\<not> (ObjectFormat F = WithTypeName \<and> style opt = MultiLine \<and> in_array N)"
  shows "writeNamedObjectBegin F opt n (Wr out N) =
         Wr (out @ lead F opt N @ type_name_text F opt N n @ ''{'') ((InObject, True) # touched N)"
  using assms lead_not_in_array [of N F opt]
  by (cases "ObjectFormat F"; cases "style opt")
    (auto simp: writeNamedObjectBegin_def writeObjectBegin_def type_name_text_def in_array_def)

lemma readNamedObjectBegin_R:
  assumes "known_format F" "blank ws" "is_identifier n" "readable_options opt"
  shows "readNamedObjectBegin F opt n (Rd (ws @ type_name_text F opt N n @ ''{'' @ s) M) =
         Inr (Rd s ((InObject, True) # M))"
proof -
  have brace: "\<not> is_blank CHR ''{''" by (simp add: is_blank_def)
  have ob: "readObjectBegin F (Rd (CHR ''{'' # s) M) = Inr (Rd s ((InObject, True) # M))"
    "readObjectBegin F (Rd (ws @ CHR ''{'' # s) M) = Inr (Rd s ((InObject, True) # M))"
    using assms(1,2) by (simp_all add: readObjectBegin_def token_simps brace)
  have no: "\<not> starts_with (CHR ''{'' # s) n"
    using assms(3) by (rule identifier_Cons) (auto simp: is_identifier_char_def)
  show ?thesis
  proof (cases "ObjectFormat F")
    case WithoutTypeName
    then show ?thesis using ob by (simp add: readNamedObjectBegin_def type_name_text_def)
  next
    case WithTypeName
    show ?thesis
    proof (cases "type_name_text F opt N n = []")
      case True
      then have "policy opt = Relaxed"
        using assms(3,4) WithTypeName by (auto simp: type_name_text_def readable_options_def is_identifier_def split: if_splits)
      then show ?thesis
        using True WithTypeName assms(2) ob no by (simp add: readNamedObjectBegin_def token_simps brace)
    next
      case False
      then have "type_name_text F opt N n = n" by (simp add: type_name_text_def split: if_splits)
      then show ?thesis
        using WithTypeName assms(2) ob
        by (cases "policy opt") (simp_all add: readNamedObjectBegin_def token_simps identifier_drop_blank [OF assms(3)])
    qed
  qed
qed

text \<open>A member name, after which there may be a blank before the value.\<close>

lemma readObjectMemberName_R:
  assumes "known_format F" "blank ws" "is_identifier name" "s = c # cs" "\<not> is_blank c"
  shows "\<exists>ws'. blank ws' \<and> readObjectMemberName F (Rd (ws @ member_text F opt name @ s) ((InObject, b) # M)) =
           Inr (name, Rd (ws' @ s) ((InObject, b) # M))"
proof -
  let ?N = "(InObject, b) # M"
  have idn: "list_all is_identifier_char name" using assms(3) by (simp add: is_identifier_def)
  have rd: "readIdentifierString F (Rd (name @ c' # t) ?N) = Inr (name, Rd (finalized (c' # t)) ?N)"
    if "identifier_stop c'" for c' t
    using readIdentifierString_R [OF assms(1) _ idn, of ?N "c' # t"] that by simp
  have stops: "identifier_stop CHR '' ''" "identifier_stop CHR ''=''" "identifier_stop CHR 0x22"
    by (simp_all add: identifier_stop_def is_identifier_char_def)
  have nb: "\<not> is_blank CHR ''.''" "\<not> is_blank CHR ''=''" "\<not> is_blank CHR 0x22" by (simp_all add: is_blank_def)
  from assms(1) show ?thesis unfolding known_format_def
  proof
    assume F: "F = StringFormat"
    show ?thesis
    proof (cases "style opt = Minified")
      case True
      then show ?thesis using assms(2) rd [OF stops(2)] nb
        by (intro exI [of _ "[]"]) (simp add: F StringFormat_def readObjectMemberName_def member_text_def token_simps)
    next
      case False
      have "finalized (CHR '' '' # CHR ''='' # t) = CHR ''='' # t" for t
        using finalized_simps(1) [of "'' ''" "CHR ''='' # t"] nb by simp
      then show ?thesis using False assms(2) rd [OF stops(1)] nb
        by (intro exI [of _ "'' ''"]) (simp add: F StringFormat_def readObjectMemberName_def member_text_def token_simps)
    qed
  next
    assume F: "F = JsonFormat"
    show ?thesis using assms(2,4,5) rd [OF stops(3)] nb
      by (intro exI [of _ "[]"]) (simp add: F JsonFormat_def readObjectMemberName_def member_text_def token_simps)
  qed
qed

lemma member_text_start: "known_format F \<Longrightarrow> value_start F (member_text F opt name)"
  unfolding known_format_def
  by (elim disjE) (auto simp: member_text_def StringFormat_def JsonFormat_def is_blank_def)

end
