(* ===== verification/Float_Facts.thy ===== *)
theory Float_Facts
  imports Text_Tokens
begin

text \<open>
  Floating-point numbers in text: how far reading a number depends on what follows it, and what the writer
  and the reader of a number make of each other.
\<close>

section \<open>Reading a number from the start of a text\<close>

text \<open>The characters of a finite number.\<close>

definition number_char :: "char \<Rightarrow> bool" where
  "number_char c \<longleftrightarrow> c \<in> set ''0123456789.e+-''"

definition number_stop :: "string \<Rightarrow> bool" where
  "number_stop t \<longleftrightarrow> (case t of [] \<Rightarrow> True | c # _ \<Rightarrow> delimiter c \<or> c = CHR ''f'')"

lemma number_stop_Nil [simp]: "number_stop []"
  by (simp add: number_stop_def)

lemma span_append:
  "case t of [] \<Rightarrow> True | c # _ \<Rightarrow> \<not> P c \<Longrightarrow>
   takeWhile P (s @ t) = takeWhile P s \<and> dropWhile P (s @ t) = dropWhile P s @ t"
  by (induction s) (auto split: list.splits)

lemma number_stop_digit: "number_stop t \<Longrightarrow> case t of [] \<Rightarrow> True | c # _ \<Rightarrow> \<not> is_digit 10 c"
  by (cases t) (auto simp: number_stop_def delimiter_def digit_of_base_def digit_value_def)

lemma scan_mantissa_append:
  assumes "scan_mantissa 10 s = Some (n, f, r)" "number_stop t"
  shows "scan_mantissa 10 (s @ t) = Some (n, f, r @ t)"
proof -
  note sp = span_append [OF number_stop_digit [OF assms(2)]]
  have dot: "case t of [] \<Rightarrow> True | c # _ \<Rightarrow> c \<noteq> CHR ''.''"
    using assms(2) by (cases t) (auto simp: number_stop_def delimiter_def)
  show ?thesis
  proof (cases "dropWhile (is_digit 10) s")
    case Nil
    then show ?thesis
      using assms(1) sp [of s] dot by (cases t) (simp_all add: scan_mantissa_def Let_def del: not_None_eq dropWhile_eq_Nil_conv split: if_splits)
  next
    case (Cons c cs)
    then show ?thesis
      using assms(1) sp [of s] sp [of cs]
      by (auto simp add: scan_mantissa_def Let_def simp del: not_None_eq dropWhile_eq_Nil_conv split: if_splits)
  qed
qed

lemma scan_exponent_append:
  assumes "scan_exponent CHR ''e'' s = (e, [])" "number_stop t"
  shows "scan_exponent CHR ''e'' (s @ t) = (e, t)"
proof (cases s)
  case Nil
  have "lower c \<noteq> CHR ''e''" if "t = c # cs" for c cs
    using assms(2) that by (auto simp: number_stop_def delimiter_def lower_def)
  then show ?thesis using Nil assms(1) by (cases t) (auto simp: scan_exponent_def)
next
  case (Cons c cs)
  note sp = span_append [OF number_stop_digit [OF assms(2)]]
  have c: "lower c = CHR ''e''" using Cons assms(1) by (auto simp: scan_exponent_def split: if_splits)
  define neg where "neg = (case cs of d # r \<Rightarrow> d = CHR ''-'' | [] \<Rightarrow> False)"
  define ds where "ds = (case cs of d # r \<Rightarrow> if d = CHR ''-'' \<or> d = CHR ''+'' then r else cs | [] \<Rightarrow> cs)"
  have sign: "(case cs @ u of
        d # r \<Rightarrow> if d = CHR ''-'' then (True, r) else if d = CHR ''+'' then (False, r) else (False, cs @ u)
      | [] \<Rightarrow> (False, cs @ u)) = (neg, ds @ u)" if "cs \<noteq> [] \<or> u = []" for u
    using that by (cases cs) (auto simp: neg_def ds_def)
  have exp: "scan_exponent CHR ''e'' (s @ u) =
      (if takeWhile (is_digit 10) (ds @ u) = [] then (0, s @ u)
       else (let n = int (fst (read_base 10 0 (takeWhile (is_digit 10) (ds @ u)))) in if neg then - n else n,
             dropWhile (is_digit 10) (ds @ u)))" if "cs \<noteq> [] \<or> u = []" for u
    unfolding Cons scan_exponent_def append_Cons list.case sign [OF that] by (simp add: c Let_def)
  have ds: "takeWhile (is_digit 10) ds \<noteq> []" "dropWhile (is_digit 10) ds = []"
    using assms(1) exp [of "[]"] by (auto simp: Cons simp del: not_None_eq dropWhile_eq_Nil_conv split: if_splits)
  then have "cs \<noteq> [] \<or> t = []" by (auto simp: ds_def)
  then show ?thesis
    using assms(1) exp [of "[]"] exp [of t] ds sp [of ds] by (simp del: not_None_eq)
qed

lemma match_word_hd: "lower c \<noteq> w \<Longrightarrow> match_word (w # ws) (c # cs) = None"
  by (simp add: match_word_def)

lemma no_hex:
  assumes "list_all number_char (c # cs)" "number_stop t"
  shows "match_word ''0x'' (c # cs @ t) = None"
proof (cases "cs @ t")
  case (Cons d ds)
  then have "number_char d \<or> delimiter d \<or> d = CHR ''f''"
    using assms by (cases cs) (auto simp: number_stop_def)
  then have "lower d \<noteq> CHR ''x''" by (auto simp: number_char_def delimiter_def lower_def)
  then show ?thesis by (simp add: match_word_def Cons)
qed (simp add: match_word_def)

lemma scan_number_append:
  assumes "list_all number_char s" "scan_number k s = Some (b, [])" "number_stop t"
  shows "scan_number k (s @ t) = Some (b, t)"
proof (cases s)
  case Nil
  then show ?thesis using assms(2) by (simp add: scan_number_def match_word_def scan_mantissa_def)
next
  case (Cons c cs)
  have c: "lower c \<noteq> CHR ''i''" "lower c \<noteq> CHR ''n''"
    using assms(1) by (auto simp: Cons number_char_def lower_def)
  have nx: "match_word ''0x'' (s @ u) = None" if "number_stop u" for u
    using no_hex [of c cs u] assms(1) that by (simp add: Cons)
  have dec: "scan_number k (s @ u) = (case scan_mantissa 10 (s @ u) of
      Some (n, f, r) \<Rightarrow> let (e, r') = scan_exponent CHR ''e'' r in Some (bits_scaled k 10 n (e - int f), r')
    | None \<Rightarrow> None)" if "number_stop u" for u
    using c nx [OF that] by (simp add: scan_number_def Cons match_word_hd)
  obtain n f r e where 1: "scan_mantissa 10 s = Some (n, f, r)" "scan_exponent CHR ''e'' r = (e, [])"
    "b = bits_scaled k 10 n (e - int f)"
    using assms(2) dec [of "[]"] by (auto split: option.splits prod.splits)
  show ?thesis
    using dec [OF assms(3)] scan_mantissa_append [OF 1(1) assms(3)] scan_exponent_append [OF 1(2) assms(3)] 1(3)
    by simp
qed

lemma strto_append:
  assumes "list_all number_char s" "strto k s = Some (neg, b, [])" "number_stop t"
  shows "strto k (s @ t) = Some (neg, b, t)"
proof (cases s)
  case Nil
  then show ?thesis using assms(2) by (simp add: strto_def scan_number_def match_word_def scan_mantissa_def)
next
  case (Cons c cs)
  have "\<not> is_space c" using assms(1) by (auto simp: Cons number_char_def is_space_def)
  then show ?thesis
    using assms(1,2) scan_number_append [of cs k b t] scan_number_append [of s k b t] assms(3)
    by (auto simp: strto_def Let_def Cons split: if_splits)
qed

text \<open>A number whose text is finite and is read as the same number again.\<close>

definition float64_exact :: "64 word \<Rightarrow> bool" where
  "float64_exact w \<longleftrightarrow> list_all number_char (show_float64 w) \<and> strtod (show_float64 w) = Some (w, [])"

definition float32_exact :: "32 word \<Rightarrow> bool" where
  "float32_exact w \<longleftrightarrow> list_all number_char (show_float32 w) \<and> strtof (show_float32 w) = Some (w, [])"

lemma strtod_append: "float64_exact w \<Longrightarrow> number_stop t \<Longrightarrow> strtod (show_float64 w @ t) = Some (w, t)"
  using strto_append [of "show_float64 w" binary64] by (auto simp: float64_exact_def strtod_def)

lemma strtof_append: "float32_exact w \<Longrightarrow> number_stop t \<Longrightarrow> strtof (show_float32 w @ t) = Some (w, t)"
  using strto_append [of "show_float32 w" binary32] by (auto simp: float32_exact_def strtof_def)

definition size_suffix :: "text_format \<Rightarrow> text_options \<Rightarrow> bool \<Rightarrow> string" where
  "size_suffix F opt is_float =
     (if FloatFormat F = WithSizeSuffix \<and> is_float \<and> style opt \<noteq> Minified then ''f'' else [])"

lemma tw_write_float_W:
  "N \<noteq> [] \<Longrightarrow> tw_write_float F opt is_float s (Wr out N) =
     Wr (out @ lead F opt N @ s @ size_suffix F opt is_float) (touched N)"
  by (auto simp: tw_write_float_def Let_def size_suffix_def)

lemma tr_read_float_R:
  assumes F: "known_format F" and M: "M \<noteq> []" and "readable_options opt" "delimited rest"
    and conv: "\<And>t. number_stop t \<Longrightarrow> conv (s @ t) = Some (x, t)"
  shows "tr_read_float F opt is_float conv (Rd (s @ size_suffix F opt is_float @ rest) M) =
         Inr (x, Rd (finalized rest) M)"
proof -
  let ?r = "size_suffix F opt is_float @ rest"
  have "number_stop ?r"
    using assms(4) by (auto simp: size_suffix_def number_stop_def delimited_def split: list.splits)
  then have c: "conv (s @ ?r) = Some (x, ?r)" by (rule conv)
  have suffix: "FloatFormat F = WithSizeSuffix \<and> is_float \<Longrightarrow> consumeSuffix opt ''f'' (Rd ?r M) = Inr (Rd rest M)"
    using consumeSuffix_R [OF assms(3) M assms(4), of "CHR ''f''"] by (simp add: size_suffix_def delimiter_def)
  have "\<not> (FloatFormat F = WithSizeSuffix \<and> is_float) \<Longrightarrow> ?r = rest" by (auto simp: size_suffix_def)
  then show ?thesis using suffix by (auto simp: tr_read_float_def c finalizeRead_R [OF F M])
qed

end
