(* ===== verification/Text_Roundtrip.thy ===== *)
theory Text_Roundtrip
  imports Float_Facts Cbor_Roundtrip Example_Type
begin

unbundle bit_operations_syntax

text \<open>
  Text written by a serializer and read by one with the same format: what the reader makes of an instance
  is the instance it reads into with the written properties replaced, structs merged member by member and
  vectors appended to.
\<close>

section \<open>Sequences of items\<close>

text \<open>
  The elements of an array and the members of an object, with the line break before each and the one before
  the end: what has been written after the opening token, and what is left to read after an item.
\<close>

fun joined :: "string \<Rightarrow> bool \<Rightarrow> string list \<Rightarrow> string" where
  "joined nl first [] = []"
| "joined nl first (s # ss) = (if first then [] else '','') @ nl @ s @ joined nl False ss"

fun items_left :: "string \<Rightarrow> string \<Rightarrow> string list \<Rightarrow> string" where
  "items_left nl stop [] = stop"
| "items_left nl stop (s # ss) = s @ joined nl False ss @ stop"

lemma finalized_joined:
  assumes "blank nl" "blank nl'" "z \<in> set ''}]''"
  shows "\<exists>ws. blank ws \<and> finalized (joined nl False ss @ nl' @ z # rest) = ws @ items_left nl (if ss = [] then z # rest else nl' @ z # rest) ss"
proof (cases ss)
  case Nil
  have "\<not> is_blank z" "z \<noteq> CHR '',''" using assms(3) by (auto simp: is_blank_def)
  then show ?thesis using assms(2) Nil by (intro exI [of _ "[]"]) simp
next
  case (Cons s ss')
  then show ?thesis using assms(1) by (intro exI [of _ nl]) simp
qed

lemma joined_start:
  assumes "blank nl" "blank nl'"
  shows "\<exists>ws. blank ws \<and> joined nl True ss @ nl' @ z # rest = ws @ items_left nl (if ss = [] then z # rest else nl' @ z # rest) ss"
  using assms by (cases ss) (auto intro: exI [of _ nl'] exI [of _ nl])

lemma joined_delimited:
  assumes "nl' \<in> {[], '' ''} \<or> (\<exists>k. nl' = CHR 0x0A # k)" "z \<in> set ''}]''"
  shows "delimited (joined nl False ss @ nl' @ z # rest)"
  using assms by (cases ss) (auto simp: delimiter_def)

lemma line_break_cases: "line_break opt l \<in> {[], '' ''} \<or> (\<exists>k. line_break opt l = CHR 0x0A # k)"
  by (simp add: line_break_def split: text_style.split)

lemma length_joined: "\<forall>s \<in> set ss. s \<noteq> [] \<Longrightarrow> length ss \<le> length (joined nl b ss)"
proof (induction ss arbitrary: b)
  case (Cons s ss)
  then have "length ss \<le> length (joined nl False ss)" "0 < length s" by auto
  then show ?case by (cases s) auto
qed simp

text \<open>One iteration of a reading loop that reads an item, and all of them.\<close>

type_synonym 's loop_body = "'s \<times> text_reader \<Rightarrow> ('s \<times> text_reader) result"

definition reads_item :: "text_format \<Rightarrow> 's loop_body \<Rightarrow> nesting \<Rightarrow> string \<Rightarrow> 's \<Rightarrow> 's \<Rightarrow> bool" where
  "reads_item F body M s x y \<longleftrightarrow>
     value_start F s \<and> (\<forall>t. delimited t \<longrightarrow> body (x, Rd (s @ t) M) = Inr (y, Rd (finalized t) M))"

fun reads_items :: "text_format \<Rightarrow> 's loop_body \<Rightarrow> nesting \<Rightarrow> string list \<Rightarrow> 's \<Rightarrow> 's \<Rightarrow> bool" where
  "reads_items F body M [] x y = (x = y)"
| "reads_items F body M (s # ss) x y = (\<exists>z. reads_item F body M s x z \<and> reads_items F body M ss z y)"

lemma reads_items_start: "reads_items F body M ss x y \<Longrightarrow> \<forall>s \<in> set ss. s \<noteq> []"
  by (induction ss arbitrary: x) (auto simp: reads_item_def)

lemma loop_items:
  assumes stop: "\<And>ws. blank ws \<Longrightarrow> test (Rd (ws @ z # rest) M) = Inr (True, r')"
    and item: "\<And>ws s t. blank ws \<Longrightarrow> value_start F s \<Longrightarrow> test (Rd (ws @ s @ t) M) = Inr (False, Rd (s @ t) M)"
    and z: "z \<in> set ''}]''" and nl: "blank nl"
  shows "reads_items F body M ss x y \<Longrightarrow> length ss < n \<Longrightarrow> blank ws \<Longrightarrow>
    loopE n (at_end test) body
      (x, Rd (ws @ items_left nl (if ss = [] then z # rest else line_break opt l @ z # rest) ss) M) = Inr (y, r')"
proof (induction ss arbitrary: x n ws)
  case Nil
  then obtain m where "n = Suc m" by (cases n) auto
  then show ?case using Nil stop by (simp add: at_end_def)
next
  case (Cons s ss)
  obtain m where n: "n = Suc m" "length ss < m" using Cons.prems(2) by (cases n) auto
  obtain x' where x': "reads_item F body M s x x'" "reads_items F body M ss x' y" using Cons.prems(1) by auto
  let ?t = "joined nl False ss @ line_break opt l @ z # rest"
  have "delimited ?t" using joined_delimited [OF line_break_cases z] .
  then have body: "body (x, Rd (s @ ?t) M) = Inr (x', Rd (finalized ?t) M)" "value_start F s"
    using x'(1) by (auto simp: reads_item_def)
  obtain ws' where ws': "blank ws'" "finalized ?t = ws' @ items_left nl (if ss = [] then z # rest else line_break opt l @ z # rest) ss"
    using finalized_joined [OF nl blank_line_break z] by blast
  show ?case
    using Cons.IH [OF x'(2) n(2) ws'(1)] item [OF Cons.prems(3) body(2)] body(1)
    by (simp add: n(1) at_end_def ws'(2))
qed

section \<open>What can be read back\<close>

definition known_serializer :: "text_serializer \<Rightarrow> bool" where
  "known_serializer S \<longleftrightarrow>
     (\<exists>opt lib. S = StringSerializer opt lib \<or> S = JsonSerializer opt lib)"

lemma known_serializer_format: "known_serializer S \<Longrightarrow> known_format (ts_format S)"
  unfolding known_serializer_def known_format_def
  by (elim exE disjE) (simp_all add: StringSerializer_def JsonSerializer_def)

lemma known_serializer_enum:
  "known_serializer S \<Longrightarrow>
     ts_EnumFormat S = EnumTag \<or> (ts_EnumFormat S = EnumIdentifier \<and> ts_format S = StringFormat)"
  unfolding known_serializer_def
  by (elim exE disjE) (simp_all add: StringSerializer_def JsonSerializer_def)

text \<open>
  Names are identifiers and tell the members of a struct and the enumerators of an enum apart; the name of
  an enumerator does not begin with the name of its enum, which the reader would take for the prefix. In the
  style of several lines a named struct must not be the element of a vector, because the writer puts the
  separator of the elements between its name and its members.
\<close>

fun readable_type :: "bool \<Rightarrow> descr \<Rightarrow> bool"
and readable_members :: "bool \<Rightarrow> pdesc list \<Rightarrow> bool" where
  "readable_type ml (Fundamental t) = True"
| "readable_type ml (EnumDescriptor n es) =
     (is_identifier n \<and> distinct (map en_name es)
      \<and> list_all (\<lambda>e. is_identifier (en_name e) \<and> \<not> starts_with (en_name e) n) es)"
| "readable_type ml (VectorDescriptor d) = (readable_type ml d \<and> (ml \<longrightarrow> \<not> is_struct_descr d))"
| "readable_type ml (StructD (StructDescriptor n fl ps)) =
     (is_identifier n \<and> distinct (map pd_name ps) \<and> readable_members ml ps)"
| "readable_members ml [] = True"
| "readable_members ml (PropertyDescriptor d n t k # ps) =
     (is_identifier n \<and> readable_type ml d \<and> readable_members ml ps)"

definition named_lines :: "text_serializer \<Rightarrow> bool" where
  "named_lines S \<longleftrightarrow> ObjectFormat (ts_format S) = WithTypeName \<and> style (ts_options S) = MultiLine"

text \<open>
  A floating-point number must be exact in as many digits as are written, a UUID and a time point in text
  must be what the library reads from the text it wrote, and that text must be free of quotes.
\<close>

definition quotable :: "string \<Rightarrow> bool" where
  "quotable s \<longleftrightarrow> CHR 0x22 \<notin> set s"

definition fund_text_ok :: "text_serializer \<Rightarrow> val \<Rightarrow> bool" where
  "fund_text_ok S v =
     (let lib = ts_library S in
      case v of
        VFloat32 w \<Rightarrow> float32_exact w
      | VFloat64 w \<Rightarrow> float64_exact w
      | VSteadyTimepoint w \<Rightarrow> float64_exact w
      | VDuration w \<Rightarrow> float64_exact w
      | VTimepoint w \<Rightarrow>
          (case ts_TimepointFormat S of
             FractionalSeconds \<Rightarrow> float64_exact w
           | ISO8601String \<Rightarrow>
               quotable (timepoint_toString lib w) \<and> timepoint_FromString lib (timepoint_toString lib w) = Inr w)
      | VUuid bs \<Rightarrow> quotable (uuid_toString lib bs) \<and> uuid_FromString lib (uuid_toString lib bs) = Inr bs
      | _ \<Rightarrow> True)"

fun text_ok :: "text_serializer \<Rightarrow> descr \<Rightarrow> val \<Rightarrow> bool"
and text_ok_slots :: "text_serializer \<Rightarrow> pdesc list \<Rightarrow> val option list \<Rightarrow> bool" where
  "text_ok S (Fundamental t) v = fund_text_ok S v"
| "text_ok S (EnumDescriptor n es) v = (enum_of v \<in> en_value ` set es)"
| "text_ok S (VectorDescriptor d) v = list_all (text_ok S d) (vals_of v)"
| "text_ok S (StructD (StructDescriptor n fl ps)) v = text_ok_slots S ps (slots (area_of v))"
| "text_ok_slots S [] xs = True"
| "text_ok_slots S (PropertyDescriptor d n t k # ps) xs =
     ((case hd xs of None \<Rightarrow> True | Some v \<Rightarrow> text_ok S d v) \<and> text_ok_slots S ps (tl xs))"

text \<open>What reading a value into another one results in.\<close>

fun text_merged :: "descr \<Rightarrow> val \<Rightarrow> val \<Rightarrow> val"
and text_merged_slots :: "property_set \<Rightarrow> pdesc list \<Rightarrow> val option list \<Rightarrow> val option list \<Rightarrow> val option list" where
  "text_merged (Fundamental t) old v = v"
| "text_merged (EnumDescriptor n es) old v = v"
| "text_merged (VectorDescriptor d) old v =
     VVector (vals_of old @ map (text_merged d (default_val d)) (vals_of v))"
| "text_merged (StructD (StructDescriptor n fl ps)) old v =
     VStruct (mk_area ps (text_merged_slots (validProperties (area_of v)) ps (slots (area_of old)) (slots (area_of v))))"
| "text_merged_slots inc [] xs ys = []"
| "text_merged_slots inc (PropertyDescriptor d n t k # ps) xs ys =
     (if ps_le (pd_set (PropertyDescriptor d n t k)) inc
      then map_option (text_merged d (case hd xs of None \<Rightarrow> default_val d | Some u \<Rightarrow> u)) (hd ys)
      else hd xs)
     # text_merged_slots inc ps (tl xs) (tl ys)"

section \<open>Fundamental values and enums\<close>

text \<open>What a value is written as at a place in an array or object, and what reading this results in.\<close>

definition written_as :: "text_serializer \<Rightarrow> nesting \<Rightarrow> string \<Rightarrow> (text_writer \<Rightarrow> text_writer result) \<Rightarrow> bool" where
  "written_as S N s f \<longleftrightarrow>
     value_start (ts_format S) s
     \<and> (\<forall>out. f (Wr out N) = Inr (Wr (out @ lead (ts_format S) (ts_options S) N @ s) (touched N)))"

definition read_as :: "string \<Rightarrow> (text_reader \<Rightarrow> ('a \<times> text_reader) result) \<Rightarrow> 'a \<Rightarrow> bool" where
  "read_as s f v \<longleftrightarrow>
     (\<forall>M rest. M \<noteq> [] \<longrightarrow> delimited rest \<longrightarrow> f (Rd (s @ rest) M) = Inr (v, Rd (finalized rest) M))"

lemma show_int_start: "known_format F \<Longrightarrow> value_start F (show_int_base 10 i @ t)"
proof -
  obtain c cs where c: "show_int_base 10 i = c # cs" "c = CHR ''-'' \<or> is_digit 10 c"
    by (rule show_int_hd [of 10 i]) auto
  have "is_digit 10 c \<Longrightarrow> c \<notin> set ''}],<n''" by (auto simp: digit_of_base_def digit_value_def)
  then show ?thesis using c digit_no_blank [of c 10] by (auto simp: value_start_def)
qed

lemma show_binary_start: "value_start F (''0b'' @ t)"
  by (simp add: is_blank_def)

lemma quote_start: "value_start F (StringDelimiter @ t)"
  by (simp add: StringDelimiter_def is_blank_def)

lemma exact_start:
  "float64_exact w \<Longrightarrow> value_start F (show_float64 w @ t)" "float32_exact w' \<Longrightarrow> value_start F (show_float32 w' @ t)"
proof -
  have none: "strto k [] = None" for k by (simp add: strto_def scan_number_def match_word_def scan_mantissa_def)
  have start: "list_all number_char s \<Longrightarrow> s \<noteq> [] \<Longrightarrow> value_start F (s @ t)" for s
    by (cases s) (auto simp: number_char_def is_blank_def)
  have "strtod [] = None" "strtof [] = None" by (simp_all add: strtod_def strtof_def none)
  then have "float64_exact w \<Longrightarrow> show_float64 w \<noteq> []" "float32_exact w' \<Longrightarrow> show_float32 w' \<noteq> []"
    unfolding float64_exact_def float32_exact_def by force+
  then show "float64_exact w \<Longrightarrow> value_start F (show_float64 w @ t)" "float32_exact w' \<Longrightarrow> value_start F (show_float32 w' @ t)"
    using start by (auto simp: float64_exact_def float32_exact_def)
qed

lemma written_int:
  assumes "known_serializer S"
  shows "\<forall>N. N \<noteq> [] \<longrightarrow> written_as S N (show_int_base 10 i @ sign_suffix (ts_format S) (ts_options S) uns)
    (\<lambda>w. Inr (tw_write_int (ts_format S) (ts_options S) uns i 10 w))"
  using show_int_start [OF known_serializer_format [OF assms]] by (simp add: written_as_def tw_write_int_W)

lemma read_int:
  assumes "known_serializer S" "readable_options (ts_options S)"
    and "if uns then 0 \<le> i \<and> i < 2 ^ bits else - (2 ^ (bits - 1)) \<le> i \<and> i < 2 ^ (bits - 1)"
  shows "read_as (show_int_base 10 i @ sign_suffix (ts_format S) (ts_options S) uns)
    (tr_read_int (ts_format S) (ts_options S) uns bits) i"
  using tr_read_int_R [OF known_serializer_format [OF assms(1)] _ assms(2) blank_simps(1) _ assms(3)]
  by (simp add: read_as_def)

lemma read_mapV: "read_as s f x \<Longrightarrow> (\<And>r. g r = mapV c (f r)) \<Longrightarrow> read_as s g (c x)"
  by (simp add: read_as_def mapV_def)

text \<open>The two directions together, for a value of a fundamental type and for an enumerator.\<close>

definition text_of_fund :: "text_serializer \<Rightarrow> fund_type \<Rightarrow> val \<Rightarrow> string \<Rightarrow> bool" where
  "text_of_fund S t v s \<longleftrightarrow>
     (\<forall>N. N \<noteq> [] \<longrightarrow> written_as S N s (\<lambda>w. Inr (write_fund_text S v w))) \<and> read_as s (read_fund_text S t) v"

lemma text_of_int:
  assumes "known_serializer S" "readable_options (ts_options S)"
    and "if uns then 0 \<le> i \<and> i < 2 ^ bits else - (2 ^ (bits - 1)) \<le> i \<and> i < 2 ^ (bits - 1)"
    and "\<And>w. write_fund_text S v w = tw_write_int (ts_format S) (ts_options S) uns i 10 w"
    and "\<And>r. read_fund_text S t r = mapV c (tr_read_int (ts_format S) (ts_options S) uns bits r)" "c i = v"
  shows "\<exists>s. text_of_fund S t v s"
proof
  show "text_of_fund S t v (show_int_base 10 i @ sign_suffix (ts_format S) (ts_options S) uns)"
    using written_int [OF assms(1), of i uns] read_mapV [OF read_int [OF assms(1-3)] assms(5)]
    by (simp only: text_of_fund_def assms(4,6))
qed

lemma text_of_float:
  assumes "known_serializer S" "readable_options (ts_options S)"
    and "value_start (ts_format S) (num @ size_suffix (ts_format S) (ts_options S) is_float)"
    and "\<And>t. number_stop t \<Longrightarrow> conv (num @ t) = Some (x, t)"
    and "\<And>w. write_fund_text S v w = tw_write_float (ts_format S) (ts_options S) is_float num w"
    and "\<And>r. read_fund_text S t r = mapV c (tr_read_float (ts_format S) (ts_options S) is_float conv r)" "c x = v"
  shows "\<exists>s. text_of_fund S t v s"
proof -
  let ?s = "num @ size_suffix (ts_format S) (ts_options S) is_float"
  have "\<forall>N. N \<noteq> [] \<longrightarrow> written_as S N ?s (\<lambda>w. Inr (write_fund_text S v w))"
    using assms(3) by (simp add: written_as_def assms(5) tw_write_float_W)
  moreover have "read_as ?s (tr_read_float (ts_format S) (ts_options S) is_float conv) x"
    using tr_read_float_R [OF known_serializer_format [OF assms(1)] _ assms(2) _ assms(4)] by (simp add: read_as_def)
  ultimately have "text_of_fund S t v ?s"
    using read_mapV [OF _ assms(6), where s = ?s and x = x] by (simp only: text_of_fund_def assms(7) simp_thms)
  then show ?thesis ..
qed

lemma text_of_quoted:
  assumes "known_serializer S" "quotable num"
    and "\<And>w. write_fund_text S v w = writeQuotedString (ts_format S) (ts_options S) num w"
    and "\<And>r. read_fund_text S t r = bindE (readQuotedString (ts_format S) r) (\<lambda>(s, r). bindE (g s) (\<lambda>x. Inr (c x, r)))"
    and "g num = Inr x" "c x = v"
  shows "\<exists>s. text_of_fund S t v s"
proof -
  note F = known_serializer_format [OF assms(1)]
  let ?s = "StringDelimiter @ num @ StringDelimiter"
  have "\<forall>N. N \<noteq> [] \<longrightarrow> written_as S N ?s (\<lambda>w. Inr (write_fund_text S v w))"
    by (simp add: written_as_def assms(3) writeQuotedString_W quote_start)
  moreover have "read_as ?s (read_fund_text S t) v"
    using readQuotedString_R [OF F _ blank_simps(1)] assms(2)
    by (simp add: read_as_def assms(4-6) quotable_def)
  ultimately show ?thesis unfolding text_of_fund_def by blast
qed

lemma uint_range: "0 \<le> uint w \<and> uint w < 2 ^ LENGTH('a)" for w :: "'a::len word"
  using unsigned_less [of w, where 'a = int] by simp

lemma sint_range: "- (2 ^ (LENGTH('a) - 1)) \<le> sint w \<and> sint w < 2 ^ (LENGTH('a) - 1)" for w :: "'a::len word"
  using sint_ge [of w] sint_lt [of w] by simp

lemma fund_text:
  assumes "known_serializer S" "readable_options (ts_options S)" "fund_ok t v" "fund_text_ok S v"
  shows "\<exists>s. text_of_fund S t v s"
proof (cases v)
  case (VBool b)
  then have t: "t = T_boolean" using assms(3) by (cases t) auto
  note F = known_serializer_format [OF assms(1)]
  let ?s = "if b then ''true'' else ''false''"
  have "written_as S N ?s (\<lambda>w. Inr (write_fund_text S v w))" if "N \<noteq> []" for N
    by (simp add: written_as_def write_fund_text_def VBool tw_write_bool_def F is_blank_def Let_def)
  moreover have "read_as ?s (read_fund_text S t) v"
    using tr_read_bool_R [OF F _ blank_simps(1)]
    by (simp add: read_as_def read_fund_text_def t VBool mapV_def Let_def)
  ultimately show ?thesis unfolding text_of_fund_def by blast
next
  case (VInt8 w)
  then have "t = T_int8" using assms(3) by (cases t) auto
  then show ?thesis using sint_range [of w] VInt8
    by (intro text_of_int [OF assms(1,2), where i = "sint w" and c = "\<lambda>i. VInt8 (word_of_int i)" and uns = False and bits = 8])
      (simp_all add: write_fund_text_def read_fund_text_def Let_def)
next
  case (VUInt8 w)
  then have "t = T_uint8" using assms(3) by (cases t) auto
  then show ?thesis using uint_range [of w] VUInt8
    by (intro text_of_int [OF assms(1,2), where i = "uint w" and c = "\<lambda>i. VUInt8 (word_of_int i)" and uns = True and bits = 8])
      (simp_all add: write_fund_text_def read_fund_text_def Let_def)
next
  case (VInt16 w)
  then have "t = T_int16" using assms(3) by (cases t) auto
  then show ?thesis using sint_range [of w] VInt16
    by (intro text_of_int [OF assms(1,2), where i = "sint w" and c = "\<lambda>i. VInt16 (word_of_int i)" and uns = False and bits = 16])
      (simp_all add: write_fund_text_def read_fund_text_def Let_def)
next
  case (VUInt16 w)
  then have "t = T_uint16" using assms(3) by (cases t) auto
  then show ?thesis using uint_range [of w] VUInt16
    by (intro text_of_int [OF assms(1,2), where i = "uint w" and c = "\<lambda>i. VUInt16 (word_of_int i)" and uns = True and bits = 16])
      (simp_all add: write_fund_text_def read_fund_text_def Let_def)
next
  case (VInt32 w)
  then have "t = T_int32" using assms(3) by (cases t) auto
  then show ?thesis using sint_range [of w] VInt32
    by (intro text_of_int [OF assms(1,2), where i = "sint w" and c = "\<lambda>i. VInt32 (word_of_int i)" and uns = False and bits = 32])
      (simp_all add: write_fund_text_def read_fund_text_def Let_def)
next
  case (VUInt32 w)
  then have "t = T_uint32" using assms(3) by (cases t) auto
  then show ?thesis using uint_range [of w] VUInt32
    by (intro text_of_int [OF assms(1,2), where i = "uint w" and c = "\<lambda>i. VUInt32 (word_of_int i)" and uns = True and bits = 32])
      (simp_all add: write_fund_text_def read_fund_text_def Let_def)
next
  case (VInt64 w)
  then have "t = T_int64" using assms(3) by (cases t) auto
  then show ?thesis using sint_range [of w] VInt64
    by (intro text_of_int [OF assms(1,2), where i = "sint w" and c = "\<lambda>i. VInt64 (word_of_int i)" and uns = False and bits = 64])
      (simp_all add: write_fund_text_def read_fund_text_def Let_def)
next
  case (VUInt64 w)
  then have "t = T_uint64" using assms(3) by (cases t) auto
  then show ?thesis using uint_range [of w] VUInt64
    by (intro text_of_int [OF assms(1,2), where i = "uint w" and c = "\<lambda>i. VUInt64 (word_of_int i)" and uns = True and bits = 64])
      (simp_all add: write_fund_text_def read_fund_text_def Let_def)
next
  case (VFloat32 w)
  then have "t = T_float32" using assms(3) by (cases t) auto
  then show ?thesis using VFloat32 assms(4) exact_start(2) [of w] strtof_append [of w]
    by (intro text_of_float [OF assms(1,2), where x = w and c = VFloat32 and conv = strtof and is_float = True and num = "show_float32 w"])
      (simp_all add: write_fund_text_def read_fund_text_def fund_text_ok_def Let_def)
next
  case (VFloat64 w)
  then have "t = T_float64" using assms(3) by (cases t) auto
  then show ?thesis using VFloat64 assms(4) exact_start(1) [of w] strtod_append [of w]
    by (intro text_of_float [OF assms(1,2), where x = w and c = VFloat64 and conv = strtod and is_float = False and num = "show_float64 w"])
      (simp_all add: write_fund_text_def read_fund_text_def fund_text_ok_def Let_def)
next
  case (VPropertySet p)
  then have t: "t = T_property_set" using assms(3) by (cases t) auto
  note F = known_serializer_format [OF assms(1)]
  have range: "0 \<le> uint (toValue p) \<and> uint (toValue p) < 2 ^ 32" using uint_range [of "toValue p"] by simp
  show ?thesis
  proof (cases "ts_PropertySetFormat S")
    case DecimalValue
    then show ?thesis using range t VPropertySet
      by (intro text_of_int [OF assms(1,2), where i = "uint (toValue p)" and uns = True and bits = 32
            and c = "\<lambda>i. VPropertySet (PropertySet (word_of_int i))"])
        (simp_all add: write_fund_text_def read_fund_text_def Let_def)
  next
    case BinaryValue
    let ?s = "''0b'' @ show_int_base 2 (uint (toValue p)) @ sign_suffix (ts_format S) (ts_options S) True"
    have "written_as S N ?s (\<lambda>w. Inr (write_fund_text S v w))" if "N \<noteq> []" for N
      using that by (simp add: written_as_def write_fund_text_def VPropertySet BinaryValue tw_write_int_W is_blank_def Let_def)
    moreover have "read_as ?s (read_fund_text S t) v"
      using tr_read_binary_R [OF F _ assms(2) blank_simps(1) _ range]
      by (simp add: read_as_def read_fund_text_def t VPropertySet mapV_def Let_def)
    ultimately show ?thesis unfolding text_of_fund_def by blast
  qed
next
  case (VTimepoint w)
  then have "t = T_timepoint" using assms(3) by (cases t) auto
  note t = this
  show ?thesis
  proof (cases "ts_TimepointFormat S")
    case FractionalSeconds
    then show ?thesis using t VTimepoint assms(4) exact_start(1) [of w] strtod_append [of w]
      by (intro text_of_float [OF assms(1,2), where x = w and c = VTimepoint and conv = strtod and is_float = False and num = "show_float64 w"])
        (simp_all add: write_fund_text_def read_fund_text_def fund_text_ok_def Let_def)
  next
    case ISO8601String
    then show ?thesis using t VTimepoint assms(4)
      by (intro text_of_quoted [OF assms(1), where x = w and c = VTimepoint and g = "timepoint_FromString (ts_library S)"
            and num = "timepoint_toString (ts_library S) w"])
        (simp_all add: write_fund_text_def read_fund_text_def fund_text_ok_def Let_def)
  qed
next
  case (VSteadyTimepoint w)
  then have "t = T_steady_timepoint" using assms(3) by (cases t) auto
  then show ?thesis using VSteadyTimepoint assms(4) exact_start(1) [of w] strtod_append [of w]
    by (intro text_of_float [OF assms(1,2), where x = w and c = VSteadyTimepoint and conv = strtod and is_float = False and num = "show_float64 w"])
      (simp_all add: write_fund_text_def read_fund_text_def fund_text_ok_def Let_def)
next
  case (VDuration w)
  then have "t = T_duration" using assms(3) by (cases t) auto
  then show ?thesis using VDuration assms(4) exact_start(1) [of w] strtod_append [of w]
    by (intro text_of_float [OF assms(1,2), where x = w and c = VDuration and conv = strtod and is_float = False and num = "show_float64 w"])
      (simp_all add: write_fund_text_def read_fund_text_def fund_text_ok_def Let_def)
next
  case (VUuid bs)
  then have "t = T_uuid" using assms(3) by (cases t) auto
  then show ?thesis using VUuid assms(4)
    by (intro text_of_quoted [OF assms(1), where x = bs and c = VUuid and g = "uuid_FromString (ts_library S)" and num = "uuid_toString (ts_library S) bs"])
      (simp_all add: write_fund_text_def read_fund_text_def fund_text_ok_def Let_def)
next
  case (VString s)
  then have t: "t = T_string" using assms(3) by (cases t) auto
  note F = known_serializer_format [OF assms(1)]
  let ?s = "StringDelimiter @ escape_text s @ StringDelimiter"
  have "written_as S N ?s (\<lambda>w. Inr (write_fund_text S v w))" if "N \<noteq> []" for N
    using that by (simp add: written_as_def write_fund_text_def VString writeEscapedString_W quote_start Let_def)
  moreover have "read_as ?s (read_fund_text S t) v"
    using readEscapedString_R [OF F _ blank_simps(1)]
    by (simp add: read_as_def read_fund_text_def t VString mapV_def Let_def)
  ultimately show ?thesis unfolding text_of_fund_def by blast
qed (use assms(3) in \<open>cases t; simp\<close>)+

lemma find_by_key:
  assumes "find P xs = Some e" "distinct (map f xs)"
  shows "find (\<lambda>y. f y = f e) xs = Some e"
  using find_unique_key [OF assms(2)] find_Some_set [OF assms(1)] by blast

lemma enum_text:
  assumes S: "known_serializer S" and opt: "readable_options (ts_options S)"
    and wf: "wf_descr (EnumDescriptor n es)" "readable_type ml (EnumDescriptor n es)" "v \<in> en_value ` set es"
  shows "\<exists>s. (\<forall>N. N \<noteq> [] \<longrightarrow> written_as S N s (write_enum_text S n es v)) \<and> read_as s (read_enum_text S n es) (VEnum v)"
proof -
  note F = known_serializer_format [OF S]
  obtain e where e: "find (\<lambda>e. en_value e = v) es = Some e"
    using wf(3) by (cases "find (\<lambda>e. en_value e = v) es") (auto simp: find_None_set)
  then have ev: "enumeratorFromValue es v = Inr e" "en_value e = v" "e \<in> set es"
    using find_Some_set [OF e] by (simp_all add: enumeratorFromValue_def)
  have lookup: "enumeratorFromTag es (en_tag e) = Inr e" "enumeratorFromName es (en_name e) = Inr e"
    using find_by_key [OF e, of en_tag] find_by_key [OF e, of en_name] wf(1,2)
    by (simp_all add: enumeratorFromTag_def enumeratorFromName_def)
  from known_serializer_enum [OF S] show ?thesis
  proof
    assume tag: "ts_EnumFormat S = EnumTag"
    have range: "if True then 0 \<le> uint (en_tag e) \<and> uint (en_tag e) < 2 ^ 32 else - (2 ^ (32 - 1)) \<le> uint (en_tag e) \<and> uint (en_tag e) < 2 ^ (32 - 1)"
      using uint_range [of "en_tag e"] by simp
    show ?thesis
      using written_int [OF S, of "uint (en_tag e)" True] read_int [OF S opt range] lookup(1) ev
      by (intro exI [of _ "show_int_base 10 (uint (en_tag e)) @ sign_suffix (ts_format S) (ts_options S) True"])
        (simp add: written_as_def read_as_def write_enum_text_def read_enum_text_def tag)
  next
    assume name: "ts_EnumFormat S = EnumIdentifier \<and> ts_format S = StringFormat"
    have names: "is_identifier n" "is_identifier (en_name e)" "\<not> starts_with (en_name e) n"
      using wf(2) ev(3) by (auto simp: list_all_iff)
    let ?s = "enumerator_text (ts_format S) (ts_options S) n (en_name e)"
    have "value_start (ts_format S) ?s"
    proof -
      have start: "is_identifier i \<Longrightarrow> value_start StringFormat (i @ t)" for i t
        by (erule identifier_Cons) (auto simp: identifier_no_blank is_identifier_char_def)
      show ?thesis using start [OF names(1)] start [OF names(2), of "[]"] name by (simp add: enumerator_text_def)
    qed
    then have "written_as S N ?s (write_enum_text S n es v)" if "N \<noteq> []" for N
      using that name ev(1) by (simp add: written_as_def write_enum_text_def writeIdentifierString_W Let_def)
    moreover have "read_as ?s (read_enum_text S n es) (VEnum v)"
      using readPrefixedIdentifierString_R [OF F _ opt blank_simps(1) _ _ names] name lookup(2) ev(2)
      by (simp add: read_as_def read_enum_text_def StringFormat_def)
    ultimately show ?thesis by blast
  qed
qed

section \<open>Members\<close>

lemma find_named_nth:
  assumes "distinct (map pd_name ps)" "i < length ps"
  shows "find_named (pd_name (ps ! i)) ps = Some (i, ps ! i)"
proof -
  have "(i, ps ! i) \<in> set (enumerate 0 ps)" using assms by (simp add: in_set_enumerate_eq)
  moreover have "map (\<lambda>(i, p). pd_name p) (enumerate 0 ps) = map pd_name ps"
    by (simp add: map_snd_enumerate split_def flip: map_map [of pd_name snd, unfolded comp_def])
  then have "distinct (map (\<lambda>(i, p). pd_name p) (enumerate 0 ps))" using assms(1) by simp
  ultimately have "find (\<lambda>y. (\<lambda>(i, p). pd_name p) y = (\<lambda>(i, p). pd_name p) (i, ps ! i)) (enumerate 0 ps) =
      Some (i, ps ! i)"
    by (rule find_unique_key [rotated])
  then show ?thesis by (simp add: find_named_def split_def)
qed

lemma value_start_ConsE:
  assumes "value_start F s" obtains c cs where "s = c # cs" "\<not> is_blank c"
  using assms by (cases s) auto

lemma null_Cons: "known_format F \<Longrightarrow> \<exists>c cs. NullValue F @ t = c # cs \<and> \<not> is_blank c"
  using known_null [of F] by fastforce

lemma reads_member:
  assumes S: "known_serializer S" and qs: "wf_tags qs" "distinct (map pd_name qs)" "length xs = length qs" "i < length qs"
    and name: "is_identifier (pd_name (qs ! i))"
    and val: "value_start (ts_format S) s"
      "read_as s (read_text S (valueDescriptor (qs ! i))
         (case xs ! i of None \<Rightarrow> default_val (valueDescriptor (qs ! i)) | Some u \<Rightarrow> u)) v"
  shows "reads_item (ts_format S) (read_member S qs ps_All) ((InObject, b) # M)
    (member_text (ts_format S) (ts_options S) (pd_name (qs ! i)) @ s) (mk_area qs xs) (mk_area qs (xs[i := Some v]))"
  unfolding reads_item_def
proof (intro conjI allI impI)
  note F = known_serializer_format [OF S]
  let ?F = "ts_format S" and ?M = "(InObject, b) # M"
  show "value_start ?F (member_text ?F (ts_options S) (pd_name (qs ! i)) @ s)"
    using member_text_start [OF F, of "ts_options S" "pd_name (qs ! i)"]
    by (cases "member_text ?F (ts_options S) (pd_name (qs ! i))") auto
  fix t assume t: "delimited t"
  obtain c cs where c: "s = c # cs" "\<not> is_blank c" using val(1) by (rule value_start_ConsE)
  obtain ws where ws: "blank ws"
    "readObjectMemberName ?F (Rd (member_text ?F (ts_options S) (pd_name (qs ! i)) @ s @ t) ?M) =
       Inr (pd_name (qs ! i), Rd (ws @ s @ t) ?M)"
    using readObjectMemberName_R [OF F blank_simps(1) name, of "s @ t" c "cs @ t" "ts_options S" b M] c by auto
  have inc: "ps_le (pd_set (qs ! i)) ps_All" using pd_index_less [OF qs(1,4)] by simp
  have rd: "read_text S (valueDescriptor (qs ! i)) (case xs ! i of None \<Rightarrow> default_val (valueDescriptor (qs ! i)) | Some u \<Rightarrow> u)
      (Rd (s @ t) ?M) = Inr (v, Rd (finalized t) ?M)"
    using val(2) t by (simp add: read_as_def)
  show "read_member S qs ps_All (mk_area qs xs, Rd ((member_text ?F (ts_options S) (pd_name (qs ! i)) @ s) @ t) ?M) =
      Inr (mk_area qs (xs[i := Some v]), Rd (finalized t) ?M)"
    using ws(2) find_named_nth [OF qs(2,4)] inc tryReadNull_value [OF F ws(1) val(1)] qs rd
    by (simp del: ps_le_iff)
qed

lemma reads_null_member:
  assumes S: "known_serializer S" and qs: "wf_tags qs" "distinct (map pd_name qs)" "length xs = length qs" "i < length qs"
    and name: "is_identifier (pd_name (qs ! i))"
  shows "reads_item (ts_format S) (read_member S qs ps_All) ((InObject, b) # M)
    (member_text (ts_format S) (ts_options S) (pd_name (qs ! i)) @ NullValue (ts_format S))
    (mk_area qs xs) (mk_area qs (xs[i := None]))"
  unfolding reads_item_def
proof (intro conjI allI impI)
  note F = known_serializer_format [OF S]
  let ?F = "ts_format S" and ?M = "(InObject, b) # M"
  show "value_start ?F (member_text ?F (ts_options S) (pd_name (qs ! i)) @ NullValue ?F)"
    using member_text_start [OF F, of "ts_options S" "pd_name (qs ! i)"]
    by (cases "member_text ?F (ts_options S) (pd_name (qs ! i))") auto
  fix t assume t: "delimited t"
  obtain c cs where c: "NullValue ?F @ t = c # cs" "\<not> is_blank c" using null_Cons [OF F] by blast
  obtain ws where ws: "blank ws"
    "readObjectMemberName ?F (Rd (member_text ?F (ts_options S) (pd_name (qs ! i)) @ NullValue ?F @ t) ?M) =
       Inr (pd_name (qs ! i), Rd (ws @ NullValue ?F @ t) ?M)"
    using readObjectMemberName_R [OF F blank_simps(1) name c, of "ts_options S" b M] by auto
  have inc: "ps_le (pd_set (qs ! i)) ps_All" using pd_index_less [OF qs(1,4)] by simp
  show "read_member S qs ps_All (mk_area qs xs, Rd ((member_text ?F (ts_options S) (pd_name (qs ! i)) @ NullValue ?F) @ t) ?M) =
      Inr (mk_area qs (xs[i := None]), Rd (finalized t) ?M)"
    using ws(2) find_named_nth [OF qs(2,4)] inc tryReadNull_null [OF F _ ws(1), of ?M t] qs
    by (simp del: ps_le_iff)
qed

section \<open>Arrays, objects and all values\<close>

definition element_body :: "text_serializer \<Rightarrow> descr \<Rightarrow> val list loop_body" where
  "element_body S d = (\<lambda>(vs, r). bindE (read_text S d (default_val d) r) (\<lambda>(v, r). Inr (vs @ [v], r)))"

lemma length_text_merged_slots [simp]: "length (text_merged_slots inc ps xs ys) = length ps"
proof (induction ps arbitrary: xs ys)
  case (Cons p ps)
  then show ?case by (cases p) simp
qed simp

lemma element_texts:
  assumes S: "known_serializer S"
    and elem: "\<And>v b. v \<in> set vs \<Longrightarrow> \<exists>s. written_as S ((InArray, b) # N) s (write_text S d v)
      \<and> read_as s (read_text S d (default_val d)) (text_merged d (default_val d) v)"
  shows "\<exists>ss. (\<forall>out. foldE (write_text S d) vs (Wr out ((InArray, b) # N)) =
            Inr (Wr (out @ joined (line_break (ts_options S) (Suc (length N))) b ss) ((InArray, b \<and> ss = []) # N)))
     \<and> (\<forall>M acc. reads_items (ts_format S) (element_body S d) ((InArray, True) # M) ss acc
          (acc @ map (text_merged d (default_val d)) vs))"
  using elem
proof (induction vs arbitrary: b)
  case Nil
  then show ?case by (intro exI [of _ "[]"]) simp
next
  case (Cons v vs)
  note F = known_serializer_format [OF S]
  let ?nl = "line_break (ts_options S) (Suc (length N))"
  obtain s where s: "written_as S ((InArray, b) # N) s (write_text S d v)"
    "read_as s (read_text S d (default_val d)) (text_merged d (default_val d) v)"
    using Cons.prems [of v b] by auto
  obtain ss where ss: "\<And>out. foldE (write_text S d) vs (Wr out ((InArray, False) # N)) =
        Inr (Wr (out @ joined ?nl False ss) ((InArray, False) # N))"
    "\<And>M acc. reads_items (ts_format S) (element_body S d) ((InArray, True) # M) ss acc
        (acc @ map (text_merged d (default_val d)) vs)"
    using Cons.IH [of False] Cons.prems by auto
  have "foldE (write_text S d) (v # vs) (Wr out ((InArray, b) # N)) =
      Inr (Wr (out @ joined ?nl b (s # ss)) ((InArray, False) # N))" for out
    using s(1) ss(1) F by (simp add: written_as_def lead_def)
  moreover have "reads_item (ts_format S) (element_body S d) ((InArray, True) # M) s acc
      (acc @ [text_merged d (default_val d) v])" for M acc
    using s by (simp add: reads_item_def written_as_def read_as_def element_body_def)
  then have "reads_items (ts_format S) (element_body S d) ((InArray, True) # M) (s # ss) acc
      (acc @ map (text_merged d (default_val d)) (v # vs))" for M acc
    using ss(2) [of M "acc @ [text_merged d (default_val d) v]"] by auto
  ultimately show ?case by (intro exI [of _ "s # ss"]) simp
qed

text \<open>From the items to the array or object around them.\<close>

lemma read_vector:
  assumes S: "known_serializer S"
    and items: "\<And>M. reads_items (ts_format S) (element_body S d) ((InArray, True) # M) ss xs ys"
    and old: "vals_of old = xs" and l: "nl = line_break (ts_options S) l"
  shows "read_as (ArrayBegin (ts_format S) @ joined nl True ss @ line_break (ts_options S) l' @ ArrayEnd (ts_format S))
    (read_text S (VectorDescriptor d) old) (VVector ys)"
  unfolding read_as_def
proof (intro allI impI)
  note F = known_serializer_format [OF S]
  let ?F = "ts_format S"
  fix M :: nesting and rest :: string assume M: "M \<noteq> []" and rest: "delimited rest"
  let ?M = "(InArray, True) # M"
  obtain z where z: "ArrayEnd ?F = [z]" "z \<in> set ''}]''" using known_array [OF F] by auto
  let ?i = "joined nl True ss @ line_break (ts_options S) l' @ z # rest"
  obtain ws where ws: "blank ws" "?i = ws @ items_left nl (if ss = [] then z # rest else line_break (ts_options S) l' @ z # rest) ss"
    using joined_start [of nl "line_break (ts_options S) l'" ss z rest] l by auto
  have "loopE (Suc (length ?i)) (at_end (tryReadArrayEnd ?F)) (element_body S d) (xs, Rd ?i ?M) =
      Inr (ys, Rd (fin M rest) M)"
    unfolding ws(2)
  proof (rule loop_items [OF _ tryReadEnd_value(1) [OF F] z(2) _ items])
    show "tryReadArrayEnd ?F (Rd (ws @ z # rest) ?M) = Inr (True, Rd (fin M rest) M)" if "blank ws" for ws
      using tryReadEnd_end(1) [OF F that, of rest "(InArray, True)" M] by (simp add: z(1))
    show "length ss < Suc (length (ws @ items_left nl (if ss = [] then z # rest else line_break (ts_options S) l' @ z # rest) ss))"
      using length_joined [OF reads_items_start [OF items], of nl True] unfolding ws(2) [symmetric] by simp
  qed (use l ws(1) in simp_all)
  then show "read_text S (VectorDescriptor d) old
      (Rd ((ArrayBegin ?F @ joined nl True ss @ line_break (ts_options S) l' @ ArrayEnd ?F) @ rest) M) =
      Inr (VVector ys, Rd (finalized rest) M)"
    using tr_readArrayBegin_R [OF F blank_simps(1), of ?i M] M old
    by (simp add: z(1) mapV_def fin_def element_body_def del: loopE.simps)
qed

text \<open>The loop over the members, for any property set, reading into an area.\<close>

lemma read_members:
  assumes F: "known_format (ts_format S)"
    and items: "reads_items (ts_format S) body ((InObject, True) # M) ss x y"
    and l: "nl = line_break (ts_options S) l"
  shows "loopE (Suc (length (joined nl True ss @ line_break (ts_options S) l' @ ''}'' @ rest)))
      (at_end (tryReadObjectEnd (ts_format S))) body
      (x, Rd (joined nl True ss @ line_break (ts_options S) l' @ ''}'' @ rest) ((InObject, True) # M)) =
    Inr (y, Rd (fin M rest) M)"
proof -
  let ?F = "ts_format S" and ?M = "(InObject, True) # M"
  let ?i = "joined nl True ss @ line_break (ts_options S) l' @ CHR ''}'' # rest"
  obtain ws where ws: "blank ws" "?i = ws @ items_left nl (if ss = [] then CHR ''}'' # rest else line_break (ts_options S) l' @ CHR ''}'' # rest) ss"
    using joined_start [of nl "line_break (ts_options S) l'" ss "CHR ''}''" rest] l by auto
  have "loopE (Suc (length ?i)) (at_end (tryReadObjectEnd ?F)) body (x, Rd ?i ?M) = Inr (y, Rd (fin M rest) M)"
    unfolding ws(2)
  proof (rule loop_items [OF _ tryReadEnd_value(2) [OF F] _ _ items])
    show "tryReadObjectEnd ?F (Rd (ws @ CHR ''}'' # rest) ?M) = Inr (True, Rd (fin M rest) M)" if "blank ws" for ws
      using tryReadEnd_end(2) [OF F that, of rest "(InObject, True)" M] F by simp
    show "length ss < Suc (length (ws @ items_left nl (if ss = [] then CHR ''}'' # rest else line_break (ts_options S) l' @ CHR ''}'' # rest) ss))"
      using length_joined [OF reads_items_start [OF items], of nl True] unfolding ws(2) [symmetric] by simp
  qed (use l ws(1) in simp_all)
  then show ?thesis by simp
qed

text \<open>What the members from the \<open>k\<close>-th on are written as, and what reading them does.\<close>

definition members_text ::
    "text_serializer \<Rightarrow> pdesc list \<Rightarrow> nat \<Rightarrow> property_set \<Rightarrow> pdesc list \<Rightarrow> val option list \<Rightarrow> nesting \<Rightarrow> bool \<Rightarrow> string list \<Rightarrow> bool" where
  "members_text S qs k inc ps ys N b ss \<longleftrightarrow>
     (\<forall>out. write_text_props S inc k ps (mk_area qs ys) (Wr out ((InObject, b) # N)) =
        Inr (Wr (out @ joined (line_break (ts_options S) (Suc (length N))) b ss) ((InObject, b \<and> ss = []) # N)))
     \<and> (\<forall>M xs. length xs = length qs \<longrightarrow> slots_ok ps (drop k xs) \<longrightarrow>
          reads_items (ts_format S) (read_member S qs ps_All) ((InObject, True) # M) ss
            (mk_area qs xs) (mk_area qs (take k xs @ text_merged_slots inc ps (drop k xs) (drop k ys))))"

lemma members_excluded:
  assumes "k < length qs" "\<not> ps_le (pd_set p) inc" "members_text S qs (Suc k) inc ps ys N b ss"
  shows "members_text S qs k inc (p # ps) ys N b ss"
proof -
  obtain d n t key where p: "p = PropertyDescriptor d n t key" by (cases p)
  have "take k xs @ text_merged_slots inc (p # ps) (drop k xs) (drop k ys) =
      take (Suc k) xs @ text_merged_slots inc ps (drop (Suc k) xs) (drop (Suc k) ys)" if "length xs = length qs" for xs
    using assms(1,2) that by (simp add: p take_Suc_conv_app_nth hd_drop_conv_nth tl_drop drop_Suc del: ps_le_iff)
  moreover have "slots_ok ps (drop (Suc k) xs)" if "slots_ok (p # ps) (drop k xs)" for xs
    using that by (cases "drop k xs") (auto simp: p drop_Suc tl_drop [symmetric])
  ultimately show ?thesis
    using assms(2,3) by (auto simp: members_text_def p simp del: ps_le_iff)
qed

text \<open>The text after the name of a member, and what the member is after reading it.\<close>

definition member_value :: "text_serializer \<Rightarrow> descr \<Rightarrow> nesting \<Rightarrow> val option \<Rightarrow> string \<Rightarrow> bool" where
  "member_value S d N y s \<longleftrightarrow>
     (case y of
        None \<Rightarrow> s = NullValue (ts_format S)
      | Some v \<Rightarrow> written_as S ((InObject, False) # N) s (write_text S d v)
          \<and> (\<forall>old. val_ok d old \<longrightarrow> read_as s (read_text S d old) (text_merged d old v)))"

lemma member_reads:
  assumes S: "known_serializer S" and qs: "wf_tags qs" "distinct (map pd_name qs)" "k < length qs" "length xs = length qs"
    and p: "qs ! k = PropertyDescriptor d n t key" "is_identifier n" "wf_descr d"
    and val: "member_value S d N y s" and old: "\<forall>v. xs ! k = Some v \<longrightarrow> val_ok d v"
  shows "reads_item (ts_format S) (read_member S qs ps_All) ((InObject, True) # M)
    (member_text (ts_format S) (ts_options S) n @ s) (mk_area qs xs)
    (mk_area qs (xs[k := map_option (text_merged d (case xs ! k of None \<Rightarrow> default_val d | Some u \<Rightarrow> u)) y]))"
proof (cases y)
  case None
  then show ?thesis
    using reads_null_member [OF S qs(1,2,4,3), of True M] p val by (simp add: member_value_def)
next
  case (Some v)
  have "val_ok d (case xs ! k of None \<Rightarrow> default_val d | Some u \<Rightarrow> u)"
    using old default_val_ok [OF p(3)] by (simp split: option.split)
  then show ?thesis
    using reads_member [OF S qs(1,2,4,3), of s _ True M, unfolded p(1) pdesc.sel, OF p(2)] val Some
    by (simp add: member_value_def written_as_def)
qed

lemma members_included:
  assumes S: "known_serializer S" and qs: "wf_tags qs" "distinct (map pd_name qs)" "k < length qs" "length ys = length qs"
    and p: "qs ! k = PropertyDescriptor d n t key" "is_identifier n" "wf_descr d"
    and inc: "ps_le (pd_set (PropertyDescriptor d n t key)) inc"
    and val: "member_value S d N (ys ! k) s" and tl: "members_text S qs (Suc k) inc ps ys N False ss"
  shows "members_text S qs k inc (PropertyDescriptor d n t key # ps) ys N b ((member_text (ts_format S) (ts_options S) n @ s) # ss)"
  unfolding members_text_def
proof (intro conjI allI impI)
  note F = known_serializer_format [OF S]
  let ?F = "ts_format S" and ?nl = "line_break (ts_options S) (Suc (length N))"
  let ?p = "PropertyDescriptor d n t key" and ?m = "member_text (ts_format S) (ts_options S) n"
  fix out
  have valid: "isValid ?p (mk_area qs ys) \<longleftrightarrow> ys ! k \<noteq> None"
    using isValid_mk_area [OF qs(1,4,3)] by (simp add: p(1) del: isValid_iff)
  have "(if isValid ?p (mk_area qs ys) then bindE (read_slot k (mk_area qs ys)) (\<lambda>v. write_text S d v (Wr o' ((InObject, False) # N)))
         else Inr (writeNull ?F (ts_options S) (Wr o' ((InObject, False) # N)))) = Inr (Wr (o' @ s) ((InObject, False) # N))" for o'
    using val valid qs(3,4)
    by (cases "ys ! k") (simp_all add: member_value_def written_as_def writeNull_def del: isValid_iff)
  then show "write_text_props S inc k (?p # ps) (mk_area qs ys) (Wr out ((InObject, b) # N)) =
      Inr (Wr (out @ joined ?nl b ((?m @ s) # ss)) ((InObject, b \<and> (?m @ s) # ss = []) # N))"
    using inc tl F by (simp add: members_text_def del: ps_le_iff isValid_iff)
next
  fix M :: nesting and xs assume xs: "length xs = length qs" "slots_ok (PropertyDescriptor d n t key # ps) (drop k xs)"
  let ?p = "PropertyDescriptor d n t key"
  let ?x = "map_option (text_merged d (case xs ! k of None \<Rightarrow> default_val d | Some u \<Rightarrow> u)) (ys ! k)"
  have dxs: "drop k xs = xs ! k # drop (Suc k) xs" and dys: "drop k ys = ys ! k # drop (Suc k) ys"
    using qs(3,4) xs(1) by (simp_all add: Cons_nth_drop_Suc)
  then have old: "\<forall>v. xs ! k = Some v \<longrightarrow> val_ok d v" "slots_ok ps (drop (Suc k) xs)" using xs(2) by auto
  have "take (Suc k) (xs[k := ?x]) @ text_merged_slots inc ps (drop (Suc k) (xs[k := ?x])) (drop (Suc k) ys) =
      take k xs @ text_merged_slots inc (?p # ps) (drop k xs) (drop k ys)"
    using qs(3) xs(1) inc by (simp add: take_Suc_conv_app_nth dxs dys del: ps_le_iff)
  moreover have "reads_items (ts_format S) (read_member S qs ps_All) ((InObject, True) # M) ss (mk_area qs (xs[k := ?x]))
      (mk_area qs (take (Suc k) (xs[k := ?x]) @ text_merged_slots inc ps (drop (Suc k) (xs[k := ?x])) (drop (Suc k) ys)))"
    using xs(1) old(2) by (intro tl [unfolded members_text_def, THEN conjunct2, rule_format]) simp_all
  ultimately show "reads_items (ts_format S) (read_member S qs ps_All) ((InObject, True) # M)
      ((member_text (ts_format S) (ts_options S) n @ s) # ss) (mk_area qs xs)
      (mk_area qs (take k xs @ text_merged_slots inc (?p # ps) (drop k xs) (drop k ys)))"
    using member_reads [OF S qs(1-3) xs(1) p val old(1), of M] by (auto simp only: reads_items.simps)
qed

lemma type_name_start:
  assumes "known_format F" "is_identifier n" shows "value_start F (type_name_text F opt N n @ ''{'' @ t)"
proof (cases "type_name_text F opt N n = []")
  case False
  then have n: "type_name_text F opt N n = n" "ObjectFormat F = WithTypeName"
    by (auto simp: type_name_text_def split: if_splits)
  then have F: "F = StringFormat"
    using assms(1) unfolding known_format_def by (elim disjE) (simp_all add: JsonFormat_def)
  obtain c cs where c: "n = c # cs" "is_identifier_char c" using assms(2) by (rule identifier_Cons)
  then have "c \<notin> set ''}],<''" by (auto simp: is_identifier_char_def)
  then have "value_start F (n @ u)" for u using identifier_no_blank [OF c(2)] by (simp add: c(1) F)
  then show ?thesis by (simp add: n(1))
qed (simp add: is_blank_def)

lemma write_then_read_text:
  assumes S: "known_serializer S" and opt: "readable_options (ts_options S)"
  shows "wf_descr d \<Longrightarrow> readable_type (named_lines S) d \<Longrightarrow> val_ok d v \<Longrightarrow> text_ok S d v \<Longrightarrow> N \<noteq> [] \<Longrightarrow>
      \<not> (named_lines S \<and> in_array N \<and> is_struct_descr d) \<Longrightarrow>
      \<exists>s. written_as S N s (write_text S d v)
        \<and> (\<forall>old. val_ok d old \<longrightarrow> read_as s (read_text S d old) (text_merged d old v))"
    "wf_props ps \<Longrightarrow> readable_members (named_lines S) ps \<Longrightarrow> wf_tags qs \<Longrightarrow> distinct (map pd_name qs) \<Longrightarrow>
      drop k qs = ps \<Longrightarrow> length ys = length qs \<Longrightarrow> slots_ok ps (drop k ys) \<Longrightarrow> text_ok_slots S ps (drop k ys) \<Longrightarrow>
      \<exists>ss. members_text S qs k inc ps ys N' b ss"
proof (induction d and ps arbitrary: v N and qs k ys N' b inc rule: wf_descr_wf_props.induct)
  case (1 t)
  obtain s where "text_of_fund S t v s" using fund_text [OF S opt] 1 by auto
  then show ?case using 1 by (intro exI [of _ s]) (auto simp: text_of_fund_def read_as_def written_as_def)
next
  case (2 n es)
  then obtain w where w: "v = VEnum w" by (cases v) auto
  then obtain s where "\<forall>N. N \<noteq> [] \<longrightarrow> written_as S N s (write_enum_text S n es w)" "read_as s (read_enum_text S n es) (VEnum w)"
    using enum_text [OF S opt 2(1,2), of w] 2(4) by (auto simp: enum_of_def)
  then show ?case using 2(5) w by (intro exI [of _ s]) (auto simp: read_as_def written_as_def enum_of_def)
next
  case (3 d)
  note F = known_serializer_format [OF S]
  obtain vs where v: "v = VVector vs" "list_all (val_ok d) vs" using 3(4) by (cases v) auto
  let ?N = "touched N"
  have "\<exists>s. written_as S ((InArray, b) # ?N) s (write_text S d u)
      \<and> read_as s (read_text S d (default_val d)) (text_merged d (default_val d) u)" if "u \<in> set vs" for u b
    using 3(1) [of u "(InArray, b) # ?N"] 3(2,3,5) v that default_val_ok [of d] by (auto simp: list_all_iff vals_of_def in_array_def)
  from element_texts [OF S this, of vs True] obtain ss where ss:
    "\<And>out. foldE (write_text S d) vs (Wr out ((InArray, True) # ?N)) =
       Inr (Wr (out @ joined (line_break (ts_options S) (Suc (length ?N))) True ss) ((InArray, ss = []) # ?N))"
    "\<And>M acc. reads_items (ts_format S) (element_body S d) ((InArray, True) # M) ss acc (acc @ map (text_merged d (default_val d)) vs)"
    by auto
  let ?s = "ArrayBegin (ts_format S) @ joined (line_break (ts_options S) (Suc (length N))) True ss @
      line_break (ts_options S) (length N) @ ArrayEnd (ts_format S)"
  obtain a where a: "ArrayBegin (ts_format S) = [a]" "a \<in> set ''{[''" using known_array [OF F] by auto
  have "written_as S N ?s (write_text S (VectorDescriptor d) v)"
    using ss(1) a by (auto simp: written_as_def v(1) vals_of_def tw_writeArrayBegin_def tw_writeArrayEnd_def is_blank_def)
  moreover have "read_as ?s (read_text S (VectorDescriptor d) old) (text_merged (VectorDescriptor d) old v)" for old
    using read_vector [OF S ss(2) [of _ "vals_of old"] refl refl] by (simp add: v(1) vals_of_def)
  ultimately show ?case by blast
next
  case (4 n fl ps)
  note F = known_serializer_format [OF S]
  have wf: "wf_tags ps" "wf_props ps" "distinct (map pd_name ps)" "readable_members (named_lines S) ps" "is_identifier n"
    using 4(2,3) by simp_all
  obtain us where v: "v = VStruct (mk_area ps us)" "length us = length ps" "slots_ok ps us"
    using val_ok_struct [OF 4(4) wf(1)] by auto
  let ?N = "touched N" and ?inc = "valid_of ps us"
  obtain ss where ss: "members_text S ps 0 ?inc ps us ?N True ss"
    using 4(1) [OF wf(2,4,1,3), of 0 us ?inc ?N True] v 4(5) by (auto simp: area_of_def)
  let ?body = "joined (line_break (ts_options S) (Suc (length N))) True ss @ line_break (ts_options S) (length N) @ ''}''"
  let ?name = "type_name_text (ts_format S) (ts_options S) N n"
  let ?s = "?name @ ''{'' @ ?body"
  have "value_start (ts_format S) ?s" using type_name_start [OF F wf(5)] .
  then have "written_as S N ?s (write_text S (StructD (StructDescriptor n fl ps)) v)"
    using ss 4(7) writeNamedObjectBegin_W [OF F, of "ts_options S" N n] F
    by (simp add: written_as_def members_text_def v(1) area_of_def named_lines_def is_struct_descr_def writeObjectEnd_def)
  moreover have "read_as ?s (read_text S (StructD (StructDescriptor n fl ps)) old)
      (text_merged (StructD (StructDescriptor n fl ps)) old v)"
    if old: "val_ok (StructD (StructDescriptor n fl ps)) old" for old
    unfolding read_as_def
  proof (intro allI impI)
    fix M :: nesting and rest :: string assume M: "M \<noteq> []"
    obtain xs where xs: "old = VStruct (mk_area ps xs)" "length xs = length ps" "slots_ok ps xs"
      using val_ok_struct [OF old wf(1)] by auto
    have items: "reads_items (ts_format S) (read_member S ps ps_All) ((InObject, True) # M) ss (mk_area ps xs)
        (mk_area ps (text_merged_slots ?inc ps xs us))"
      using ss xs(2,3) by (auto simp: members_text_def dest: spec [of _ M])
    show "read_text S (StructD (StructDescriptor n fl ps)) old (Rd (?s @ rest) M) =
        Inr (text_merged (StructD (StructDescriptor n fl ps)) old v, Rd (finalized rest) M)"
      using readNamedObjectBegin_R [OF F blank_simps(1) wf(5) opt, of N "?body @ rest" M] M
        read_members [OF F items refl, of "Suc (length N)" "length N" rest]
      by (simp add: xs(1) v(1) area_of_def mapV_def fin_def del: loopE.simps)
  qed
  ultimately show ?case by blast
next
  case 5
  then show ?case by (intro exI [of _ "[]"]) (simp add: members_text_def)
next
  case (6 d n t key ps)
  let ?p = "PropertyDescriptor d n t key"
  have k: "k < length qs" using 6(7) by (metis drop_all leI list.distinct(1))
  then have qs: "qs ! k = ?p" "drop (Suc k) qs = ps" using 6(7) by (simp_all add: Cons_nth_drop_Suc [symmetric])
  have ys: "drop k ys = ys ! k # drop (Suc k) ys" using k 6(8) by (simp add: Cons_nth_drop_Suc)
  have wf: "wf_descr d" "wf_props ps" "is_identifier n" "readable_type (named_lines S) d" "readable_members (named_lines S) ps"
    using 6(3,4) by simp_all
  have ok: "\<And>v. ys ! k = Some v \<Longrightarrow> val_ok d v \<and> text_ok S d v" "slots_ok ps (drop (Suc k) ys)"
    "text_ok_slots S ps (drop (Suc k) ys)" using 6(9,10) by (simp_all add: ys)
  have tl: "\<exists>ss. members_text S qs (Suc k) inc ps ys N' b ss" for b
    using 6(2) [OF wf(2,5) 6(5,6) qs(2) 6(8) ok(2,3)] .
  show ?case
  proof (cases "ps_le (pd_set ?p) inc")
    case False
    then show ?thesis using members_excluded [OF k] tl by blast
  next
    case True
    have "\<exists>s. member_value S d N' (ys ! k) s"
    proof (cases "ys ! k")
      case (Some v)
      then show ?thesis
        using 6(1) [OF wf(1,4), of v "(InObject, False) # N'"] ok(1) by (simp add: member_value_def in_array_def)
    qed (simp add: member_value_def)
    then show ?thesis
      using members_included [OF S 6(5,6) k 6(8) qs(1) wf(3,1) True] tl [of False] by blast
  qed
qed

section \<open>Properties\<close>

lemma text_merged_fresh:
  "wf_descr d \<Longrightarrow> val_ok d v \<Longrightarrow> text_merged d (default_val d) v = v"
  "wf_props ps \<Longrightarrow> slots_ok ps ys \<Longrightarrow> (\<And>i. i < length ps \<Longrightarrow> \<not> ps_le (pd_set (ps ! i)) inc \<Longrightarrow> ys ! i = None) \<Longrightarrow>
     text_merged_slots inc ps (replicate (length ps) None) ys = ys"
proof (induction d and ps arbitrary: v and ys inc rule: wf_descr_wf_props.induct)
  case (3 d)
  then obtain vs where "v = VVector vs" "list_all (val_ok d) vs" by (cases v) auto
  then show ?case using 3 by (simp add: vals_of_def list_all_iff map_idI)
next
  case (4 n fl ps)
  then obtain us where v: "v = VStruct (mk_area ps us)" "length us = length ps" "slots_ok ps us"
    using val_ok_struct [OF 4(3)] by auto
  have "us ! i = None" if "i < length ps" "\<not> ps_le (pd_set (ps ! i)) (valid_of ps us)" for i
  proof (rule ccontr)
    assume "us ! i \<noteq> None"
    then have "ps_members (pd_set (ps ! i)) \<subseteq> ps_members (valid_of ps us)"
      using that(1) v(2) 4(2) pd_index_less [of ps i] by (auto simp: ps_members_valid_of)
    then show False using that(2) by simp
  qed
  then have "text_merged_slots (valid_of ps us) ps (replicate (length ps) None) us = us"
    using 4(1,2) v by (simp del: ps_le_iff)
  then show ?case by (simp add: v(1) area_of_def fresh_area_def)
next
  case (6 d n t k ps)
  then obtain y ys' where ys: "ys = y # ys'" by (cases ys) auto
  have "text_merged_slots inc ps (replicate (length ps) None) ys' = ys'"
    using 6(4) 6(5) [of "Suc i" for i] 6(2,3) by (simp add: ys del: ps_le_iff)
  then show ?case
    using 6(1,3,4) 6(5) [of 0] by (cases y; auto simp: ys simp del: ps_le_iff)
qed (simp_all add: default_val.simps)

text \<open>What a serializer writes of an instance, and what this does to an instance that reads it.\<close>

lemma text_reads:
  assumes S: "known_serializer S" and opt: "readable_options (ts_options S)"
    and ps: "wf_tags ps" "wf_props ps" "readable_type (named_lines S) (StructD (StructDescriptor n fl ps))"
    and ys: "length ys = length ps" "slots_ok ps ys" "text_ok_slots S ps ys"
    and xs: "length xs = length ps" "slots_ok ps xs"
  obtains s where "text_serialize S n ps (mk_area ps ys) inc = Inr s"
    "\<And>rest. text_deserialize S n ps ps_All (mk_area ps xs) (s @ rest) =
       Inr (mk_area ps (text_merged_slots inc ps xs ys), rest)"
proof -
  note F = known_serializer_format [OF S]
  have wf: "distinct (map pd_name ps)" "readable_members (named_lines S) ps" "is_identifier n" using ps(3) by simp_all
  obtain ss where ss: "members_text S ps 0 inc ps ys [] True ss"
    using write_then_read_text(2) [OF S opt ps(2) wf(2) ps(1) wf(1), of 0 ys inc "[]" True] ys by auto
  let ?body = "joined (line_break (ts_options S) (Suc 0)) True ss @ line_break (ts_options S) 0 @ ''}''"
  let ?name = "type_name_text (ts_format S) (ts_options S) [] n"
  let ?s = "?name @ ''{'' @ ?body"
  have "text_serialize S n ps (mk_area ps ys) inc = Inr ?s"
    using ss writeNamedObjectBegin_W [OF F, of "ts_options S" "[]" n "[]"] F
    by (simp add: text_serialize_def members_text_def in_array_def writeObjectEnd_def)
  moreover have "text_deserialize S n ps ps_All (mk_area ps xs) (?s @ rest) =
      Inr (mk_area ps (text_merged_slots inc ps xs ys), rest)" for rest
  proof -
    have "reads_items (ts_format S) (read_member S ps ps_All) [(InObject, True)] ss (mk_area ps xs)
        (mk_area ps (text_merged_slots inc ps xs ys))"
      using ss xs by (auto simp: members_text_def dest: spec [of _ "[]"])
    from read_members [OF F this refl, of "Suc 0" 0 rest] show ?thesis
      using readNamedObjectBegin_R [OF F blank_simps(1) wf(3) opt, of "[]" "?body @ rest" "[]"]
      by (simp add: text_deserialize_def fin_def del: loopE.simps)
  qed
  ultimately show ?thesis using that by blast
qed

text \<open>C4: Reading the text of an instance, restricted to any properties, into another instance
  replaces the written properties: those that are invalid become invalid, structs are merged
  member by member, the elements of vectors are appended, and all others are taken over. The
  conditions are those of the round trip: the relaxed policy or the multi-line style, names
  that are identifiers and distinct, no enumerator that begins with the name of its enum, no
  named struct as an element of a vector in the multi-line style, declared enumerators,
  floating-point numbers that are exact in the digits that are written, and UUIDs and time
  points that the libraries read back.\<close>

theorem text_reads_merge:
  assumes "known_serializer S" "readable_options (ts_options S)"
    and "wf_tags ps" "wf_props ps" "readable_type (named_lines S) (StructD (StructDescriptor n fl ps))"
    and "wf_area ps a" "slots_ok ps (slots a)" "text_ok_slots S ps (slots a)" "wf_area ps b" "slots_ok ps (slots b)"
  shows "\<exists>s b'. text_serialize S n ps a inc = Inr s
     \<and> (\<forall>rest. text_deserialize S n ps ps_All b (s @ rest) = Inr (b', rest))
     \<and> wf_area ps b' \<and> slots b' = text_merged_slots inc ps (slots b) (slots a)"
proof -
  obtain ys where ys: "length ys = length ps" "a = mk_area ps ys" using assms(3,6) by (auto elim: wf_areaE)
  obtain xs where xs: "length xs = length ps" "b = mk_area ps xs" using assms(3,9) by (auto elim: wf_areaE)
  have "slots_ok ps ys" "text_ok_slots S ps ys" "slots_ok ps xs" using assms(7,8,10) ys xs by simp_all
  from text_reads [OF assms(1-5) ys(1) this(1,2) xs(1) this(3), of inc] obtain s where
    s: "text_serialize S n ps a inc = Inr s"
      "\<And>rest. text_deserialize S n ps ps_All b (s @ rest) = Inr (mk_area ps (text_merged_slots inc ps xs ys), rest)"
    by (auto simp: ys(2) xs(2))
  have "length (text_merged_slots inc ps xs ys) = length ps" by (rule length_text_merged_slots)
  then show ?thesis using s assms(3) by (simp add: ys(2) xs(2))
qed

text \<open>A library for the witnesses: UUIDs and time points as one character per byte or bit.\<close>

definition example_library :: text_library where
  "example_library =
     \<lparr>uuid_toString = concat \<circ> map (\<lambda>b. show_base 16 (unat b + 256)),
      uuid_FromString = (\<lambda>_. Inl (RuntimeError ''not a UUID'')),
      timepoint_toString = (\<lambda>w. show_base 16 (unat w)),
      timepoint_FromString = (\<lambda>s. Inr (of_nat (fst (read_base 16 0 s))))\<rparr>"

definition example_options :: "text_style \<Rightarrow> text_options" where
  "example_options st = \<lparr>style = st, policy = (if st = MultiLine then Strict else Relaxed), indentSize = 4\<rparr>"

lemma example_readable:
  "readable_type ml (StructD (StructDescriptor ''Example'' 0 example_props))"
  by (simp add: example_props_def is_identifier_def is_identifier_char_def)

lemma example_serializers:
  "known_serializer (StringSerializer opt lib)" "known_serializer (JsonSerializer opt lib)"
  "readable_options (ts_options (StringSerializer (example_options st) lib))"
  "readable_options (ts_options (JsonSerializer (example_options st) lib))"
  by (auto simp: known_serializer_def readable_options_def StringSerializer_def JsonSerializer_def example_options_def)

lemma example_text_ok:
  "text_ok_slots S example_props (slots (example_area i t (map_option (\<lambda>(x, y). example_inner x y) n)))"
  by (auto simp: example_props_def example_area_def example_inner_def fund_text_ok_def Let_def split: option.split)

lemma text_reads_merge_witness:
  "\<exists>s b'. text_serialize (JsonSerializer (example_options SingleLine) example_library) ''Example'' example_props
       (example_area (Some 7) None (map_option (\<lambda>(x, y). example_inner x y) (Some (Some 1, None)))) ps_All = Inr s
     \<and> text_deserialize (JsonSerializer (example_options SingleLine) example_library) ''Example'' example_props ps_All
         (example_area (Some 5) (Some ''x'') (map_option (\<lambda>(x, y). example_inner x y) (Some (None, Some 2)))) s = Inr (b', [])
     \<and> slots b' ! 1 = None \<and> slots b' ! 2 = Some (VStruct (example_inner (Some 1) (Some 2)))"
proof -
  let ?S = "JsonSerializer (example_options SingleLine) example_library"
  let ?a = "example_area (Some 7) None (map_option (\<lambda>(x, y). example_inner x y) (Some (Some 1, None)))"
  let ?b = "example_area (Some 5) (Some ''x'') (map_option (\<lambda>(x, y). example_inner x y) (Some (None, Some 2)))"
  obtain s b' where s: "text_serialize ?S ''Example'' example_props ?a ps_All = Inr s"
    "\<And>rest. text_deserialize ?S ''Example'' example_props ps_All ?b (s @ rest) = Inr (b', rest)"
    "slots b' = text_merged_slots ps_All example_props (slots ?b) (slots ?a)"
    using text_reads_merge [OF example_serializers(2) example_serializers(4) [of SingleLine example_library]
        example_wf_tags example_wf_props example_readable example_wf_area example_slots_ok example_text_ok
        example_wf_area example_slots_ok] by blast
  have "slots b' ! 1 = None \<and> slots b' ! 2 = Some (VStruct (example_inner (Some 1) (Some 2)))"
    using s(3) by (auto simp: example_props_def example_area_def example_inner_def pd_index_def mk_area_def
        valid_of_def ps_members_inject [symmetric])
  then show ?thesis using s(1) s(2) [of "[]"] by auto
qed



end
