(* ===== verification/Text_Skip.thy ===== *)
theory Text_Skip
  imports Text_Roundtrip
begin

text \<open>
  Skipping text: a depth of three for each character is enough for every call that returns, and an array
  of numbers, names and words that is not closed makes the reader loop forever.
\<close>

section \<open>What is consumed\<close>

lemma length_drop_blank: "length (dropWhile is_blank s) \<le> length s"
  by (rule length_dropWhile_le)

lemma tryConsume_length:
  "tryConsumeTokenAfterWhitespace t r = (ok, r') \<Longrightarrow> length (tr_input r') \<le> length (tr_input r)"
  using length_drop_blank [of "tr_input r"]
  by (auto simp: tryConsumeTokenAfterWhitespace_def tryConsumeToken_def consumeWhitespace_def inputAdvance_def
      split: if_splits)

lemma starts_with_length: "starts_with s t \<Longrightarrow> length t \<le> length s"
  by (induction s t rule: starts_with.induct) auto

lemma consume_token_length:
  "consumeTokenAfterWhitespace t r = Inr r' \<Longrightarrow> length (tr_input r') + length t \<le> length (tr_input r)"
  using length_drop_blank [of "tr_input r"] starts_with_length [of "dropWhile is_blank (tr_input r)" t]
  by (auto simp: consumeTokenAfterWhitespace_def consumeToken_def tryConsumeToken_def consumeWhitespace_def
      inputAdvance_def split: if_splits)

lemma finalizeRead_length: "length (tr_input (finalizeRead F r)) \<le> length (tr_input r)"
  using tryConsume_length [of _ r, OF prod.collapse [symmetric]]
  by (simp add: finalizeRead_def split: list.split prod.split text_state.split)

lemma span_identifier_length: "span_identifier s = Inr (i, r) \<Longrightarrow> length r \<le> length s"
  by (induction s arbitrary: i) (fastforce split: if_splits)+

lemma readIdentifierString_length:
  "readIdentifierString F r = Inr (i, r') \<Longrightarrow> length (tr_input r') \<le> length (tr_input r)"
proof -
  assume "readIdentifierString F r = Inr (i, r')"
  then obtain rest where "span_identifier (tr_input r) = Inr (i, rest)" "r' = finalizeRead F (r\<lparr>tr_input := rest\<rparr>)"
    by (auto simp: readIdentifierString_def)
  then show ?thesis
    using span_identifier_length [of "tr_input r" i rest] finalizeRead_length [of F "r\<lparr>tr_input := rest\<rparr>"] by simp
qed

lemma readObjectMemberName_length:
  assumes "readObjectMemberName F r = Inr (i, r')"
  shows "length (tr_input r') + length (ObjectMemberNameBegin F) \<le> length (tr_input r)"
proof -
  obtain r1 r2 r3 where 1: "consumeTokenAfterWhitespace (ObjectMemberNameBegin F) r = Inr r1"
    "readIdentifierString F r1 = Inr (i, r2)"
    "(if ObjectMemberNameEnd F \<noteq> [] then consumeTokenAfterWhitespace (ObjectMemberNameEnd F) r2 else Inr r2) = Inr r3"
    "consumeTokenAfterWhitespace (ObjectMemberValueBegin F) r3 = Inr r'"
    using assms by (auto simp: readObjectMemberName_def)
  have "length (tr_input r3) \<le> length (tr_input r2)"
    using 1(3) consume_token_length by (fastforce split: if_splits)
  then show ?thesis
    using consume_token_length [OF 1(1)] readIdentifierString_length [OF 1(2)] consume_token_length [OF 1(4)] by simp
qed

lemma unescape_text_cases:
  assumes "unescape_text s = Inr (t, r)"
  obtains "s \<noteq> []" "r = drop 1 s"
  | k u where "s \<noteq> []" "unescape_text (drop k s) = Inr (u, r)" "0 < k"
proof -
  consider "s = []" | "s \<noteq> []" "starts_with s StringDelimiter" | "s \<noteq> []" "\<not> starts_with s StringDelimiter" "starts_with s StringEscape"
    | "s \<noteq> []" "\<not> starts_with s StringDelimiter" "\<not> starts_with s StringEscape" by blast
  then show ?thesis
  proof cases
    case 1
    then show ?thesis using assms by (simp add: unescape_text.simps [of "[]"])
  next
    case 2
    then show ?thesis using assms that(1) by (simp add: unescape_text.simps [of s] StringDelimiter_def)
  next
    case 3
    then obtain fr to where e: "find (\<lambda>(from, to). starts_with s to) StringEscapeMapping = Some (fr, to)"
      using assms by (auto simp: unescape_text.simps [of s] split: option.splits)
    then have "to \<noteq> []" using find_Some_set [OF e] by (auto simp: StringEscapeMapping_def)
    moreover obtain u where "unescape_text (drop (length to) s) = Inr (u, r)"
      using assms 3 e by (auto simp: unescape_text.simps [of s])
    ultimately show ?thesis using 3(1) that(2) by blast
  next
    case 4
    then show ?thesis using assms that(2) [of 1] by (auto simp: unescape_text.simps [of s])
  qed
qed

lemma unescape_text_length: "unescape_text s = Inr (t, r) \<Longrightarrow> length r < length s"
proof (induction "length s" arbitrary: s t rule: less_induct)
  case less
  from less.prems show ?case
  proof (cases rule: unescape_text_cases)
    case (2 k u)
    then show ?thesis using less.hyps [of "drop k s" u] by (cases s) auto
  qed (cases s; simp)
qed

lemma readEscapedString_length:
  assumes "readEscapedString F r = Inr (t, r')" "tr_input r \<noteq> []" "\<not> is_blank (hd (tr_input r))"
  shows "length (tr_input r') < length (tr_input r)"
proof (cases "tr_nesting r = []")
  case True
  then show ?thesis
    using assms finalizeRead_length [of F "r\<lparr>tr_input := []\<rparr>"]
    by (auto simp: readEscapedString_def read_all_def consumeWhitespace_def finalizeRead_def)
next
  case False
  then obtain r1 rest where 1: "consumeTokenAfterWhitespace StringDelimiter r = Inr r1" "unescape_text (tr_input r1) = Inr (t, rest)"
    "r' = finalizeRead F (r1\<lparr>tr_input := rest\<rparr>)"
    using assms(1) by (auto simp: readEscapedString_def)
  then show ?thesis
    using consume_token_length [OF 1(1)] unescape_text_length [OF 1(2)] finalizeRead_length [of F "r1\<lparr>tr_input := rest\<rparr>"] by simp
qed

lemma tryRead_length:
  "tryReadArrayEnd F r = Inr (ok, r') \<Longrightarrow> length (tr_input r') \<le> length (tr_input r)"
  "tryReadObjectEnd F r = Inr (ok, r') \<Longrightarrow> length (tr_input r') \<le> length (tr_input r)"
proof -
  have pop: "tr_pop r1 = Inr r2 \<Longrightarrow> length (tr_input (finalizeRead F r2)) \<le> length (tr_input r1)" for r1 r2
    using finalizeRead_length [of F r2] by (auto simp: tr_pop_def split: list.splits)
  have tc: "length (tr_input (snd (tryConsumeTokenAfterWhitespace t r))) \<le> length (tr_input r)" for t
    using tryConsume_length [of t r, OF prod.collapse [symmetric]] .
  show "tryReadArrayEnd F r = Inr (ok, r') \<Longrightarrow> length (tr_input r') \<le> length (tr_input r)"
    using tc [of "ArrayEnd F"] pop
    by (cases "tryConsumeTokenAfterWhitespace (ArrayEnd F) r") (fastforce simp: tryReadArrayEnd_def split: if_splits)
  show "tryReadObjectEnd F r = Inr (ok, r') \<Longrightarrow> length (tr_input r') \<le> length (tr_input r)"
    using tc [of "ObjectEnd F"] pop
    by (cases "tryConsumeTokenAfterWhitespace (ObjectEnd F) r") (fastforce simp: tryReadObjectEnd_def split: if_splits)
qed

text \<open>An end that is not there leaves the input, without its leading blanks.\<close>

lemma tryRead_False:
  "tryReadArrayEnd F r = Inr (False, r') \<Longrightarrow> r' = consumeWhitespace r"
  "tryReadObjectEnd F r = Inr (False, r') \<Longrightarrow> r' = consumeWhitespace r"
  by (auto simp: tryReadArrayEnd_def tryReadObjectEnd_def tryConsumeTokenAfterWhitespace_def tryConsumeToken_def
      split: if_splits)

definition one_char_tokens :: "text_format \<Rightarrow> bool" where
  "one_char_tokens F \<longleftrightarrow>
     (\<forall>t \<in> {ArrayBegin F, ArrayEnd F, ObjectBegin F, ObjectEnd F, ArrayElementSeparator F, ObjectMemberValueEnd F,
             ObjectMemberNameBegin F}. length t = 1 \<and> \<not> is_blank (hd t))"

lemma known_formats: "known_format StringFormat" "known_format JsonFormat"
  unfolding known_format_def by (rule disjI1 [OF refl], rule disjI2 [OF refl])

lemma known_one_char: "known_format F \<Longrightarrow> one_char_tokens F"
  unfolding known_format_def
  by (elim disjE) (simp_all add: one_char_tokens_def StringFormat_def JsonFormat_def is_blank_def)

lemma token_hd:
  "one_char_tokens F \<Longrightarrow> t \<in> {ArrayBegin F, ArrayEnd F, ObjectBegin F, ObjectEnd F, ArrayElementSeparator F, ObjectMemberValueEnd F, ObjectMemberNameBegin F} \<Longrightarrow>
     starts_with s t \<Longrightarrow> s \<noteq> [] \<and> \<not> is_blank (hd s)"
proof -
  assume one: "one_char_tokens F" and t: "t \<in> {ArrayBegin F, ArrayEnd F, ObjectBegin F, ObjectEnd F, ArrayElementSeparator F, ObjectMemberValueEnd F, ObjectMemberNameBegin F}"
    and s: "starts_with s t"
  have "length t = 1 \<and> \<not> is_blank (hd t)" by (rule bspec [OF one [unfolded one_char_tokens_def] t])
  then obtain c where "t = [c]" "\<not> is_blank c" by (cases t) auto
  then show ?thesis using s by auto
qed

text \<open>Skipping makes progress, or stops at once where an array or object ends.\<close>

definition progress :: "text_reader \<Rightarrow> text_reader \<Rightarrow> bool" where
  "progress r r' \<longleftrightarrow> length (tr_input r') < length (tr_input r)"

definition at_stop :: "text_format \<Rightarrow> text_reader \<Rightarrow> bool" where
  "at_stop F r \<longleftrightarrow>
     tr_input r = [] \<or> starts_with (tr_input r) (ArrayEnd F) \<or> starts_with (tr_input r) (ObjectEnd F)"

lemma begin_progress:
  assumes "known_format F"
  shows "tr_readArrayBegin F r = Inr r' \<Longrightarrow> progress r r'" "readObjectBegin F r = Inr r' \<Longrightarrow> progress r r'"
    "consumeToken (ArrayElementSeparator F) r = Inr r' \<Longrightarrow> progress r r'"
    "consumeToken (ObjectMemberValueEnd F) r = Inr r' \<Longrightarrow> progress r r'"
    "readObjectMemberName F r = Inr (i, r') \<Longrightarrow> progress r r'"
proof -
  have one: "length (ArrayBegin F) = 1" "length (ObjectBegin F) = 1" "length (ObjectMemberNameBegin F) = 1"
    "ArrayElementSeparator F = '',''" "ObjectMemberValueEnd F = '',''"
    using known_one_char [OF assms] assms by (simp_all add: one_char_tokens_def)
  show "tr_readArrayBegin F r = Inr r' \<Longrightarrow> progress r r'" "readObjectBegin F r = Inr r' \<Longrightarrow> progress r r'"
    using consume_token_length [of "ArrayBegin F" r] consume_token_length [of "ObjectBegin F" r] one(1,2)
    by (fastforce simp: tr_readArrayBegin_def readObjectBegin_def progress_def tr_push_def)+
  show "consumeToken (ArrayElementSeparator F) r = Inr r' \<Longrightarrow> progress r r'"
    "consumeToken (ObjectMemberValueEnd F) r = Inr r' \<Longrightarrow> progress r r'"
    by (auto simp: one progress_def consumeToken_def tryConsumeToken_def inputAdvance_def split: if_splits)
  show "readObjectMemberName F r = Inr (i, r') \<Longrightarrow> progress r r'"
    using readObjectMemberName_length [of F r i r'] one(3) by (simp add: progress_def)
qed

lemma consumeWhitespace_length: "length (tr_input (consumeWhitespace r)) \<le> length (tr_input r)"
  by (simp add: consumeWhitespace_def length_drop_blank)

lemma skip_lengths:
  "known_format F \<Longrightarrow> skip_value F n r = Inr r' \<Longrightarrow> progress (consumeWhitespace r) r' \<or> r' = consumeWhitespace r \<and> at_stop F r'"
  "known_format F \<Longrightarrow> skip_scan F n r = Inr r' \<Longrightarrow> progress r r' \<or> r' = r \<and> at_stop F r'"
  "known_format F \<Longrightarrow> skip_array F n r = Inr r' \<Longrightarrow> length (tr_input r') \<le> length (tr_input r)"
  "known_format F \<Longrightarrow> skip_object F n r = Inr r' \<Longrightarrow> length (tr_input r') \<le> length (tr_input r)"
proof (induction F n r and F n r and F n r and F n r arbitrary: r' and r' and r' and r'
    rule: skip_value_skip_scan_skip_array_skip_object.induct)
  case (4 F n r)
  note F = 4(4) and run = 4(5)
  let ?i = "tr_input r"
  consider "?i = []" | "?i \<noteq> []" "starts_with ?i StringDelimiter"
    | "?i \<noteq> []" "\<not> starts_with ?i StringDelimiter" "starts_with ?i (ArrayBegin F)"
    | "?i \<noteq> []" "\<not> starts_with ?i StringDelimiter" "\<not> starts_with ?i (ArrayBegin F)" "starts_with ?i (ObjectBegin F)"
    | "?i \<noteq> []" "\<not> starts_with ?i StringDelimiter" "\<not> starts_with ?i (ArrayBegin F)" "\<not> starts_with ?i (ObjectBegin F)"
      "starts_with ?i (ArrayElementSeparator F) \<or> starts_with ?i (ObjectMemberValueEnd F)"
    | "?i \<noteq> []" "\<not> starts_with ?i StringDelimiter" "\<not> starts_with ?i (ArrayBegin F)" "\<not> starts_with ?i (ObjectBegin F)"
      "\<not> starts_with ?i (ArrayElementSeparator F)" "\<not> starts_with ?i (ObjectMemberValueEnd F)" by blast
  then show ?case
  proof cases
    case 2
    then have "\<not> is_blank (hd ?i)" by (auto simp: StringDelimiter_def is_blank_def)
    moreover obtain t where "readEscapedString F r = Inr (t, r')" using run 2 by (auto simp del: starts_with_Cons)
    ultimately show ?thesis using readEscapedString_length [of F r t r'] 2 by (simp add: progress_def)
  next
    case 3
    then obtain r1 where r1: "tr_readArrayBegin F r = Inr r1" "skip_array F n r1 = Inr r'" using run by (auto simp del: starts_with_Cons)
    then have "length (tr_input r') \<le> length (tr_input r1)" using 4(1) 3 F by blast
    then show ?thesis using begin_progress(1) [OF F r1(1)] by (simp add: progress_def)
  next
    case 4
    note c = this
    then obtain r1 where r1: "readObjectBegin F r = Inr r1" "skip_object F n r1 = Inr r'" using run by (auto simp del: starts_with_Cons)
    then have "length (tr_input r') \<le> length (tr_input r1)" using "4.IH"(2) c F by blast
    then show ?thesis using begin_progress(2) [OF F r1(1)] by (simp add: progress_def)
  next
    case 5
    then have "consumeToken (ArrayElementSeparator F) r = Inr r' \<or> consumeToken (ObjectMemberValueEnd F) r = Inr r'"
      using run by (auto simp del: starts_with_Cons split: if_splits)
    then show ?thesis using begin_progress(3,4) [OF F] by blast
  next
    case 6
    note c = this
    show ?thesis
    proof (cases "starts_with ?i (ArrayEnd F) \<or> starts_with ?i (ObjectEnd F)")
      case True
      then show ?thesis using run c by (simp add: at_stop_def del: starts_with_Cons)
    next
      case False
      then have "skip_scan F n (inputAdvance 1 r) = Inr r'" using run c by (simp del: starts_with_Cons)
      then have "progress (inputAdvance 1 r) r' \<or> r' = inputAdvance 1 r" using "4.IH"(3) c False F by blast
      then show ?thesis using c(1) by (auto simp: progress_def inputAdvance_def)
    qed
  qed (use run in \<open>simp add: at_stop_def\<close>)
next
  case (6 F n r)
  then obtain ok r1 where r1: "tryReadArrayEnd F r = Inr (ok, r1)" by auto
  show ?case
  proof (cases ok)
    case False
    then obtain r2 where r2: "skip_value F n r1 = Inr r2" "skip_array F n r2 = Inr r'" using 6(4) r1 by auto
    have "length (tr_input r2) \<le> length (tr_input r1)"
      using 6(1) [OF r1 refl False 6(3) r2(1)] consumeWhitespace_length [of r1] by (auto simp: progress_def)
    then show ?thesis using 6(2) [OF r1 refl False r2(1) 6(3) r2(2)] tryRead_length(1) [OF r1] by simp
  qed (use 6(4) r1 tryRead_length(1) [OF r1] in simp)
next
  case (8 F n r)
  then obtain ok r1 where r1: "tryReadObjectEnd F r = Inr (ok, r1)" by auto
  show ?case
  proof (cases ok)
    case False
    then obtain m r2 r3 where r2: "readObjectMemberName F r1 = Inr (m, r2)" "skip_value F n r2 = Inr r3" "skip_object F n r3 = Inr r'"
      using 8(4) r1 by auto
    have "length (tr_input r3) \<le> length (tr_input r2)"
      using 8(1) [OF r1 refl False r2(1) refl 8(3) r2(2)] consumeWhitespace_length [of r2] by (auto simp: progress_def)
    then show ?thesis
      using 8(2) [OF r1 refl False r2(1) refl r2(2) 8(3) r2(3)] tryRead_length(2) [OF r1] begin_progress(5) [OF 8(3) r2(1)]
      by (simp add: progress_def)
  qed (use 8(4) r1 tryRead_length(2) [OF r1] in simp)
qed simp_all

section \<open>The depth\<close>

text \<open>More depth changes nothing but the result that the depth is exhausted.\<close>

lemma bindE_mono:
  assumes "bindE m f \<noteq> endless_loop" "\<And>x. m = Inr x \<Longrightarrow> f x \<noteq> endless_loop \<Longrightarrow> g x = f x"
  shows "bindE m g = bindE m f"
  using assms by (cases m) auto

text \<open>What one step of the scan does, for every depth.\<close>

lemma scan_step:
  obtains x where "\<And>n. skip_scan F (Suc n) r = x"
  | "\<And>n. skip_scan F (Suc n) r = bindE (tr_readArrayBegin F r) (skip_array F n)"
  | "\<And>n. skip_scan F (Suc n) r = bindE (readObjectBegin F r) (skip_object F n)"
  | "tr_input r \<noteq> []" "\<And>n. skip_scan F (Suc n) r = skip_scan F n (inputAdvance 1 r)"
proof (cases "tr_input r = [] \<or> starts_with (tr_input r) StringDelimiter")
  case True
  then show ?thesis
    by (intro that(1) [of "if tr_input r = [] then Inr r else bindE (readEscapedString F r) (\<lambda>(_, r). Inr r)"])
      (cases "tr_input r = []"; simp del: starts_with_Cons)
next
  case c1: False
  show ?thesis
  proof (cases "starts_with (tr_input r) (ArrayBegin F) \<or> starts_with (tr_input r) (ObjectBegin F)")
    case True
    then show ?thesis using c1 that(2,3)
      by (cases "starts_with (tr_input r) (ArrayBegin F)") (simp_all del: starts_with_Cons)
  next
    case c2: False
    show ?thesis
    proof (cases "starts_with (tr_input r) (ArrayElementSeparator F) \<or> starts_with (tr_input r) (ObjectMemberValueEnd F)
        \<or> starts_with (tr_input r) (ArrayEnd F) \<or> starts_with (tr_input r) (ObjectEnd F)")
      case True
      then show ?thesis using c1 c2
        by (intro that(1) [of "if starts_with (tr_input r) (ArrayElementSeparator F) then consumeToken (ArrayElementSeparator F) r
            else if starts_with (tr_input r) (ObjectMemberValueEnd F) then consumeToken (ObjectMemberValueEnd F) r else Inr r"])
          (auto simp del: starts_with_Cons)
    qed (rule that(4); use c1 c2 in \<open>simp del: starts_with_Cons\<close>)
  qed
qed

lemma skip_more:
  "(skip_value F n r \<noteq> endless_loop \<longrightarrow> skip_value F (Suc n) r = skip_value F n r)
   \<and> (skip_scan F n r \<noteq> endless_loop \<longrightarrow> skip_scan F (Suc n) r = skip_scan F n r)
   \<and> (skip_array F n r \<noteq> endless_loop \<longrightarrow> skip_array F (Suc n) r = skip_array F n r)
   \<and> (skip_object F n r \<noteq> endless_loop \<longrightarrow> skip_object F (Suc n) r = skip_object F n r)"
proof (induction n arbitrary: r)
  case (Suc n)
  have val: "skip_value F n r \<noteq> endless_loop \<Longrightarrow> skip_value F (Suc n) r = skip_value F n r" for r using Suc by blast
  have arr: "skip_array F n r \<noteq> endless_loop \<Longrightarrow> skip_array F (Suc n) r = skip_array F n r" for r using Suc by blast
  have obj: "skip_object F n r \<noteq> endless_loop \<Longrightarrow> skip_object F (Suc n) r = skip_object F n r" for r using Suc by blast
  have "skip_scan F (Suc (Suc n)) r = skip_scan F (Suc n) r" if ne: "skip_scan F (Suc n) r \<noteq> endless_loop"
  proof (cases rule: scan_step [of F r])
    case (2)
    show ?thesis using ne unfolding 2 by (rule bindE_mono) (rule arr)
  next
    case (3)
    show ?thesis using ne unfolding 3 by (rule bindE_mono) (rule obj)
  next
    case (4)
    then show ?thesis using ne Suc [of "inputAdvance 1 r"] by simp
  qed simp
  moreover have "skip_array F (Suc (Suc n)) r = skip_array F (Suc n) r" if ne: "skip_array F (Suc n) r \<noteq> endless_loop"
    unfolding skip_array.simps(2) [of F "Suc n" r] skip_array.simps(2) [of F n r]
  proof (rule bindE_mono [OF ne [unfolded skip_array.simps(2)]], clarify)
    fix ok r1 assume ne1: "(if ok then Inr r1 else bindE (skip_value F n r1) (skip_array F n)) \<noteq> endless_loop"
    have "bindE (skip_value F (Suc n) r1) (skip_array F (Suc n)) = bindE (skip_value F n r1) (skip_array F n)" if "\<not> ok"
    proof -
      have ne2: "bindE (skip_value F n r1) (skip_array F n) \<noteq> endless_loop" using ne1 that by simp
      then have "skip_value F (Suc n) r1 = skip_value F n r1" by (intro val) auto
      then show ?thesis using bindE_mono [OF ne2 arr] by (simp del: skip_array.simps skip_value.simps)
    qed
    then show "(if ok then Inr r1 else bindE (skip_value F (Suc n) r1) (skip_array F (Suc n))) =
        (if ok then Inr r1 else bindE (skip_value F n r1) (skip_array F n))" by simp
  qed
  moreover have "skip_object F (Suc (Suc n)) r = skip_object F (Suc n) r" if ne: "skip_object F (Suc n) r \<noteq> endless_loop"
    unfolding skip_object.simps(2) [of F "Suc n" r] skip_object.simps(2) [of F n r]
  proof (rule bindE_mono [OF ne [unfolded skip_object.simps(2)]], clarify)
    let ?f = "\<lambda>n r. bindE (readObjectMemberName F r) (\<lambda>(_, r). bindE (skip_value F n r) (skip_object F n))"
    fix ok r1 assume ne1: "(if ok then Inr r1 else ?f n r1) \<noteq> endless_loop"
    have "?f (Suc n) r1 = ?f n r1" if "\<not> ok"
    proof (rule bindE_mono, use ne1 that in simp, clarify)
      fix a r2 assume ne2: "bindE (skip_value F n r2) (skip_object F n) \<noteq> endless_loop"
      then have "skip_value F (Suc n) r2 = skip_value F n r2" by (intro val) auto
      then show "bindE (skip_value F (Suc n) r2) (skip_object F (Suc n)) = bindE (skip_value F n r2) (skip_object F n)"
        using bindE_mono [OF ne2 obj] by (simp del: skip_object.simps skip_value.simps)
    qed
    then show "(if ok then Inr r1 else ?f (Suc n) r1) = (if ok then Inr r1 else ?f n r1)" by simp
  qed
  moreover have "skip_value F (Suc n) r \<noteq> endless_loop \<longrightarrow> skip_value F (Suc (Suc n)) r = skip_value F (Suc n) r"
    using Suc [of "consumeWhitespace r"] by (simp del: skip_scan.simps)
  ultimately show ?case by blast
qed simp

lemma skip_more_le:
  assumes "n \<le> m"
  shows "skip_value F n r \<noteq> endless_loop \<Longrightarrow> skip_value F m r = skip_value F n r"
    "skip_array F n r \<noteq> endless_loop \<Longrightarrow> skip_array F m r = skip_array F n r"
    "skip_scan F n r \<noteq> endless_loop \<Longrightarrow> skip_scan F m r = skip_scan F n r"
  using assms by (induction m rule: dec_induct) (use skip_more in fastforce)+

lemma skip_value_any:
  "skip_value F n r = Inr r' \<Longrightarrow> skip_value F m r = endless_loop \<or> skip_value F m r = Inr r'"
  using skip_more_le(1) [of n m F r] skip_more_le(1) [of m n F r]
  by (cases "n \<le> m"; cases "skip_value F m r = endless_loop") auto

text \<open>A call that stops without progress in front of an end that is not the one of the array repeats forever.\<close>

lemma stuck_array:
  assumes "tryReadArrayEnd F r = Inr (False, r)" "\<And>n. skip_value F n r = endless_loop \<or> skip_value F n r = Inr r"
  shows "skip_array F n r = endless_loop"
proof (induction n)
  case (Suc n)
  then show ?case using assms(1) assms(2) [of n] by (auto simp del: skip_value.simps)
qed simp

lemma consumeWhitespace_idem [simp]: "consumeWhitespace (consumeWhitespace r) = consumeWhitespace r"
  by (simp add: consumeWhitespace_def)

lemma tryReadArrayEnd_idem:
  "tryReadArrayEnd F r = Inr (False, r1) \<Longrightarrow> tryReadArrayEnd F r1 = Inr (False, r1)"
proof -
  assume e: "tryReadArrayEnd F r = Inr (False, r1)"
  then have "r1 = consumeWhitespace r" by (rule tryRead_False)
  then show ?thesis using e
    by (auto simp: tryReadArrayEnd_def tryConsumeTokenAfterWhitespace_def tryConsumeToken_def split: if_splits)
qed

lemma bindE_endless:
  "bindE m f = endless_loop \<longleftrightarrow> m = endless_loop \<or> (\<exists>x. m = Inr x \<and> f x = endless_loop)"
  by (cases m) auto

lemma skip_zero: "(\<And>n. S (Suc n) = endless_loop) \<Longrightarrow> S 0 = endless_loop \<Longrightarrow> S m = endless_loop"
  by (cases m) auto

text \<open>With so much depth for the input that is left, a result that the depth is exhausted is there for every depth.\<close>

definition stays :: "text_format \<Rightarrow> nat \<Rightarrow> bool" where
  "stays F l \<longleftrightarrow> (\<forall>r n. length (tr_input r) = l \<longrightarrow>
     (3 * l + 2 \<le> n \<longrightarrow> skip_scan F n r = endless_loop \<longrightarrow> (\<forall>m. skip_scan F m r = endless_loop)) \<and>
     (3 * l + 3 \<le> n \<longrightarrow> skip_value F n r = endless_loop \<longrightarrow> (\<forall>m. skip_value F m r = endless_loop)) \<and>
     (3 * l + 4 \<le> n \<longrightarrow> skip_array F n r = endless_loop \<longrightarrow> (\<forall>m. skip_array F m r = endless_loop)) \<and>
     (3 * l + 4 \<le> n \<longrightarrow> skip_object F n r = endless_loop \<longrightarrow> (\<forall>m. skip_object F m r = endless_loop)))"

lemma staysD:
  assumes "stays F (length (tr_input r))"
  shows "skip_scan F n r = endless_loop \<Longrightarrow> 3 * length (tr_input r) + 2 \<le> n \<Longrightarrow> skip_scan F m r = endless_loop"
    "skip_value F n r = endless_loop \<Longrightarrow> 3 * length (tr_input r) + 3 \<le> n \<Longrightarrow> skip_value F m r = endless_loop"
    "skip_array F n r = endless_loop \<Longrightarrow> 3 * length (tr_input r) + 4 \<le> n \<Longrightarrow> skip_array F m r = endless_loop"
    "skip_object F n r = endless_loop \<Longrightarrow> 3 * length (tr_input r) + 4 \<le> n \<Longrightarrow> skip_object F m r = endless_loop"
  using assms unfolding stays_def by blast+

lemma progress_bound: "progress r r' \<Longrightarrow> 3 * length (tr_input r) + 1 \<le> n \<Longrightarrow> 3 * length (tr_input r') + 4 \<le> n"
  by (simp add: progress_def)

lemma scan_stays:
  assumes F: "known_format F" and IH: "\<And>k. k < length (tr_input r) \<Longrightarrow> stays F k"
    and n: "3 * length (tr_input r) + 2 \<le> n" and e: "skip_scan F n r = endless_loop"
  shows "skip_scan F m r = endless_loop"
proof -
  obtain n' where n': "n = Suc n'" "3 * length (tr_input r) + 1 \<le> n'" using n by (cases n) auto
  have "skip_scan F (Suc m) r = endless_loop" for m
  proof (cases rule: scan_step [of F r])
    case (1 x)
    then show ?thesis using e n'(1) by metis
  next
    case 2
    show ?thesis
    proof (cases "tr_readArrayBegin F r = endless_loop")
      case False
      then obtain r1 where r1: "tr_readArrayBegin F r = Inr r1" "skip_array F n' r1 = endless_loop"
        using e unfolding n'(1) 2 bindE_endless by blast
      have p: "progress r r1" by (rule begin_progress(1) [OF F r1(1)])
      have "skip_array F m r1 = endless_loop"
        using staysD(3) [OF IH r1(2) progress_bound [OF p n'(2)]] p unfolding progress_def .
      then show ?thesis unfolding 2 using r1(1) by simp
    qed (unfold 2, simp)
  next
    case 3
    show ?thesis
    proof (cases "readObjectBegin F r = endless_loop")
      case False
      then obtain r1 where r1: "readObjectBegin F r = Inr r1" "skip_object F n' r1 = endless_loop"
        using e unfolding n'(1) 3 bindE_endless by blast
      have p: "progress r r1" by (rule begin_progress(2) [OF F r1(1)])
      have "skip_object F m r1 = endless_loop"
        using staysD(4) [OF IH r1(2) progress_bound [OF p n'(2)]] p unfolding progress_def .
      then show ?thesis unfolding 3 using r1(1) by simp
    qed (unfold 3, simp)
  next
    case 4
    then have lt: "length (tr_input (inputAdvance 1 r)) < length (tr_input r)" by (cases "tr_input r") (auto simp: inputAdvance_def)
    then have le: "3 * length (tr_input (inputAdvance 1 r)) + 2 \<le> n'" using n'(2) by linarith
    have "skip_scan F n' (inputAdvance 1 r) = endless_loop" using e 4(2) n'(1) by metis
    then show ?thesis unfolding 4(2) using staysD(1) [OF IH [OF lt] _ le] by blast
  qed
  then show ?thesis by (rule skip_zero [where S = "\<lambda>n. skip_scan F n r"]) simp
qed

lemma value_stays:
  assumes F: "known_format F" and IH: "\<And>k. k < length (tr_input r) \<Longrightarrow> stays F k"
    and n: "3 * length (tr_input r) + 3 \<le> n" and e: "skip_value F n r = endless_loop"
  shows "skip_value F m r = endless_loop"
proof -
  obtain n' where n': "n = Suc n'" "3 * length (tr_input r) + 2 \<le> n'" using n by (cases n) auto
  have "skip_scan F m (consumeWhitespace r) = endless_loop" for m
    using scan_stays [OF F, of "consumeWhitespace r" n' m] IH e n' consumeWhitespace_length [of r] by simp
  then show ?thesis by (cases m) auto
qed

lemma array_stays:
  assumes F: "known_format F" and IH: "\<And>k. k < length (tr_input r) \<Longrightarrow> stays F k"
    and n: "3 * length (tr_input r) + 4 \<le> n" and e: "skip_array F n r = endless_loop"
  shows "skip_array F m r = endless_loop"
proof -
  obtain n' where n': "n = Suc n'" "3 * length (tr_input r) + 3 \<le> n'" using n by (cases n) auto
  have "skip_array F (Suc m) r = endless_loop" for m
  proof (cases "tryReadArrayEnd F r = endless_loop")
    case False
    then obtain r1 where r1: "tryReadArrayEnd F r = Inr (False, r1)" "bindE (skip_value F n' r1) (skip_array F n') = endless_loop"
      using e unfolding n'(1) skip_array.simps bindE_endless [of "tryReadArrayEnd F r"] by (auto split: if_splits)
    have l1: "length (tr_input r1) \<le> length (tr_input r)" by (rule tryRead_length(1) [OF r1(1)])
    have "bindE (skip_value F m r1) (skip_array F m) = endless_loop"
      using r1(2) unfolding bindE_endless [of "skip_value F n' r1"]
    proof (elim disjE exE conjE)
      assume "skip_value F n' r1 = endless_loop"
      then show ?thesis using value_stays [OF F, of r1 n' m] IH l1 n'(2) by simp
    next
      fix r2 assume r2: "skip_value F n' r1 = Inr r2" "skip_array F n' r2 = endless_loop"
      have "skip_array F m r2 = endless_loop"
      proof (cases "length (tr_input r2) < length (tr_input r)")
        case True
        then show ?thesis using staysD(3) [OF IH r2(2)] n'(2) by simp
      next
        case False
        then have "r2 = r1"
          using skip_lengths(1) [OF F r2(1)] tryRead_False(1) [OF r1(1)] consumeWhitespace_length [of r1] l1
          by (auto simp: progress_def)
        then show ?thesis
          using stuck_array [OF tryReadArrayEnd_idem [OF r1(1)]] skip_value_any [OF r2(1)] by blast
      qed
      then show ?thesis using skip_value_any [OF r2(1), of m] by auto
    qed
    then show ?thesis using r1(1) by simp
  qed simp
  then show ?thesis by (rule skip_zero [where S = "\<lambda>n. skip_array F n r"]) simp
qed

lemma object_stays:
  assumes F: "known_format F" and IH: "\<And>k. k < length (tr_input r) \<Longrightarrow> stays F k"
    and n: "3 * length (tr_input r) + 4 \<le> n" and e: "skip_object F n r = endless_loop"
  shows "skip_object F m r = endless_loop"
proof -
  obtain n' where n': "n = Suc n'" "3 * length (tr_input r) + 3 \<le> n'" using n by (cases n) auto
  have "skip_object F (Suc m) r = endless_loop" for m
  proof (cases "tryReadObjectEnd F r = endless_loop")
    case False
    then obtain r1 where r1: "tryReadObjectEnd F r = Inr (False, r1)"
        "bindE (readObjectMemberName F r1) (\<lambda>(_, r). bindE (skip_value F n' r) (skip_object F n')) = endless_loop"
      using e unfolding n'(1) skip_object.simps bindE_endless [of "tryReadObjectEnd F r"] by (auto split: if_splits)
    have "bindE (readObjectMemberName F r1) (\<lambda>(_, r). bindE (skip_value F m r) (skip_object F m)) = endless_loop"
    proof (cases "readObjectMemberName F r1 = endless_loop")
      case False
      then obtain i r2 where r2: "readObjectMemberName F r1 = Inr (i, r2)" "bindE (skip_value F n' r2) (skip_object F n') = endless_loop"
        using r1(2) unfolding bindE_endless [of "readObjectMemberName F r1"] by auto
      have l2: "length (tr_input r2) < length (tr_input r)"
        using tryRead_length(2) [OF r1(1)] begin_progress(5) [OF F r2(1)] by (simp add: progress_def)
      have "bindE (skip_value F m r2) (skip_object F m) = endless_loop"
        using r2(2) unfolding bindE_endless [of "skip_value F n' r2"]
      proof (elim disjE exE conjE)
        assume "skip_value F n' r2 = endless_loop"
        then show ?thesis using value_stays [OF F, of r2 n' m] IH l2 n'(2) by simp
      next
        fix r3 assume r3: "skip_value F n' r2 = Inr r3" "skip_object F n' r3 = endless_loop"
        have "length (tr_input r3) < length (tr_input r)"
          using skip_lengths(1) [OF F r3(1)] consumeWhitespace_length [of r2] l2 by (auto simp: progress_def)
        then have "skip_object F m r3 = endless_loop" using staysD(4) [OF IH r3(2)] n'(2) by simp
        then show ?thesis using skip_value_any [OF r3(1), of m] by auto
      qed
      then show ?thesis using r2(1) by simp
    qed simp
    then show ?thesis using r1(1) by simp
  qed simp
  then show ?thesis by (rule skip_zero [where S = "\<lambda>n. skip_object F n r"]) simp
qed

lemma all_stays: "known_format F \<Longrightarrow> stays F l"
proof (induction l rule: less_induct)
  case (less l)
  show ?case
    unfolding stays_def
  proof (intro allI impI)
    fix r :: text_reader and n assume l: "length (tr_input r) = l"
    have IH: "k < length (tr_input r) \<Longrightarrow> stays F k" for k using less l by blast
    show "(3 * l + 2 \<le> n \<longrightarrow> skip_scan F n r = endless_loop \<longrightarrow> (\<forall>m. skip_scan F m r = endless_loop)) \<and>
     (3 * l + 3 \<le> n \<longrightarrow> skip_value F n r = endless_loop \<longrightarrow> (\<forall>m. skip_value F m r = endless_loop)) \<and>
     (3 * l + 4 \<le> n \<longrightarrow> skip_array F n r = endless_loop \<longrightarrow> (\<forall>m. skip_array F m r = endless_loop)) \<and>
     (3 * l + 4 \<le> n \<longrightarrow> skip_object F n r = endless_loop \<longrightarrow> (\<forall>m. skip_object F m r = endless_loop))"
      using scan_stays [OF less.prems, of r n, OF IH] value_stays [OF less.prems, of r n, OF IH]
        array_stays [OF less.prems, of r n, OF IH] object_stays [OF less.prems, of r n, OF IH] unfolding l by blast
  qed
qed

text \<open>C16: Skipping a text value needs no more depth than three calls and iterations for each character
  and three more: a greater depth has the same result, so whatever does not return within it
  never returns.\<close>

theorem skip_depth_suffices:
  assumes "known_format F" "3 * length (tr_input r) + 3 \<le> n"
  shows "skip_value F n r = skip_text F r"
proof (cases "skip_text F r = endless_loop")
  case True
  show ?thesis
    unfolding True by (rule staysD(2) [OF all_stays [OF assms(1)] True [unfolded skip_text_def] le_refl])
next
  case False
  then show ?thesis unfolding skip_text_def using skip_more_le(1) [OF assms(2)] by blast
qed

lemma skip_depth_suffices_witness:
  "skip_value JsonFormat 100 \<lparr>tr_input = ''[1,{}],2'', tr_nesting = []\<rparr> = skip_text JsonFormat \<lparr>tr_input = ''[1,{}],2'', tr_nesting = []\<rparr>"
  by (rule skip_depth_suffices [OF known_formats(2)]) simp

section \<open>An array without its end\<close>

text \<open>
  An array that is skipped and has no end is read forever: where the text or the surrounding object ends,
  no element is read and the loop repeats.
\<close>

text \<open>Elements that are numbers, names and words: text without a quote or a bracket.\<close>

definition plain :: "string \<Rightarrow> bool" where
  "plain p \<longleftrightarrow> set p \<inter> set ''\"[]{}'' = {}"

text \<open>What stands where the end of the array is missing: nothing, or the end of the surrounding object.\<close>

definition ends_early :: "text_format \<Rightarrow> string \<Rightarrow> bool" where
  "ends_early F t \<longleftrightarrow> t = [] \<or> starts_with t (ObjectEnd F) \<and> \<not> starts_with t (ArrayEnd F)"

lemma plain_simps [simp]:
  "plain []" "plain (c # p) \<longleftrightarrow> c \<notin> set ''\"[]{}'' \<and> plain p" "plain p \<Longrightarrow> plain (dropWhile f p)"
  by (auto simp: plain_def dest: set_dropWhileD)

lemma ends_early_cases:
  assumes "known_format F" "ends_early F t"
  obtains "t = []" | u where "t = CHR ''}'' # u" "ArrayEnd F = '']''"
proof (cases t)
  case (Cons c u)
  then have t: "starts_with (c # u) (ObjectEnd F)" "\<not> starts_with (c # u) (ArrayEnd F)"
    using assms(2) by (simp_all add: ends_early_def)
  from assms(1) consider "F = StringFormat" | "F = JsonFormat" unfolding known_format_def by (elim disjE)
  then show ?thesis
  proof cases
    case 1
    then show ?thesis using t by (simp add: StringFormat_def)
  next
    case 2
    then show ?thesis using t that(2) [of u] by (simp add: JsonFormat_def Cons)
  qed
qed (rule that(1))

lemma bracket_tokens:
  assumes "known_format F"
  shows "ArrayElementSeparator F = '',''" "ObjectMemberValueEnd F = '',''" "ObjectBegin F = ''{''" "ObjectEnd F = ''}''"
    "ArrayBegin F = ''{'' \<and> ArrayEnd F = ''}'' \<or> ArrayBegin F = ''['' \<and> ArrayEnd F = '']''"
  using assms unfolding known_format_def by (elim disjE; simp add: StringFormat_def JsonFormat_def)+

lemma plain_blanks:
  assumes "known_format F" "ends_early F t"
  shows "dropWhile is_blank (p @ t) = dropWhile is_blank p @ t"
proof -
  have "dropWhile is_blank t = t"
    using assms by (cases rule: ends_early_cases) (simp_all add: is_blank_def)
  then show ?thesis by (cases "\<exists>c \<in> set p. \<not> is_blank c") (auto simp: dropWhile_append1 dropWhile_append2)
qed

lemma scan_plain:
  assumes "known_format F" "ends_early F t"
  shows "plain p \<Longrightarrow> skip_scan F n (Rd (p @ t) M) = endless_loop \<or>
    (\<exists>q. plain q \<and> skip_scan F n (Rd (p @ t) M) = Inr (Rd (q @ t) M))"
proof (induction p arbitrary: n)
  case Nil
  show ?case
  proof (cases n)
    case (Suc l)
    have "skip_scan F n (Rd t M) = Inr (Rd t M)"
    proof (cases rule: ends_early_cases [OF assms])
      case (2 u)
      then have "F = JsonFormat" using assms(1) unfolding known_format_def by (elim disjE) (simp_all add: StringFormat_def)
      then show ?thesis unfolding Suc 2(1) skip_scan.simps by (simp add: JsonFormat_def StringDelimiter_def)
    qed (simp add: Suc)
    then show ?thesis by (intro disjI2 exI [of _ "[]"]) simp
  qed simp
next
  case (Cons c p)
  show ?case
  proof (cases n)
    case (Suc l)
    have c: "c \<noteq> CHR 0x22" "c \<noteq> CHR ''['' " "c \<noteq> CHR '']''" "c \<noteq> CHR ''{''" "c \<noteq> CHR ''}''" "plain p"
      using Cons.prems by simp_all
    note tokens = bracket_tokens [OF assms(1)]
    show ?thesis
    proof (cases "c = CHR '',''")
      case True
      then have "skip_scan F n (Rd ((c # p) @ t) M) = Inr (Rd (p @ t) M)"
        using tokens unfolding Suc skip_scan.simps
        by (elim disjE) (simp_all add: consumeToken_def tryConsumeToken_def inputAdvance_def StringDelimiter_def)
      then show ?thesis using c(6) by blast
    next
      case False
      then have "skip_scan F n (Rd ((c # p) @ t) M) = skip_scan F l (Rd (p @ t) M)"
        using tokens c unfolding Suc skip_scan.simps by (elim disjE) (simp_all add: inputAdvance_def StringDelimiter_def)
      then show ?thesis using Cons.IH [OF c(6), of l] by simp
    qed
  qed simp
qed

lemma no_array_end:
  assumes "known_format F" "ends_early F t" "plain p"
  shows "tryReadArrayEnd F (Rd (p @ t) M) = Inr (False, Rd (dropWhile is_blank p @ t) M)"
proof -
  have "plain (dropWhile is_blank p)" using assms(3) by simp
  then have "\<not> starts_with (dropWhile is_blank p @ t) (ArrayEnd F)"
  proof (cases "dropWhile is_blank p")
    case Nil
    have "\<not> starts_with t (ArrayEnd F)"
      using bracket_tokens(5) [OF assms(1)] by (cases rule: ends_early_cases [OF assms(1,2)]) auto
    then show ?thesis by (simp only: Nil append.simps not_False_eq_True)
  next
    case (Cons c q)
    then show ?thesis using \<open>plain (dropWhile is_blank p)\<close> bracket_tokens(5) [OF assms(1)] by (elim disjE) simp_all
  qed
  then show ?thesis
    by (simp add: tryReadArrayEnd_def tryConsumeTokenAfterWhitespace_def tryConsumeToken_def consumeWhitespace_def
        plain_blanks [OF assms(1,2)])
qed

lemma array_plain:
  assumes "known_format F" "ends_early F t"
  shows "plain p \<Longrightarrow> skip_array F n (Rd (p @ t) M) = endless_loop"
proof (induction n arbitrary: p)
  case (Suc n)
  have "skip_value F n (Rd (dropWhile is_blank p @ t) M) = endless_loop \<or>
    (\<exists>q. plain q \<and> skip_value F n (Rd (dropWhile is_blank p @ t) M) = Inr (Rd (q @ t) M))"
  proof (cases n)
    case (Suc l)
    have "consumeWhitespace (Rd (dropWhile is_blank p @ t) M) = Rd (dropWhile is_blank p @ t) M"
      by (simp add: consumeWhitespace_def plain_blanks [OF assms])
    then show ?thesis using scan_plain [OF assms, of "dropWhile is_blank p" l M] Suc.prems by (simp add: Suc)
  qed simp
  then show ?case
    using Suc.IH by (auto simp: no_array_end [OF assms Suc.prems])
qed simp

text \<open>C17: Skipping an array whose end is missing never returns when its elements are numbers, names
  and words, that is text without quotes and brackets, and the input ends behind them or the
  surrounding object is closed instead: there the loop over the elements repeats without
  reading anything.\<close>

theorem skip_unclosed_array:
  assumes F: "known_format F" and "plain elements" "ends_early F t"
  shows "skip_text F (Rd (ArrayBegin F @ elements @ t) M) = endless_loop"
proof -
  obtain a where a: "ArrayBegin F = [a]" "a = CHR ''['' \<or> a = CHR ''{''" using known_array [OF F] by auto
  have "\<not> is_blank a" "\<not> starts_with (a # elements @ t) StringDelimiter"
    using a(2) by (auto simp: is_blank_def StringDelimiter_def)
  then show ?thesis
    unfolding skip_text_def numeral_3_eq_3 add_Suc_right skip_value.simps skip_scan.simps
    using array_plain [OF F assms(3,2)] by (simp add: a(1) tr_readArrayBegin_def token_simps del: skip_array.simps)
qed

lemma skip_unclosed_array_witness:
  "skip_text JsonFormat \<lparr>tr_input = ''[1, true }'', tr_nesting = [(InObject, True)]\<rparr> = endless_loop
    \<and> skip_text JsonFormat \<lparr>tr_input = ''[1'', tr_nesting = []\<rparr> = endless_loop"
proof -
  have "skip_text JsonFormat (Rd (ArrayBegin JsonFormat @ ''1, true '' @ ''}'') [(InObject, True)]) = endless_loop"
    by (rule skip_unclosed_array [OF known_formats(2)]) (simp_all add: JsonFormat_def ends_early_def)
  moreover have "skip_text JsonFormat (Rd (ArrayBegin JsonFormat @ ''1'' @ []) []) = endless_loop"
    by (rule skip_unclosed_array [OF known_formats(2)]) (simp_all add: ends_early_def)
  ultimately show ?thesis by (simp add: JsonFormat_def del: skip_value.simps)
qed

end
