(* ===== verification/Uri.thy ===== *)
theory Uri
  imports Text_Format
begin

text \<open>
  \<open>tools/Uri.cpp\<close> and \<open>tools/string_tools.h\<close>: a URI is its text and views into this text. A view is a
  position and a length, or null, or - because \<open>parse()\<close> does not always assign \<open>m_authority\<close> - a view
  into a text that is gone. A setter replaces the text of a view and parses the result again.
\<close>

section \<open>Views\<close>

datatype view = NullView | View nat nat | Dangling nat

fun view_text :: "string \<Rightarrow> view \<Rightarrow> string" where
  "view_text s (View i n) = take n (drop i s)"
| "view_text s v = []"

fun view_size :: "view \<Rightarrow> nat" where
  "view_size NullView = 0"
| "view_size (View i n) = n"
| "view_size (Dangling n) = n"

abbreviation view_empty :: "view \<Rightarrow> bool" where
  "view_empty v \<equiv> view_size v = 0"

fun view_substr :: "view \<Rightarrow> nat \<Rightarrow> nat \<Rightarrow> view" where
  "view_substr (View i n) k m = View (i + k) (min m (n - k))"
| "view_substr v k m = v"

abbreviation view_from :: "view \<Rightarrow> nat \<Rightarrow> view" where
  "view_from v k \<equiv> view_substr v k (view_size v - k)"

section \<open>Splitting\<close>

text \<open>The position of the first occurrence, \<open>std::string_view::find\<close>.\<close>

fun find_sub :: "string \<Rightarrow> string \<Rightarrow> nat option" where
  "find_sub d [] = (if d = [] then Some 0 else None)"
| "find_sub d (c # cs) = (if starts_with (c # cs) d then Some 0 else map_option Suc (find_sub d cs))"

definition find_delimiter :: "string \<Rightarrow> string \<Rightarrow> bool \<Rightarrow> nat option result" where
  "find_delimiter s d assertNotNpos =
     (case find_sub d s of
        None \<Rightarrow> if assertNotNpos then Inl (RuntimeError ''string does not contain delimiter'') else Inr None
      | k \<Rightarrow> Inr k)"

definition split_before_first_of :: "string \<Rightarrow> view \<Rightarrow> string \<Rightarrow> bool \<Rightarrow> (view \<times> view) result" where
  "split_before_first_of s v d assertNotNpos =
     bindE (find_delimiter (view_text s v) d assertNotNpos) (\<lambda>p. Inr
       (case p of None \<Rightarrow> (v, NullView) | Some k \<Rightarrow> (view_substr v 0 k, view_from v k)))"

definition split_left_at_first_of :: "string \<Rightarrow> view \<Rightarrow> string \<Rightarrow> bool \<Rightarrow> (view \<times> view) result" where
  "split_left_at_first_of s v d assertNotNpos =
     bindE (find_delimiter (view_text s v) d assertNotNpos) (\<lambda>p. Inr
       (case p of None \<Rightarrow> (v, NullView) | Some k \<Rightarrow> (view_substr v 0 k, view_from v (k + length d))))"

definition split_right_at_first_of :: "string \<Rightarrow> view \<Rightarrow> string \<Rightarrow> bool \<Rightarrow> (view \<times> view) result" where
  "split_right_at_first_of s v d assertNotNpos =
     bindE (find_delimiter (view_text s v) d assertNotNpos) (\<lambda>p. Inr
       (case p of None \<Rightarrow> (NullView, v) | Some k \<Rightarrow> (view_substr v 0 k, view_from v (k + length d))))"

definition split_after_first_of :: "string \<Rightarrow> view \<Rightarrow> string \<Rightarrow> bool \<Rightarrow> (view \<times> view) result" where
  "split_after_first_of s v d assertNotNpos =
     bindE (find_delimiter (view_text s v) d assertNotNpos) (\<lambda>p. Inr
       (case p of None \<Rightarrow> (NullView, v)
        | Some k \<Rightarrow> (view_substr v 0 (k + length d), view_from v (k + length d))))"

section \<open>Parsing\<close>

record uri =
  m_uriStr :: string
  m_scheme :: view
  m_authority :: view
  m_userName :: view
  m_userPassword :: view
  m_hostDelimited :: view
  m_host :: view
  m_port :: view
  m_path :: view

text \<open>
  The part of \<open>parse()\<close> for the host and the port. The exception of a missing bracket leaves behind what has
  been assigned before it.
\<close>

definition parse_host_port :: "view \<Rightarrow> uri \<Rightarrow> uri \<times> unit result" where
  "parse_host_port remainder u =
     (let s = m_uriStr u in
      if starts_with (view_text s remainder) ''[''
      then (case split_after_first_of s remainder '']'' True of
              Inl e \<Rightarrow> (u, Inl (RuntimeError ''could not parse URI string''))
            | Inr (hostDelimited, port) \<Rightarrow>
                (u\<lparr>m_hostDelimited := hostDelimited,
                   m_port := (if starts_with (view_text s port) '':'' then view_from port 1 else port),
                   m_host := view_substr hostDelimited 1 (view_size hostDelimited - 2)\<rparr>, Inr ()))
      else (case split_left_at_first_of s remainder '':'' False of
              Inl e \<Rightarrow> (u, Inl e)
            | Inr (host, port) \<Rightarrow>
                (u\<lparr>m_host := host, m_port := port, m_hostDelimited := host\<rparr>, Inr ())))"

text \<open>The part of \<open>parse()\<close> for the authority.\<close>

definition parse_authority :: "uri \<Rightarrow> uri \<times> unit result" where
  "parse_authority u =
     (let s = m_uriStr u in
      case split_right_at_first_of s (m_authority u) ''@'' False of
        Inl e \<Rightarrow> (u, Inl e)
      | Inr (userInfo, remainder) \<Rightarrow>
          (case (if view_empty userInfo then Inr (m_userName u, m_userPassword u)
                 else split_left_at_first_of s userInfo '':'' False) of
             Inl e \<Rightarrow> (u, Inl e)
           | Inr (name, password) \<Rightarrow>
               parse_host_port remainder (u\<lparr>m_userName := name, m_userPassword := password\<rparr>)))"

fun dangle :: "view \<Rightarrow> view" where
  "dangle (View i n) = Dangling n"
| "dangle v = v"

definition uri_parse :: "uri \<Rightarrow> uri \<times> unit result" where
  "uri_parse u0 =
     (let s = m_uriStr u0;
          u = u0\<lparr>m_userName := NullView, m_userPassword := NullView, m_hostDelimited := NullView,
                 m_host := NullView, m_port := NullView\<rparr> in
      case split_right_at_first_of s (View 0 (length s)) ''://'' False of
        Inl e \<Rightarrow> (u, Inl e)
      | Inr (scheme, remainder) \<Rightarrow>
          if view_empty scheme
          then (case split_right_at_first_of s remainder '':'' False of
                  Inl e \<Rightarrow> (u, Inl e)
                | Inr (scheme, path) \<Rightarrow>
                    (u\<lparr>m_scheme := scheme, m_path := path, m_authority := dangle (m_authority u)\<rparr>, Inr ()))
          else (case split_before_first_of s remainder ''/'' False of
                  Inl e \<Rightarrow> (u, Inl e)
                | Inr (authority, path) \<Rightarrow>
                    let u = u\<lparr>m_scheme := scheme, m_authority := authority, m_path := path\<rparr> in
                    if view_empty authority then (u, Inr ()) else parse_authority u))"

text \<open>The constructors; an exception leaves no object.\<close>

definition fresh_uri :: "string \<Rightarrow> uri" where
  "fresh_uri s =
     \<lparr>m_uriStr = s, m_scheme = NullView, m_authority = NullView, m_userName = NullView, m_userPassword = NullView,
      m_hostDelimited = NullView, m_host = NullView, m_port = NullView, m_path = NullView\<rparr>"

definition Uri_new :: "string \<Rightarrow> uri result" where
  "Uri_new s = (case uri_parse (fresh_uri s) of (u, r) \<Rightarrow> bindE r (\<lambda>_. Inr u))"

definition Uri_of_host :: "string \<Rightarrow> string \<Rightarrow> string \<Rightarrow> uri result" where
  "Uri_of_host scheme host port = Uri_new (scheme @ ''://'' @ host @ '':'' @ port)"

definition Uri_of_port :: "string \<Rightarrow> string \<Rightarrow> 16 word \<Rightarrow> uri result" where
  "Uri_of_port scheme host port = Uri_of_host scheme host (show_base 10 (unat port))"

definition Uri_of_path :: "string \<Rightarrow> string \<Rightarrow> uri result" where
  "Uri_of_path scheme path = Uri_new (scheme @ '':'' @ path)"

definition uri_copy :: "uri \<Rightarrow> uri result" where
  "uri_copy u = Uri_new (m_uriStr u)"

definition uri_assign :: "uri \<Rightarrow> uri \<Rightarrow> uri \<times> unit result" where
  "uri_assign u rhs = uri_parse (u\<lparr>m_uriStr := m_uriStr rhs\<rparr>)"

section \<open>Setters\<close>

text \<open>The text of a view that a caller gets, which is not there when the view dangles.\<close>

definition read_view :: "uri \<Rightarrow> view \<Rightarrow> string result" where
  "read_view u v =
     (case v of
        Dangling n \<Rightarrow> if n = 0 then Inr [] else Inl (UndefinedBehaviour ''view of a text that is gone'')
      | _ \<Rightarrow> Inr (view_text (m_uriStr u) v))"

definition uri_replace :: "view \<Rightarrow> string \<Rightarrow> uri \<Rightarrow> uri \<times> unit result" where
  "uri_replace part replacement u =
     (case part of
        View i n \<Rightarrow>
          uri_parse (u\<lparr>m_uriStr := take i (m_uriStr u) @ replacement @ drop (i + n) (m_uriStr u)\<rparr>)
      | _ \<Rightarrow> (u, Inl (UndefinedBehaviour ''difference of unrelated pointers'')))"

abbreviation part :: "uri \<Rightarrow> view \<Rightarrow> string" where
  "part u v \<equiv> view_text (m_uriStr u) v"

definition setScheme :: "string \<Rightarrow> uri \<Rightarrow> uri \<times> unit result" where
  "setScheme scheme u =
     (if scheme = [] then (u, Inl (RuntimeError ''URI scheme cannot be empty''))
      else uri_replace (m_scheme u) scheme u)"

definition setAuthority :: "string \<Rightarrow> uri \<Rightarrow> uri \<times> unit result" where
  "setAuthority authority u =
     (if view_empty (m_authority u)
      then uri_replace (m_scheme u) (part u (m_scheme u) @ ''://'' @ authority @ part u (m_path u)) u
      else uri_replace (m_authority u) authority u)"

definition setUserName :: "string \<Rightarrow> uri \<Rightarrow> uri \<times> unit result" where
  "setUserName userName u =
     (if view_empty (m_userName u)
      then if view_empty (m_host u)
           then (u, Inl (RuntimeError ''cannot set user name on URI without a host''))
           else uri_replace (m_host u) (userName @ ''@'' @ part u (m_host u)) u
      else uri_replace (m_userName u) userName u)"

text \<open>A view together with the separator in front of it.\<close>

fun with_separator :: "view \<Rightarrow> view" where
  "with_separator (View i n) = View (i - 1) (n + 1)"
| "with_separator v = v"

definition setUserPassword :: "string \<Rightarrow> uri \<Rightarrow> uri \<times> unit result" where
  "setUserPassword userPassword u =
     (if view_empty (m_userPassword u)
      then if view_empty (m_userName u)
           then (u, Inl (RuntimeError ''cannot set user password on URI without a user name''))
           else uri_replace (m_userName u) (part u (m_userName u) @ '':'' @ userPassword) u
      else if userPassword = [] then uri_replace (with_separator (m_userPassword u)) userPassword u
      else uri_replace (m_userPassword u) userPassword u)"

text \<open>The host goes to \<open>setAuthority\<close> as a C string, which ends at its first null character.\<close>

definition setHost :: "string \<Rightarrow> uri \<Rightarrow> uri \<times> unit result" where
  "setHost host u =
     (let hostView = (if CHR '':'' \<in> set host then ''['' @ host @ '']'' else host) in
      if view_empty (m_authority u) then setAuthority (takeWhile (\<lambda>c. c \<noteq> CHR 0x00) hostView) u
      else uri_replace (m_hostDelimited u) hostView u)"

definition setPort :: "string \<Rightarrow> uri \<Rightarrow> uri \<times> unit result" where
  "setPort port u =
     (if view_empty (m_port u)
      then if view_empty (m_host u)
           then (u, Inl (RuntimeError ''cannot set port on URI without a host''))
           else uri_replace (m_host u) (part u (m_host u) @ '':'' @ port) u
      else if port = [] then uri_replace (with_separator (m_port u)) port u
      else uri_replace (m_port u) port u)"

definition setPath :: "string \<Rightarrow> uri \<Rightarrow> uri \<times> unit result" where
  "setPath path u =
     (if path \<noteq> [] \<and> hd path \<noteq> CHR ''/''
      then (u, Inl (RuntimeError ''URI path to set does not begin with /''))
      else if view_empty (m_path u) then uri_parse (u\<lparr>m_uriStr := m_uriStr u @ path\<rparr>)
      else uri_replace (m_path u) path u)"

section \<open>Lists of URIs\<close>

text \<open>\<open>FromStrings\<close>: the texts between the blanks; every iteration takes at least one character.\<close>

abbreviation trim_text :: "string \<Rightarrow> string" where
  "trim_text \<equiv> dropWhile (\<lambda>c. c = CHR '' '')"

lemma length_trim: "length (trim_text s) \<le> length s"
  by (rule length_dropWhile_le)

function FromStrings :: "string \<Rightarrow> uri list result" where
  "FromStrings s =
     (let t = trim_text s in
      case find_sub '' '' t of
        None \<Rightarrow> if t = [] then Inr [] else bindE (Uri_new t) (\<lambda>u. Inr [u])
      | Some k \<Rightarrow>
          if k = 0 then Inr []
          else bindE (Uri_new (take k t)) (\<lambda>u. bindE (FromStrings (drop (k + 1) t)) (\<lambda>us. Inr (u # us))))"
  by pat_completeness auto
termination
proof (relation "measure length", rule wf_measure)
  fix s t k u
  assume t: "t = trim_text s" and k: "find_sub '' '' t = Some k"
  have "t \<noteq> []" using k by (cases t) simp_all
  then have "length (drop (k + 1) t) < length t" by (cases t) simp_all
  also have "length t \<le> length s" unfolding t by (rule length_trim)
  finally show "(drop (k + 1) t, s) \<in> measure length" by simp
qed

declare FromStrings.simps [simp del]

end
