(* ===== verification/Uri_Facts.thy ===== *)
theory Uri_Facts
  imports Uri
begin

text \<open>
  The parts of a URI and its text: parsing finds the parts, and every setter is the update of one part.
\<close>

section \<open>Splitting a text at a character\<close>

lemma find_sub_None: "x \<notin> set s \<Longrightarrow> find_sub [x] s = None"
  by (induction s) auto

lemma find_sub_Some: "x \<notin> set a \<Longrightarrow> find_sub [x] (a @ x # b) = Some (length a)"
  by (induction a) auto

lemma find_scheme_end: "CHR '':'' \<notin> set a \<Longrightarrow> find_sub ''://'' (a @ ''://'' @ b) = Some (length a)"
  by (induction a) auto

lemma find_scheme_none: "CHR '':'' \<notin> set s \<Longrightarrow> find_sub ''://'' s = None"
  by (induction s) auto

text \<open>The view of \<open>t\<close> behind \<open>pre\<close>.\<close>

definition at :: "string \<Rightarrow> string \<Rightarrow> view" where
  "at pre t = View (length pre) (length t)"

lemma view_text_at: "s = pre @ t @ post \<Longrightarrow> view_text s (at pre t) = t"
  by (simp add: at_def)

lemma view_size_at [simp]: "view_size (at pre t) = length t"
  by (simp add: at_def)

lemma substr_at:
  "view_substr (at pre (a @ b)) 0 (length a) = at pre a"
  "view_from (at pre (a @ b)) (length a) = at (pre @ a) b"
  by (simp_all add: at_def)

lemma split_simps:
  assumes s: "s = pre @ t @ post"
  shows "find_sub d t = None \<Longrightarrow> split_left_at_first_of s (at pre t) d False = Inr (at pre t, NullView)"
    "find_sub d t = None \<Longrightarrow> split_right_at_first_of s (at pre t) d False = Inr (NullView, at pre t)"
    "find_sub d t = None \<Longrightarrow> split_before_first_of s (at pre t) d False = Inr (at pre t, NullView)"
  by (simp_all add: split_left_at_first_of_def split_right_at_first_of_def split_before_first_of_def find_delimiter_def
      view_text_at [OF s])

lemma split_found:
  assumes s: "s = pre @ (a @ d @ b) @ post" and f: "find_sub d (a @ d @ b) = Some (length a)"
  shows "split_left_at_first_of s (at pre (a @ d @ b)) d f1 = Inr (at pre a, at (pre @ a @ d) b)"
    "split_right_at_first_of s (at pre (a @ d @ b)) d f1 = Inr (at pre a, at (pre @ a @ d) b)"
    "split_before_first_of s (at pre (a @ d @ b)) d f1 = Inr (at pre a, at (pre @ a) (d @ b))"
    "split_after_first_of s (at pre (a @ d @ b)) d f1 = Inr (at pre (a @ d), at (pre @ a @ d) b)"
  using f
  by (simp_all add: split_left_at_first_of_def split_right_at_first_of_def split_before_first_of_def
      split_after_first_of_def find_delimiter_def view_text_at [OF s]) (simp_all add: at_def)

section \<open>The parts of a URI\<close>

text \<open>A part that is not there is empty.\<close>

record uri_parts =
  up_scheme :: string
  up_user :: string
  up_password :: string
  up_host :: string
  up_port :: string
  up_path :: string

definition show_user :: "uri_parts \<Rightarrow> string" where
  "show_user c =
     (if up_user c = [] then []
      else up_user c @ (if up_password c = [] then [] else '':'' @ up_password c))"

definition show_host :: "string \<Rightarrow> string" where
  "show_host h = (if CHR '':'' \<in> set h then ''['' @ h @ '']'' else h)"

definition show_port :: "uri_parts \<Rightarrow> string" where
  "show_port c = (if up_port c = [] then [] else '':'' @ up_port c)"

definition show_authority :: "uri_parts \<Rightarrow> string" where
  "show_authority c =
     (if up_user c = [] then [] else show_user c @ ''@'') @ show_host (up_host c) @ show_port c"

definition show_uri :: "uri_parts \<Rightarrow> string" where
  "show_uri c = up_scheme c @ ''://'' @ show_authority c @ up_path c"

definition wf_parts :: "uri_parts \<Rightarrow> bool" where
  "wf_parts c \<longleftrightarrow>
     up_scheme c \<noteq> [] \<and> CHR '':'' \<notin> set (up_scheme c)
     \<and> up_host c \<noteq> [] \<and> CHR '']'' \<notin> set (up_host c) \<and> \<not> starts_with (up_host c) ''[''
     \<and> CHR '':'' \<notin> set (up_user c) \<and> (up_password c \<noteq> [] \<longrightarrow> up_user c \<noteq> [])
     \<and> (\<forall>s \<in> {up_user c, up_password c, up_host c, up_port c}. set s \<inter> set ''/@'' = {})
     \<and> (up_path c = [] \<or> starts_with (up_path c) ''/'')"

text \<open>The views of the parts in the text.\<close>

definition uri_of :: "uri_parts \<Rightarrow> uri" where
  "uri_of c =
     (let p0 = up_scheme c @ ''://'';
          p1 = p0 @ (if up_user c = [] then [] else show_user c @ ''@'');
          hd = show_host (up_host c) in
      \<lparr>m_uriStr = show_uri c, m_scheme = at [] (up_scheme c), m_authority = at p0 (show_authority c),
       m_userName = (if up_user c = [] then NullView else at p0 (up_user c)),
       m_userPassword = (if up_password c = [] then NullView else at (p0 @ up_user c @ '':'') (up_password c)),
       m_hostDelimited = at p1 hd,
       m_host = (if CHR '':'' \<in> set (up_host c) then at (p1 @ ''['') (up_host c) else at p1 (up_host c)),
       m_port = (if up_port c = [] then (if CHR '':'' \<in> set (up_host c) then at (p1 @ hd) [] else NullView)
                 else at (p1 @ hd @ '':'') (up_port c)),
       m_path = (if up_path c = [] then NullView else at (p0 @ show_authority c) (up_path c))\<rparr>)"

lemma parse_host:
  assumes wf: "wf_parts c" and s: "s = p1 @ (show_host (up_host c) @ show_port c) @ post" "m_uriStr u = s"
  shows "parse_host_port (at p1 (show_host (up_host c) @ show_port c)) u
       = (u\<lparr>m_hostDelimited := at p1 (show_host (up_host c)),
            m_host := (if CHR '':'' \<in> set (up_host c) then at (p1 @ ''['') (up_host c) else at p1 (up_host c)),
            m_port := (if up_port c = [] then (if CHR '':'' \<in> set (up_host c) then at (p1 @ show_host (up_host c)) [] else NullView)
                       else at (p1 @ show_host (up_host c) @ '':'') (up_port c))\<rparr>, Inr ())"
proof (cases "CHR '':'' \<in> set (up_host c)")
  case True
  let ?a = "''['' @ up_host c"
  have d: "show_host (up_host c) @ show_port c = ?a @ '']'' @ show_port c" using True by (simp add: show_host_def)
  have f: "find_sub '']'' (?a @ '']'' @ show_port c) = Some (length ?a)"
    using find_sub_Some [of "CHR '']''" ?a "show_port c"] wf by (simp add: wf_parts_def)
  have s': "s = p1 @ (?a @ '']'' @ show_port c) @ post" using s(1) unfolding d .
  have v: "view_text s (at (p1 @ ?a @ '']'') (show_port c)) = show_port c" by (rule view_text_at) (simp add: s')
  show ?thesis
    unfolding parse_host_port_def Let_def s(2) d split_found(4) [OF s' f] view_text_at [OF s']
    using v True by (simp add: show_host_def show_port_def) (simp add: at_def)
next
  case False
  have h: "show_host (up_host c) = up_host c" using False by (simp add: show_host_def)
  have n: "\<not> starts_with (up_host c @ t) ''[''" for t using wf by (cases "up_host c") (auto simp: wf_parts_def)
  show ?thesis
  proof (cases "up_port c = []")
    case True
    then have p: "show_port c = []" by (simp add: show_port_def)
    have s': "s = p1 @ up_host c @ post" using s by (simp add: h p)
    show ?thesis
      unfolding parse_host_port_def Let_def s(2) h p append_Nil2 view_text_at [OF s'] split_simps(1) [OF s' find_sub_None [OF False]]
      using n [of "[]"] False True by simp
  next
    case port: False
    then have p: "show_port c = '':'' @ up_port c" by (simp add: show_port_def)
    have s': "s = p1 @ (up_host c @ '':'' @ up_port c) @ post" using s by (simp add: h p)
    have f: "find_sub '':'' (up_host c @ '':'' @ up_port c) = Some (length (up_host c))"
      using find_sub_Some [OF False] by simp
    show ?thesis
      unfolding parse_host_port_def Let_def s(2) h p view_text_at [OF s'] split_found(1) [OF s' f]
      using n False port by simp
  qed
qed

lemma authority_chars:
  assumes "wf_parts c"
  shows "CHR ''/'' \<notin> set (show_authority c)" "CHR ''@'' \<notin> set (show_host (up_host c) @ show_port c)"
    "CHR ''@'' \<notin> set (show_user c)" "show_authority c \<noteq> []"
  using assms by (auto simp: wf_parts_def show_authority_def show_user_def show_host_def show_port_def)

lemma parse_user:
  assumes wf: "wf_parts c" and s: "s = p0 @ show_authority c @ post"
  shows "split_right_at_first_of s (at p0 (show_authority c)) ''@'' False =
      Inr (if up_user c = [] then NullView else at p0 (show_user c),
           at (p0 @ (if up_user c = [] then [] else show_user c @ ''@'')) (show_host (up_host c) @ show_port c))"
    "up_user c \<noteq> [] \<Longrightarrow> split_left_at_first_of s (at p0 (show_user c)) '':'' False =
      Inr (at p0 (up_user c), if up_password c = [] then NullView else at (p0 @ up_user c @ '':'') (up_password c))"
proof -
  let ?h = "show_host (up_host c) @ show_port c"
  show "split_right_at_first_of s (at p0 (show_authority c)) ''@'' False =
      Inr (if up_user c = [] then NullView else at p0 (show_user c),
           at (p0 @ (if up_user c = [] then [] else show_user c @ ''@'')) ?h)"
  proof (cases "up_user c = []")
    case True
    then have a: "show_authority c = ?h" by (simp add: show_authority_def)
    have s': "s = p0 @ ?h @ post" using s unfolding a .
    show ?thesis
      unfolding a split_simps(2) [OF s' find_sub_None [OF authority_chars(2) [OF wf]]] using True by simp
  next
    case False
    then have a: "show_authority c = show_user c @ ''@'' @ ?h" by (simp add: show_authority_def)
    have s': "s = p0 @ (show_user c @ ''@'' @ ?h) @ post" using s unfolding a .
    have f: "find_sub ''@'' (show_user c @ ''@'' @ ?h) = Some (length (show_user c))"
      using find_sub_Some [OF authority_chars(3) [OF wf], of ?h] by simp
    show ?thesis unfolding a split_found(2) [OF s' f] using False by simp
  qed
  assume u: "up_user c \<noteq> []"
  obtain post' where s': "s = p0 @ show_user c @ post'" using s u by (auto simp: show_authority_def)
  have n: "CHR '':'' \<notin> set (up_user c)" using wf by (simp add: wf_parts_def)
  show "split_left_at_first_of s (at p0 (show_user c)) '':'' False =
      Inr (at p0 (up_user c), if up_password c = [] then NullView else at (p0 @ up_user c @ '':'') (up_password c))"
  proof (cases "up_password c = []")
    case True
    then have a: "show_user c = up_user c" using u by (simp add: show_user_def)
    show ?thesis
      using split_simps(1) [OF s' [unfolded a] find_sub_None [OF n]] True by (simp add: a)
  next
    case False
    then have a: "show_user c = up_user c @ '':'' @ up_password c" using u by (simp add: show_user_def)
    have f: "find_sub '':'' (up_user c @ '':'' @ up_password c) = Some (length (up_user c))"
      using find_sub_Some [OF n] by simp
    show ?thesis using split_found(1) [OF s' [unfolded a] f] False by (simp add: a)
  qed
qed

lemma parse_show:
  assumes wf: "wf_parts c" and u: "m_uriStr u = show_uri c"
  shows "uri_parse u = (uri_of c, Inr ())"
proof -
  let ?s = "show_uri c" and ?p0 = "up_scheme c @ ''://''" and ?a = "show_authority c"
  have s1: "?s = [] @ (up_scheme c @ ''://'' @ (?a @ up_path c)) @ []" by (simp add: show_uri_def)
  have f1: "find_sub ''://'' (up_scheme c @ ''://'' @ (?a @ up_path c)) = Some (length (up_scheme c))"
    by (rule find_scheme_end) (use wf in \<open>simp add: wf_parts_def\<close>)
  have v: "View 0 (length ?s) = at [] (up_scheme c @ ''://'' @ (?a @ up_path c))" by (simp add: at_def show_uri_def)
  have scheme: "split_right_at_first_of ?s (View 0 (length ?s)) ''://'' False = Inr (at [] (up_scheme c), at ?p0 (?a @ up_path c))"
    unfolding v using split_found(2) [OF s1 f1] by simp
  have path: "split_before_first_of ?s (at ?p0 (?a @ up_path c)) ''/'' False =
      Inr (at ?p0 ?a, if up_path c = [] then NullView else at (?p0 @ ?a) (up_path c))"
  proof (cases "up_path c")
    case Nil
    have s': "?s = ?p0 @ ?a @ []" by (simp add: show_uri_def Nil)
    show ?thesis using split_simps(3) [OF s' find_sub_None [OF authority_chars(1) [OF wf]]] Nil by simp
  next
    case (Cons x q)
    then have x: "up_path c = ''/'' @ q" using wf by (auto simp: wf_parts_def)
    have s': "?s = ?p0 @ (?a @ ''/'' @ q) @ []" by (simp add: show_uri_def x)
    have f: "find_sub ''/'' (?a @ ''/'' @ q) = Some (length ?a)" using find_sub_Some [OF authority_chars(1) [OF wf]] by simp
    show ?thesis unfolding x split_found(3) [OF s' f] by simp
  qed
  have s2: "?s = ?p0 @ ?a @ up_path c" by (simp add: show_uri_def)
  define p1 where "p1 = ?p0 @ (if up_user c = [] then [] else show_user c @ ''@'')"
  have s3: "?s = p1 @ (show_host (up_host c) @ show_port c) @ up_path c"
    by (simp add: show_uri_def show_authority_def p1_def)
  have none: "up_user c = [] \<Longrightarrow> up_password c = []" using wf by (auto simp: wf_parts_def)
  have ne: "up_scheme c \<noteq> []" "?a \<noteq> []" "up_user c \<noteq> [] \<Longrightarrow> show_user c \<noteq> []"
    using wf authority_chars(4) [OF wf] by (auto simp: wf_parts_def show_user_def)
  note user = parse_user [OF wf s2, folded p1_def] and host = parse_host [OF wf s3]
  show ?thesis
    unfolding uri_parse_def Let_def u scheme uri_of_def p1_def [symmetric]
    using ne(1,2) none
    by (cases "up_user c = []") (simp_all add: path parse_authority_def u user ne(3) host)
qed

section \<open>Parts read and set\<close>

lemma show_uri_split:
  "show_uri c = [] @ up_scheme c @ (''://'' @ show_authority c @ up_path c)"
  "show_uri c = (up_scheme c @ ''://'') @ show_authority c @ up_path c"
  "show_uri c = (up_scheme c @ ''://'' @ (if up_user c = [] then [] else show_user c @ ''@'')) @ show_host (up_host c)
     @ (show_port c @ up_path c)"
  "up_path c \<noteq> [] \<Longrightarrow> show_uri c = (up_scheme c @ ''://'' @ show_authority c) @ up_path c @ []"
  "up_user c \<noteq> [] \<Longrightarrow> show_uri c = (up_scheme c @ ''://'') @ up_user c @
     ((if up_password c = [] then [] else '':'' @ up_password c) @ ''@'' @ show_host (up_host c) @ show_port c @ up_path c)"
  "up_password c \<noteq> [] \<Longrightarrow> up_user c \<noteq> [] \<Longrightarrow> show_uri c = (up_scheme c @ ''://'' @ up_user c @ '':'') @ up_password c @
     (''@'' @ show_host (up_host c) @ show_port c @ up_path c)"
  "up_port c \<noteq> [] \<Longrightarrow> show_uri c =
     (up_scheme c @ ''://'' @ (if up_user c = [] then [] else show_user c @ ''@'') @ show_host (up_host c) @ '':'')
     @ up_port c @ up_path c"
  by (simp_all add: show_uri_def show_authority_def show_user_def show_port_def)

text \<open>C7: A URI that is put together from a scheme, user, password, host, port and path free of the
  separators is parsed, and each accessor gives back its part, with the brackets of an IPv6
  host taken off.\<close>

theorem uri_parse_show:
  assumes "wf_parts c"
  shows "\<exists>u. Uri_new (show_uri c) = Inr u \<and> m_uriStr u = show_uri c
     \<and> part u (m_scheme u) = up_scheme c \<and> part u (m_authority u) = show_authority c
     \<and> part u (m_userName u) = up_user c \<and> part u (m_userPassword u) = up_password c
     \<and> part u (m_host u) = up_host c \<and> part u (m_port u) = up_port c \<and> part u (m_path u) = up_path c"
proof (intro exI conjI)
  have u: "m_uriStr (uri_of c) = show_uri c" by (simp add: uri_of_def Let_def)
  have user: "up_password c \<noteq> [] \<Longrightarrow> up_user c \<noteq> []" using assms by (simp add: wf_parts_def)
  show "Uri_new (show_uri c) = Inr (uri_of c)"
    using parse_show [OF assms, of "fresh_uri (show_uri c)"] by (simp add: Uri_new_def fresh_uri_def)
  show "part (uri_of c) (m_scheme (uri_of c)) = up_scheme c"
    unfolding u using view_text_at [OF show_uri_split(1)] by (simp add: uri_of_def Let_def)
  show "part (uri_of c) (m_authority (uri_of c)) = show_authority c"
    unfolding u using view_text_at [OF show_uri_split(2)] by (simp add: uri_of_def Let_def)
  show "part (uri_of c) (m_userName (uri_of c)) = up_user c"
    unfolding u using view_text_at [OF show_uri_split(5)] by (simp add: uri_of_def Let_def)
  show "part (uri_of c) (m_userPassword (uri_of c)) = up_password c"
    unfolding u using view_text_at [OF show_uri_split(6) [OF _ user]] by (simp add: uri_of_def Let_def)
  show "part (uri_of c) (m_path (uri_of c)) = up_path c"
    unfolding u using view_text_at [OF show_uri_split(4)] by (simp add: uri_of_def Let_def)
  show "part (uri_of c) (m_port (uri_of c)) = up_port c"
    unfolding u using view_text_at [OF show_uri_split(7)] by (simp add: uri_of_def Let_def at_def)
  have "CHR '':'' \<in> set (up_host c) \<Longrightarrow> show_uri c =
      (up_scheme c @ ''://'' @ (if up_user c = [] then [] else show_user c @ ''@'') @ ''['') @ up_host c @ ('']'' @ show_port c @ up_path c)"
    "CHR '':'' \<notin> set (up_host c) \<Longrightarrow> show_uri c =
      (up_scheme c @ ''://'' @ (if up_user c = [] then [] else show_user c @ ''@'')) @ up_host c @ (show_port c @ up_path c)"
    by (simp_all add: show_uri_def show_authority_def show_host_def)
  from view_text_at [OF this(1)] view_text_at [OF this(2)]
  show "part (uri_of c) (m_host (uri_of c)) = up_host c"
    unfolding u by (cases "CHR '':'' \<in> set (up_host c)") (simp_all add: uri_of_def Let_def)
qed (simp add: uri_of_def Let_def)

lemma replace_at:
  assumes "m_uriStr u = pre @ t @ post" "pre @ r @ post = show_uri c" "wf_parts c"
  shows "uri_replace (at pre t) r u = (uri_of c, Inr ())"
  using assms parse_show [OF assms(3), of "u\<lparr>m_uriStr := show_uri c\<rparr>"]
  by (simp add: uri_replace_def at_def)

lemma uri_of_str [simp]: "m_uriStr (uri_of c) = show_uri c"
  by (simp add: uri_of_def Let_def)

lemma wf_user: "wf_parts c \<Longrightarrow> up_user c = [] \<Longrightarrow> up_password c = []"
  by (auto simp: wf_parts_def)

lemma setters:
  assumes "wf_parts c"
  shows "wf_parts (c\<lparr>up_scheme := x\<rparr>) \<Longrightarrow> setScheme x (uri_of c) = (uri_of (c\<lparr>up_scheme := x\<rparr>), Inr ())"
    "wf_parts (c\<lparr>up_host := x\<rparr>) \<Longrightarrow> setHost x (uri_of c) = (uri_of (c\<lparr>up_host := x\<rparr>), Inr ())"
    "wf_parts (c\<lparr>up_path := x\<rparr>) \<Longrightarrow> setPath x (uri_of c) = (uri_of (c\<lparr>up_path := x\<rparr>), Inr ())"
proof -
  have v: "m_scheme (uri_of c) = at [] (up_scheme c)"
    "m_hostDelimited (uri_of c) = at (up_scheme c @ ''://'' @ (if up_user c = [] then [] else show_user c @ ''@'')) (show_host (up_host c))"
    "up_path c \<noteq> [] \<Longrightarrow> m_path (uri_of c) = at (up_scheme c @ ''://'' @ show_authority c) (up_path c)"
    "up_path c = [] \<Longrightarrow> m_path (uri_of c) = NullView" "view_size (m_authority (uri_of c)) = length (show_authority c)"
    by (simp_all add: uri_of_def Let_def)
  {
    assume wf: "wf_parts (c\<lparr>up_scheme := x\<rparr>)"
    then have "x \<noteq> []" by (simp add: wf_parts_def)
    then show "setScheme x (uri_of c) = (uri_of (c\<lparr>up_scheme := x\<rparr>), Inr ())"
      unfolding setScheme_def v(1) using wf
      by (simp only: if_False, intro replace_at [OF trans [OF uri_of_str show_uri_split(1)]])
        (simp_all add: show_uri_def show_authority_def show_user_def show_port_def)
  next
    assume wf: "wf_parts (c\<lparr>up_host := x\<rparr>)"
    have "uri_replace (m_hostDelimited (uri_of c)) (show_host x) (uri_of c) = (uri_of (c\<lparr>up_host := x\<rparr>), Inr ())"
      unfolding v(2)
      by (intro replace_at [OF trans [OF uri_of_str show_uri_split(3)]] wf)
        (simp add: show_uri_def show_authority_def show_user_def show_port_def)
    then show "setHost x (uri_of c) = (uri_of (c\<lparr>up_host := x\<rparr>), Inr ())"
      using authority_chars(4) [OF assms] by (simp add: setHost_def v(5) show_host_def [symmetric])
  next
    assume wf: "wf_parts (c\<lparr>up_path := x\<rparr>)"
    then have hd: "\<not> (x \<noteq> [] \<and> hd x \<noteq> CHR ''/'')" by (cases x) (auto simp: wf_parts_def)
    have eq: "show_uri (c\<lparr>up_path := x\<rparr>) = up_scheme c @ ''://'' @ show_authority c @ x"
      by (simp add: show_uri_def show_authority_def show_user_def show_port_def)
    show "setPath x (uri_of c) = (uri_of (c\<lparr>up_path := x\<rparr>), Inr ())"
    proof (cases "up_path c = []")
      case True
      then show ?thesis
        unfolding setPath_def if_not_P [OF hd] v(4) [OF True]
        using parse_show [OF wf] eq by (simp add: show_uri_def)
    next
      case False
      then have "uri_replace (m_path (uri_of c)) x (uri_of c) = (uri_of (c\<lparr>up_path := x\<rparr>), Inr ())"
        unfolding v(3) [OF False]
        by (intro replace_at [OF trans [OF uri_of_str show_uri_split(4)]] wf) (simp_all add: eq)
      then show ?thesis unfolding setPath_def if_not_P [OF hd] using v(3) [OF False] False by simp
    qed
  }
qed

lemma show_update:
  "show_uri (c\<lparr>up_user := x\<rparr>) = up_scheme c @ ''://'' @
     (if x = [] then [] else x @ (if up_password c = [] then [] else '':'' @ up_password c) @ ''@'') @ show_host (up_host c) @ show_port c @ up_path c"
  "show_uri (c\<lparr>up_password := x\<rparr>) = up_scheme c @ ''://'' @
     (if up_user c = [] then [] else up_user c @ (if x = [] then [] else '':'' @ x) @ ''@'') @ show_host (up_host c) @ show_port c @ up_path c"
  "show_uri (c\<lparr>up_port := x\<rparr>) = up_scheme c @ ''://'' @
     (if up_user c = [] then [] else show_user c @ ''@'') @ show_host (up_host c) @ (if x = [] then [] else '':'' @ x) @ up_path c"
  by (simp_all add: show_uri_def show_authority_def show_user_def show_port_def)

lemma plain_host:
  assumes "CHR '':'' \<notin> set (up_host c)"
  shows "m_host (uri_of c) = at (up_scheme c @ ''://'' @ (if up_user c = [] then [] else show_user c @ ''@'')) (up_host c)"
    "show_uri c = (up_scheme c @ ''://'' @ (if up_user c = [] then [] else show_user c @ ''@'')) @ up_host c @ (show_port c @ up_path c)"
    "show_host (up_host c) = up_host c" "part (uri_of c) (m_host (uri_of c)) = up_host c"
proof -
  show h: "m_host (uri_of c) = at (up_scheme c @ ''://'' @ (if up_user c = [] then [] else show_user c @ ''@'')) (up_host c)"
    using assms by (simp add: uri_of_def Let_def)
  show s: "show_uri c = (up_scheme c @ ''://'' @ (if up_user c = [] then [] else show_user c @ ''@'')) @ up_host c @ (show_port c @ up_path c)"
    and "show_host (up_host c) = up_host c"
    using assms by (simp_all add: show_uri_def show_authority_def show_host_def)
  show "part (uri_of c) (m_host (uri_of c)) = up_host c" unfolding h uri_of_str by (rule view_text_at [OF s])
qed

lemma setUserName_parts:
  assumes wf: "wf_parts c" "wf_parts (c\<lparr>up_user := x\<rparr>)" and x: "x \<noteq> []" "up_user c \<noteq> [] \<or> CHR '':'' \<notin> set (up_host c)"
  shows "setUserName x (uri_of c) = (uri_of (c\<lparr>up_user := x\<rparr>), Inr ())"
proof (cases "up_user c = []")
  case True
  then have h: "CHR '':'' \<notin> set (up_host c)" and p: "up_password c = []" using x(2) wf_user [OF wf(1)] by auto
  have "uri_replace (m_host (uri_of c)) (x @ ''@'' @ up_host c) (uri_of c) = (uri_of (c\<lparr>up_user := x\<rparr>), Inr ())"
    unfolding plain_host(1) [OF h]
    by (intro replace_at [OF trans [OF uri_of_str plain_host(2) [OF h]]] wf) (simp add: show_update True x(1) p plain_host(3) [OF h])
  moreover have "m_userName (uri_of c) = NullView" "up_host c \<noteq> []" using True wf(1) by (simp_all add: uri_of_def Let_def wf_parts_def)
  ultimately show ?thesis
    using plain_host(1,4) [OF h] by (simp add: setUserName_def)
next
  case False
  have v: "m_userName (uri_of c) = at (up_scheme c @ ''://'') (up_user c)" using False by (simp add: uri_of_def Let_def)
  have "uri_replace (m_userName (uri_of c)) x (uri_of c) = (uri_of (c\<lparr>up_user := x\<rparr>), Inr ())"
    unfolding v by (intro replace_at [OF trans [OF uri_of_str show_uri_split(5) [OF False]]] wf) (simp add: show_update x(1))
  then show ?thesis using v False by (simp add: setUserName_def)
qed

lemma setUserPassword_parts:
  assumes wf: "wf_parts c" "wf_parts (c\<lparr>up_password := x\<rparr>)" and x: "x \<noteq> [] \<or> up_password c \<noteq> []"
  shows "setUserPassword x (uri_of c) = (uri_of (c\<lparr>up_password := x\<rparr>), Inr ())"
proof -
  have u: "up_user c \<noteq> []" using wf x by (auto simp: wf_parts_def)
  have v: "m_userName (uri_of c) = at (up_scheme c @ ''://'') (up_user c)" using u by (simp add: uri_of_def Let_def)
  have pu: "part (uri_of c) (m_userName (uri_of c)) = up_user c"
    unfolding v uri_of_str by (rule view_text_at [OF show_uri_split(5) [OF u]])
  show ?thesis
  proof (cases "up_password c = []")
    case True
    have "uri_replace (m_userName (uri_of c)) (up_user c @ '':'' @ x) (uri_of c) = (uri_of (c\<lparr>up_password := x\<rparr>), Inr ())"
      unfolding v using x True u
      by (intro replace_at [OF trans [OF uri_of_str show_uri_split(5) [OF u]]] wf) (simp add: show_update)
    moreover have "m_userPassword (uri_of c) = NullView" using True by (simp add: uri_of_def Let_def)
    ultimately show ?thesis using v u pu by (simp add: setUserPassword_def)
  next
    case False
    have p: "m_userPassword (uri_of c) = at (up_scheme c @ ''://'' @ up_user c @ '':'') (up_password c)"
      using False by (simp add: uri_of_def Let_def)
    have s: "show_uri c = (up_scheme c @ ''://'' @ up_user c) @ ('':'' @ up_password c) @ (''@'' @ show_host (up_host c) @ show_port c @ up_path c)"
      using show_uri_split(6) [OF False u] by simp
    have ps: "with_separator (m_userPassword (uri_of c)) = at (up_scheme c @ ''://'' @ up_user c) ('':'' @ up_password c)"
      unfolding p by (simp add: at_def)
    have "x = [] \<Longrightarrow> uri_replace (with_separator (m_userPassword (uri_of c))) x (uri_of c) = (uri_of (c\<lparr>up_password := x\<rparr>), Inr ())"
      unfolding ps using u by (intro replace_at [OF trans [OF uri_of_str s]] wf) (simp add: show_update)
    moreover have "x \<noteq> [] \<Longrightarrow> uri_replace (m_userPassword (uri_of c)) x (uri_of c) = (uri_of (c\<lparr>up_password := x\<rparr>), Inr ())"
      unfolding p using u
      by (intro replace_at [OF trans [OF uri_of_str show_uri_split(6) [OF False u]]] wf) (simp add: show_update)
    ultimately show ?thesis using p False by (simp add: setUserPassword_def)
  qed
qed

lemma setPort_parts:
  assumes wf: "wf_parts c" "wf_parts (c\<lparr>up_port := x\<rparr>)"
    and x: "x \<noteq> [] \<or> up_port c \<noteq> []" "up_port c \<noteq> [] \<or> CHR '':'' \<notin> set (up_host c)"
  shows "setPort x (uri_of c) = (uri_of (c\<lparr>up_port := x\<rparr>), Inr ())"
proof (cases "up_port c = []")
  case True
  then have h: "CHR '':'' \<notin> set (up_host c)" and "x \<noteq> []" using x by auto
  then have "uri_replace (m_host (uri_of c)) (up_host c @ '':'' @ x) (uri_of c) = (uri_of (c\<lparr>up_port := x\<rparr>), Inr ())"
    unfolding plain_host(1) [OF h]
    by (intro replace_at [OF trans [OF uri_of_str plain_host(2) [OF h]]] wf) (simp add: show_update show_port_def True plain_host(3) [OF h])
  moreover have "view_size (m_port (uri_of c)) = 0" "up_host c \<noteq> []" using True wf(1) by (simp_all add: uri_of_def Let_def wf_parts_def)
  ultimately show ?thesis using plain_host(1,4) [OF h] by (simp add: setPort_def)
next
  case False
  let ?pre = "up_scheme c @ ''://'' @ (if up_user c = [] then [] else show_user c @ ''@'') @ show_host (up_host c)"
  have p: "m_port (uri_of c) = at (?pre @ '':'') (up_port c)" using False by (simp add: uri_of_def Let_def)
  have ps: "with_separator (m_port (uri_of c)) = at ?pre ('':'' @ up_port c)" unfolding p by (simp add: at_def)
  have s: "show_uri c = ?pre @ ('':'' @ up_port c) @ up_path c" "show_uri c = (?pre @ '':'') @ up_port c @ up_path c"
    using show_uri_split(7) [OF False] by simp_all
  have "x = [] \<Longrightarrow> uri_replace (with_separator (m_port (uri_of c))) x (uri_of c) = (uri_of (c\<lparr>up_port := x\<rparr>), Inr ())"
    unfolding ps by (intro replace_at [OF trans [OF uri_of_str s(1)]] wf) (simp add: show_update)
  moreover have "x \<noteq> [] \<Longrightarrow> uri_replace (m_port (uri_of c)) x (uri_of c) = (uri_of (c\<lparr>up_port := x\<rparr>), Inr ())"
    unfolding p by (intro replace_at [OF trans [OF uri_of_str s(2)]] wf) (simp add: show_update)
  ultimately show ?thesis using p False by (simp add: setPort_def)
qed

text \<open>C8: On a URI that is put together from parts free of the separators each setter has the effect
  of putting the URI together with the one part replaced, as long as the result is made of
  such parts again. Three cases are excluded, in which the code leaves a stray separator or
  replaces the wrong text: an empty user name; an empty password or port where the URI has
  none yet; and a user name or a port that is not there yet when the host is in brackets.\<close>

theorem uri_setters_update:
  assumes "wf_parts c"
  shows "(wf_parts (c\<lparr>up_scheme := x\<rparr>) \<longrightarrow> setScheme x (uri_of c) = (uri_of (c\<lparr>up_scheme := x\<rparr>), Inr ()))
    \<and> (wf_parts (c\<lparr>up_host := x\<rparr>) \<longrightarrow> setHost x (uri_of c) = (uri_of (c\<lparr>up_host := x\<rparr>), Inr ()))
    \<and> (wf_parts (c\<lparr>up_path := x\<rparr>) \<longrightarrow> setPath x (uri_of c) = (uri_of (c\<lparr>up_path := x\<rparr>), Inr ()))
    \<and> (wf_parts (c\<lparr>up_user := x\<rparr>) \<and> x \<noteq> [] \<and> (up_user c \<noteq> [] \<or> CHR '':'' \<notin> set (up_host c)) \<longrightarrow>
         setUserName x (uri_of c) = (uri_of (c\<lparr>up_user := x\<rparr>), Inr ()))
    \<and> (wf_parts (c\<lparr>up_password := x\<rparr>) \<and> (x \<noteq> [] \<or> up_password c \<noteq> []) \<longrightarrow>
         setUserPassword x (uri_of c) = (uri_of (c\<lparr>up_password := x\<rparr>), Inr ()))
    \<and> (wf_parts (c\<lparr>up_port := x\<rparr>) \<and> (x \<noteq> [] \<or> up_port c \<noteq> []) \<and> (up_port c \<noteq> [] \<or> CHR '':'' \<notin> set (up_host c)) \<longrightarrow>
         setPort x (uri_of c) = (uri_of (c\<lparr>up_port := x\<rparr>), Inr ()))"
  using setters [OF assms] setUserName_parts [OF assms] setUserPassword_parts [OF assms] setPort_parts [OF assms]
  by blast

definition example_parts :: uri_parts where
  "example_parts = \<lparr>up_scheme = ''tcp'', up_user = [], up_password = [], up_host = ''localhost'', up_port = ''11235'', up_path = []\<rparr>"

lemma example_parts_wf: "wf_parts example_parts" "wf_parts (example_parts\<lparr>up_port := ''80''\<rparr>)"
  by (simp_all add: wf_parts_def example_parts_def)

lemma uri_parse_show_witness:
  "\<exists>u. Uri_new ''tcp://localhost:11235'' = Inr u \<and> part u (m_host u) = ''localhost'' \<and> part u (m_port u) = ''11235''"
  using uri_parse_show [OF example_parts_wf(1)]
  by (auto simp: example_parts_def show_uri_def show_authority_def show_host_def show_port_def)

lemma uri_setters_update_witness:
  "setPort ''80'' (uri_of example_parts) = (uri_of (example_parts\<lparr>up_port := ''80''\<rparr>), Inr ())"
  using uri_setters_update [OF example_parts_wf(1), of "''80''"] example_parts_wf(2) by (simp add: example_parts_def)

section \<open>Where the setters go wrong\<close>

text \<open>The port of an IPv6 host that has none is written into the brackets, where it becomes a part of the host.\<close>

theorem setPort_ipv6:
  assumes "wf_parts c" "CHR '':'' \<in> set (up_host c)" "up_port c = []" "wf_parts (c\<lparr>up_host := up_host c @ '':'' @ x\<rparr>)"
  shows "setPort x (uri_of c) = (uri_of (c\<lparr>up_host := up_host c @ '':'' @ x\<rparr>), Inr ())"
proof -
  let ?pre = "up_scheme c @ ''://'' @ (if up_user c = [] then [] else show_user c @ ''@'') @ ''[''"
  have h: "m_host (uri_of c) = at ?pre (up_host c)" using assms(2) by (simp add: uri_of_def Let_def)
  have s: "show_uri c = ?pre @ up_host c @ ('']'' @ show_port c @ up_path c)"
    using assms(2) by (simp add: show_uri_def show_authority_def show_host_def)
  have p: "part (uri_of c) (m_host (uri_of c)) = up_host c" unfolding h uri_of_str by (rule view_text_at [OF s])
  have "uri_replace (m_host (uri_of c)) (up_host c @ '':'' @ x) (uri_of c) =
      (uri_of (c\<lparr>up_host := up_host c @ '':'' @ x\<rparr>), Inr ())"
    unfolding h by (intro replace_at [OF trans [OF uri_of_str s]] assms(4))
      (simp add: show_uri_def show_authority_def show_user_def show_host_def show_port_def)
  moreover have "view_size (m_port (uri_of c)) = 0" "view_size (m_host (uri_of c)) \<noteq> 0"
    using assms(1-3) h by (auto simp: uri_of_def Let_def wf_parts_def)
  ultimately show ?thesis using p by (simp add: setPort_def)
qed

lemma setPort_ipv6_witness:
  "setPort ''80'' (uri_of \<lparr>up_scheme = ''tcp'', up_user = [], up_password = [], up_host = ''::1'', up_port = [], up_path = []\<rparr>)
   = (uri_of \<lparr>up_scheme = ''tcp'', up_user = [], up_password = [], up_host = ''::1:80'', up_port = [], up_path = []\<rparr>, Inr ())"
  using setPort_ipv6 [of "\<lparr>up_scheme = ''tcp'', up_user = [], up_password = [], up_host = ''::1'', up_port = [], up_path = []\<rparr>" "''80''"]
  by (simp add: wf_parts_def)

text \<open>
  A URI without authority keeps its path behind the scheme when it gets one, although the path has been
  written behind the authority.
\<close>

lemma find_scheme_path:
  "CHR '':'' \<notin> set a \<Longrightarrow> CHR '':'' \<notin> set p \<Longrightarrow> \<not> starts_with p ''/'' \<Longrightarrow> find_sub ''://'' (a @ '':/'' @ p) = None"
  using find_scheme_none [of "CHR ''/'' # p"] by (induction a) auto

theorem setAuthority_doubles_path:
  assumes wf: "wf_parts c" and path: "up_path c = ''/'' @ p" "CHR '':'' \<notin> set p" "\<not> starts_with p ''/''"
  shows "\<exists>u. Uri_of_path (up_scheme c) (up_path c) = Inr u \<and> part u (m_path u) = up_path c
     \<and> setAuthority (show_authority c) u = (uri_of (c\<lparr>up_path := up_path c @ '':'' @ up_path c\<rparr>), Inr ())"
proof -
  let ?s = "up_scheme c @ '':'' @ up_path c"
  have sc: "up_scheme c \<noteq> []" "CHR '':'' \<notin> set (up_scheme c)" using wf by (simp_all add: wf_parts_def)
  have s: "?s = [] @ (up_scheme c @ '':'' @ up_path c) @ []" "?s = [] @ ?s @ []"
    "?s = (up_scheme c @ '':'') @ up_path c @ []" "?s = [] @ up_scheme c @ ('':'' @ up_path c)" by simp_all
  have f1: "find_sub ''://'' ?s = None" using find_scheme_path [OF sc(2) path(2,3)] by (simp add: path(1))
  have f2: "find_sub '':'' (up_scheme c @ '':'' @ up_path c) = Some (length (up_scheme c))"
    using find_sub_Some [OF sc(2)] by simp
  have v: "View 0 (length ?s) = at [] ?s" by (simp add: at_def)
  let ?u = "(fresh_uri ?s)\<lparr>m_scheme := at [] (up_scheme c), m_path := at (up_scheme c @ '':'') (up_path c)\<rparr>"
  have "Uri_new ?s = Inr ?u"
    using split_simps(2) [OF s(2) f1] split_found(2) [OF s(1) f2]
    by (simp add: Uri_new_def fresh_uri_def uri_parse_def Let_def v [simplified])
  moreover have parts: "part ?u (m_path ?u) = up_path c" "part ?u (m_scheme ?u) = up_scheme c"
    using view_text_at [OF s(3)] view_text_at [OF s(4)] by (simp_all add: fresh_uri_def)
  moreover have "wf_parts (c\<lparr>up_path := up_path c @ '':'' @ up_path c\<rparr>)" using wf path(1) by (simp add: wf_parts_def)
  then have "uri_replace (m_scheme ?u) (up_scheme c @ ''://'' @ show_authority c @ up_path c) ?u =
      (uri_of (c\<lparr>up_path := up_path c @ '':'' @ up_path c\<rparr>), Inr ())"
    using s(4)
    by (intro trans [OF _ replace_at [of ?u "[]" "up_scheme c" "'':'' @ up_path c" "up_scheme c @ ''://'' @ show_authority c @ up_path c"]])
      (simp_all add: fresh_uri_def show_uri_def show_authority_def show_user_def show_port_def)
  ultimately show ?thesis
    by (intro exI [of _ ?u]) (simp add: Uri_of_path_def setAuthority_def parts, simp add: fresh_uri_def)
qed

lemma setAuthority_doubles_path_witness:
  "\<exists>u. Uri_of_path ''unix'' ''/run/dots'' = Inr u \<and> part u (m_path u) = ''/run/dots''
     \<and> m_uriStr (fst (setAuthority ''localhost'' u)) = ''unix://localhost/run/dots:/run/dots''"
proof -
  let ?c = "\<lparr>up_scheme = ''unix'', up_user = [], up_password = [], up_host = ''localhost'', up_port = [], up_path = ''/run/dots''\<rparr>"
  have "wf_parts ?c" by (simp add: wf_parts_def)
  from setAuthority_doubles_path [OF this, of "''run/dots''"] show ?thesis
    by (auto simp: show_authority_def show_host_def show_port_def show_user_def show_uri_def)
qed

section \<open>Lists\<close>

fun new_uris :: "string list \<Rightarrow> uri list result" where
  "new_uris [] = Inr []"
| "new_uris (s # ss) = bindE (Uri_new s) (\<lambda>u. bindE (new_uris ss) (\<lambda>us. Inr (u # us)))"

lemma trim_blanks: "trim_text (replicate n CHR '' '' @ s) = trim_text s"
  by (induction n) auto

text \<open>The list of the words, however many blanks stand in front of them and between them.\<close>

theorem FromStrings_words:
  assumes "\<forall>(n, w) \<in> set ws. w \<noteq> [] \<and> CHR '' '' \<notin> set w"
  shows "FromStrings (concat (map (\<lambda>(n, w). replicate n CHR '' '' @ w @ '' '') ws)) = new_uris (map snd ws)"
  using assms
proof (induction ws)
  case Nil
  show ?case by (simp add: FromStrings.simps [of "[]"])
next
  case (Cons nw ws)
  obtain n w where nw: "nw = (n, w)" by (cases nw)
  let ?rest = "concat (map (\<lambda>(n, w). replicate n CHR '' '' @ w @ '' '') ws)"
  have w: "w \<noteq> []" "CHR '' '' \<notin> set w" using Cons.prems nw by auto
  then have t: "trim_text (replicate n CHR '' '' @ w @ '' '' @ ?rest) = w @ '' '' @ ?rest"
    unfolding trim_blanks by (cases w) auto
  have f: "find_sub '' '' (w @ '' '' @ ?rest) = Some (length w)" using find_sub_Some [OF w(2)] by simp
  have "FromStrings (replicate n CHR '' '' @ w @ '' '' @ ?rest) =
      bindE (Uri_new w) (\<lambda>u. bindE (FromStrings ?rest) (\<lambda>us. Inr (u # us)))"
    unfolding FromStrings.simps [of "replicate n CHR '' '' @ w @ '' '' @ ?rest"] Let_def t f using w(1) by simp
  then show ?case using Cons by (simp add: nw)
qed

lemma FromStrings_words_witness:
  "FromStrings ''a:b  c:d '' = new_uris [''a:b'', ''c:d'']"
  using FromStrings_words [of "[(0, ''a:b''), (1, ''c:d'')]"] by simp

end
