(* ===== verification/Experimental_Cbor.thy ===== *)
theory Experimental_Cbor
  imports Cbor_Roundtrip Example_Type
begin

unbundle bit_operations_syntax

text \<open>
  \<open>ExperimentalCborSerializer.h\<close>: a struct is an array that begins with the set of the properties that
  follow, in the order of the descriptor and without tags. The reader believes the set, whatever properties
  are to be included, and reads a value for each property of its own descriptor that is in it.
\<close>

section \<open>Serialisation\<close>

text \<open>Floating-point values are written with \<open>FloatFormat::UseFloat16Zeroes\<close>.\<close>

definition exp_write_fund :: "val \<Rightarrow> bytes" where
  "exp_write_fund v =
     (case v of
        VFloat32 w \<Rightarrow> write_float32_zeroes w
      | VFloat64 w \<Rightarrow> write_float64_zeroes w
      | VTimepoint w \<Rightarrow> write_float64_zeroes w
      | VSteadyTimepoint w \<Rightarrow> write_float64_zeroes w
      | VDuration w \<Rightarrow> write_float64_zeroes w
      | _ \<Rightarrow> write_fund v)"

definition exp_write_struct_begin :: "property_set \<Rightarrow> bytes" where
  "exp_write_struct_begin inc = writeArraySize (of_nat (ps_count inc)) @ write_uint (ucast (toValue inc))"

fun exp_write_val :: "descr \<Rightarrow> val \<Rightarrow> bytes result"
and exp_write_props :: "property_set \<Rightarrow> nat \<Rightarrow> pdesc list \<Rightarrow> area \<Rightarrow> bytes result" where
  "exp_write_val (Fundamental t) v = Inr (exp_write_fund v)"
| "exp_write_val (EnumDescriptor n es) v =
     bindE (enumeratorFromValue es (enum_of v)) (\<lambda>e. Inr (write_uint (ucast (en_tag e))))"
| "exp_write_val (VectorDescriptor d) v =
     bindE (concatE (List.map (exp_write_val d) (vals_of v))) (\<lambda>bs.
       Inr (writeArraySize (of_nat (length (vals_of v))) @ bs))"
| "exp_write_val (StructD (StructDescriptor n fl ps)) v =
     (let included = ps_intersect (validProperties (area_of v)) (validProperties (area_of v)) in
      bindE (exp_write_props included 0 ps (area_of v)) (\<lambda>bs. Inr (exp_write_struct_begin included @ bs)))"
| "exp_write_props inc i [] a = Inr []"
| "exp_write_props inc i (PropertyDescriptor d n t k # ps) a =
     bindE (if ps_le (pd_set (PropertyDescriptor d n t k)) inc \<and> isValid (PropertyDescriptor d n t k) a
            then bindE (read_slot i a) (exp_write_val d) else Inr [])
       (\<lambda>bs. bindE (exp_write_props inc (Suc i) ps a) (\<lambda>bs'. Inr (bs @ bs')))"

definition exp_serialize :: "pdesc list \<Rightarrow> area \<Rightarrow> property_set \<Rightarrow> bytes result" where
  "exp_serialize ps a inc =
     (let included = ps_intersect inc (validProperties a) in
      bindE (exp_write_props included 0 ps a) (\<lambda>bs. Inr (exp_write_struct_begin included @ bs)))"

section \<open>Deserialisation\<close>

definition exp_read_struct_begin :: "bytes \<Rightarrow> (property_set \<times> bytes) result" where
  "exp_read_struct_begin inp =
     bindE (readArraySize inp) (\<lambda>(numProperties, r).
     bindE (read_uint 4 r) (\<lambda>(v, r).
       let included = PropertySet (ucast v) in
       if of_nat (ps_count included) = numProperties then Inr (included, r)
       else Inl (RuntimeError ''encountered unexpected valid property set'')))"

fun exp_read_val :: "descr \<Rightarrow> val \<Rightarrow> bytes \<Rightarrow> (val \<times> bytes) result"
and exp_read_props :: "property_set \<Rightarrow> nat \<Rightarrow> pdesc list \<Rightarrow> area \<times> bytes \<Rightarrow> (area \<times> bytes) result" where
  "exp_read_val (Fundamental t) old inp = read_fund t inp"
| "exp_read_val (EnumDescriptor n es) old inp =
     bindE (read_uint 4 inp) (\<lambda>(t, r).
     bindE (enumeratorFromTag es (ucast t)) (\<lambda>e. Inr (VEnum (en_value e), r)))"
| "exp_read_val (VectorDescriptor d) old inp =
     bindE (readArraySize inp) (\<lambda>(n, r).
       mapR VVector (read_times (exp_read_val d (default_val d)) (unat n) r))"
| "exp_read_val (StructD (StructDescriptor sn fl ps)) old inp =
     bindE (exp_read_struct_begin inp) (\<lambda>(included, r).
       mapR VStruct (exp_read_props included 0 ps (area_of old, r)))"
| "exp_read_props inc i [] s = Inr s"
| "exp_read_props inc i (PropertyDescriptor d n t k # ps) s =
     bindE (if ps_le (pd_set (PropertyDescriptor d n t k)) inc
            then case s of (a, inp) \<Rightarrow>
              bindE (valueOrEmplace i (PropertyDescriptor d n t k) (default_val d) a) (\<lambda>a'.
              bindE (read_slot i a') (\<lambda>old.
              bindE (exp_read_val d old inp) (\<lambda>(v, r).
              bindE (assign_slot i v a') (\<lambda>a''. Inr (a'', r)))))
            else Inr s)
       (exp_read_props inc (Suc i) ps)"

text \<open>\<open>deserialize(instance, includedProperties)\<close>, whose second argument has no effect.\<close>

definition exp_deserialize :: "pdesc list \<Rightarrow> property_set \<Rightarrow> area \<Rightarrow> bytes \<Rightarrow> (area \<times> bytes) result" where
  "exp_deserialize ps inc a inp =
     (if inp = [] then Inl (LogicError ''attempt to deserialize from invalid or empty input buffer'')
      else bindE (exp_read_struct_begin inp) (\<lambda>(included, r). exp_read_props included 0 ps (a, r)))"

section \<open>Reading what was written\<close>

text \<open>Also a negative zero is written as the zero of two bytes, so its sign is lost.\<close>

definition exp_fund_encodable :: "val \<Rightarrow> bool" where
  "exp_fund_encodable v =
     (case v of
        VString s \<Rightarrow> length s < 2 ^ 64
      | VFloat32 w \<Rightarrow> w \<noteq> push_bit 31 1
      | VFloat64 w \<Rightarrow> w \<noteq> push_bit 63 1
      | VTimepoint w \<Rightarrow> w \<noteq> push_bit 63 1
      | VSteadyTimepoint w \<Rightarrow> w \<noteq> push_bit 63 1
      | VDuration w \<Rightarrow> w \<noteq> push_bit 63 1
      | _ \<Rightarrow> True)"

fun exp_encodable :: "descr \<Rightarrow> val \<Rightarrow> bool"
and exp_encodable_slots :: "pdesc list \<Rightarrow> val option list \<Rightarrow> bool" where
  "exp_encodable (Fundamental t) v = exp_fund_encodable v"
| "exp_encodable (EnumDescriptor n es) v = (enum_of v \<in> en_value ` set es)"
| "exp_encodable (VectorDescriptor d) v = (length (vals_of v) < 2 ^ 64 \<and> list_all (exp_encodable d) (vals_of v))"
| "exp_encodable (StructD (StructDescriptor n fl ps)) v = exp_encodable_slots ps (slots (area_of v))"
| "exp_encodable_slots [] xs = True"
| "exp_encodable_slots (PropertyDescriptor d n t k # ps) xs =
     ((case hd xs of None \<Rightarrow> True | Some v \<Rightarrow> exp_encodable d v) \<and> exp_encodable_slots ps (tl xs))"

lemma read_initial_half:
  "4 \<le> k \<Longrightarrow> readInitialByte MT_SimpleOrFloat k ((MT_SimpleOrFloat OR AI_FollowingBytes2) # 0 # 0 # rest) =
     Inr ((2, AI_FollowingBytes2), 0 # 0 # rest)"
  using readInitialByte_following [of MT_SimpleOrFloat 1 k "0 # 0 # rest"]
  by (simp add: AI_FollowingBytes2_def numeral_2_eq_2)

lemma read_half_zero: "readBytes 2 (0 # 0 # b) = Inr ([0, 0], b)" "be_write 2 0 = [0, 0]"
  by (simp_all add: numeral_2_eq_2 readBytes_def)

lemma read_float32_zeroes:
  assumes "w \<noteq> push_bit 31 1"
  shows "read_float32 (write_float32_zeroes w @ rest) = Inr (w, rest)"
proof (cases "w = 0")
  case True
  then show ?thesis by (simp add: write_float32_zeroes_def read_float32_def read_half_zero read_initial_half)
next
  case False
  then have "write_float32_zeroes w = write_float32 w" using assms by (simp add: write_float32_zeroes_def)
  then show ?thesis by (metis read_float32_write)
qed

lemma read_float64_zeroes:
  assumes "w \<noteq> push_bit 63 1"
  shows "read_float64 (write_float64_zeroes w @ rest) = Inr (w, rest)"
proof (cases "w = 0")
  case True
  then show ?thesis by (simp add: write_float64_zeroes_def read_float64_def read_half_zero read_initial_half)
next
  case False
  then have "write_float64_zeroes w = write_float64 w" using assms by (simp add: write_float64_zeroes_def)
  then show ?thesis by (metis read_float64_write)
qed

lemma exp_read_fund_write:
  assumes "fund_ok t v" "exp_fund_encodable v"
  shows "read_fund t (exp_write_fund v @ rest) = Inr (v, rest)"
  using assms read_fund_write [OF assms(1), of rest]
  by (cases t; cases v; simp add: exp_write_fund_def exp_fund_encodable_def read_fund_def [of T_float32]
      read_fund_def [of T_float64] read_fund_def [of T_timepoint] read_fund_def [of T_steady_timepoint]
      read_fund_def [of T_duration] read_float32_zeroes read_float64_zeroes)

lemma exp_struct_begin:
  "exp_read_struct_begin (exp_write_struct_begin inc @ rest) = Inr (inc, rest)"
  by (cases inc) (simp add: exp_read_struct_begin_def exp_write_struct_begin_def writeArraySize_def readArraySize_def)


text \<open>The loop over the properties from the \<open>k\<close>-th on.\<close>

definition reads_values ::
  "pdesc list \<Rightarrow> nat \<Rightarrow> property_set \<Rightarrow> pdesc list \<Rightarrow> val option list \<Rightarrow> bytes \<Rightarrow> bool" where
  "reads_values qs k inc ps ys bs \<longleftrightarrow>
     (\<forall>xs rest. length xs = length qs \<longrightarrow> slots_ok ps (drop k xs) \<longrightarrow>
        exp_read_props inc k ps (mk_area qs xs, bs @ rest)
        = Inr (mk_area qs (take k xs @ merged_slots inc ps (drop k xs) (drop k ys)), rest))"

lemma reads_values_included:
  assumes "wf_tags qs" "i < length qs" "qs ! i = PropertyDescriptor d n t k" "wf_descr d"
    and "ps_le (pd_set (PropertyDescriptor d n t k)) inc" "length ys = length qs" "ys ! i = Some v"
    and bs: "\<And>old rest. val_ok d old \<Longrightarrow> exp_read_val d old (bs @ rest) = Inr (merged_val d (Some old) v, rest)"
    and tl: "reads_values qs (Suc i) inc ps ys bs'"
  shows "reads_values qs i inc (PropertyDescriptor d n t k # ps) ys (bs @ bs')"
  unfolding reads_values_def
proof (intro allI impI)
  fix xs rest
  let ?p = "PropertyDescriptor d n t k"
  assume xs: "length xs = length qs" "slots_ok (?p # ps) (drop i xs)"
  have dxs: "drop i xs = xs ! i # drop (Suc i) xs" and dys: "drop i ys = ys ! i # drop (Suc i) ys"
    using assms(2,6) xs(1) by (simp_all add: Cons_nth_drop_Suc)
  define old where "old = (case xs ! i of None \<Rightarrow> default_val d | Some u \<Rightarrow> u)"
  have old: "val_ok d old"
    using xs(2) assms(4) by (auto simp: dxs old_def default_val_ok split: option.splits)
  have m: "merged_val d (Some old) v = merged_val d (xs ! i) v"
    using assms(4) by (simp add: old_def merged_default split: option.split)
  let ?xs = "xs[i := Some (merged_val d (xs ! i) v)]"
  have "valueOrEmplace i ?p (default_val d) (mk_area qs xs) = Inr (mk_area qs (xs[i := Some old]))"
    using valueOrEmplace_mk_area [OF assms(1) xs(1) assms(2)] by (simp add: assms(3) old_def)
  moreover have "assign_slot i (merged_val d (xs ! i) v) (mk_area qs (xs[i := Some old])) = Inr (mk_area qs ?xs)"
    using assign_slot_mk_area [OF assms(1) _ assms(2), of "xs[i := Some old]" old] xs(1) assms(2) by simp
  moreover have "exp_read_props inc (Suc i) ps (mk_area qs ?xs, bs' @ rest)
     = Inr (mk_area qs (take (Suc i) ?xs @ merged_slots inc ps (drop (Suc i) ?xs) (drop (Suc i) ys)), rest)"
    using tl xs by (simp add: reads_values_def dxs)
  moreover have "take (Suc i) ?xs @ merged_slots inc ps (drop (Suc i) ?xs) (drop (Suc i) ys) =
      take i xs @ merged_slots inc (?p # ps) (drop i xs) (drop i ys)"
    using assms(2,5,7) xs(1) by (simp add: take_Suc_conv_app_nth dxs dys del: ps_le_iff)
  ultimately show "exp_read_props inc i (?p # ps) (mk_area qs xs, (bs @ bs') @ rest)
       = Inr (mk_area qs (take i xs @ merged_slots inc (?p # ps) (drop i xs) (drop i ys)), rest)"
    using assms(2,5) xs(1) bs [OF old] by (simp add: m del: ps_le_iff)
qed

lemma reads_values_excluded:
  assumes "i < length qs" "\<not> ps_le (pd_set p) inc" "length ys = length qs"
    and "reads_values qs (Suc i) inc ps ys bs"
  shows "reads_values qs i inc (p # ps) ys bs"
  unfolding reads_values_def
proof (intro allI impI)
  fix xs rest
  assume xs: "length xs = length qs" "slots_ok (p # ps) (drop i xs)"
  obtain d n t k where p: "p = PropertyDescriptor d n t k" by (cases p)
  have dxs: "drop i xs = xs ! i # drop (Suc i) xs" and dys: "drop i ys = ys ! i # drop (Suc i) ys"
    using assms(1,3) xs(1) by (simp_all add: Cons_nth_drop_Suc)
  have "merged_slots inc (p # ps) (drop i xs) (drop i ys) =
      xs ! i # merged_slots inc ps (drop (Suc i) xs) (drop (Suc i) ys)"
    using assms(2) by (simp add: dxs dys p del: ps_le_iff split: option.split)
  then show "exp_read_props inc i (p # ps) (mk_area qs xs, bs @ rest)
       = Inr (mk_area qs (take i xs @ merged_slots inc (p # ps) (drop i xs) (drop i ys)), rest)"
    using assms xs by (simp add: reads_values_def dxs p take_Suc_conv_app_nth del: ps_le_iff)
qed

lemma exp_write_then_read:
  "wf_descr d \<Longrightarrow> val_ok d v \<Longrightarrow> exp_encodable d v \<Longrightarrow>
     \<exists>bs. exp_write_val d v = Inr bs
        \<and> (\<forall>old rest. val_ok d old \<longrightarrow> exp_read_val d old (bs @ rest) = Inr (merged_val d (Some old) v, rest))"
  "wf_tags qs \<Longrightarrow> drop k qs = ps \<Longrightarrow> wf_props ps \<Longrightarrow> a = mk_area qs ys \<Longrightarrow> length ys = length qs \<Longrightarrow>
     slots_ok ps (drop k ys) \<Longrightarrow> exp_encodable_slots ps (drop k ys) \<Longrightarrow>
     (\<forall>i < length qs. k \<le> i \<longrightarrow> ps_le (pd_set (qs ! i)) inc \<longrightarrow> ys ! i \<noteq> None) \<Longrightarrow>
     \<exists>bs. exp_write_props inc k ps a = Inr bs \<and> reads_values qs k inc ps ys bs"
proof (induction d v and inc k ps a arbitrary: and qs ys rule: exp_write_val_exp_write_props.induct)
  case (1 t v)
  then show ?case by (simp add: exp_read_fund_write)
next
  case (2 n es v)
  then obtain w where v: "v = VEnum w" by (auto split: val.splits)
  obtain e where e: "e \<in> set es" "w = en_value e" using 2 v by (auto simp: enum_of_def)
  have "find (\<lambda>e'. en_value e' = en_value e) es = Some e" "find (\<lambda>e'. en_tag e' = en_tag e) es = Some e"
    using 2(1) e(1) by (simp_all add: find_unique_key)
  then show ?case using v e by (simp add: enumeratorFromValue_def enumeratorFromTag_def enum_of_def)
next
  case (3 d v)
  then obtain vs where v: "v = VVector vs" by (auto split: val.splits)
  have wf: "wf_descr d" using "3.prems"(1) by simp
  have el: "\<exists>bs. exp_write_val d u = Inr bs \<and> (\<forall>rest. exp_read_val d (default_val d) (bs @ rest) = Inr (u, rest))"
    if "u \<in> set vs" for u
  proof -
    have "val_ok d u" "exp_encodable d u"
      using that "3.prems" by (simp_all add: v vals_of_def list_all_iff)
    then show ?thesis
      using "3.IH" that wf by (fastforce simp: v vals_of_def default_val_ok merged_default merged_None)
  qed
  have "unat (of_nat (length vs) :: 64 word) = length vs"
    using "3.prems"(3) by (simp add: v vals_of_def unat_of_nat take_bit_nat_eq_self)
  moreover obtain bs where "concatE (map (exp_write_val d) vs) = Inr bs"
    "\<forall>rest. read_times (exp_read_val d (default_val d)) (length vs) (bs @ rest) = Inr (vs, rest)"
    using read_vals_write [OF el] by blast
  ultimately show ?case
    by (simp add: v vals_of_def writeArraySize_def readArraySize_def)
next
  case (4 n fl ps v)
  then have ps: "wf_tags ps" "wf_props ps" by simp_all
  obtain us where v: "v = VStruct (mk_area ps us)" "length us = length ps" "slots_ok ps us"
    using val_ok_struct [OF "4.prems"(2) ps(1)] by blast
  let ?inc = "ps_intersect (valid_of ps us) (valid_of ps us)"
  obtain bs where bs: "exp_write_props ?inc 0 ps (mk_area ps us) = Inr bs" "reads_values ps 0 ?inc ps us bs"
    using "4.IH" [OF refl, of ps us] ps v "4.prems"(3) by auto
  have inc: "merged_slots ?inc ps xs us = merged_slots ps_All ps xs us" for xs
    using ps(1) v(2) by (intro merged_slots_cong) auto
  have "exp_read_val (StructD (StructDescriptor n fl ps)) old (exp_write_struct_begin ?inc @ bs @ rest) =
      Inr (merged_val (StructD (StructDescriptor n fl ps)) (Some old) v, rest)"
    if old: "val_ok (StructD (StructDescriptor n fl ps)) old" for old rest
  proof -
    obtain xs where xs: "old = VStruct (mk_area ps xs)" "length xs = length ps" "slots_ok ps xs"
      using val_ok_struct [OF old ps(1)] by blast
    show ?thesis
      using bs(2) xs(2,3) by (simp add: xs(1) v(1) inc exp_struct_begin reads_values_def)
  qed
  then show ?case using bs(1) by (simp add: v(1))
next
  case (5 inc i a)
  then show ?case by (simp add: reads_values_def)
next
  case (6 inc i d n t k ps a)
  let ?p = "PropertyDescriptor d n t k"
  note prems = "6.prems"
  have i: "i < length qs" using prems(2) by (metis drop_all leI list.distinct(1))
  then have qs: "qs ! i = ?p" "drop (Suc i) qs = ps"
    using prems(2) by (simp_all add: Cons_nth_drop_Suc [symmetric])
  have ys: "drop i ys = ys ! i # drop (Suc i) ys" using i prems(5) by (simp add: Cons_nth_drop_Suc)
  have ok: "wf_descr d" "\<And>v. ys ! i = Some v \<Longrightarrow> val_ok d v \<and> exp_encodable d v"
    using prems(3,6,7) by (auto simp: ys)
  have valid: "isValid ?p a \<longleftrightarrow> ys ! i \<noteq> None"
    using isValid_mk_area [OF prems(1,5) i] by (simp add: prems(4) qs(1) del: isValid_iff)
  have rest_props: "wf_props ps" "slots_ok ps (drop (Suc i) ys)" "exp_encodable_slots ps (drop (Suc i) ys)"
    "\<forall>j < length qs. Suc i \<le> j \<longrightarrow> ps_le (pd_set (qs ! j)) inc \<longrightarrow> ys ! j \<noteq> None"
    using prems(3,6,7,8) by (simp_all add: ys del: ps_le_iff)
  let ?hd = "if ps_le (pd_set ?p) inc \<and> isValid ?p a then bindE (read_slot i a) (exp_write_val d) else Inr []"
  have tl: "?hd = Inr bs \<Longrightarrow> \<exists>bs'. exp_write_props inc (Suc i) ps a = Inr bs' \<and> reads_values qs (Suc i) inc ps ys bs'" for bs
    using "6.IH"(2) [OF _ prems(1) qs(2) rest_props(1) prems(4,5) rest_props(2,3,4)] by blast
  show ?case
  proof (cases "ps_le (pd_set ?p) inc")
    case True
    then obtain v where v: "ys ! i = Some v" using prems(8) i qs(1) by (metis not_None_eq order.refl)
    have rd: "read_slot i a = Inr v" "isValid ?p a"
      using v i prems(4,5) valid by (simp_all del: isValid_iff)
    obtain bs where bs: "exp_write_val d v = Inr bs"
      "\<And>old rest. val_ok d old \<Longrightarrow> exp_read_val d old (bs @ rest) = Inr (merged_val d (Some old) v, rest)"
      using "6.IH"(1) [OF conjI [OF True rd(2)] rd(1)] ok v by blast
    have hd: "?hd = Inr bs" using True rd bs(1) by (simp del: ps_le_iff isValid_iff)
    obtain bs' where bs': "exp_write_props inc (Suc i) ps a = Inr bs'" "reads_values qs (Suc i) inc ps ys bs'"
      using tl [OF hd] by blast
    show ?thesis
      using hd bs'(1) reads_values_included [OF prems(1) i qs(1) ok(1) True prems(5) v bs(2) bs'(2)]
      by (intro exI [of _ "bs @ bs'"]) (simp del: ps_le_iff isValid_iff)
  next
    case False
    then have hd: "?hd = Inr []" by (simp del: ps_le_iff isValid_iff)
    obtain bs' where bs': "exp_write_props inc (Suc i) ps a = Inr bs'" "reads_values qs (Suc i) inc ps ys bs'"
      using tl [OF hd] by blast
    then show ?thesis
      using hd reads_values_excluded [OF i False prems(5) bs'(2)] by (simp del: ps_le_iff isValid_iff)
  qed
qed

section \<open>Properties\<close>

lemma exp_serialize_reads:
  assumes "wf_tags ps" "wf_props ps" "length ys = length ps" "slots_ok ps ys" "exp_encodable_slots ps ys"
    and "length xs = length ps" "slots_ok ps xs"
  obtains bs where "exp_serialize ps (mk_area ps ys) inc = Inr bs"
    "\<And>inc' rest. exp_deserialize ps inc' (mk_area ps xs) (bs @ rest) =
       Inr (mk_area ps (merged_slots inc ps xs ys), rest)"
proof -
  let ?inc = "ps_intersect inc (valid_of ps ys)"
  obtain bs where bs: "exp_write_props ?inc 0 ps (mk_area ps ys) = Inr bs" "reads_values ps 0 ?inc ps ys bs"
    using exp_write_then_read(2) [of ps 0 ps "mk_area ps ys" ys ?inc] assms by auto
  have m: "merged_slots ?inc ps xs ys = merged_slots inc ps xs ys"
    using assms by (intro merged_slots_cong) auto
  obtain b rest' where "exp_write_struct_begin ?inc = b # rest'"
    unfolding exp_write_struct_begin_def writeArraySize_def by (metis append_Cons writeHead_Cons)
  then show ?thesis
    using that [of "exp_write_struct_begin ?inc @ bs"] bs assms(6,7) exp_struct_begin [of ?inc]
    by (simp add: exp_serialize_def exp_deserialize_def reads_values_def m)
qed

text \<open>C6: Deserialising what the experimental CBOR serializer writes of an instance, restricted to any
  properties, into another instance has exactly the effect of merging these properties into
  it, whatever properties the deserialisation is asked for; it leaves what follows in the
  input. Floating-point values must not be negative zeros.\<close>

theorem exp_deserialize_merges:
  assumes "wf_tags ps" "wf_props ps"
    and "wf_area ps a" "slots_ok ps (slots a)" "exp_encodable_slots ps (slots a)"
    and "wf_area ps b" "slots_ok ps (slots b)"
  shows "\<exists>bs b'. exp_serialize ps a inc = Inr bs \<and> struct_merge ps b a inc = Inr b'
     \<and> (\<forall>inc' rest. exp_deserialize ps inc' b (bs @ rest) = Inr (b', rest))"
proof -
  obtain ys where ys: "length ys = length ps" "a = mk_area ps ys" using assms by (auto elim: wf_areaE)
  obtain xs where xs: "length xs = length ps" "b = mk_area ps xs" using assms by (auto elim: wf_areaE)
  have "struct_merge ps b a inc = Inr (mk_area ps (merged_slots inc ps xs ys))"
    using assms xs ys by (simp add: struct_merge_mk)
  then show ?thesis
    using exp_serialize_reads [of ps ys xs inc] assms xs ys by (metis slots_mk_area)
qed

lemma exp_deserialize_merges_witness:
  "\<exists>bs b'. exp_serialize example_props
       (example_area (Some 7) (Some ''x'') (map_option (\<lambda>(x, y). example_inner x y) (Some (Some 1, None)))) ps_All = Inr bs
     \<and> (\<forall>rest. exp_deserialize example_props ps_None (fresh_area example_props) (bs @ rest) = Inr (b', rest))"
proof -
  let ?a = "example_area (Some 7) (Some ''x'') (map_option (\<lambda>(x, y). example_inner x y) (Some (Some 1, None)))"
  have "exp_encodable_slots example_props (slots ?a)"
    by (simp add: example_props_def example_area_def exp_fund_encodable_def example_inner_def)
  moreover have "slots_ok example_props (slots (fresh_area example_props))"
    by (simp add: fresh_area_def example_props_def numeral_eq_Suc)
  ultimately show ?thesis
    using exp_deserialize_merges [OF example_wf_tags example_wf_props example_wf_area example_slots_ok, of _ _ _ "fresh_area example_props" ps_All]
    using wf_fresh_area [OF example_wf_tags] by blast
qed

section \<open>Properties the reader does not know\<close>

lemma exp_write_props_append:
  "exp_write_props inc i (ps @ qs) a = bindE (exp_write_props inc i ps a) (\<lambda>bs.
     bindE (exp_write_props inc (i + length ps) qs a) (\<lambda>bs'. Inr (bs @ bs')))"
proof (induction ps arbitrary: i)
  case Nil
  then show ?case by (cases "exp_write_props inc i qs a") simp_all
next
  case (Cons p ps)
  then show ?case by (cases p) (simp add: bindE_assoc del: ps_le_iff isValid_iff)
qed

lemma exp_write_props_cong:
  "(\<And>j. j < length ps \<Longrightarrow> isValid (ps ! j) a = isValid (ps ! j) b \<and> slot (i + j) a = slot (i + j) b) \<Longrightarrow>
     exp_write_props inc i ps a = exp_write_props inc i ps b"
proof (induction ps arbitrary: i)
  case (Cons p ps)
  have "exp_write_props inc (Suc i) ps a = exp_write_props inc (Suc i) ps b"
    using Cons.prems [of "Suc _"] by (intro Cons.IH) simp
  moreover have "isValid p a = isValid p b" "read_slot i a = read_slot i b"
    using Cons.prems [of 0] by (simp_all add: read_slot_def del: isValid_iff)
  ultimately show ?case by (cases p) (simp del: ps_le_iff isValid_iff)
qed simp

lemma wf_props_append: "wf_props (ps @ qs) \<longleftrightarrow> wf_props ps \<and> wf_props qs"
proof (induction ps)
  case (Cons p ps)
  then show ?case by (cases p) simp
qed simp

lemma slots_take:
  "slots_ok (ps @ qs) ys \<Longrightarrow> slots_ok ps (take (length ps) ys)"
  "exp_encodable_slots (ps @ qs) ys \<Longrightarrow> length ps \<le> length ys \<Longrightarrow> exp_encodable_slots ps (take (length ps) ys)"
proof (induction ps arbitrary: ys)
  case (Cons p ps)
  { case 1 then show ?case using Cons.IH(1) by (cases p; cases ys) auto }
  { case 2 then show ?case using Cons.IH(2) by (cases p; cases ys) auto }
qed simp_all

lemma slots_last:
  "slots_ok (ps @ [p]) ys \<Longrightarrow> ys ! length ps = Some v \<Longrightarrow> val_ok (valueDescriptor p) v"
  "exp_encodable_slots (ps @ [p]) ys \<Longrightarrow> length ps < length ys \<Longrightarrow> ys ! length ps = Some v \<Longrightarrow> exp_encodable (valueDescriptor p) v"
proof (induction ps arbitrary: ys)
  case Nil
  { case 1 then show ?case by (cases p; cases ys) auto }
  { case 2 then show ?case by (cases p; cases ys) auto }
next
  case (Cons q ps)
  { case 1 then show ?case using Cons.IH(1) by (cases q; cases ys) auto }
  { case 2 then show ?case using Cons.IH(2) by (cases q; cases ys) auto }
qed

text \<open>
  The value of a property that only the writer has is left in the input, where a serializer that goes on
  with the stream takes it for the next instance.
\<close>

theorem exp_unknown_property_left:
  assumes qs: "qs = ps @ [p]" "wf_tags qs" "wf_props qs"
    and a: "wf_area qs a" "slots_ok qs (slots a)" "exp_encodable_slots qs (slots a)" "slot (length ps) a = Some v"
  shows "\<exists>bs bs' b. exp_serialize qs a ps_All = Inr bs \<and> exp_write_val (valueDescriptor p) v = Inr bs'
     \<and> (\<forall>inc rest. exp_deserialize ps inc (fresh_area ps) (bs @ rest) = Inr (b, bs' @ rest))"
proof -
  let ?n = "length ps"
  obtain ys where ys: "length ys = Suc ?n" "a = mk_area qs ys" using a(1) qs by (auto elim: wf_areaE)
  have ok: "slots_ok qs ys" "exp_encodable_slots qs ys" "ys ! ?n = Some v" using a(2-4) ys by simp_all
  have wf: "wf_tags ps" "wf_props ps" using qs wf_props_append by (auto simp: wf_tags_def)
  let ?inc = "ps_intersect ps_All (valid_of qs ys)" and ?b = "mk_area ps (take ?n ys)"
  have valid: "isValid (ps ! j) a \<longleftrightarrow> ys ! j \<noteq> None" "isValid (ps ! j) ?b \<longleftrightarrow> ys ! j \<noteq> None" if "j < ?n" for j
    using isValid_mk_area [OF qs(2), of ys j] isValid_mk_area [OF wf(1), of "take ?n ys" j] that ys qs(1)
    by (simp_all add: nth_append del: isValid_iff)
  have "\<forall>i < ?n. 0 \<le> i \<longrightarrow> ps_le (pd_set (ps ! i)) ?inc \<longrightarrow> take ?n ys ! i \<noteq> None"
  proof (intro allI impI)
    fix i assume i: "i < ?n" "ps_le (pd_set (ps ! i)) ?inc"
    then have "pd_index (qs ! i) \<in> ps_members (valid_of qs ys)"
      using pd_index_less [OF wf(1) i(1)] qs(1) by (simp add: nth_append)
    then show "take ?n ys ! i \<noteq> None" using mem_valid_of [OF qs(2), of ys i] i(1) ys qs(1) by simp
  qed
  then obtain bs where bs: "exp_write_props ?inc 0 ps ?b = Inr bs" "reads_values ps 0 ?inc ps (take ?n ys) bs"
    using exp_write_then_read(2) [of ps 0 ps ?b "take ?n ys" ?inc] wf slots_take [of ps "[p]" ys] ok ys qs(1) by auto
  have same: "exp_write_props ?inc 0 ps a = Inr bs"
    using exp_write_props_cong [of ps a ?b 0 ?inc] valid ys bs(1) by (simp del: isValid_iff)
  obtain d nm t k where p: "p = PropertyDescriptor d nm t k" by (cases p)
  have "val_ok d v" "exp_encodable d v" "wf_descr d"
    using slots_last [of ps p ys v] ok ys(1) qs(1,3) wf_props_append [of ps "[p]"] by (simp_all add: p)
  then obtain bs' where bs': "exp_write_val d v = Inr bs'" using exp_write_then_read(1) by blast
  have "isValid p a" "pd_index p \<in> ps_members (valid_of qs ys)" "pd_index p < 32"
    using isValid_mk_area [OF qs(2), of ys ?n] mem_valid_of [OF qs(2), of ys ?n] pd_index_less [OF qs(2), of ?n] ok(3) ys qs(1)
    by simp_all
  moreover have "read_slot ?n a = Inr v" using ok(3) ys by simp
  ultimately have last: "exp_write_props ?inc ?n [p] a = Inr bs'"
    using bs' by (simp add: p del: isValid_iff)
  have "exp_serialize qs a ps_All = Inr (exp_write_struct_begin ?inc @ bs @ bs')"
    using same last by (simp add: exp_serialize_def qs(1) exp_write_props_append ys(2))
  moreover have "exp_deserialize ps inc (fresh_area ps) ((exp_write_struct_begin ?inc @ bs @ bs') @ rest) =
      Inr (mk_area ps (merged_slots ?inc ps (replicate ?n None) (take ?n ys)), bs' @ rest)" for inc rest
  proof -
    obtain c rest' where "exp_write_struct_begin ?inc = c # rest'"
      unfolding exp_write_struct_begin_def writeArraySize_def by (metis append_Cons writeHead_Cons)
    then show ?thesis
      using bs(2) exp_struct_begin [of ?inc] slots_ok_replicate [of ps]
      by (simp add: exp_deserialize_def reads_values_def fresh_area_mk [OF wf(1)])
  qed
  ultimately show ?thesis using bs' by (auto simp: p)
qed

lemma exp_unknown_property_left_witness:
  "\<exists>bs b. exp_serialize [PropertyDescriptor (Fundamental T_uint8) ''x'' 1 False, PropertyDescriptor (Fundamental T_uint8) ''y'' 2 False]
       (example_inner None (Some 3)) ps_All = Inr bs
     \<and> (\<forall>inc rest. exp_deserialize [PropertyDescriptor (Fundamental T_uint8) ''x'' 1 False] inc
          (fresh_area [PropertyDescriptor (Fundamental T_uint8) ''x'' 1 False]) (bs @ rest) = Inr (b, [3] @ rest))"
proof -
  let ?x = "PropertyDescriptor (Fundamental T_uint8) ''x'' 1 False" and ?y = "PropertyDescriptor (Fundamental T_uint8) ''y'' 2 False"
  have "exp_write_val (valueDescriptor ?y) (VUInt8 3) = Inr [3]"
    by (simp add: exp_write_fund_def write_fund_def write_uint_def writeHead_def cbor_constants)
  moreover have "wf_tags [?x, ?y]" "wf_props [?x, ?y]" by (simp_all add: wf_tags_def pd_index_def)
  from exp_unknown_property_left [OF _ this example_wf_inner [of None "Some 3"], of "[?x]" ?y "VUInt8 3"]
  have "\<exists>bs bs' b. exp_serialize [?x, ?y] (example_inner None (Some 3)) ps_All = Inr bs \<and> exp_write_val (valueDescriptor ?y) (VUInt8 3) = Inr bs'
     \<and> (\<forall>inc rest. exp_deserialize [?x] inc (fresh_area [?x]) (bs @ rest) = Inr (b, bs' @ rest))"
    by (simp add: example_inner_def exp_fund_encodable_def slot_def)
  ultimately show ?thesis by (metis sum.inject(2))
qed

end
