(* ===== verification/Rapid_Json.thy ===== *)
theory Rapid_Json
  imports Text_Serializer
begin

unbundle bit_operations_syntax

text \<open>
  \<open>RapidJsonSerializer.h\<close>, \<open>RapidJsonWriter.h\<close> and \<open>RapidJsonReader.h\<close>: the serializer on top of RapidJSON.
  It calls the handler of a RapidJSON writer, and it reads a RapidJSON document. The document is a tree; the
  calls of a handler are a list of events. The text between them is RapidJSON's: two functions of the
  library, from events to text and from text to a document. A pointer into an array or object is the list
  of the values from there on, the members of an object being a name and a value in turn. An assertion of
  RapidJSON that fails, and a pointer that is followed where there is no value, are undefined.
\<close>

section \<open>Documents and events\<close>

datatype json =
    JNull
  | JBool bool
  | JInteger int
  | JDouble "64 word"
  | JString string
  | JArray "json list"
  | JObject "(string \<times> json) list"

datatype json_event =
    EvNull | EvBool bool | EvInt int | EvUint int | EvInt64 int | EvUint64 int
  | EvDouble "64 word" | EvString string
  | EvStartArray | EvEndArray | EvStartObject | EvEndObject

datatype rj_enum_format = RjTag | RjValue | RjString

record rapid_serializer =
  rj_TimepointFormat :: timepoint_format
  rj_EnumFormat :: rj_enum_format
  rj_library :: text_library
  rj_text :: "json_event list \<Rightarrow> string"
  rj_parse :: "string \<Rightarrow> json option"

text \<open>\<open>DefaultRapidJsonSerializerFormat\<close>.\<close>

definition RapidJsonSerializer ::
    "text_library \<Rightarrow> (json_event list \<Rightarrow> string) \<Rightarrow> (string \<Rightarrow> json option) \<Rightarrow> rapid_serializer" where
  "RapidJsonSerializer lib txt prs =
     \<lparr>rj_TimepointFormat = FractionalSeconds, rj_EnumFormat = RjTag, rj_library = lib,
      rj_text = txt, rj_parse = prs\<rparr>"

section \<open>The writer\<close>

record rapid_writer =
  rw_events :: "json_event list"
  rw_nesting :: "text_state list"

definition rw_emit :: "json_event \<Rightarrow> rapid_writer \<Rightarrow> rapid_writer" where
  "rw_emit e w = w\<lparr>rw_events := rw_events w @ [e]\<rparr>"

definition rw_open :: "text_state \<Rightarrow> json_event \<Rightarrow> rapid_writer \<Rightarrow> rapid_writer" where
  "rw_open t e w = (rw_emit e w)\<lparr>rw_nesting := t # rw_nesting w\<rparr>"

definition rw_close :: "json_event \<Rightarrow> rapid_writer \<Rightarrow> rapid_writer result" where
  "rw_close e w =
     (case rw_nesting w of
        [] \<Rightarrow> Inl (UndefinedBehaviour ''pop of an empty stack'')
      | _ # outer \<Rightarrow> Inr (rw_emit e (w\<lparr>rw_nesting := outer\<rparr>)))"

definition rw_writeArrayBegin :: "rapid_writer \<Rightarrow> rapid_writer" where
  "rw_writeArrayBegin = rw_open InArray EvStartArray"
definition rw_writeArrayEnd :: "rapid_writer \<Rightarrow> rapid_writer result" where
  "rw_writeArrayEnd = rw_close EvEndArray"
definition rw_writeObjectBegin :: "rapid_writer \<Rightarrow> rapid_writer" where
  "rw_writeObjectBegin = rw_open InObject EvStartObject"
definition rw_writeObjectEnd :: "rapid_writer \<Rightarrow> rapid_writer result" where
  "rw_writeObjectEnd = rw_close EvEndObject"
definition rw_writeObjectMemberName :: "string \<Rightarrow> rapid_writer \<Rightarrow> rapid_writer" where
  "rw_writeObjectMemberName name = rw_emit (EvString name)"
definition rw_writeNull :: "rapid_writer \<Rightarrow> rapid_writer" where
  "rw_writeNull = rw_emit EvNull"

text \<open>\<open>write\<close> of an integral value by its signedness and its size in bytes.\<close>

definition rw_write_int :: "bool \<Rightarrow> nat \<Rightarrow> int \<Rightarrow> rapid_writer \<Rightarrow> rapid_writer" where
  "rw_write_int is_signed size_of i =
     rw_emit (if is_signed then (if size_of \<le> 4 then EvInt i else EvInt64 i)
              else (if size_of \<le> 4 then EvUint i else EvUint64 i))"

definition rj_write_fund :: "rapid_serializer \<Rightarrow> val \<Rightarrow> rapid_writer \<Rightarrow> rapid_writer" where
  "rj_write_fund S v =
     (case v of
        VBool b \<Rightarrow> rw_emit (EvBool b)
      | VInt8 w \<Rightarrow> rw_write_int True 1 (sint w) | VUInt8 w \<Rightarrow> rw_write_int False 1 (uint w)
      | VInt16 w \<Rightarrow> rw_write_int True 2 (sint w) | VUInt16 w \<Rightarrow> rw_write_int False 2 (uint w)
      | VInt32 w \<Rightarrow> rw_write_int True 4 (sint w) | VUInt32 w \<Rightarrow> rw_write_int False 4 (uint w)
      | VInt64 w \<Rightarrow> rw_write_int True 8 (sint w) | VUInt64 w \<Rightarrow> rw_write_int False 8 (uint w)
      | VFloat32 w \<Rightarrow> rw_emit (EvDouble (f32_to_f64 w)) | VFloat64 w \<Rightarrow> rw_emit (EvDouble w)
      | VPropertySet s \<Rightarrow> rw_write_int False 4 (uint (toValue s))
      | VTimepoint w \<Rightarrow>
          (case rj_TimepointFormat S of
             FractionalSeconds \<Rightarrow> rw_emit (EvDouble w)
           | ISO8601String \<Rightarrow> rw_emit (EvString (timepoint_toString (rj_library S) w)))
      | VSteadyTimepoint w \<Rightarrow> rw_emit (EvDouble w)
      | VDuration w \<Rightarrow> rw_emit (EvDouble w)
      | VUuid bs \<Rightarrow> rw_emit (EvString (uuid_toString (rj_library S) bs))
      | VString s \<Rightarrow> rw_emit (EvString s)
      | _ \<Rightarrow> (\<lambda>w. w))"

definition rj_write_enum :: "rapid_serializer \<Rightarrow> enumerator list \<Rightarrow> 32 word \<Rightarrow> rapid_writer \<Rightarrow> rapid_writer result" where
  "rj_write_enum S es v w =
     (case rj_EnumFormat S of
        RjTag \<Rightarrow> bindE (enumeratorFromValue es v) (\<lambda>e. Inr (rw_write_int False 4 (uint (en_tag e)) w))
      | RjValue \<Rightarrow> Inr (rw_write_int True 4 (sint v) w)
      | RjString \<Rightarrow> bindE (enumeratorFromValue es v) (\<lambda>e. Inr (rw_emit (EvString (en_name e)) w)))"

fun rj_write :: "rapid_serializer \<Rightarrow> descr \<Rightarrow> val \<Rightarrow> rapid_writer \<Rightarrow> rapid_writer result"
and rj_write_props ::
    "rapid_serializer \<Rightarrow> property_set \<Rightarrow> nat \<Rightarrow> pdesc list \<Rightarrow> area \<Rightarrow> rapid_writer \<Rightarrow> rapid_writer result" where
  "rj_write S (Fundamental t) v w = Inr (rj_write_fund S v w)"
| "rj_write S (EnumDescriptor n es) v w = rj_write_enum S es (enum_of v) w"
| "rj_write S (VectorDescriptor d) v w =
     bindE (foldE (rj_write S d) (vals_of v) (rw_writeArrayBegin w)) rw_writeArrayEnd"
| "rj_write S (StructD (StructDescriptor n fl ps)) v w =
     bindE (rj_write_props S (validProperties (area_of v)) 0 ps (area_of v) (rw_writeObjectBegin w)) rw_writeObjectEnd"
| "rj_write_props S inc i [] a w = Inr w"
| "rj_write_props S inc i (PropertyDescriptor d n t k # ps) a w =
     bindE (if ps_le (pd_set (PropertyDescriptor d n t k)) inc
            then let w = (if rw_nesting w \<noteq> [] then rw_writeObjectMemberName n w else w) in
                 if isValid (PropertyDescriptor d n t k) a
                 then bindE (read_slot i a) (\<lambda>v. rj_write S d v w)
                 else Inr (rw_writeNull w)
            else Inr w)
       (rj_write_props S inc (Suc i) ps a)"

text \<open>The events of a serialisation, and \<open>Serialize(instance, includedProperties)\<close>.\<close>

definition rj_events :: "rapid_serializer \<Rightarrow> pdesc list \<Rightarrow> area \<Rightarrow> property_set \<Rightarrow> json_event list result" where
  "rj_events S ps a inc =
     bindE (rj_write_props S inc 0 ps a (rw_writeObjectBegin \<lparr>rw_events = [], rw_nesting = []\<rparr>)) (\<lambda>w.
     bindE (rw_writeObjectEnd w) (\<lambda>w. Inr (rw_events w)))"

definition rj_serialize :: "rapid_serializer \<Rightarrow> pdesc list \<Rightarrow> area \<Rightarrow> property_set \<Rightarrow> string result" where
  "rj_serialize S ps a inc = bindE (rj_events S ps a inc) (\<lambda>evs. Inr (rj_text S evs))"

section \<open>The reader\<close>

record rapid_reader =
  rr_input :: "json list option"
  rr_nesting :: "json list list"

abbreviation "no_value \<equiv> Inl (UndefinedBehaviour ''no value to read'')"
abbreviation "rj_assertion \<equiv> Inl (UndefinedBehaviour ''assertion of RapidJSON'')"
abbreviation "json_type_error \<equiv> Inl (RuntimeError ''encountered unexpected JSON type'')"

text \<open>The value at the pointer.\<close>

definition rr_value :: "rapid_reader \<Rightarrow> json result" where
  "rr_value r = (case rr_input r of Some (j # _) \<Rightarrow> Inr j | _ \<Rightarrow> no_value)"

definition rr_finalizeRead :: "rapid_reader \<Rightarrow> rapid_reader" where
  "rr_finalizeRead r =
     r\<lparr>rr_input := (if rr_nesting r \<noteq> [] then map_option tl (rr_input r) else None)\<rparr>"

definition members :: "(string \<times> json) list \<Rightarrow> json list" where
  "members ms = concat (map (\<lambda>(n, j). [JString n, j]) ms)"

definition rr_readArrayBegin :: "rapid_reader \<Rightarrow> rapid_reader result" where
  "rr_readArrayBegin r =
     bindE (rr_value r) (\<lambda>j. case j of
       JArray js \<Rightarrow> Inr (r\<lparr>rr_nesting := the (rr_input r) # rr_nesting r, rr_input := Some js\<rparr>)
     | _ \<Rightarrow> json_type_error)"

definition rr_readObjectBegin :: "rapid_reader \<Rightarrow> rapid_reader result" where
  "rr_readObjectBegin r =
     bindE (rr_value r) (\<lambda>j. case j of
       JObject ms \<Rightarrow> Inr (r\<lparr>rr_nesting := the (rr_input r) # rr_nesting r, rr_input := Some (members ms)\<rparr>)
     | _ \<Rightarrow> json_type_error)"

text \<open>The pointer is at the end of the array or object on top of the stack when nothing is left of it.\<close>

definition rr_leave :: "rapid_reader \<Rightarrow> rapid_reader" where
  "rr_leave r = rr_finalizeRead (r\<lparr>rr_input := Some (hd (rr_nesting r)), rr_nesting := tl (rr_nesting r)\<rparr>)"

definition rr_readArrayEnd :: "rapid_reader \<Rightarrow> rapid_reader result" where
  "rr_readArrayEnd r =
     (case rr_nesting r of
        (JArray js # _) # _ \<Rightarrow>
          if rr_input r = Some [] then Inr (rr_leave r)
          else Inl (RuntimeError ''attempt to read array end with remaining elements'')
      | (_ # _) # _ \<Rightarrow> json_type_error
      | _ \<Rightarrow> Inl (UndefinedBehaviour ''top of an empty stack''))"

definition rr_tryReadArrayEnd :: "rapid_reader \<Rightarrow> (bool \<times> rapid_reader) result" where
  "rr_tryReadArrayEnd r =
     (case rr_nesting r of
        (JArray js # _) # _ \<Rightarrow> Inr (if rr_input r = Some [] then (True, rr_leave r) else (False, r))
      | (_ # _) # _ \<Rightarrow> rj_assertion
      | _ \<Rightarrow> Inl (UndefinedBehaviour ''top of an empty stack''))"

definition rr_readObjectEnd :: "rapid_reader \<Rightarrow> rapid_reader result" where
  "rr_readObjectEnd r =
     (case rr_nesting r of
        (JObject ms # _) # _ \<Rightarrow>
          if rr_input r = Some [] then Inr (rr_leave r)
          else Inl (RuntimeError ''attempt to read object end with remaining members'')
      | (_ # _) # _ \<Rightarrow> json_type_error
      | _ \<Rightarrow> Inl (UndefinedBehaviour ''top of an empty stack''))"

definition rr_tryReadObjectEnd :: "rapid_reader \<Rightarrow> (bool \<times> rapid_reader) result" where
  "rr_tryReadObjectEnd r =
     (case rr_nesting r of
        (JObject ms # _) # _ \<Rightarrow> Inr (if rr_input r = Some [] then (True, rr_leave r) else (False, r))
      | (_ # _) # _ \<Rightarrow> rj_assertion
      | _ \<Rightarrow> Inl (UndefinedBehaviour ''top of an empty stack''))"

definition rr_tryReadNull :: "rapid_reader \<Rightarrow> (bool \<times> rapid_reader) result" where
  "rr_tryReadNull r =
     bindE (rr_value r) (\<lambda>j. Inr (if j = JNull then (True, rr_finalizeRead r) else (False, r)))"

definition rr_skip :: "rapid_reader \<Rightarrow> rapid_reader" where
  "rr_skip = rr_finalizeRead"

text \<open>\<open>read<T>()\<close>: the conversion of the value, then \<open>finalizeRead\<close>.\<close>

definition rr_read :: "(json \<Rightarrow> 'a result) \<Rightarrow> rapid_reader \<Rightarrow> ('a \<times> rapid_reader) result" where
  "rr_read conv r =
     bindE (rr_value r) (\<lambda>j. bindE (conv j) (\<lambda>x. Inr (x, rr_finalizeRead r)))"

definition conv_bool :: "json \<Rightarrow> bool result" where
  "conv_bool j = (case j of JBool b \<Rightarrow> Inr b | _ \<Rightarrow> json_type_error)"

text \<open>\<open>GetInt\<close>, \<open>GetInt64\<close>, \<open>GetUint\<close> and \<open>GetUint64\<close>, which assert that the number has the type.\<close>

definition conv_int :: "bool \<Rightarrow> nat \<Rightarrow> json \<Rightarrow> int result" where
  "conv_int is_signed size_of j =
     (let bits = (if size_of \<le> 4 then 32 else 64) in
      case j of
        JInteger i \<Rightarrow>
          if (if is_signed then - (2 ^ (bits - 1)) \<le> i \<and> i < 2 ^ (bits - 1) else 0 \<le> i \<and> i < 2 ^ bits)
          then Inr i else rj_assertion
      | JDouble w \<Rightarrow> rj_assertion
      | _ \<Rightarrow> json_type_error)"

text \<open>\<open>GetDouble\<close>, and \<open>GetFloat\<close>, which is its conversion to \<open>float\<close>.\<close>

definition double_of_int :: "int \<Rightarrow> 64 word" where
  "double_of_int i = of_nat (float_bits binary64 (nat \<bar>i\<bar>) 1 + (if i < 0 then 2 ^ 63 else 0))"

definition conv_double :: "json \<Rightarrow> 64 word result" where
  "conv_double j =
     (case j of JDouble w \<Rightarrow> Inr w | JInteger i \<Rightarrow> Inr (double_of_int i) | _ \<Rightarrow> json_type_error)"

definition float_of_double :: "64 word \<Rightarrow> 32 word" where
  "float_of_double w =
     (let sign = (\<lambda>neg. if neg then push_bit 31 1 else 0) in
      case classify binary64 (bit w 63) (unat (take_bit 63 w)) of
        FNan neg \<Rightarrow> sign neg OR push_bit 22 0x1FF OR take_bit 22 (ucast (drop_bit 29 w))
      | FInf neg \<Rightarrow> sign neg OR push_bit 23 0xFF
      | FFinite neg num den \<Rightarrow> sign neg OR of_nat (float_bits binary32 num den))"

definition conv_float :: "json \<Rightarrow> 32 word result" where
  "conv_float j = bindE (conv_double j) (\<lambda>w. Inr (float_of_double w))"

text \<open>\<open>GetString\<close> is a C string, which ends at the first null character.\<close>

definition conv_string :: "json \<Rightarrow> string result" where
  "conv_string j = (case j of JString s \<Rightarrow> Inr (takeWhile (\<lambda>c. c \<noteq> CHR 0x00) s) | _ \<Rightarrow> json_type_error)"

definition rr_readObjectMemberName :: "rapid_reader \<Rightarrow> (string \<times> rapid_reader) result" where
  "rr_readObjectMemberName = rr_read conv_string"

section \<open>Deserialisation\<close>

definition rj_read_fund :: "rapid_serializer \<Rightarrow> fund_type \<Rightarrow> rapid_reader \<Rightarrow> (val \<times> rapid_reader) result" where
  "rj_read_fund S t r =
     (let seconds = (\<lambda>c. mapV c (rr_read conv_double r)) in
      case t of
        T_boolean \<Rightarrow> mapV VBool (rr_read conv_bool r)
      | T_int8 \<Rightarrow> mapV (\<lambda>i. VInt8 (word_of_int i)) (rr_read (conv_int True 1) r)
      | T_uint8 \<Rightarrow> mapV (\<lambda>i. VUInt8 (word_of_int i)) (rr_read (conv_int False 1) r)
      | T_int16 \<Rightarrow> mapV (\<lambda>i. VInt16 (word_of_int i)) (rr_read (conv_int True 2) r)
      | T_uint16 \<Rightarrow> mapV (\<lambda>i. VUInt16 (word_of_int i)) (rr_read (conv_int False 2) r)
      | T_int32 \<Rightarrow> mapV (\<lambda>i. VInt32 (word_of_int i)) (rr_read (conv_int True 4) r)
      | T_uint32 \<Rightarrow> mapV (\<lambda>i. VUInt32 (word_of_int i)) (rr_read (conv_int False 4) r)
      | T_int64 \<Rightarrow> mapV (\<lambda>i. VInt64 (word_of_int i)) (rr_read (conv_int True 8) r)
      | T_uint64 \<Rightarrow> mapV (\<lambda>i. VUInt64 (word_of_int i)) (rr_read (conv_int False 8) r)
      | T_float32 \<Rightarrow> mapV VFloat32 (rr_read conv_float r)
      | T_float64 \<Rightarrow> mapV VFloat64 (rr_read conv_double r)
      | T_property_set \<Rightarrow> mapV (\<lambda>i. VPropertySet (PropertySet (word_of_int i))) (rr_read (conv_int False 4) r)
      | T_timepoint \<Rightarrow>
          (case rj_TimepointFormat S of
             FractionalSeconds \<Rightarrow> seconds VTimepoint
           | ISO8601String \<Rightarrow>
               bindE (rr_read conv_string r) (\<lambda>(s, r).
               bindE (timepoint_FromString (rj_library S) s) (\<lambda>w. Inr (VTimepoint w, r))))
      | T_steady_timepoint \<Rightarrow> seconds VSteadyTimepoint
      | T_duration \<Rightarrow> seconds VDuration
      | T_uuid \<Rightarrow>
          bindE (rr_read conv_string r) (\<lambda>(s, r).
          bindE (uuid_FromString (rj_library S) s) (\<lambda>bs. Inr (VUuid bs, r)))
      | T_string \<Rightarrow> mapV VString (rr_read conv_string r))"

definition rj_read_enum :: "rapid_serializer \<Rightarrow> enumerator list \<Rightarrow> rapid_reader \<Rightarrow> (val \<times> rapid_reader) result" where
  "rj_read_enum S es r =
     (case rj_EnumFormat S of
        RjTag \<Rightarrow>
          bindE (rr_read (conv_int False 4) r) (\<lambda>(i, r).
          bindE (enumeratorFromTag es (word_of_int i)) (\<lambda>e. Inr (VEnum (en_value e), r)))
      | RjValue \<Rightarrow>
          bindE (rr_read (conv_int False 4) r) (\<lambda>(i, r).
          bindE (enumeratorFromValue es (word_of_int i)) (\<lambda>e. Inr (VEnum (en_value e), r)))
      | RjString \<Rightarrow>
          bindE (rr_read conv_string r) (\<lambda>(n, r).
          bindE (enumeratorFromName es n) (\<lambda>e. Inr (VEnum (en_value e), r))))"

text \<open>
  An iteration of a loop passes over one element or one member, or raises, so that the number of values left
  bounds the iterations.
\<close>

definition values_left :: "rapid_reader \<Rightarrow> nat" where
  "values_left r = length (case rr_input r of None \<Rightarrow> [] | Some js \<Rightarrow> js)"

function rj_read :: "rapid_serializer \<Rightarrow> descr \<Rightarrow> val \<Rightarrow> rapid_reader \<Rightarrow> (val \<times> rapid_reader) result"
and rj_read_member ::
    "rapid_serializer \<Rightarrow> pdesc list \<Rightarrow> property_set \<Rightarrow> area \<times> rapid_reader \<Rightarrow> (area \<times> rapid_reader) result" where
  "rj_read S (Fundamental t) old r = rj_read_fund S t r"
| "rj_read S (EnumDescriptor n es) old r = rj_read_enum S es r"
| "rj_read S (VectorDescriptor d) old r =
     bindE (rr_readArrayBegin r) (\<lambda>r.
     mapV VVector
       (loopE (Suc (values_left r)) (at_end rr_tryReadArrayEnd)
          (\<lambda>(vs, r). bindE (rj_read S d (default_val d) r) (\<lambda>(v, r). Inr (vs @ [v], r)))
          (vals_of old, r)))"
| "rj_read S (StructD (StructDescriptor n fl ps)) old r =
     bindE (rr_readObjectBegin r) (\<lambda>r.
     mapV VStruct
       (loopE (Suc (values_left r)) (at_end rr_tryReadObjectEnd)
          (rj_read_member S ps ps_All) (area_of old, r)))"
| "rj_read_member S ps inc (a, r) =
     bindE (rr_readObjectMemberName r) (\<lambda>(name, r).
       case find_named name ps of
         Some (i, p) \<Rightarrow>
           if ps_le (pd_set p) inc
           then bindE (rr_tryReadNull r) (\<lambda>(null, r).
             if null then bindE (reset i p a) (\<lambda>a. Inr (a, r))
             else bindE (valueOrEmplace i p (default_val (valueDescriptor p)) a) (\<lambda>a.
                  bindE (read_slot i a) (\<lambda>old.
                  bindE (rj_read S (valueDescriptor p) old r) (\<lambda>(v, r).
                  bindE (assign_slot i v a) (\<lambda>a. Inr (a, r))))))
           else Inr (a, rr_skip r)
       | None \<Rightarrow> Inr (a, rr_skip r))"
  by pat_completeness auto
termination
proof (relation "measure (\<lambda>s. case s of Inl (_, d, _) \<Rightarrow> size d | Inr (_, ps, _) \<Rightarrow> Suc (size_list size ps))",
    goal_cases)
  case (4 S ps inc a r x name r' y i p)
  then have "size p < size_list size ps" using find_named_size by auto
  then show ?case by (cases p) simp
qed auto

text \<open>\<open>deserialize(instance, includedProperties)\<close> of a value of a document, and of a text.\<close>

definition rj_deserialize_value ::
    "rapid_serializer \<Rightarrow> pdesc list \<Rightarrow> property_set \<Rightarrow> area \<Rightarrow> json \<Rightarrow> (area \<times> rapid_reader) result" where
  "rj_deserialize_value S ps inc a j =
     bindE (rr_readObjectBegin \<lparr>rr_input = Some [j], rr_nesting = []\<rparr>) (\<lambda>r.
       loopE (Suc (values_left r)) (at_end rr_tryReadObjectEnd) (rj_read_member S ps inc) (a, r))"

definition rj_deserialize :: "rapid_serializer \<Rightarrow> pdesc list \<Rightarrow> property_set \<Rightarrow> area \<Rightarrow> string \<Rightarrow> area result" where
  "rj_deserialize S ps inc a inp =
     (if inp = [] then Inl (LogicError ''serializer does not have RapidJSON input value'')
      else case rj_parse S inp of
        None \<Rightarrow> Inl (RuntimeError ''RapidJSON parse error'')
      | Some j \<Rightarrow> bindE (rj_deserialize_value S ps inc a j) (\<lambda>(a, r). Inr a))"

end
