(* ===== verification/Rapid_Roundtrip.thy ===== *)
theory Rapid_Roundtrip
  imports Rapid_Json Text_Roundtrip
begin

unbundle bit_operations_syntax

text \<open>
  What the RapidJSON serializer writes of an instance stands for one JSON value, and reading this value merges
  the instance into the one that is read into, like the text serializers do.
\<close>

section \<open>What events stand for\<close>

text \<open>
  The JSON values that a list of handler calls stands for, as RapidJSON documents its handlers: a call for
  each scalar, and a pair of calls around the elements of an array and around the names and values of an
  object. The relation is what the hypothesis on the library is stated with: its text writer and its parser
  together give back the value that the calls stand for.
\<close>

inductive spells :: "json_event list \<Rightarrow> json list \<Rightarrow> bool" where
  spells_Nil: "spells [] []"
| spells_append: "spells es js \<Longrightarrow> spells fs ks \<Longrightarrow> spells (es @ fs) (js @ ks)"
| spells_null: "spells [EvNull] [JNull]"
| spells_bool: "spells [EvBool b] [JBool b]"
| spells_integer: "e \<in> {EvInt i, EvUint i, EvInt64 i, EvUint64 i} \<Longrightarrow> spells [e] [JInteger i]"
| spells_double: "spells [EvDouble w] [JDouble w]"
| spells_string: "spells [EvString s] [JString s]"
| spells_array: "spells es js \<Longrightarrow> spells (EvStartArray # es @ [EvEndArray]) [JArray js]"
| spells_object: "spells es (members ms) \<Longrightarrow> spells (EvStartObject # es @ [EvEndObject]) [JObject ms]"

lemmas spells_scalars [simp] = spells_Nil spells_null spells_bool spells_double spells_string

lemma spells_integers [simp]:
  "spells [EvInt i] [JInteger i]" "spells [EvUint i] [JInteger i]"
  "spells [EvInt64 i] [JInteger i]" "spells [EvUint64 i] [JInteger i]"
  by (simp_all add: spells_integer)

definition reads_back :: "rapid_serializer \<Rightarrow> json_event list \<Rightarrow> bool" where
  "reads_back S evs \<longleftrightarrow> (\<forall>j. spells evs [j] \<longrightarrow> rj_text S evs \<noteq> [] \<and> rj_parse S (rj_text S evs) = Some j)"

lemma rj_members_simps [simp]:
  "members [] = []" "members ((n, j) # ms) = JString n # j # members ms" "members (ms @ ms') = members ms @ members ms'"
  by (simp_all add: members_def)

section \<open>What can be read back\<close>

definition c_string :: "string \<Rightarrow> bool" where
  "c_string s \<longleftrightarrow> CHR 0x00 \<notin> set s"

lemma conv_c_string: "c_string s \<Longrightarrow> conv_string (JString s) = Inr s"
proof -
  assume "c_string s"
  then have "takeWhile (\<lambda>c. c \<noteq> CHR 0x00) s = s" by (intro takeWhile_eq_all_conv [THEN iffD2] ballI) (auto simp: c_string_def)
  then show ?thesis by (simp add: conv_string_def)
qed

fun rj_type :: "descr \<Rightarrow> bool"
and rj_members :: "pdesc list \<Rightarrow> bool" where
  "rj_type (Fundamental t) = True"
| "rj_type (EnumDescriptor n es) = True"
| "rj_type (VectorDescriptor d) = rj_type d"
| "rj_type (StructD (StructDescriptor n fl ps)) = (distinct (map pd_name ps) \<and> rj_members ps)"
| "rj_members [] = True"
| "rj_members (PropertyDescriptor d n t k # ps) = (c_string n \<and> rj_type d \<and> rj_members ps)"

definition rj_fund_ok :: "rapid_serializer \<Rightarrow> val \<Rightarrow> bool" where
  "rj_fund_ok S v =
     (let lib = rj_library S in
      case v of
        VFloat32 w \<Rightarrow> float_of_double (f32_to_f64 w) = w
      | VString s \<Rightarrow> c_string s
      | VTimepoint w \<Rightarrow>
          (case rj_TimepointFormat S of
             FractionalSeconds \<Rightarrow> True
           | ISO8601String \<Rightarrow>
               c_string (timepoint_toString lib w) \<and> timepoint_FromString lib (timepoint_toString lib w) = Inr w)
      | VUuid bs \<Rightarrow> c_string (uuid_toString lib bs) \<and> uuid_FromString lib (uuid_toString lib bs) = Inr bs
      | _ \<Rightarrow> True)"

fun rj_ok :: "rapid_serializer \<Rightarrow> descr \<Rightarrow> val \<Rightarrow> bool"
and rj_ok_slots :: "rapid_serializer \<Rightarrow> pdesc list \<Rightarrow> val option list \<Rightarrow> bool" where
  "rj_ok S (Fundamental t) v = rj_fund_ok S v"
| "rj_ok S (EnumDescriptor n es) v = (enum_of v \<in> en_value ` set es)"
| "rj_ok S (VectorDescriptor d) v = list_all (rj_ok S d) (vals_of v)"
| "rj_ok S (StructD (StructDescriptor n fl ps)) v = rj_ok_slots S ps (slots (area_of v))"
| "rj_ok_slots S [] xs = True"
| "rj_ok_slots S (PropertyDescriptor d n t k # ps) xs =
     ((case hd xs of None \<Rightarrow> True | Some v \<Rightarrow> rj_ok S d v) \<and> rj_ok_slots S ps (tl xs))"

section \<open>Values\<close>

abbreviation RW :: "json_event list \<Rightarrow> text_state list \<Rightarrow> rapid_writer" where
  "RW es N \<equiv> \<lparr>rw_events = es, rw_nesting = N\<rparr>"

abbreviation RR :: "json list \<Rightarrow> json list list \<Rightarrow> rapid_reader" where
  "RR js N \<equiv> \<lparr>rr_input = Some js, rr_nesting = N\<rparr>"

definition rj_writes :: "(rapid_writer \<Rightarrow> rapid_writer result) \<Rightarrow> json_event list \<Rightarrow> bool" where
  "rj_writes f es \<longleftrightarrow> (\<forall>out N. f (RW out N) = Inr (RW (out @ es) N))"

definition rj_reads :: "(rapid_reader \<Rightarrow> ('a \<times> rapid_reader) result) \<Rightarrow> json \<Rightarrow> 'a \<Rightarrow> bool" where
  "rj_reads f j x \<longleftrightarrow> (\<forall>rest N. N \<noteq> [] \<longrightarrow> f (RR (j # rest) N) = Inr (x, RR rest N))"

text \<open>A value is written as events that add it to a document, it is not null, and it is read back.\<close>

definition rj_value ::
    "(rapid_writer \<Rightarrow> rapid_writer result) \<Rightarrow> (rapid_reader \<Rightarrow> ('a \<times> rapid_reader) result) \<Rightarrow> 'a \<Rightarrow> bool" where
  "rj_value f g x \<longleftrightarrow> (\<exists>es j. rj_writes f es \<and> spells es [j] \<and> j \<noteq> JNull \<and> rj_reads g j x)"

lemma rj_valueI: "rj_writes f es \<Longrightarrow> spells es [j] \<Longrightarrow> j \<noteq> JNull \<Longrightarrow> rj_reads g j x \<Longrightarrow> rj_value f g x"
  by (auto simp: rj_value_def)

lemma rj_writes_emit: "rj_writes (\<lambda>w. Inr (rw_emit e w)) [e]"
  by (simp add: rj_writes_def rw_emit_def)

lemma rj_reads_read: "conv j = Inr x \<Longrightarrow> rj_reads (rr_read conv) j x"
  by (simp add: rj_reads_def rr_read_def rr_value_def rr_finalizeRead_def)

lemma rj_reads_map: "conv j = Inr x \<Longrightarrow> rj_reads (\<lambda>r. mapV g (rr_read conv r)) j (g x)"
  using rj_reads_read [of conv j x] by (simp add: rj_reads_def mapV_def)

lemma rj_reads_bind:
  "conv j = Inr x \<Longrightarrow> g x = Inr y \<Longrightarrow>
     rj_reads (\<lambda>r. bindE (rr_read conv r) (\<lambda>(x, r). bindE (g x) (\<lambda>y. Inr (h y, r)))) j (h y)"
  using rj_reads_read [of conv j x] by (simp add: rj_reads_def)

lemma conv_int_word:
  "conv_int True 1 (JInteger (sint w8)) = Inr (sint (w8 :: 8 word))"
  "conv_int True 2 (JInteger (sint w16)) = Inr (sint (w16 :: 16 word))"
  "conv_int True 4 (JInteger (sint w32)) = Inr (sint (w32 :: 32 word))"
  "conv_int True 8 (JInteger (sint w64)) = Inr (sint (w64 :: 64 word))"
  "conv_int False 1 (JInteger (uint w8)) = Inr (uint w8)"
  "conv_int False 2 (JInteger (uint w16)) = Inr (uint w16)"
  "conv_int False 4 (JInteger (uint w32)) = Inr (uint w32)"
  "conv_int False 8 (JInteger (uint w64)) = Inr (uint w64)"
  using sint_ge [of w8] sint_lt [of w8] sint_ge [of w16] sint_lt [of w16] sint_ge [of w32] sint_lt [of w32]
    sint_ge [of w64] sint_lt [of w64] uint_lt2p [of w8] uint_lt2p [of w16] uint_lt2p [of w32] uint_lt2p [of w64]
  by (simp_all add: conv_int_def)

lemma rw_write_int_spells: "\<exists>e. rw_write_int sg n i = rw_emit e \<and> spells [e] [JInteger i]"
  by (auto simp: rw_write_int_def fun_eq_iff)

lemma rj_int_value:
  assumes "rj_reads g (JInteger i) x" shows "rj_value (\<lambda>w. Inr (rw_write_int sg n i w)) g x"
proof -
  obtain e where e: "rw_write_int sg n i = rw_emit e" "spells [e] [JInteger i]" using rw_write_int_spells by blast
  show ?thesis unfolding e(1) by (rule rj_valueI [OF rj_writes_emit e(2) _ assms]) simp
qed

lemma rj_double_value: "rj_reads g (JDouble d) x \<Longrightarrow> rj_value (\<lambda>w. Inr (rw_emit (EvDouble d) w)) g x"
  by (rule rj_valueI [OF rj_writes_emit spells_double]) simp_all

lemma rj_bool_value: "rj_reads g (JBool b) x \<Longrightarrow> rj_value (\<lambda>w. Inr (rw_emit (EvBool b) w)) g x"
  by (rule rj_valueI [OF rj_writes_emit spells_bool]) simp_all

lemma rj_string_value: "rj_reads g (JString s) x \<Longrightarrow> rj_value (\<lambda>w. Inr (rw_emit (EvString s) w)) g x"
  by (rule rj_valueI [OF rj_writes_emit spells_string]) simp_all

text \<open>Reading of the scalars.\<close>

lemma rj_reads_int:
  assumes "conv_int sg n (JInteger i) = Inr i" "g i = x"
  shows "rj_reads (\<lambda>r. mapV g (rr_read (conv_int sg n) r)) (JInteger i) x"
  using rj_reads_map [where conv = "conv_int sg n" and j = "JInteger i" and x = i and g = g, OF assms(1)] assms(2) by simp

lemma rj_reads_double: "g d = x \<Longrightarrow> rj_reads (\<lambda>r. mapV g (rr_read conv_double r)) (JDouble d) x"
  using rj_reads_map [of conv_double "JDouble d" d g] by (simp add: conv_double_def)

lemma rj_reads_bool: "rj_reads (\<lambda>r. mapV VBool (rr_read conv_bool r)) (JBool b) (VBool b)"
  by (rule rj_reads_map) (simp add: conv_bool_def)

lemma rj_reads_float:
  "float_of_double (f32_to_f64 w) = w \<Longrightarrow> rj_reads (\<lambda>r. mapV VFloat32 (rr_read conv_float r)) (JDouble (f32_to_f64 w)) (VFloat32 w)"
  by (rule rj_reads_map) (simp add: conv_float_def conv_double_def)

lemmas rj_scalar_values =
  rj_int_value [OF rj_reads_int [OF conv_int_word(1)]] rj_int_value [OF rj_reads_int [OF conv_int_word(2)]]
  rj_int_value [OF rj_reads_int [OF conv_int_word(3)]] rj_int_value [OF rj_reads_int [OF conv_int_word(4)]]
  rj_int_value [OF rj_reads_int [OF conv_int_word(5)]] rj_int_value [OF rj_reads_int [OF conv_int_word(6)]]
  rj_int_value [OF rj_reads_int [OF conv_int_word(7)]] rj_int_value [OF rj_reads_int [OF conv_int_word(8)]]
  rj_double_value [OF rj_reads_double] rj_bool_value [OF rj_reads_bool]

lemma rj_fund_scalar:
  "rj_value (\<lambda>w. Inr (rj_write_fund S (VInt8 x0) w)) (rj_read_fund S T_int8) (VInt8 x0)"
  "rj_value (\<lambda>w. Inr (rj_write_fund S (VUInt8 x1) w)) (rj_read_fund S T_uint8) (VUInt8 x1)"
  "rj_value (\<lambda>w. Inr (rj_write_fund S (VInt16 x2) w)) (rj_read_fund S T_int16) (VInt16 x2)"
  "rj_value (\<lambda>w. Inr (rj_write_fund S (VUInt16 x3) w)) (rj_read_fund S T_uint16) (VUInt16 x3)"
  "rj_value (\<lambda>w. Inr (rj_write_fund S (VInt32 x4) w)) (rj_read_fund S T_int32) (VInt32 x4)"
  "rj_value (\<lambda>w. Inr (rj_write_fund S (VUInt32 x5) w)) (rj_read_fund S T_uint32) (VUInt32 x5)"
  "rj_value (\<lambda>w. Inr (rj_write_fund S (VInt64 x6) w)) (rj_read_fund S T_int64) (VInt64 x6)"
  "rj_value (\<lambda>w. Inr (rj_write_fund S (VUInt64 x7) w)) (rj_read_fund S T_uint64) (VUInt64 x7)"
  "rj_value (\<lambda>w. Inr (rj_write_fund S (VFloat64 x8) w)) (rj_read_fund S T_float64) (VFloat64 x8)"
  "rj_value (\<lambda>w. Inr (rj_write_fund S (VSteadyTimepoint x9) w)) (rj_read_fund S T_steady_timepoint) (VSteadyTimepoint x9)"
  "rj_value (\<lambda>w. Inr (rj_write_fund S (VDuration x10) w)) (rj_read_fund S T_duration) (VDuration x10)"
  "rj_value (\<lambda>w. Inr (rj_write_fund S (VBool x11) w)) (rj_read_fund S T_boolean) (VBool x11)"
  unfolding rj_write_fund_def rj_read_fund_def [abs_def] Let_def val.case fund_type.case
  by ((rule rj_scalar_values; simp)+)

lemma rj_fund_timepoint:
  assumes "rj_fund_ok S (VTimepoint w)"
  shows "rj_value (\<lambda>r. Inr (rj_write_fund S (VTimepoint w) r)) (rj_read_fund S T_timepoint) (VTimepoint w)"
proof (cases "rj_TimepointFormat S")
  case FractionalSeconds
  then show ?thesis
    using rj_double_value [OF rj_reads_double [where g = VTimepoint and d = w, OF refl]]
    by (simp add: rj_write_fund_def rj_read_fund_def [abs_def] Let_def)
next
  case ISO8601String
  then have ok: "c_string (timepoint_toString (rj_library S) w)"
    "timepoint_FromString (rj_library S) (timepoint_toString (rj_library S) w) = Inr w"
    using assms by (simp_all add: rj_fund_ok_def Let_def)
  show ?thesis
    using rj_string_value [OF rj_reads_bind [where conv = conv_string and g = "timepoint_FromString (rj_library S)" and h = VTimepoint, OF conv_c_string [OF ok(1)] ok(2)]] ISO8601String
    by (simp add: rj_write_fund_def rj_read_fund_def [abs_def] Let_def)
qed

lemma rj_fund_uuid:
  assumes "rj_fund_ok S (VUuid bs)"
  shows "rj_value (\<lambda>r. Inr (rj_write_fund S (VUuid bs) r)) (rj_read_fund S T_uuid) (VUuid bs)"
proof -
  have ok: "c_string (uuid_toString (rj_library S) bs)" "uuid_FromString (rj_library S) (uuid_toString (rj_library S) bs) = Inr bs"
    using assms by (simp_all add: rj_fund_ok_def Let_def)
  show ?thesis
    using rj_string_value [OF rj_reads_bind [where conv = conv_string and g = "uuid_FromString (rj_library S)" and h = VUuid, OF conv_c_string [OF ok(1)] ok(2)]]
    by (simp add: rj_write_fund_def rj_read_fund_def [abs_def] Let_def)
qed

lemma rj_fund:
  assumes "fund_ok t v" "rj_fund_ok S v"
  shows "rj_value (\<lambda>w. Inr (rj_write_fund S v w)) (rj_read_fund S t) v"
proof (cases v)
  case (VPropertySet s)
  then have t: "t = T_property_set" using assms(1) by (cases t) auto
  show ?thesis
    using rj_int_value [OF rj_reads_int [where g = "\<lambda>i. VPropertySet (PropertySet (word_of_int i))", OF conv_int_word(7) [of "toValue s"] refl]]
    by (cases s) (simp add: VPropertySet t rj_write_fund_def rj_read_fund_def [abs_def])
next
  case (VTimepoint w)
  then have t: "t = T_timepoint" using assms(1) by (cases t) auto
  show ?thesis using rj_fund_timepoint assms(2) by (simp add: VTimepoint t)
next
  case (VUuid bs)
  then have t: "t = T_uuid" using assms(1) by (cases t) auto
  show ?thesis using rj_fund_uuid assms(2) by (simp add: VUuid t)
next
  case (VString s)
  then have t: "t = T_string" using assms(1) by (cases t) auto
  have "c_string s" using assms(2) by (simp add: VString rj_fund_ok_def)
  from rj_string_value [OF rj_reads_map [where conv = conv_string and g = VString, OF conv_c_string [OF this]]] show ?thesis
    by (simp add: VString t rj_write_fund_def rj_read_fund_def [abs_def])
next
  case (VFloat32 w)
  then have t: "t = T_float32" using assms(1) by (cases t) auto
  have "float_of_double (f32_to_f64 w) = w" using assms(2) by (simp add: VFloat32 rj_fund_ok_def)
  from rj_double_value [OF rj_reads_float [OF this]] show ?thesis
    by (simp add: VFloat32 t rj_write_fund_def rj_read_fund_def [abs_def])
qed (use assms(1) in \<open>cases t; simp add: rj_fund_scalar\<close>)+

lemma rj_enum:
  assumes wf: "wf_descr (EnumDescriptor n es)" and x: "x \<in> en_value ` set es" and fmt: "rj_EnumFormat S = RjTag"
  shows "rj_value (rj_write_enum S es x) (rj_read_enum S es) (VEnum x)"
proof -
  obtain e where e: "find (\<lambda>e. en_value e = x) es = Some e"
    using x by (cases "find (\<lambda>e. en_value e = x) es") (auto simp: find_None_set)
  then have ev: "enumeratorFromValue es x = Inr e" "en_value e = x"
    using find_Some_set [OF e] by (simp_all add: enumeratorFromValue_def)
  have lookup: "enumeratorFromTag es (en_tag e) = Inr e"
    using find_by_key [OF e, of en_tag] wf by (simp add: enumeratorFromTag_def)
  have "rj_reads (rj_read_enum S es) (JInteger (uint (en_tag e))) (VEnum x)"
    using rj_reads_bind [where conv = "conv_int False 4" and g = "\<lambda>i. enumeratorFromTag es (word_of_int i)"
        and h = "\<lambda>e. VEnum (en_value e)", OF conv_int_word(7) [of "en_tag e"], of e] lookup ev(2)
    by (simp add: rj_read_enum_def [abs_def] fmt)
  from rj_int_value [OF this] show ?thesis by (simp add: rj_write_enum_def [abs_def] fmt ev(1))
qed

section \<open>Elements\<close>

definition leave :: "json list \<Rightarrow> json list list \<Rightarrow> rapid_reader" where
  "leave rest N = \<lparr>rr_input = (if N \<noteq> [] then Some rest else None), rr_nesting = N\<rparr>"

lemma leave_nested [simp]: "N \<noteq> [] \<Longrightarrow> leave rest N = RR rest N"
  by (simp add: leave_def)

lemma rr_leave_RR: "rr_leave (RR js ((j # rest) # N)) = leave rest N"
  by (simp add: rr_leave_def rr_finalizeRead_def leave_def)

lemma tryReadEnd_simps:
  "rr_tryReadArrayEnd (RR js ((JArray ks # rest) # N)) =
     Inr (if js = [] then (True, leave rest N) else (False, RR js ((JArray ks # rest) # N)))"
  "rr_tryReadObjectEnd (RR js ((JObject ms # rest) # N)) =
     Inr (if js = [] then (True, leave rest N) else (False, RR js ((JObject ms # rest) # N)))"
  by (auto simp: rr_tryReadArrayEnd_def rr_tryReadObjectEnd_def rr_leave_RR)

lemma readBegin_simps:
  "rr_readArrayBegin (RR (JArray js # rest) N) = Inr (RR js ((JArray js # rest) # N))"
  "rr_readObjectBegin (RR (JObject ms # rest) N) = Inr (RR (members ms) ((JObject ms # rest) # N))"
  by (simp_all add: rr_readArrayBegin_def rr_readObjectBegin_def rr_value_def)

text \<open>A loop body that passes over a group of values, and one that does so for every group of a list.\<close>

definition takes :: "('s \<times> rapid_reader \<Rightarrow> ('s \<times> rapid_reader) result) \<Rightarrow> json list \<Rightarrow> 's \<Rightarrow> 's \<Rightarrow> bool" where
  "takes body js x y \<longleftrightarrow> js \<noteq> [] \<and> (\<forall>rest N. N \<noteq> [] \<longrightarrow> body (x, RR (js @ rest) N) = Inr (y, RR rest N))"

fun takes_all :: "('s \<times> rapid_reader \<Rightarrow> ('s \<times> rapid_reader) result) \<Rightarrow> json list list \<Rightarrow> 's \<Rightarrow> 's \<Rightarrow> bool" where
  "takes_all body [] x y = (x = y)"
| "takes_all body (js # jss) x y = (\<exists>z. takes body js x z \<and> takes_all body jss z y)"

lemma loop_takes:
  assumes "\<And>js. test (RR js N) = Inr (if js = [] then (True, r) else (False, RR js N))" and N: "N \<noteq> []"
  shows "takes_all body jss x y \<Longrightarrow> length (concat jss) < n \<Longrightarrow>
    loopE n (at_end test) body (x, RR (concat jss) N) = Inr (y, r)"
proof (induction jss arbitrary: x n)
  case Nil
  then obtain m where "n = Suc m" by (cases n) auto
  then show ?case using Nil assms(1) by (simp add: at_end_def)
next
  case (Cons js jss)
  then obtain m z where m: "n = Suc m" and z: "takes body js x z" "takes_all body jss z y"
    by (cases n) auto
  then have js: "js \<noteq> []" "body (x, RR (js @ concat jss) N) = Inr (z, RR (concat jss) N)"
    using N by (simp_all add: takes_def)
  have "length (concat jss) < m" using Cons.prems(2) js(1) m by (cases js) auto
  from Cons.IH [OF z(2) this] show ?case using js assms(1) by (simp add: m at_end_def)
qed

definition rj_element_body :: "rapid_serializer \<Rightarrow> descr \<Rightarrow> val list \<times> rapid_reader \<Rightarrow> (val list \<times> rapid_reader) result" where
  "rj_element_body S d = (\<lambda>(vs, r). bindE (rj_read S d (default_val d) r) (\<lambda>(v, r). Inr (vs @ [v], r)))"

lemma rj_elements:
  assumes "\<And>v. v \<in> set vs \<Longrightarrow> rj_value (rj_write S d v) (rj_read S d (default_val d)) (g v)"
  shows "\<exists>es js. rj_writes (foldE (rj_write S d) vs) es \<and> spells es js
    \<and> (\<forall>acc. takes_all (rj_element_body S d) (map (\<lambda>j. [j]) js) acc (acc @ map g vs))"
  using assms
proof (induction vs)
  case Nil
  then show ?case by (intro exI [of _ "[]"]) (simp add: rj_writes_def)
next
  case (Cons v vs)
  obtain e j where e: "rj_writes (rj_write S d v) e" "spells e [j]" "rj_reads (rj_read S d (default_val d)) j (g v)"
    using Cons.prems [of v] by (auto simp: rj_value_def)
  obtain es js where es: "rj_writes (foldE (rj_write S d) vs) es" "spells es js"
    "\<And>acc. takes_all (rj_element_body S d) (map (\<lambda>j. [j]) js) acc (acc @ map g vs)"
    using Cons by auto
  have "takes (rj_element_body S d) [j] acc (acc @ [g v])" for acc
    using e(3) by (simp add: takes_def rj_element_body_def rj_reads_def)
  then have "takes_all (rj_element_body S d) (map (\<lambda>j. [j]) (j # js)) acc (acc @ map g (v # vs))" for acc
    using es(3) [of "acc @ [g v]"] by auto
  moreover have "rj_writes (foldE (rj_write S d) (v # vs)) (e @ es)" using e(1) es(1) by (simp add: rj_writes_def)
  ultimately show ?case using spells_append [OF e(2) es(2)] by (metis append_Cons append_Nil)
qed

lemma rj_vector:
  assumes "\<And>v. v \<in> set vs \<Longrightarrow> rj_value (rj_write S d v) (rj_read S d (default_val d)) (g v)"
  shows "rj_value (rj_write S (VectorDescriptor d) (VVector vs)) (rj_read S (VectorDescriptor d) old)
    (VVector (vals_of old @ map g vs))"
proof -
  obtain es js where es: "rj_writes (foldE (rj_write S d) vs) es" "spells es js"
    "\<And>acc. takes_all (rj_element_body S d) (map (\<lambda>j. [j]) js) acc (acc @ map g vs)"
    using rj_elements [OF assms] by blast
  have "rj_writes (rj_write S (VectorDescriptor d) (VVector vs)) (EvStartArray # es @ [EvEndArray])"
    using es(1) by (simp add: rj_writes_def rw_writeArrayBegin_def rw_open_def rw_writeArrayEnd_def rw_close_def rw_emit_def vals_of_def)
  moreover have "rj_reads (rj_read S (VectorDescriptor d) old) (JArray js) (VVector (vals_of old @ map g vs))"
    unfolding rj_reads_def
  proof (intro allI impI)
    fix rest N assume "(N :: json list list) \<noteq> []"
    then have "loopE (Suc (length js)) (at_end rr_tryReadArrayEnd) (rj_element_body S d)
        (vals_of old, RR js ((JArray js # rest) # N)) = Inr (vals_of old @ map g vs, RR rest N)"
      using loop_takes [where test = rr_tryReadArrayEnd and N = "(JArray js # rest) # N" and n = "Suc (length js)", OF tryReadEnd_simps(1) _ es(3)]
      by simp
    then show "rj_read S (VectorDescriptor d) old (RR (JArray js # rest) N) = Inr (VVector (vals_of old @ map g vs), RR rest N)"
      by (simp add: readBegin_simps values_left_def mapV_def rj_element_body_def del: loopE.simps)
  qed
  ultimately show ?thesis by (intro rj_valueI [OF _ spells_array [OF es(2)]]) simp_all
qed

section \<open>Members\<close>

definition rj_member :: "string \<times> json \<Rightarrow> json list" where
  "rj_member m = [JString (fst m), snd m]"

lemma members_concat: "members ms = concat (map rj_member ms)"
  by (induction ms) (auto simp: rj_member_def)

lemma rj_takes_member:
  assumes qs: "wf_tags qs" "distinct (map pd_name qs)" "length xs = length qs" "i < length qs"
    and name: "c_string (pd_name (qs ! i))" and j: "j \<noteq> JNull"
    and rd: "rj_reads (rj_read S (valueDescriptor (qs ! i))
         (case xs ! i of None \<Rightarrow> default_val (valueDescriptor (qs ! i)) | Some u \<Rightarrow> u)) j v"
  shows "takes (rj_read_member S qs ps_All) (rj_member (pd_name (qs ! i), j)) (mk_area qs xs) (mk_area qs (xs[i := Some v]))"
  unfolding takes_def
proof (intro conjI allI impI)
  fix rest :: "json list" and N :: "json list list" assume N: "N \<noteq> []"
  have inc: "ps_le (pd_set (qs ! i)) ps_All" using pd_index_less [OF qs(1,4)] by simp
  have rd': "rj_read S (valueDescriptor (qs ! i)) (case xs ! i of None \<Rightarrow> default_val (valueDescriptor (qs ! i)) | Some u \<Rightarrow> u)
      (RR (j # rest) N) = Inr (v, RR rest N)"
    using rd N by (simp add: rj_reads_def)
  have nm: "rr_readObjectMemberName (RR (JString (pd_name (qs ! i)) # j # rest) N) = Inr (pd_name (qs ! i), RR (j # rest) N)"
    using rj_reads_read [where conv = conv_string, OF conv_c_string [OF name]] N by (simp add: rr_readObjectMemberName_def rj_reads_def)
  have null: "rr_tryReadNull (RR (j # rest) N) = Inr (False, RR (j # rest) N)"
    using j by (simp add: rr_tryReadNull_def rr_value_def)
  show "rj_read_member S qs ps_All (mk_area qs xs, RR (rj_member (pd_name (qs ! i), j) @ rest) N) =
      Inr (mk_area qs (xs[i := Some v]), RR rest N)"
    using find_named_nth [OF qs(2,4)] inc qs rd' nm null by (simp add: rj_member_def del: ps_le_iff)
qed (simp add: rj_member_def)

lemma rj_takes_null_member:
  assumes qs: "wf_tags qs" "distinct (map pd_name qs)" "length xs = length qs" "i < length qs"
    and name: "c_string (pd_name (qs ! i))"
  shows "takes (rj_read_member S qs ps_All) (rj_member (pd_name (qs ! i), JNull)) (mk_area qs xs) (mk_area qs (xs[i := None]))"
  unfolding takes_def
proof (intro conjI allI impI)
  fix rest :: "json list" and N :: "json list list" assume N: "N \<noteq> []"
  have inc: "ps_le (pd_set (qs ! i)) ps_All" using pd_index_less [OF qs(1,4)] by simp
  have nm: "rr_readObjectMemberName (RR (JString (pd_name (qs ! i)) # JNull # rest) N) = Inr (pd_name (qs ! i), RR (JNull # rest) N)"
    using rj_reads_read [where conv = conv_string, OF conv_c_string [OF name]] N by (simp add: rr_readObjectMemberName_def rj_reads_def)
  have null: "rr_tryReadNull (RR (JNull # rest) N) = Inr (True, RR rest N)"
    using N by (simp add: rr_tryReadNull_def rr_value_def rr_finalizeRead_def)
  show "rj_read_member S qs ps_All (mk_area qs xs, RR (rj_member (pd_name (qs ! i), JNull) @ rest) N) =
      Inr (mk_area qs (xs[i := None]), RR rest N)"
    using find_named_nth [OF qs(2,4)] inc qs nm null by (simp add: rj_member_def del: ps_le_iff)
qed (simp add: rj_member_def)

text \<open>
  What the members after the properties \<open>pre\<close> are written as, and what reading them does to an instance with
  the values \<open>xs\<close> in their slots.
\<close>

definition rj_writes_nested :: "(rapid_writer \<Rightarrow> rapid_writer result) \<Rightarrow> json_event list \<Rightarrow> bool" where
  "rj_writes_nested f es \<longleftrightarrow> (\<forall>out N. N \<noteq> [] \<longrightarrow> f (RW out N) = Inr (RW (out @ es) N))"

definition rj_members_ok ::
    "rapid_serializer \<Rightarrow> pdesc list \<Rightarrow> property_set \<Rightarrow> pdesc list \<Rightarrow> val option list \<Rightarrow> val option list \<Rightarrow> val option list \<Rightarrow> val option list \<Rightarrow> bool" where
  "rj_members_ok S pre inc ps us ys zs xs \<longleftrightarrow>
     (\<exists>es ms. rj_writes_nested (rj_write_props S inc (length pre) ps (mk_area (pre @ ps) (us @ ys))) es
        \<and> spells es (members ms)
        \<and> takes_all (rj_read_member S (pre @ ps) ps_All) (map rj_member ms) (mk_area (pre @ ps) (zs @ xs))
            (mk_area (pre @ ps) (zs @ text_merged_slots inc ps xs ys)))"

lemma rj_members_excluded:
  assumes "\<not> ps_le (pd_set (PropertyDescriptor d n t k)) inc"
    and "rj_members_ok S (pre @ [PropertyDescriptor d n t k]) inc ps (us @ [y]) ys (zs @ [x]) xs"
  shows "rj_members_ok S pre inc (PropertyDescriptor d n t k # ps) us (y # ys) zs (x # xs)"
  using assms by (simp add: rj_members_ok_def rj_writes_nested_def del: ps_le_iff)

definition rj_written_member :: "rapid_serializer \<Rightarrow> pdesc list \<Rightarrow> nat \<Rightarrow> pdesc \<Rightarrow> area \<Rightarrow> rapid_writer \<Rightarrow> rapid_writer result" where
  "rj_written_member S qs k p a w =
     (if isValid p a then bindE (read_slot k a) (\<lambda>v. rj_write S (valueDescriptor p) v w) else Inr (rw_writeNull w))"

lemma rj_one_member:
  assumes p: "p = PropertyDescriptor d n t k" and qs: "wf_tags (pre @ p # ps)" "distinct (map pd_name (pre @ p # ps))"
    and len: "length us = length pre" "length zs = length pre" "length ys = length ps" "length xs = length ps"
    and n: "c_string n"
    and val: "\<And>v. y = Some v \<Longrightarrow> rj_value (rj_write S d v) (rj_read S d (case x of None \<Rightarrow> default_val d | Some u \<Rightarrow> u)) (m v)"
  shows "\<exists>e j. rj_writes (rj_written_member S (pre @ p # ps) (length pre) p (mk_area (pre @ p # ps) (us @ y # ys))) e
    \<and> spells e [j] \<and> takes (rj_read_member S (pre @ p # ps) ps_All) (rj_member (n, j))
        (mk_area (pre @ p # ps) (zs @ x # xs)) (mk_area (pre @ p # ps) (zs @ map_option m y # xs))"
proof -
  let ?qs = "pre @ p # ps" and ?k = "length pre"
  have k: "?k < length ?qs" "?qs ! ?k = p" "(us @ y # ys) ! ?k = y" "(zs @ x # xs) ! ?k = x" using len by (simp_all add: nth_append)
  have pd: "valueDescriptor p = d" "pd_name p = n" by (simp_all add: p)
  have upd: "(zs @ x # xs)[?k := u] = zs @ u # xs" for u using len(2) by (metis list_update_length)
  have valid: "isValid p (mk_area ?qs (us @ y # ys)) \<longleftrightarrow> y \<noteq> None"
    using isValid_mk_area [OF qs(1), of "us @ y # ys" ?k] k len by (simp del: isValid_iff)
  show ?thesis
  proof (cases y)
    case None
    have "takes (rj_read_member S ?qs ps_All) (rj_member (n, JNull)) (mk_area ?qs (zs @ x # xs)) (mk_area ?qs (zs @ None # xs))"
      using rj_takes_null_member [OF qs, of "zs @ x # xs" ?k S] k len n by (simp add: p upd)
    then show ?thesis using valid None
      by (intro exI [of _ "[EvNull]"] exI [of _ JNull])
        (simp add: rj_written_member_def rj_writes_def rw_writeNull_def rw_emit_def del: isValid_iff)
  next
    case (Some v)
    obtain e j where e: "rj_writes (rj_write S d v) e" "spells e [j]" "j \<noteq> JNull"
      "rj_reads (rj_read S d (case x of None \<Rightarrow> default_val d | Some u \<Rightarrow> u)) j (m v)"
      using val [OF Some] by (auto simp: rj_value_def)
    have rd: "rj_reads (rj_read S (valueDescriptor (?qs ! ?k))
        (case (zs @ x # xs) ! ?k of None \<Rightarrow> default_val (valueDescriptor (?qs ! ?k)) | Some u \<Rightarrow> u)) j (m v)"
      unfolding k(2,4) pd by (rule e(4))
    have nm: "c_string (pd_name (?qs ! ?k))" unfolding k(2) pd by (rule n)
    have "takes (rj_read_member S ?qs ps_All) (rj_member (n, j)) (mk_area ?qs (zs @ x # xs)) (mk_area ?qs (zs @ Some (m v) # xs))"
      using rj_takes_member [OF qs _ k(1) nm e(3) rd] len unfolding k(2) pd upd by simp
    then show ?thesis using valid Some e(1,2) k(3) len
      by (intro exI [of _ e] exI [of _ j]) (simp add: rj_written_member_def rj_writes_def p del: isValid_iff)
  qed
qed

lemma rj_write_props_member:
  assumes "N \<noteq> []" "p = PropertyDescriptor d n t k" "ps_le (pd_set p) inc"
  shows "rj_write_props S inc i (p # ps) a (RW out N) =
    bindE (rj_written_member S qs i p a (RW (out @ [EvString n]) N)) (rj_write_props S inc (Suc i) ps a)"
  using assms
  by (simp add: rj_written_member_def rw_writeObjectMemberName_def rw_emit_def Let_def del: isValid_iff ps_le_iff)

lemma rj_members_included:
  assumes p: "p = PropertyDescriptor d n t k" and qs: "wf_tags (pre @ p # ps)" "distinct (map pd_name (pre @ p # ps))"
    and len: "length us = length pre" "length zs = length pre" "length ys = length ps" "length xs = length ps"
    and n: "c_string n" and inc: "ps_le (pd_set p) inc"
    and val: "\<And>v. y = Some v \<Longrightarrow> rj_value (rj_write S d v) (rj_read S d (case x of None \<Rightarrow> default_val d | Some u \<Rightarrow> u))
        (text_merged d (case x of None \<Rightarrow> default_val d | Some u \<Rightarrow> u) v)"
    and tl: "\<And>x'. rj_members_ok S (pre @ [p]) inc ps (us @ [y]) ys (zs @ [x']) xs"
  shows "rj_members_ok S pre inc (p # ps) us (y # ys) zs (x # xs)"
proof -
  let ?qs = "pre @ p # ps" and ?k = "length pre" and ?m = "text_merged d (case x of None \<Rightarrow> default_val d | Some u \<Rightarrow> u)"
  obtain e j where e: "rj_writes (rj_written_member S ?qs ?k p (mk_area ?qs (us @ y # ys))) e" "spells e [j]"
     "takes (rj_read_member S ?qs ps_All) (rj_member (n, j)) (mk_area ?qs (zs @ x # xs)) (mk_area ?qs (zs @ map_option ?m y # xs))"
    using rj_one_member [OF p qs len n val] by blast
  obtain es ms where tl': "rj_writes_nested (rj_write_props S inc (Suc ?k) ps (mk_area ?qs (us @ y # ys))) es"
    "spells es (members ms)"
    "takes_all (rj_read_member S ?qs ps_All) (map rj_member ms) (mk_area ?qs (zs @ map_option ?m y # xs))
       (mk_area ?qs (zs @ map_option ?m y # text_merged_slots inc ps xs ys))"
    using tl [of "map_option ?m y"] by (auto simp: rj_members_ok_def)
  have "rj_writes_nested (rj_write_props S inc ?k (p # ps) (mk_area ?qs (us @ y # ys))) ([EvString n] @ e @ es)"
    using e(1) tl'(1) rj_write_props_member [OF _ p inc, where qs = ?qs]
    by (simp add: rj_writes_nested_def rj_writes_def del: rj_write_props.simps)
  moreover have "spells ([EvString n] @ e @ es) (members ((n, j) # ms))"
    using spells_append [OF spells_string spells_append [OF e(2) tl'(2)], of n] by simp
  moreover have "takes_all (rj_read_member S ?qs ps_All) (map rj_member ((n, j) # ms)) (mk_area ?qs (zs @ x # xs))
      (mk_area ?qs (zs @ text_merged_slots inc (p # ps) (x # xs) (y # ys)))"
    using e(3) tl'(3) inc by (auto simp: p simp del: ps_le_iff)
  ultimately show ?thesis unfolding rj_members_ok_def by (intro exI conjI)
qed

text \<open>The object around the members.\<close>

lemma rj_write_object:
  assumes "rj_writes_nested (rj_write_props S inc 0 ps a) es"
  shows "bindE (rj_write_props S inc 0 ps a (rw_writeObjectBegin (RW out N))) rw_writeObjectEnd =
    Inr (RW (out @ EvStartObject # es @ [EvEndObject]) N)"
  using assms by (simp add: rj_writes_nested_def rw_writeObjectBegin_def rw_open_def rw_writeObjectEnd_def rw_close_def rw_emit_def)

lemma rj_read_object:
  assumes "takes_all (rj_read_member S qs inc) (map rj_member ms) a b"
  shows "bindE (rr_readObjectBegin (RR (JObject ms # rest) N)) (\<lambda>r.
      loopE (Suc (values_left r)) (at_end rr_tryReadObjectEnd) (rj_read_member S qs inc) (a, r)) = Inr (b, leave rest N)"
  using loop_takes [where test = rr_tryReadObjectEnd and N = "(JObject ms # rest) # N" and n = "Suc (length (members ms))",
      OF tryReadEnd_simps(2) _ assms]
  by (simp add: readBegin_simps values_left_def members_concat del: loopE.simps)

lemma rj_struct:
  assumes "rj_members_ok S [] (valid_of ps ys) ps [] ys [] xs"
  shows "rj_value (rj_write S (StructD (StructDescriptor n fl ps)) (VStruct (mk_area ps ys)))
    (rj_read S (StructD (StructDescriptor n fl ps)) (VStruct (mk_area ps xs)))
    (VStruct (mk_area ps (text_merged_slots (valid_of ps ys) ps xs ys)))"
proof -
  obtain es ms where ms: "rj_writes_nested (rj_write_props S (valid_of ps ys) 0 ps (mk_area ps ys)) es"
    "spells es (members ms)" "takes_all (rj_read_member S ps ps_All) (map rj_member ms) (mk_area ps xs)
       (mk_area ps (text_merged_slots (valid_of ps ys) ps xs ys))"
    using assms by (auto simp: rj_members_ok_def)
  have "rj_writes (rj_write S (StructD (StructDescriptor n fl ps)) (VStruct (mk_area ps ys))) (EvStartObject # es @ [EvEndObject])"
    using rj_write_object [OF ms(1)] by (simp add: rj_writes_def area_of_def)
  moreover have "rj_reads (rj_read S (StructD (StructDescriptor n fl ps)) (VStruct (mk_area ps xs))) (JObject ms)
      (VStruct (mk_area ps (text_merged_slots (valid_of ps ys) ps xs ys)))"
    using rj_read_object [OF ms(3)]
    by (simp add: rj_reads_def readBegin_simps area_of_def mapV_def del: loopE.simps)
  ultimately show ?thesis by (intro rj_valueI [OF _ spells_object [OF ms(2)]]) simp_all
qed

lemma write_then_read_json:
  assumes fmt: "rj_EnumFormat S = RjTag"
  shows "wf_descr d \<Longrightarrow> rj_type d \<Longrightarrow> val_ok d v \<Longrightarrow> rj_ok S d v \<Longrightarrow> val_ok d old \<Longrightarrow>
      rj_value (rj_write S d v) (rj_read S d old) (text_merged d old v)"
    "wf_props ps \<Longrightarrow> rj_members ps \<Longrightarrow> wf_tags (pre @ ps) \<Longrightarrow> distinct (map pd_name (pre @ ps)) \<Longrightarrow>
      length us = length pre \<Longrightarrow> length zs = length pre \<Longrightarrow> length ys = length ps \<Longrightarrow> length xs = length ps \<Longrightarrow>
      slots_ok ps ys \<Longrightarrow> rj_ok_slots S ps ys \<Longrightarrow> slots_ok ps xs \<Longrightarrow> rj_members_ok S pre inc ps us ys zs xs"
proof (induction d and ps arbitrary: v old and pre us ys zs xs inc rule: wf_descr_wf_props.induct)
  case (1 t)
  then show ?case using rj_fund [of t v S] by (simp add: rj_value_def rj_writes_def rj_reads_def)
next
  case (2 n es)
  then obtain w where "v = VEnum w" by (cases v) auto
  then show ?case using rj_enum [OF 2(1) _ fmt, of w] 2(4) by (simp add: rj_value_def rj_writes_def rj_reads_def enum_of_def)
next
  case (3 d)
  obtain vs where v: "v = VVector vs" "list_all (val_ok d) vs" using 3(4) by (cases v) auto
  have "rj_value (rj_write S d u) (rj_read S d (default_val d)) (text_merged d (default_val d) u)" if "u \<in> set vs" for u
    using 3(1) [of u "default_val d"] 3(2,3,5) v that default_val_ok [of d] by (auto simp: list_all_iff vals_of_def)
  from rj_vector [where vs = vs, OF this] show ?case unfolding v(1) text_merged.simps by (simp only: vals_of_def val.case)
next
  case (4 n fl ps)
  have wf: "wf_tags ps" "wf_props ps" "distinct (map pd_name ps)" "rj_members ps" using 4(2,3) by simp_all
  obtain us where v: "v = VStruct (mk_area ps us)" "length us = length ps" "slots_ok ps us"
    using val_ok_struct [OF 4(4) wf(1)] by auto
  obtain xs where xs: "old = VStruct (mk_area ps xs)" "length xs = length ps" "slots_ok ps xs"
    using val_ok_struct [OF 4(6) wf(1)] by auto
  have "rj_members_ok S [] (valid_of ps us) ps [] us [] xs"
    using 4(1) [OF wf(2,4), of "[]" "[]" "[]" us xs "valid_of ps us"] wf v xs 4(5) by (simp add: area_of_def)
  from rj_struct [OF this] show ?case
    unfolding v(1) xs(1) text_merged.simps area_of_def val.case validProperties_mk_area slots_mk_area .
next
  case 5
  then show ?case by (auto simp: rj_members_ok_def rj_writes_nested_def intro!: exI [of _ "[]"])
next
  case (6 d n t key ps)
  let ?p = "PropertyDescriptor d n t key"
  obtain y ys' x xs' where ys: "ys = y # ys'" "xs = x # xs'" using 6(9,10) by (cases ys; cases xs) auto
  have wf: "wf_descr d" "wf_props ps" "c_string n" "rj_type d" "rj_members ps" using 6(3,4) by simp_all
  have ok: "\<And>v. y = Some v \<Longrightarrow> val_ok d v \<and> rj_ok S d v" "slots_ok ps ys'" "rj_ok_slots S ps ys'"
    "\<And>v. x = Some v \<Longrightarrow> val_ok d v" "slots_ok ps xs'" using 6(11-13) by (simp_all add: ys)
  have tl: "rj_members_ok S (pre @ [?p]) inc ps (us @ [y]) ys' (zs @ [x']) xs'" for x'
    using 6(2) [OF wf(2,5), of "pre @ [?p]" "us @ [y]" "zs @ [x']" ys' xs' inc] 6(5-10) ok by (simp add: ys)
  show ?case
  proof (cases "ps_le (pd_set ?p) inc")
    case False
    then show ?thesis using rj_members_excluded [OF False tl] by (simp add: ys)
  next
    case True
    have "val_ok d (case x of None \<Rightarrow> default_val d | Some u \<Rightarrow> u)"
      using ok(4) default_val_ok [OF wf(1)] by (simp split: option.split)
    from 6(1) [OF wf(1,4) _ _ this] ok(1) show ?thesis
      unfolding ys using 6(5-10) by (intro rj_members_included [OF refl _ _ _ _ _ _ wf(3) True _ tl]) (simp_all add: ys)
  qed
qed

section \<open>Properties\<close>

text \<open>C5: With enumerators written by their tags, the text that the RapidJSON serializer writes for an
  instance, restricted to any properties, is read into another instance and replaces the
  written properties like the text serializers do. The conditions: enumerators are declared,
  the names of the properties are distinct and, like the strings, free of null characters,
  32-bit floats survive the conversion to double and back, the libraries read back UUIDs and
  time points, and the RapidJSON parser gives back the value whose calls its writer got.\<close>

theorem rapid_reads_merge:
  assumes "rj_EnumFormat S = RjTag" "wf_tags ps" "wf_props ps" "rj_type (StructD (StructDescriptor n fl ps))"
    and "wf_area ps a" "slots_ok ps (slots a)" "rj_ok_slots S ps (slots a)" "wf_area ps b" "slots_ok ps (slots b)"
    and lib: "\<And>evs. rj_events S ps a inc = Inr evs \<Longrightarrow> reads_back S evs"
  shows "\<exists>s b'. rj_serialize S ps a inc = Inr s \<and> rj_deserialize S ps ps_All b s = Inr b'
     \<and> wf_area ps b' \<and> slots b' = text_merged_slots inc ps (slots b) (slots a)"
proof -
  have ps: "distinct (map pd_name ps)" "rj_members ps" using assms(4) by simp_all
  obtain ys where ys: "length ys = length ps" "a = mk_area ps ys" using assms(2,5) by (auto elim: wf_areaE)
  obtain xs where xs: "length xs = length ps" "b = mk_area ps xs" using assms(2,8) by (auto elim: wf_areaE)
  have ok: "slots_ok ps ys" "rj_ok_slots S ps ys" "slots_ok ps xs" using assms(6,7,9) ys xs by simp_all
  have "rj_members_ok S [] inc ps [] ys [] xs"
    using write_then_read_json(2) [OF assms(1,3) ps(2), of "[]" "[]" "[]"] assms(2) ps(1) ys(1) xs(1) ok by simp
  then obtain es ms where ms: "rj_writes_nested (rj_write_props S inc 0 ps a) es" "spells es (members ms)"
    "takes_all (rj_read_member S ps ps_All) (map rj_member ms) b (mk_area ps (text_merged_slots inc ps xs ys))"
    by (auto simp: rj_members_ok_def ys(2) xs(2))
  let ?evs = "EvStartObject # es @ [EvEndObject]"
  have evs: "rj_events S ps a inc = Inr ?evs"
    using rj_write_object [OF ms(1), of "[]" "[]"] by (auto simp: rj_events_def bindE_eq_Inr)
  have doc: "rj_text S ?evs \<noteq> []" "rj_parse S (rj_text S ?evs) = Some (JObject ms)"
    using lib [OF evs] spells_object [OF ms(2)] by (simp_all add: reads_back_def)
  have "rj_deserialize_value S ps ps_All b (JObject ms) =
      Inr (mk_area ps (text_merged_slots inc ps xs ys), \<lparr>rr_input = None, rr_nesting = []\<rparr>)"
    using rj_read_object [OF ms(3), of "[]" "[]"] by (simp add: rj_deserialize_value_def leave_def del: loopE.simps)
  then have "rj_deserialize S ps ps_All b (rj_text S ?evs) = Inr (mk_area ps (text_merged_slots inc ps xs ys))"
    using doc by (simp add: rj_deserialize_def)
  moreover have "length (text_merged_slots inc ps xs ys) = length ps" by (rule length_text_merged_slots)
  ultimately show ?thesis using assms(2) evs by (auto simp: rj_serialize_def ys(2) xs(2))
qed

section \<open>Events stand for one value only\<close>

text \<open>
  A stack of the values of each array and object that has not ended yet, the innermost first, shows that
  events stand for at most one value. It serves the proof of the witness only.
\<close>

fun pair_up :: "json list \<Rightarrow> (string \<times> json) list option" where
  "pair_up [] = Some []"
| "pair_up (JString n # j # js) = map_option ((#) (n, j)) (pair_up js)"
| "pair_up _ = None"

fun spelt_value :: "json \<Rightarrow> json list list \<Rightarrow> json list list option" where
  "spelt_value j (js # st) = Some ((js @ [j]) # st)"
| "spelt_value j [] = None"

fun spelt_step :: "json_event \<Rightarrow> json list list \<Rightarrow> json list list option" where
  "spelt_step EvNull st = spelt_value JNull st"
| "spelt_step (EvBool b) st = spelt_value (JBool b) st"
| "spelt_step (EvInt i) st = spelt_value (JInteger i) st"
| "spelt_step (EvUint i) st = spelt_value (JInteger i) st"
| "spelt_step (EvInt64 i) st = spelt_value (JInteger i) st"
| "spelt_step (EvUint64 i) st = spelt_value (JInteger i) st"
| "spelt_step (EvDouble w) st = spelt_value (JDouble w) st"
| "spelt_step (EvString s) st = spelt_value (JString s) st"
| "spelt_step EvStartArray st = Some ([] # st)"
| "spelt_step EvStartObject st = Some ([] # st)"
| "spelt_step EvEndArray (js # st) = spelt_value (JArray js) st"
| "spelt_step EvEndObject (js # st) = Option.bind (pair_up js) (\<lambda>ms. spelt_value (JObject ms) st)"
| "spelt_step _ [] = None"

fun spelt :: "json_event list \<Rightarrow> json list list \<Rightarrow> json list list option" where
  "spelt [] st = Some st"
| "spelt (e # es) st = Option.bind (spelt_step e st) (spelt es)"

lemma spelt_append: "spelt (es @ fs) st = Option.bind (spelt es st) (spelt fs)"
  by (induction es arbitrary: st) (auto split: bind_split)

lemma pair_up_members [simp]: "pair_up (members ms) = Some ms"
  by (induction ms) auto

lemma spells_spelt: "spells es js \<Longrightarrow> spelt es (xs # st) = Some ((xs @ js) # st)"
proof (induction arbitrary: xs st rule: spells.induct)
  case (spells_append es js fs ks)
  then show ?case by (simp add: spelt_append)
next
  case (spells_array es js)
  from this(2) [of "[]"] show ?case by (simp add: spelt_append)
next
  case (spells_object es ms)
  from this(2) [of "[]"] show ?case by (simp add: spelt_append)
qed auto

lemma spells_unique: "spells es js \<Longrightarrow> spells es ks \<Longrightarrow> js = ks"
  using spells_spelt [of es js "[]" "[]"] spells_spelt [of es ks "[]" "[]"] by simp

lemma example_rj_type: "rj_type (StructD (StructDescriptor ''Example'' 0 example_props))"
  by (simp add: example_props_def c_string_def)

text \<open>A library that writes and parses one document.\<close>

definition example_events :: "json_event list" where
  "example_events =
     [EvStartObject, EvString ''id'', EvInt 7, EvString ''text'', EvString ''y'',
      EvString ''inner'', EvStartObject, EvString ''x'', EvUint 1, EvEndObject, EvEndObject]"

definition example_json :: json where
  "example_json =
     JObject [(''id'', JInteger 7), (''text'', JString ''y''), (''inner'', JObject [(''x'', JInteger 1)])]"

definition example_rapid :: rapid_serializer where
  "example_rapid = RapidJsonSerializer example_library
     (\<lambda>evs. if evs = example_events then ''{\"id\":7,\"text\":\"y\",\"inner\":{\"x\":1}}'' else [])
     (\<lambda>s. if s = ''{\"id\":7,\"text\":\"y\",\"inner\":{\"x\":1}}'' then Some example_json else None)"

lemma example_spells: "spells example_events [example_json]"
proof -
  have "spells [EvString ''x'', EvUint 1] (members [(''x'', JInteger 1)])"
    using spells_append [OF spells_string spells_integers(2), of "''x''" 1] by simp
  from spells_object [OF this] have inner: "spells [EvStartObject, EvString ''x'', EvUint 1, EvEndObject] [JObject [(''x'', JInteger 1)]]"
    by simp
  have "spells ([EvString ''id''] @ [EvInt 7] @ [EvString ''text''] @ [EvString ''y''] @ [EvString ''inner''] @
      [EvStartObject, EvString ''x'', EvUint 1, EvEndObject])
    ([JString ''id''] @ [JInteger 7] @ [JString ''text''] @ [JString ''y''] @ [JString ''inner''] @ [JObject [(''x'', JInteger 1)]])"
    by (intro spells_append inner) simp_all
  then have "spells [EvString ''id'', EvInt 7, EvString ''text'', EvString ''y'', EvString ''inner'',
      EvStartObject, EvString ''x'', EvUint 1, EvEndObject]
    (members [(''id'', JInteger 7), (''text'', JString ''y''), (''inner'', JObject [(''x'', JInteger 1)])])"
    by simp
  from spells_object [OF this] show ?thesis by (simp add: example_events_def example_json_def)
qed

lemma example_reads_back: "reads_back example_rapid example_events"
  using spells_unique [OF _ example_spells] by (auto simp: reads_back_def example_rapid_def RapidJsonSerializer_def)

lemma example_events:
  "rj_events example_rapid example_props (example_area (Some 7) (Some ''y'') (Some (example_inner (Some 1) None))) ps_All
     = Inr example_events"
  by code_simp

lemma rapid_reads_merge_witness:
  "\<exists>s b'. rj_serialize example_rapid example_props
       (example_area (Some 7) (Some ''y'') (Some (example_inner (Some 1) None))) ps_All = Inr s
     \<and> rj_deserialize example_rapid example_props ps_All
         (example_area (Some 5) None (Some (example_inner None (Some 2)))) s = Inr b'
     \<and> slots b' ! 1 = Some (VString ''y'') \<and> slots b' ! 2 = Some (VStruct (example_inner (Some 1) (Some 2)))"
proof -
  let ?a = "example_area (Some 7) (Some ''y'') (Some (example_inner (Some 1) None))"
  let ?b = "example_area (Some 5) None (Some (example_inner None (Some 2)))"
  have "rj_EnumFormat example_rapid = RjTag" by (simp add: example_rapid_def RapidJsonSerializer_def)
  moreover have "rj_ok_slots example_rapid example_props (slots ?a)"
    by (simp add: example_props_def example_area_def example_inner_def rj_fund_ok_def c_string_def)
  moreover have "slots_ok example_props (slots ?a)" "slots_ok example_props (slots ?b)"
    using example_slots_ok [of "Some 7" "Some ''y''" "Some (Some 1, None)"] example_slots_ok [of "Some 5" None "Some (None, Some 2)"]
    by simp_all
  moreover have "reads_back example_rapid evs" if "rj_events example_rapid example_props ?a ps_All = Inr evs" for evs
    using that example_events example_reads_back by simp
  ultimately obtain s b' where r: "rj_serialize example_rapid example_props ?a ps_All = Inr s"
    "rj_deserialize example_rapid example_props ps_All ?b s = Inr b'"
    "slots b' = text_merged_slots ps_All example_props (slots ?b) (slots ?a)"
    using rapid_reads_merge [of example_rapid example_props "''Example''" 0 ?a ?b ps_All] example_wf_tags example_wf_props
      example_rj_type example_wf_area by blast
  have "slots b' ! 1 = Some (VString ''y'') \<and> slots b' ! 2 = Some (VStruct (example_inner (Some 1) (Some 2)))"
    using r(3) by (auto simp: example_props_def example_area_def example_inner_def pd_index_def mk_area_def
        valid_of_def ps_members_inject [symmetric])
  then show ?thesis using r(1-2) by blast
qed

text \<open>A number for an 8-bit property is checked only against the 32 bits that RapidJSON reads: outside
  of them RapidJSON's assertion fails, and inside of them the number is reduced modulo 256 without an error.\<close>

theorem rapid_narrow_integers:
  assumes "N \<noteq> []"
  shows "rj_read_fund S T_uint8 (RR (JInteger i # rest) N) =
    (if 0 \<le> i \<and> i < 2 ^ 32 then Inr (VUInt8 (word_of_int (i mod 256)), RR rest N) else rj_assertion)"
proof -
  have "word_of_int (i mod 256) = (word_of_int i :: 8 word)"
    by (simp add: word_of_int_eq_iff take_bit_eq_mod)
  then show ?thesis
    using assms by (simp add: rj_read_fund_def Let_def rr_read_def rr_value_def conv_int_def rr_finalizeRead_def mapV_def)
qed

lemma rapid_narrow_integers_witness:
  "rj_read_fund (RapidJsonSerializer example_library (\<lambda>evs. []) (\<lambda>s. None)) T_uint8 (RR [JInteger 258] [[]]) =
     Inr (VUInt8 2, RR [] [[]])"
  using rapid_narrow_integers [of "[[]]" "RapidJsonSerializer example_library (\<lambda>evs. []) (\<lambda>s. None)" 258 "[]"] by simp

end
