(* ===== verification/Spec2Isabelle.thy ===== *)
theory Spec2Isabelle
  imports Stream_Channel Handshake Host_Cleanup Auth_Manager Guest_Transceiver Descriptor_Exchange Text_Skip Uri_Facts Experimental_Cbor Rapid_Roundtrip
begin

text \<open>
  A model of dots-cpp, the C++ library of the DOTS communication system. Applications exchange
  \<^emph>\<open>instances\<close> of struct types: a guest publishes an instance, a host dispatches it, keeps it in a
  container when its type is cached, and relays it to every guest that has joined the group of the
  type. What is modelled is the core of \<open>lib/\<close>, from the single property of an instance up to hosts
  and guests; every definition follows one function or type of the code and has its name where it can.

  \<^bold>\<open>Conventions.\<close> An exception is a value: a fallible operation returns an \<open>exn + 'a\<close>, and one that
  changes a state returns the new state with it, so that what an operation has done before it raised
  stays done. Behaviour that C++ leaves undefined (a read behind a buffer, a dangling pointer, an
  object that is used without having been constructed, a recursion that does not end) is the exception
  \<open>UndefinedBehaviour\<close>, so a theorem that an operation returns rules it out. Integers have the width
  the code gives them, floating-point values are bit patterns, text is a list of characters.

  \<^bold>\<open>Types and instances.\<close> \<open>Property_Set\<close> is the 32-bit set of property tags (\<open>type/PropertySet.h\<close>).
  \<open>Type_Model\<close> holds the descriptors (\<open>type/StructDescriptor.h\<close>, \<open>PropertyDescriptor.h\<close>, \<open>EnumDescriptor.h\<close>),
  \<open>Value_Order\<close> values with equality, order and typing, \<open>Struct_Ops\<close> the operations of an instance on its
  property area (\<open>Property.h\<close>, \<open>StructDescriptor.cpp\<close>, \<open>Struct.h\<close>). \<open>Struct_Facts\<close> shows each operation as
  an update of the slots of a well-formed area, which is a map from tags to values; \<open>Key_Order\<close> shows
  that comparisons are a strict weak order, by the contract \<open>weak_order\<close> of a comparison of \<open>std::map\<close>.
  \<open>Example_Type\<close> is the type the witnesses use.

  \<^bold>\<open>Serialisation.\<close> \<open>Cbor_Codec\<close> has the readers and writers of bytes (\<open>serialization/formats/Cbor*.h\<close>),
  \<open>Cbor_Serializer\<close> the serializer (\<open>CborSerializer.h\<close>, \<open>TypeVisitor.h\<close>). \<open>Cbor_Roundtrip\<close> shows that reading
  what was written merges the written instance into the one that is read into, \<open>Cbor_Typing\<close> that any
  input that is read successfully leaves an instance well typed, and \<open>Cbor_Skip\<close> in which ways skipping can end, with the
  reads that are checked and those that are not. Where the reader rejects its input, the code reads behind it before
  it throws (\<open>CborReader.cpp\<close>), so a rejection is undefined here (\<open>throwException\<close>). \<open>Experimental_Cbor\<close> is the
  experimental serializer (\<open>ExperimentalCborSerializer.h\<close>) with the same merging theorem. The depth of \<open>skip_depth\<close> is the length of the input plus one; each level
  consumes a byte, and \<open>skip_depth_reached\<close> shows that the bound is never what ends it.

  \<^bold>\<open>Text.\<close> \<open>Text_Format\<close> has the string and the JSON format and their writer, \<open>Text_Reader\<close> the reader
  (\<open>serialization/formats/Text*.h\<close>), \<open>Text_Serializer\<close> the serializer (\<open>TextSerializer.h\<close>). \<open>Text_Numbers\<close> and
  \<open>Text_Floats\<close> are the conversions of the C++ standard library the code calls, floating-point numbers included,
  in exact integer arithmetic. \<open>Text_Tokens\<close> and \<open>Float_Facts\<close> show that tokens, strings and numbers are read as they
  were written, and \<open>Text_Roundtrip\<close> that reading a text merges the written instance into the one that is read
  into. A loop that repeats without reading anything never ends in the code; \<open>Text_Skip\<close> shows that three for each
  character and three more is as much depth as skipping a value can use, so that what it leaves open does not return.
  \<open>Rapid_Json\<close> has the serializer over RapidJSON (\<open>RapidJsonSerializer.h\<close>, \<open>formats/RapidJson*.h\<close>): the calls it makes to
  the writer of the library, and how it reads the document the library has parsed; \<open>Rapid_Roundtrip\<close> shows the merging
  theorem for a library whose parser gives back the value that the calls to the writer spell.

  \<^bold>\<open>URIs.\<close> \<open>Uri\<close> is the text of a URI with the views of its parts (\<open>tools/Uri.cpp\<close>), which may be null or dangle;
  \<open>Uri_Facts\<close> shows that the parts are found, and what the setters do to them.

  \<^bold>\<open>Caches and handlers.\<close> \<open>Std_Map\<close> is \<open>std::map\<close> with a given comparison, \<open>Dots_Container\<close> the clones of a
  type (\<open>Container.cpp\<close>), \<open>Container_Pool\<close> the containers by type and by name (\<open>ContainerPool.cpp\<close>),
  \<open>Dispatcher\<close> the handlers (\<open>Dispatcher.cpp\<close>, \<open>Event.cpp\<close>). A handler is a function that asks for further calls
  of the dispatcher, which are executed to a depth the caller of \<open>dispatch\<close> chooses; where the theorems speak
  of handlers that do not dispatch, every depth above zero gives the result. Handler maps and containers are iterated
  while handlers run: the state records the changes of the containers (\<open>changes\<close>), an event of an update shows the clone
  as it is when a handler is called (\<open>live_event\<close>), and an iterator or an event whose clone has been extracted or
  destroyed meanwhile is undefined. \<open>Dispatcher_Facts\<close> proves the
  invariant with the locale \<open>dispatcher_invariant\<close>: what each single step keeps is kept whatever handlers do.

  \<^bold>\<open>Types at run time.\<close> \<open>Type_Registry\<close> has the registry of descriptors (\<open>type/Registry.cpp\<close>,
  \<open>DescriptorMap.cpp\<close>) over a heap, because descriptors are shared and refer to each other; a registration is nested as deep as
  there are descriptors at most. \<open>Descriptor_Exchange\<close> has the conversion of descriptors to instances and back
  (\<open>io/DescriptorConverter.cpp\<close>) and the export and import of a channel (\<open>io/Channel.cpp\<close>), and shows that what one side
  exports the other can import, type by type, and then has the same data.

  \<^bold>\<open>Connections.\<close> \<open>Messages\<close> are the instances the library itself reads, \<open>Text_Numbers\<close> and \<open>Credentials\<close> the
  nonces and digests of the handshake (\<open>io/auth/\<close>), \<open>Connection\<close> the state machine (\<open>Connection.cpp\<close>) over an
  environment: how the owner stores the connection, what the channel does and what the handlers do.
  \<open>Connection_Facts\<close> states the contract of that environment, the locale \<open>connection_client\<close>, under which every
  message moves a connection along the automaton of the protocol; \<open>Connection_Invariant\<close> carries an invariant of
  the owner through. \<open>Handshake\<close> runs a host and a guest against each other. \<open>Auth_Manager\<close> is the manager that
  decides on credentials (\<open>LegacyAuthManager.cpp\<close>, \<open>tools/IpNetwork.cpp\<close>).

  \<^bold>\<open>Transceivers.\<close> \<open>Host_Transceiver\<close> (\<open>HostTransceiver.cpp\<close>) owns the connections of its guests, their groups and a
  dispatcher. A transmission whose channel fails closes a connection, which publishes removals, which may fail
  again: \<open>host_transmit\<close> has the depth of this nesting as an argument, and the theorems about failures hold for
  every depth. \<open>Host_Facts\<close> interprets both contracts for the host and proves its invariant, \<open>Host_Relay\<close> the way
  of an instance through it, \<open>Host_Cleanup\<close> what a closed connection leaves behind. Like the event handlers, the
  transition handler of an application is a program over the dispatcher (\<open>host_transition_handler\<close>,
  \<open>guest_transition_handler\<close>); what an application does to a transceiver within its handlers beyond that is not modelled. \<open>Guest_Transceiver\<close>
  (\<open>GuestTransceiver.cpp\<close>, \<open>Subscription.cpp\<close>) owns one connection, subscriptions and the list of joined groups.

  \<^bold>\<open>The byte stream.\<close> \<open>Stream_Channel\<close> is \<open>AsyncStreamChannel.h\<close> with the second transmission format: what it
  writes for a transmission, its buffers, and how it reads transmissions from the bytes that arrive, however they
  are cut; its loop ends because every transmission consumes the bytes of its size.

  \<^bold>\<open>Parameters.\<close> The transport below \<open>Channel::transmitImpl\<close> is a function that says which transmission fails; the text of
  UUIDs and of time points (Boost and the date library) is that of library functions, and so are the
  hash and hex coding of digests, address parsing and subnet arithmetic (Boost, PicoSHA2) are library parameters;
  random numbers and the clock are inputs; the order of the \<open>std::unordered_set\<close> of a group is a parameter of the host; the writer and the parser
  of RapidJSON are functions from calls to text and from text to a document.

  \<^bold>\<open>Not modelled.\<close> Memory layout and usage figures, because an instance is modelled by its slots; the network
  channels and listeners, the event loop, timers and the application class, which are I/O on Boost.Asio; logging;
  the legacy ASCII serializer; the first transmission format; the compile-time templates of static structs, whose run-time part is
  that of \<open>Struct_Ops\<close>; the test framework, code generator, examples and generated code.
\<close>

end
